(* ===== verification/Prelude.thy ===== *)
theory Prelude
  imports Main "HOL-Library.Word" "HOL-Library.Char_ord" "HOL-Library.List_Lexorder"
begin

unbundle bit_operations_syntax

text \<open>
  What every component of the development shares: the machine integer types of the C++ code, the
  ways a call can fail to return normally, the state-and-failure monad in which the stateful
  code is written, the memory representation of integers on a little-endian host, the conversion
  between \<open>char\<close> buffers and \<open>std::string\<close>, and \<open>std::map\<close> as a key-sorted association list.
\<close>

section \<open>Machine types\<close>

type_synonym byte = "8 word"
type_synonym u8 = "8 word"
type_synonym u16 = "16 word"
type_synonym u32 = "32 word"
type_synonym u64 = "64 word"
type_synonym i8 = "8 word"
type_synonym i16 = "16 word"
type_synonym i32 = "32 word"
type_synonym i64 = "64 word"

named_theorems mrun \<open>equations that execute one step of a monadic program\<close>
named_theorems bytes \<open>equations on the byte representation of integers\<close>

section \<open>Failures\<close>

text \<open>
  The exceptions the sources throw, and the three other ways in which a call does not return: a
  failed \<open>assert\<close> (the Release flags of \<open>src/src/CMakeLists.txt\<close> do not define \<open>NDEBUG\<close>, so
  asserts stay in the binary) ends the process, undefined behaviour promises nothing, and a loop
  may not end. Only \<open>Throw\<close> is what a C++ \<open>catch\<close> sees.
\<close>

datatype protocol_exception = UNKNOWN | INVALID_DATA | NEGATIVE_SIZE | SIZE_LIMIT

datatype exn =
    Length_error
  | Invalid_argument
  | Bad_alloc
  | Bad_array_new_length
  | TProtocolException protocol_exception
  | System_error

datatype failure = Throw exn | Abort | Undefined_behaviour | Diverges

section \<open>Stateful code that can fail\<close>

text \<open>
  A computation takes the state and returns a failure or a value together with the state it
  leaves behind: an exception does not undo the writes made before it.
\<close>

type_synonym ('s, 'a) M = "'s \<Rightarrow> (failure + 'a) \<times> 's"

definition mret :: "'a \<Rightarrow> ('s, 'a) M" where
  "mret x s = (Inr x, s)"

definition mfail :: "failure \<Rightarrow> ('s, 'a) M" where
  "mfail f s = (Inl f, s)"

definition mthrow :: "exn \<Rightarrow> ('s, 'a) M" where
  "mthrow e = mfail (Throw e)"

definition mbind :: "('s, 'a) M \<Rightarrow> ('a \<Rightarrow> ('s, 'b) M) \<Rightarrow> ('s, 'b) M" where
  "mbind m k s = (case m s of (Inl f, s') \<Rightarrow> (Inl f, s') | (Inr x, s') \<Rightarrow> k x s')"

definition mget :: "('s \<Rightarrow> 'a) \<Rightarrow> ('s, 'a) M" where
  "mget f s = (Inr (f s), s)"

definition mmodify :: "('s \<Rightarrow> 's) \<Rightarrow> ('s, unit) M" where
  "mmodify f s = (Inr (), f s)"

definition mif :: "bool \<Rightarrow> ('s, 'a) M \<Rightarrow> ('s, 'a) M \<Rightarrow> ('s, 'a) M" where
  "mif b m n s = (if b then m s else n s)"

text \<open>A computation on one member of an object, run on the object.\<close>

definition mlift :: "('s \<Rightarrow> 't) \<Rightarrow> (('t \<Rightarrow> 't) \<Rightarrow> 's \<Rightarrow> 's) \<Rightarrow> ('t, 'a) M \<Rightarrow> ('s, 'a) M" where
  "mlift get upd m s = (case m (get s) of (r, t) \<Rightarrow> (r, upd (\<lambda>_. t) s))"

text \<open>\<open>for (i = 0; i < n; i++)\<close> accumulating a value, and iteration over a sequence.\<close>

fun mfor :: "nat \<Rightarrow> ('a \<Rightarrow> ('s, 'a) M) \<Rightarrow> 'a \<Rightarrow> ('s, 'a) M" where
  "mfor 0 body acc = mret acc"
| "mfor (Suc n) body acc = mbind (body acc) (\<lambda>acc'. mfor n body acc')"

fun mforeach :: "'b list \<Rightarrow> ('b \<Rightarrow> 'a \<Rightarrow> ('s, 'a) M) \<Rightarrow> 'a \<Rightarrow> ('s, 'a) M" where
  "mforeach [] body acc = mret acc"
| "mforeach (x # xs) body acc = mbind (body x acc) (\<lambda>acc'. mforeach xs body acc')"

lemma mret_run [mrun]: "mret x s = (Inr x, s)"
  by (simp add: mret_def)

lemma mfail_run [mrun]: "mfail f s = (Inl f, s)"
  by (simp add: mfail_def)

lemma mthrow_run [mrun]: "mthrow e s = (Inl (Throw e), s)"
  by (simp add: mthrow_def mfail_def)

lemma mget_run [mrun]: "mget f s = (Inr (f s), s)"
  by (simp add: mget_def)

lemma mmodify_run [mrun]: "mmodify f s = (Inr (), f s)"
  by (simp add: mmodify_def)

lemma mif_run [mrun]: "mif b m n s = (if b then m s else n s)"
  by (simp add: mif_def)

lemma mbind_run [mrun]:
  "mbind m k s = (case m s of (Inl f, s') \<Rightarrow> (Inl f, s') | (Inr x, s') \<Rightarrow> k x s')"
  by (simp add: mbind_def)

lemma mbind_Inr: "m s = (Inr x, s') \<Longrightarrow> mbind m k s = k x s'"
  by (simp add: mbind_def)

lemma mbind_Inl: "m s = (Inl f, s') \<Longrightarrow> mbind m k s = (Inl f, s')"
  by (simp add: mbind_def)

lemma mbind_Inr_iff:
  "mbind m k s = (Inr y, t) \<longleftrightarrow> (\<exists>x s'. m s = (Inr x, s') \<and> k x s' = (Inr y, t))"
  by (auto simp: mbind_def split: prod.splits sum.splits)

lemma mbind_Inr_E:
  assumes "mbind m k s = (Inr y, t)"
  obtains x s' where "m s = (Inr x, s')" and "k x s' = (Inr y, t)"
  using assms by (auto simp: mbind_Inr_iff)

lemma mbind_assoc: "mbind (mbind m k) l = mbind m (\<lambda>x. mbind (k x) l)"
  by (rule ext) (auto simp: mbind_def split: prod.splits sum.splits)

section \<open>Integers in memory\<close>

text \<open>
  \<open>le_bytes n w\<close> are the low \<open>n\<close> bytes of a word, least significant first: what \<open>memcpy\<close> from an
  integer object gives on the little-endian hosts the program is built for. \<open>le_word\<close> is the
  opposite direction, the value of an integer object whose bytes were written one by one.
\<close>

primrec le_bytes :: "nat \<Rightarrow> 'a::len word \<Rightarrow> byte list" where
  "le_bytes 0 w = []"
| "le_bytes (Suc n) w = ucast w # le_bytes n (drop_bit 8 w)"

primrec le_word :: "byte list \<Rightarrow> 'a::len word" where
  "le_word [] = 0"
| "le_word (b # bs) = (ucast b OR push_bit 8 (le_word bs))"

definition mem_bytes :: "'a::len word \<Rightarrow> byte list" where
  "mem_bytes w = le_bytes (LENGTH('a) div 8) w"

text \<open>Network order: most significant byte first.\<close>

definition be_bytes :: "'a::len word \<Rightarrow> byte list" where
  "be_bytes w = rev (mem_bytes w)"

definition be_word :: "byte list \<Rightarrow> 'a::len word" where
  "be_word bs = le_word (rev bs)"

lemma length_le_bytes [simp]: "length (le_bytes n w) = n"
  by (induction n arbitrary: w) auto

lemma length_mem_bytes [simp]: "length (mem_bytes (w :: 'a::len word)) = LENGTH('a) div 8"
  by (simp add: mem_bytes_def)

lemma length_be_bytes [simp]: "length (be_bytes (w :: 'a::len word)) = LENGTH('a) div 8"
  by (simp add: be_bytes_def)

lemma bit_le_word_bound: "bit (le_word bs :: 'a::len word) i \<Longrightarrow> i < 8 * length bs"
proof (induction bs arbitrary: i)
  case Nil
  then show ?case by simp
next
  case (Cons b bs)
  from Cons.prems consider "bit b i" | "8 \<le> i" "bit (le_word bs :: 'a word) (i - 8)"
    by (auto simp: bit_simps)
  then show ?case
  proof cases
    case 1
    then have "i < 8" using bit_imp_le_length [of b i] by simp
    then show ?thesis by simp
  next
    case 2
    with Cons.IH [of "i - 8"] show ?thesis by simp
  qed
qed

lemma le_word_le_bytes:
  "(le_word (le_bytes n w) :: 'a::len word) = take_bit (8 * n) (w :: 'a word)"
proof (induction n arbitrary: w)
  case 0
  show ?case by simp
next
  case (Suc n)
  show ?case
    by (rule bit_word_eqI) (auto simp: Suc.IH bit_simps)
qed

lemma drop_bit_le_word_Cons:
  assumes "8 * length (b # bs) \<le> LENGTH('a::len)"
  shows "drop_bit 8 (le_word (b # bs) :: 'a word) = le_word bs"
proof (rule bit_word_eqI)
  fix i
  assume "i < LENGTH('a)"
  have "\<not> bit b (8 + i)"
    using bit_imp_le_length [of b "8 + i"] by auto
  moreover have "8 + i < LENGTH('a)" if "bit (le_word bs :: 'a word) i"
    using bit_le_word_bound [OF that] assms by simp
  ultimately show "bit (drop_bit 8 (le_word (b # bs) :: 'a word)) i = bit (le_word bs :: 'a word) i"
    by (auto simp: bit_simps)
qed

lemma ucast_le_word_Cons:
  assumes "8 \<le> LENGTH('a::len)"
  shows "(ucast (le_word (b # bs) :: 'a word) :: byte) = b"
  by (rule bit_word_eqI) (use assms in \<open>auto simp: bit_simps\<close>)

lemma le_bytes_le_word:
  "length bs = n \<Longrightarrow> 8 * n \<le> LENGTH('a::len) \<Longrightarrow> le_bytes n (le_word bs :: 'a word) = bs"
proof (induction bs arbitrary: n)
  case Nil
  then show ?case by simp
next
  case (Cons b bs)
  then obtain m where m: "n = Suc m" "length bs = m" by (cases n) auto
  have dropped: "drop_bit 8 (le_word (b # bs) :: 'a word) = le_word bs"
    by (rule drop_bit_le_word_Cons) (use Cons.prems m in simp)
  have first: "(ucast (le_word (b # bs) :: 'a word) :: byte) = b"
    by (rule ucast_le_word_Cons) (use Cons.prems m in simp)
  have rest: "le_bytes m (le_word bs :: 'a word) = bs"
    by (rule Cons.IH) (use Cons.prems m in simp_all)
  show ?case
    unfolding m(1) le_bytes.simps dropped first rest ..
qed

lemma be_word_be_bytes [bytes]:
  "LENGTH('a::len) = 8 * (LENGTH('a) div 8) \<Longrightarrow> be_word (be_bytes (w :: 'a word)) = w"
  by (simp add: be_word_def be_bytes_def mem_bytes_def le_word_le_bytes)

lemma be_bytes_be_word [bytes]:
  "length bs = LENGTH('a::len) div 8 \<Longrightarrow> be_bytes (be_word bs :: 'a word) = bs"
  by (simp add: be_word_def be_bytes_def mem_bytes_def le_bytes_le_word)

lemma byte_bit_high: "8 \<le> i \<Longrightarrow> \<not> bit (b :: byte) i"
  using bit_imp_le_length [of b i] by auto

lemma be_bytes32:
  "be_bytes (w :: u32) = [ucast (drop_bit 24 w), ucast (drop_bit 16 w), ucast (drop_bit 8 w), ucast w]"
proof -
  have "le_bytes 4 w = le_bytes (Suc (Suc (Suc (Suc 0)))) w" by (simp add: numeral_eq_Suc)
  then show ?thesis by (simp add: be_bytes_def mem_bytes_def)
qed

lemma le_word_append:
  "(le_word (xs @ ys) :: 'a::len word) = le_word xs OR push_bit (8 * length xs) (le_word ys)"
proof (induction xs)
  case Nil
  show ?case by simp
next
  case (Cons x xs)
  show ?case by (simp add: Cons.IH push_bit_or ac_simps)
qed

lemma ucast_le_word:
  assumes "8 * length bs \<le> LENGTH('a::len)"
  shows "(ucast (le_word bs :: 'a word) :: 'b::len word) = le_word bs"
  using assms
proof (induction bs)
  case Nil
  show ?case by simp
next
  case (Cons b bs)
  then have IH: "(ucast (le_word bs :: 'a word) :: 'b word) = le_word bs" by simp
  show ?case
  proof (rule bit_word_eqI)
    fix i
    assume i: "i < LENGTH('b)"
    have "bit (le_word bs :: 'b word) (i - 8) = bit (ucast (le_word bs :: 'a word) :: 'b word) (i - 8)"
      by (simp add: IH)
    moreover have "i < LENGTH('a)" if "bit (le_word bs :: 'a word) (i - 8)" "8 \<le> i"
      using bit_le_word_bound [OF that(1)] that(2) Cons.prems by simp
    moreover have "i < LENGTH('a)" if "bit b i"
      using that byte_bit_high [of i b] Cons.prems by (cases "8 \<le> i") auto
    ultimately show "bit (ucast (le_word (b # bs) :: 'a word) :: 'b word) i =
        bit (le_word (b # bs) :: 'b word) i"
      using i by (auto simp: bit_simps)
  qed
qed

section \<open>Characters and strings\<close>

definition byte_of_char :: "char \<Rightarrow> byte" where
  "byte_of_char c = of_char c"

definition char_of_byte :: "byte \<Rightarrow> char" where
  "char_of_byte b = char_of (unat b)"

definition bytes_of_string :: "string \<Rightarrow> byte list" where
  "bytes_of_string = map byte_of_char"

definition string_of_bytes :: "byte list \<Rightarrow> string" where
  "string_of_bytes = map char_of_byte"

lemma char_of_byte_of_char [simp]: "char_of_byte (byte_of_char c) = c"
proof -
  have lt: "of_char c < (256 :: nat)"
    by (cases c) (simp add: of_char_def horner_sum_simps)
  have "(of_char c :: byte) = of_nat (of_char c)"
    by (simp add: of_nat_of_char)
  then have "unat (of_char c :: byte) = of_char c"
    using lt by (simp add: unat_of_nat)
  then show ?thesis
    by (simp add: char_of_byte_def byte_of_char_def)
qed

lemma string_of_bytes_of_string [simp]: "string_of_bytes (bytes_of_string xs) = xs"
  by (induction xs) (simp_all add: string_of_bytes_def bytes_of_string_def)

lemma length_bytes_of_string [simp]: "length (bytes_of_string xs) = length xs"
  by (simp add: bytes_of_string_def)

lemma length_string_of_bytes [simp]: "length (string_of_bytes bs) = length bs"
  by (simp add: string_of_bytes_def)

lemma bytes_of_string_eq_Nil [simp]: "bytes_of_string xs = [] \<longleftrightarrow> xs = []"
  by (simp add: bytes_of_string_def)

text \<open>\<open>std::string::find\<close> as the sources use it: only whether the pattern occurs.\<close>

fun contains_str :: "string \<Rightarrow> string \<Rightarrow> bool" where
  "contains_str [] pat = (pat = [])"
| "contains_str (c # cs) pat = (take (length pat) (c # cs) = pat \<or> contains_str cs pat)"

lemma contains_str_iff: "contains_str xs pat \<longleftrightarrow> (\<exists>a b. xs = a @ pat @ b)"
proof (induction xs)
  case Nil
  show ?case by auto
next
  case (Cons c cs)
  show ?case
  proof
    assume "contains_str (c # cs) pat"
    then consider "take (length pat) (c # cs) = pat" | "contains_str cs pat" by auto
    then show "\<exists>a b. c # cs = a @ pat @ b"
    proof cases
      case 1
      then have "c # cs = [] @ pat @ drop (length pat) (c # cs)"
        by (metis append.left_neutral append_take_drop_id)
      then show ?thesis by blast
    next
      case 2
      with Cons.IH obtain a b where "cs = a @ pat @ b" by blast
      then have "c # cs = (c # a) @ pat @ b" by simp
      then show ?thesis by blast
    qed
  next
    assume "\<exists>a b. c # cs = a @ pat @ b"
    then obtain a b where ab: "c # cs = a @ pat @ b" by blast
    show "contains_str (c # cs) pat"
    proof (cases a)
      case Nil
      with ab have "take (length pat) (c # cs) = pat" by simp
      then show ?thesis by simp
    next
      case (Cons x xs)
      with ab have "cs = xs @ pat @ b" by simp
      with Cons.IH show ?thesis by auto
    qed
  qed
qed

section \<open>Ordered maps\<close>

text \<open>
  \<open>std::map<std::string, V>\<close> as its key-sorted list of entries, the order in which the code
  iterates over it; \<open>List_Lexorder\<close> over \<open>Char_ord\<close> is the order of \<open>std::string\<close>.
\<close>

type_synonym ('k, 'v) smap = "('k \<times> 'v) list"

fun smap_insert :: "'k::linorder \<Rightarrow> 'v \<Rightarrow> ('k, 'v) smap \<Rightarrow> ('k, 'v) smap" where
  "smap_insert k v [] = [(k, v)]"
| "smap_insert k v ((k', v') # m) =
     (if k < k' then (k, v) # (k', v') # m
      else if k = k' then (k, v) # m
      else (k', v') # smap_insert k v m)"

definition smap_wf :: "('k::linorder, 'v) smap \<Rightarrow> bool" where
  "smap_wf m \<longleftrightarrow> sorted_wrt (<) (map fst m)"

definition smap_lookup :: "('k, 'v) smap \<Rightarrow> 'k \<Rightarrow> 'v option" where
  "smap_lookup m k = map_of m k"

lemma keys_smap_insert: "fst ` set (smap_insert k v m) = insert k (fst ` set m)"
  by (induction k v m rule: smap_insert.induct) auto

lemma smap_insert_wf [simp]: "smap_wf m \<Longrightarrow> smap_wf (smap_insert k v m)"
  unfolding smap_wf_def
proof (induction k v m rule: smap_insert.induct)
  case (2 k v k' v' m)
  then show ?case
    using keys_smap_insert [of k v m] by auto
qed simp

lemma smap_lookup_insert:
  "smap_lookup (smap_insert k v m) k' = (if k' = k then Some v else smap_lookup m k')"
  unfolding smap_lookup_def
  by (induction k v m rule: smap_insert.induct) auto

lemma smap_insert_last:
  "smap_wf (m @ [(k, v)]) \<Longrightarrow> smap_insert k v m = m @ [(k, v)]"
  unfolding smap_wf_def
  by (induction k v m rule: smap_insert.induct) (auto simp: sorted_wrt_append)

text \<open>Inserting the entries of an ordered map one after the other rebuilds it.\<close>

lemma foldl_smap_insert:
  "smap_wf (m @ es) \<Longrightarrow> foldl (\<lambda>m (k, v). smap_insert k v m) m es = m @ es"
proof (induction es arbitrary: m)
  case Nil
  then show ?case by simp
next
  case (Cons e es)
  obtain k v where e: "e = (k, v)" by (cases e)
  from Cons.prems have "smap_wf ((m @ [(k, v)]) @ es)" by (simp add: e)
  moreover from this have "smap_wf (m @ [(k, v)])"
    by (simp add: smap_wf_def sorted_wrt_append)
  ultimately show ?case
    using Cons.IH [of "m @ [(k, v)]"] by (simp add: e smap_insert_last)
qed

end
