(* ===== verification/Byte_Buf.thy ===== *)
theory Byte_Buf
  imports Prelude
begin

text \<open>
  The growable byte buffer of \<open>src/src/dbc/util/memory/byte_buf.{h,cpp}\<close>, through which every
  byte to and from the network passes. A pointer into the allocation is its offset from
  \<open>m_buf.get()\<close>. The interface that its clients rely on is the locale \<open>byte_fifo\<close>: a queue of
  bytes in which writes append and reads take from the front; the buffer interprets it.
\<close>

section \<open>State\<close>

definition MAX_BYTE_BUF_LEN :: u32 where
  "MAX_BYTE_BUF_LEN = 16 * 1024 * 1024"

definition DEFAULT_BUF_LEN :: u32 where
  "DEFAULT_BUF_LEN = 10 * 1024"

record byte_buf =
  m_len :: u32
  m_buf :: "byte list"
  m_write_ptr :: nat
  m_write_bound :: nat
  m_auto_alloc :: bool
  m_read_ptr :: nat
  m_read_bound :: nat

text \<open>The constructor: \<open>new char[len]()\<close> zero-fills, and throws for a negative length.\<close>

definition new_buf :: "u32 \<Rightarrow> bool \<Rightarrow> byte_buf" where
  "new_buf len auto_alloc =
     \<lparr>m_len = len, m_buf = replicate (unat len) 0, m_write_ptr = 0, m_write_bound = unat len,
      m_auto_alloc = auto_alloc, m_read_ptr = 0, m_read_bound = 0\<rparr>"

definition byte_buf_ctor :: "i32 \<Rightarrow> bool \<Rightarrow> failure + byte_buf" where
  "byte_buf_ctor len auto_alloc =
     (if sint len < 0 then Inl (Throw Bad_array_new_length) else Inr (new_buf len auto_alloc))"

section \<open>Operations\<close>

definition get_valid_read_len :: "byte_buf \<Rightarrow> u32" where
  "get_valid_read_len b =
     (if m_read_ptr b < m_read_bound b then of_nat (m_read_bound b - m_read_ptr b) else 0)"

definition get_valid_write_len :: "byte_buf \<Rightarrow> u32" where
  "get_valid_write_len b =
     (if m_write_ptr b < m_write_bound b then of_nat (m_write_bound b - m_write_ptr b) else 0)"

text \<open>\<open>memcpy\<close> of some bytes to an offset of the allocation, and from one.\<close>

definition memcpy_to :: "nat \<Rightarrow> byte list \<Rightarrow> byte list \<Rightarrow> byte list" where
  "memcpy_to off bs mem = take off mem @ bs @ drop (off + length bs) mem"

definition memcpy_from :: "nat \<Rightarrow> nat \<Rightarrow> byte list \<Rightarrow> byte list" where
  "memcpy_from off n mem = take n (drop off mem)"

text \<open>
  The loop that doubles the size until the pending bytes and the new ones fit. It may run
  forever (a buffer of length 0 doubles to 0), so not returning is \<open>None\<close>; \<open>Some None\<close> is the
  loop ending with no size found.
\<close>

partial_function (option) grow_len :: "u32 \<Rightarrow> u32 \<Rightarrow> u32 \<Rightarrow> u32 option option" where
  "grow_len valid buf_len new_len =
     (if new_len \<le> MAX_BYTE_BUF_LEN
      then if buf_len < new_len - valid then Some (Some new_len)
           else grow_len valid buf_len (push_bit 1 new_len)
      else Some None)"

definition copy_in :: "byte list \<Rightarrow> byte_buf \<Rightarrow> byte_buf" where
  "copy_in bs b =
     (let w = m_write_ptr b + length bs
      in b\<lparr>m_buf := memcpy_to (m_write_ptr b) bs (m_buf b), m_write_ptr := w, m_read_bound := w\<rparr>)"

definition grow_to :: "u32 \<Rightarrow> byte_buf \<Rightarrow> byte_buf" where
  "grow_to new_len b =
     (let valid = unat (get_valid_read_len b);
          new_buf = memcpy_to 0 (memcpy_from (m_read_ptr b) valid (m_buf b))
                      (replicate (unat new_len) 0)
      in b\<lparr>m_len := new_len, m_buf := new_buf, m_write_ptr := valid,
           m_write_bound := unat new_len, m_read_bound := valid, m_read_ptr := 0\<rparr>)"

definition write_to_byte_buf :: "byte list \<Rightarrow> (byte_buf, u32) M" where
  "write_to_byte_buf in_buf b =
     (let buf_len = length in_buf
      in if buf_len = 0 then (Inl Abort, b)
         else if m_write_ptr b + buf_len \<le> m_write_bound b
         then (Inr (of_nat buf_len), copy_in in_buf b)
         else if m_auto_alloc b
         then (case grow_len (get_valid_read_len b) (of_nat buf_len) (push_bit 1 (m_len b)) of
                 None \<Rightarrow> (Inl Diverges, b)
               | Some None \<Rightarrow> (Inl (Throw Length_error), b)
               | Some (Some new_len) \<Rightarrow> (Inr (of_nat buf_len), copy_in in_buf (grow_to new_len b)))
         else (Inl (Throw Length_error), b))"

text \<open>The bytes read are the value; the count the code returns is the length asked for.\<close>

definition read_from_byte_buf :: "nat \<Rightarrow> (byte_buf, byte list) M" where
  "read_from_byte_buf buf_len b =
     (if m_read_ptr b + buf_len \<le> m_read_bound b
      then (Inr (memcpy_from (m_read_ptr b) buf_len (m_buf b)),
            b\<lparr>m_read_ptr := m_read_ptr b + buf_len\<rparr>)
      else (Inl (Throw Length_error), b))"

definition reset :: "byte_buf \<Rightarrow> byte_buf" where
  "reset b = b\<lparr>m_read_ptr := 0, m_write_ptr := 0, m_read_bound := 0\<rparr>"

definition move_write_ptr :: "u32 \<Rightarrow> (byte_buf, unit) M" where
  "move_write_ptr move_len b =
     (if move_len = 0 then (Inl Abort, b)
      else if move_len \<le> get_valid_write_len b
      then (let w = m_write_ptr b + unat move_len
            in (Inr (), b\<lparr>m_write_ptr := w, m_read_bound := w\<rparr>))
      else (Inl (Throw Length_error), b))"

definition move_read_ptr :: "u32 \<Rightarrow> (byte_buf, unit) M" where
  "move_read_ptr move_len b =
     (if move_len < get_valid_read_len b
      then (Inr (), b\<lparr>m_read_ptr := m_read_ptr b + unat move_len\<rparr>)
      else if move_len = get_valid_read_len b then (Inr (), reset b)
      else (Inl (Throw Length_error), b))"

definition move_buf :: "(byte_buf, unit) M" where
  "move_buf b =
     (if m_read_ptr b = 0 then (Inr (), b)
      else if m_read_ptr b = m_write_ptr b then (Inr (), reset b)
      else if m_read_ptr b < m_write_ptr b
      then (let move_len = m_write_ptr b - m_read_ptr b
            in if (of_nat move_len :: u32) = m_len b then (Inr (), b)
               else if (of_nat move_len :: u32) < m_len b
               then (Inr (), b\<lparr>m_buf := memcpy_to 0 (memcpy_from (m_read_ptr b) move_len (m_buf b))
                                                     (m_buf b),
                               m_read_ptr := 0, m_write_ptr := move_len, m_read_bound := move_len\<rparr>)
               else (Inl (Throw Length_error), b))
      else (Inl (Throw Length_error), b))"

definition hex_digit :: "nat \<Rightarrow> char" where
  "hex_digit n = (if n < 10 then char_of (48 + n) else char_of (55 + n))"

fun to_string_loop :: "byte list \<Rightarrow> string" where
  "to_string_loop [] = []"
| "to_string_loop (x # xs) =
     hex_digit (unat x div 16) # hex_digit (unat x mod 16) # CHR '' '' # to_string_loop xs"

definition to_string :: "byte_buf \<Rightarrow> string" where
  "to_string b =
     to_string_loop (memcpy_from (m_read_ptr b) (unat (get_valid_read_len b)) (m_buf b))"

section \<open>The bytes a buffer holds, and its invariant\<close>

definition content :: "byte_buf \<Rightarrow> byte list" where
  "content b = take (m_read_bound b - m_read_ptr b) (drop (m_read_ptr b) (m_buf b))"

definition wf_buf :: "byte_buf \<Rightarrow> bool" where
  "wf_buf b \<longleftrightarrow>
     0 < m_len b \<and> m_len b \<le> MAX_BYTE_BUF_LEN \<and>
     length (m_buf b) = unat (m_len b) \<and> m_write_bound b = unat (m_len b) \<and>
     m_read_ptr b \<le> m_read_bound b \<and> m_read_bound b = m_write_ptr b \<and>
     m_write_ptr b \<le> m_write_bound b"

lemma MAX_nat [simp]: "unat MAX_BYTE_BUF_LEN = 16777216"
  by (simp add: MAX_BYTE_BUF_LEN_def)

lemma DEFAULT_nat [simp]: "unat DEFAULT_BUF_LEN = 10240"
  by (simp add: DEFAULT_BUF_LEN_def)

lemma wf_buf_unat:
  "wf_buf b \<longleftrightarrow>
     0 < unat (m_len b) \<and> unat (m_len b) \<le> 16777216 \<and>
     length (m_buf b) = unat (m_len b) \<and> m_write_bound b = unat (m_len b) \<and>
     m_read_ptr b \<le> m_write_ptr b \<and> m_read_bound b = m_write_ptr b \<and>
     m_write_ptr b \<le> unat (m_len b)"
proof -
  have "(m_len b \<le> MAX_BYTE_BUF_LEN) = (unat (m_len b) \<le> 16777216)"
    by (simp add: word_le_nat_alt)
  moreover have "(0 < m_len b) = (0 < unat (m_len b))"
    by (simp add: word_less_nat_alt)
  ultimately show ?thesis
    by (auto simp: wf_buf_def)
qed

lemma content_eqI:
  "drop (m_read_ptr b) (m_buf b) = xs @ ys \<Longrightarrow> length xs = m_read_bound b - m_read_ptr b \<Longrightarrow>
     content b = xs"
  by (simp add: content_def)

lemma length_content: "wf_buf b \<Longrightarrow> length (content b) = m_read_bound b - m_read_ptr b"
  by (auto simp: content_def wf_buf_unat)

lemma length_content_bound: "wf_buf b \<Longrightarrow> length (content b) \<le> 16777216"
  by (simp add: length_content) (auto simp: wf_buf_unat)

lemma unat_of_nat32: "n < 4294967296 \<Longrightarrow> unat (of_nat n :: u32) = n"
  by (simp add: unat_of_nat)

lemma valid_read_len_content:
  assumes "wf_buf b"
  shows "get_valid_read_len b = of_nat (length (content b))"
  using assms by (simp add: get_valid_read_len_def length_content)

lemma unat_valid_read_len:
  assumes "wf_buf b"
  shows "unat (get_valid_read_len b) = length (content b)"
  using valid_read_len_content [OF assms] length_content_bound [OF assms]
  by (simp add: unat_of_nat32)

lemma unat_valid_write_len:
  assumes "wf_buf b"
  shows "unat (get_valid_write_len b) = m_write_bound b - m_write_ptr b"
  using assms by (auto simp: get_valid_write_len_def wf_buf_unat unat_of_nat32 simp del: of_nat_diff)

lemma new_buf_wf: "0 < len \<Longrightarrow> len \<le> MAX_BYTE_BUF_LEN \<Longrightarrow> wf_buf (new_buf len aa)"
  by (simp add: wf_buf_def new_buf_def)

lemma new_buf_content [simp]: "content (new_buf len aa) = []"
  by (simp add: content_def new_buf_def)

section \<open>The growth loop\<close>

lemma unat_push_bit_1:
  assumes "unat (n :: u32) \<le> 16777216"
  shows "unat (push_bit 1 n) = 2 * unat n"
proof -
  have "push_bit 1 n = 2 * n" by (simp add: push_bit_eq_mult)
  then show ?thesis using assms by (simp add: unat_word_ariths)
qed

lemma grow_len_unfold:
  "grow_len v l n =
     (if unat n \<le> 16777216
      then if l < n - v then Some (Some n) else grow_len v l (push_bit 1 n)
      else Some None)"
  by (subst grow_len.simps) (simp add: word_le_nat_alt)

text \<open>From a positive size the loop always ends: the size doubles until it passes the maximum.\<close>

lemma grow_len_returns: "0 < unat n \<Longrightarrow> \<exists>r. grow_len v l n = Some r"
proof (induction "33554432 - unat n" arbitrary: n rule: less_induct)
  case less
  show ?case
  proof (cases "unat n \<le> 16777216 \<and> \<not> l < n - v")
    case True
    have p: "unat (push_bit 1 n) = 2 * unat n" by (rule unat_push_bit_1) (use True in simp)
    with less.prems True have "33554432 - unat (push_bit 1 n) < 33554432 - unat n" by auto
    from less.hyps [OF this] p less.prems obtain r where "grow_len v l (push_bit 1 n) = Some r"
      by auto
    with True show ?thesis by (simp add: grow_len_unfold [of v l n])
  next
    case False
    then show ?thesis by (auto simp: grow_len_unfold [of v l n])
  qed
qed

text \<open>A size it finds is the first one doubled some number of times, and has room for the data.\<close>

lemma grow_len_found:
  assumes "grow_len v l n = Some (Some m)" and "0 < unat n"
  shows "unat m \<le> 16777216 \<and> l < m - v \<and> (\<exists>k. unat m = unat n * 2 ^ k)"
  using assms
proof (induction "33554432 - unat n" arbitrary: n rule: less_induct)
  case less
  show ?case
  proof (cases "unat n \<le> 16777216 \<and> \<not> l < n - v")
    case True
    have p: "unat (push_bit 1 n) = 2 * unat n" by (rule unat_push_bit_1) (use True in simp)
    with less.prems True have lt: "33554432 - unat (push_bit 1 n) < 33554432 - unat n" by auto
    from less.prems True have "grow_len v l (push_bit 1 n) = Some (Some m)"
      by (simp add: grow_len_unfold [of v l n])
    from less.hyps [OF lt this] p less.prems
    have "unat m \<le> 16777216" "l < m - v" and ex: "\<exists>k. unat m = unat (push_bit 1 n) * 2 ^ k"
      by auto
    moreover from ex obtain k where "unat m = unat n * 2 ^ Suc k"
      unfolding p by (metis mult.assoc mult.commute power_Suc)
    ultimately show ?thesis by blast
  next
    case False
    with less.prems have "m = n" "unat n \<le> 16777216" "l < n - v"
      by (auto simp: grow_len_unfold [of v l n] split: if_splits)
    moreover have "unat n = unat n * 2 ^ 0" by simp
    ultimately show ?thesis by blast
  qed
qed

text \<open>It finds one whenever some number of doublings makes enough room.\<close>

lemma grow_len_finds:
  assumes "0 < unat n" and "unat n * 2 ^ k \<le> 16777216" and "unat v + unat l < unat n * 2 ^ k"
    and "unat v \<le> unat n"
  shows "\<exists>m. grow_len v l n = Some (Some m)"
  using assms
proof (induction k arbitrary: n)
  case 0
  then have "v \<le> n" by (simp add: word_le_nat_alt)
  then have "unat (n - v) = unat n - unat v" by (rule unat_sub)
  with 0 have "l < n - v" by (simp add: word_less_nat_alt)
  with 0 show ?case by (simp add: grow_len_unfold)
next
  case (Suc k)
  have "unat n \<le> unat n * 2 ^ Suc k" by simp
  from le_trans [OF this Suc.prems(2)] have le: "unat n \<le> 16777216" .
  have p: "unat (push_bit 1 n) = 2 * unat n" by (rule unat_push_bit_1 [OF le])
  have "\<exists>m. grow_len v l (push_bit 1 n) = Some (Some m)"
    by (rule Suc.IH) (use Suc.prems p in \<open>simp_all add: mult.commute mult.left_commute\<close>)
  with le show ?case by (auto simp: grow_len_unfold [of v l n])
qed

text \<open>A buffer built with length 0 has no such size, and the loop does not end.\<close>

lemma grow_len_zero_diverges: "grow_len 0 l 0 = None"
proof (rule ccontr)
  assume "grow_len 0 l 0 \<noteq> None"
  then obtain r where ret: "grow_len 0 l 0 = Some r" by blast
  have "\<not> ((0::u32) = 0 \<and> (0::u32) = 0)"
  proof (rule grow_len.raw_induct [where P = "\<lambda>v _ n _. \<not> (v = 0 \<and> n = 0)", OF _ ret])
    fix f v l n r
    assume IH: "\<And>v l n r. f v l n = Some r \<Longrightarrow> \<not> (v = 0 \<and> n = 0)"
      and eq: "(if n \<le> MAX_BYTE_BUF_LEN
          then if l < n - v then Some (Some n) else f v l (push_bit 1 n)
          else Some None) = Some r"
    show "\<not> (v = 0 \<and> n = 0)"
    proof
      assume "v = 0 \<and> n = 0"
      with eq have "f v l (push_bit 1 n) = Some r" by (simp add: MAX_BYTE_BUF_LEN_def)
      with IH \<open>v = 0 \<and> n = 0\<close> show False by fastforce
    qed
  qed
  then show False by simp
qed

section \<open>Every operation keeps the invariant\<close>

lemma memcpy_to_length [simp]:
  "off + length bs \<le> length mem \<Longrightarrow> length (memcpy_to off bs mem) = length mem"
  by (simp add: memcpy_to_def)

lemma copy_in_props:
  assumes wf: "wf_buf b" and fits: "m_write_ptr b + length bs \<le> m_write_bound b"
  shows "wf_buf (copy_in bs b)" and "content (copy_in bs b) = content b @ bs"
proof -
  show "wf_buf (copy_in bs b)"
    using assms by (auto simp: copy_in_def wf_buf_unat Let_def)
  have "drop (m_read_ptr b) (take (m_write_ptr b) (m_buf b)) = content b"
    using wf by (simp add: content_def wf_buf_unat drop_take)
  moreover have "m_read_ptr b \<le> length (take (m_write_ptr b) (m_buf b))"
    using assms by (auto simp: wf_buf_unat)
  ultimately have "drop (m_read_ptr b) (memcpy_to (m_write_ptr b) bs (m_buf b)) =
      content b @ bs @ drop (m_write_ptr b + length bs) (m_buf b)"
    by (simp add: memcpy_to_def)
  moreover have "length (content b @ bs) = m_write_ptr b + length bs - m_read_ptr b"
    using wf by (simp add: length_content) (auto simp: wf_buf_unat)
  ultimately show "content (copy_in bs b) = content b @ bs"
    by (intro content_eqI [where ys = "drop (m_write_ptr b + length bs) (m_buf b)"])
       (simp_all add: copy_in_def Let_def)
qed

lemma grow_to_props:
  assumes wf: "wf_buf b" and fits: "length (content b) \<le> unat n"
    and n: "0 < unat n" "unat n \<le> 16777216"
  shows "wf_buf (grow_to n b)" and "content (grow_to n b) = content b"
    and "m_write_ptr (grow_to n b) = length (content b)"
    and "m_write_bound (grow_to n b) = unat n" and "m_read_ptr (grow_to n b) = 0"
    and "m_len (grow_to n b) = n" and "m_auto_alloc (grow_to n b) = m_auto_alloc b"
proof -
  have c: "memcpy_from (m_read_ptr b) (length (content b)) (m_buf b) = content b"
    using length_content [OF wf] by (simp add: memcpy_from_def content_def)
  show "wf_buf (grow_to n b)"
    using fits n by (simp add: grow_to_def wf_buf_unat Let_def unat_valid_read_len [OF wf] c)
  show "content (grow_to n b) = content b"
    by (rule content_eqI [where ys = "drop (length (content b)) (replicate (unat n) 0)"])
       (simp_all add: grow_to_def memcpy_to_def Let_def unat_valid_read_len [OF wf] c)
  show "m_write_ptr (grow_to n b) = length (content b)"
    and "m_write_bound (grow_to n b) = unat n" and "m_read_ptr (grow_to n b) = 0"
    and "m_len (grow_to n b) = n" and "m_auto_alloc (grow_to n b) = m_auto_alloc b"
    by (simp_all add: grow_to_def Let_def unat_valid_read_len [OF wf])
qed

text \<open>
  A successful write appends to what the buffer holds, whether the bytes fit or the buffer grows.
  \<open>buf_len\<close> is a \<open>uint32_t\<close> in the code, hence the bound on the length.
\<close>

lemma write_success:
  assumes wf: "wf_buf b" and len: "length bs < 4294967296"
    and run: "write_to_byte_buf bs b = (Inr n, b')"
  shows "n = of_nat (length bs)" and "wf_buf b'" and "content b' = content b @ bs"
proof -
  have "n = of_nat (length bs) \<and> wf_buf b' \<and> content b' = content b @ bs"
  proof (cases "m_write_ptr b + length bs \<le> m_write_bound b")
    case True
    with run have "n = of_nat (length bs)" "b' = copy_in bs b"
      by (auto simp: write_to_byte_buf_def Let_def split: if_splits)
    with copy_in_props [OF wf True] show ?thesis by simp
  next
    case False
    with run obtain l where
      g: "grow_len (get_valid_read_len b) (of_nat (length bs)) (push_bit 1 (m_len b)) = Some (Some l)"
      and n: "n = of_nat (length bs)" and b': "b' = copy_in bs (grow_to l b)"
      by (auto simp: write_to_byte_buf_def Let_def split: if_splits option.splits)
    have pos: "0 < unat (push_bit 1 (m_len b))" and two: "unat (push_bit 1 (m_len b)) = 2 * unat (m_len b)"
      using wf unat_push_bit_1 [of "m_len b"] by (auto simp: wf_buf_unat)
    from grow_len_found [OF g pos] obtain k where l: "unat l \<le> 16777216"
      and room: "of_nat (length bs) < l - get_valid_read_len b"
      and k: "unat l = 2 * unat (m_len b) * 2 ^ k"
      unfolding two by blast
    have "length (content b) \<le> unat (m_len b)"
      using wf by (simp add: length_content) (auto simp: wf_buf_unat)
    moreover have "unat (m_len b) \<le> unat l" unfolding k by simp
    ultimately have fits: "length (content b) \<le> unat l" by simp
    have "0 < unat l" unfolding k using wf by (simp add: wf_buf_unat)
    note g' = grow_to_props [OF wf fits this l]
    have "unat (l - get_valid_read_len b) = unat l - length (content b)"
      using fits unat_valid_read_len [OF wf] by (simp add: unat_sub word_le_nat_alt)
    with room len have "length bs < unat l - length (content b)"
      by (simp add: word_less_nat_alt unat_of_nat32)
    then have "m_write_ptr (grow_to l b) + length bs \<le> m_write_bound (grow_to l b)"
      by (simp add: g')
    from copy_in_props [OF g'(1) this] show ?thesis by (simp add: n b' g')
  qed
  then show "n = of_nat (length bs)" and "wf_buf b'" and "content b' = content b @ bs" by auto
qed

text \<open>A write to a well-formed buffer always ends: with the bytes written or with \<open>length_error\<close>.\<close>

lemma write_returns:
  assumes wf: "wf_buf b" and "bs \<noteq> []"
  shows "(\<exists>b'. write_to_byte_buf bs b = (Inr (of_nat (length bs)), b')) \<or>
         write_to_byte_buf bs b = (Inl (Throw Length_error), b)"
proof -
  have "0 < unat (push_bit 1 (m_len b))"
    using wf unat_push_bit_1 [of "m_len b"] by (auto simp: wf_buf_unat)
  from grow_len_returns [OF this] obtain r where
    "grow_len (get_valid_read_len b) (of_nat (length bs)) (push_bit 1 (m_len b)) = Some r" by blast
  with assms show ?thesis
    by (auto simp: write_to_byte_buf_def Let_def split: option.splits)
qed

lemma read_success:
  assumes wf: "wf_buf b" and n: "n \<le> length (content b)"
  defines "b' \<equiv> b\<lparr>m_read_ptr := m_read_ptr b + n\<rparr>"
  shows "read_from_byte_buf n b = (Inr (take n (content b)), b')"
    and "wf_buf b'" and "content b' = drop n (content b)"
proof -
  have le: "m_read_ptr b + n \<le> m_read_bound b"
    using n wf by (simp add: length_content) (auto simp: wf_buf_unat)
  then have "take n (content b) = memcpy_from (m_read_ptr b) n (m_buf b)"
    by (simp add: content_def memcpy_from_def min_def)
  with le show "read_from_byte_buf n b = (Inr (take n (content b)), b')"
    by (simp add: read_from_byte_buf_def b'_def)
  show "wf_buf b'" using wf le by (auto simp: b'_def wf_buf_unat)
  show "content b' = drop n (content b)"
    by (simp add: b'_def content_def drop_take add.commute)
qed

lemma read_short:
  assumes "wf_buf b" and "length (content b) < n"
  shows "read_from_byte_buf n b = (Inl (Throw Length_error), b)"
  using assms by (auto simp: read_from_byte_buf_def length_content)

lemma reset_props [simp]: "wf_buf b \<Longrightarrow> wf_buf (reset b)" "content (reset b) = []"
  by (auto simp: reset_def wf_buf_unat content_def)

lemma move_read_ptr_ok:
  assumes wf: "wf_buf b" and n: "unat n \<le> length (content b)"
  shows "\<exists>b'. move_read_ptr n b = (Inr (), b') \<and> wf_buf b' \<and> content b' = drop (unat n) (content b)"
proof (cases "unat n = length (content b)")
  case True
  then have "n = get_valid_read_len b"
    using unat_valid_read_len [OF wf] by (simp add: word_unat_eq_iff)
  with True wf show ?thesis by (simp add: move_read_ptr_def)
next
  case False
  with n have "unat n < unat (get_valid_read_len b)"
    using unat_valid_read_len [OF wf] by simp
  then have lt: "n < get_valid_read_len b" by (simp add: word_less_nat_alt)
  from read_success(2,3) [OF wf n] lt show ?thesis by (simp add: move_read_ptr_def)
qed

lemma move_read_ptr_over:
  assumes wf: "wf_buf b" and n: "length (content b) < unat n"
  shows "move_read_ptr n b = (Inl (Throw Length_error), b)"
proof -
  have "unat (get_valid_read_len b) < unat n" using unat_valid_read_len [OF wf] n by simp
  then have "get_valid_read_len b < n" by (simp add: word_less_nat_alt)
  then show ?thesis by (auto simp: move_read_ptr_def)
qed

text \<open>Moving the unread bytes to the front changes neither them nor the invariant.\<close>

lemma move_buf_ok:
  assumes wf: "wf_buf b"
  shows "\<exists>b'. move_buf b = (Inr (), b') \<and> wf_buf b' \<and> content b' = content b"
proof -
  let ?n = "m_write_ptr b - m_read_ptr b"
  consider (front) "m_read_ptr b = 0" | (all) "0 < m_read_ptr b" "m_read_ptr b = m_write_ptr b"
    | (part) "0 < m_read_ptr b" "m_read_ptr b < m_write_ptr b"
    using wf unfolding wf_buf_unat by linarith
  then show ?thesis
  proof cases
    case part
    have n: "length (content b) = ?n" using wf by (simp add: length_content wf_buf_unat)
    have c: "memcpy_from (m_read_ptr b) ?n (m_buf b) = content b"
      using wf by (simp add: memcpy_from_def content_def wf_buf_unat)
    have "?n < unat (m_len b)" using part wf by (auto simp: wf_buf_unat)
    then have lt: "(of_nat ?n :: u32) < m_len b"
      using wf by (simp add: word_less_nat_alt unat_of_nat32 wf_buf_unat del: of_nat_diff)
    let ?b' = "b\<lparr>m_buf := memcpy_to 0 (content b) (m_buf b), m_read_ptr := 0, m_write_ptr := ?n,
                 m_read_bound := ?n\<rparr>"
    have "move_buf b = (Inr (), ?b')"
      using part lt c by (simp add: move_buf_def Let_def del: of_nat_diff)
    moreover have "wf_buf ?b'" using wf part n by (auto simp: wf_buf_unat)
    moreover have "content ?b' = content b"
      by (rule content_eqI [where ys = "drop ?n (m_buf b)"]) (simp_all add: memcpy_to_def n)
    ultimately show ?thesis by blast
  next
    case front
    with wf show ?thesis by (simp add: move_buf_def)
  next
    case all
    then have "content b = []" using wf by (simp add: content_def wf_buf_unat)
    with all wf show ?thesis by (simp add: move_buf_def)
  qed
qed

lemma move_write_ptr_ok:
  assumes wf: "wf_buf b" and n: "0 < unat n" "unat n \<le> m_write_bound b - m_write_ptr b"
  shows "\<exists>b'. move_write_ptr n b = (Inr (), b') \<and> wf_buf b' \<and>
           content b' = content b @ take (unat n) (drop (m_write_ptr b) (m_buf b))"
proof -
  have "n \<noteq> 0" using n(1) by auto
  moreover have "n \<le> get_valid_write_len b"
    using n(2) unat_valid_write_len [OF wf] by (simp add: word_le_nat_alt)
  moreover have "content (b\<lparr>m_write_ptr := m_write_ptr b + unat n, m_read_bound := m_write_ptr b + unat n\<rparr>)
      = content b @ take (unat n) (drop (m_write_ptr b) (m_buf b))"
  proof -
    obtain d where d: "m_write_ptr b = m_read_ptr b + d"
      using wf le_Suc_ex by (auto simp: wf_buf_unat)
    show ?thesis using wf d by (simp add: content_def wf_buf_unat take_add add.commute)
  qed
  ultimately show ?thesis
    using wf n by (auto simp: move_write_ptr_def Let_def wf_buf_unat)
qed

section \<open>The interface: a queue of bytes\<close>

text \<open>
  What the codecs above the buffer rely on. \<open>room\<close> is a number of bytes whose writing surely
  succeeds; reads promise nothing about it.
\<close>

locale byte_fifo =
  fixes inv :: "'b \<Rightarrow> bool"
    and bytes_in :: "'b \<Rightarrow> byte list"
    and room :: "'b \<Rightarrow> nat"
    and wr :: "byte list \<Rightarrow> ('b, u32) M"
    and rd :: "nat \<Rightarrow> ('b, byte list) M"
  assumes write_room: "inv b \<Longrightarrow> bs \<noteq> [] \<Longrightarrow> length bs \<le> room b \<Longrightarrow>
      \<exists>b'. wr bs b = (Inr (of_nat (length bs)), b') \<and> inv b' \<and>
           bytes_in b' = bytes_in b @ bs \<and> room b' = room b - length bs"
    and read_enough: "inv b \<Longrightarrow> n \<le> length (bytes_in b) \<Longrightarrow>
      \<exists>b'. rd n b = (Inr (take n (bytes_in b)), b') \<and> inv b' \<and>
           bytes_in b' = drop n (bytes_in b)"
    and read_too_much: "inv b \<Longrightarrow> length (bytes_in b) < n \<Longrightarrow>
      rd n b = (Inl (Throw Length_error), b)"
begin

lemma read_prefix:
  "inv b \<Longrightarrow> bytes_in b = bs @ rest \<Longrightarrow> n = length bs \<Longrightarrow>
     \<exists>b'. rd n b = (Inr bs, b') \<and> inv b' \<and> bytes_in b' = rest"
  using read_enough [of b n] by auto

lemma write_chunks:
  assumes "inv b" and "\<forall>c\<in>set chunks. c \<noteq> []" and "sum_list (map length chunks) \<le> room b"
  shows "\<exists>r b'. mforeach chunks (\<lambda>c _. wr c) x b = (Inr r, b') \<and> inv b' \<and>
           bytes_in b' = bytes_in b @ concat chunks"
  using assms
proof (induction chunks arbitrary: b x)
  case Nil
  then show ?case by (simp add: mrun)
next
  case (Cons c chunks)
  from Cons.prems have "c \<noteq> []" and "length c \<le> room b" by auto
  from write_room [OF Cons.prems(1) this] obtain b1 where
    b1: "wr c b = (Inr (of_nat (length c)), b1)" "inv b1" "bytes_in b1 = bytes_in b @ c"
      "room b1 = room b - length c" by blast
  have "\<exists>r b'. mforeach chunks (\<lambda>c _. wr c) (of_nat (length c)) b1 = (Inr r, b') \<and> inv b' \<and>
      bytes_in b' = bytes_in b1 @ concat chunks"
    by (rule Cons.IH) (use Cons.prems b1 in auto)
  with b1 show ?case by (auto simp: mbind_Inr)
qed

text \<open>Whatever is written, in however many pieces, is read back in order.\<close>

lemma fifo:
  assumes "inv b" and "bytes_in b = []" and "\<forall>c\<in>set chunks. c \<noteq> []"
    and "sum_list (map length chunks) \<le> room b" and "i + n \<le> length (concat chunks)"
  shows "\<exists>r b1 p b2 b3. mforeach chunks (\<lambda>c _. wr c) x b = (Inr r, b1) \<and>
           rd i b1 = (Inr p, b2) \<and> rd n b2 = (Inr (take n (drop i (concat chunks))), b3)"
proof -
  from write_chunks [OF assms(1,3,4), of x] assms(2) obtain r b1 where
    1: "mforeach chunks (\<lambda>c _. wr c) x b = (Inr r, b1)" "inv b1" "bytes_in b1 = concat chunks"
    by auto
  from read_enough [OF 1(2), of i] 1(3) assms(5) obtain b2 where
    2: "rd i b1 = (Inr (take i (concat chunks)), b2)" "inv b2" "bytes_in b2 = drop i (concat chunks)"
    by auto
  have "n \<le> length (bytes_in b2)" using 2(3) assms(5) by simp
  from read_enough [OF 2(2) this] 2(3) obtain b3 where
    3: "rd n b2 = (Inr (take n (drop i (concat chunks))), b3)" by auto
  from 1 2 3 show ?thesis by blast
qed

end

text \<open>
  The sizes a buffer created with \<open>DEFAULT_BUF_LEN\<close> takes are 10240 doubled up to 10 times
  (16 MiB is not one of them), so as long as nothing has been read from it it takes anything
  below 10 MiB in all.
\<close>

definition std_buf :: "byte_buf \<Rightarrow> bool" where
  "std_buf b \<longleftrightarrow>
     m_auto_alloc b \<and> m_read_ptr b = 0 \<and> (\<exists>k\<in>{0..10}. unat (m_len b) = 10240 * 2 ^ k)"

definition buf_room :: "byte_buf \<Rightarrow> nat" where
  "buf_room b = (if std_buf b then 10485759 - length (content b) else 0)"

lemma new_buf_std [simp]: "std_buf (new_buf DEFAULT_BUF_LEN True)"
  unfolding std_buf_def by (auto simp: new_buf_def intro: bexI [of _ 0])

lemma new_buf_default_wf [simp]: "wf_buf (new_buf DEFAULT_BUF_LEN aa)"
  by (rule new_buf_wf) (simp_all add: DEFAULT_BUF_LEN_def MAX_BYTE_BUF_LEN_def)

lemma reset_std: "std_buf b \<Longrightarrow> std_buf (reset b)"
  by (simp add: std_buf_def reset_def)

lemma doubling_bound: "10240 * 2 ^ k \<le> (16777216 :: nat) \<Longrightarrow> k \<le> 10"
proof (rule ccontr)
  assume le: "10240 * 2 ^ k \<le> (16777216 :: nat)" and "\<not> k \<le> 10"
  then have "(2::nat) ^ 11 \<le> 2 ^ k" by (intro power_increasing) simp_all
  with le show False by simp
qed

lemma std_write:
  assumes wf: "wf_buf b" and std: "std_buf b" and ne: "bs \<noteq> []"
    and total: "length (content b) + length bs < 10485760"
  shows "\<exists>b'. write_to_byte_buf bs b = (Inr (of_nat (length bs)), b') \<and> std_buf b'"
proof -
  from std obtain k where k: "k \<le> 10" "unat (m_len b) = 10240 * 2 ^ k" and aa: "m_auto_alloc b"
    and r0: "m_read_ptr b = 0" by (auto simp: std_buf_def)
  have lc: "length (content b) = m_write_ptr b" using wf r0 by (simp add: length_content wf_buf_unat)
  show ?thesis
  proof (cases "m_write_ptr b + length bs \<le> m_write_bound b")
    case True
    moreover from std have "std_buf (copy_in bs b)" by (simp add: std_buf_def copy_in_def Let_def)
    ultimately show ?thesis using ne by (simp add: write_to_byte_buf_def Let_def)
  next
    case False
    with total lc wf k have "k \<noteq> 10" by (auto simp: wf_buf_unat)
    with k have k9: "k \<le> 9" by simp
    have two: "unat (push_bit 1 (m_len b)) = 10240 * 2 ^ Suc k"
      using wf unat_push_bit_1 [of "m_len b"] k by (auto simp: wf_buf_unat)
    have top: "unat (push_bit 1 (m_len b)) * 2 ^ (9 - k) = 10485760"
      unfolding two using k9 by (simp add: power_Suc [symmetric] power_add [symmetric] del: power_Suc)
    have "\<exists>m. grow_len (get_valid_read_len b) (of_nat (length bs)) (push_bit 1 (m_len b)) = Some (Some m)"
      by (rule grow_len_finds [where k = "9 - k"])
         (use top two total lc unat_valid_read_len [OF wf] wf in
           \<open>auto simp: unat_of_nat32 wf_buf_unat k(2) simp del: push_bit_Suc\<close>)
    then obtain m where
      m: "grow_len (get_valid_read_len b) (of_nat (length bs)) (push_bit 1 (m_len b)) = Some (Some m)"
      by blast
    from grow_len_found [OF m] two obtain j where "unat m = 10240 * 2 ^ (Suc k + j)" "unat m \<le> 16777216"
      by (auto simp: power_add mult.assoc)
    then have "\<exists>k\<in>{0..10}. unat m = 10240 * 2 ^ k"
      using doubling_bound [of "Suc k + j"] by (intro bexI [of _ "Suc k + j"]) simp_all
    then have "std_buf (copy_in bs (grow_to m b))"
      using aa by (simp add: std_buf_def copy_in_def grow_to_def Let_def)
    with False ne aa m show ?thesis by (simp add: write_to_byte_buf_def Let_def)
  qed
qed

lemma std_append:
  assumes "wf_buf b" and "std_buf b" and "bs \<noteq> []" and "length (content b) + length bs < 10485760"
  shows "\<exists>b'. write_to_byte_buf bs b = (Inr (of_nat (length bs)), b') \<and> wf_buf b' \<and> std_buf b' \<and>
           content b' = content b @ bs"
proof -
  from std_write [OF assms] obtain b' where
    w: "write_to_byte_buf bs b = (Inr (of_nat (length bs)), b')" "std_buf b'" by blast
  from write_success [OF assms(1) _ w(1)] assms(4) w show ?thesis by auto
qed

interpretation bb: byte_fifo wf_buf content buf_room write_to_byte_buf read_from_byte_buf
proof
  fix b :: byte_buf and bs :: "byte list"
  assume wf: "wf_buf b" and ne: "bs \<noteq> []" and "length bs \<le> buf_room b"
  then have std: "std_buf b" and "0 < length bs" "length bs \<le> 10485759 - length (content b)"
    by (auto simp: buf_room_def split: if_splits)
  then have tot: "length (content b) + length bs < 10485760" by linarith
  from std_write [OF wf std ne tot] obtain b' where
    w: "write_to_byte_buf bs b = (Inr (of_nat (length bs)), b')" and std': "std_buf b'" by blast
  have "length bs < 4294967296" using tot by simp
  from write_success [OF wf this w] w std std' show
    "\<exists>b'. write_to_byte_buf bs b = (Inr (of_nat (length bs)), b') \<and> wf_buf b' \<and>
      content b' = content b @ bs \<and> buf_room b' = buf_room b - length bs"
    by (simp add: buf_room_def)
qed (use read_success read_short in blast)+

section \<open>Properties\<close>

text \<open>A write of a non-empty block to a well-formed buffer always returns: either it appends the
  block to the unread bytes, keeps the invariant and reports the length, or it throws
  \<open>std::length_error\<close> and leaves the buffer as it was.\<close>

theorem write_appends_or_throws:
  assumes "wf_buf b" and "bs \<noteq> []" and "length bs < 4294967296"
  shows "case write_to_byte_buf bs b of
           (Inr n, b') \<Rightarrow> n = of_nat (length bs) \<and> wf_buf b' \<and> content b' = content b @ bs
         | (Inl f, b') \<Rightarrow> f = Throw Length_error \<and> b' = b"
  using write_returns [OF assms(1,2)] write_success [OF assms(1,3)] by auto

theorem write_appends_or_throws_witness:
  "case write_to_byte_buf [1, 2, 3] (new_buf 2 True) of
     (Inr n, b') \<Rightarrow> n = of_nat (length [1::byte, 2, 3]) \<and> wf_buf b' \<and>
       content b' = content (new_buf 2 True) @ [1, 2, 3]
   | (Inl f, b') \<Rightarrow> f = Throw Length_error \<and> b' = new_buf 2 True"
proof -
  have "wf_buf (new_buf 2 True)" by (rule new_buf_wf) (simp_all add: MAX_BYTE_BUF_LEN_def)
  then show ?thesis by (rule write_appends_or_throws) simp_all
qed

text \<open>The default buffer is a queue: blocks written one after the other, below 10 MiB in all, are
  read back in order whatever the boundaries of the reads.\<close>

theorem default_buffer_fifo:
  assumes "\<forall>c\<in>set chunks. c \<noteq> []" and "length (concat chunks) < 10485760"
    and "i + n \<le> length (concat chunks)"
  shows "\<exists>r b1 p b2 b3.
           mforeach chunks (\<lambda>c _. write_to_byte_buf c) x (new_buf DEFAULT_BUF_LEN True) = (Inr r, b1) \<and>
           read_from_byte_buf i b1 = (Inr p, b2) \<and>
           read_from_byte_buf n b2 = (Inr (take n (drop i (concat chunks))), b3)"
  by (rule bb.fifo) (use assms in \<open>auto simp: buf_room_def length_concat\<close>)

theorem default_buffer_fifo_witness:
  "\<exists>r b1 p b2 b3.
     mforeach [[1, 2], [3]] (\<lambda>c _. write_to_byte_buf c) 0 (new_buf DEFAULT_BUF_LEN True) = (Inr r, b1) \<and>
     read_from_byte_buf 1 b1 = (Inr p, b2) \<and> read_from_byte_buf 2 b2 = (Inr [2, 3], b3)"
  using default_buffer_fifo [of "[[1, 2], [3]]" 1 2 0] by simp

text \<open>Consuming the front of the buffer and compacting it, as the receive path does after every
  packet, leaves exactly the bytes behind the consumed ones and a well-formed buffer.\<close>

theorem consume_and_compact:
  assumes "wf_buf b" and "unat n \<le> length (content b)"
  shows "\<exists>b'. mbind (move_read_ptr n) (\<lambda>_. move_buf) b = (Inr (), b') \<and> wf_buf b' \<and>
           content b' = drop (unat n) (content b)"
proof -
  from move_read_ptr_ok [OF assms] obtain b1 where
    1: "move_read_ptr n b = (Inr (), b1)" "wf_buf b1" "content b1 = drop (unat n) (content b)" by blast
  from move_buf_ok [OF 1(2)] 1 show ?thesis by (auto simp: mbind_Inr)
qed

theorem consume_and_compact_witness:
  "\<exists>b'. mbind (move_read_ptr 0) (\<lambda>_. move_buf) (new_buf 4 True) = (Inr (), b') \<and> wf_buf b' \<and>
     content b' = drop (unat (0 :: u32)) (content (new_buf 4 True))"
  by (rule consume_and_compact) (simp_all add: new_buf_wf MAX_BYTE_BUF_LEN_def)

text \<open>A buffer constructed with length 0 and growth enabled cannot be written to: the growth loop
  doubles 0 forever, for every non-empty block.\<close>

theorem zero_length_buffer_write_diverges:
  "bs \<noteq> [] \<Longrightarrow> byte_buf_ctor 0 True = Inr (new_buf 0 True) \<and>
     write_to_byte_buf bs (new_buf 0 True) = (Inl Diverges, new_buf 0 True)"
  using grow_len_zero_diverges [of "of_nat (length bs)"]
  by (simp add: byte_buf_ctor_def write_to_byte_buf_def new_buf_def get_valid_read_len_def)

theorem zero_length_buffer_write_diverges_witness:
  "write_to_byte_buf [7] (new_buf 0 True) = (Inl Diverges, new_buf 0 True)"
  using zero_length_buffer_write_diverges [of "[7]"] by simp

end
