(* ===== verification/Thrift_Protocol.thy ===== *)
theory Thrift_Protocol
  imports Byte_Buf
begin

text \<open>
  The serialisation interface of \<open>src/src/dbc/network/protocol/protocol.h\<close>: the abstract class
  \<open>protocol\<close> (a record of operations over the state of the concrete protocol object), the generic
  \<open>skip\<close>, and the message header \<open>base_header\<close> with its \<open>read\<close> and \<open>write\<close> from \<open>protocol.cpp\<close>,
  which call the operations through that interface. Two locales state what the header code
  relies on: \<open>thrift_reader\<close> (every read is safe on any input and makes progress) and
  \<open>thrift_codec\<close> (what was written is what is read).
\<close>

section \<open>Type codes\<close>

type_synonym TType = byte

definition T_STOP :: TType where "T_STOP = 0x7F"
definition T_VOID :: TType where "T_VOID = 1"
definition T_BOOL :: TType where "T_BOOL = 2"
definition T_BYTE :: TType where "T_BYTE = 3"
definition T_DOUBLE :: TType where "T_DOUBLE = 4"
definition T_I16 :: TType where "T_I16 = 6"
definition T_I32 :: TType where "T_I32 = 8"
definition T_U64 :: TType where "T_U64 = 9"
definition T_I64 :: TType where "T_I64 = 10"
definition T_STRING :: TType where "T_STRING = 11"
definition T_STRUCT :: TType where "T_STRUCT = 12"
definition T_MAP :: TType where "T_MAP = 13"
definition T_SET :: TType where "T_SET = 14"
definition T_LIST :: TType where "T_LIST = 15"
definition T_UTF8 :: TType where "T_UTF8 = 16"
definition T_UTF16 :: TType where "T_UTF16 = 17"

lemmas TType_defs =
  T_STOP_def T_VOID_def T_BOOL_def T_BYTE_def T_DOUBLE_def T_I16_def T_I32_def T_U64_def T_I64_def
  T_STRING_def T_STRUCT_def T_MAP_def T_SET_def T_LIST_def T_UTF8_def T_UTF16_def

section \<open>Byte order\<close>

text \<open>
  \<open>htons\<close> and \<open>htonl\<close> reverse the bytes on a little-endian host. \<open>htonll\<close> is written in
  \<open>protocol.h\<close> from two \<open>htonl\<close> calls and asks \<open>EnvManager\<close> for the endianness.
\<close>

datatype endian_type = unknown_endian | big_endian | little_endian

definition hton16 :: "u16 \<Rightarrow> u16" where
  "hton16 x = le_word (rev (mem_bytes x))"

definition hton32 :: "u32 \<Rightarrow> u32" where
  "hton32 x = le_word (rev (mem_bytes x))"

definition htonll :: "endian_type \<Rightarrow> u64 \<Rightarrow> failure + u64" where
  "htonll e val =
     (case e of
        little_endian \<Rightarrow>
          Inr (push_bit 32 (ucast (hton32 (ucast (drop_bit 32 (push_bit 32 val)))) :: u64)
               OR ucast (hton32 (ucast (drop_bit 32 val))))
      | big_endian \<Rightarrow> Inr val
      | unknown_endian \<Rightarrow> Inl (Throw Invalid_argument))"

text \<open>\<open>EnvManager::init_endian_type\<close> looks at the first byte of an integer in memory.\<close>

definition init_endian_type :: endian_type where
  "init_endian_type =
     (if hd (mem_bytes (0x12345678 :: u32)) = 0x78 then little_endian else big_endian)"

lemma init_endian_little [simp]: "init_endian_type = little_endian"
proof -
  have "hd (mem_bytes w) = ucast w" for w :: u32
    using le_bytes.simps(2) [of 3 w] by (simp add: mem_bytes_def)
  then show ?thesis by (simp add: init_endian_type_def)
qed

lemma mem_bytes_hton16 [bytes]: "mem_bytes (hton16 x) = be_bytes x"
  by (simp add: mem_bytes_def hton16_def be_bytes_def le_bytes_le_word)

lemma mem_bytes_hton32 [bytes]: "mem_bytes (hton32 x) = be_bytes x"
  by (simp add: mem_bytes_def hton32_def be_bytes_def le_bytes_le_word)

lemma hton32_le_word [bytes]:
  "length bs = 4 \<Longrightarrow> hton32 (le_word bs) = be_word bs"
  by (simp add: hton32_def mem_bytes_def le_bytes_le_word be_word_def)

lemma hton16_le_word [bytes]:
  "length bs = 2 \<Longrightarrow> hton16 (le_word bs) = be_word bs"
  by (simp add: hton16_def mem_bytes_def le_bytes_le_word be_word_def)

lemma htonll_le_word [bytes]:
  assumes "length bs = 8"
  shows "htonll little_endian (le_word bs) = Inr (be_word bs)"
proof -
  from assms obtain a b c d e f g h where bs: "bs = [a, b, c, d, e, f, g, h]"
    by (auto simp: length_Suc_conv numeral_eq_Suc)
  have lo: "(ucast (drop_bit 32 (push_bit 32 (le_word bs :: u64))) :: u32) = le_word [a, b, c, d]"
    by (rule bit_word_eqI) (auto simp: bs bit_simps byte_bit_high)
  have hi: "(ucast (drop_bit 32 (le_word bs :: u64)) :: u32) = le_word [e, f, g, h]"
    by (rule bit_word_eqI) (auto simp: bs bit_simps byte_bit_high)
  have split: "be_word bs = (le_word [h, g, f, e] OR push_bit 32 (le_word [d, c, b, a]) :: u64)"
    using le_word_append [of "[h, g, f, e]" "[d, c, b, a]", where 'a = 64]
    by (simp add: bs be_word_def del: le_word.simps)
  show ?thesis
    unfolding htonll_def lo hi endian_type.case split
    by (simp add: hton32_le_word be_word_def ucast_le_word or.commute del: le_word.simps)
qed

lemma mem_bytes_htonll [bytes]:
  "htonll little_endian x = Inr y \<Longrightarrow> mem_bytes y = be_bytes x"
proof -
  assume y: "htonll little_endian x = Inr y"
  have "x = le_word (le_bytes 8 x)" by (simp add: le_word_le_bytes take_bit_word_eq_self)
  with y have "y = be_word (le_bytes 8 x)"
    by (metis htonll_le_word length_le_bytes sum.inject(2))
  then show ?thesis by (simp add: be_word_def mem_bytes_def be_bytes_def le_bytes_le_word)
qed

lemma htonll_returns: "\<exists>y. htonll little_endian x = Inr y"
  by (simp add: htonll_def)

section \<open>Calls that count bytes\<close>

text \<open>
  Every operation of a protocol returns the number of bytes it moved, and its callers add the
  counts up in an \<open>uint32_t\<close> (\<open>xfer += iprot->readI32(...)\<close>). \<open>xbind\<close> is a call followed by the
  rest of the function, with the counts added; the out-parameters of the call are its value.
\<close>

type_synonym ('s, 'a) X = "('s, u32 \<times> 'a) M"

definition xret :: "'a \<Rightarrow> ('s, 'a) X" where
  "xret x = mret (0, x)"

definition xfail :: "exn \<Rightarrow> ('s, 'a) X" where
  "xfail e = mthrow e"

definition xbind :: "('s, 'a) X \<Rightarrow> ('a \<Rightarrow> ('s, 'b) X) \<Rightarrow> ('s, 'b) X" where
  "xbind m k = mbind m (\<lambda>(n, x). mbind (k x) (\<lambda>(n', y). mret (n + n', y)))"

definition xseq :: "('s, unit) X \<Rightarrow> ('s, 'b) X \<Rightarrow> ('s, 'b) X" where
  "xseq m k = xbind m (\<lambda>_. k)"

definition xwhen :: "bool \<Rightarrow> ('s, unit) X \<Rightarrow> ('s, unit) X" where
  "xwhen b m = (if b then m else xret ())"

fun xfor :: "nat \<Rightarrow> ('a \<Rightarrow> ('s, 'a) X) \<Rightarrow> 'a \<Rightarrow> ('s, 'a) X" where
  "xfor 0 body acc = xret acc"
| "xfor (Suc n) body acc = xbind (body acc) (\<lambda>acc'. xfor n body acc')"

fun xforeach :: "'b list \<Rightarrow> ('b \<Rightarrow> ('s, unit) X) \<Rightarrow> ('s, unit) X" where
  "xforeach [] body = xret ()"
| "xforeach (x # xs) body = xseq (body x) (xforeach xs body)"

lemma xret_run [mrun]: "xret x s = (Inr (0, x), s)"
  by (simp add: xret_def mrun)

lemma xfail_run [mrun]: "xfail e s = (Inl (Throw e), s)"
  by (simp add: xfail_def mrun)

lemma xbind_run [mrun]:
  "xbind m k s = (case m s of
      (Inl f, s') \<Rightarrow> (Inl f, s')
    | (Inr (n, x), s') \<Rightarrow> (case k x s' of
          (Inl f, s'') \<Rightarrow> (Inl f, s'')
        | (Inr (n', y), s'') \<Rightarrow> (Inr (n + n', y), s'')))"
  by (auto simp: xbind_def mrun split: sum.splits prod.splits)

lemma xbind_xret [simp]: "xbind (xret x) k = k x"
  by (rule ext) (auto simp: mrun split: sum.splits prod.splits)

section \<open>The protocol interface\<close>

text \<open>
  The abstract class \<open>protocol\<close>: one operation per virtual method, over the state \<open>'s\<close> of the
  concrete object. Struct and field names are never put on the wire and are left out, and so
  are the message begin and end methods, which do nothing in both implementations. A
  \<open>double\<close> is its 64-bit pattern.
\<close>

record 's protocol =
  get_buf :: "'s \<Rightarrow> byte_buf"
  writeStructBegin :: "('s, unit) X"
  writeStructEnd :: "('s, unit) X"
  writeFieldBegin :: "TType \<Rightarrow> i16 \<Rightarrow> ('s, unit) X"
  writeFieldEnd :: "('s, unit) X"
  writeFieldStop :: "('s, unit) X"
  writeMapBegin :: "TType \<Rightarrow> TType \<Rightarrow> u32 \<Rightarrow> ('s, unit) X"
  writeMapEnd :: "('s, unit) X"
  writeListBegin :: "TType \<Rightarrow> u32 \<Rightarrow> ('s, unit) X"
  writeListEnd :: "('s, unit) X"
  writeSetBegin :: "TType \<Rightarrow> u32 \<Rightarrow> ('s, unit) X"
  writeSetEnd :: "('s, unit) X"
  writeBool :: "bool \<Rightarrow> ('s, unit) X"
  writeByte :: "i8 \<Rightarrow> ('s, unit) X"
  writeI16 :: "i16 \<Rightarrow> ('s, unit) X"
  writeI32 :: "i32 \<Rightarrow> ('s, unit) X"
  writeI64 :: "i64 \<Rightarrow> ('s, unit) X"
  writeDouble :: "u64 \<Rightarrow> ('s, unit) X"
  writeString :: "string \<Rightarrow> ('s, unit) X"
  writeBinary :: "string \<Rightarrow> ('s, unit) X"
  readStructBegin :: "('s, unit) X"
  readStructEnd :: "('s, unit) X"
  readFieldBegin :: "('s, TType \<times> i16) X"
  readFieldEnd :: "('s, unit) X"
  readMapBegin :: "('s, TType \<times> TType \<times> u32) X"
  readMapEnd :: "('s, unit) X"
  readListBegin :: "('s, TType \<times> u32) X"
  readListEnd :: "('s, unit) X"
  readSetBegin :: "('s, TType \<times> u32) X"
  readSetEnd :: "('s, unit) X"
  readBool :: "('s, bool) X"
  readByte :: "('s, i8) X"
  readI16 :: "('s, i16) X"
  readI32 :: "('s, i32) X"
  readI64 :: "('s, i64) X"
  readDouble :: "('s, u64) X"
  readString :: "('s, string) X"
  readBinary :: "('s, string) X"
  append_raw :: "byte list \<Rightarrow> ('s, unit) X"

section \<open>Skipping a value of any type\<close>

text \<open>
  \<open>skip\<close> recurses once per nesting level and its \<open>T_STRUCT\<close> case loops until a stop field; both
  are bounded by the bytes left, so the functions take fuel and fail with \<open>Diverges\<close> when it
  runs out. \<open>skip\<close> itself starts with twice the unread bytes and two, which is shown to be
  enough for every input.
\<close>

fun skip_fuel :: "nat \<Rightarrow> 's protocol \<Rightarrow> TType \<Rightarrow> ('s, unit) X"
  and skip_fields :: "nat \<Rightarrow> 's protocol \<Rightarrow> ('s, unit) X" where
  "skip_fuel 0 prot type = mfail Diverges"
| "skip_fuel (Suc f) prot type =
     (if type = T_BOOL then xbind (readBool prot) (\<lambda>_. xret ())
      else if type = T_BYTE then xbind (readByte prot) (\<lambda>_. xret ())
      else if type = T_I16 then xbind (readI16 prot) (\<lambda>_. xret ())
      else if type = T_I32 then xbind (readI32 prot) (\<lambda>_. xret ())
      else if type = T_I64 then xbind (readI64 prot) (\<lambda>_. xret ())
      else if type = T_DOUBLE then xbind (readDouble prot) (\<lambda>_. xret ())
      else if type = T_STRING then xbind (readBinary prot) (\<lambda>_. xret ())
      else if type = T_STRUCT then
        xseq (readStructBegin prot) (xseq (skip_fields f prot) (readStructEnd prot))
      else if type = T_MAP then
        xbind (readMapBegin prot) (\<lambda>(keyType, valType, size).
        xbind (xfor (unat size) (\<lambda>_. xseq (skip_fuel f prot keyType) (skip_fuel f prot valType)) ())
          (\<lambda>_. readMapEnd prot))
      else if type = T_SET then
        xbind (readSetBegin prot) (\<lambda>(elemType, size).
        xbind (xfor (unat size) (\<lambda>_. skip_fuel f prot elemType) ()) (\<lambda>_. readSetEnd prot))
      else if type = T_LIST then
        xbind (readListBegin prot) (\<lambda>(elemType, size).
        xbind (xfor (unat size) (\<lambda>_. skip_fuel f prot elemType) ()) (\<lambda>_. readListEnd prot))
      else if type \<in> {T_STOP, T_VOID, T_U64, T_UTF8, T_UTF16} then xret ()
      else xfail Invalid_argument)"
| "skip_fields 0 prot = mfail Diverges"
| "skip_fields (Suc f) prot =
     xbind (readFieldBegin prot) (\<lambda>(ftype, fid).
       if ftype = T_STOP then xret ()
       else xseq (skip_fuel f prot ftype) (xseq (readFieldEnd prot) (skip_fields f prot)))"

definition unread :: "'s protocol \<Rightarrow> 's \<Rightarrow> nat" where
  "unread prot s = unat (get_valid_read_len (get_buf prot s))"

definition skip :: "'s protocol \<Rightarrow> TType \<Rightarrow> ('s, unit) X" where
  "skip prot type s = skip_fuel (2 * unread prot s + 2) prot type s"

section \<open>The message header\<close>

text \<open>
  \<open>base_header\<close>; the \<open>__isset\<close> flags say which optional members are present. The code reads into
  a freshly constructed header and its callers drop it when an exception passes, so \<open>read\<close>
  returns the header it leaves on success.
\<close>

record base_header =
  magic :: i32
  msg_name :: string
  nonce :: string
  session_id :: string
  path :: "string list"
  exten_info :: "(string, string) smap"
  isset_nonce :: bool
  isset_session_id :: bool
  isset_path :: bool
  isset_exten_info :: bool

definition empty_header :: base_header where
  "empty_header =
     \<lparr>magic = 0, msg_name = [], nonce = [], session_id = [], path = [], exten_info = [],
      isset_nonce = False, isset_session_id = False, isset_path = False, isset_exten_info = False\<rparr>"

definition set_magic :: "i32 \<Rightarrow> base_header \<Rightarrow> base_header" where
  "set_magic v h = h\<lparr>magic := v\<rparr>"

definition set_msg_name :: "string \<Rightarrow> base_header \<Rightarrow> base_header" where
  "set_msg_name v h = h\<lparr>msg_name := v\<rparr>"

definition set_nonce :: "string \<Rightarrow> base_header \<Rightarrow> base_header" where
  "set_nonce v h = h\<lparr>nonce := v, isset_nonce := True\<rparr>"

definition set_session_id :: "string \<Rightarrow> base_header \<Rightarrow> base_header" where
  "set_session_id v h = h\<lparr>session_id := v, isset_session_id := True\<rparr>"

definition set_path :: "string list \<Rightarrow> base_header \<Rightarrow> base_header" where
  "set_path v h = h\<lparr>path := v, isset_path := True\<rparr>"

definition set_exten_info :: "(string, string) smap \<Rightarrow> base_header \<Rightarrow> base_header" where
  "set_exten_info v h = h\<lparr>exten_info := v, isset_exten_info := True\<rparr>"

text \<open>\<open>operator ==\<close>: members that are not set are not compared.\<close>

definition header_eq :: "base_header \<Rightarrow> base_header \<Rightarrow> bool" where
  "header_eq a b \<longleftrightarrow>
     magic a = magic b \<and> msg_name a = msg_name b \<and>
     isset_nonce a = isset_nonce b \<and> (isset_nonce a \<longrightarrow> nonce a = nonce b) \<and>
     isset_session_id a = isset_session_id b \<and> (isset_session_id a \<longrightarrow> session_id a = session_id b) \<and>
     isset_path a = isset_path b \<and> (isset_path a \<longrightarrow> path a = path b) \<and>
     isset_exten_info a = isset_exten_info b \<and> (isset_exten_info a \<longrightarrow> exten_info a = exten_info b)"

definition write_field :: "'s protocol \<Rightarrow> TType \<Rightarrow> i16 \<Rightarrow> ('s, unit) X \<Rightarrow> ('s, unit) X" where
  "write_field oprot t i m = xseq (writeFieldBegin oprot t i) (xseq m (writeFieldEnd oprot))"

definition write_path :: "'s protocol \<Rightarrow> string list \<Rightarrow> ('s, unit) X" where
  "write_path oprot ps =
     xseq (writeListBegin oprot T_STRING (of_nat (length ps)))
       (xseq (xforeach ps (writeString oprot)) (writeListEnd oprot))"

definition write_exten_info :: "'s protocol \<Rightarrow> (string, string) smap \<Rightarrow> ('s, unit) X" where
  "write_exten_info oprot m =
     xseq (writeMapBegin oprot T_STRING T_STRING (of_nat (length m)))
       (xseq (xforeach m (\<lambda>(k, v). xseq (writeString oprot k) (writeString oprot v)))
         (writeMapEnd oprot))"

definition base_header_write :: "'s protocol \<Rightarrow> base_header \<Rightarrow> ('s, unit) X" where
  "base_header_write oprot h =
     xseq (writeStructBegin oprot)
     (xseq (write_field oprot T_I32 1 (writeI32 oprot (magic h)))
     (xseq (write_field oprot T_STRING 2 (writeString oprot (msg_name h)))
     (xseq (xwhen (isset_nonce h) (write_field oprot T_STRING 3 (writeString oprot (nonce h))))
     (xseq (xwhen (isset_session_id h)
              (write_field oprot T_STRING 4 (writeString oprot (session_id h))))
     (xseq (xwhen (isset_path h) (write_field oprot T_LIST 5 (write_path oprot (path h))))
     (xseq (xwhen (isset_exten_info h)
              (write_field oprot T_MAP 255 (write_exten_info oprot (exten_info h))))
     (xseq (writeFieldStop oprot) (writeStructEnd oprot))))))))"

text \<open>The element loops of fields 5 and 255, and the \<open>switch\<close> on the field id.\<close>

definition read_path :: "'s protocol \<Rightarrow> ('s, string list) X" where
  "read_path iprot =
     xbind (readListBegin iprot) (\<lambda>(etype, size).
     xbind (xfor (unat size) (\<lambda>acc. xbind (readString iprot) (\<lambda>v. xret (acc @ [v]))) []) (\<lambda>ps.
     xseq (readListEnd iprot) (xret ps)))"

definition read_exten_info :: "'s protocol \<Rightarrow> ('s, (string, string) smap) X" where
  "read_exten_info iprot =
     xbind (readMapBegin iprot) (\<lambda>(ktype, vtype, size).
     xbind (xfor (unat size)
              (\<lambda>acc. xbind (readString iprot) (\<lambda>k.
                     xbind (readString iprot) (\<lambda>v. xret (smap_insert k v acc)))) []) (\<lambda>m.
     xseq (readMapEnd iprot) (xret m)))"

text \<open>The value carried through the loop: the header and the flags of the two required members.\<close>

type_synonym header_read = "base_header \<times> bool \<times> bool"

definition read_header_field :: "'s protocol \<Rightarrow> TType \<Rightarrow> i16 \<Rightarrow> header_read \<Rightarrow> ('s, header_read) X" where
  "read_header_field iprot ftype fid = (\<lambda>(h, isset_magic, isset_msg_name).
     if fid = 1 \<and> ftype = T_I32 then
       xbind (readI32 iprot) (\<lambda>v. xret (h\<lparr>magic := v\<rparr>, True, isset_msg_name))
     else if fid = 2 \<and> ftype = T_STRING then
       xbind (readString iprot) (\<lambda>v. xret (h\<lparr>msg_name := v\<rparr>, isset_magic, True))
     else if fid = 3 \<and> ftype = T_STRING then
       xbind (readString iprot) (\<lambda>v.
         xret (h\<lparr>nonce := v, isset_nonce := True\<rparr>, isset_magic, isset_msg_name))
     else if fid = 4 \<and> ftype = T_STRING then
       xbind (readString iprot) (\<lambda>v.
         xret (h\<lparr>session_id := v, isset_session_id := True\<rparr>, isset_magic, isset_msg_name))
     else if fid = 5 \<and> ftype = T_LIST then
       xbind (read_path iprot) (\<lambda>v.
         xret (h\<lparr>path := v, isset_path := True\<rparr>, isset_magic, isset_msg_name))
     else if fid = 255 \<and> ftype = T_MAP then
       xbind (read_exten_info iprot) (\<lambda>v.
         xret (h\<lparr>exten_info := v, isset_exten_info := True\<rparr>, isset_magic, isset_msg_name))
     else xseq (skip iprot ftype) (xret (h, isset_magic, isset_msg_name)))"

fun read_header_fields :: "nat \<Rightarrow> 's protocol \<Rightarrow> header_read \<Rightarrow> ('s, header_read) X" where
  "read_header_fields 0 iprot acc = mfail Diverges"
| "read_header_fields (Suc f) iprot acc =
     xbind (readFieldBegin iprot) (\<lambda>(ftype, fid).
       if ftype = T_STOP then xret acc
       else xbind (read_header_field iprot ftype fid acc) (\<lambda>acc'.
            xseq (readFieldEnd iprot) (read_header_fields f iprot acc')))"

definition base_header_read :: "'s protocol \<Rightarrow> base_header \<Rightarrow> ('s, base_header) X" where
  "base_header_read iprot h0 =
     xseq (readStructBegin iprot)
     (xbind (\<lambda>s. read_header_fields (unread iprot s + 1) iprot (h0, False, False) s)
        (\<lambda>(h, isset_magic, isset_msg_name).
     xseq (readStructEnd iprot)
       (if \<not> isset_magic then xfail (TProtocolException INVALID_DATA)
        else if \<not> isset_msg_name then xfail (TProtocolException INVALID_DATA)
        else xret h)))"

section \<open>Reading arbitrary bytes safely\<close>

text \<open>
  \<open>safe prot ok B d e k m\<close>: started in a state that satisfies \<open>ok d\<close> with at most \<open>B\<close> unread
  bytes, \<open>m\<close> either throws a C++ exception or returns in a state that satisfies \<open>ok e\<close>, having
  consumed at least \<open>k\<close> bytes, with exactly the number it consumed as its count. In particular
  it does not abort, run into undefined behaviour or fail to return. \<open>d\<close> and \<open>e\<close> are struct
  nesting depths.
\<close>

definition safe ::
  "'s protocol \<Rightarrow> (nat \<Rightarrow> 's \<Rightarrow> bool) \<Rightarrow> nat \<Rightarrow> nat \<Rightarrow> nat \<Rightarrow> nat \<Rightarrow> ('s, 'a) X \<Rightarrow> bool" where
  "safe prot ok B d e k m \<longleftrightarrow>
     (\<forall>s. ok d s \<longrightarrow> unread prot s \<le> B \<longrightarrow>
       (case m s of
          (Inl f, s') \<Rightarrow> (\<exists>x. f = Throw x)
        | (Inr (n, v), s') \<Rightarrow>
            ok e s' \<and> unread prot s' + k \<le> unread prot s \<and>
            n = of_nat (unread prot s - unread prot s')))"

lemma safeD_Inl:
  "safe prot ok B d e k m \<Longrightarrow> ok d s \<Longrightarrow> unread prot s \<le> B \<Longrightarrow> m s = (Inl f, s') \<Longrightarrow> \<exists>x. f = Throw x"
  unfolding safe_def by fastforce

lemma safeD_Inr:
  assumes "safe prot ok B d e k m" and "ok d s" and "unread prot s \<le> B"
    and "m s = (Inr (n, v), s')"
  shows "ok e s'" and "unread prot s' + k \<le> unread prot s"
    and "n = of_nat (unread prot s - unread prot s')"
  using assms unfolding safe_def by (auto dest!: spec [of _ s])

lemma safeI:
  assumes "\<And>s f s'. ok d s \<Longrightarrow> unread prot s \<le> B \<Longrightarrow> m s = (Inl f, s') \<Longrightarrow> \<exists>x. f = Throw x"
    and "\<And>s n v s'. ok d s \<Longrightarrow> unread prot s \<le> B \<Longrightarrow> m s = (Inr (n, v), s') \<Longrightarrow>
          ok e s' \<and> unread prot s' + k \<le> unread prot s \<and> n = of_nat (unread prot s - unread prot s')"
  shows "safe prot ok B d e k m"
  using assms unfolding safe_def by (auto split: prod.splits sum.splits)

lemma safe_mono:
  assumes "safe prot ok B d e k m" and "B' \<le> B" and "k' \<le> k"
  shows "safe prot ok B' d e k' m"
proof (rule safeI)
  fix s f s'
  assume "ok d s" "unread prot s \<le> B'" "m s = (Inl f, s')"
  with assms safeD_Inl [OF assms(1)] show "\<exists>x. f = Throw x" by auto
next
  fix s n v s'
  assume a: "ok d s" "unread prot s \<le> B'" "m s = (Inr (n, v), s')"
  from a(2) assms(2) have "unread prot s \<le> B" by simp
  from safeD_Inr [OF assms(1) a(1) this a(3)] assms(3)
  show "ok e s' \<and> unread prot s' + k' \<le> unread prot s \<and> n = of_nat (unread prot s - unread prot s')"
    by auto
qed

lemma safe_xret [simp]: "safe prot ok B d d 0 (xret x)"
  by (simp add: safe_def mrun)

lemma safe_xfail [simp]: "safe prot ok B d e k (xfail x)"
  by (simp add: safe_def mrun)

lemma safe_xbind:
  assumes m: "safe prot ok B d e k m"
    and f: "\<And>x. k \<le> B \<Longrightarrow> safe prot ok (B - k) e g k' (f x)"
  shows "safe prot ok B d g (k + k') (xbind m f)"
proof (rule safeI)
  fix s x s'
  assume s: "ok d s" "unread prot s \<le> B" and run: "xbind m f s = (Inl x, s')"
  show "\<exists>y. x = Throw y"
  proof (cases "m s")
    case (Pair r s1)
    show ?thesis
    proof (cases r)
      case (Inl a)
      with Pair run safeD_Inl [OF m s, of x s1] show ?thesis by (simp add: xbind_run)
    next
      case (Inr b)
      obtain n v where b: "b = (n, v)" by (cases b)
      with Inr Pair have ms: "m s = (Inr (n, v), s1)" by simp
      note post = safeD_Inr [OF m s ms]
      have kB: "k \<le> B" "unread prot s1 \<le> B - k" using post(2) s(2) by auto
      obtain f' where "f v s1 = (Inl f', s')" "f' = x"
        using run ms by (auto simp: xbind_run split: prod.splits sum.splits)
      with safeD_Inl [OF f [OF kB(1)] post(1) kB(2)] show ?thesis by blast
    qed
  qed
next
  fix s n v s'
  assume s: "ok d s" "unread prot s \<le> B" and run: "xbind m f s = (Inr (n, v), s')"
  from run obtain n1 v1 s1 n2 where ms: "m s = (Inr (n1, v1), s1)"
    and fs: "f v1 s1 = (Inr (n2, v), s')" and n: "n = n1 + n2"
    by (auto simp: xbind_run split: prod.splits sum.splits)
  note post = safeD_Inr [OF m s ms]
  have kB: "k \<le> B" "unread prot s1 \<le> B - k" using post(2) s(2) by auto
  note post' = safeD_Inr [OF f [OF kB(1)] post(1) kB(2) fs]
  have "unread prot s - unread prot s' =
      (unread prot s - unread prot s1) + (unread prot s1 - unread prot s')"
    using post(2) post'(2) by linarith
  then have "n = of_nat (unread prot s - unread prot s')"
    using n post(3) post'(3) by (metis of_nat_add)
  with post post' show
    "ok g s' \<and> unread prot s' + (k + k') \<le> unread prot s \<and> n = of_nat (unread prot s - unread prot s')"
    by auto
qed

text \<open>The forms in which the proofs use it: a step that need not, or must, consume something.\<close>

lemma safe_xbind0:
  "safe prot ok B d e 0 m \<Longrightarrow> (\<And>x. safe prot ok B e g k (f x)) \<Longrightarrow>
     safe prot ok B d g k (xbind m f)"
  using safe_xbind [of prot ok B d e 0 m g k f] by simp

lemma safe_xbind1:
  "safe prot ok B d e (Suc 0) m \<Longrightarrow> (\<And>x. 0 < B \<Longrightarrow> safe prot ok (B - Suc 0) e g 0 (f x)) \<Longrightarrow>
     safe prot ok B d g (Suc 0) (xbind m f)"
  using safe_xbind [of prot ok B d e "Suc 0" m g 0 f] by (simp add: Suc_le_eq)

lemma safe_xseq0:
  "safe prot ok B d e 0 m \<Longrightarrow> safe prot ok B e g k m' \<Longrightarrow> safe prot ok B d g k (xseq m m')"
  unfolding xseq_def by (rule safe_xbind0)

lemma safe_weaken0: "safe prot ok B d e k m \<Longrightarrow> safe prot ok B d e 0 m"
  by (erule safe_mono) simp_all

text \<open>A computation that chooses its fuel by the bytes left.\<close>

lemma safe_at_state:
  assumes "\<And>s. safe prot ok (unread prot s) d e k (F s)"
  shows "safe prot ok B d e k (\<lambda>s. F s s)"
proof (rule safeI)
  fix s f s'
  assume "ok d s" "F s s = (Inl f, s')"
  then show "\<exists>x. f = Throw x" using safeD_Inl [OF assms] by blast
next
  fix s n v s'
  assume "ok d s" "F s s = (Inr (n, v), s')"
  then show "ok e s' \<and> unread prot s' + k \<le> unread prot s \<and> n = of_nat (unread prot s - unread prot s')"
    using safeD_Inr [OF assms] by blast
qed

lemma safe_xfor:
  "(\<And>x. safe prot ok B d d 0 (body x)) \<Longrightarrow> safe prot ok B d d 0 (xfor n body acc)"
proof (induction n arbitrary: acc)
  case (Suc n)
  show ?case by (simp, rule safe_xbind0 [OF Suc.prems Suc.IH]) (rule Suc.prems)
qed simp

lemma safe_if:
  "(c \<Longrightarrow> safe prot ok B d e k m) \<Longrightarrow> (\<not> c \<Longrightarrow> safe prot ok B d e k m') \<Longrightarrow>
     safe prot ok B d e k (if c then m else m')"
  by simp

lemma safe_case_prod:
  "(\<And>a b. safe prot ok B d e k (f a b)) \<Longrightarrow> safe prot ok B d e k (case p of (a, b) \<Rightarrow> f a b)"
  by (cases p) simp

text \<open>The steps of a computation that leaves the depth as it is.\<close>

lemmas safe_intros = safe_if safe_case_prod safe_xret safe_xfail
  safe_xbind0 [where e = d and d = d for d] safe_xseq0 [where e = d and d = d for d]

locale thrift_reader =
  fixes prot :: "'s protocol" and ok :: "nat \<Rightarrow> 's \<Rightarrow> bool"
  assumes structBegin: "safe prot ok B d (Suc d) 0 (readStructBegin prot)"
    and structEnd: "safe prot ok B (Suc d) d 0 (readStructEnd prot)"
    and fieldBegin: "safe prot ok B d d (Suc 0) (readFieldBegin prot)"
    and fieldEnd: "safe prot ok B d d 0 (readFieldEnd prot)"
    and mapBegin: "safe prot ok B d d (Suc 0) (readMapBegin prot)"
    and mapEnd: "safe prot ok B d d 0 (readMapEnd prot)"
    and listBegin: "safe prot ok B d d (Suc 0) (readListBegin prot)"
    and listEnd: "safe prot ok B d d 0 (readListEnd prot)"
    and setBegin: "safe prot ok B d d (Suc 0) (readSetBegin prot)"
    and setEnd: "safe prot ok B d d 0 (readSetEnd prot)"
    and bool_read: "safe prot ok B d d 0 (readBool prot)"
    and byte_read: "safe prot ok B d d 0 (readByte prot)"
    and i16_read: "safe prot ok B d d 0 (readI16 prot)"
    and i32_read: "safe prot ok B d d 0 (readI32 prot)"
    and i64_read: "safe prot ok B d d 0 (readI64 prot)"
    and double_read: "safe prot ok B d d 0 (readDouble prot)"
    and string_read: "safe prot ok B d d 0 (readString prot)"
    and binary_read: "safe prot ok B d d 0 (readBinary prot)"
begin

lemmas reads_safe = structBegin structEnd fieldEnd mapEnd listEnd setEnd bool_read byte_read
  i16_read i32_read i64_read double_read string_read binary_read

lemma container_safe:
  assumes "safe prot ok B d d (Suc 0) m" and "safe prot ok (B - Suc 0) d d 0 m'"
    and "\<And>x. 0 < B \<Longrightarrow> safe prot ok (B - Suc 0) d d 0 (body x)"
  shows "safe prot ok B d d 0 (xbind m (\<lambda>x. xbind (xfor (n x) (\<lambda>_. body x) ()) (\<lambda>_. m')))"
proof (rule safe_weaken0, rule safe_xbind1 [OF assms(1)])
  fix x
  assume "0 < B"
  then show "safe prot ok (B - Suc 0) d d 0 (xbind (xfor (n x) (\<lambda>_. body x) ()) (\<lambda>_. m'))"
    by (intro safe_intros safe_xfor assms(2,3))
qed

lemma skip_safe_aux:
  "(2 * B + 2 \<le> f \<longrightarrow> (\<forall>d type. safe prot ok B d d 0 (skip_fuel f prot type))) \<and>
   (2 * B + 1 \<le> f \<longrightarrow> (\<forall>d. safe prot ok B d d (Suc 0) (skip_fields f prot)))"
proof (induction f arbitrary: B)
  case 0
  show ?case by simp
next
  case (Suc f)
  have elem: "safe prot ok (B - Suc 0) d d 0 (skip_fuel f prot t)" if "0 < B" "2 * B + 1 \<le> Suc f" for d t
    using Suc.IH [of "B - Suc 0"] that by auto
  have fields: "safe prot ok B d d (Suc 0) (skip_fields (Suc f) prot)" if "2 * B + 1 \<le> Suc f" for d
  proof -
    have more: "safe prot ok (B - Suc 0) d d 0 (skip_fields f prot)" if "0 < B"
      using Suc.IH [of "B - Suc 0"] that \<open>2 * B + 1 \<le> Suc f\<close> by (auto intro: safe_weaken0)
    show ?thesis
      by (subst skip_fields.simps, rule safe_xbind1 [OF fieldBegin])
         (intro safe_intros elem fieldEnd more that; assumption)
  qed
  have "safe prot ok B d d 0 (skip_fuel (Suc f) prot t)" if le: "2 * B + 2 \<le> Suc f" for d t
  proof -
    have str: "safe prot ok B (Suc d) (Suc d) 0 (skip_fields f prot)"
      using Suc.IH [of B] le by (auto intro: safe_weaken0)
    have el: "safe prot ok (B - Suc 0) d d 0 (skip_fuel f prot t)" if "0 < B" for t
      using elem [of d t] that le by simp
    have st: "safe prot ok B d d 0
        (xseq (readStructBegin prot) (xseq (skip_fields f prot) (readStructEnd prot)))"
      by (rule safe_xseq0 [OF structBegin safe_xseq0 [OF str structEnd]])
    have m: "safe prot ok B d d 0 (xbind (readMapBegin prot) (\<lambda>(k, v, n).
        xbind (xfor (unat n) (\<lambda>_. xseq (skip_fuel f prot k) (skip_fuel f prot v)) ()) (\<lambda>_. readMapEnd prot)))"
      unfolding case_prod_unfold
      by (rule container_safe [OF mapBegin mapEnd]) (intro safe_intros el; assumption)
    have l: "safe prot ok B d d 0 (xbind (readListBegin prot) (\<lambda>(t, n).
        xbind (xfor (unat n) (\<lambda>_. skip_fuel f prot t) ()) (\<lambda>_. readListEnd prot)))"
      unfolding case_prod_unfold by (rule container_safe [OF listBegin listEnd]) (intro el; assumption)
    have s: "safe prot ok B d d 0 (xbind (readSetBegin prot) (\<lambda>(t, n).
        xbind (xfor (unat n) (\<lambda>_. skip_fuel f prot t) ()) (\<lambda>_. readSetEnd prot)))"
      unfolding case_prod_unfold by (rule container_safe [OF setBegin setEnd]) (intro el; assumption)
    show ?thesis
      unfolding skip_fuel.simps(2)
      by (intro safe_intros reads_safe st m l s)
  qed
  with fields show ?case by blast
qed

lemma skip_safe: "safe prot ok B d d 0 (skip prot t)"
proof -
  have "skip prot t = (\<lambda>s. skip_fuel (2 * unread prot s + 2) prot t s)"
    by (rule ext) (simp add: skip_def)
  moreover have "safe prot ok (unread prot s) d d 0 (skip_fuel (2 * unread prot s + 2) prot t)" for s
    using skip_safe_aux by blast
  ultimately show ?thesis 
    using safe_at_state [of prot ok d d 0 "\<lambda>s. skip_fuel (2 * unread prot s + 2) prot t" B] by simp
qed

lemma read_path_safe: "safe prot ok B d d (Suc 0) (read_path prot)"
  unfolding read_path_def
  by (rule safe_xbind1 [OF listBegin])
     (intro safe_intros safe_xfor reads_safe)

lemma read_exten_info_safe: "safe prot ok B d d (Suc 0) (read_exten_info prot)"
  unfolding read_exten_info_def
  by (rule safe_xbind1 [OF mapBegin])
     (intro safe_intros safe_xfor reads_safe)

lemma header_field_safe: "safe prot ok B d d 0 (read_header_field prot t i acc)"
  unfolding read_header_field_def
  by (intro safe_intros reads_safe skip_safe safe_weaken0 [OF read_path_safe]
      safe_weaken0 [OF read_exten_info_safe])

lemma header_fields_safe: "B + 1 \<le> f \<Longrightarrow> safe prot ok B d d (Suc 0) (read_header_fields f prot acc)"
proof (induction f arbitrary: B acc)
  case (Suc f)
  have more: "safe prot ok (B - Suc 0) d d 0 (read_header_fields f prot acc')" if "0 < B" for acc'
    by (rule safe_weaken0, rule Suc.IH) (use Suc.prems that in simp)
  show ?case
    by (subst read_header_fields.simps, rule safe_xbind1 [OF fieldBegin])
       (intro safe_intros header_field_safe fieldEnd more; assumption)
qed simp

text \<open>The header reader is safe on every input, and never reads past it.\<close>

lemma header_read_safe: "safe prot ok B d d (Suc 0) (base_header_read prot h)"
  unfolding base_header_read_def
proof (rule safe_xseq0 [OF structBegin], rule safe_xbind1)
  show "safe prot ok B (Suc d) (Suc d) (Suc 0)
      (\<lambda>s. read_header_fields (unread prot s + 1) prot (h, False, False) s)"
    by (rule safe_at_state [where F = "\<lambda>s. read_header_fields (unread prot s + 1) prot (h, False, False)"],
        rule header_fields_safe) simp
qed (intro safe_case_prod safe_xseq0 [OF structEnd] safe_intros)

end

end
