(* ===== verification/Net_Message.thy ===== *)
theory Net_Message
  imports Thrift_Protocol
begin

text \<open>
  Reassembly of packets from the TCP stream: \<open>message/protocol_coder/net_message.{h,cpp}\<close>, the
  queue of received messages of \<open>length_field_frame_decoder.h\<close> and \<open>matrix_coder::recv_message\<close>.
  The abstract specification is \<open>split_frames\<close>, which cuts a byte string at the length fields; the
  receive loop is shown to compute it, whatever the boundaries of the reads.
\<close>

section \<open>A message being received\<close>

text \<open>
  \<open>m_packet_len\<close> and \<open>m_pos\<close> are \<open>int32_t\<close> in the code and are kept as the integers they hold; the
  union \<open>theBytes\<close> is not initialised by the constructor, and is read only when all four bytes are
  written.
\<close>

record net_message =
  m_packet_len :: int
  theBytes :: "byte list"
  m_pos :: int
  m_msg_stream :: byte_buf
  m_in_data :: bool

definition new_net_message :: net_message where
  "new_net_message =
     \<lparr>m_packet_len = 0, theBytes = [0, 0, 0, 0], m_pos = 0,
      m_msg_stream = new_buf DEFAULT_BUF_LEN True, m_in_data = False\<rparr>"

definition msg_complete :: "net_message \<Rightarrow> bool" where
  "msg_complete m \<longleftrightarrow> m_packet_len m = m_pos m"

text \<open>
  A negative count would be passed on as a huge \<open>uint32_t\<close> and read far outside the buffer: it is
  undefined behaviour here.
\<close>

definition read_packet_len :: "(net_message \<times> byte_buf, int) M" where
  "read_packet_len = (\<lambda>(m, inb).
     let nRemaining = 4 - m_pos m;
         nCopy = min nRemaining (sint (get_valid_read_len inb))
     in if nCopy < 0 then (Inl Undefined_behaviour, (m, inb))
        else case write_to_byte_buf (memcpy_from (m_read_ptr inb) (nat nCopy) (m_buf inb)) (m_msg_stream m) of
          (Inl f, stream) \<Rightarrow> (Inl f, (m\<lparr>m_msg_stream := stream\<rparr>, inb))
        | (Inr _, stream) \<Rightarrow>
            (case read_from_byte_buf (nat nCopy) inb of
               (Inl f, inb') \<Rightarrow> (Inl f, (m\<lparr>m_msg_stream := stream\<rparr>, inb'))
             | (Inr bs, inb') \<Rightarrow>
                 let m' = m\<lparr>m_msg_stream := stream, theBytes := memcpy_to (nat (m_pos m)) bs (theBytes m),
                            m_pos := m_pos m + nCopy\<rparr>
                 in if m_pos m' < 4 then (Inr nCopy, (m', inb'))
                    else (Inr nCopy,
                          (m'\<lparr>m_packet_len := sint (hton32 (le_word (theBytes m'))), m_in_data := True\<rparr>,
                           inb'))))"

definition read_packet_body :: "(net_message \<times> byte_buf, int) M" where
  "read_packet_body = (\<lambda>(m, inb).
     let nRemaining = m_packet_len m - m_pos m;
         nCopy = min nRemaining (sint (get_valid_read_len inb))
     in if nCopy < 0 then (Inl Undefined_behaviour, (m, inb))
        else case write_to_byte_buf (memcpy_from (m_read_ptr inb) (nat nCopy) (m_buf inb)) (m_msg_stream m) of
          (Inl f, stream) \<Rightarrow> (Inl f, (m\<lparr>m_msg_stream := stream\<rparr>, inb))
        | (Inr _, stream) \<Rightarrow>
            (let m' = m\<lparr>m_msg_stream := stream, m_pos := m_pos m + nCopy\<rparr>
             in case move_read_ptr (of_int nCopy) inb of
                  (Inl f, inb') \<Rightarrow> (Inl f, (m', inb'))
                | (Inr _, inb') \<Rightarrow> (Inr nCopy, (m', inb'))))"

section \<open>The receive loop\<close>

datatype decode_status = DECODERR_SUCCESS | DECODE_NEED_MORE_DATA | DECODE_UNKNOWN_MSG | DECODE_ERROR

definition MIN_MATRIX_MSG_CODE_LEN :: int where "MIN_MATRIX_MSG_CODE_LEN = 30"
definition MAX_MATRIX_MSG_LEN :: int where "MAX_MATRIX_MSG_LEN = 4 * 1024 * 1024"

text \<open>
  One turn of the loop in \<open>recv_message\<close>; \<open>None\<close> means that the loop goes on. The state is
  \<open>m_recv_messages\<close> (a list, its front first) and the input buffer.
\<close>

definition recv_step :: "(net_message list \<times> byte_buf, decode_status option) M" where
  "recv_step = (\<lambda>(ms, inb).
     let ms1 = (if ms = [] \<or> msg_complete (last ms) then ms @ [new_net_message] else ms);
         msg = last ms1
     in case (if \<not> m_in_data msg then read_packet_len (msg, inb) else read_packet_body (msg, inb)) of
          (Inl f, (msg', inb')) \<Rightarrow> (Inl f, (butlast ms1 @ [msg'], inb'))
        | (Inr handled, (msg', inb')) \<Rightarrow>
            (Inr (if handled < 0 then Some DECODE_ERROR
                  else if m_in_data msg' \<and>
                          (m_packet_len msg' > MAX_MATRIX_MSG_LEN \<or> m_packet_len msg' < MIN_MATRIX_MSG_CODE_LEN)
                  then Some DECODE_ERROR else None),
             (butlast ms1 @ [msg'], inb')))"

text \<open>Every turn consumes input, so the number of unread bytes is enough fuel.\<close>

fun recv_loop :: "nat \<Rightarrow> (net_message list \<times> byte_buf, decode_status) M" where
  "recv_loop 0 s = (if get_valid_read_len (snd s) = 0 then (Inr DECODERR_SUCCESS, s) else (Inl Diverges, s))"
| "recv_loop (Suc f) s =
     (if get_valid_read_len (snd s) = 0 then (Inr DECODERR_SUCCESS, s)
      else mbind recv_step (\<lambda>r. case r of Some st \<Rightarrow> mret st | None \<Rightarrow> recv_loop f) s)"

definition recv_message :: "(net_message list \<times> byte_buf, decode_status) M" where
  "recv_message s = recv_loop (unat (get_valid_read_len (snd s))) s"

definition has_complete_message :: "net_message list \<Rightarrow> bool" where
  "has_complete_message ms = (case ms of [] \<Rightarrow> False | m # _ \<Rightarrow> msg_complete m)"

section \<open>Specification: cutting the stream at the length fields\<close>

definition frame_len :: "byte list \<Rightarrow> int" where
  "frame_len bs = sint (be_word (take 4 bs) :: i32)"

definition valid_len :: "int \<Rightarrow> bool" where
  "valid_len n \<longleftrightarrow> 30 \<le> n \<and> n \<le> 4194304"

function split_frames :: "byte list \<Rightarrow> byte list list option" where
  "split_frames bs =
     (if bs = [] then Some []
      else if length bs < 4 then Some [bs]
      else if \<not> valid_len (frame_len bs) then None
      else if length bs \<le> nat (frame_len bs) then Some [bs]
      else map_option (Cons (take (nat (frame_len bs)) bs)) (split_frames (drop (nat (frame_len bs)) bs)))"
  by auto
termination split_frames
  by (relation "measure length") (auto simp: valid_len_def)

declare split_frames.simps [simp del]

definition full_frame :: "byte list \<Rightarrow> bool" where
  "full_frame bs \<longleftrightarrow> 4 \<le> length bs \<and> valid_len (frame_len bs) \<and> int (length bs) = frame_len bs"

lemma frame_len_append: "4 \<le> length bs \<Longrightarrow> frame_len (bs @ r) = frame_len bs"
  by (simp add: frame_len_def)

lemma split_full: "full_frame b \<Longrightarrow> split_frames (b @ x) = map_option (Cons b) (split_frames x)"
proof -
  assume b: "full_frame b"
  then have n: "frame_len (b @ x) = int (length b)" and "valid_len (int (length b))" "4 \<le> length b"
    by (auto simp: full_frame_def frame_len_append)
  then show ?thesis
    by (subst split_frames.simps) (auto simp: split_frames.simps [of "[]"])
qed

lemma split_fulls:
  "\<forall>b\<in>set bs. full_frame b \<Longrightarrow> split_frames (concat bs @ x) = map_option ((@) bs) (split_frames x)"
proof (induction bs)
  case Nil
  show ?case by (cases "split_frames x") simp_all
next
  case (Cons a bs)
  then show ?case by (cases "split_frames x") (simp_all add: split_full)
qed

section \<open>The loop implements the specification\<close>

definition wf_msg :: "net_message \<Rightarrow> bool" where
  "wf_msg m \<longleftrightarrow>
     wf_buf (m_msg_stream m) \<and> std_buf (m_msg_stream m) \<and> length (theBytes m) = 4 \<and>
     m_pos m = int (length (content (m_msg_stream m))) \<and>
     (if m_pos m < 4
      then \<not> m_in_data m \<and> m_packet_len m = 0 \<and> take (nat (m_pos m)) (theBytes m) = content (m_msg_stream m)
      else m_in_data m \<and> m_packet_len m = frame_len (content (m_msg_stream m)) \<and>
           valid_len (m_packet_len m) \<and> m_pos m \<le> m_packet_len m)"

definition msg_bytes :: "net_message \<Rightarrow> byte list" where
  "msg_bytes m = content (m_msg_stream m)"

definition wf_queue :: "net_message list \<Rightarrow> bool" where
  "wf_queue ms \<longleftrightarrow>
     (\<forall>m\<in>set ms. wf_msg m \<and> msg_bytes m \<noteq> []) \<and> (\<forall>m\<in>set (butlast ms). msg_complete m)"

lemma complete_full:
  assumes "wf_msg m" and "msg_bytes m \<noteq> []"
  shows "msg_complete m \<longleftrightarrow> full_frame (msg_bytes m)"
  using assms by (auto simp: wf_msg_def msg_complete_def full_frame_def msg_bytes_def split: if_splits)

lemma wf_new [simp]: "wf_msg new_net_message" "msg_bytes new_net_message = []"
  "\<not> m_in_data new_net_message"
  by (simp_all add: wf_msg_def new_net_message_def msg_bytes_def)

lemma sint_read_len: "wf_buf b \<Longrightarrow> sint (get_valid_read_len b) = int (length (content b))"
proof -
  assume wf: "wf_buf b"
  have "length (content b) \<le> 16777216" by (rule length_content_bound [OF wf])
  then show ?thesis
    using valid_read_len_content [OF wf]
    by (simp add: sint_uint unsigned_of_nat take_bit_nat_eq_self signed_take_bit_int_eq_self)
qed

lemma unread_memcpy: "wf_buf b \<Longrightarrow> n \<le> length (content b) \<Longrightarrow>
    memcpy_from (m_read_ptr b) n (m_buf b) = take n (content b)"
  using length_content [of b] by (simp add: memcpy_from_def content_def min_def)

text \<open>The length field: the bytes copied so far, and the length once there are four.\<close>

lemma read_packet_len_ok:
  assumes m: "wf_msg m" and d: "\<not> m_in_data m" and inb: "wf_buf inb" "content inb \<noteq> []"
  defines "k \<equiv> min (4 - length (msg_bytes m)) (length (content inb))"
  shows "\<exists>m' inb'. read_packet_len (m, inb) = (Inr (int k), (m', inb')) \<and> 0 < k \<and>
           msg_bytes m' = msg_bytes m @ take k (content inb) \<and>
           wf_buf inb' \<and> content inb' = drop k (content inb) \<and>
           (if length (msg_bytes m') < 4 then wf_msg m' \<and> \<not> m_in_data m'
            else m_in_data m' \<and> m_packet_len m' = frame_len (msg_bytes m') \<and> length (msg_bytes m') = 4 \<and>
                 (valid_len (m_packet_len m') \<longrightarrow> wf_msg m'))"
proof -
  let ?p = "msg_bytes m" and ?c = "content inb"
  from m d have p4: "length ?p < 4" and pos: "m_pos m = int (length ?p)" and bs: "wf_buf (m_msg_stream m)"
    "std_buf (m_msg_stream m)" and tb: "length (theBytes m) = 4" "take (length ?p) (theBytes m) = ?p"
    and pl: "m_packet_len m = 0"
    by (auto simp: wf_msg_def msg_bytes_def split: if_splits)
  have k: "0 < k" "k \<le> length ?c" "k \<le> 4" "length ?p + k \<le> 4" using p4 inb(2) by (auto simp: k_def)
  have nc: "min (4 - m_pos m) (sint (get_valid_read_len inb)) = int k"
    using sint_read_len [OF inb(1)] pos p4 unfolding k_def by linarith
  have ne: "take k ?c \<noteq> []" and len: "length ?p + length (take k ?c) < 10485760" using k by auto
  from std_append [OF bs ne] len obtain st where
    st: "write_to_byte_buf (take k ?c) (m_msg_stream m) = (Inr (of_nat (length (take k ?c))), st)"
      "wf_buf st" "std_buf st" "content st = ?p @ take k ?c"
    unfolding msg_bytes_def by blast
  from bb.read_enough [OF inb(1) k(2)] obtain inb' where
    i': "read_from_byte_buf k inb = (Inr (take k ?c), inb')" "wf_buf inb'" "content inb' = drop k ?c" by blast
  let ?tb = "memcpy_to (length ?p) (take k ?c) (theBytes m)"
  have tb': "length ?tb = 4" "take (length ?p + k) ?tb = ?p @ take k ?c"
    using tb k by (auto simp: memcpy_to_def)
  let ?m1 = "m\<lparr>m_msg_stream := st, theBytes := ?tb, m_pos := m_pos m + int k\<rparr>"
  let ?m2 = "?m1\<lparr>m_packet_len := sint (hton32 (le_word ?tb)), m_in_data := True\<rparr>"
  have run: "read_packet_len (m, inb) =
      (if length ?p + k < 4 then (Inr (int k), (?m1, inb')) else (Inr (int k), (?m2, inb')))"
    using nc st(1) i'(1) unread_memcpy [OF inb(1) k(2)] pos
    by (simp add: read_packet_len_def Let_def)
  show ?thesis
  proof (cases "length ?p + k < 4")
    case True
    then have "wf_msg ?m1" using st tb' pos pl d k by (simp add: wf_msg_def nat_add_distrib)
    with run True st i' k d show ?thesis by (auto simp: msg_bytes_def)
  next
    case False
    then have eq: "length ?p + k = 4" using k by simp
    then have tbc: "?tb = ?p @ take k ?c" using tb' by simp
    have fl: "sint (hton32 (le_word ?tb)) = frame_len (msg_bytes ?m2)"
    proof -
      have l4: "length (?p @ take k ?c) = 4" using eq k(2) by simp
      then have "take 4 (?p @ take k ?c) = ?p @ take k ?c" by (metis order_refl take_all)
      moreover have "msg_bytes ?m2 = ?p @ take k ?c" by (simp add: msg_bytes_def st(4))
      ultimately show ?thesis by (simp only: frame_len_def tbc hton32_le_word [OF l4])
    qed
    have "valid_len (m_packet_len ?m2) \<Longrightarrow> wf_msg ?m2"
      using st tb' pos eq k fl by (simp add: wf_msg_def msg_bytes_def valid_len_def)
    with run False st i' k fl eq show ?thesis by (simp add: msg_bytes_def)
  qed
qed

lemma read_packet_body_ok:
  assumes m: "wf_msg m" and d: "m_in_data m" "\<not> msg_complete m" and inb: "wf_buf inb" "content inb \<noteq> []"
  defines "k \<equiv> min (nat (m_packet_len m) - length (msg_bytes m)) (length (content inb))"
  shows "\<exists>m' inb'. read_packet_body (m, inb) = (Inr (int k), (m', inb')) \<and> 0 < k \<and>
           msg_bytes m' = msg_bytes m @ take k (content inb) \<and>
           wf_buf inb' \<and> content inb' = drop k (content inb) \<and> wf_msg m' \<and> m_in_data m'"
proof -
  let ?p = "msg_bytes m" and ?c = "content inb"
  from m d have p4: "4 \<le> length ?p" and pos: "m_pos m = int (length ?p)" and bs: "wf_buf (m_msg_stream m)"
    "std_buf (m_msg_stream m)" and pl: "m_packet_len m = frame_len ?p" "valid_len (m_packet_len m)"
    and lt: "int (length ?p) < m_packet_len m" and tb: "length (theBytes m) = 4"
    by (auto simp: wf_msg_def msg_bytes_def msg_complete_def split: if_splits)
  have k: "0 < k" "k \<le> length ?c" "int (length ?p) + int k \<le> m_packet_len m"
    using lt inb(2) unfolding k_def by (auto simp: min_def)
  have nc: "min (m_packet_len m - m_pos m) (sint (get_valid_read_len inb)) = int k"
    using sint_read_len [OF inb(1)] pos lt unfolding k_def by linarith
  have ne: "take k ?c \<noteq> []" and len: "length ?p + length (take k ?c) < 10485760"
    using k pl(2) by (auto simp: valid_len_def)
  from std_append [OF bs ne] len obtain st where
    st: "write_to_byte_buf (take k ?c) (m_msg_stream m) = (Inr (of_nat (length (take k ?c))), st)"
      "wf_buf st" "std_buf st" "content st = ?p @ take k ?c"
    unfolding msg_bytes_def by blast
  have uk: "unat (of_int (int k) :: u32) = k"
    using k(2) length_content_bound [OF inb(1)] by (simp add: unat_of_nat32)
  from move_read_ptr_ok [OF inb(1), of "of_int (int k)"] uk k(2) obtain inb' where
    i': "move_read_ptr (of_int (int k)) inb = (Inr (), inb')" "wf_buf inb'" "content inb' = drop k ?c" by auto
  let ?m1 = "m\<lparr>m_msg_stream := st, m_pos := m_pos m + int k\<rparr>"
  have run: "read_packet_body (m, inb) = (Inr (int k), (?m1, inb'))"
    using nc st(1) i'(1) unread_memcpy [OF inb(1) k(2)] by (simp add: read_packet_body_def Let_def)
  have "wf_msg ?m1"
    using st pos pl p4 k d tb by (simp add: wf_msg_def frame_len_append)
  with run st i' k d show ?thesis by (simp add: msg_bytes_def)
qed

text \<open>One turn of the loop, on the message at the back of the queue or on a new one.\<close>

definition open_queue :: "net_message list \<Rightarrow> net_message list" where
  "open_queue ms = (if ms = [] \<or> msg_complete (last ms) then ms @ [new_net_message] else ms)"

lemma recv_step_unfold:
  "recv_step (ms, inb) =
     (case (if \<not> m_in_data (last (open_queue ms)) then read_packet_len (last (open_queue ms), inb)
            else read_packet_body (last (open_queue ms), inb)) of
        (Inl f, (msg', inb')) \<Rightarrow> (Inl f, (butlast (open_queue ms) @ [msg'], inb'))
      | (Inr handled, (msg', inb')) \<Rightarrow>
          (Inr (if handled < 0 then Some DECODE_ERROR
                else if m_in_data msg' \<and> \<not> valid_len (m_packet_len msg') then Some DECODE_ERROR else None),
           (butlast (open_queue ms) @ [msg'], inb')))"
proof -
  have v: "(m_packet_len m' > MAX_MATRIX_MSG_LEN \<or> m_packet_len m' < MIN_MATRIX_MSG_CODE_LEN) =
      (\<not> valid_len (m_packet_len m'))" for m'
    by (auto simp: valid_len_def MAX_MATRIX_MSG_LEN_def MIN_MATRIX_MSG_CODE_LEN_def)
  show ?thesis unfolding recv_step_def Let_def prod.case open_queue_def [symmetric] v ..
qed

lemma open_queue_props:
  assumes "wf_queue ms"
  shows "open_queue ms = butlast (open_queue ms) @ [last (open_queue ms)]"
    and "\<forall>m\<in>set (butlast (open_queue ms)). wf_msg m \<and> msg_bytes m \<noteq> [] \<and> msg_complete m"
    and "wf_msg (last (open_queue ms))"
    and "m_in_data (last (open_queue ms)) \<Longrightarrow> \<not> msg_complete (last (open_queue ms))"
    and "concat (map msg_bytes (open_queue ms)) = concat (map msg_bytes ms)"
proof -
  show "open_queue ms = butlast (open_queue ms) @ [last (open_queue ms)]"
    by (auto simp: open_queue_def)
  show "\<forall>m\<in>set (butlast (open_queue ms)). wf_msg m \<and> msg_bytes m \<noteq> [] \<and> msg_complete m"
  proof (cases "ms = [] \<or> msg_complete (last ms)")
    case True
    then have "butlast (open_queue ms) = ms" by (simp add: open_queue_def)
    moreover have "\<forall>m\<in>set ms. msg_complete m"
      using True assms by (cases ms rule: rev_cases) (auto simp: wf_queue_def)
    ultimately show ?thesis using assms by (simp add: wf_queue_def)
  next
    case False
    with assms show ?thesis by (auto simp: open_queue_def wf_queue_def dest: in_set_butlastD)
  qed
  show "wf_msg (last (open_queue ms))"
    using assms by (auto simp: open_queue_def wf_queue_def)
  show "m_in_data (last (open_queue ms)) \<Longrightarrow> \<not> msg_complete (last (open_queue ms))"
    by (auto simp: open_queue_def split: if_splits)
  show "concat (map msg_bytes (open_queue ms)) = concat (map msg_bytes ms)"
    by (simp add: open_queue_def)
qed

lemma split_invalid:
  assumes "4 \<le> length p" and "\<not> valid_len (frame_len p)"
  shows "split_frames (p @ r) = None"
  using assms by (subst split_frames.simps) (auto simp: frame_len_append)

lemma wf_queue_snoc:
  "\<forall>m\<in>set ms. wf_msg m \<and> msg_bytes m \<noteq> [] \<and> msg_complete m \<Longrightarrow> wf_msg m \<Longrightarrow> msg_bytes m \<noteq> [] \<Longrightarrow>
     wf_queue (ms @ [m])"
  by (auto simp: wf_queue_def)

text \<open>
  A turn on a well-formed queue with input left either reports the error that the specification
  has, or moves at least one byte from the input to the queue.
\<close>

lemma recv_step_ok:
  assumes q: "wf_queue ms" and inb: "wf_buf inb" "content inb \<noteq> []"
  shows "(\<exists>s'. recv_step (ms, inb) = (Inr (Some DECODE_ERROR), s') \<and>
             split_frames (concat (map msg_bytes ms) @ content inb) = None) \<or>
         (\<exists>ms' inb'. recv_step (ms, inb) = (Inr None, (ms', inb')) \<and> wf_queue ms' \<and> wf_buf inb' \<and>
             length (content inb') < length (content inb) \<and>
             concat (map msg_bytes ms') @ content inb' = concat (map msg_bytes ms) @ content inb)"
proof -
  note o = open_queue_props [OF q]
  let ?done = "butlast (open_queue ms)" and ?m = "last (open_queue ms)" and ?c = "content inb"
  have cat: "concat (map msg_bytes ms) = concat (map msg_bytes ?done) @ msg_bytes ?m"
    using o(5) arg_cong [OF o(1), of "\<lambda>x. concat (map msg_bytes x)"] by simp
  have fulls: "\<forall>b\<in>set (map msg_bytes ?done). full_frame b"
    using o(2) complete_full by auto
  have moved: "wf_queue (?done @ [m']) \<and> wf_buf inb' \<and> length (content inb') < length ?c \<and>
      concat (map msg_bytes (?done @ [m'])) @ content inb' = concat (map msg_bytes ms) @ ?c"
    if "wf_msg m'" "msg_bytes m' = msg_bytes ?m @ take k ?c" "wf_buf inb'" "content inb' = drop k ?c" "0 < k"
    for m' inb' k
    using that o(2) inb(2) cat by (auto intro: wf_queue_snoc)
  show ?thesis
  proof (cases "m_in_data ?m")
    case True
    from read_packet_body_ok [OF o(3) True o(4) [OF True] inb] obtain k m' inb' where
      r: "read_packet_body (?m, inb) = (Inr (int k), (m', inb'))" "0 < k"
        "msg_bytes m' = msg_bytes ?m @ take k ?c" "wf_buf inb'" "content inb' = drop k ?c" "wf_msg m'" "m_in_data m'"
      by blast
    have "valid_len (m_packet_len m')" using r(6,7) by (auto simp: wf_msg_def split: if_splits)
    with True r moved [OF r(6,3-5,2)] show ?thesis by (simp add: recv_step_unfold)
  next
    case False
    from read_packet_len_ok [OF o(3) False inb] obtain k m' inb' where
      r: "read_packet_len (?m, inb) = (Inr (int k), (m', inb'))" "0 < k"
        "msg_bytes m' = msg_bytes ?m @ take k ?c" "wf_buf inb'" "content inb' = drop k ?c"
      and s: "if length (msg_bytes m') < 4 then wf_msg m' \<and> \<not> m_in_data m'
            else m_in_data m' \<and> m_packet_len m' = frame_len (msg_bytes m') \<and> length (msg_bytes m') = 4 \<and>
                 (valid_len (m_packet_len m') \<longrightarrow> wf_msg m')"
      by blast
    show ?thesis
    proof (cases "m_in_data m' \<and> \<not> valid_len (m_packet_len m')")
      case True
      have "concat (map msg_bytes ms) @ ?c = concat (map msg_bytes ?done) @ msg_bytes m' @ drop k ?c"
        using cat r(3) by simp
      moreover have "split_frames (msg_bytes m' @ drop k ?c) = None"
        by (rule split_invalid) (use s True in \<open>auto split: if_splits\<close>)
      ultimately have "split_frames (concat (map msg_bytes ms) @ ?c) = None"
        using split_fulls [OF fulls] by (simp del: map_append)
      with False True r show ?thesis by (simp add: recv_step_unfold)
    next
      case v: False
      then have "wf_msg m'" using s by (auto split: if_splits)
      from moved [OF this r(3-5,2)] False v r show ?thesis by (auto simp: recv_step_unfold)
    qed
  qed
qed

lemma wf_queue_split:
  assumes "wf_queue ms"
  shows "split_frames (concat (map msg_bytes ms)) = Some (map msg_bytes ms)"
proof (cases "ms = []")
  case True
  then show ?thesis by (simp add: split_frames.simps)
next
  case False
  let ?l = "last ms"
  have ms: "ms = butlast ms @ [?l]" using False by simp
  have l: "wf_msg ?l" "msg_bytes ?l \<noteq> []" using assms False by (auto simp: wf_queue_def)
  have "split_frames (msg_bytes ?l) = Some [msg_bytes ?l]"
    using l by (subst split_frames.simps) (auto simp: wf_msg_def msg_bytes_def split: if_splits)
  moreover have "\<forall>b\<in>set (map msg_bytes (butlast ms)). full_frame b"
    using assms complete_full by (auto simp: wf_queue_def dest: in_set_butlastD)
  ultimately have "split_frames (concat (map msg_bytes (butlast ms)) @ msg_bytes ?l) =
      Some (map msg_bytes (butlast ms) @ [msg_bytes ?l])"
    by (simp add: split_fulls)
  then show ?thesis by (subst ms, subst (2) ms) simp
qed

lemma recv_loop_ok:
  assumes "wf_queue ms" and "wf_buf inb" and "length (content inb) \<le> f"
  shows "case split_frames (concat (map msg_bytes ms) @ content inb) of
           None \<Rightarrow> (\<exists>s'. recv_loop f (ms, inb) = (Inr DECODE_ERROR, s'))
         | Some fs \<Rightarrow> (\<exists>ms' inb'. recv_loop f (ms, inb) = (Inr DECODERR_SUCCESS, (ms', inb')) \<and>
                         wf_queue ms' \<and> map msg_bytes ms' = fs \<and> wf_buf inb' \<and> content inb' = [])"
  using assms
proof (induction f arbitrary: ms inb)
  case 0
  then have "content inb = []" by simp
  moreover have "get_valid_read_len inb = 0" using valid_read_len_content [OF 0(2)] 0(3) by simp
  ultimately show ?case using 0 wf_queue_split [OF 0(1)] by simp
next
  case (Suc f)
  show ?case
  proof (cases "content inb = []")
    case True
    moreover have "get_valid_read_len inb = 0" using valid_read_len_content [OF Suc.prems(2)] True by simp
    ultimately show ?thesis using Suc.prems wf_queue_split [OF Suc.prems(1)] by simp
  next
    case False
    have nz: "get_valid_read_len inb \<noteq> 0"
      using unat_valid_read_len [OF Suc.prems(2)] False by auto
    from recv_step_ok [OF Suc.prems(1,2) False] show ?thesis
    proof (elim disjE exE conjE)
      fix s'
      assume "recv_step (ms, inb) = (Inr (Some DECODE_ERROR), s')"
        and "split_frames (concat (map msg_bytes ms) @ content inb) = None"
      with nz show ?thesis by (simp add: mbind_Inr mret_run)
    next
      fix ms' inb'
      assume st: "recv_step (ms, inb) = (Inr None, (ms', inb'))" "wf_queue ms'" "wf_buf inb'"
        "length (content inb') < length (content inb)"
        "concat (map msg_bytes ms') @ content inb' = concat (map msg_bytes ms) @ content inb"
      have "length (content inb') \<le> f" using st(4) Suc.prems(3) by simp
      note IH = Suc.IH [OF st(2,3) this, unfolded st(5)]
      have "recv_loop (Suc f) (ms, inb) = recv_loop f (ms', inb')"
        using st(1) nz by (simp add: mbind_Inr)
      with IH show ?thesis by (simp only:)
    qed
  qed
qed

section \<open>Properties\<close>

text \<open>
  Data arriving in pieces: each read of the socket calls \<open>recv_message\<close> with a buffer that holds
  the piece; an error ends the sequence (the channel is closed).
\<close>

fun recv_pieces :: "byte_buf list \<Rightarrow> net_message list \<Rightarrow> failure + decode_status \<times> net_message list" where
  "recv_pieces [] ms = Inr (DECODERR_SUCCESS, ms)"
| "recv_pieces (b # bs) ms =
     (case recv_message (ms, b) of
        (Inl f, _) \<Rightarrow> Inl f
      | (Inr st, (ms', _)) \<Rightarrow> if st = DECODERR_SUCCESS then recv_pieces bs ms' else Inr (st, ms'))"

text \<open>(C4) \<open>recv_message\<close> refines the frame-cutting specification: from a well-formed queue it always
  returns; it reports an error exactly when a length field of the stream is outside
  \<open>[30, 4 MiB]\<close>, and otherwise consumes all input and leaves in the queue exactly the frames of the
  whole stream, the last one possibly incomplete.\<close>

theorem recv_message_refines_split_frames:
  assumes "wf_queue ms" and "wf_buf inb"
  shows "case split_frames (concat (map msg_bytes ms) @ content inb) of
           None \<Rightarrow> (\<exists>s'. recv_message (ms, inb) = (Inr DECODE_ERROR, s'))
         | Some fs \<Rightarrow> (\<exists>ms' inb'. recv_message (ms, inb) = (Inr DECODERR_SUCCESS, (ms', inb')) \<and>
                         wf_queue ms' \<and> map msg_bytes ms' = fs \<and> wf_buf inb' \<and> content inb' = [])"
  using recv_loop_ok [OF assms, of "unat (get_valid_read_len inb)"] unat_valid_read_len [OF assms(2)]
  unfolding recv_message_def snd_conv by simp

theorem recv_message_refines_split_frames_witness:
  "\<exists>ms' inb'. recv_message ([], copy_in [0, 0, 0, 30, 1] (new_buf DEFAULT_BUF_LEN True)) =
     (Inr DECODERR_SUCCESS, (ms', inb')) \<and> map msg_bytes ms' = [[0, 0, 0, 30, 1]]"
proof -
  let ?b = "new_buf DEFAULT_BUF_LEN True" and ?p = "[0, 0, 0, 30, 1] :: byte list"
  have "m_write_ptr ?b + length ?p \<le> m_write_bound ?b" by (simp add: new_buf_def)
  note c = copy_in_props [OF new_buf_default_wf this]
  have fl: "frame_len ?p = 30" by (simp add: frame_len_def be_word_def)
  have "split_frames ?p = Some [?p]" by (subst split_frames.simps) (simp add: fl valid_len_def)
  moreover have "wf_queue []" by (simp add: wf_queue_def)
  ultimately show ?thesis
    using recv_message_refines_split_frames [OF _ c(1), of "[]"] c(2) by fastforce
qed

lemma concat_split: "split_frames bs = Some fs \<Longrightarrow> concat fs = bs"
proof (induction bs arbitrary: fs rule: split_frames.induct)
  case (1 bs)
  show ?case
  proof (cases "bs = [] \<or> length bs < 4 \<or> length bs \<le> nat (frame_len bs)")
    case True
    with 1(2) show ?thesis by (auto simp: split_frames.simps [of bs] split: if_splits)
  next
    case False
    with 1(2) obtain gs where "split_frames (drop (nat (frame_len bs)) bs) = Some gs"
      "fs = take (nat (frame_len bs)) bs # gs" "valid_len (frame_len bs)"
      by (auto simp: split_frames.simps [of bs] split: if_splits)
    with 1(1) False show ?thesis by simp
  qed
qed

text \<open>Cutting a stream, then the same stream with more behind it.\<close>

lemma split_concat:
  "split_frames bs = Some fs \<Longrightarrow> split_frames (concat fs @ x) = split_frames (bs @ x)"
  by (simp add: concat_split)

lemma split_prefix_none:
  "split_frames bs = None \<Longrightarrow> split_frames (bs @ r) = None"
proof (induction bs rule: split_frames.induct)
  case (1 bs)
  then have ne: "bs \<noteq> []" "\<not> length bs < 4"
    by (auto simp: split_frames.simps [of bs] split: if_splits)
  show ?case
  proof (cases "valid_len (frame_len bs)")
    case False
    with ne show ?thesis by (intro split_invalid) auto
  next
    case True
    let ?n = "nat (frame_len bs)"
    from True ne 1(2) have n: "\<not> length bs \<le> ?n" and d: "split_frames (drop ?n bs) = None"
      by (auto simp: split_frames.simps [of bs] split: if_splits)
    from 1(1) [OF ne _ n d] True have "split_frames (drop ?n bs @ r) = None" by simp
    with ne True n show ?thesis
      by (subst split_frames.simps) (simp add: frame_len_append)
  qed
qed

lemma recv_pieces_ok:
  assumes "wf_queue ms" and "\<forall>b\<in>set bs. wf_buf b"
  shows "case split_frames (concat (map msg_bytes ms) @ concat (map content bs)) of
           None \<Rightarrow> (\<exists>ms'. recv_pieces bs ms = Inr (DECODE_ERROR, ms'))
         | Some fs \<Rightarrow> (\<exists>ms'. recv_pieces bs ms = Inr (DECODERR_SUCCESS, ms') \<and> wf_queue ms' \<and> map msg_bytes ms' = fs)"
  using assms
proof (induction bs arbitrary: ms)
  case Nil
  then show ?case by (simp add: wf_queue_split)
next
  case (Cons b bs)
  note r = recv_loop_ok [OF Cons.prems(1), of b "unat (get_valid_read_len b)"]
  have b: "wf_buf b" using Cons.prems(2) by simp
  show ?case
  proof (cases "split_frames (concat (map msg_bytes ms) @ content b)")
    case None
    with r b unat_valid_read_len [OF b] have "\<exists>s'. recv_message (ms, b) = (Inr DECODE_ERROR, s')"
      unfolding recv_message_def snd_conv by simp
    moreover from split_prefix_none [OF None]
    have "split_frames (concat (map msg_bytes ms) @ concat (map content (b # bs))) = None" by simp
    ultimately show ?thesis by auto
  next
    case (Some fs)
    with r b unat_valid_read_len [OF b] obtain ms' b' where
      m: "recv_message (ms, b) = (Inr DECODERR_SUCCESS, (ms', b'))" "wf_queue ms'" "map msg_bytes ms' = fs"
      unfolding recv_message_def snd_conv by auto
    have same: "split_frames (concat (map msg_bytes ms') @ x) =
        split_frames (concat (map msg_bytes ms) @ content b @ x)" for x
      using split_concat [OF Some, of x] m(3) by simp
    have "\<forall>b\<in>set bs. wf_buf b" using Cons.prems(2) by simp
    from Cons.IH [OF m(2) this, unfolded same] m(1) show ?thesis
      by (auto split: option.splits)
  qed
qed

text \<open>Packet boundaries do not depend on how TCP cuts the stream: two ways of delivering the same
  bytes in pieces, to a fresh decoder, give the same verdict and the same frames.\<close>

theorem reassembly_independent_of_pieces:
  assumes "\<forall>b\<in>set bs. wf_buf b" and "\<forall>b\<in>set bs'. wf_buf b"
    and "concat (map content bs) = concat (map content bs')"
  shows "\<exists>st ms ms'. recv_pieces bs [] = Inr (st, ms) \<and> recv_pieces bs' [] = Inr (st, ms') \<and>
           (st = DECODERR_SUCCESS \<longrightarrow> map msg_bytes ms = map msg_bytes ms' \<and>
              concat (map msg_bytes ms) = concat (map content bs))"
proof -
  have q: "wf_queue []" by (simp add: wf_queue_def)
  note r = recv_pieces_ok [OF q assms(1)] and r' = recv_pieces_ok [OF q assms(2)]
  show ?thesis
  proof (cases "split_frames (concat (map content bs))")
    case None
    with r r' assms(3) show ?thesis by auto
  next
    case (Some fs)
    then have "concat fs = concat (map content bs)" by (rule concat_split)
    with Some r r' assms(3) show ?thesis by auto
  qed
qed

theorem reassembly_independent_of_pieces_witness:
  "\<exists>st ms ms'.
     recv_pieces [copy_in [0] (new_buf DEFAULT_BUF_LEN True), copy_in [1] (new_buf DEFAULT_BUF_LEN True)] [] =
       Inr (st, ms) \<and>
     recv_pieces [copy_in [0, 1] (new_buf DEFAULT_BUF_LEN True)] [] = Inr (st, ms') \<and>
     (st = DECODERR_SUCCESS \<longrightarrow> map msg_bytes ms = map msg_bytes ms' \<and> concat (map msg_bytes ms) = [0, 1])"
proof -
  let ?b = "new_buf DEFAULT_BUF_LEN True"
  have "m_write_ptr ?b + length p \<le> m_write_bound ?b" if "length p \<le> 2" for p :: "byte list"
    using that by (simp add: new_buf_def)
  note c = copy_in_props [OF new_buf_default_wf this]
  show ?thesis
    using reassembly_independent_of_pieces [of "[copy_in [0] ?b, copy_in [1] ?b]" "[copy_in [0, 1] ?b]"]
    by (simp add: c)
qed

end
