(* ===== verification/Thrift_Codec.thy ===== *)
theory Thrift_Codec
  imports Thrift_Protocol
begin

text \<open>
  The second interface of a protocol: what the write operations put on the wire, and that the
  read operations take exactly that back. \<open>codec_state\<close> names the view of a protocol object
  (its field-id context, the unread bytes, the room for writing) and defines what it means for a
  computation to write or to read some bytes; \<open>thrift_codec\<close> lists the laws of the operations,
  and the round trip of \<open>base_header\<close> is proved once from them.
\<close>

text \<open>The types a value on the wire can have; a boolean field has a header of its own kind.\<close>

definition field_types :: "TType set" where
  "field_types =
     {T_BYTE, T_I16, T_I32, T_I64, T_DOUBLE, T_STRING, T_STRUCT, T_MAP, T_SET, T_LIST}"

text \<open>The header with its unset members blank: what a reader that starts from a new header gets.\<close>

definition norm_header :: "base_header \<Rightarrow> base_header" where
  "norm_header h =
     h\<lparr>nonce := if isset_nonce h then nonce h else [],
       session_id := if isset_session_id h then session_id h else [],
       path := if isset_path h then path h else [],
       exten_info := if isset_exten_info h then exten_info h else []\<rparr>"

lemma header_eq_norm: "header_eq h (norm_header h)"
  by (simp add: header_eq_def norm_header_def)

locale codec_state =
  fixes st :: "i16 list \<Rightarrow> 's \<Rightarrow> bool"
    and cont :: "'s \<Rightarrow> byte list"
    and room :: "'s \<Rightarrow> nat"
begin

definition writes :: "i16 list \<Rightarrow> i16 list \<Rightarrow> ('s, unit) X \<Rightarrow> byte list \<Rightarrow> bool" where
  "writes c c' m bs \<longleftrightarrow>
     (\<forall>s. st c s \<longrightarrow> length bs \<le> room s \<longrightarrow>
       (\<exists>s'. m s = (Inr (of_nat (length bs), ()), s') \<and> st c' s' \<and>
             cont s' = cont s @ bs \<and> room s' = room s - length bs))"

definition reads :: "i16 list \<Rightarrow> i16 list \<Rightarrow> ('s, 'a) X \<Rightarrow> byte list \<Rightarrow> 'a \<Rightarrow> bool" where
  "reads c c' m bs v \<longleftrightarrow>
     (\<forall>s rest. st c s \<longrightarrow> cont s = bs @ rest \<longrightarrow>
       (\<exists>s'. m s = (Inr (of_nat (length bs), v), s') \<and> st c' s' \<and> cont s' = rest))"

lemma writesD:
  "writes c c' m bs \<Longrightarrow> st c s \<Longrightarrow> length bs \<le> room s \<Longrightarrow>
     \<exists>s'. m s = (Inr (of_nat (length bs), ()), s') \<and> st c' s' \<and>
          cont s' = cont s @ bs \<and> room s' = room s - length bs"
  unfolding writes_def by blast

lemma readsD:
  "reads c c' m bs v \<Longrightarrow> st c s \<Longrightarrow> cont s = bs @ rest \<Longrightarrow>
     \<exists>s'. m s = (Inr (of_nat (length bs), v), s') \<and> st c' s' \<and> cont s' = rest"
  unfolding reads_def by blast

lemma writes_xret: "writes c c (xret ()) []"
  by (simp add: writes_def mrun)

lemma reads_xret: "reads c c (xret v) [] v"
  by (simp add: reads_def mrun)

lemma writes_xseq:
  assumes m: "writes c c1 m bs" and k: "writes c1 c2 k bs'"
  shows "writes c c2 (xseq m k) (bs @ bs')"
  unfolding writes_def
proof (intro allI impI)
  fix s
  assume s: "st c s" and r: "length (bs @ bs') \<le> room s"
  from writesD [OF m s] r obtain s1 where 1: "m s = (Inr (of_nat (length bs), ()), s1)" "st c1 s1"
    "cont s1 = cont s @ bs" "room s1 = room s - length bs" by auto
  have "length bs' \<le> room s1" using r 1(4) by simp
  from writesD [OF k 1(2) this] obtain s2 where 2: "k s1 = (Inr (of_nat (length bs'), ()), s2)"
    "st c2 s2" "cont s2 = cont s1 @ bs'" "room s2 = room s1 - length bs'" by auto
  from 1 2 show "\<exists>s'. xseq m k s = (Inr (of_nat (length (bs @ bs')), ()), s') \<and> st c2 s' \<and>
      cont s' = cont s @ bs @ bs' \<and> room s' = room s - length (bs @ bs')"
    by (simp add: xseq_def xbind_run)
qed

lemma reads_xbind:
  assumes m: "reads c c1 m bs v" and k: "reads c1 c2 (k v) bs' w"
  shows "reads c c2 (xbind m k) (bs @ bs') w"
  unfolding reads_def
proof (intro allI impI)
  fix s rest
  assume s: "st c s" and r: "cont s = (bs @ bs') @ rest"
  from readsD [OF m s, of "bs' @ rest"] r obtain s1 where 1: "m s = (Inr (of_nat (length bs), v), s1)"
    "st c1 s1" "cont s1 = bs' @ rest" by auto
  from readsD [OF k 1(2,3)] obtain s2 where 2: "k v s1 = (Inr (of_nat (length bs'), w), s2)"
    "st c2 s2" "cont s2 = rest" by auto
  from 1 2 show "\<exists>s'. xbind m k s = (Inr (of_nat (length (bs @ bs')), w), s') \<and> st c2 s' \<and>
      cont s' = rest"
    by (simp add: xbind_run)
qed

lemma reads_xseq:
  "reads c c1 m bs () \<Longrightarrow> reads c1 c2 k bs' w \<Longrightarrow> reads c c2 (xseq m k) (bs @ bs') w"
  unfolding xseq_def by (rule reads_xbind)

text \<open>Steps that move nothing, before and after the one that does.\<close>

lemma reads_xseq_nil: "reads c c1 m [] () \<Longrightarrow> reads c1 c2 k bs w \<Longrightarrow> reads c c2 (xseq m k) bs w"
  using reads_xseq [of c c1 m "[]" c2 k bs w] by simp

lemma writes_xseq_nil: "writes c c1 m [] \<Longrightarrow> writes c1 c2 k bs \<Longrightarrow> writes c c2 (xseq m k) bs"
  using writes_xseq [of c c1 m "[]" c2 k bs] by simp

lemma reads_then_nil:
  "reads c c1 m bs v \<Longrightarrow> reads c1 c2 (k v) [] w \<Longrightarrow> reads c c2 (xbind m k) bs w"
  using reads_xbind [of c c1 m bs v c2 k "[]" w] by simp

lemma reads_map: "reads c c1 m bs v \<Longrightarrow> reads c c1 (xbind m (\<lambda>x. xret (f x))) bs (f v)"
  using reads_xbind [of c c1 m bs v c1 "\<lambda>x. xret (f x)" "[]" "f v"] by (simp add: reads_xret)

lemma writes_xforeach:
  "(\<And>x. x \<in> set xs \<Longrightarrow> writes c c (body x) (enc x)) \<Longrightarrow>
     writes c c (xforeach xs body) (concat (map enc xs))"
  by (induction xs) (auto intro: writes_xret writes_xseq)

lemma reads_xfor:
  "(\<And>x acc. x \<in> set xs \<Longrightarrow> reads c c (body acc) (enc x) (upd acc x)) \<Longrightarrow>
     reads c c (xfor (length xs) body acc) (concat (map enc xs)) (foldl upd acc xs)"
proof (induction xs arbitrary: acc)
  case Nil
  show ?case by (simp add: reads_xret)
next
  case (Cons x xs)
  have "reads c c (body acc) (enc x) (upd acc x)" using Cons.prems by simp
  moreover have "reads c c (xfor (length xs) body (upd acc x)) (concat (map enc xs))
      (foldl upd (upd acc x) xs)"
    using Cons.prems by (intro Cons.IH) simp
  ultimately show ?case by (auto intro: reads_xbind)
qed

end

locale thrift_codec = codec_state st cont room
  for st :: "i16 list \<Rightarrow> 's \<Rightarrow> bool"
    and cont :: "'s \<Rightarrow> byte list"
    and room :: "'s \<Rightarrow> nat" +
  fixes prot :: "'s protocol"
    and encField :: "i16 \<Rightarrow> TType \<Rightarrow> i16 \<Rightarrow> byte list"
    and encStop :: "byte list"
    and encMap :: "TType \<Rightarrow> TType \<Rightarrow> u32 \<Rightarrow> byte list"
    and encList :: "TType \<Rightarrow> u32 \<Rightarrow> byte list"
    and encByte :: "i8 \<Rightarrow> byte list"
    and encI16 :: "i16 \<Rightarrow> byte list"
    and encI32 :: "i32 \<Rightarrow> byte list"
    and encI64 :: "i64 \<Rightarrow> byte list"
    and encDouble :: "u64 \<Rightarrow> byte list"
    and encString :: "string \<Rightarrow> byte list"
    and map_ok :: "u32 \<Rightarrow> bool"
  assumes unread_cont: "st c s \<Longrightarrow> unread prot s = length (cont s)"
    and w_structBegin: "writes (l # c) (0 # l # c) (writeStructBegin prot) []"
    and w_structEnd: "writes (j # l # c) (l # c) (writeStructEnd prot) []"
    and w_fieldBegin: "t \<in> field_types \<Longrightarrow>
      writes (l # c) (i # c) (writeFieldBegin prot t i) (encField l t i)"
    and w_fieldEnd: "writes c c (writeFieldEnd prot) []"
    and w_fieldStop: "writes c c (writeFieldStop prot) encStop"
    and w_mapBegin: "kt \<in> field_types \<Longrightarrow> vt \<in> field_types \<Longrightarrow> n \<le> 10240 \<Longrightarrow>
      writes c c (writeMapBegin prot kt vt n) (encMap kt vt n)"
    and w_mapEnd: "writes c c (writeMapEnd prot) []"
    and w_listBegin: "t \<in> field_types \<Longrightarrow> n \<le> 10240 \<Longrightarrow>
      writes c c (writeListBegin prot t n) (encList t n)"
    and w_listEnd: "writes c c (writeListEnd prot) []"
    and w_setBegin: "t \<in> field_types \<Longrightarrow> n \<le> 10240 \<Longrightarrow>
      writes c c (writeSetBegin prot t n) (encList t n)"
    and w_setEnd: "writes c c (writeSetEnd prot) []"
    and w_byte: "writes c c (writeByte prot x8) (encByte x8)"
    and w_i16: "writes c c (writeI16 prot x16) (encI16 x16)"
    and w_i32: "writes c c (writeI32 prot x32) (encI32 x32)"
    and w_i64: "writes c c (writeI64 prot x64) (encI64 x64)"
    and w_double: "writes c c (writeDouble prot x64) (encDouble x64)"
    and w_string: "length str \<le> 10485760 \<Longrightarrow> writes c c (writeString prot str) (encString str)"
    and r_structBegin: "reads (l # c) (0 # l # c) (readStructBegin prot) [] ()"
    and r_structEnd: "reads (j # l # c) (l # c) (readStructEnd prot) [] ()"
    and r_fieldBegin: "t \<in> field_types \<Longrightarrow>
      reads (l # c) (i # c) (readFieldBegin prot) (encField l t i) (t, i)"
    and r_fieldEnd: "reads c c (readFieldEnd prot) [] ()"
    and r_fieldStop: "reads c c (readFieldBegin prot) encStop (T_STOP, 0)"
    and r_mapBegin: "kt \<in> field_types \<Longrightarrow> vt \<in> field_types \<Longrightarrow> n \<le> 10240 \<Longrightarrow> map_ok n \<Longrightarrow>
      reads c c (readMapBegin prot) (encMap kt vt n) (kt, vt, n)"
    and r_mapEnd: "reads c c (readMapEnd prot) [] ()"
    and r_listBegin: "t \<in> field_types \<Longrightarrow> n \<le> 10240 \<Longrightarrow>
      reads c c (readListBegin prot) (encList t n) (t, n)"
    and r_listEnd: "reads c c (readListEnd prot) [] ()"
    and r_setBegin: "t \<in> field_types \<Longrightarrow> n \<le> 10240 \<Longrightarrow>
      reads c c (readSetBegin prot) (encList t n) (t, n)"
    and r_setEnd: "reads c c (readSetEnd prot) [] ()"
    and r_byte: "reads c c (readByte prot) (encByte x8) x8"
    and r_i16: "reads c c (readI16 prot) (encI16 x16) x16"
    and r_i32: "reads c c (readI32 prot) (encI32 x32) x32"
    and r_i64: "reads c c (readI64 prot) (encI64 x64) x64"
    and r_double: "reads c c (readDouble prot) (encDouble x64) x64"
    and r_string: "length str \<le> 10485760 \<Longrightarrow> reads c c (readString prot) (encString str) str"
    and encField_ne: "encField l t i \<noteq> []"
    and encStop_ne: "encStop \<noteq> []"
begin

text \<open>A struct on the wire: its fields, each with the id of the one before it, and the stop.\<close>

fun enc_fields :: "i16 \<Rightarrow> (TType \<times> i16 \<times> byte list) list \<Rightarrow> byte list" where
  "enc_fields l [] = encStop"
| "enc_fields l ((t, i, bs) # fs) = encField l t i @ bs @ enc_fields i fs"

lemma length_enc_fields: "length fs < length (enc_fields l fs)"
proof (induction l fs rule: enc_fields.induct)
  case (1 l)
  show ?case using encStop_ne by simp
next
  case (2 l t i bs fs)
  have "0 < length (encField l t i)" using encField_ne by simp
  with 2 have "Suc (length fs) < length (encField l t i) + (length bs + length (enc_fields i fs))"
    by linarith
  then show ?case by simp
qed

definition enc_path :: "string list \<Rightarrow> byte list" where
  "enc_path ps = encList T_STRING (of_nat (length ps)) @ concat (map encString ps)"

definition enc_exten_info :: "(string, string) smap \<Rightarrow> byte list" where
  "enc_exten_info m =
     encMap T_STRING T_STRING (of_nat (length m)) @
     concat (map (\<lambda>(k, v). encString k @ encString v) m)"

text \<open>
  The fields \<open>base_header::write\<close> emits, with what reading each of them does to the header being
  built.
\<close>

definition header_fields ::
    "base_header \<Rightarrow> ((TType \<times> i16 \<times> byte list) \<times> (header_read \<Rightarrow> header_read)) list" where
  "header_fields h =
     ((T_I32, 1, encI32 (magic h)), \<lambda>(g, a, b). (g\<lparr>magic := magic h\<rparr>, True, b)) #
     ((T_STRING, 2, encString (msg_name h)), \<lambda>(g, a, b). (g\<lparr>msg_name := msg_name h\<rparr>, a, True)) #
     (if isset_nonce h
      then [((T_STRING, 3, encString (nonce h)),
             \<lambda>(g, a, b). (g\<lparr>nonce := nonce h, isset_nonce := True\<rparr>, a, b))] else []) @
     (if isset_session_id h
      then [((T_STRING, 4, encString (session_id h)),
             \<lambda>(g, a, b). (g\<lparr>session_id := session_id h, isset_session_id := True\<rparr>, a, b))] else []) @
     (if isset_path h
      then [((T_LIST, 5, enc_path (path h)),
             \<lambda>(g, a, b). (g\<lparr>path := path h, isset_path := True\<rparr>, a, b))] else []) @
     (if isset_exten_info h
      then [((T_MAP, 255, enc_exten_info (exten_info h)),
             \<lambda>(g, a, b). (g\<lparr>exten_info := exten_info h, isset_exten_info := True\<rparr>, a, b))] else [])"

definition enc_header :: "base_header \<Rightarrow> byte list" where
  "enc_header h = enc_fields 0 (map fst (header_fields h))"

text \<open>The limits within which a header survives the trip.\<close>

definition header_ok :: "base_header \<Rightarrow> bool" where
  "header_ok h \<longleftrightarrow>
     length (msg_name h) \<le> 10485760 \<and>
     (isset_nonce h \<longrightarrow> length (nonce h) \<le> 10485760) \<and>
     (isset_session_id h \<longrightarrow> length (session_id h) \<le> 10485760) \<and>
     (isset_path h \<longrightarrow> length (path h) \<le> 10240 \<and> (\<forall>p\<in>set (path h). length p \<le> 10485760)) \<and>
     (isset_exten_info h \<longrightarrow> length (exten_info h) \<le> 10240 \<and> map_ok (of_nat (length (exten_info h))) \<and>
        smap_wf (exten_info h) \<and>
        (\<forall>(k, v)\<in>set (exten_info h). length k \<le> 10485760 \<and> length v \<le> 10485760))"

lemma types [simp]:
  "T_I32 \<in> field_types" "T_STRING \<in> field_types" "T_LIST \<in> field_types" "T_MAP \<in> field_types"
  by (simp_all add: field_types_def)

lemma le_container: "n \<le> 10240 \<Longrightarrow> (of_nat n :: u32) \<le> 10240 \<and> unat (of_nat n :: u32) = n"
  by (simp add: word_le_nat_alt unat_of_nat)

lemma writes_field:
  assumes "t \<in> field_types" and "writes (i # c) (i # c) m bs"
    and "writes (i # c) c' k (enc_fields i fs)"
  shows "writes (l # c) c' (xseq (write_field prot t i m) k) (enc_fields l ((t, i, bs) # fs))"
  using writes_xseq [OF writes_xseq [OF w_fieldBegin [OF assms(1)] writes_xseq [OF assms(2) w_fieldEnd]]
      assms(3)]
  by (simp add: write_field_def)

lemma writes_opt_field:
  assumes "b \<Longrightarrow> t \<in> field_types \<and> writes (i # c) (i # c) m bs"
    and "\<And>l. writes (l # c) c' k (enc_fields l fs)"
  shows "writes (l # c) c' (xseq (xwhen b (write_field prot t i m)) k)
           (enc_fields l ((if b then [(t, i, bs)] else []) @ fs))"
proof (cases b)
  case True
  with assms writes_field [of t i c m bs c' k fs l] show ?thesis by (simp add: xwhen_def)
next
  case False
  with assms(2) show ?thesis by (simp add: xwhen_def xseq_def)
qed

lemma writes_end: "writes (l # k # c) (k # c) (xseq (writeFieldStop prot) (writeStructEnd prot)) (enc_fields l [])"
  using writes_xseq [OF w_fieldStop w_structEnd] by simp

lemma writes_path:
  assumes "length ps \<le> 10240" and "\<forall>p\<in>set ps. length p \<le> 10485760"
  shows "writes c c (write_path prot ps) (enc_path ps)"
proof -
  have "writes c c (xforeach ps (writeString prot)) (concat (map encString ps))"
    using assms(2) by (intro writes_xforeach w_string) auto
  from writes_xseq [OF w_listBegin writes_xseq [OF this w_listEnd]] le_container [OF assms(1)]
  show ?thesis by (simp add: write_path_def enc_path_def)
qed

lemma writes_exten_info:
  assumes "length m \<le> 10240" and "\<forall>(k, v)\<in>set m. length k \<le> 10485760 \<and> length v \<le> 10485760"
  shows "writes c c (write_exten_info prot m) (enc_exten_info m)"
proof -
  let ?body = "\<lambda>(k, v). xseq (writeString prot k) (writeString prot v)"
  have "writes c c (?body e) ((\<lambda>(k, v). encString k @ encString v) e)" if "e \<in> set m" for e
    using assms(2) that by (cases e) (auto intro!: writes_xseq w_string)
  then have "writes c c (xforeach m ?body) (concat (map (\<lambda>(k, v). encString k @ encString v) m))"
    by (rule writes_xforeach)
  from writes_xseq [OF w_mapBegin writes_xseq [OF this w_mapEnd]] le_container [OF assms(1)]
  show ?thesis by (simp add: write_exten_info_def enc_exten_info_def)
qed

lemma header_writes:
  assumes "header_ok h"
  shows "writes (l # c) (l # c) (base_header_write prot h) (enc_header h)"
proof -
  note ok = assms [unfolded header_ok_def]
  have ext: "writes (k # l # c) (l # c)
      (xseq (xwhen (isset_exten_info h) (write_field prot T_MAP 255 (write_exten_info prot (exten_info h))))
        (xseq (writeFieldStop prot) (writeStructEnd prot)))
      (enc_fields k ((if isset_exten_info h then [(T_MAP, 255, enc_exten_info (exten_info h))] else []) @ []))"
    for k
    by (rule writes_opt_field [OF _ writes_end]) (use ok writes_exten_info in auto)
  show ?thesis
    unfolding base_header_write_def enc_header_def header_fields_def map_append list.map fst_conv
      if_distrib [of "map fst"]
    by (rule writes_xseq_nil [OF w_structBegin], intro writes_field writes_opt_field)
       (use ok ext in \<open>auto intro: w_i32 w_string writes_path\<close>)
qed

lemma stop_not_field: "t \<in> field_types \<Longrightarrow> t \<noteq> T_STOP"
  by (auto simp: field_types_def TType_defs)

lemma reads_path:
  assumes "length ps \<le> 10240" and "\<forall>p\<in>set ps. length p \<le> 10485760"
  shows "reads c c (read_path prot) (enc_path ps) ps"
proof -
  have elems: "reads c c (xfor (length ps) (\<lambda>acc. xbind (readString prot) (\<lambda>v. xret (acc @ [v]))) [])
      (concat (map encString ps)) (foldl (\<lambda>acc v. acc @ [v]) [] ps)"
    using assms(2) by (intro reads_xfor reads_map r_string) auto
  have "foldl (\<lambda>acc v. acc @ [v]) [] ps = ps" by (induction ps rule: rev_induct) auto
  with elems have "reads c c (xbind (xfor (length ps) (\<lambda>acc. xbind (readString prot) (\<lambda>v. xret (acc @ [v]))) [])
      (\<lambda>ps. xseq (readListEnd prot) (xret ps))) (concat (map encString ps)) ps"
    by (intro reads_then_nil [of c c _ _ ps] reads_xseq_nil [OF r_listEnd reads_xret]) simp
  then show ?thesis
    unfolding read_path_def enc_path_def
    using le_container [OF assms(1)] by (auto intro!: reads_xbind [OF r_listBegin])
qed

lemma reads_exten_info:
  assumes "length m \<le> 10240" and "map_ok (of_nat (length m))" and "smap_wf m"
    and "\<forall>(k, v)\<in>set m. length k \<le> 10485760 \<and> length v \<le> 10485760"
  shows "reads c c (read_exten_info prot) (enc_exten_info m) m"
proof -
  let ?body = "\<lambda>acc. xbind (readString prot) (\<lambda>k. xbind (readString prot) (\<lambda>v. xret (smap_insert k v acc)))"
  let ?enc = "\<lambda>(k, v). encString k @ encString v"
  have "reads c c (?body acc) (?enc e) ((\<lambda>a (k, v). smap_insert k v a) acc e)" if "e \<in> set m" for acc e
    using assms(4) that by (cases e) (auto intro!: reads_xbind r_string reads_map)
  then have "reads c c (xfor (length m) ?body []) (concat (map ?enc m))
      (foldl (\<lambda>a (k, v). smap_insert k v a) [] m)"
    by (rule reads_xfor)
  with foldl_smap_insert [of "[]" m] assms(3)
  have "reads c c (xbind (xfor (length m) ?body []) (\<lambda>m. xseq (readMapEnd prot) (xret m)))
      (concat (map ?enc m)) m"
    by (intro reads_then_nil [of c c _ _ m] reads_xseq_nil [OF r_mapEnd reads_xret]) simp
  then show ?thesis
    unfolding read_exten_info_def enc_exten_info_def
    using le_container [OF assms(1)] assms(2) by (auto intro!: reads_xbind [OF r_mapBegin])
qed

definition reads_field :: "(TType \<times> i16 \<times> byte list) \<times> (header_read \<Rightarrow> header_read) \<Rightarrow> bool" where
  "reads_field = (\<lambda>((t, i, bs), u). t \<in> field_types \<and>
     (\<forall>c acc. reads (i # c) (i # c) (read_header_field prot t i acc) bs (u acc)))"

lemma reads_fieldI:
  "t \<in> field_types \<Longrightarrow>
     (\<And>c acc. reads (i # c) (i # c) (read_header_field prot t i acc) bs (u acc)) \<Longrightarrow>
     reads_field ((t, i, bs), u)"
  unfolding reads_field_def prod.case by blast

lemma reads_fieldD:
  assumes "reads_field ((t, i, bs), u)"
  shows "t \<in> field_types" and "reads (i # c) (i # c) (read_header_field prot t i acc) bs (u acc)"
  using assms unfolding reads_field_def prod.case by blast+

fun last_id :: "i16 \<Rightarrow> (TType \<times> i16 \<times> byte list) list \<Rightarrow> i16" where
  "last_id l [] = l"
| "last_id l ((t, i, bs) # fs) = last_id i fs"

lemma reads_fields:
  assumes "\<forall>x\<in>set fs. reads_field x" and "length fs < f"
  shows "reads (l # c) (last_id l (map fst fs) # c) (read_header_fields f prot acc)
           (enc_fields l (map fst fs)) (foldl (\<lambda>a (_, u). u a) acc fs)"
  using assms
proof (induction fs arbitrary: f l acc)
  case Nil
  then obtain g where f: "f = Suc g" by (cases f) auto
  show ?case
    by (simp add: f, rule reads_then_nil [OF r_fieldStop]) (simp add: reads_xret)
next
  case (Cons x fs)
  obtain t i bs u where x: "x = ((t, i, bs), u)" by (metis surj_pair)
  from Cons.prems obtain g where f: "f = Suc g" "length fs < g" by (cases f) auto
  from Cons.prems(1) have "reads_field ((t, i, bs), u)" by (simp add: x)
  note t = reads_fieldD(1) [OF this] and r = reads_fieldD(2) [OF this, of c acc]
  have more: "reads (i # c) (last_id i (map fst fs) # c) (read_header_fields g prot (u acc))
      (enc_fields i (map fst fs)) (foldl (\<lambda>a (_, u). u a) (u acc) fs)"
    by (rule Cons.IH) (use Cons.prems(1) f(2) in simp_all)
  show ?case
    unfolding f x using stop_not_field [OF t]
    by (simp, intro reads_xbind [OF r_fieldBegin [OF t]])
       (auto intro: reads_xbind [OF r] reads_xseq_nil r_fieldEnd more)
qed

text \<open>Each field is read by its branch of the \<open>switch\<close>.\<close>

lemma read_field_branch:
  assumes "t \<in> field_types" and "\<And>c. reads c c m bs v"
    and "\<And>g a b. read_header_field prot t i (g, a, b) = xbind m (\<lambda>x. xret (upd x (g, a, b)))"
  shows "reads_field ((t, i, bs), upd v)"
proof (rule reads_fieldI [OF assms(1)])
  fix c acc
  show "reads (i # c) (i # c) (read_header_field prot t i acc) bs (upd v acc)"
    using reads_map [OF assms(2)] assms(3) by (cases acc) simp
qed

lemma header_field_reads:
  assumes ok: "header_ok h"
  shows "\<forall>x\<in>set (header_fields h). reads_field x"
proof -
  note ok = ok [unfolded header_ok_def]
  have "reads_field ((T_I32, 1, encI32 (magic h)), \<lambda>(g, a, b). (g\<lparr>magic := magic h\<rparr>, True, b))"
    by (rule read_field_branch [OF _ r_i32]) (simp_all add: read_header_field_def)
  moreover have "reads_field ((T_STRING, 2, encString (msg_name h)),
      \<lambda>(g, a, b). (g\<lparr>msg_name := msg_name h\<rparr>, a, True))"
    by (rule read_field_branch [OF _ r_string]) (use ok in \<open>simp_all add: read_header_field_def\<close>)
  moreover have "isset_nonce h \<Longrightarrow> reads_field ((T_STRING, 3, encString (nonce h)),
      \<lambda>(g, a, b). (g\<lparr>nonce := nonce h, isset_nonce := True\<rparr>, a, b))"
    by (rule read_field_branch [OF _ r_string]) (use ok in \<open>simp_all add: read_header_field_def\<close>)
  moreover have "isset_session_id h \<Longrightarrow> reads_field ((T_STRING, 4, encString (session_id h)),
      \<lambda>(g, a, b). (g\<lparr>session_id := session_id h, isset_session_id := True\<rparr>, a, b))"
    by (rule read_field_branch [OF _ r_string]) (use ok in \<open>simp_all add: read_header_field_def\<close>)
  moreover have "isset_path h \<Longrightarrow> reads_field ((T_LIST, 5, enc_path (path h)),
      \<lambda>(g, a, b). (g\<lparr>path := path h, isset_path := True\<rparr>, a, b))"
    by (rule read_field_branch [OF _ reads_path]) (use ok in \<open>simp_all add: read_header_field_def\<close>)
  moreover have "isset_exten_info h \<Longrightarrow> reads_field ((T_MAP, 255, enc_exten_info (exten_info h)),
      \<lambda>(g, a, b). (g\<lparr>exten_info := exten_info h, isset_exten_info := True\<rparr>, a, b))"
    by (rule read_field_branch [OF _ reads_exten_info])
       (use ok in \<open>simp_all add: read_header_field_def\<close>)
  ultimately show ?thesis
    unfolding header_fields_def by (simp only: list.set set_append ball_simps ball_Un split: if_split) simp
qed

lemma header_fold:
  "foldl (\<lambda>a (_, u). u a) (empty_header, False, False) (header_fields h) = (norm_header h, True, True)"
  by (simp add: header_fields_def norm_header_def empty_header_def)

text \<open>
  Reading what \<open>write\<close> wrote into a new header gives the same header, unset members blank, and
  consumes exactly its bytes.
\<close>

lemma header_reads:
  assumes ok: "header_ok h"
  shows "reads (l # c) (l # c) (base_header_read prot empty_header) (enc_header h) (norm_header h)"
proof -
  let ?fs = "header_fields h"
  let ?loop = "\<lambda>s. read_header_fields (unread prot s + 1) prot (empty_header, False, False) s"
  have loop: "reads (0 # l # c) (last_id 0 (map fst ?fs) # l # c) ?loop (enc_header h) (norm_header h, True, True)"
    unfolding reads_def
  proof (intro allI impI)
    fix s rest
    assume s: "st (0 # l # c) s" and cont: "cont s = enc_header h @ rest"
    have "length ?fs < length (enc_header h)"
      using length_enc_fields [of "map fst ?fs" 0] by (simp add: enc_header_def)
    then have "length ?fs < unread prot s + 1" using unread_cont [OF s] cont by simp
    from readsD [OF reads_fields [OF header_field_reads [OF ok] this, where acc = "(empty_header, False, False)"]
        s cont [unfolded enc_header_def]]
    show "\<exists>s'. ?loop s = (Inr (of_nat (length (enc_header h)), norm_header h, True, True), s') \<and>
        st (last_id 0 (map fst ?fs) # l # c) s' \<and> cont s' = rest"
      unfolding header_fold enc_header_def .
  qed
  show ?thesis
    unfolding base_header_read_def
    by (rule reads_xseq_nil [OF r_structBegin], rule reads_then_nil [OF loop])
       (simp add: reads_xseq_nil [OF r_structEnd reads_xret])
qed

end

end
