(* ===== verification/Thrift_Binary.thy ===== *)
theory Thrift_Binary
  imports Thrift_Codec
begin

text \<open>
  The binary protocol of \<open>src/src/dbc/network/protocol/thrift_binary.h\<close>: fixed-width integers in
  network order, strings and containers preceded by a 32-bit length. It is a \<open>thrift_reader\<close> and
  a \<open>thrift_codec\<close>.
\<close>

section \<open>The protocol object\<close>

record binary_protocol =
  bin_buf :: byte_buf
  bin_string_limit :: i32
  bin_container_limit :: i32

definition MAX_STRING_LIMIT :: i32 where
  "MAX_STRING_LIMIT = 10 * 1024 * 1024"

definition MAX_CONTAINER_LIMIT :: i32 where
  "MAX_CONTAINER_LIMIT = 10240"

definition binary_protocol_ctor :: "byte_buf \<Rightarrow> binary_protocol" where
  "binary_protocol_ctor buf =
     \<lparr>bin_buf = buf, bin_string_limit = MAX_STRING_LIMIT, bin_container_limit = MAX_CONTAINER_LIMIT\<rparr>"

text \<open>\<open>m_buf->write_to_byte_buf(p, n); return n;\<close> and its counterpart.\<close>

definition bin_put :: "byte list \<Rightarrow> (binary_protocol, unit) X" where
  "bin_put bs =
     mbind (mlift bin_buf bin_buf_update (write_to_byte_buf bs)) (\<lambda>_. mret (of_nat (length bs), ()))"

definition bin_get :: "nat \<Rightarrow> (binary_protocol, byte list) X" where
  "bin_get n = mbind (mlift bin_buf bin_buf_update (read_from_byte_buf n)) (\<lambda>bs. mret (of_nat n, bs))"

definition xlift :: "failure + 'a \<Rightarrow> ('s, 'a) X" where
  "xlift r = (case r of Inl f \<Rightarrow> mfail f | Inr x \<Rightarrow> xret x)"

section \<open>Writing\<close>

definition bin_writeByte :: "i8 \<Rightarrow> (binary_protocol, unit) X" where
  "bin_writeByte b = bin_put [b]"

definition bin_writeBool :: "bool \<Rightarrow> (binary_protocol, unit) X" where
  "bin_writeBool v = bin_put [if v then 1 else 0]"

definition bin_writeI16 :: "i16 \<Rightarrow> (binary_protocol, unit) X" where
  "bin_writeI16 x = bin_put (mem_bytes (hton16 x))"

definition bin_writeI32 :: "i32 \<Rightarrow> (binary_protocol, unit) X" where
  "bin_writeI32 x = bin_put (mem_bytes (hton32 x))"

definition bin_writeI64 :: "i64 \<Rightarrow> (binary_protocol, unit) X" where
  "bin_writeI64 x = xbind (xlift (htonll init_endian_type x)) (\<lambda>net. bin_put (mem_bytes net))"

definition bin_writeDouble :: "u64 \<Rightarrow> (binary_protocol, unit) X" where
  "bin_writeDouble x = xbind (xlift (htonll init_endian_type x)) (\<lambda>bits. bin_put (mem_bytes bits))"

definition bin_writeString :: "string \<Rightarrow> (binary_protocol, unit) X" where
  "bin_writeString str =
     (if length str > 2147483647 then xfail Length_error
      else let sz = (of_nat (length str) :: u32)
           in xseq (bin_writeI32 sz) (xwhen (sz > 0) (bin_put (bytes_of_string str))))"

definition bin_writeFieldBegin :: "TType \<Rightarrow> i16 \<Rightarrow> (binary_protocol, unit) X" where
  "bin_writeFieldBegin t i = xseq (bin_writeByte t) (bin_writeI16 i)"

definition bin_writeFieldStop :: "(binary_protocol, unit) X" where
  "bin_writeFieldStop = bin_writeByte T_STOP"

definition bin_writeMapBegin :: "TType \<Rightarrow> TType \<Rightarrow> u32 \<Rightarrow> (binary_protocol, unit) X" where
  "bin_writeMapBegin k v n = xseq (bin_writeByte k) (xseq (bin_writeByte v) (bin_writeI32 n))"

definition bin_writeListBegin :: "TType \<Rightarrow> u32 \<Rightarrow> (binary_protocol, unit) X" where
  "bin_writeListBegin t n = xseq (bin_writeByte t) (bin_writeI32 n)"

definition bin_writeSetBegin :: "TType \<Rightarrow> u32 \<Rightarrow> (binary_protocol, unit) X" where
  "bin_writeSetBegin t n = xseq (bin_writeByte t) (bin_writeI32 n)"

section \<open>Reading\<close>

definition bin_readByte :: "(binary_protocol, i8) X" where
  "bin_readByte = xbind (bin_get 1) (\<lambda>b. xret (b ! 0))"

definition bin_readBool :: "(binary_protocol, bool) X" where
  "bin_readBool = xbind (bin_get 1) (\<lambda>b. xret (b ! 0 \<noteq> 0))"

definition bin_readI16 :: "(binary_protocol, i16) X" where
  "bin_readI16 = xbind (bin_get 2) (\<lambda>b. xret (hton16 (le_word b)))"

definition bin_readI32 :: "(binary_protocol, i32) X" where
  "bin_readI32 = xbind (bin_get 4) (\<lambda>b. xret (hton32 (le_word b)))"

definition bin_readI64 :: "(binary_protocol, i64) X" where
  "bin_readI64 = xbind (bin_get 8) (\<lambda>b. xlift (htonll init_endian_type (le_word b)))"

definition bin_readDouble :: "(binary_protocol, u64) X" where
  "bin_readDouble = xbind (bin_get 8) (\<lambda>b. xlift (htonll init_endian_type (le_word b)))"

definition bin_readStringBody :: "i32 \<Rightarrow> (binary_protocol, string) X" where
  "bin_readStringBody sz p =
     (if sint sz < 0 then (Inl (Throw Length_error), p)
      else if sint (bin_string_limit p) > 0 \<and> sint sz > sint (bin_string_limit p)
      then (Inl (Throw Length_error), p)
      else if sz = 0 then (Inr (0, []), p)
      else xbind (bin_get (unat sz)) (\<lambda>b. xret (string_of_bytes b)) p)"

definition bin_readString :: "(binary_protocol, string) X" where
  "bin_readString = xbind bin_readI32 bin_readStringBody"

definition bin_readFieldBegin :: "(binary_protocol, TType \<times> i16) X" where
  "bin_readFieldBegin = xbind bin_readByte (\<lambda>type.
     if type = T_STOP then xret (type, 0) else xbind bin_readI16 (\<lambda>fieldId. xret (type, fieldId)))"

text \<open>The size check that the three container headers share.\<close>

definition bin_check_size :: "i32 \<Rightarrow> (binary_protocol, u32) X" where
  "bin_check_size sizei p =
     (if sint sizei < 0 then (Inl (Throw Length_error), p)
      else if bin_container_limit p \<noteq> 0 \<and> sint sizei > sint (bin_container_limit p)
      then (Inl (Throw Length_error), p)
      else (Inr (0, sizei), p))"

definition bin_readMapBegin :: "(binary_protocol, TType \<times> TType \<times> u32) X" where
  "bin_readMapBegin = xbind bin_readByte (\<lambda>k. xbind bin_readByte (\<lambda>v. xbind bin_readI32 (\<lambda>sizei.
     xbind (bin_check_size sizei) (\<lambda>size. xret (k, v, size)))))"

definition bin_readListBegin :: "(binary_protocol, TType \<times> u32) X" where
  "bin_readListBegin = xbind bin_readByte (\<lambda>e. xbind bin_readI32 (\<lambda>sizei.
     xbind (bin_check_size sizei) (\<lambda>size. xret (e, size))))"

definition bin_readSetBegin :: "(binary_protocol, TType \<times> u32) X" where
  "bin_readSetBegin = xbind bin_readByte (\<lambda>e. xbind bin_readI32 (\<lambda>sizei.
     xbind (bin_check_size sizei) (\<lambda>size. xret (e, size))))"

text \<open>\<open>append_raw\<close> returns what \<open>write_to_byte_buf\<close> returns.\<close>

definition binary_vt :: "binary_protocol protocol" where
  "binary_vt =
     \<lparr>get_buf = bin_buf,
      writeStructBegin = xret (), writeStructEnd = xret (),
      writeFieldBegin = bin_writeFieldBegin, writeFieldEnd = xret (),
      writeFieldStop = bin_writeFieldStop,
      writeMapBegin = bin_writeMapBegin, writeMapEnd = xret (),
      writeListBegin = bin_writeListBegin, writeListEnd = xret (),
      writeSetBegin = bin_writeSetBegin, writeSetEnd = xret (),
      writeBool = bin_writeBool, writeByte = bin_writeByte, writeI16 = bin_writeI16,
      writeI32 = bin_writeI32, writeI64 = bin_writeI64, writeDouble = bin_writeDouble,
      writeString = bin_writeString, writeBinary = bin_writeString,
      readStructBegin = xret (), readStructEnd = xret (),
      readFieldBegin = bin_readFieldBegin, readFieldEnd = xret (),
      readMapBegin = bin_readMapBegin, readMapEnd = xret (),
      readListBegin = bin_readListBegin, readListEnd = xret (),
      readSetBegin = bin_readSetBegin, readSetEnd = xret (),
      readBool = bin_readBool, readByte = bin_readByte, readI16 = bin_readI16,
      readI32 = bin_readI32, readI64 = bin_readI64, readDouble = bin_readDouble,
      readString = bin_readString, readBinary = bin_readString,
      append_raw = bin_put\<rparr>"

lemma binary_vt_sel [simp]:
  "get_buf binary_vt = bin_buf"
  "writeStructBegin binary_vt = xret ()"
  "writeStructEnd binary_vt = xret ()"
  "writeFieldBegin binary_vt = bin_writeFieldBegin"
  "writeFieldEnd binary_vt = xret ()"
  "writeFieldStop binary_vt = bin_writeFieldStop"
  "writeMapBegin binary_vt = bin_writeMapBegin"
  "writeMapEnd binary_vt = xret ()"
  "writeListBegin binary_vt = bin_writeListBegin"
  "writeListEnd binary_vt = xret ()"
  "writeSetBegin binary_vt = bin_writeSetBegin"
  "writeSetEnd binary_vt = xret ()"
  "writeBool binary_vt = bin_writeBool"
  "writeByte binary_vt = bin_writeByte"
  "writeI16 binary_vt = bin_writeI16"
  "writeI32 binary_vt = bin_writeI32"
  "writeI64 binary_vt = bin_writeI64"
  "writeDouble binary_vt = bin_writeDouble"
  "writeString binary_vt = bin_writeString"
  "writeBinary binary_vt = bin_writeString"
  "readStructBegin binary_vt = xret ()"
  "readStructEnd binary_vt = xret ()"
  "readFieldBegin binary_vt = bin_readFieldBegin"
  "readFieldEnd binary_vt = xret ()"
  "readMapBegin binary_vt = bin_readMapBegin"
  "readMapEnd binary_vt = xret ()"
  "readListBegin binary_vt = bin_readListBegin"
  "readListEnd binary_vt = xret ()"
  "readSetBegin binary_vt = bin_readSetBegin"
  "readSetEnd binary_vt = xret ()"
  "readBool binary_vt = bin_readBool"
  "readByte binary_vt = bin_readByte"
  "readI16 binary_vt = bin_readI16"
  "readI32 binary_vt = bin_readI32"
  "readI64 binary_vt = bin_readI64"
  "readDouble binary_vt = bin_readDouble"
  "readString binary_vt = bin_readString"
  "readBinary binary_vt = bin_readString"
  "append_raw binary_vt = bin_put"
  by (simp_all add: binary_vt_def)

section \<open>Reading is safe\<close>

definition bin_inv :: "nat \<Rightarrow> binary_protocol \<Rightarrow> bool" where
  "bin_inv d p \<longleftrightarrow> wf_buf (bin_buf p)"

lemma unread_binary: "wf_buf (bin_buf p) \<Longrightarrow> unread binary_vt p = length (content (bin_buf p))"
  by (simp add: unread_def binary_vt_def unat_valid_read_len)

lemma bin_get_ok:
  assumes "wf_buf (bin_buf p)" and "n \<le> length (content (bin_buf p))"
  shows "\<exists>b'. bin_get n p = (Inr (of_nat n, take n (content (bin_buf p))), p\<lparr>bin_buf := b'\<rparr>) \<and>
           wf_buf b' \<and> content b' = drop n (content (bin_buf p))"
  using bb.read_enough [OF assms] by (auto simp: bin_get_def mlift_def mrun)

lemma bin_get_short:
  assumes "wf_buf (bin_buf p)" and "length (content (bin_buf p)) < n"
  shows "bin_get n p = (Inl (Throw Length_error), p)"
  using bb.read_too_much [OF assms] by (simp add: bin_get_def mlift_def mrun)

lemma bin_get_safe: "safe binary_vt bin_inv B d e n (bin_get n)"
  unfolding safe_def
proof (intro allI impI)
  fix p
  assume p: "bin_inv d p" "unread binary_vt p \<le> B"
  then have wf: "wf_buf (bin_buf p)" by (simp add: bin_inv_def)
  show "case bin_get n p of (Inl f, s') \<Rightarrow> \<exists>x. f = Throw x
      | (Inr (m, v), s') \<Rightarrow> bin_inv e s' \<and> unread binary_vt s' + n \<le> unread binary_vt p \<and>
          m = of_nat (unread binary_vt p - unread binary_vt s')"
  proof (cases "n \<le> length (content (bin_buf p))")
    case True
    from bin_get_ok [OF wf this] True wf show ?thesis
      by (auto simp: bin_inv_def unread_binary simp del: of_nat_diff)
  next
    case False
    with bin_get_short [OF wf] show ?thesis by simp
  qed
qed

lemma xlift_Inr [simp]: "xlift (Inr x) = xret x"
  by (simp add: xlift_def)

lemma htonll_xret: "\<exists>y. xlift (htonll init_endian_type x) = xret y"
  using htonll_returns [of x] by auto

lemma bin_get_safe0: "safe binary_vt bin_inv B d d 0 (bin_get n)"
  by (rule safe_weaken0 [OF bin_get_safe])

lemma bin_readByte_safe: "safe binary_vt bin_inv B d d (Suc 0) bin_readByte"
  unfolding bin_readByte_def using safe_xbind1 [OF bin_get_safe [of B d d "Suc 0"] safe_xret] by simp

lemma bin_readI16_safe: "safe binary_vt bin_inv B d d 0 bin_readI16"
  unfolding bin_readI16_def by (intro safe_intros bin_get_safe0)

lemma bin_readI32_safe: "safe binary_vt bin_inv B d d 0 bin_readI32"
  unfolding bin_readI32_def by (intro safe_intros bin_get_safe0)

lemma bin_readI64_safe: "safe binary_vt bin_inv B d d 0 bin_readI64"
  unfolding bin_readI64_def
  by (rule safe_xbind0 [OF bin_get_safe0]) (metis htonll_xret safe_xret)

lemma bin_readString_safe: "safe binary_vt bin_inv B d d 0 bin_readString"
proof -
  have body: "safe binary_vt bin_inv B d d 0 (bin_readStringBody sz)" for sz B
  proof -
    let ?F = "\<lambda>p. if sint sz < 0 then xfail Length_error
        else if sint (bin_string_limit p) > 0 \<and> sint sz > sint (bin_string_limit p) then xfail Length_error
        else if sz = 0 then xret []
        else xbind (bin_get (unat sz)) (\<lambda>b. xret (string_of_bytes b))"
    have "bin_readStringBody sz = (\<lambda>p. ?F p p)"
      by (rule ext) (auto simp: bin_readStringBody_def mrun)
    moreover have "safe binary_vt bin_inv B d d 0 (\<lambda>p. ?F p p)"
      by (rule safe_at_state [where F = ?F]) (intro safe_intros bin_get_safe0)
    ultimately show ?thesis by simp
  qed
  show ?thesis unfolding bin_readString_def by (intro safe_intros bin_readI32_safe body)
qed

lemma bin_check_size_safe: "safe binary_vt bin_inv B d d 0 (bin_check_size n)"
  by (simp add: safe_def bin_check_size_def)

lemma bin_readFieldBegin_safe: "safe binary_vt bin_inv B d d (Suc 0) bin_readFieldBegin"
  unfolding bin_readFieldBegin_def
  by (rule safe_xbind1 [OF bin_readByte_safe]) (intro safe_intros bin_readI16_safe)

lemmas bin_container_safe = bin_readI32_safe bin_check_size_safe safe_weaken0 [OF bin_readByte_safe]

interpretation bin_reader: thrift_reader binary_vt bin_inv
proof
  show "safe binary_vt bin_inv B d (Suc d) 0 (readStructBegin binary_vt)" for B d
    by (simp add: safe_def mrun bin_inv_def unread_def)
  show "safe binary_vt bin_inv B (Suc d) d 0 (readStructEnd binary_vt)" for B d
    by (simp add: safe_def mrun bin_inv_def unread_def)
  show "safe binary_vt bin_inv B d d (Suc 0) (readMapBegin binary_vt)" for B d
    by (simp add: bin_readMapBegin_def, rule safe_xbind1 [OF bin_readByte_safe])
       (intro safe_intros bin_container_safe)
  show "safe binary_vt bin_inv B d d (Suc 0) (readListBegin binary_vt)" for B d
    by (simp add: bin_readListBegin_def, rule safe_xbind1 [OF bin_readByte_safe])
       (intro safe_intros bin_container_safe)
  show "safe binary_vt bin_inv B d d (Suc 0) (readSetBegin binary_vt)" for B d
    by (simp add: bin_readSetBegin_def, rule safe_xbind1 [OF bin_readByte_safe])
       (intro safe_intros bin_container_safe)
  show "safe binary_vt bin_inv B d d 0 (readBool binary_vt)" for B d
    by (simp add: bin_readBool_def) (intro safe_intros bin_get_safe0)
  show "safe binary_vt bin_inv B d d 0 (readDouble binary_vt)" for B d
    using bin_readI64_safe by (simp add: bin_readDouble_def bin_readI64_def)
qed (simp_all add: bin_readFieldBegin_safe bin_readI16_safe bin_readI32_safe bin_readI64_safe
    bin_readString_safe safe_weaken0 [OF bin_readByte_safe])

section \<open>What is written is read back\<close>

definition bin_st :: "i16 list \<Rightarrow> binary_protocol \<Rightarrow> bool" where
  "bin_st c p \<longleftrightarrow>
     wf_buf (bin_buf p) \<and> bin_string_limit p = MAX_STRING_LIMIT \<and>
     bin_container_limit p = MAX_CONTAINER_LIMIT"

definition bin_cont :: "binary_protocol \<Rightarrow> byte list" where
  "bin_cont p = content (bin_buf p)"

definition bin_room :: "binary_protocol \<Rightarrow> nat" where
  "bin_room p = buf_room (bin_buf p)"

interpretation bin_cs: codec_state bin_st bin_cont bin_room .

lemma bin_put_writes:
  assumes "bs \<noteq> []"
  shows "bin_cs.writes c c' (bin_put bs) bs"
  unfolding bin_cs.writes_def
proof (intro allI impI)
  fix p
  assume p: "bin_st c p" and r: "length bs \<le> bin_room p"
  from bb.write_room [of "bin_buf p" bs] assms p r obtain b' where
    "write_to_byte_buf bs (bin_buf p) = (Inr (of_nat (length bs)), b')" "wf_buf b'"
    "content b' = content (bin_buf p) @ bs" "buf_room b' = buf_room (bin_buf p) - length bs"
    by (auto simp: bin_st_def bin_room_def)
  with p show "\<exists>s'. bin_put bs p = (Inr (of_nat (length bs), ()), s') \<and> bin_st c' s' \<and>
      bin_cont s' = bin_cont p @ bs \<and> bin_room s' = bin_room p - length bs"
    by (simp add: bin_put_def mlift_def mrun bin_st_def bin_cont_def bin_room_def)
qed

lemma bin_get_reads: "length bs = n \<Longrightarrow> bin_cs.reads c c (bin_get n) bs bs"
  unfolding bin_cs.reads_def bin_st_def bin_cont_def bin_get_def
proof (intro allI impI)
  fix p rest
  assume len: "length bs = n"
    and p: "wf_buf (bin_buf p) \<and> bin_string_limit p = MAX_STRING_LIMIT \<and>
      bin_container_limit p = MAX_CONTAINER_LIMIT" and c: "content (bin_buf p) = bs @ rest"
  from bb.read_prefix [OF _ c] p len obtain b' where
    "read_from_byte_buf n (bin_buf p) = (Inr bs, b')" "wf_buf b'" "content b' = rest" by auto
  with p len show "\<exists>s'. mbind (mlift bin_buf bin_buf_update (read_from_byte_buf n))
      (\<lambda>bs. mret (of_nat n, bs)) p = (Inr (of_nat (length bs), bs), s') \<and>
      (wf_buf (bin_buf s') \<and> bin_string_limit s' = MAX_STRING_LIMIT \<and>
       bin_container_limit s' = MAX_CONTAINER_LIMIT) \<and> content (bin_buf s') = rest"
    by (simp add: mlift_def mrun)
qed

text \<open>The binary protocol has no field context.\<close>

lemma bin_writes_ctx: "bin_cs.writes c c' m bs \<Longrightarrow> bin_cs.writes d d' m bs"
  by (simp add: bin_cs.writes_def bin_st_def)

lemma bin_reads_ctx: "bin_cs.reads c c' m bs v \<Longrightarrow> bin_cs.reads d d' m bs v"
  by (simp add: bin_cs.reads_def bin_st_def)

definition bin_encString :: "string \<Rightarrow> byte list" where
  "bin_encString str = be_bytes (of_nat (length str) :: u32) @ bytes_of_string str"

lemma be_bytes_ne: "be_bytes (w :: 'a::len word) \<noteq> []" if "8 \<le> LENGTH('a)"
proof -
  have "0 < LENGTH('a) div 8" using that by (simp add: div_greater_zero_iff)
  then have "length (be_bytes w) \<noteq> 0" by simp
  then show ?thesis by (metis list.size(3))
qed

lemma bin_byte_w: "bin_cs.writes c c (bin_writeByte x) [x]"
  unfolding bin_writeByte_def by (rule bin_put_writes) simp

lemma bin_i16_w: "bin_cs.writes c c (bin_writeI16 x) (be_bytes x)"
  unfolding bin_writeI16_def bytes by (rule bin_put_writes) (simp add: be_bytes_ne)

lemma bin_i32_w: "bin_cs.writes c c (bin_writeI32 x) (be_bytes x)"
  unfolding bin_writeI32_def bytes by (rule bin_put_writes) (simp add: be_bytes_ne)

lemma bin_i64_w: "bin_cs.writes c c (bin_writeI64 x) (be_bytes x)"
proof -
  obtain y where y: "htonll little_endian x = Inr y" using htonll_returns by blast
  show ?thesis
    unfolding bin_writeI64_def init_endian_little y xlift_Inr xbind_xret mem_bytes_htonll [OF y]
    by (rule bin_put_writes) (simp add: be_bytes_ne)
qed

lemma bin_byte_r: "bin_cs.reads c c bin_readByte [x] x"
  unfolding bin_readByte_def using bin_cs.reads_map [OF bin_get_reads [of "[x]" 1], of c "\<lambda>b. b ! 0"] by simp

lemma bin_i16_r: "bin_cs.reads c c bin_readI16 (be_bytes x) x"
  using bin_cs.reads_map [OF bin_get_reads [of "be_bytes x" 2], of c "\<lambda>b. hton16 (le_word b)"]
  by (simp add: bin_readI16_def bytes)

lemma bin_i32_r: "bin_cs.reads c c bin_readI32 (be_bytes x) x"
  using bin_cs.reads_map [OF bin_get_reads [of "be_bytes x" 4], of c "\<lambda>b. hton32 (le_word b)"]
  by (simp add: bin_readI32_def bytes)

lemma bin_i64_r: "bin_cs.reads c c bin_readI64 (be_bytes x) x"
  unfolding bin_readI64_def
  by (rule bin_cs.reads_then_nil [OF bin_get_reads]) (simp_all add: bytes bin_cs.reads_xret)

lemma bin_string_w:
  assumes "length str \<le> 10485760"
  shows "bin_cs.writes c c (bin_writeString str) (bin_encString str)"
proof -
  have "bin_cs.writes c c (xwhen (0 < (of_nat (length str) :: u32)) (bin_put (bytes_of_string str)))
      (bytes_of_string str)"
  proof (cases "str = []")
    case True
    then show ?thesis by (simp add: xwhen_def bin_cs.writes_xret bytes_of_string_def)
  next
    case False
    then have "0 < unat (of_nat (length str) :: u32)" using assms by (simp add: unat_of_nat)
    then have "0 < (of_nat (length str) :: u32)" by (simp add: word_less_nat_alt)
    with False show ?thesis by (simp add: xwhen_def bin_put_writes)
  qed
  from bin_cs.writes_xseq [OF bin_i32_w this] assms show ?thesis
    by (simp add: bin_writeString_def bin_encString_def Let_def)
qed

lemma sint_small: "n \<le> 10485760 \<Longrightarrow> sint (of_nat n :: u32) = int n"
  by (simp add: sint_uint unsigned_of_nat take_bit_nat_eq_self signed_take_bit_int_eq_self)

lemma bin_string_r:
  assumes "length str \<le> 10485760"
  shows "bin_cs.reads c c bin_readString (bin_encString str) str"
  unfolding bin_readString_def bin_encString_def
proof (rule bin_cs.reads_xbind [OF bin_i32_r])
  let ?n = "of_nat (length str) :: u32"
  have n: "unat ?n = length str" "sint ?n = int (length str)"
    using assms by (simp_all add: unat_of_nat sint_small)
  have z: "?n = 0 \<longleftrightarrow> str = []" using n(1) by (metis length_0_conv unat_eq_0)
  have get: "bin_cs.reads c c (xbind (bin_get (length str)) (\<lambda>b. xret (string_of_bytes b)))
      (bytes_of_string str) str"
    using bin_cs.reads_map [OF bin_get_reads [of "bytes_of_string str" "length str"], of c string_of_bytes]
    by simp
  show "bin_cs.reads c c (bin_readStringBody ?n) (bytes_of_string str) str"
    unfolding bin_cs.reads_def
  proof (intro allI impI)
    fix p rest
    assume p: "bin_st c p" and cont: "bin_cont p = bytes_of_string str @ rest"
    have lim: "sint (bin_string_limit p) = 10485760" using p by (simp add: bin_st_def MAX_STRING_LIMIT_def)
    show "\<exists>s'. bin_readStringBody ?n p = (Inr (of_nat (length (bytes_of_string str)), str), s') \<and>
        bin_st c s' \<and> bin_cont s' = rest"
    proof (cases "str = []")
      case True
      with p cont show ?thesis by (simp add: bin_readStringBody_def bytes_of_string_def lim)
    next
      case False
      then have "bin_readStringBody ?n p = xbind (bin_get (length str)) (\<lambda>b. xret (string_of_bytes b)) p"
        using assms by (simp add: bin_readStringBody_def n z lim)
      with bin_cs.readsD [OF get p cont] show ?thesis by simp
    qed
  qed
qed

lemma bin_check_size_r: "n \<le> 10240 \<Longrightarrow> bin_cs.reads c c (bin_check_size n) [] n"
proof -
  assume n: "n \<le> 10240"
  then have "unat n \<le> 10240" by (simp add: word_le_nat_alt)
  then have "sint n = uint n" using sint_small [of "unat n"] by simp
  moreover have "uint n \<le> 10240" using n by (simp add: word_le_def)
  ultimately show ?thesis
    by (simp add: bin_cs.reads_def bin_check_size_def bin_st_def MAX_CONTAINER_LIMIT_def)
qed

lemmas bin_cons_w = bin_cs.writes_xseq [OF bin_byte_w, simplified]
lemmas bin_cons_r = bin_cs.reads_xbind [OF bin_byte_r, simplified]

lemma bin_sized_r:
  assumes "n \<le> 10240"
  shows "bin_cs.reads c c (xbind bin_readI32 (\<lambda>sizei. xbind (bin_check_size sizei) (\<lambda>sz. xret (f sz))))
    (be_bytes n) (f n)"
proof -
  have "bin_cs.reads c c (xbind (bin_check_size n) (\<lambda>sz. xret (f sz))) [] (f n)"
    by (rule bin_cs.reads_map [OF bin_check_size_r [OF assms]])
  with bin_cs.reads_then_nil [where k = "\<lambda>sizei. xbind (bin_check_size sizei) (\<lambda>sz. xret (f sz))",
      OF bin_i32_r]
  show ?thesis by blast
qed

interpretation bin: thrift_codec bin_st bin_cont bin_room binary_vt
  "\<lambda>l t i. t # be_bytes i" "[T_STOP]" "\<lambda>k v n. k # v # be_bytes n" "\<lambda>t n. t # be_bytes n"
  "\<lambda>x. [x]" be_bytes be_bytes be_bytes be_bytes bin_encString "\<lambda>_. True"
proof
  fix c l i j k v t n s
  show "bin_st c s \<Longrightarrow> unread binary_vt s = length (bin_cont s)"
    by (simp add: bin_st_def bin_cont_def unread_binary)
  show "bin_cs.writes (l # c) (i # c) (writeFieldBegin binary_vt t i) (t # be_bytes i)"
    by (rule bin_writes_ctx [of c c]) (simp add: bin_writeFieldBegin_def bin_cons_w bin_i16_w)
  show "bin_cs.writes c c (writeFieldStop binary_vt) [T_STOP]"
    by (simp add: bin_writeFieldStop_def bin_byte_w)
  show "bin_cs.writes c c (writeMapBegin binary_vt k v n) (k # v # be_bytes n)"
    by (simp add: bin_writeMapBegin_def bin_cons_w bin_i32_w)
  show "bin_cs.writes c c (writeListBegin binary_vt t n) (t # be_bytes n)"
    by (simp add: bin_writeListBegin_def bin_cons_w bin_i32_w)
  show "bin_cs.writes c c (writeSetBegin binary_vt t n) (t # be_bytes n)"
    by (simp add: bin_writeSetBegin_def bin_cons_w bin_i32_w)
  show "bin_cs.writes c c (writeDouble binary_vt x) (be_bytes x)" for x
    using bin_i64_w by (simp add: bin_writeDouble_def bin_writeI64_def)
  show "bin_cs.reads c c (readDouble binary_vt) (be_bytes x) x" for x
    using bin_i64_r by (simp add: bin_readDouble_def bin_readI64_def)
  show "bin_cs.reads c c (readFieldBegin binary_vt) [T_STOP] (T_STOP, 0)"
    unfolding binary_vt_sel bin_readFieldBegin_def
    by (rule bin_cs.reads_then_nil [OF bin_byte_r]) (simp add: bin_cs.reads_xret)
  show "t \<in> field_types \<Longrightarrow> bin_cs.reads (l # c) (i # c) (readFieldBegin binary_vt) (t # be_bytes i) (t, i)"
    by (rule bin_reads_ctx [of c c])
       (auto simp: bin_readFieldBegin_def field_types_def TType_defs intro!: bin_cons_r bin_cs.reads_map bin_i16_r)
  show "n \<le> 10240 \<Longrightarrow> bin_cs.reads c c (readMapBegin binary_vt) (k # v # be_bytes n) (k, v, n)"
    by (auto simp: bin_readMapBegin_def intro!: bin_cons_r bin_sized_r)
  show "n \<le> 10240 \<Longrightarrow> bin_cs.reads c c (readListBegin binary_vt) (t # be_bytes n) (t, n)"
    by (auto simp: bin_readListBegin_def intro!: bin_cons_r bin_sized_r)
  show "n \<le> 10240 \<Longrightarrow> bin_cs.reads c c (readSetBegin binary_vt) (t # be_bytes n) (t, n)"
    by (auto simp: bin_readSetBegin_def intro!: bin_cons_r bin_sized_r)
qed (simp_all add: bin_byte_w bin_i16_w bin_i32_w bin_i64_w bin_string_w bin_byte_r bin_i16_r bin_i32_r
    bin_i64_r bin_string_r bin_cs.writes_xret bin_cs.reads_xret
    bin_writes_ctx [OF bin_cs.writes_xret] bin_reads_ctx [OF bin_cs.reads_xret])

section \<open>Properties\<close>

text \<open>Whatever bytes a binary protocol object is given, reading a header from them ends, by
  returning or by throwing a C++ exception; it never aborts, hangs or reads outside the buffer,
  and on return its count is the number of bytes consumed, at least one.\<close>

theorem binary_header_read_safe:
  assumes "wf_buf (bin_buf p)"
  shows "case base_header_read binary_vt h p of
           (Inl f, p') \<Rightarrow> (\<exists>x. f = Throw x)
         | (Inr (n, v), p') \<Rightarrow> wf_buf (bin_buf p') \<and> unread binary_vt p' < unread binary_vt p \<and>
             n = of_nat (unread binary_vt p - unread binary_vt p')"
  using bin_reader.header_read_safe [of "unread binary_vt p" 0 h] assms
  by (force simp: safe_def bin_inv_def split: prod.splits sum.splits)

theorem binary_header_read_safe_witness:
  "case base_header_read binary_vt empty_header (binary_protocol_ctor (new_buf 8 True)) of
     (Inl f, p') \<Rightarrow> (\<exists>x. f = Throw x)
   | (Inr (n, v), p') \<Rightarrow> wf_buf (bin_buf p') \<and>
       unread binary_vt p' < unread binary_vt (binary_protocol_ctor (new_buf 8 True)) \<and>
       n = of_nat (unread binary_vt (binary_protocol_ctor (new_buf 8 True)) - unread binary_vt p')"
  by (rule binary_header_read_safe) (simp add: binary_protocol_ctor_def new_buf_wf MAX_BYTE_BUF_LEN_def)

text \<open>A header within the limits that fits in the room of the buffer is written by the binary
  protocol, and any reader whose buffer starts with the bytes it wrote reads an equal header
  (\<open>operator ==\<close>) and leaves exactly the bytes behind it.\<close>

theorem binary_header_roundtrip:
  assumes "bin.header_ok h" and "wf_buf b" and "length (bin.enc_header h) \<le> buf_room b"
  shows "\<exists>p'. base_header_write binary_vt h (binary_protocol_ctor b) =
             (Inr (of_nat (length (bin.enc_header h)), ()), p') \<and>
           content (bin_buf p') = content b @ bin.enc_header h \<and>
           (\<forall>r rest. wf_buf r \<and> content r = bin.enc_header h @ rest \<longrightarrow>
              (\<exists>h' q. base_header_read binary_vt empty_header (binary_protocol_ctor r) =
                 (Inr (of_nat (length (bin.enc_header h)), h'), q) \<and>
                 header_eq h h' \<and> content (bin_buf q) = rest))"
proof -
  let ?p = "binary_protocol_ctor b"
  have st: "bin_st [0] (binary_protocol_ctor r)" if "wf_buf r" for r
    using that by (simp add: bin_st_def binary_protocol_ctor_def)
  have "length (bin.enc_header h) \<le> bin_room ?p"
    using assms(3) by (simp add: bin_room_def binary_protocol_ctor_def)
  from bin_cs.writesD [OF bin.header_writes [OF assms(1)] st [OF assms(2)] this] obtain p' where
    "base_header_write binary_vt h ?p = (Inr (of_nat (length (bin.enc_header h)), ()), p')"
    "bin_cont p' = bin_cont ?p @ bin.enc_header h" by blast
  moreover have "\<exists>h' q. base_header_read binary_vt empty_header (binary_protocol_ctor r) =
        (Inr (of_nat (length (bin.enc_header h)), h'), q) \<and> header_eq h h' \<and> content (bin_buf q) = rest"
    if "wf_buf r" "content r = bin.enc_header h @ rest" for r rest
  proof -
    have "bin_cont (binary_protocol_ctor r) = bin.enc_header h @ rest"
      using that(2) by (simp add: bin_cont_def binary_protocol_ctor_def)
    from bin_cs.readsD [OF bin.header_reads [OF assms(1)] st [OF that(1)] this] header_eq_norm [of h]
    show ?thesis by (auto simp: bin_cont_def)
  qed
  ultimately show ?thesis by (auto simp: bin_cont_def binary_protocol_ctor_def)
qed

definition sample_header :: base_header where
  "sample_header =
     empty_header\<lparr>magic := 0x1234, msg_name := ''ver_req'', nonce := ''n1'', isset_nonce := True,
                  path := [''a'', ''b''], isset_path := True,
                  exten_info := [(''k'', ''v'')], isset_exten_info := True\<rparr>"

lemma sample_header_ok: "bin.header_ok sample_header"
  by (simp add: bin.header_ok_def sample_header_def empty_header_def smap_wf_def)

lemma sample_header_length: "length (bin.enc_header sample_header) < 200"
  by (simp add: bin.enc_header_def bin.header_fields_def sample_header_def empty_header_def
      bin.enc_path_def bin.enc_exten_info_def bin_encString_def)

theorem binary_header_roundtrip_witness:
  "\<exists>p'. base_header_write binary_vt sample_header (binary_protocol_ctor (new_buf DEFAULT_BUF_LEN True)) =
       (Inr (of_nat (length (bin.enc_header sample_header)), ()), p') \<and>
     content (bin_buf p') = bin.enc_header sample_header \<and>
     (\<forall>r rest. wf_buf r \<and> content r = bin.enc_header sample_header @ rest \<longrightarrow>
        (\<exists>h' q. base_header_read binary_vt empty_header (binary_protocol_ctor r) =
           (Inr (of_nat (length (bin.enc_header sample_header)), h'), q) \<and>
           header_eq sample_header h' \<and> content (bin_buf q) = rest))"
  using binary_header_roundtrip [OF sample_header_ok new_buf_default_wf [of True]] sample_header_length
  by (simp add: buf_room_def)

end
