(* ===== verification/Thrift_Compact.thy ===== *)
theory Thrift_Compact
  imports Thrift_Binary
begin

text \<open>
  The compact protocol of \<open>src/src/dbc/network/protocol/thrift_compact.{h,cpp}\<close>: zigzag varints,
  field ids as deltas to the previous field of the same struct (with a stack of the enclosing
  structs), boolean fields whose value is part of the field header. It is a \<open>thrift_reader\<close> and,
  except for empty maps, a \<open>thrift_codec\<close>.
\<close>

section \<open>The protocol object\<close>

text \<open>
  \<open>booleanField\<close> is \<open>None\<close> when its \<open>name\<close> is null; \<open>boolValue\<close> is \<open>None\<close> when \<open>hasBoolValue\<close> is
  false. The scratch buffer \<open>string_buf_\<close> is not part of the state: what it holds is overwritten
  before each use.
\<close>

record compact_protocol =
  cmp_buf :: byte_buf
  booleanField :: "(TType \<times> i16) option"
  boolValue :: "bool option"
  lastField :: "i16 list"
  lastFieldId :: i16
  cmp_string_limit :: i32
  cmp_container_limit :: i32

definition compact_protocol_ctor :: "byte_buf \<Rightarrow> compact_protocol" where
  "compact_protocol_ctor buf =
     \<lparr>cmp_buf = buf, booleanField = None, boolValue = None, lastField = [], lastFieldId = 0,
      cmp_string_limit = MAX_STRING_LIMIT, cmp_container_limit = MAX_CONTAINER_LIMIT\<rparr>"

definition cmp_put :: "byte list \<Rightarrow> (compact_protocol, unit) X" where
  "cmp_put bs =
     mbind (mlift cmp_buf cmp_buf_update (write_to_byte_buf bs)) (\<lambda>_. mret (of_nat (length bs), ()))"

definition cmp_get :: "nat \<Rightarrow> (compact_protocol, byte list) X" where
  "cmp_get n = mbind (mlift cmp_buf cmp_buf_update (read_from_byte_buf n)) (\<lambda>bs. mret (of_nat n, bs))"

definition xmod :: "('s \<Rightarrow> 's) \<Rightarrow> ('s, unit) X" where
  "xmod f s = (Inr (0, ()), f s)"

section \<open>Compact types\<close>

definition CT_BOOLEAN_TRUE :: i8 where "CT_BOOLEAN_TRUE = 1"
definition CT_BOOLEAN_FALSE :: i8 where "CT_BOOLEAN_FALSE = 2"
definition CT_BYTE :: i8 where "CT_BYTE = 3"
definition CT_I16 :: i8 where "CT_I16 = 4"
definition CT_I32 :: i8 where "CT_I32 = 5"
definition CT_I64 :: i8 where "CT_I64 = 6"
definition CT_DOUBLE :: i8 where "CT_DOUBLE = 7"
definition CT_BINARY :: i8 where "CT_BINARY = 8"
definition CT_LIST :: i8 where "CT_LIST = 9"
definition CT_SET :: i8 where "CT_SET = 10"
definition CT_MAP :: i8 where "CT_MAP = 11"
definition CT_STRUCT :: i8 where "CT_STRUCT = 12"
definition CT_STOP :: i8 where "CT_STOP = 0x7F"

lemmas CT_defs = CT_BOOLEAN_TRUE_def CT_BOOLEAN_FALSE_def CT_BYTE_def CT_I16_def CT_I32_def
  CT_I64_def CT_DOUBLE_def CT_BINARY_def CT_LIST_def CT_SET_def CT_MAP_def CT_STRUCT_def CT_STOP_def

definition TTypeToCType :: "i8 list" where
  "TTypeToCType =
     [0, 0, CT_BOOLEAN_TRUE, CT_BYTE, CT_DOUBLE, 0, CT_I16, 0, CT_I32, 0, CT_I64, CT_BINARY,
      CT_STRUCT, CT_MAP, CT_SET, CT_LIST] @ replicate 111 0 @ [CT_STOP]"

text \<open>The table has 128 entries; an index beyond it is undefined behaviour.\<close>

definition getCompactType :: "TType \<Rightarrow> ('s, i8) X" where
  "getCompactType ttype =
     (if unat ttype < length TTypeToCType then xret (TTypeToCType ! unat ttype)
      else mfail Undefined_behaviour)"

definition getTType :: "i8 \<Rightarrow> ('s, TType) X" where
  "getTType type =
     (if type = T_STOP then xret T_STOP
      else if type = CT_BOOLEAN_FALSE \<or> type = CT_BOOLEAN_TRUE then xret T_BOOL
      else if type = CT_BYTE then xret T_BYTE
      else if type = CT_I16 then xret T_I16
      else if type = CT_I32 then xret T_I32
      else if type = CT_I64 then xret T_I64
      else if type = CT_DOUBLE then xret T_DOUBLE
      else if type = CT_BINARY then xret T_STRING
      else if type = CT_LIST then xret T_LIST
      else if type = CT_SET then xret T_SET
      else if type = CT_MAP then xret T_MAP
      else if type = CT_STRUCT then xret T_STRUCT
      else xfail (TProtocolException UNKNOWN))"

section \<open>Integers\<close>

definition i64ToZigzag :: "i64 \<Rightarrow> u64" where
  "i64ToZigzag l = push_bit 1 l XOR signed_drop_bit 63 l"

definition i32ToZigzag :: "i32 \<Rightarrow> u32" where
  "i32ToZigzag n = push_bit 1 n XOR signed_drop_bit 31 n"

definition zigzagToI32 :: "u32 \<Rightarrow> i32" where
  "zigzagToI32 n = drop_bit 1 n XOR - (n AND 1)"

definition zigzagToI64 :: "u64 \<Rightarrow> i64" where
  "zigzagToI64 n = drop_bit 1 n XOR - (n AND 1)"

text \<open>
  The loop of \<open>writeVarint32\<close> and \<open>writeVarint64\<close>: the bytes it puts into the local array. The
  array has 5 or 10 bytes; writing past it would be undefined behaviour.
\<close>

function varint :: "'a::len word \<Rightarrow> byte list" where
  "varint n =
     (if n AND NOT 0x7F = 0 then [ucast n]
      else ucast ((n AND 0x7F) OR 0x80) # varint (drop_bit 7 n))"
  by auto

lemma unat_drop_7: "unat (drop_bit 7 (n :: 'a::len word)) = unat n div 128"
proof -
  have "drop_bit 7 (unat n) = unat n div 128" by (simp add: drop_bit_eq_div)
  then show ?thesis by (metis unat_drop_bit_eq)
qed

lemma drop_bit_7_less: "(n :: 'a::len word) \<noteq> 0 \<Longrightarrow> unat (drop_bit 7 n) < unat n"
proof -
  assume "n \<noteq> 0"
  then have "unat n div 128 < unat n" by (simp add: unat_gt_0)
  then show ?thesis by (simp only: unat_drop_7)
qed

termination varint
proof (relation "measure unat")
  fix n :: "'a word"
  assume "n AND NOT 0x7F \<noteq> 0"
  then have "n \<noteq> 0" by auto
  then show "(drop_bit 7 n, n) \<in> measure unat" by (simp add: drop_bit_7_less)
qed simp

declare varint.simps [simp del]

definition cmp_writeVarint32 :: "u32 \<Rightarrow> (compact_protocol, unit) X" where
  "cmp_writeVarint32 n =
     (if length (varint n) \<le> 5 then cmp_put (varint n) else mfail Undefined_behaviour)"

definition cmp_writeVarint64 :: "u64 \<Rightarrow> (compact_protocol, unit) X" where
  "cmp_writeVarint64 n =
     (if length (varint n) \<le> 10 then cmp_put (varint n) else mfail Undefined_behaviour)"

text \<open>\<open>left\<close> counts down from the 10 bytes after which the reader gives up.\<close>

fun readVarint_loop :: "nat \<Rightarrow> u64 \<Rightarrow> nat \<Rightarrow> (compact_protocol, u64) X" where
  "readVarint_loop 0 val shift = xfail (TProtocolException INVALID_DATA)"
| "readVarint_loop (Suc left) val shift =
     xbind (cmp_get 1) (\<lambda>b.
       let byte = b ! 0; val' = val OR push_bit shift (ucast (byte AND 0x7F))
       in if byte AND 0x80 = 0 then xret val'
          else readVarint_loop left val' (shift + 7))"

definition cmp_readVarint64 :: "(compact_protocol, i64) X" where
  "cmp_readVarint64 = readVarint_loop 10 0 0"

definition cmp_readVarint32 :: "(compact_protocol, i32) X" where
  "cmp_readVarint32 = xbind cmp_readVarint64 (\<lambda>val. xret (ucast val))"

section \<open>Writing\<close>

definition cmp_writeByte :: "i8 \<Rightarrow> (compact_protocol, unit) X" where
  "cmp_writeByte b = cmp_put [b]"

definition cmp_writeI16 :: "i16 \<Rightarrow> (compact_protocol, unit) X" where
  "cmp_writeI16 x = cmp_writeVarint32 (i32ToZigzag (scast x))"

definition cmp_writeI32 :: "i32 \<Rightarrow> (compact_protocol, unit) X" where
  "cmp_writeI32 x = cmp_writeVarint32 (i32ToZigzag x)"

definition cmp_writeI64 :: "i64 \<Rightarrow> (compact_protocol, unit) X" where
  "cmp_writeI64 x = cmp_writeVarint64 (i64ToZigzag x)"

definition cmp_writeDouble :: "u64 \<Rightarrow> (compact_protocol, unit) X" where
  "cmp_writeDouble x = xbind (xlift (htonll init_endian_type x)) (\<lambda>bits. cmp_put (mem_bytes bits))"

text \<open>
  \<open>typeOverride\<close> is -1 when there is none; the delta is an \<open>int\<close> and is truncated to the byte.
\<close>

definition cmp_writeFieldBeginInternal :: "TType \<Rightarrow> i16 \<Rightarrow> i8 \<Rightarrow> (compact_protocol, unit) X" where
  "cmp_writeFieldBeginInternal fieldType fieldId typeOverride p =
     xbind (if typeOverride = -1 then getCompactType fieldType else xret typeOverride)
       (\<lambda>typeToWrite.
          xseq (if sint fieldId > sint (lastFieldId p) \<and> sint fieldId - sint (lastFieldId p) \<le> 15
                then cmp_writeByte (push_bit 4 (ucast (fieldId - lastFieldId p)) OR typeToWrite)
                else xseq (cmp_writeByte typeToWrite) (cmp_writeI16 fieldId))
            (xmod (\<lambda>p. p\<lparr>lastFieldId := fieldId\<rparr>))) p"

definition cmp_writeFieldBegin :: "TType \<Rightarrow> i16 \<Rightarrow> (compact_protocol, unit) X" where
  "cmp_writeFieldBegin fieldType fieldId =
     (if fieldType = T_BOOL then xmod (\<lambda>p. p\<lparr>booleanField := Some (fieldType, fieldId)\<rparr>)
      else cmp_writeFieldBeginInternal fieldType fieldId (-1))"

definition cmp_writeFieldStop :: "(compact_protocol, unit) X" where
  "cmp_writeFieldStop = cmp_writeByte T_STOP"

definition cmp_writeStructBegin :: "(compact_protocol, unit) X" where
  "cmp_writeStructBegin =
     xmod (\<lambda>p. p\<lparr>lastField := lastFieldId p # lastField p, lastFieldId := 0\<rparr>)"

text \<open>\<open>top\<close> and \<open>pop\<close> of an empty \<open>std::stack\<close> are undefined behaviour.\<close>

definition cmp_structEnd :: "(compact_protocol, unit) X" where
  "cmp_structEnd p =
     (case lastField p of
        [] \<Rightarrow> (Inl Undefined_behaviour, p)
      | l # ls \<Rightarrow> (Inr (0, ()), p\<lparr>lastFieldId := l, lastField := ls\<rparr>))"

definition cmp_writeCollectionBegin :: "TType \<Rightarrow> i32 \<Rightarrow> (compact_protocol, unit) X" where
  "cmp_writeCollectionBegin elemType n =
     xbind (getCompactType elemType) (\<lambda>ct.
       if sint n \<le> 14 then cmp_writeByte (push_bit 4 (ucast n) OR ct)
       else xseq (cmp_writeByte (0xF0 OR ct)) (cmp_writeVarint32 n))"

definition cmp_writeListBegin :: "TType \<Rightarrow> u32 \<Rightarrow> (compact_protocol, unit) X" where
  "cmp_writeListBegin = cmp_writeCollectionBegin"

definition cmp_writeSetBegin :: "TType \<Rightarrow> u32 \<Rightarrow> (compact_protocol, unit) X" where
  "cmp_writeSetBegin = cmp_writeCollectionBegin"

definition cmp_writeMapBegin :: "TType \<Rightarrow> TType \<Rightarrow> u32 \<Rightarrow> (compact_protocol, unit) X" where
  "cmp_writeMapBegin keyType valType n =
     (if n = 0 then cmp_writeByte 0
      else xseq (cmp_writeVarint32 n)
             (xbind (getCompactType keyType) (\<lambda>k. xbind (getCompactType valType) (\<lambda>v.
                cmp_writeByte (push_bit 4 k OR v)))))"

definition bool_ctype :: "bool \<Rightarrow> i8" where
  "bool_ctype v = (if v then CT_BOOLEAN_TRUE else CT_BOOLEAN_FALSE)"

definition cmp_writeBool :: "bool \<Rightarrow> (compact_protocol, unit) X" where
  "cmp_writeBool v p =
     (case booleanField p of
        Some (t, i) \<Rightarrow> xseq (cmp_writeFieldBeginInternal t i (bool_ctype v))
                            (xmod (\<lambda>p. p\<lparr>booleanField := None\<rparr>)) p
      | None \<Rightarrow> cmp_writeByte (bool_ctype v) p)"

text \<open>
  \<open>writeBinary\<close>; the second check, that the length and the size of its varint do not overflow 32
  bits together, comes after the varint was written.
\<close>

definition cmp_writeBinary :: "string \<Rightarrow> (compact_protocol, unit) X" where
  "cmp_writeBinary str =
     (if length str > 4294967295 then xfail (TProtocolException SIZE_LIMIT)
      else let ssize = (of_nat (length str) :: u32)
           in mbind (cmp_writeVarint32 ssize) (\<lambda>(wsize, _).
                if ssize > -1 - wsize then mthrow (TProtocolException SIZE_LIMIT)
                else mbind (if ssize > 0 then cmp_put (bytes_of_string str) else xret ())
                       (\<lambda>_. mret (wsize + ssize, ()))))"

section \<open>Reading\<close>

definition cmp_readByte :: "(compact_protocol, i8) X" where
  "cmp_readByte = xbind (cmp_get 1) (\<lambda>b. xret (b ! 0))"

definition cmp_readI16 :: "(compact_protocol, i16) X" where
  "cmp_readI16 = xbind cmp_readVarint32 (\<lambda>v. xret (ucast (zigzagToI32 v)))"

definition cmp_readI32 :: "(compact_protocol, i32) X" where
  "cmp_readI32 = xbind cmp_readVarint32 (\<lambda>v. xret (zigzagToI32 v))"

definition cmp_readI64 :: "(compact_protocol, i64) X" where
  "cmp_readI64 = xbind cmp_readVarint64 (\<lambda>v. xret (zigzagToI64 v))"

definition cmp_readDouble :: "(compact_protocol, u64) X" where
  "cmp_readDouble = xbind (cmp_get 8) (\<lambda>b. xlift (htonll init_endian_type (le_word b)))"

definition cmp_readStructBegin :: "(compact_protocol, unit) X" where
  "cmp_readStructBegin =
     xmod (\<lambda>p. p\<lparr>lastField := lastFieldId p # lastField p, lastFieldId := 0\<rparr>)"

definition cmp_readFieldBegin :: "(compact_protocol, TType \<times> i16) X" where
  "cmp_readFieldBegin =
     xbind cmp_readByte (\<lambda>byte.
       let type = byte AND 0x0F
       in if byte = T_STOP then xret (T_STOP, 0)
          else let modifier = drop_bit 4 (byte AND 0xF0)
               in xbind (if modifier = 0 then cmp_readI16
                         else (\<lambda>p. xret (lastFieldId p + ucast modifier) p)) (\<lambda>fieldId.
                  xbind (getTType type) (\<lambda>fieldType.
                  xseq (xmod (\<lambda>p. if type = CT_BOOLEAN_TRUE \<or> type = CT_BOOLEAN_FALSE
                                  then p\<lparr>boolValue := Some (type = CT_BOOLEAN_TRUE)\<rparr> else p))
                  (xseq (xmod (\<lambda>p. p\<lparr>lastFieldId := fieldId\<rparr>))
                    (xret (fieldType, fieldId))))))"

definition cmp_check_size :: "i32 \<Rightarrow> (compact_protocol, unit) X" where
  "cmp_check_size n p =
     (if sint n < 0 then (Inl (Throw (TProtocolException NEGATIVE_SIZE)), p)
      else if cmp_container_limit p \<noteq> 0 \<and> sint n > sint (cmp_container_limit p)
      then (Inl (Throw (TProtocolException SIZE_LIMIT)), p)
      else (Inr (0, ()), p))"

definition cmp_readMapBegin :: "(compact_protocol, TType \<times> TType \<times> u32) X" where
  "cmp_readMapBegin =
     xbind cmp_readVarint32 (\<lambda>msize.
     xbind (if msize \<noteq> 0 then cmp_readByte else xret 0) (\<lambda>kvType.
     xseq (cmp_check_size msize)
       (xbind (getTType (drop_bit 4 kvType)) (\<lambda>keyType.
        xbind (getTType (kvType AND 0x0F)) (\<lambda>valType.
        xret (keyType, valType, msize))))))"

definition cmp_readListBegin :: "(compact_protocol, TType \<times> u32) X" where
  "cmp_readListBegin =
     xbind cmp_readByte (\<lambda>size_and_type.
       let lsize = ucast (drop_bit 4 size_and_type) :: i32
       in xbind (if lsize = 15 then cmp_readVarint32 else xret lsize) (\<lambda>lsize.
          xseq (cmp_check_size lsize)
            (xbind (getTType (size_and_type AND 0x0F)) (\<lambda>elemType.
             xret (elemType, lsize)))))"

definition cmp_readSetBegin :: "(compact_protocol, TType \<times> u32) X" where
  "cmp_readSetBegin = cmp_readListBegin"

definition cmp_readBool :: "(compact_protocol, bool) X" where
  "cmp_readBool p =
     (case boolValue p of
        Some v \<Rightarrow> (Inr (0, v), p\<lparr>boolValue := None\<rparr>)
      | None \<Rightarrow> xbind cmp_readByte (\<lambda>val. xret (val = CT_BOOLEAN_TRUE)) p)"

definition cmp_readBinary :: "(compact_protocol, string) X" where
  "cmp_readBinary =
     xbind cmp_readVarint32 (\<lambda>n p.
       if n = 0 then xret [] p
       else if sint n < 0 then xfail (TProtocolException NEGATIVE_SIZE) p
       else if sint (cmp_string_limit p) > 0 \<and> sint n > sint (cmp_string_limit p)
       then xfail (TProtocolException SIZE_LIMIT) p
       else xbind (cmp_get (unat n)) (\<lambda>b. xret (string_of_bytes b)) p)"

definition compact_vt :: "compact_protocol protocol" where
  "compact_vt =
     \<lparr>get_buf = cmp_buf,
      writeStructBegin = cmp_writeStructBegin, writeStructEnd = cmp_structEnd,
      writeFieldBegin = cmp_writeFieldBegin, writeFieldEnd = xret (),
      writeFieldStop = cmp_writeFieldStop,
      writeMapBegin = cmp_writeMapBegin, writeMapEnd = xret (),
      writeListBegin = cmp_writeListBegin, writeListEnd = xret (),
      writeSetBegin = cmp_writeSetBegin, writeSetEnd = xret (),
      writeBool = cmp_writeBool, writeByte = cmp_writeByte, writeI16 = cmp_writeI16,
      writeI32 = cmp_writeI32, writeI64 = cmp_writeI64, writeDouble = cmp_writeDouble,
      writeString = cmp_writeBinary, writeBinary = cmp_writeBinary,
      readStructBegin = cmp_readStructBegin, readStructEnd = cmp_structEnd,
      readFieldBegin = cmp_readFieldBegin, readFieldEnd = xret (),
      readMapBegin = cmp_readMapBegin, readMapEnd = xret (),
      readListBegin = cmp_readListBegin, readListEnd = xret (),
      readSetBegin = cmp_readSetBegin, readSetEnd = xret (),
      readBool = cmp_readBool, readByte = cmp_readByte, readI16 = cmp_readI16,
      readI32 = cmp_readI32, readI64 = cmp_readI64, readDouble = cmp_readDouble,
      readString = cmp_readBinary, readBinary = cmp_readBinary,
      append_raw = cmp_put\<rparr>"

lemma compact_vt_sel [simp]:
  "get_buf compact_vt = cmp_buf"
  "writeStructBegin compact_vt = cmp_writeStructBegin"
  "writeStructEnd compact_vt = cmp_structEnd"
  "writeFieldBegin compact_vt = cmp_writeFieldBegin"
  "writeFieldEnd compact_vt = xret ()"
  "writeFieldStop compact_vt = cmp_writeFieldStop"
  "writeMapBegin compact_vt = cmp_writeMapBegin"
  "writeMapEnd compact_vt = xret ()"
  "writeListBegin compact_vt = cmp_writeListBegin"
  "writeListEnd compact_vt = xret ()"
  "writeSetBegin compact_vt = cmp_writeSetBegin"
  "writeSetEnd compact_vt = xret ()"
  "writeBool compact_vt = cmp_writeBool"
  "writeByte compact_vt = cmp_writeByte"
  "writeI16 compact_vt = cmp_writeI16"
  "writeI32 compact_vt = cmp_writeI32"
  "writeI64 compact_vt = cmp_writeI64"
  "writeDouble compact_vt = cmp_writeDouble"
  "writeString compact_vt = cmp_writeBinary"
  "writeBinary compact_vt = cmp_writeBinary"
  "readStructBegin compact_vt = cmp_readStructBegin"
  "readStructEnd compact_vt = cmp_structEnd"
  "readFieldBegin compact_vt = cmp_readFieldBegin"
  "readFieldEnd compact_vt = xret ()"
  "readMapBegin compact_vt = cmp_readMapBegin"
  "readMapEnd compact_vt = xret ()"
  "readListBegin compact_vt = cmp_readListBegin"
  "readListEnd compact_vt = xret ()"
  "readSetBegin compact_vt = cmp_readSetBegin"
  "readSetEnd compact_vt = xret ()"
  "readBool compact_vt = cmp_readBool"
  "readByte compact_vt = cmp_readByte"
  "readI16 compact_vt = cmp_readI16"
  "readI32 compact_vt = cmp_readI32"
  "readI64 compact_vt = cmp_readI64"
  "readDouble compact_vt = cmp_readDouble"
  "readString compact_vt = cmp_readBinary"
  "readBinary compact_vt = cmp_readBinary"
  "append_raw compact_vt = cmp_put"
  by (simp_all add: compact_vt_def)

section \<open>Varints and zigzag\<close>

lemma varint_last: "n AND NOT 0x7F = 0 \<Longrightarrow> varint n = [ucast n]"
  by (simp add: varint.simps)

lemma varint_more:
  "n AND NOT 0x7F \<noteq> 0 \<Longrightarrow> varint n = ucast ((n AND 0x7F) OR 0x80) # varint (drop_bit 7 n)"
  by (subst varint.simps) simp

lemma varint_ne [simp]: "varint n \<noteq> []"
  by (subst varint.simps) simp

lemma bit_7F: "bit (0x7F :: 'a::len word) i \<longleftrightarrow> i < 7 \<and> i < LENGTH('a)"
proof -
  have "(0x7F :: 'a word) = mask 7" by (simp add: mask_eq_exp_minus_1)
  moreover have "bit (mask 7 :: 'a word) i \<longleftrightarrow> i < 7 \<and> i < LENGTH('a)"
    unfolding bit_mask_iff possible_bit_word by blast
  ultimately show ?thesis by simp
qed

lemma bit_80: "bit (0x80 :: 'a::len word) i \<longleftrightarrow> i = 7 \<and> i < LENGTH('a)"
proof -
  have "(0x80 :: 'a word) = push_bit 7 1" by (simp add: push_bit_eq_mult)
  then show ?thesis by (simp only: bit_push_bit_iff possible_bit_word bit_1_iff) auto
qed

lemmas group_bits = bit_or_iff bit_and_iff bit_7F bit_80 bit_unsigned_iff bit_push_bit_iff
  bit_drop_bit_eq o_apply possible_bit_word

lemma low7_iff: "(n :: 'a::len word) AND NOT 0x7F = 0 \<longleftrightarrow> (\<forall>i. bit n i \<longrightarrow> i < 7)"
  unfolding bit_eq_iff bit_and_iff bit_not_iff bit_7F possible_bit_word bit_0_eq
  using bit_imp_le_length by auto

text \<open>The arrays of 5 and 10 bytes are large enough: every byte takes 7 bits.\<close>

lemma length_varint: "unat n < 128 ^ Suc k \<Longrightarrow> length (varint n) \<le> Suc k"
proof (induction k arbitrary: n)
  case 0
  have "take_bit 7 (unat n) = unat n" using 0 by (simp add: take_bit_nat_eq_self)
  then have "n AND NOT 0x7F = 0"
    unfolding low7_iff by (metis bit_take_bit_iff bit_unsigned_iff possible_bit_nat)
  then show ?case by (simp add: varint_last)
next
  case (Suc k)
  show ?case
  proof (cases "n AND NOT 0x7F = 0")
    case True
    then show ?thesis by (simp add: varint_last)
  next
    case False
    have "unat (drop_bit 7 n) < 128 ^ Suc k"
      unfolding unat_drop_7 using Suc.prems by (simp add: less_mult_imp_div_less mult.commute)
    from Suc.IH [OF this] False show ?thesis by (simp add: varint_more)
  qed
qed

lemma bit_zigzag:
  fixes n :: "'a::len word"
  shows "bit (push_bit 1 n XOR signed_drop_bit (LENGTH('a) - 1) n) i \<longleftrightarrow>
    i < LENGTH('a) \<and> (if i = 0 then bit n (LENGTH('a) - 1) else bit n (i - 1) \<noteq> bit n (LENGTH('a) - 1))"
proof (cases "i < LENGTH('a)")
  case True
  show ?thesis
  proof (cases i)
    case 0
    show ?thesis
     unfolding bit_xor_iff bit_push_bit_iff bit_signed_drop_bit_iff using 0 True by auto
  next
    case (Suc j)
    then have "LENGTH('a) - (LENGTH('a) - 1) \<le> i" using True by simp
    then show ?thesis
     unfolding bit_xor_iff bit_push_bit_iff bit_signed_drop_bit_iff using Suc True by auto
  qed
next
  case False
  then show ?thesis using bit_imp_le_length by blast
qed

lemma zigzag_inverse:
  fixes n :: "'a::len word"
  defines "m \<equiv> push_bit 1 n XOR signed_drop_bit (LENGTH('a) - 1) n"
  shows "drop_bit 1 m XOR - (m AND 1) = n"
proof -
  let ?s = "bit n (LENGTH('a) - 1)"
  have bm: "bit m i \<longleftrightarrow> i < LENGTH('a) \<and> (if i = 0 then ?s else bit n (i - 1) \<noteq> ?s)" for i
    unfolding m_def by (rule bit_zigzag)
  have "m AND 1 = (if ?s then 1 else 0)"
  proof -
    have "bit m 0 = ?s" using bm [of 0] by simp
    then show ?thesis by (simp add: and_one_eq mod_2_eq_odd bit_0)
  qed
  then have neg: "- (m AND 1) = (if ?s then - 1 else 0)" by simp
  show ?thesis
  proof (rule bit_word_eqI)
    fix i
    assume i: "i < LENGTH('a)"
    have d: "bit (drop_bit 1 m) i = bit m (Suc i)" by (simp only: bit_drop_bit_eq o_apply) simp
    show "bit (drop_bit 1 m XOR - (m AND 1)) i = bit n i"
    proof (cases "Suc i < LENGTH('a)")
      case True
      then show ?thesis unfolding bit_xor_iff d bm neg by auto
    next
      case False
      with i have "i = LENGTH('a) - 1" by simp
      then show ?thesis unfolding bit_xor_iff d bm neg by auto
    qed
  qed
qed

lemma zigzag32 [simp]: "zigzagToI32 (i32ToZigzag n) = n"
  using zigzag_inverse [of n] by (simp only: zigzagToI32_def i32ToZigzag_def) simp

lemma zigzag64 [simp]: "zigzagToI64 (i64ToZigzag n) = n"
  using zigzag_inverse [of n] by (simp only: zigzagToI64_def i64ToZigzag_def) simp

lemma length_varint32: "length (varint (n :: u32)) \<le> 5"
proof -
  have "unat n < 2 ^ 32" using unsigned_less [of n] by simp
  then have "unat n < 128 ^ Suc 4" by simp
  from length_varint [OF this] show ?thesis by simp
qed

lemma length_varint64: "length (varint (n :: u64)) \<le> 10"
proof -
  have "unat n < 2 ^ 64" using unsigned_less [of n] by simp
  then have "unat n < 128 ^ Suc 9" by simp
  from length_varint [OF this] show ?thesis by simp
qed

text \<open>A 32-bit varint is the 64-bit varint of the zero-extended value.\<close>

lemma varint_ucast: "varint (ucast (n :: u32) :: u64) = varint n"
proof (induction n rule: varint.induct)
  case (1 n)
  have z: "(ucast n AND NOT 0x7F = (0 :: u64)) = (n AND NOT 0x7F = 0)"
  proof -
    have "bit n i \<Longrightarrow> i < 64" for i using bit_imp_le_length [of n i] by simp
    then show ?thesis unfolding low7_iff by (auto simp: bit_simps)
  qed
  show ?case
  proof (cases "n AND NOT 0x7F = 0")
    case True
    moreover have "(ucast (ucast n :: u64) :: byte) = ucast n"
      by (rule bit_word_eqI) (auto simp: bit_simps)
    ultimately show ?thesis using z by (simp add: varint_last)
  next
    case False
    have "(drop_bit 7 (ucast n) :: u64) = ucast (drop_bit 7 n)"
      by (simp add: ucast_drop_bit_eq)
    moreover have "(ucast ((ucast n AND 0x7F :: u64) OR 0x80) :: byte) = ucast ((n AND 0x7F) OR 0x80)"
      by (rule bit_word_eqI, unfold group_bits) auto
    moreover have "varint (ucast n :: u64) =
        ucast ((ucast n AND 0x7F :: u64) OR 0x80) # varint (drop_bit 7 (ucast n :: u64))"
      by (rule varint_more) (use z False in blast)
    ultimately show ?thesis using 1 [OF False] varint_more [OF False] by metis
  qed
qed

section \<open>Reading is safe\<close>

definition cmp_inv :: "nat \<Rightarrow> compact_protocol \<Rightarrow> bool" where
  "cmp_inv d p \<longleftrightarrow> wf_buf (cmp_buf p) \<and> d \<le> length (lastField p)"

lemma unread_compact: "wf_buf (cmp_buf p) \<Longrightarrow> unread compact_vt p = length (content (cmp_buf p))"
  by (simp add: unread_def unat_valid_read_len)

lemma cmp_get_ok:
  assumes "wf_buf (cmp_buf p)" and "n \<le> length (content (cmp_buf p))"
  shows "\<exists>b'. cmp_get n p = (Inr (of_nat n, take n (content (cmp_buf p))), p\<lparr>cmp_buf := b'\<rparr>) \<and>
           wf_buf b' \<and> content b' = drop n (content (cmp_buf p))"
  using bb.read_enough [OF assms] by (auto simp: cmp_get_def mlift_def mrun)

lemma cmp_get_short:
  assumes "wf_buf (cmp_buf p)" and "length (content (cmp_buf p)) < n"
  shows "cmp_get n p = (Inl (Throw Length_error), p)"
  using bb.read_too_much [OF assms] by (simp add: cmp_get_def mlift_def mrun)

lemma cmp_get_safe: "safe compact_vt cmp_inv B d d n (cmp_get n)"
  unfolding safe_def
proof (intro allI impI)
  fix p
  assume p: "cmp_inv d p" "unread compact_vt p \<le> B"
  then have wf: "wf_buf (cmp_buf p)" by (simp add: cmp_inv_def)
  show "case cmp_get n p of (Inl f, s') \<Rightarrow> \<exists>x. f = Throw x
      | (Inr (m, v), s') \<Rightarrow> cmp_inv d s' \<and> unread compact_vt s' + n \<le> unread compact_vt p \<and>
          m = of_nat (unread compact_vt p - unread compact_vt s')"
  proof (cases "n \<le> length (content (cmp_buf p))")
    case True
    from cmp_get_ok [OF wf this] True wf p show ?thesis
      by (auto simp: cmp_inv_def unread_compact simp del: of_nat_diff)
  next
    case False
    with cmp_get_short [OF wf] show ?thesis by simp
  qed
qed

lemma cmp_xmod_safe:
  "(\<And>p. cmp_buf (f p) = cmp_buf p \<and> lastField (f p) = lastField p) \<Longrightarrow>
     safe compact_vt cmp_inv B d d 0 (xmod f)"
  by (simp add: safe_def xmod_def cmp_inv_def unread_def)

lemma cmp_get_safe0: "safe compact_vt cmp_inv B d d 0 (cmp_get n)"
  by (rule safe_weaken0 [OF cmp_get_safe])

lemma cmp_get1_safe:
  "(\<And>b. safe compact_vt cmp_inv (B - Suc 0) d d 0 (f b)) \<Longrightarrow>
     safe compact_vt cmp_inv B d d (Suc 0) (xbind (cmp_get 1) f)"
  using safe_xbind1 [of compact_vt cmp_inv B d d "cmp_get 1" d f] cmp_get_safe [of B d 1] by simp

lemma cmp_readByte_safe: "safe compact_vt cmp_inv B d d (Suc 0) cmp_readByte"
  unfolding cmp_readByte_def by (rule cmp_get1_safe) simp

lemma readVarint_loop_safe0: "safe compact_vt cmp_inv B d d 0 (readVarint_loop k v sh)"
proof (induction k arbitrary: v sh B)
  case (Suc k)
  show ?case
    unfolding readVarint_loop.simps Let_def by (intro safe_intros cmp_get_safe0 Suc.IH)
qed simp

lemma cmp_readVarint64_safe: "safe compact_vt cmp_inv B d d (Suc 0) cmp_readVarint64"
proof -
  have ten: "(10 :: nat) = Suc 9" by simp
  show ?thesis
    unfolding cmp_readVarint64_def ten readVarint_loop.simps Let_def
    by (intro cmp_get1_safe safe_intros readVarint_loop_safe0)
qed

lemma cmp_readVarint32_safe: "safe compact_vt cmp_inv B d d (Suc 0) cmp_readVarint32"
  unfolding cmp_readVarint32_def by (rule safe_xbind1 [OF cmp_readVarint64_safe]) simp

lemma getTType_safe: "safe compact_vt cmp_inv B d d 0 (getTType t)"
  unfolding getTType_def by (intro safe_intros)

lemma cmp_check_size_safe: "safe compact_vt cmp_inv B d d 0 (cmp_check_size n)"
  by (simp add: safe_def cmp_check_size_def)

lemmas cmp_safes = cmp_get_safe0 safe_weaken0 [OF cmp_readByte_safe] safe_weaken0 [OF cmp_readVarint64_safe]
  safe_weaken0 [OF cmp_readVarint32_safe] getTType_safe cmp_check_size_safe

lemma cmp_readI16_safe: "safe compact_vt cmp_inv B d d 0 cmp_readI16"
  unfolding cmp_readI16_def by (intro safe_intros cmp_safes)

lemma cmp_readFieldBegin_safe: "safe compact_vt cmp_inv B d d (Suc 0) cmp_readFieldBegin"
proof -
  have last: "safe compact_vt cmp_inv B d d 0 (\<lambda>p. xret (lastFieldId p + m) p)" for B m
    by (simp add: safe_def mrun)
  show ?thesis
    unfolding cmp_readFieldBegin_def Let_def
    by (rule safe_xbind1 [OF cmp_readByte_safe])
       (intro safe_intros cmp_safes cmp_readI16_safe last cmp_xmod_safe; simp)
qed

lemma cmp_readMapBegin_safe: "safe compact_vt cmp_inv B d d (Suc 0) cmp_readMapBegin"
  unfolding cmp_readMapBegin_def
  by (rule safe_xbind1 [OF cmp_readVarint32_safe]) (intro safe_intros cmp_safes)

lemma cmp_readListBegin_safe: "safe compact_vt cmp_inv B d d (Suc 0) cmp_readListBegin"
  unfolding cmp_readListBegin_def Let_def
  by (rule safe_xbind1 [OF cmp_readByte_safe]) (intro safe_intros cmp_safes)

lemma cmp_readBool_safe: "safe compact_vt cmp_inv B d d 0 cmp_readBool"
proof -
  have "safe compact_vt cmp_inv B d d 0 (xbind cmp_readByte (\<lambda>val. xret (val = CT_BOOLEAN_TRUE)))"
    by (intro safe_intros cmp_safes)
  then show ?thesis
    unfolding safe_def cmp_readBool_def by (auto simp: cmp_inv_def unread_def split: option.splits)
qed

lemma cmp_readBinary_safe: "safe compact_vt cmp_inv B d d 0 cmp_readBinary"
proof -
  let ?F = "\<lambda>n p. if n = 0 then xret []
      else if sint n < 0 then xfail (TProtocolException NEGATIVE_SIZE)
      else if sint (cmp_string_limit p) > 0 \<and> sint n > sint (cmp_string_limit p)
      then xfail (TProtocolException SIZE_LIMIT)
      else xbind (cmp_get (unat n)) (\<lambda>b. xret (string_of_bytes b))"
  have eq: "cmp_readBinary = xbind cmp_readVarint32 (\<lambda>n p. ?F n p p)"
    unfolding cmp_readBinary_def by (intro arg_cong2 [where f = xbind] ext) auto
  have body: "safe compact_vt cmp_inv B d d 0 (\<lambda>p. ?F n p p)" for B n
    by (rule safe_at_state [where F = "?F n"]) (intro safe_intros cmp_get_safe0)
  show ?thesis unfolding eq by (rule safe_xbind0 [OF safe_weaken0 [OF cmp_readVarint32_safe] body])
qed

interpretation cmp_reader: thrift_reader compact_vt cmp_inv
proof
  show "safe compact_vt cmp_inv B d (Suc d) 0 (readStructBegin compact_vt)" for B d
    by (simp add: safe_def xmod_def cmp_inv_def unread_def cmp_readStructBegin_def)
  show "safe compact_vt cmp_inv B (Suc d) d 0 (readStructEnd compact_vt)" for B d
    by (auto simp: safe_def cmp_inv_def unread_def cmp_structEnd_def split: list.splits)
  show "safe compact_vt cmp_inv B d d 0 (readI32 compact_vt)" for B d
    by (simp add: cmp_readI32_def) (intro safe_intros cmp_safes)
  show "safe compact_vt cmp_inv B d d 0 (readI64 compact_vt)" for B d
    by (simp add: cmp_readI64_def) (intro safe_intros cmp_safes)
  show "safe compact_vt cmp_inv B d d 0 (readDouble compact_vt)" for B d
    unfolding compact_vt_sel cmp_readDouble_def
    by (rule safe_xbind0 [OF cmp_get_safe0]) (metis htonll_xret safe_xret)
qed (simp_all add: cmp_readFieldBegin_safe cmp_readMapBegin_safe cmp_readListBegin_safe cmp_readSetBegin_def
    cmp_readBool_safe cmp_readI16_safe cmp_readBinary_safe safe_weaken0 [OF cmp_readByte_safe])

section \<open>What is written is read back\<close>

text \<open>The context is the id of the last field and those of the enclosing structs.\<close>

definition cmp_st :: "i16 list \<Rightarrow> compact_protocol \<Rightarrow> bool" where
  "cmp_st c p \<longleftrightarrow>
     wf_buf (cmp_buf p) \<and> cmp_string_limit p = MAX_STRING_LIMIT \<and>
     cmp_container_limit p = MAX_CONTAINER_LIMIT \<and> booleanField p = None \<and> boolValue p = None \<and>
     c = lastFieldId p # lastField p"

definition cmp_cont :: "compact_protocol \<Rightarrow> byte list" where
  "cmp_cont p = content (cmp_buf p)"

definition cmp_room :: "compact_protocol \<Rightarrow> nat" where
  "cmp_room p = buf_room (cmp_buf p)"

interpretation cmp_cs: codec_state cmp_st cmp_cont cmp_room .

lemma cmp_put_writes:
  assumes "bs \<noteq> []"
  shows "cmp_cs.writes c c (cmp_put bs) bs"
  unfolding cmp_cs.writes_def
proof (intro allI impI)
  fix p
  assume p: "cmp_st c p" and r: "length bs \<le> cmp_room p"
  from bb.write_room [of "cmp_buf p" bs] assms p r obtain b' where
    "write_to_byte_buf bs (cmp_buf p) = (Inr (of_nat (length bs)), b')" "wf_buf b'"
    "content b' = content (cmp_buf p) @ bs" "buf_room b' = buf_room (cmp_buf p) - length bs"
    by (auto simp: cmp_st_def cmp_room_def)
  with p show "\<exists>s'. cmp_put bs p = (Inr (of_nat (length bs), ()), s') \<and> cmp_st c s' \<and>
      cmp_cont s' = cmp_cont p @ bs \<and> cmp_room s' = cmp_room p - length bs"
    by (simp add: cmp_put_def mlift_def mrun cmp_st_def cmp_cont_def cmp_room_def)
qed

lemma cmp_get_reads:
  assumes "length bs = n"
  shows "cmp_cs.reads c c (cmp_get n) bs bs"
  unfolding cmp_cs.reads_def
proof (intro allI impI)
  fix p rest
  assume p: "cmp_st c p" and c: "cmp_cont p = bs @ rest"
  from bb.read_prefix [of "cmp_buf p" bs rest n] p c assms obtain b' where
    "read_from_byte_buf n (cmp_buf p) = (Inr bs, b')" "wf_buf b'" "content b' = rest"
    by (auto simp: cmp_st_def cmp_cont_def)
  with p assms show "\<exists>s'. cmp_get n p = (Inr (of_nat (length bs), bs), s') \<and> cmp_st c s' \<and> cmp_cont s' = rest"
    by (simp add: cmp_get_def mlift_def mrun cmp_st_def cmp_cont_def)
qed

lemma cmp_byte_w: "cmp_cs.writes c c (cmp_writeByte x) [x]"
  unfolding cmp_writeByte_def by (rule cmp_put_writes) simp

lemma cmp_byte_r: "cmp_cs.reads c c cmp_readByte [x] x"
  unfolding cmp_readByte_def using cmp_cs.reads_map [OF cmp_get_reads [of "[x]" 1], of c "\<lambda>b. b ! 0"] by simp

lemma cmp_varint32_w: "cmp_cs.writes c c (cmp_writeVarint32 n) (varint n)"
  by (simp add: cmp_writeVarint32_def length_varint32 cmp_put_writes)

lemma cmp_varint64_w: "cmp_cs.writes c c (cmp_writeVarint64 n) (varint n)"
  by (simp add: cmp_writeVarint64_def length_varint64 cmp_put_writes)

text \<open>The reader shifts each group of seven bits to where the writer took it from.\<close>

lemma readVarint_loop_reads:
  "length (varint n) \<le> left \<Longrightarrow>
     cmp_cs.reads c c (readVarint_loop left val sh) (varint n) (val OR push_bit sh n)"
proof (induction n arbitrary: left val sh rule: varint.induct)
  case (1 n)
  then obtain left' where left: "left = Suc left'" by (cases left) auto
  let ?k = "\<lambda>b. let byte = b ! 0; val' = val OR push_bit sh (ucast (byte AND 0x7F))
       in if byte AND 0x80 = 0 then xret val' else readVarint_loop left' val' (sh + 7)"
  have get: "cmp_cs.reads c c (cmp_get 1) [b] [b]" for b by (rule cmp_get_reads) simp
  show ?case
  proof (cases "n AND NOT 0x7F = 0")
    case True
    have low: "bit n i \<Longrightarrow> i < 7" for i using True unfolding low7_iff by blast
    have v: "ucast ((ucast n :: byte) AND 0x7F) = n"
      by (rule bit_word_eqI, unfold group_bits) (use low in fastforce)
    have s: "(ucast n :: byte) AND 0x80 = 0"
    proof (rule bit_word_eqI)
      fix i
      show "bit ((ucast n :: byte) AND 0x80) i = bit 0 i"
        unfolding group_bits using low [of 7] by auto
    qed
    have "cmp_cs.reads c c (xbind (cmp_get 1) ?k) [ucast n] (val OR push_bit sh n)"
      by (rule cmp_cs.reads_then_nil [OF get]) (simp add: s v cmp_cs.reads_xret)
    with True show ?thesis by (simp add: left varint_last)
  next
    case False
    let ?b = "ucast ((n AND 0x7F) OR 0x80) :: byte"
    have s: "?b AND 0x80 \<noteq> 0"
    proof
      assume "?b AND 0x80 = 0"
      then have "\<not> bit (?b AND 0x80) 7" by simp
      then show False unfolding group_bits by simp
    qed
    have v: "ucast (?b AND 0x7F) = n AND 0x7F"
      by (rule bit_word_eqI, unfold group_bits) auto
    have eq: "(val OR push_bit sh (n AND 0x7F)) OR push_bit (sh + 7) (drop_bit 7 n) = val OR push_bit sh n"
    proof (rule bit_word_eqI, unfold group_bits)
      fix i
      assume "i < LENGTH(64)"
      then show "((bit val i \<or> sh \<le> i \<and> i < LENGTH(64) \<and> bit n (i - sh) \<and> i - sh < 7 \<and> i - sh < LENGTH(64)) \<or>
          sh + 7 \<le> i \<and> i < LENGTH(64) \<and> bit n (7 + (i - (sh + 7)))) =
        (bit val i \<or> sh \<le> i \<and> i < LENGTH(64) \<and> bit n (i - sh))"
        by (cases "sh + 7 \<le> i") auto
    qed
    from 1 False left have IH: "cmp_cs.reads c c (readVarint_loop left' val' (sh + 7))
        (varint (drop_bit 7 n)) (val' OR push_bit (sh + 7) (drop_bit 7 n))" for val'
      by (simp add: varint_more)
    have "cmp_cs.reads c c (xbind (cmp_get 1) ?k) ([?b] @ varint (drop_bit 7 n)) (val OR push_bit sh n)"
      by (rule cmp_cs.reads_xbind [OF get])
         (use s v IH [of "val OR push_bit sh (n AND 0x7F)"] eq in simp)
    with False show ?thesis by (simp add: left varint_more)
  qed
qed

lemma cmp_varint64_r: "cmp_cs.reads c c cmp_readVarint64 (varint n) n"
  using readVarint_loop_reads [of n 10 c 0 0] length_varint64 [of n] by (simp add: cmp_readVarint64_def)

lemma cmp_varint32_r: "cmp_cs.reads c c cmp_readVarint32 (varint n) n"
proof -
  have "(ucast (ucast n :: u64) :: u32) = n" by (rule bit_word_eqI) (auto simp: bit_simps)
  with cmp_cs.reads_map [OF cmp_varint64_r [of c "ucast n"], of "ucast :: u64 \<Rightarrow> u32"] varint_ucast [of n]
  show ?thesis by (simp add: cmp_readVarint32_def)
qed

subsection \<open>Type codes and nibbles\<close>

definition ctype :: "TType \<Rightarrow> i8" where
  "ctype t = TTypeToCType ! unat t"

lemma ctype_vals:
  "ctype T_BYTE = 3" "ctype T_I16 = 4" "ctype T_I32 = 5" "ctype T_I64 = 6" "ctype T_DOUBLE = 7"
  "ctype T_STRING = 8" "ctype T_LIST = 9" "ctype T_SET = 10" "ctype T_MAP = 11" "ctype T_STRUCT = 12"
  by (simp_all add: ctype_def TTypeToCType_def TType_defs CT_defs)

lemma ctype_cases: "t \<in> field_types \<Longrightarrow> ctype t \<in> {3, 4, 5, 6, 7, 8, 9, 10, 11, 12}"
  by (auto simp: field_types_def ctype_vals)

lemma getCompactType_ok: "t \<in> field_types \<Longrightarrow> getCompactType t = xret (ctype t)"
  by (auto simp: field_types_def getCompactType_def ctype_def TTypeToCType_def TType_defs)

lemma getTType_ctype: "t \<in> field_types \<Longrightarrow> getTType (ctype t) = xret t"
  by (auto simp: field_types_def ctype_vals getTType_def T_STOP_def CT_defs)

lemma ctype_small: "t \<in> field_types \<Longrightarrow> unat (ctype t) < 13"
  using ctype_cases [of t] by auto

lemma small_bits:
  assumes "unat (b :: byte) < 16" and "bit b i"
  shows "i < 4"
proof -
  have "take_bit 4 (unat b) = unat b" using assms(1) by (simp add: take_bit_nat_eq_self)
  moreover have "bit (unat b) i" using assms(2) by (simp add: bit_unsigned_iff)
  ultimately show ?thesis by (metis bit_take_bit_iff)
qed

lemma bit_0F: "bit (0x0F :: byte) i \<longleftrightarrow> i < 4"
proof -
  have "(0x0F :: byte) = mask 4" by (simp add: mask_eq_exp_minus_1)
  moreover have "bit (mask 4 :: byte) i \<longleftrightarrow> i < 4"
    unfolding bit_mask_iff possible_bit_word by auto
  ultimately show ?thesis by simp
qed

lemma bit_F0: "bit (0xF0 :: byte) i \<longleftrightarrow> 4 \<le> i \<and> i < 8"
proof -
  have "(0xF0 :: byte) = push_bit 4 0x0F" by (simp add: push_bit_eq_mult)
  then show ?thesis by (simp only: bit_push_bit_iff possible_bit_word bit_0F) auto
qed

lemmas nibble_bits = bit_or_iff bit_and_iff bit_0F bit_F0 bit_push_bit_iff bit_drop_bit_eq o_apply
  possible_bit_word

lemma nibbles:
  assumes "unat (d :: byte) < 16" and "unat (t :: byte) < 16"
  shows "drop_bit 4 (push_bit 4 d OR t) = d"
    and "drop_bit 4 ((push_bit 4 d OR t) AND 0xF0) = d"
    and "(push_bit 4 d OR t) AND 0x0F = t"
proof -
  note d = small_bits [OF assms(1)] and t = small_bits [OF assms(2)]
  show "drop_bit 4 (push_bit 4 d OR t) = d"
    by (rule bit_word_eqI, unfold nibble_bits) (use d t in fastforce)
  show "drop_bit 4 ((push_bit 4 d OR t) AND 0xF0) = d"
    by (rule bit_word_eqI, unfold nibble_bits) (use d t in fastforce)
  show "(push_bit 4 d OR t) AND 0x0F = t"
    by (rule bit_word_eqI, unfold nibble_bits) (use d t in fastforce)
qed

lemma not_stop:
  assumes "unat (d :: byte) < 16" and "unat (t :: byte) < 13"
  shows "push_bit 4 d OR t \<noteq> T_STOP"
proof
  assume "push_bit 4 d OR t = T_STOP"
  with nibbles(3) [OF assms(1), of t] assms(2) have "t = T_STOP AND 0x0F" by simp
  with assms(2) show False by (simp add: T_STOP_def)
qed

subsection \<open>Field headers\<close>

definition cmp_delta :: "i16 \<Rightarrow> i16 \<Rightarrow> bool" where
  "cmp_delta l i \<longleftrightarrow> sint i > sint l \<and> sint i - sint l \<le> 15"

definition cmp_encI16 :: "i16 \<Rightarrow> byte list" where
  "cmp_encI16 i = varint (i32ToZigzag (scast i))"

definition cmp_encField :: "i16 \<Rightarrow> i8 \<Rightarrow> i16 \<Rightarrow> byte list" where
  "cmp_encField l ct i =
     (if cmp_delta l i then [push_bit 4 (ucast (i - l)) OR ct] else ct # cmp_encI16 i)"

lemma delta_word:
  assumes "cmp_delta l i"
  shows "unat (ucast (i - l) :: byte) < 16" and "(ucast (i - l) :: byte) \<noteq> 0"
    and "l + ucast (ucast (i - l) :: byte) = i"
proof -
  define k where "k = nat (sint i - sint l)"
  have k: "1 \<le> k" "k \<le> 15" using assms by (auto simp: cmp_delta_def k_def)
  have "i - l = of_int (sint i - sint l)" by simp
  also have "\<dots> = of_int (int k)" using assms by (simp add: k_def cmp_delta_def)
  finally have w: "i - l = of_nat k" by simp
  have u: "unat (i - l) = k" unfolding w using k by (simp add: unat_of_nat)
  have ub: "unat (ucast (i - l) :: byte) = k"
    using u k by (simp add: unsigned_ucast_eq take_bit_nat_eq_self)
  show "unat (ucast (i - l) :: byte) < 16" using ub k by simp
  show "(ucast (i - l) :: byte) \<noteq> 0" using ub k by auto
  have "unat (take_bit 8 (i - l)) = unat (i - l)"
    using u k by (simp add: unsigned_take_bit_eq take_bit_nat_eq_self)
  moreover have "(ucast (ucast (i - l) :: byte) :: i16) = take_bit 8 (i - l)"
    by (rule bit_word_eqI) (auto simp: bit_simps)
  ultimately have "unat (ucast (ucast (i - l) :: byte) :: i16) = unat (i - l)" by simp
  then have "(ucast (ucast (i - l) :: byte) :: i16) = i - l" by (simp only: unsigned_word_eqI)
  then show "l + ucast (ucast (i - l) :: byte) = i" by simp
qed

lemma ucast_scast_i16: "(ucast (scast (x :: i16) :: i32) :: i16) = x"
  by (rule bit_word_eqI) (auto simp: bit_simps)

lemma cmp_i16_w: "cmp_cs.writes c c (cmp_writeI16 x) (cmp_encI16 x)"
  unfolding cmp_writeI16_def cmp_encI16_def by (rule cmp_varint32_w)

lemma cmp_i16_r: "cmp_cs.reads c c cmp_readI16 (cmp_encI16 x) x"
  using cmp_cs.reads_map [OF cmp_varint32_r [of c "i32ToZigzag (scast x)"],
      of "\<lambda>v. ucast (zigzagToI32 v) :: i16"]
  by (simp add: cmp_readI16_def cmp_encI16_def ucast_scast_i16)

lemma cmp_xmod_w:
  assumes "\<And>p. cmp_st c p \<Longrightarrow> cmp_st c' (f p) \<and> cmp_buf (f p) = cmp_buf p"
  shows "cmp_cs.writes c c' (xmod f) []"
  using assms by (simp add: cmp_cs.writes_def xmod_def cmp_cont_def cmp_room_def)

lemma cmp_xmod_r:
  assumes "\<And>p. cmp_st c p \<Longrightarrow> cmp_st c' (f p) \<and> cmp_buf (f p) = cmp_buf p"
  shows "cmp_cs.reads c c' (xmod f) [] ()"
  using assms by (simp add: cmp_cs.reads_def xmod_def cmp_cont_def)

lemma cmp_set_id:
  "cmp_st (l # c) p \<Longrightarrow> cmp_st (i # c) (p\<lparr>lastFieldId := i\<rparr>) \<and> cmp_buf (p\<lparr>lastFieldId := i\<rparr>) = cmp_buf p"
  by (simp add: cmp_st_def)

text \<open>What the internal routine writes, for a type code found in the table or overridden.\<close>

lemma cmp_fieldInternal_w:
  assumes "(ov = -1 \<and> getCompactType t = (xret ct :: (compact_protocol, i8) X)) \<or> (ov \<noteq> -1 \<and> ov = ct)"
  shows "cmp_cs.writes (l # c) (i # c) (cmp_writeFieldBeginInternal t i ov) (cmp_encField l ct i)"
proof -
  let ?hd = "\<lambda>d. xseq (if d then cmp_writeByte (push_bit 4 (ucast (i - l)) OR ct)
      else xseq (cmp_writeByte ct) (cmp_writeI16 i)) (xmod (\<lambda>p. p\<lparr>lastFieldId := i\<rparr>))"
  have "cmp_writeFieldBeginInternal t i ov p = ?hd (cmp_delta l i) p" if "cmp_st (l # c) p" for p
    using that assms by (auto simp: cmp_writeFieldBeginInternal_def cmp_delta_def cmp_st_def)
  moreover have "cmp_cs.writes (l # c) (i # c) (?hd (cmp_delta l i)) (cmp_encField l ct i @ [])"
    by (rule cmp_cs.writes_xseq [OF _ cmp_xmod_w [OF cmp_set_id [of l]]])
       (auto simp: cmp_encField_def cmp_byte_w cmp_i16_w intro: cmp_cs.writes_xseq [OF cmp_byte_w, simplified])
  ultimately show ?thesis unfolding cmp_cs.writes_def by simp
qed

text \<open>The last part of \<open>readFieldBegin\<close>, for a type that is not boolean.\<close>

lemma cmp_readFieldBegin_tail:
  assumes t: "t \<in> field_types" and m: "cmp_cs.reads (l # c) (l # c) m bs i"
  shows "cmp_cs.reads (l # c) (i # c) (xbind m (\<lambda>fieldId. xbind (getTType (ctype t)) (\<lambda>fieldType.
      xseq (xmod (\<lambda>p. if ctype t = CT_BOOLEAN_TRUE \<or> ctype t = CT_BOOLEAN_FALSE
                      then p\<lparr>boolValue := Some (ctype t = CT_BOOLEAN_TRUE)\<rparr> else p))
      (xseq (xmod (\<lambda>p. p\<lparr>lastFieldId := fieldId\<rparr>)) (xret (fieldType, fieldId)))))) bs (t, i)"
proof (rule cmp_cs.reads_then_nil [OF m])
  have nb: "ctype t \<noteq> CT_BOOLEAN_TRUE" "ctype t \<noteq> CT_BOOLEAN_FALSE"
    using ctype_cases [OF t] by (auto simp: CT_defs)
  have id: "cmp_cs.reads (l # c) (i # c) (xseq (xmod (\<lambda>p. p\<lparr>lastFieldId := i\<rparr>)) (xret (t, i))) [] (t, i)"
    by (rule cmp_cs.reads_xseq_nil [OF cmp_xmod_r [OF cmp_set_id] cmp_cs.reads_xret])
  have "cmp_cs.reads (l # c) (l # c) (xmod (\<lambda>p. if ctype t = CT_BOOLEAN_TRUE \<or> ctype t = CT_BOOLEAN_FALSE
      then p\<lparr>boolValue := Some (ctype t = CT_BOOLEAN_TRUE)\<rparr> else p)) [] ()"
    by (rule cmp_xmod_r) (simp add: nb)
  from cmp_cs.reads_xseq_nil [OF this id]
  show "cmp_cs.reads (l # c) (i # c) (xbind (getTType (ctype t)) (\<lambda>fieldType.
      xseq (xmod (\<lambda>p. if ctype t = CT_BOOLEAN_TRUE \<or> ctype t = CT_BOOLEAN_FALSE
                      then p\<lparr>boolValue := Some (ctype t = CT_BOOLEAN_TRUE)\<rparr> else p))
      (xseq (xmod (\<lambda>p. p\<lparr>lastFieldId := i\<rparr>)) (xret (fieldType, i))))) [] (t, i)"
    unfolding getTType_ctype [OF t] xbind_xret .
qed

lemma cmp_fieldBegin_r:
  assumes t: "t \<in> field_types"
  shows "cmp_cs.reads (l # c) (i # c) cmp_readFieldBegin (cmp_encField l (ctype t) i) (t, i)"
proof -
  have t13: "unat (ctype t) < 13" and t16: "unat (ctype t) < 16" using ctype_small [OF t] by simp_all
  show ?thesis
  proof (cases "cmp_delta l i")
    case True
    note d = delta_word [OF True]
    let ?b = "push_bit 4 (ucast (i - l)) OR ctype t"
    have id: "cmp_cs.reads (l # c) (l # c) (\<lambda>p. xret (lastFieldId p + ucast (ucast (i - l) :: byte)) p) [] i"
      using d(3) by (auto simp: cmp_cs.reads_def cmp_st_def mrun)
    show ?thesis
      unfolding cmp_encField_def cmp_readFieldBegin_def Let_def using True
      by (simp, intro cmp_cs.reads_then_nil [OF cmp_byte_r])
         (simp only: not_stop [OF d(1) t13] nibbles [OF d(1) t16] d(2) if_False
            cmp_readFieldBegin_tail [OF t id])
  next
    case False
    have z: "push_bit 4 0 OR ctype t = ctype t" by simp
    have z16: "unat (0 :: byte) < 16" by simp
    note n = nibbles [OF z16 t16, unfolded z] and ns = not_stop [OF z16 t13, unfolded z]
    show ?thesis
      unfolding cmp_encField_def cmp_readFieldBegin_def Let_def using False
      by (simp, intro cmp_cs.reads_xbind [OF cmp_byte_r, simplified])
         (simp only: ns n if_False if_True simp_thms cmp_readFieldBegin_tail [OF t cmp_i16_r])
  qed
qed

subsection \<open>Containers and strings\<close>

definition cmp_encList :: "TType \<Rightarrow> u32 \<Rightarrow> byte list" where
  "cmp_encList t n =
     (if sint n \<le> 14 then [push_bit 4 (ucast n) OR ctype t] else (0xF0 OR ctype t) # varint n)"

definition cmp_encMap :: "TType \<Rightarrow> TType \<Rightarrow> u32 \<Rightarrow> byte list" where
  "cmp_encMap k v n = (if n = 0 then [0] else varint n @ [push_bit 4 (ctype k) OR ctype v])"

definition cmp_encString :: "string \<Rightarrow> byte list" where
  "cmp_encString str = varint (of_nat (length str) :: u32) @ bytes_of_string str"

lemma container_sint: "n \<le> 10240 \<Longrightarrow> sint (n :: u32) = int (unat n) \<and> unat n \<le> 10240"
proof -
  assume "n \<le> 10240"
  then have "unat n \<le> 10240" by (simp add: word_le_nat_alt)
  then show ?thesis using sint_small [of "unat n"] by simp
qed

lemma cmp_check_size_r: "n \<le> 10240 \<Longrightarrow> cmp_cs.reads c c (cmp_check_size n) [] ()"
proof -
  assume "n \<le> 10240"
  from container_sint [OF this] have "0 \<le> sint n" "sint n \<le> 10240" by linarith+
  then show ?thesis
    by (auto simp: cmp_cs.reads_def cmp_check_size_def cmp_st_def MAX_CONTAINER_LIMIT_def)
qed

lemmas cmp_cons_w = cmp_cs.writes_xseq [OF cmp_byte_w, simplified]

lemma cmp_list_w:
  "t \<in> field_types \<Longrightarrow> cmp_cs.writes c c (cmp_writeCollectionBegin t n) (cmp_encList t n)"
  by (simp add: cmp_writeCollectionBegin_def getCompactType_ok cmp_encList_def cmp_byte_w cmp_cons_w
      cmp_varint32_w)

lemma cmp_list_tail:
  assumes "t \<in> field_types" and "n \<le> 10240" and "cmp_cs.reads c c m bs n"
  shows "cmp_cs.reads c c (xbind m (\<lambda>lsize. xseq (cmp_check_size lsize)
      (xbind (getTType (ctype t)) (\<lambda>elemType. xret (elemType, lsize))))) bs (t, n)"
  by (rule cmp_cs.reads_then_nil [OF assms(3)], rule cmp_cs.reads_xseq_nil [OF cmp_check_size_r [OF assms(2)]])
     (simp add: getTType_ctype [OF assms(1)] cmp_cs.reads_xret)

lemma cmp_list_r:
  assumes t: "t \<in> field_types" and n: "n \<le> 10240"
  shows "cmp_cs.reads c c cmp_readListBegin (cmp_encList t n) (t, n)"
proof -
  have t16: "unat (ctype t) < 16" using ctype_small [OF t] by simp
  note cs = container_sint [OF n]
  show ?thesis
  proof (cases "sint n \<le> 14")
    case True
    then have n14: "unat n \<le> 14" using cs by linarith
    then have un: "unat (ucast n :: byte) = unat n"
      by (simp add: unsigned_ucast_eq take_bit_nat_eq_self)
    with n14 have d: "unat (ucast n :: byte) < 16" by simp
    have "unat (take_bit 8 n) = unat n"
      using n14 by (simp add: unsigned_take_bit_eq take_bit_nat_eq_self)
    moreover have "(ucast (ucast n :: byte) :: u32) = take_bit 8 n"
      by (rule bit_word_eqI) (auto simp: bit_simps)
    ultimately have same: "(ucast (ucast n :: byte) :: u32) = n" by (simp only: unsigned_word_eqI)
    have ne: "n \<noteq> 15" using n14 by auto
    show ?thesis
      unfolding cmp_readListBegin_def cmp_encList_def Let_def using True
      by (simp, intro cmp_cs.reads_then_nil [OF cmp_byte_r])
         (simp only: nibbles [OF d t16] same ne if_False cmp_list_tail [OF t n cmp_cs.reads_xret])
  next
    case False
    have F0: "0xF0 OR ctype t = push_bit 4 15 OR ctype t" by (simp add: push_bit_eq_mult)
    have d: "unat (15 :: byte) < 16" by simp
    have u15: "(ucast (15 :: byte) :: u32) = 15" by simp
    have "cmp_cs.reads c c cmp_readListBegin ([push_bit 4 15 OR ctype t] @ varint n) (t, n)"
      unfolding cmp_readListBegin_def Let_def
      by (rule cmp_cs.reads_xbind [OF cmp_byte_r])
         (simp only: nibbles [OF d t16] u15 if_True simp_thms cmp_list_tail [OF t n cmp_varint32_r])
    with False show ?thesis unfolding cmp_encList_def F0 by simp
  qed
qed

lemma cmp_map_w:
  "k \<in> field_types \<Longrightarrow> v \<in> field_types \<Longrightarrow> cmp_cs.writes c c (cmp_writeMapBegin k v n) (cmp_encMap k v n)"
  by (simp add: cmp_writeMapBegin_def getCompactType_ok cmp_encMap_def cmp_byte_w
      cmp_cs.writes_xseq [OF cmp_varint32_w cmp_byte_w])

lemma cmp_map_r:
  assumes k: "k \<in> field_types" and v: "v \<in> field_types" and n: "n \<le> 10240" "n \<noteq> 0"
  shows "cmp_cs.reads c c cmp_readMapBegin (cmp_encMap k v n) (k, v, n)"
proof -
  have k16: "unat (ctype k) < 16" and v16: "unat (ctype v) < 16"
    using ctype_small [OF k] ctype_small [OF v] by simp_all
  note nb = nibbles [OF k16 v16]
  have tail: "cmp_cs.reads c c (xseq (cmp_check_size n)
      (xbind (getTType (ctype k)) (\<lambda>keyType. xbind (getTType (ctype v)) (\<lambda>valType. xret (keyType, valType, n)))))
      [] (k, v, n)"
    by (rule cmp_cs.reads_xseq_nil [OF cmp_check_size_r [OF n(1)]])
       (simp add: getTType_ctype k v cmp_cs.reads_xret)
  have "cmp_cs.reads c c cmp_readMapBegin (varint n @ [push_bit 4 (ctype k) OR ctype v]) (k, v, n)"
    unfolding cmp_readMapBegin_def
    by (rule cmp_cs.reads_xbind [OF cmp_varint32_r], simp only: n(2) if_True simp_thms not_False_eq_True,
        rule cmp_cs.reads_then_nil [OF cmp_byte_r]) (simp only: nb tail)
  with n show ?thesis by (simp add: cmp_encMap_def)
qed

lemma cmp_string_w:
  assumes "length str \<le> 10485760"
  shows "cmp_cs.writes c c (cmp_writeBinary str) (cmp_encString str)"
  unfolding cmp_cs.writes_def
proof (intro allI impI)
  fix p
  let ?n = "of_nat (length str) :: u32"
  let ?w = "of_nat (length (varint ?n)) :: u32"
  assume p: "cmp_st c p" and room: "length (cmp_encString str) \<le> cmp_room p"
  from cmp_cs.writesD [OF cmp_varint32_w p, of ?n] room obtain p1 where
    1: "cmp_writeVarint32 ?n p = (Inr (?w, ()), p1)" "cmp_st c p1" "cmp_cont p1 = cmp_cont p @ varint ?n"
      "cmp_room p1 = cmp_room p - length (varint ?n)"
    by (auto simp: cmp_encString_def)
  have un: "unat ?n = length str" using assms by (simp add: unat_of_nat)
  have z: "0 < ?n \<longleftrightarrow> str \<noteq> []" using un by (simp add: word_less_nat_alt)
  have "cmp_cs.writes c c (if ?n > 0 then cmp_put (bytes_of_string str) else xret ()) (bytes_of_string str)"
    unfolding z using cmp_put_writes by (auto simp: cmp_cs.writes_xret bytes_of_string_def)
  moreover have "length (bytes_of_string str) \<le> cmp_room p1"
    using room 1(4) by (simp add: cmp_encString_def)
  ultimately obtain p2 where
    2: "(if ?n > 0 then cmp_put (bytes_of_string str) else xret ()) p1 = (Inr (?n, ()), p2)" "cmp_st c p2"
      "cmp_cont p2 = cmp_cont p1 @ bytes_of_string str" "cmp_room p2 = cmp_room p1 - length str"
    using cmp_cs.writesD [OF _ 1(2)] by (metis length_bytes_of_string)
  have "unat (- 1 - ?w) \<ge> 4294967295 - 5"
  proof -
    have "unat ?w \<le> 5" using length_varint32 [of ?n] by (simp add: unat_of_nat)
    moreover have "unat (- 1 - ?w) = unat (- 1 :: u32) - unat ?w" by (rule unat_sub) simp
    ultimately show ?thesis by (simp add: unsigned_minus_1_eq_mask mask_eq_exp_minus_1)
  qed
  then have "\<not> ?n > - 1 - ?w" using un assms by (simp add: word_less_nat_alt)
  with 1 2 assms show "\<exists>s'. cmp_writeBinary str p = (Inr (of_nat (length (cmp_encString str)), ()), s') \<and>
      cmp_st c s' \<and> cmp_cont s' = cmp_cont p @ cmp_encString str \<and>
      cmp_room s' = cmp_room p - length (cmp_encString str)"
    by (simp add: cmp_writeBinary_def Let_def mbind_run mret_run cmp_encString_def)
qed

lemma cmp_string_r:
  assumes "length str \<le> 10485760"
  shows "cmp_cs.reads c c cmp_readBinary (cmp_encString str) str"
  unfolding cmp_readBinary_def cmp_encString_def
proof (rule cmp_cs.reads_xbind [OF cmp_varint32_r])
  let ?n = "of_nat (length str) :: u32"
  have n: "unat ?n = length str" "sint ?n = int (length str)"
    using assms by (simp_all add: unat_of_nat sint_small)
  have z: "?n = 0 \<longleftrightarrow> str = []" using n(1) by (metis length_0_conv unat_eq_0)
  have get: "cmp_cs.reads c c (xbind (cmp_get (length str)) (\<lambda>b. xret (string_of_bytes b)))
      (bytes_of_string str) str"
    using cmp_cs.reads_map [OF cmp_get_reads [of "bytes_of_string str" "length str"], of c string_of_bytes]
    by simp
  show "cmp_cs.reads c c (\<lambda>p. if ?n = 0 then xret [] p
       else if sint ?n < 0 then xfail (TProtocolException NEGATIVE_SIZE) p
       else if sint (cmp_string_limit p) > 0 \<and> sint ?n > sint (cmp_string_limit p)
       then xfail (TProtocolException SIZE_LIMIT) p
       else xbind (cmp_get (unat ?n)) (\<lambda>b. xret (string_of_bytes b)) p) (bytes_of_string str) str"
  proof (cases "str = []")
    case True
    then show ?thesis by (simp add: bytes_of_string_def cmp_cs.reads_xret)
  next
    case False
    then show ?thesis
      unfolding cmp_cs.reads_def z n using assms cmp_cs.readsD [OF get]
      by (auto simp: cmp_st_def MAX_STRING_LIMIT_def)
  qed
qed

interpretation cmp: thrift_codec cmp_st cmp_cont cmp_room compact_vt
  "\<lambda>l t i. cmp_encField l (ctype t) i" "[T_STOP]" cmp_encMap cmp_encList
  "\<lambda>x. [x]" cmp_encI16 "\<lambda>x. varint (i32ToZigzag x)" "\<lambda>x. varint (i64ToZigzag x)" be_bytes
  cmp_encString "\<lambda>n. n \<noteq> 0"
proof
  fix c l i j k v t n s
  show "cmp_st c s \<Longrightarrow> unread compact_vt s = length (cmp_cont s)"
    by (simp add: cmp_st_def cmp_cont_def unread_compact)
  show "cmp_cs.writes (l # c) (0 # l # c) (writeStructBegin compact_vt) []"
    unfolding compact_vt_sel cmp_writeStructBegin_def by (rule cmp_xmod_w) (simp add: cmp_st_def)
  show "cmp_cs.reads (l # c) (0 # l # c) (readStructBegin compact_vt) [] ()"
    unfolding compact_vt_sel cmp_readStructBegin_def by (rule cmp_xmod_r) (simp add: cmp_st_def)
  show "cmp_cs.writes (j # l # c) (l # c) (writeStructEnd compact_vt) []"
    by (auto simp: cmp_cs.writes_def cmp_structEnd_def cmp_st_def cmp_cont_def cmp_room_def split: list.splits)
  show "cmp_cs.reads (j # l # c) (l # c) (readStructEnd compact_vt) [] ()"
    by (auto simp: cmp_cs.reads_def cmp_structEnd_def cmp_st_def cmp_cont_def split: list.splits)
  show "t \<in> field_types \<Longrightarrow>
      cmp_cs.writes (l # c) (i # c) (writeFieldBegin compact_vt t i) (cmp_encField l (ctype t) i)"
    using cmp_fieldInternal_w [of "-1" t "ctype t" l c i]
    by (auto simp: cmp_writeFieldBegin_def getCompactType_ok field_types_def TType_defs)
  show "cmp_cs.reads c c (readFieldBegin compact_vt) [T_STOP] (T_STOP, 0)"
    unfolding compact_vt_sel cmp_readFieldBegin_def Let_def
    by (rule cmp_cs.reads_then_nil [OF cmp_byte_r]) (simp add: cmp_cs.reads_xret)
  show "cmp_cs.writes c c (writeI32 compact_vt x) (varint (i32ToZigzag x))" for x
    by (simp add: cmp_writeI32_def cmp_varint32_w)
  show "cmp_cs.writes c c (writeI64 compact_vt x) (varint (i64ToZigzag x))" for x
    by (simp add: cmp_writeI64_def cmp_varint64_w)
  show "cmp_cs.reads c c (readI32 compact_vt) (varint (i32ToZigzag x)) x" for x
    using cmp_cs.reads_map [OF cmp_varint32_r [of c "i32ToZigzag x"], of zigzagToI32] by (simp add: cmp_readI32_def)
  show "cmp_cs.reads c c (readI64 compact_vt) (varint (i64ToZigzag x)) x" for x
    using cmp_cs.reads_map [OF cmp_varint64_r [of c "i64ToZigzag x"], of zigzagToI64] by (simp add: cmp_readI64_def)
  show "cmp_cs.writes c c (writeDouble compact_vt x) (be_bytes x)" for x
  proof -
    obtain y where y: "htonll little_endian x = Inr y" using htonll_returns by blast
    show ?thesis
      unfolding compact_vt_sel cmp_writeDouble_def init_endian_little y xlift_Inr xbind_xret mem_bytes_htonll [OF y]
      by (rule cmp_put_writes) (simp add: be_bytes_ne)
  qed
  show "cmp_cs.reads c c (readDouble compact_vt) (be_bytes x) x" for x
    unfolding compact_vt_sel cmp_readDouble_def
    by (rule cmp_cs.reads_then_nil [OF cmp_get_reads]) (simp_all add: bytes cmp_cs.reads_xret)
  show "cmp_encField l (ctype t) i \<noteq> []" by (simp add: cmp_encField_def)
qed (simp_all add: cmp_cs.writes_xret cmp_cs.reads_xret cmp_byte_w cmp_byte_r cmp_writeFieldStop_def
    cmp_i16_w cmp_i16_r cmp_string_w cmp_string_r cmp_map_w cmp_map_r cmp_list_w cmp_list_r
    cmp_writeListBegin_def cmp_writeSetBegin_def cmp_readSetBegin_def cmp_fieldBegin_r)

section \<open>Properties\<close>

text \<open>Whatever bytes a compact protocol object is given, reading a header from them ends, by
  returning or by throwing a C++ exception; the field-id stack is never popped when empty, and on
  return the count is the number of bytes consumed.\<close>

theorem compact_header_read_safe:
  assumes "wf_buf (cmp_buf p)"
  shows "case base_header_read compact_vt h p of
           (Inl f, p') \<Rightarrow> (\<exists>x. f = Throw x)
         | (Inr (n, v), p') \<Rightarrow> wf_buf (cmp_buf p') \<and> unread compact_vt p' < unread compact_vt p \<and>
             n = of_nat (unread compact_vt p - unread compact_vt p')"
  using cmp_reader.header_read_safe [of "unread compact_vt p" 0 h] assms
  by (force simp: safe_def cmp_inv_def split: prod.splits sum.splits)

theorem compact_header_read_safe_witness:
  "case base_header_read compact_vt empty_header (compact_protocol_ctor (new_buf 8 True)) of
     (Inl f, p') \<Rightarrow> (\<exists>x. f = Throw x)
   | (Inr (n, v), p') \<Rightarrow> wf_buf (cmp_buf p') \<and>
       unread compact_vt p' < unread compact_vt (compact_protocol_ctor (new_buf 8 True)) \<and>
       n = of_nat (unread compact_vt (compact_protocol_ctor (new_buf 8 True)) - unread compact_vt p')"
  by (rule compact_header_read_safe) (simp add: compact_protocol_ctor_def new_buf_wf MAX_BYTE_BUF_LEN_def)

text \<open>A header within the limits, with a non-empty \<open>exten_info\<close> if that member is set, survives the
  trip through the compact protocol: any reader whose buffer starts with the bytes written reads
  an equal header and leaves exactly the bytes behind it.\<close>

theorem compact_header_roundtrip:
  assumes "cmp.header_ok h" and "wf_buf b" and "length (cmp.enc_header h) \<le> buf_room b"
  shows "\<exists>p'. base_header_write compact_vt h (compact_protocol_ctor b) =
             (Inr (of_nat (length (cmp.enc_header h)), ()), p') \<and>
           content (cmp_buf p') = content b @ cmp.enc_header h \<and>
           (\<forall>r rest. wf_buf r \<and> content r = cmp.enc_header h @ rest \<longrightarrow>
              (\<exists>h' q. base_header_read compact_vt empty_header (compact_protocol_ctor r) =
                 (Inr (of_nat (length (cmp.enc_header h)), h'), q) \<and>
                 header_eq h h' \<and> content (cmp_buf q) = rest))"
proof -
  let ?p = "compact_protocol_ctor b"
  have st: "cmp_st [0] (compact_protocol_ctor r)" if "wf_buf r" for r
    using that by (simp add: cmp_st_def compact_protocol_ctor_def)
  have "length (cmp.enc_header h) \<le> cmp_room ?p"
    using assms(3) by (simp add: cmp_room_def compact_protocol_ctor_def)
  from cmp_cs.writesD [OF cmp.header_writes [OF assms(1)] st [OF assms(2)] this] obtain p' where
    "base_header_write compact_vt h ?p = (Inr (of_nat (length (cmp.enc_header h)), ()), p')"
    "cmp_cont p' = cmp_cont ?p @ cmp.enc_header h" by blast
  moreover have "\<exists>h' q. base_header_read compact_vt empty_header (compact_protocol_ctor r) =
        (Inr (of_nat (length (cmp.enc_header h)), h'), q) \<and> header_eq h h' \<and> content (cmp_buf q) = rest"
    if "wf_buf r" "content r = cmp.enc_header h @ rest" for r rest
  proof -
    have "cmp_cont (compact_protocol_ctor r) = cmp.enc_header h @ rest"
      using that(2) by (simp add: cmp_cont_def compact_protocol_ctor_def)
    from cmp_cs.readsD [OF cmp.header_reads [OF assms(1)] st [OF that(1)] this] header_eq_norm [of h]
    show ?thesis by (auto simp: cmp_cont_def)
  qed
  ultimately show ?thesis by (auto simp: cmp_cont_def compact_protocol_ctor_def)
qed

lemma cmp_encString_length: "length (cmp_encString str) \<le> 5 + length str"
  using length_varint32 [of "of_nat (length str)"] by (simp add: cmp_encString_def)

lemma cmp_encField_length: "length (cmp_encField l t i) \<le> 6"
  using length_varint32 [of "i32ToZigzag (scast i)"] by (simp add: cmp_encField_def cmp_encI16_def)

lemma sample_header_compact_ok: "cmp.header_ok sample_header"
  by (simp add: cmp.header_ok_def sample_header_def empty_header_def smap_wf_def)

lemma sample_header_compact_length: "length (cmp.enc_header sample_header) < 200"
proof -
  have v: "length (varint (i32ToZigzag x)) \<le> 5" for x by (rule length_varint32)
  show ?thesis
    using v [of "0x1234"] cmp_encString_length [of "''ver_req''"] cmp_encString_length [of "''n1''"]
      cmp_encString_length [of "''a''"] cmp_encString_length [of "''b''"] cmp_encString_length [of "''k''"]
      cmp_encString_length [of "''v''"]
      cmp_encField_length [of 0 "ctype T_I32" 1] cmp_encField_length [of 1 "ctype T_STRING" 2]
      cmp_encField_length [of 2 "ctype T_STRING" 3] cmp_encField_length [of 3 "ctype T_LIST" 5]
      cmp_encField_length [of 5 "ctype T_MAP" 255] length_varint32 [of 1] length_varint32 [of 2]
    by (simp add: cmp.enc_header_def cmp.header_fields_def sample_header_def empty_header_def
        cmp.enc_path_def cmp.enc_exten_info_def cmp_encList_def cmp_encMap_def)
qed

theorem compact_header_roundtrip_witness:
  "\<exists>p'. base_header_write compact_vt sample_header (compact_protocol_ctor (new_buf DEFAULT_BUF_LEN True)) =
       (Inr (of_nat (length (cmp.enc_header sample_header)), ()), p') \<and>
     content (cmp_buf p') = cmp.enc_header sample_header \<and>
     (\<forall>r rest. wf_buf r \<and> content r = cmp.enc_header sample_header @ rest \<longrightarrow>
        (\<exists>h' q. base_header_read compact_vt empty_header (compact_protocol_ctor r) =
           (Inr (of_nat (length (cmp.enc_header sample_header)), h'), q) \<and>
           header_eq sample_header h' \<and> content (cmp_buf q) = rest))"
  using compact_header_roundtrip [OF sample_header_compact_ok new_buf_default_wf [of True]]
    sample_header_compact_length
  by (simp add: buf_room_def)

text \<open>An empty map does not survive: the compact protocol writes it as one zero byte, and reading a
  map header from that byte always throws, because the type code 0 of the missing key and value
  types is not one \<open>getTType\<close> knows.\<close>

theorem compact_empty_map_unreadable:
  assumes "wf_buf b" and "0 < buf_room b" and "wf_buf r" and "content r = 0 # rest"
  shows "(\<exists>p'. cmp_writeMapBegin k v 0 (compact_protocol_ctor b) = (Inr (1, ()), p') \<and>
            content (cmp_buf p') = content b @ [0]) \<and>
         fst (cmp_readMapBegin (compact_protocol_ctor r)) = Inl (Throw (TProtocolException UNKNOWN))"
proof
  have "cmp_st [0] (compact_protocol_ctor b)" "1 \<le> cmp_room (compact_protocol_ctor b)"
    using assms(1,2) by (simp_all add: cmp_st_def cmp_room_def compact_protocol_ctor_def)
  from cmp_cs.writesD [OF cmp_byte_w this(1), of 0] this(2)
  show "\<exists>p'. cmp_writeMapBegin k v 0 (compact_protocol_ctor b) = (Inr (1, ()), p') \<and>
      content (cmp_buf p') = content b @ [0]"
    by (auto simp: cmp_writeMapBegin_def cmp_cont_def compact_protocol_ctor_def)
next
  have z: "varint (0 :: u32) = [0]" by (simp add: varint_last)
  have st: "cmp_st [0] (compact_protocol_ctor r)" and c: "cmp_cont (compact_protocol_ctor r) = varint (0 :: u32) @ rest"
    using assms(3,4) by (simp_all add: cmp_st_def cmp_cont_def compact_protocol_ctor_def z)
  from cmp_cs.readsD [OF cmp_varint32_r st c] obtain p' where
    p': "cmp_readVarint32 (compact_protocol_ctor r) = (Inr (of_nat (length (varint (0 :: u32))), 0), p')"
    "cmp_st [0] p'" by blast
  have "cmp_check_size 0 p' = (Inr (0, ()), p')" using p'(2) by (simp add: cmp_check_size_def cmp_st_def MAX_CONTAINER_LIMIT_def)
  with p'(1) show "fst (cmp_readMapBegin (compact_protocol_ctor r)) = Inl (Throw (TProtocolException UNKNOWN))"
    by (simp add: cmp_readMapBegin_def xbind_run xseq_def xret_run getTType_def CT_defs T_STOP_def xfail_run)
qed

theorem compact_empty_map_unreadable_witness:
  "(\<exists>p'. cmp_writeMapBegin T_STRING T_STRING 0 (compact_protocol_ctor (new_buf DEFAULT_BUF_LEN True)) =
        (Inr (1, ()), p') \<and> content (cmp_buf p') = [0]) \<and>
   fst (cmp_readMapBegin (compact_protocol_ctor (copy_in [0] (new_buf DEFAULT_BUF_LEN True)))) =
     Inl (Throw (TProtocolException UNKNOWN))"
proof -
  let ?b = "new_buf DEFAULT_BUF_LEN True"
  have "m_write_ptr ?b + length [0 :: byte] \<le> m_write_bound ?b" by (simp add: new_buf_def)
  note c = copy_in_props [OF new_buf_default_wf this]
  show ?thesis
    using compact_empty_map_unreadable [OF new_buf_default_wf [of True] _ c(1), of "[]" T_STRING T_STRING] c(2)
    by (simp add: buf_room_def)
qed

text \<open>Zigzag varints are inverse to their readers for every 32- and 64-bit value, and never leave
  the five or ten bytes of the local array they are built in.\<close>

theorem varint_zigzag_roundtrip:
  "length (varint (i32ToZigzag x)) \<le> 5 \<and> length (varint (i64ToZigzag y)) \<le> 10 \<and>
   zigzagToI32 (i32ToZigzag x) = x \<and> zigzagToI64 (i64ToZigzag y) = y \<and>
   cmp_cs.reads c c cmp_readI32 (varint (i32ToZigzag x)) x \<and>
   cmp_cs.reads c c cmp_readI64 (varint (i64ToZigzag y)) y"
  using cmp.r_i32 [of c x] cmp.r_i64 [of c y] by (simp add: length_varint32 length_varint64)

end
