(* ===== verification/Matrix_Compress.thy ===== *)
theory Matrix_Compress
  imports Thrift_Compact
begin

text \<open>
  Capability negotiation (\<open>network/compress/matrix_capacity.cpp\<close>) and packet compression
  (\<open>network/compress/matrix_compress.cpp\<close>). The snappy library is a pair of parameters,
  \<open>snappy_compress\<close> and \<open>snappy_uncompress\<close>; what the code relies on is that the second inverts
  the first.
\<close>

section \<open>Capabilities\<close>

definition THRIFT_BINARY_PROTO :: i32 where "THRIFT_BINARY_PROTO = 0"
definition THRIFT_COMPACT_PROTO :: i32 where "THRIFT_COMPACT_PROTO = 1"

definition THRIFT_BINARY_C_NAME :: string where "THRIFT_BINARY_C_NAME = ''thrift_binary''"
definition THRIFT_COMPACT_C_NAME :: string where "THRIFT_COMPACT_C_NAME = ''thrift_compact''"
definition SNAPPY_RAW_C_NAME :: string where "SNAPPY_RAW_C_NAME = ''snappy_raw''"

record matrix_capacity =
  m_thrift_binary :: bool
  m_thrift_compact :: bool
  m_snappy_raw :: bool

definition default_capacity :: matrix_capacity where
  "default_capacity = \<lparr>m_thrift_binary = True, m_thrift_compact = False, m_snappy_raw = False\<rparr>"

definition capacity_add :: "string \<Rightarrow> matrix_capacity \<Rightarrow> matrix_capacity" where
  "capacity_add c m =
     (let m1 = (if contains_str c THRIFT_BINARY_C_NAME then m\<lparr>m_thrift_binary := True\<rparr> else m);
          m2 = (if contains_str c THRIFT_COMPACT_C_NAME then m1\<lparr>m_thrift_compact := True\<rparr> else m1)
      in if contains_str c SNAPPY_RAW_C_NAME then m2\<lparr>m_snappy_raw := True\<rparr> else m2)"

definition capacity_to_string :: "matrix_capacity \<Rightarrow> string" where
  "capacity_to_string m =
     (let c1 = (if m_thrift_binary m then THRIFT_BINARY_C_NAME else []);
          c2 = (if m_thrift_compact m
                then (if c1 \<noteq> [] then c1 @ '';'' else c1) @ THRIFT_COMPACT_C_NAME else c1)
      in if m_snappy_raw m then (if c2 \<noteq> [] then c2 @ '';'' else c2) @ SNAPPY_RAW_C_NAME else c2)"

definition capacity_thrift_proto :: "matrix_capacity \<Rightarrow> matrix_capacity \<Rightarrow> i32" where
  "capacity_thrift_proto a b =
     (if m_thrift_compact a \<and> m_thrift_compact b then THRIFT_COMPACT_PROTO else THRIFT_BINARY_PROTO)"

definition capacity_compress_enabled :: "matrix_capacity \<Rightarrow> matrix_capacity \<Rightarrow> bool" where
  "capacity_compress_enabled a b \<longleftrightarrow> m_snappy_raw a \<and> m_snappy_raw b"

lemmas C_NAME_defs = THRIFT_BINARY_C_NAME_def THRIFT_COMPACT_C_NAME_def SNAPPY_RAW_C_NAME_def

lemma capacity_add_to_string:
  "capacity_add (capacity_to_string m) default_capacity = m\<lparr>m_thrift_binary := True\<rparr>"
  by (cases m, case_tac m_thrift_binary; case_tac m_thrift_compact; case_tac m_snappy_raw)
     (simp_all add: capacity_add_def capacity_to_string_def default_capacity_def C_NAME_defs)

section \<open>Compression\<close>

definition PACKET_HEADER_LEN :: nat where "PACKET_HEADER_LEN = 8"
definition PACKET_LEN_FIELD_OFFSET :: nat where "PACKET_LEN_FIELD_OFFSET = 4"
definition COMPRESS :: byte where "COMPRESS = 1"
definition MIN_MSG_LEN_TO_COMPRESS :: int where "MIN_MSG_LEN_TO_COMPRESS = 256"

text \<open>\<open>*((uint32_t*)(p + off))\<close>; a load outside the allocation is undefined behaviour.\<close>

definition load32 :: "nat \<Rightarrow> (byte_buf, u32) M" where
  "load32 off b =
     (if m_read_ptr b + off + 4 \<le> length (m_buf b)
      then (Inr (le_word (memcpy_from (m_read_ptr b + off) 4 (m_buf b))), b)
      else (Inl Undefined_behaviour, b))"

text \<open>A block in \<open>try \<dots> catch (std::length_error)\<close> that makes the function return false.\<close>

definition try_length :: "('s, unit) M \<Rightarrow> ('s, bool) M" where
  "try_length m s =
     (case m s of
        (Inr _, s') \<Rightarrow> (Inr True, s')
      | (Inl f, s') \<Rightarrow> (if f = Throw Length_error then (Inr False, s') else (Inl f, s')))"

definition put_buf :: "byte list \<Rightarrow> (byte_buf, unit) M" where
  "put_buf bs = mbind (write_to_byte_buf bs) (\<lambda>_. mret ())"

definition compress :: "(byte list \<Rightarrow> byte list) \<Rightarrow> (byte_buf, bool) M" where
  "compress snappy_compress inout =
     (let in_msg_len = get_valid_read_len inout
      in mbind (load32 PACKET_LEN_FIELD_OFFSET) (\<lambda>proto_type.
           let q = (mem_bytes proto_type)[2 := COMPRESS]
           in if unat in_msg_len < PACKET_HEADER_LEN then mfail Undefined_behaviour
              else let ctext = snappy_compress
                         (memcpy_from (m_read_ptr inout + PACKET_HEADER_LEN)
                            (unat in_msg_len - PACKET_HEADER_LEN) (m_buf inout));
                       out_msg_len = (of_nat (PACKET_HEADER_LEN + length ctext) :: u32)
                   in mbind (mmodify reset) (\<lambda>_.
                        try_length (mbind (put_buf (mem_bytes (hton32 out_msg_len))) (\<lambda>_.
                                    mbind (put_buf q) (\<lambda>_. put_buf ctext))))) inout)"

definition has_compress_flag :: "(byte_buf, bool) M" where
  "has_compress_flag =
     mbind (load32 PACKET_LEN_FIELD_OFFSET) (\<lambda>proto_type.
       mret (drop_bit 8 (hton32 proto_type) AND 1 \<noteq> 0))"

text \<open>\<open>in\<close> is only read; the state of the computation is \<open>out\<close>.\<close>

definition uncompress :: "(byte list \<Rightarrow> byte list option) \<Rightarrow> byte_buf \<Rightarrow> (byte_buf, bool) M" where
  "uncompress snappy_uncompress inb out =
     (case has_compress_flag inb of
        (Inl f, _) \<Rightarrow> (Inl f, out)
      | (Inr flag, _) \<Rightarrow>
          if \<not> flag then (Inr False, out)
          else case (load32 0 inb, load32 PACKET_LEN_FIELD_OFFSET inb) of
            ((Inr len_net, _), (Inr type_net, _)) \<Rightarrow>
              (let len = get_valid_read_len inb; packet_len = hton32 len_net
               in if len \<noteq> packet_len then (Inr False, out)
                  else if unat len < PACKET_HEADER_LEN then (Inl Undefined_behaviour, out)
                  else case snappy_uncompress
                              (memcpy_from (m_read_ptr inb + PACKET_HEADER_LEN)
                                 (unat len - PACKET_HEADER_LEN) (m_buf inb)) of
                    None \<Rightarrow> (Inr False, out)
                  | Some text \<Rightarrow>
                      (let msg_len = (of_nat (PACKET_HEADER_LEN + length text) :: u32);
                           proto_type = hton32 (hton32 type_net AND 0xFFFF00FF)
                       in mbind (put_buf (mem_bytes (hton32 msg_len))) (\<lambda>_.
                          mbind (put_buf (mem_bytes proto_type)) (\<lambda>_.
                          try_length (put_buf text))) out))
          | _ \<Rightarrow> (Inl Undefined_behaviour, out))"

section \<open>Compression is inverted by decompression\<close>

lemma put_buf_ok:
  assumes "wf_buf b" and "std_buf b" and "bs \<noteq> []" and "length (content b) + length bs < 10485760"
  shows "\<exists>b'. put_buf bs b = (Inr (), b') \<and> wf_buf b' \<and> std_buf b' \<and> content b' = content b @ bs"
  using std_append [OF assms] by (auto simp: put_buf_def mbind_Inr mret_run)

lemma memcpy_from_content:
  assumes "wf_buf b" and "off + n \<le> length (content b)"
  shows "memcpy_from (m_read_ptr b + off) n (m_buf b) = take n (drop off (content b))"
  using assms(2) length_content [OF assms(1)]
  by (simp add: memcpy_from_def content_def drop_take add.commute min_def)

lemma load32_ok:
  assumes "wf_buf b" and "off + 4 \<le> length (content b)"
  shows "load32 off b = (Inr (le_word (take 4 (drop off (content b)))), b)"
proof -
  have "m_read_ptr b + off + 4 \<le> length (m_buf b)"
    using assms(2) length_content [OF assms(1)] assms(1) unfolding wf_buf_unat by linarith
  then show ?thesis using memcpy_from_content [OF assms] by (simp add: load32_def)
qed

lemma mem_le_word4: "length bs = 4 \<Longrightarrow> mem_bytes (le_word bs :: u32) = bs"
  by (simp add: mem_bytes_def le_bytes_le_word)

lemma put_three_ok:
  assumes "wf_buf b" "std_buf b" "xs \<noteq> []" "ys \<noteq> []" "zs \<noteq> []"
    and "length (content b) + length xs + length ys + length zs < 10485760"
  shows "\<exists>b'. mbind (put_buf xs) (\<lambda>_. mbind (put_buf ys) (\<lambda>_. put_buf zs)) b = (Inr (), b') \<and>
           wf_buf b' \<and> std_buf b' \<and> content b' = content b @ xs @ ys @ zs"
proof -
  from put_buf_ok [OF assms(1-3)] assms(6) obtain b1 where
    1: "put_buf xs b = (Inr (), b1)" "wf_buf b1" "std_buf b1" "content b1 = content b @ xs" by auto
  from put_buf_ok [OF 1(2,3) assms(4)] 1(4) assms(6) obtain b2 where
    2: "put_buf ys b1 = (Inr (), b2)" "wf_buf b2" "std_buf b2" "content b2 = content b1 @ ys" by auto
  from put_buf_ok [OF 2(2,3) assms(5)] 1(4) 2(4) assms(6) obtain b3 where
    "put_buf zs b2 = (Inr (), b3)" "wf_buf b3" "std_buf b3" "content b3 = content b2 @ zs" by auto
  with 1 2 show ?thesis by (simp add: mbind_Inr)
qed

text \<open>What \<open>compress\<close> leaves in the buffer: new length, type with the flag byte set, compressed rest.\<close>

definition compressed :: "(byte list \<Rightarrow> byte list) \<Rightarrow> byte list \<Rightarrow> byte list" where
  "compressed sc bs =
     be_bytes (of_nat (8 + length (sc (drop 8 bs))) :: u32) @ (take 4 (drop 4 bs))[2 := 1] @ sc (drop 8 bs)"

lemma compress_ok:
  assumes "wf_buf b" "std_buf b" "8 \<le> length (content b)" "sc (drop 8 (content b)) \<noteq> []"
    and "8 + length (sc (drop 8 (content b))) < 10485760"
  shows "\<exists>b'. compress sc b = (Inr True, b') \<and> wf_buf b' \<and> std_buf b' \<and>
           content b' = compressed sc (content b)"
proof -
  let ?ct = "sc (drop 8 (content b))" and ?q = "(take 4 (drop 4 (content b)))[2 := 1]"
  let ?n = "be_bytes (of_nat (8 + length ?ct) :: u32)"
  have l: "load32 4 b = (Inr (le_word (take 4 (drop 4 (content b)))), b)"
    using load32_ok [OF assms(1), of 4] assms(3) by simp
  have q: "(mem_bytes (le_word (take 4 (drop 4 (content b))) :: u32))[2 := 1] = ?q"
    using assms(3) by (simp add: mem_le_word4)
  have v: "unat (get_valid_read_len b) = length (content b)" by (rule unat_valid_read_len [OF assms(1)])
  have m: "memcpy_from (m_read_ptr b + 8) (length (content b) - 8) (m_buf b) = drop 8 (content b)"
    using memcpy_from_content [OF assms(1), of 8 "length (content b) - 8"] assms(3) by simp
  have ne: "?q \<noteq> []" using assms(3) by simp
  have "length (content (reset b)) + length ?n + length ?q + length ?ct < 10485760"
    using assms(3,5) by simp
  from put_three_ok [OF reset_props(1) [OF assms(1)] reset_std [OF assms(2)] _ ne assms(4) this]
  obtain b' where
    "mbind (put_buf ?n) (\<lambda>_. mbind (put_buf ?q) (\<lambda>_. put_buf ?ct)) (reset b) = (Inr (), b')"
    "wf_buf b'" "std_buf b'" "content b' = compressed sc (content b)"
    by (auto simp: compressed_def be_bytes_ne)
  with l q v m assms(3) show ?thesis
    by (simp add: compress_def PACKET_LEN_FIELD_OFFSET_def PACKET_HEADER_LEN_def COMPRESS_def Let_def
        mbind_run mmodify_run try_length_def mem_bytes_hton32)
qed

lemma be_word4: "(be_word [a, b, c, d] :: u32) = le_word [d, c, b, a]"
  by (simp add: be_word_def)

lemma bit_le_word4:
  "bit (le_word [d, c, b, a] :: u32) i \<longleftrightarrow> i < 32 \<and>
     (if i < 8 then bit d i else if i < 16 then bit c (i - 8)
      else if i < 24 then bit b (i - 16) else bit a (i - 24))"
  by (auto simp: bit_simps byte_bit_high)

lemma flag_bit: "drop_bit 8 (be_word [a, b, c, d] :: u32) AND 1 \<noteq> 0 \<longleftrightarrow> bit c 0"
proof -
  have "drop_bit 8 (be_word [a, b, c, d] :: u32) AND 1 = (if bit (be_word [a, b, c, d] :: u32) 8 then 1 else 0)"
    by (simp add: and_one_eq mod_2_eq_odd bit_iff_odd_drop_bit)
  then show ?thesis by (simp add: be_word4 bit_le_word4 del: le_word.simps)
qed

lemma clear_flag_byte: "be_bytes ((be_word [a, b, c, d] :: u32) AND 0xFFFF00FF) = [a, b, 0, d]"
proof -
  have m: "bit (0xFFFF00FF :: u32) i \<longleftrightarrow> i < 8 \<or> 16 \<le> i \<and> i < 32" for i
  proof -
    have "(0xFFFF00FF :: u32) = NOT (push_bit 8 (mask 8))" by (simp add: mask_eq_exp_minus_1)
    then show ?thesis
      by (simp only: bit_not_iff bit_push_bit_iff bit_mask_iff possible_bit_word) auto
  qed
  have "(be_word [a, b, c, d] :: u32) AND 0xFFFF00FF = be_word [a, b, 0, d]"
    unfolding be_word4
    by (rule bit_word_eqI, unfold bit_and_iff m bit_le_word4) (auto split: if_splits)
  then show ?thesis by (simp add: be_bytes_be_word)
qed

text \<open>What \<open>uncompress\<close> makes of a packet with the flag set whose length field is right.\<close>

lemma uncompress_ok:
  assumes inb: "wf_buf inb" "content inb = be_bytes (of_nat (8 + length ct) :: u32) @ [a, b, c, d] @ ct"
    and len: "8 + length ct < 4294967296" and flag: "bit c 0"
    and dec: "su ct = Some text" "text \<noteq> []" "8 + length text < 10485760"
    and out: "wf_buf out" "std_buf out" "content out = []"
  shows "\<exists>out'. uncompress su inb out = (Inr True, out') \<and> wf_buf out' \<and> std_buf out' \<and>
           content out' = be_bytes (of_nat (8 + length text) :: u32) @ [a, b, 0, d] @ text"
proof -
  have lc: "length (content inb) = 8 + length ct" by (simp add: inb(2))
  have l0: "load32 0 inb = (Inr (le_word (be_bytes (of_nat (8 + length ct) :: u32))), inb)"
    using load32_ok [OF inb(1), of 0] lc by (simp add: inb(2))
  have l4: "load32 4 inb = (Inr (le_word [a, b, c, d]), inb)"
    using load32_ok [OF inb(1), of 4] lc by (simp add: inb(2) del: le_word.simps)
  have h4: "hton32 (le_word [a, b, c, d]) = be_word [a, b, c, d]" by (rule hton32_le_word) simp
  have h0: "hton32 (le_word (be_bytes (of_nat (8 + length ct) :: u32))) = of_nat (8 + length ct)"
    by (simp add: hton32_le_word be_word_be_bytes)
  have fl: "has_compress_flag inb = (Inr True, inb)"
    using l4 flag flag_bit [of a b c d] h4
    by (simp add: has_compress_flag_def PACKET_LEN_FIELD_OFFSET_def mbind_run mret_run del: le_word.simps)
  have v: "get_valid_read_len inb = of_nat (8 + length ct)" using valid_read_len_content [OF inb(1)] lc by simp
  have uv: "unat (of_nat (8 + length ct) :: u32) = 8 + length ct" using len by (rule unat_of_nat32)
  have m: "memcpy_from (m_read_ptr inb + 8) (length ct) (m_buf inb) = ct"
    using memcpy_from_content [OF inb(1), of 8 "length ct"] lc by (simp add: inb(2))
  let ?n = "be_bytes (of_nat (8 + length text) :: u32)"
  have "length (content out) + length ?n + length [a, b, 0, d] + length text < 10485760"
    using dec(3) out(3) by simp
  from put_three_ok [OF out(1,2) _ _ dec(2) this] obtain out' where
    w: "mbind (put_buf ?n) (\<lambda>_. mbind (put_buf [a, b, 0, d]) (\<lambda>_. put_buf text)) out = (Inr (), out')"
    and o': "wf_buf out'" "std_buf out'" "content out' = ?n @ [a, b, 0, d] @ text"
    using out(3) by (auto simp: be_bytes_ne)
  have "mbind (put_buf ?n) (\<lambda>_. mbind (put_buf [a, b, 0, d]) (\<lambda>_. try_length (put_buf text))) out =
      (Inr True, out')"
    using w by (auto simp: mbind_run try_length_def split: prod.splits sum.splits)
  moreover have "mem_bytes (hton32 (be_word [a, b, c, d] AND 0xFFFF00FF)) = [a, b, 0, d]"
    by (simp add: mem_bytes_hton32 clear_flag_byte)
  ultimately have "uncompress su inb out = (Inr True, out')"
    using fl l0 l4 h0 h4 v uv m dec(1)
    by (simp add: uncompress_def PACKET_LEN_FIELD_OFFSET_def PACKET_HEADER_LEN_def Let_def mem_bytes_hton32
        del: le_word.simps of_nat_add)
  with o' show ?thesis by blast
qed

section \<open>Properties\<close>

text \<open>A packet whose length field is its size and whose compression byte is clear comes back
  unchanged from \<open>compress\<close> followed by \<open>uncompress\<close>, provided snappy decompresses what it
  compressed and the results fit the buffers.\<close>

theorem compress_uncompress_roundtrip:
  assumes "wf_buf b" and "std_buf b"
    and "content b = be_bytes (of_nat (8 + length body) :: u32) @ [a0, a1, 0, a3] @ body"
    and "body \<noteq> []" and "8 + length body < 10485760"
    and "8 + length (snappy_compress body) < 10485760" and "snappy_compress body \<noteq> []"
    and "snappy_uncompress (snappy_compress body) = Some body"
  shows "\<exists>b' out'. compress snappy_compress b = (Inr True, b') \<and>
           has_compress_flag b' = (Inr True, b') \<and>
           uncompress snappy_uncompress b' (new_buf DEFAULT_BUF_LEN True) = (Inr True, out') \<and>
           content out' = content b"
proof -
  have d8: "drop 8 (content b) = body" and t4: "take 4 (drop 4 (content b)) = [a0, a1, 0, a3]"
    by (simp_all add: assms(3))
  have scl: "8 + length (snappy_compress body) < 4294967296" using assms(6) by simp
  have ne: "snappy_compress (drop 8 (content b)) \<noteq> []" and lt: "8 + length (snappy_compress (drop 8 (content b))) < 10485760"
    using assms(6,7) d8 by auto
  have "8 \<le> length (content b)" by (simp add: assms(3))
  from compress_ok [of b snappy_compress, OF assms(1,2) this ne lt] obtain b' where
    1: "compress snappy_compress b = (Inr True, b')" "wf_buf b'"
      "content b' = compressed snappy_compress (content b)" by blast
  have c: "content b' = be_bytes (of_nat (8 + length (snappy_compress body)) :: u32) @ [a0, a1, 1, a3] @ snappy_compress body"
    using 1(3) by (simp add: compressed_def d8 t4)
  from uncompress_ok [where su = snappy_uncompress and out = "new_buf DEFAULT_BUF_LEN True",
      OF 1(2) c scl _ assms(8,4,5)]
  obtain out' where
    2: "uncompress snappy_uncompress b' (new_buf DEFAULT_BUF_LEN True) = (Inr True, out')"
      "content out' = content b" by (auto simp: assms(3))
  have "load32 4 b' = (Inr (le_word [a0, a1, 1, a3]), b')"
    using load32_ok [OF 1(2), of 4] by (simp add: c del: le_word.simps)
  then have "has_compress_flag b' = (Inr True, b')"
    using flag_bit [of a0 a1 1 a3] hton32_le_word [of "[a0, a1, 1, a3]"]
    by (simp add: has_compress_flag_def PACKET_LEN_FIELD_OFFSET_def mbind_run mret_run del: le_word.simps)
  with 1(1) 2 show ?thesis by blast
qed

text \<open>The library functions can have the assumed behaviour: a length byte is enough for an example.\<close>

theorem compress_uncompress_roundtrip_witness:
  "\<exists>b' out'. compress (\<lambda>x. 1 # x) (copy_in [0, 0, 0, 10, 0, 0, 0, 1, 7, 9] (new_buf DEFAULT_BUF_LEN True)) =
       (Inr True, b') \<and> has_compress_flag b' = (Inr True, b') \<and>
     uncompress (\<lambda>x. case x of [] \<Rightarrow> None | _ # y \<Rightarrow> Some y) b' (new_buf DEFAULT_BUF_LEN True) = (Inr True, out') \<and>
     content out' = [0, 0, 0, 10, 0, 0, 0, 1, 7, 9]"
proof -
  let ?b = "new_buf DEFAULT_BUF_LEN True" and ?p = "[0, 0, 0, 10, 0, 0, 0, 1, 7, 9] :: byte list"
  have "m_write_ptr ?b + length ?p \<le> m_write_bound ?b" by (simp add: new_buf_def)
  note c = copy_in_props [OF new_buf_default_wf this]
  have "std_buf (copy_in ?p ?b)" using new_buf_std by (simp add: std_buf_def copy_in_def Let_def)
  moreover have "be_bytes (of_nat (8 + length [7, 9 :: byte]) :: u32) = [0, 0, 0, 10]"
    by (simp add: be_bytes32)
  ultimately show ?thesis
    using compress_uncompress_roundtrip [OF c(1), of "[7, 9]" 0 0 1 "\<lambda>x. 1 # x"
        "\<lambda>x. case x of [] \<Rightarrow> None | _ # y \<Rightarrow> Some y"] c(2) by simp
qed

text \<open>(C35) Two nodes that exchange their capability strings agree on the thrift protocol and on
  compression: each decides from its own capabilities and from what it parsed of the other's
  string, and both decisions are the same.\<close>

theorem capability_negotiation_agrees:
  "capacity_thrift_proto a (capacity_add (capacity_to_string b) default_capacity) =
     capacity_thrift_proto b (capacity_add (capacity_to_string a) default_capacity) \<and>
   capacity_compress_enabled a (capacity_add (capacity_to_string b) default_capacity) =
     capacity_compress_enabled b (capacity_add (capacity_to_string a) default_capacity) \<and>
   (capacity_thrift_proto a (capacity_add (capacity_to_string b) default_capacity) = THRIFT_COMPACT_PROTO) =
     (m_thrift_compact a \<and> m_thrift_compact b)"
  by (auto simp: capacity_add_to_string capacity_thrift_proto_def capacity_compress_enabled_def
      THRIFT_BINARY_PROTO_def THRIFT_COMPACT_PROTO_def)

end
