(* ===== verification/Matrix_Coder.thy ===== *)
theory Matrix_Coder
  imports Net_Message Matrix_Compress
begin

text \<open>
  The message coder: \<open>message/protocol_coder/matrix_coder.{h,cpp}\<close> and the decoding part of
  \<open>length_field_frame_decoder.h\<close>. A packet is an 8-byte header (total length, protocol type), the
  service header \<open>base_header\<close> and the body of the message. The classes of message bodies are the
  template argument of \<open>decode_invoke\<close> and \<open>encode_invoke\<close>: here a type \<open>'b\<close> with a \<open>body_codec\<close>, their
  \<open>read\<close> and \<open>write\<close> over each of the two protocols.
\<close>

section \<open>State\<close>

text \<open>The connection settings (\<open>variables_map\<close>) the coder looks at; an absent key is \<open>None\<close>.\<close>

record coder_args =
  ENABLE_COMPRESS :: "bool option"
  THRIFT_PROTO :: "i32 option"
  LOCAL_NODE_ID :: "string option"

definition get_compress_enabled :: "coder_args \<Rightarrow> bool" where
  "get_compress_enabled vm = (case ENABLE_COMPRESS vm of Some b \<Rightarrow> b | None \<Rightarrow> False)"

definition get_thrift_proto :: "coder_args \<Rightarrow> i32" where
  "get_thrift_proto vm = (case THRIFT_PROTO vm of Some p \<Rightarrow> p | None \<Rightarrow> THRIFT_BINARY_PROTO)"

definition get_local_node_id :: "coder_args \<Rightarrow> string" where
  "get_local_node_id vm = (case LOCAL_NODE_ID vm of Some i \<Rightarrow> i | None \<Rightarrow> [])"

text \<open>
  The content of a message: a forwarded packet (\<open>msg_forward\<close>: the header and the raw bytes behind
  it) or an instance of a registered message class, named by its class.
\<close>

datatype 'b msg_content = Msg_forward base_header byte_buf | Msg_body string base_header 'b

record 'b message =
  message_name :: string
  message_content :: "'b msg_content option"

definition new_message :: "'b message" where
  "new_message = \<lparr>message_name = ''unknown message'', message_content = None\<rparr>"

definition BINARY_FORWARD_MSG :: string where
  "BINARY_FORWARD_MSG = ''binary_forward_message''"

record 'b body_codec =
  read_bin :: "string \<Rightarrow> (binary_protocol, 'b) X"
  write_bin :: "string \<Rightarrow> 'b \<Rightarrow> (binary_protocol, unit) X"
  read_cmp :: "string \<Rightarrow> (compact_protocol, 'b) X"
  write_cmp :: "string \<Rightarrow> 'b \<Rightarrow> (compact_protocol, unit) X"

text \<open>
  \<open>m_decode_protos\<close>: one object per protocol, kept for the life of the coder. Their buffer pointer
  is set by \<open>init_buf\<close> before each use.
\<close>

record coder_protos =
  proto_bin :: binary_protocol
  proto_cmp :: compact_protocol

definition init_decode_proto :: coder_protos where
  "init_decode_proto =
     \<lparr>proto_bin = binary_protocol_ctor (new_buf 0 False), proto_cmp = compact_protocol_ctor (new_buf 0 False)\<rparr>"

datatype proto_kind = Binary_proto | Compact_proto

definition get_protocol :: "i32 \<Rightarrow> proto_kind option" where
  "get_protocol type =
     (if type = THRIFT_BINARY_PROTO then Some Binary_proto
      else if type = THRIFT_COMPACT_PROTO then Some Compact_proto
      else None)"

definition decode_invokers :: "string list" where
  "decode_invokers =
     [''ver_req'', ''ver_resp'', ''shake_hand_req'', ''shake_hand_resp'', ''get_peer_nodes_req'',
      ''get_peer_nodes_resp'', ''peer_nodes_broadcast_req'', ''node_list_images_req'',
      ''node_list_images_rsp'', ''node_download_image_req'', ''node_download_image_rsp'',
      ''node_download_image_progress_req'', ''node_download_image_progress_rsp'',
      ''node_stop_download_image_req'', ''node_stop_download_image_rsp'',
      ''node_upload_image_req'', ''node_upload_image_rsp'', ''node_upload_image_progress_req'',
      ''node_upload_image_progress_rsp'', ''node_stop_upload_image_req'',
      ''node_stop_upload_image_rsp'', ''node_delete_image_req'', ''node_delete_image_rsp'',
      ''node_create_task_req'', ''node_create_task_rsp'', ''node_start_task_req'',
      ''node_start_task_rsp'', ''node_shutdown_task_req'', ''node_shutdown_task_rsp'',
      ''node_poweroff_task_req'', ''node_poweroff_task_rsp'', ''node_stop_task_req'',
      ''node_stop_task_rsp'', ''node_restart_task_req'', ''node_restart_task_rsp'',
      ''node_reset_task_req'', ''node_reset_task_rsp'', ''node_delete_task_req'',
      ''node_delete_task_rsp'', ''node_list_task_req'', ''node_list_task_rsp'',
      ''node_task_logs_req'', ''node_task_logs_rsp'', ''node_modify_task_req'',
      ''node_modify_task_rsp'', ''node_passwd_task_req'', ''node_passwd_task_rsp'',
      ''node_query_node_info_req'', ''node_query_node_info_rsp'', ''service_broadcast_req'',
      ''node_session_id_req'', ''node_session_id_rsp'', ''node_free_memory_req'',
      ''node_free_memory_rsp'', ''node_list_snapshot_req'', ''node_list_snapshot_rsp'',
      ''node_create_snapshot_req'', ''node_create_snapshot_rsp'', ''node_delete_snapshot_req'',
      ''node_delete_snapshot_rsp'', ''node_list_disk_req'', ''node_list_disk_rsp'',
      ''node_resize_disk_req'', ''node_resize_disk_rsp'', ''node_add_disk_req'',
      ''node_add_disk_rsp'', ''node_delete_disk_req'', ''node_delete_disk_rsp'',
      ''node_list_monitor_server_req'', ''node_list_monitor_server_rsp'',
      ''node_set_monitor_server_req'', ''node_set_monitor_server_rsp'', ''node_list_lan_req'',
      ''node_list_lan_rsp'', ''node_create_lan_req'', ''node_create_lan_rsp'',
      ''node_delete_lan_req'', ''node_delete_lan_rsp'']"

definition encode_invokers :: "string list" where
  "encode_invokers =
     [''ver_req'', ''ver_resp'', ''shake_hand_req'', ''shake_hand_resp'', ''get_peer_nodes_req'',
      ''get_peer_nodes_resp'', ''peer_nodes_broadcast_req'', ''node_list_images_req'',
      ''node_list_images_rsp'', ''node_download_image_req'', ''node_download_image_rsp'',
      ''node_download_image_progress_req'', ''node_download_image_progress_rsp'',
      ''node_stop_download_image_req'', ''node_stop_download_image_rsp'',
      ''node_upload_image_req'', ''node_upload_image_rsp'', ''node_upload_image_progress_req'',
      ''node_upload_image_progress_rsp'', ''node_stop_upload_image_req'',
      ''node_stop_upload_image_rsp'', ''node_delete_image_req'', ''node_delete_image_rsp'',
      ''node_create_task_req'', ''node_create_task_rsp'', ''node_start_task_req'',
      ''node_start_task_rsp'', ''node_shutdown_task_req'', ''node_shutdown_task_rsp'',
      ''node_poweroff_task_req'', ''node_poweroff_task_rsp'', ''node_stop_task_req'',
      ''node_stop_task_rsp'', ''node_restart_task_req'', ''node_restart_task_rsp'',
      ''node_reset_task_req'', ''node_reset_task_rsp'', ''node_delete_task_req'',
      ''node_delete_task_rsp'', ''node_list_task_req'', ''node_list_task_rsp'',
      ''node_task_logs_req'', ''node_task_logs_rsp'', ''node_modify_task_req'',
      ''node_modify_task_rsp'', ''node_passwd_task_req'', ''node_passwd_task_rsp'',
      ''node_query_node_info_req'', ''node_query_node_info_rsp'', ''service_broadcast_req'',
      ''node_session_id_req'', ''node_session_id_rsp'', ''node_free_memory_req'',
      ''node_free_memory_rsp'', ''node_list_snapshot_req'', ''node_list_snapshot_rsp'',
      ''node_create_snapshot_req'', ''node_create_snapshot_rsp'', ''node_delete_snapshot_req'',
      ''node_delete_snapshot_rsp'', ''node_list_disk_req'', ''node_list_disk_rsp'',
      ''node_resize_disk_req'', ''node_resize_disk_rsp'', ''node_add_disk_req'',
      ''node_add_disk_rsp'', ''node_delete_disk_req'', ''node_delete_disk_rsp'',
      ''node_list_monitor_server_req'', ''node_list_monitor_server_rsp'',
      ''node_set_monitor_server_req'', ''node_set_monitor_server_rsp'', ''node_list_lan_req'',
      ''node_list_lan_rsp'', ''node_create_lan_req'', ''node_create_lan_rsp'',
      ''node_delete_lan_req'', ''node_delete_lan_rsp'']"

section \<open>The packet header\<close>

record matrix_packet_header =
  packet_len :: i32
  packet_type :: i32

definition packet_header_write :: "matrix_packet_header \<Rightarrow> (byte_buf, unit) M" where
  "packet_header_write h =
     mbind (put_buf (mem_bytes (hton32 (packet_len h)))) (\<lambda>_. put_buf (mem_bytes (hton32 (packet_type h))))"

text \<open>\<open>memcpy\<close> to the read pointer; outside the allocation it is undefined behaviour.\<close>

definition store32 :: "nat \<Rightarrow> u32 \<Rightarrow> (byte_buf, unit) M" where
  "store32 off w b =
     (if m_read_ptr b + off + 4 \<le> length (m_buf b)
      then (Inr (), b\<lparr>m_buf := memcpy_to (m_read_ptr b + off) (mem_bytes w) (m_buf b)\<rparr>)
      else (Inl Undefined_behaviour, b))"

definition packet_header_update :: "matrix_packet_header \<Rightarrow> (byte_buf, bool) M" where
  "packet_header_update h out =
     (if packet_len h \<noteq> get_valid_read_len out \<and> packet_len h \<noteq> get_valid_write_len out
      then (Inr False, out)
      else mbind (store32 0 (hton32 (packet_len h))) (\<lambda>_.
           mbind (store32 4 (hton32 (packet_type h))) (\<lambda>_. mret True)) out)"

definition packet_header_read :: "(byte_buf, matrix_packet_header) M" where
  "packet_header_read b =
     (if get_valid_read_len b < 8 then (Inl Abort, b)
      else mbind (load32 0) (\<lambda>len. mbind (load32 4) (\<lambda>type.
           mbind (move_read_ptr 8) (\<lambda>_.
           mret \<lparr>packet_len = hton32 len, packet_type = hton32 type\<rparr>))) b)"

section \<open>Decoding\<close>

definition legacy_none_forwarding_messages :: "string list" where
  "legacy_none_forwarding_messages =
     [''ver_req'', ''ver_resp'', ''shake_hand_req'', ''shake_hand_resp'', ''get_peer_nodes_req'',
      ''get_peer_nodes_resp'', ''service_broadcast_req'']"

definition forward_condition :: "coder_args \<Rightarrow> base_header \<Rightarrow> bool" where
  "forward_condition vm header \<longleftrightarrow>
     get_local_node_id vm \<noteq> [] \<and>
     msg_name header \<notin> set legacy_none_forwarding_messages \<and>
     (case smap_lookup (exten_info header) ''dest_id'' of
        None \<Rightarrow> False
      | Some dest \<Rightarrow> \<not> contains_str dest (get_local_node_id vm))"

text \<open>\<open>setb\<close> updates the buffer a protocol object points to.\<close>

definition decode_fast_forward ::
  "'s protocol \<Rightarrow> ((byte_buf \<Rightarrow> byte_buf) \<Rightarrow> 's \<Rightarrow> 's) \<Rightarrow> coder_args \<Rightarrow> 'b message \<Rightarrow> base_header \<Rightarrow>
     ('s, decode_status \<times> 'b message) M" where
  "decode_fast_forward prot setb vm msg header s =
     (if \<not> forward_condition vm header then (Inr (DECODERR_SUCCESS, msg), s)
      else let buf = get_buf prot s; n = get_valid_read_len buf
           in case write_to_byte_buf (memcpy_from (m_read_ptr buf) (unat n) (m_buf buf))
                     (new_buf DEFAULT_BUF_LEN True) of
                (Inl f, _) \<Rightarrow> (Inl f, s)
              | (Inr _, body) \<Rightarrow>
                  mbind (mlift (get_buf prot) setb (move_read_ptr n)) (\<lambda>_.
                    mret (DECODERR_SUCCESS,
                          msg\<lparr>message_content := Some (Msg_forward header body),
                              message_name := BINARY_FORWARD_MSG\<rparr>)) s)"

definition decode_service_frame ::
  "'s protocol \<Rightarrow> ((byte_buf \<Rightarrow> byte_buf) \<Rightarrow> 's \<Rightarrow> 's) \<Rightarrow> (string \<Rightarrow> ('s, 'b) X) \<Rightarrow> coder_args \<Rightarrow> 'b message \<Rightarrow>
     ('s, decode_status \<times> 'b message) M" where
  "decode_service_frame prot setb body_read vm msg =
     mbind (base_header_read prot empty_header) (\<lambda>(_, header).
     mbind (decode_fast_forward prot setb vm msg header) (\<lambda>(rtn, msg1).
       if rtn \<noteq> DECODERR_SUCCESS then mret (rtn, msg1)
       else if message_name msg1 = BINARY_FORWARD_MSG then mret (DECODERR_SUCCESS, msg1)
       else if msg_name header \<notin> set decode_invokers then mret (DECODE_UNKNOWN_MSG, msg1)
       else mbind (body_read (msg_name header)) (\<lambda>(_, body).
              mret (DECODERR_SUCCESS,
                    msg1\<lparr>message_content := Some (Msg_body (msg_name header) header body),
                         message_name := msg_name header\<rparr>))))"

type_synonym coder_state = "coder_protos \<times> byte_buf"

definition on_buf :: "(byte_buf, 'a) M \<Rightarrow> (coder_state, 'a) M" where
  "on_buf = mlift snd (\<lambda>f (a, b). (a, f b))"

text \<open>\<open>proto->init_buf(&decode_in)\<close> and a computation on the protocol object.\<close>

definition with_bin :: "(binary_protocol, 'a) M \<Rightarrow> (coder_state, 'a) M" where
  "with_bin m = (\<lambda>(ps, b). case m ((proto_bin ps)\<lparr>bin_buf := b\<rparr>) of (r, p) \<Rightarrow> (r, (ps\<lparr>proto_bin := p\<rparr>, bin_buf p)))"

definition with_cmp :: "(compact_protocol, 'a) M \<Rightarrow> (coder_state, 'a) M" where
  "with_cmp m = (\<lambda>(ps, b). case m ((proto_cmp ps)\<lparr>cmp_buf := b\<rparr>) of (r, p) \<Rightarrow> (r, (ps\<lparr>proto_cmp := p\<rparr>, cmp_buf p)))"

text \<open>\<open>catch (...)\<close>: every exception becomes the given result.\<close>

definition mcatch :: "'a \<Rightarrow> ('s, 'a) M \<Rightarrow> ('s, 'a) M" where
  "mcatch x m s = (case m s of (Inl (Throw _), s') \<Rightarrow> (Inr x, s') | r \<Rightarrow> r)"

text \<open>The optional first step; the value says whether decoding goes on.\<close>

definition uncompress_step :: "(byte list \<Rightarrow> byte list option) \<Rightarrow> (byte_buf, bool) M" where
  "uncompress_step snappy_uncompress =
     mbind has_compress_flag (\<lambda>flag inb.
       if \<not> flag then (Inr True, inb)
       else case uncompress snappy_uncompress inb (new_buf DEFAULT_BUF_LEN True) of
              (Inl f, _) \<Rightarrow> (Inl f, inb)
            | (Inr ok, out) \<Rightarrow> (if ok then (Inr True, out) else (Inr False, inb)))"

text \<open>The rest of \<open>decode_frame\<close>, once the packet header is read.\<close>

definition decode_packet ::
  "'b body_codec \<Rightarrow> coder_args \<Rightarrow> 'b message \<Rightarrow> u32 \<Rightarrow> matrix_packet_header \<Rightarrow>
     (coder_state, decode_status \<times> 'b message) M" where
  "decode_packet bc vm msg before_decode_len packet_header =
     (case get_protocol (packet_type packet_header AND 0xFF) of
        None \<Rightarrow> mret (DECODE_ERROR, msg)
      | Some kind \<Rightarrow>
          mbind (case kind of
                   Binary_proto \<Rightarrow> with_bin (decode_service_frame binary_vt bin_buf_update (read_bin bc) vm msg)
                 | Compact_proto \<Rightarrow> with_cmp (decode_service_frame compact_vt cmp_buf_update (read_cmp bc) vm msg))
            (\<lambda>(decodeRet, msg').
             if decodeRet = DECODERR_SUCCESS
             then mbind (mget (\<lambda>s. get_valid_read_len (snd s))) (\<lambda>after.
                    let framelen = before_decode_len - after
                    in if packet_len packet_header \<noteq> framelen then mret (DECODE_ERROR, msg')
                       else mret (decodeRet, msg'))
             else mret (decodeRet, msg')))"

definition decode_frame ::
  "(byte list \<Rightarrow> byte list option) \<Rightarrow> 'b body_codec \<Rightarrow> coder_args \<Rightarrow> 'b message \<Rightarrow>
     (coder_state, decode_status \<times> 'b message) M" where
  "decode_frame snappy_uncompress bc vm msg =
     mcatch (DECODE_ERROR, msg)
       (mbind (on_buf (uncompress_step snappy_uncompress)) (\<lambda>ok.
          if \<not> ok then mret (DECODE_ERROR, msg)
          else mbind (mget (\<lambda>s. get_valid_read_len (snd s))) (\<lambda>before_decode_len.
               mbind (on_buf packet_header_read) (decode_packet bc vm msg before_decode_len))))"

text \<open>
  \<open>length_field_frame_decoder::decode\<close>, on the queue of received messages. \<open>front\<close> of an empty
  list is undefined behaviour; the caller asks \<open>has_complete_message\<close> first.
\<close>

definition get_unadjusted_frame_length :: "nat \<Rightarrow> nat \<Rightarrow> (byte_buf, u64) M" where
  "get_unadjusted_frame_length offset n b =
     (if n \<notin> {1, 2, 4, 8} then (Inl (Throw Invalid_argument), b)
      else if m_read_ptr b + offset + n > length (m_buf b) then (Inl Undefined_behaviour, b)
      else let bs = memcpy_from (m_read_ptr b + offset) n (m_buf b)
           in if n = 1 then (Inr (ucast (le_word bs :: u8)), b)
              else if n = 2 then (Inr (ucast (hton16 (le_word bs))), b)
              else if n = 4 then (Inr (ucast (hton32 (le_word bs))), b)
              else (htonll init_endian_type (le_word bs), b))"

definition MATRIX_MSG_MIN_READ_LENGTH :: u32 where "MATRIX_MSG_MIN_READ_LENGTH = 8"

definition decode ::
  "(byte list \<Rightarrow> byte list option) \<Rightarrow> 'b body_codec \<Rightarrow> coder_args \<Rightarrow> 'b message \<Rightarrow>
     (coder_protos \<times> net_message list, decode_status \<times> 'b message) M" where
  "decode snappy_uncompress bc vm msg = (\<lambda>(ps, ms).
     case ms of
       [] \<Rightarrow> (Inl Undefined_behaviour, (ps, ms))
     | net_msg # rest \<Rightarrow>
         let stream = m_msg_stream net_msg
         in if \<not> msg_complete net_msg then (Inr (DECODE_NEED_MORE_DATA, msg), (ps, rest @ [net_msg]))
            else if get_valid_read_len stream < MATRIX_MSG_MIN_READ_LENGTH
            then (Inr (DECODE_ERROR, msg), (ps, ms))
            else case get_unadjusted_frame_length 0 4 stream of
                   (Inl f, _) \<Rightarrow> (Inl f, (ps, ms))
                 | (Inr flen, _) \<Rightarrow>
                     if flen > of_int MAX_MATRIX_MSG_LEN then (Inr (DECODE_ERROR, msg), (ps, ms))
                     else if ucast (get_valid_read_len stream) < flen
                     then (Inr (DECODE_NEED_MORE_DATA, msg), (ps, ms))
                     else if flen < of_int MIN_MATRIX_MSG_CODE_LEN then (Inr (DECODE_ERROR, msg), (ps, ms))
                     else case decode_frame snappy_uncompress bc vm msg (ps, stream) of
                            (Inl f, (ps', stream')) \<Rightarrow> (Inl f, (ps', net_msg\<lparr>m_msg_stream := stream'\<rparr> # rest))
                          | (Inr r, (ps', stream')) \<Rightarrow> (Inr r, (ps', rest)))"

section \<open>Encoding\<close>

datatype encode_status = ENCODERR_SUCCESS | BUFFER_IS_NOT_ENOUGH_TO_ENCODE | ENCODE_ERROR

text \<open>
  The part that depends on the protocol. A content that is not of the class its name is bound to
  makes \<open>dynamic_pointer_cast\<close> return null, which \<open>encode_invoke\<close> dereferences.
\<close>

definition encode_content ::
  "'s protocol \<Rightarrow> (string \<Rightarrow> 'b \<Rightarrow> ('s, unit) X) \<Rightarrow> 'b message \<Rightarrow> ('s, bool) M" where
  "encode_content prot body_write msg =
     (case message_content msg of
        Some (Msg_forward header body) \<Rightarrow>
          mbind (base_header_write prot header) (\<lambda>_.
          mbind (append_raw prot (memcpy_from (m_read_ptr body) (unat (get_valid_read_len body)) (m_buf body)))
            (\<lambda>_. mret True))
      | c \<Rightarrow>
          if message_name msg \<notin> set encode_invokers then mret False
          else (case c of
                  Some (Msg_body ty header body) \<Rightarrow>
                    if ty = message_name msg
                    then mbind (base_header_write prot header) (\<lambda>_.
                         mbind (body_write ty body) (\<lambda>_. mret True))
                    else mfail Undefined_behaviour
                | _ \<Rightarrow> mfail Undefined_behaviour))"

definition encode ::
  "(byte list \<Rightarrow> byte list) \<Rightarrow> 'b body_codec \<Rightarrow> coder_args \<Rightarrow> 'b message \<Rightarrow> (coder_state, encode_status) M" where
  "encode snappy_compress bc vm msg =
     mcatch ENCODE_ERROR
       (mbind (on_buf (packet_header_write \<lparr>packet_len = 0, packet_type = 0\<rparr>)) (\<lambda>_.
        let enable_compress = get_compress_enabled vm; thrift_proto = get_thrift_proto vm
        in case get_protocol thrift_proto of
             None \<Rightarrow> mret ENCODE_ERROR
           | Some kind \<Rightarrow>
               mbind (case kind of
                        Binary_proto \<Rightarrow> with_bin (encode_content binary_vt (write_bin bc) msg)
                      | Compact_proto \<Rightarrow> with_cmp (encode_content compact_vt (write_cmp bc) msg)) (\<lambda>known.
               if \<not> known then mret ENCODE_ERROR
               else mbind (mget (\<lambda>s. get_valid_read_len (snd s))) (\<lambda>len.
                    mbind (on_buf (packet_header_update \<lparr>packet_len = len, packet_type = thrift_proto\<rparr>)) (\<lambda>ok.
                    if \<not> ok then mret ENCODE_ERROR
                    else if enable_compress \<and> sint len \<ge> MIN_MSG_LEN_TO_COMPRESS
                    then mbind (on_buf (compress snappy_compress)) (\<lambda>ok.
                         mret (if ok then ENCODERR_SUCCESS else ENCODE_ERROR))
                    else mret ENCODERR_SUCCESS)))))"

section \<open>Packets\<close>

lemma on_buf_run: "on_buf m (ps, b) = (case m b of (r, b') \<Rightarrow> (r, (ps, b')))"
  by (simp add: on_buf_def mlift_def split: prod.splits)

text \<open>A packet on the wire: total length, protocol type, service header and body.\<close>

definition packet :: "i32 \<Rightarrow> byte list \<Rightarrow> byte list" where
  "packet type payload = be_bytes (of_nat (8 + length payload) :: u32) @ be_bytes type @ payload"

lemma length_packet [simp]: "length (packet t p) = 8 + length p"
  by (simp add: packet_def)

lemma store32_ok:
  assumes wf: "wf_buf b" and off: "off + 4 \<le> length (content b)"
  shows "\<exists>b'. store32 off w b = (Inr (), b') \<and> wf_buf b' \<and> (std_buf b \<longrightarrow> std_buf b') \<and>
           content b' = memcpy_to off (mem_bytes w) (content b)"
proof -
  let ?rp = "m_read_ptr b" and ?mb = "m_buf b"
  let ?b' = "b\<lparr>m_buf := memcpy_to (?rp + off) (mem_bytes w) ?mb\<rparr>"
  note lc = length_content [OF wf]
  have le: "?rp + off + 4 \<le> m_read_bound b" "m_read_bound b \<le> length ?mb" "?rp \<le> length ?mb"
    using off lc wf unfolding wf_buf_unat by linarith+
  then have "store32 off w b = (Inr (), ?b')" by (simp add: store32_def)
  moreover have "wf_buf ?b'" using wf le by (simp add: wf_buf_def)
  moreover have "content ?b' = memcpy_to off (mem_bytes w) (content b)"
  proof -
    have "drop ?rp (memcpy_to (?rp + off) (mem_bytes w) ?mb) =
        take off (drop ?rp ?mb) @ mem_bytes w @ drop (off + 4) (drop ?rp ?mb)"
      using le by (simp add: memcpy_to_def drop_take ac_simps)
    moreover obtain n where n: "m_read_bound b = ?rp + off + 4 + n" using le(1) le_Suc_ex by blast
    ultimately show ?thesis
      using le by (simp add: content_def memcpy_to_def min_def drop_take add.commute)
  qed
  moreover have "std_buf b \<longrightarrow> std_buf ?b'" by (simp add: std_buf_def)
  ultimately show ?thesis by blast
qed

lemma packet_header_write_ok:
  assumes "wf_buf b0" "std_buf b0" "content b0 = []"
  shows "\<exists>b. packet_header_write \<lparr>packet_len = 0, packet_type = 0\<rparr> b0 = (Inr (), b) \<and>
     wf_buf b \<and> std_buf b \<and> length (content b) = 8"
proof -
  let ?z = "mem_bytes (hton32 0)"
  have z: "?z \<noteq> []" "length ?z = 4" by (simp_all add: mem_bytes_hton32 be_bytes_ne)
  from put_buf_ok [OF assms(1,2) z(1)] z(2) assms(3) obtain b1 where
    1: "put_buf ?z b0 = (Inr (), b1)" "wf_buf b1" "std_buf b1" "content b1 = ?z" by auto
  from put_buf_ok [OF 1(2,3) z(1)] 1(4) z(2) obtain b2 where
    "put_buf ?z b1 = (Inr (), b2)" "wf_buf b2" "std_buf b2" "content b2 = ?z @ ?z" by auto
  with 1 z show ?thesis by (simp add: packet_header_write_def mbind_Inr)
qed

text \<open>The update writes the length and the type over the eight bytes reserved for them.\<close>

lemma packet_header_update_ok:
  assumes wf: "wf_buf b" and c: "content b = hdr @ payload" and h: "length hdr = 8"
  shows "\<exists>b'. packet_header_update \<lparr>packet_len = get_valid_read_len b, packet_type = type\<rparr> b = (Inr True, b') \<and>
           wf_buf b' \<and> (std_buf b \<longrightarrow> std_buf b') \<and> content b' = packet type payload"
proof -
  have n: "get_valid_read_len b = of_nat (8 + length payload)"
    using valid_read_len_content [OF wf] c h by (simp add: add.commute)
  let ?w = "hton32 (of_nat (8 + length payload))"
  have "0 + 4 \<le> length (content b)" using c h by simp
  from store32_ok [OF wf this] obtain b1 where
    1: "store32 0 ?w b = (Inr (), b1)" "wf_buf b1" "std_buf b \<longrightarrow> std_buf b1" "content b1 = memcpy_to 0 (mem_bytes ?w) (content b)" by blast
  have c1: "content b1 = be_bytes (of_nat (8 + length payload) :: u32) @ drop 4 hdr @ payload"
    using 1(4) c h by (simp add: memcpy_to_def mem_bytes_hton32)
  have "4 + 4 \<le> length (content b1)" using c1 h by simp
  from store32_ok [OF 1(2) this] obtain b2 where
    2: "store32 4 (hton32 type) b1 = (Inr (), b2)" "wf_buf b2" "std_buf b1 \<longrightarrow> std_buf b2"
      "content b2 = memcpy_to 4 (mem_bytes (hton32 type)) (content b1)" by blast
  have "content b2 = packet type payload"
    using 2(4) c1 h by (simp add: memcpy_to_def packet_def mem_bytes_hton32)
  with 1 2 n show ?thesis
    by (simp add: packet_header_update_def mbind_Inr mret_run del: of_nat_add)
qed

lemma packet_header_read_ok:
  assumes wf: "wf_buf b" and c: "content b = packet type payload"
  shows "\<exists>b'. packet_header_read b =
           (Inr \<lparr>packet_len = of_nat (8 + length payload), packet_type = type\<rparr>, b') \<and>
           wf_buf b' \<and> content b' = payload"
proof -
  have l: "8 \<le> length (content b)" using c by simp
  then have "\<not> get_valid_read_len b < 8"
    using unat_valid_read_len [OF wf] by (simp add: word_less_nat_alt)
  moreover have "load32 0 b = (Inr (le_word (be_bytes (of_nat (8 + length payload) :: u32))), b)"
    using load32_ok [OF wf, of 0] l by (simp add: c packet_def)
  moreover have "load32 4 b = (Inr (le_word (be_bytes type)), b)"
    using load32_ok [OF wf, of 4] l by (simp add: c packet_def)
  moreover have "hton32 (le_word (be_bytes x)) = x" for x
    by (simp add: hton32_le_word be_word_be_bytes)
  moreover from move_read_ptr_ok [OF wf, of 8] l obtain b' where
    "move_read_ptr 8 b = (Inr (), b')" "wf_buf b'" "content b' = payload" by (auto simp: c packet_def)
  ultimately show ?thesis by (auto simp: packet_header_read_def mbind_Inr mret_run)
qed

lemma no_compress_flag:
  assumes "wf_buf b" and "content b = packet type payload" and "type AND 0xFF00 = 0"
  shows "uncompress_step su b = (Inr True, b)"
proof -
  have l: "4 + 4 \<le> length (content b)" using assms(2) by simp
  have "load32 4 b = (Inr (le_word (be_bytes type)), b)"
    using load32_ok [OF assms(1) l] by (simp add: assms(2) packet_def)
  moreover have "hton32 (le_word (be_bytes type)) = type" by (simp add: hton32_le_word be_word_be_bytes)
  moreover have "drop_bit 8 type AND 1 = 0"
  proof -
    have "\<not> bit (type AND 0xFF00) 8" using assms(3) by simp
    then have "\<not> bit type 8" by (simp add: bit_and_iff)
    then show ?thesis by (simp add: and_one_eq mod_2_eq_odd bit_iff_odd_drop_bit)
  qed
  ultimately show ?thesis
    by (simp add: uncompress_step_def has_compress_flag_def PACKET_LEN_FIELD_OFFSET_def mbind_run mret_run)
qed

section \<open>A message through the coder and back\<close>

lemma invokers_same: "decode_invokers = encode_invokers"
  by (simp add: decode_invokers_def encode_invokers_def)

lemma mcatch_Inr: "m s = (Inr x, s') \<Longrightarrow> mcatch y m s = (Inr x, s')"
  by (simp add: mcatch_def)

text \<open>The parts that run on a protocol object, for any protocol that keeps the laws of the codec.\<close>

context thrift_codec
begin

lemma enc_header_ne [simp]: "enc_header h \<noteq> []"
  using length_enc_fields [of "map fst (header_fields h)" 0] by (auto simp: enc_header_def)

lemma encode_content_body:
  assumes "header_ok h" and "ty \<in> set encode_invokers" and "writes (l # c) (l # c) (wr ty body) bs"
    and p: "st (l # c) p" and space: "length (enc_header h @ bs) \<le> room p"
  shows "\<exists>p'. encode_content prot wr \<lparr>message_name = ty, message_content = Some (Msg_body ty h body)\<rparr> p =
           (Inr True, p') \<and> st (l # c) p' \<and> cont p' = cont p @ enc_header h @ bs \<and>
           room p' = room p - length (enc_header h @ bs)"
proof -
  have "length (enc_header h) \<le> room p" using space by simp
  from writesD [OF header_writes [OF assms(1)] p this] obtain p1 where
    1: "base_header_write prot h p = (Inr (of_nat (length (enc_header h)), ()), p1)" "st (l # c) p1"
      "cont p1 = cont p @ enc_header h" "room p1 = room p - length (enc_header h)"
    by blast
  have "length bs \<le> room p1" using space 1(4) by simp
  from writesD [OF assms(3) 1(2) this] obtain p2 where
    2: "wr ty body p1 = (Inr (of_nat (length bs), ()), p2)" "st (l # c) p2" "cont p2 = cont p1 @ bs"
      "room p2 = room p1 - length bs"
    by blast
  from 1 2 assms(2) show ?thesis by (simp add: encode_content_def mbind_Inr mret_run)
qed

lemma decode_service_frame_body:
  assumes "header_ok h" and "\<not> forward_condition vm (norm_header h)" and "msg_name h \<in> set decode_invokers"
    and "reads (l # c) (l # c) (rd (msg_name h)) bs body"
    and p: "st (l # c) p" and "cont p = enc_header h @ bs @ rest"
  shows "\<exists>p'. decode_service_frame prot setb rd vm new_message p =
           (Inr (DECODERR_SUCCESS, \<lparr>message_name = msg_name h,
              message_content = Some (Msg_body (msg_name h) (norm_header h) body)\<rparr>), p') \<and>
           st (l # c) p' \<and> cont p' = rest"
proof -
  from readsD [OF header_reads [OF assms(1)] p assms(6)] obtain p1 where
    1: "base_header_read prot empty_header p = (Inr (of_nat (length (enc_header h)), norm_header h), p1)"
      "st (l # c) p1" "cont p1 = bs @ rest" by blast
  from readsD [OF assms(4) 1(2,3)] obtain p2 where
    2: "rd (msg_name h) p1 = (Inr (of_nat (length bs), body), p2)" "st (l # c) p2" "cont p2 = rest" by blast
  have "msg_name (norm_header h) = msg_name h" by (simp add: norm_header_def)
  with 1 2 assms(2,3) show ?thesis
    by (simp add: decode_service_frame_def decode_fast_forward_def mbind_Inr mret_run new_message_def
        BINARY_FORWARD_MSG_def)
qed

end

text \<open>
  The protocol objects are kept between messages: whatever happened before, their limits are those
  of the constructor and no boolean is pending.
\<close>

definition protos_ok :: "coder_protos \<Rightarrow> bool" where
  "protos_ok ps \<longleftrightarrow>
     (\<forall>b. wf_buf b \<longrightarrow> bin_st [0] ((proto_bin ps)\<lparr>bin_buf := b\<rparr>)) \<and>
     (\<forall>b. wf_buf b \<longrightarrow> (\<exists>l c. cmp_st (l # c) ((proto_cmp ps)\<lparr>cmp_buf := b\<rparr>)))"

lemma protos_ok_init [simp]: "protos_ok init_decode_proto"
  by (simp add: protos_ok_def init_decode_proto_def binary_protocol_ctor_def compact_protocol_ctor_def
      bin_st_def cmp_st_def)

lemma protos_ok_upd_bin: "protos_ok ps \<Longrightarrow> bin_st c p \<Longrightarrow> protos_ok (ps\<lparr>proto_bin := p\<rparr>)"
  by (simp add: protos_ok_def bin_st_def)

lemma protos_ok_upd_cmp: "protos_ok ps \<Longrightarrow> cmp_st (l # c) p \<Longrightarrow> protos_ok (ps\<lparr>proto_cmp := p\<rparr>)"
  by (simp add: protos_ok_def cmp_st_def)

text \<open>The wire format of header and body under each protocol, and the contract of a message class.\<close>

definition enc_message :: "proto_kind \<Rightarrow> base_header \<Rightarrow> byte list \<Rightarrow> byte list" where
  "enc_message kind h bs =
     (case kind of Binary_proto \<Rightarrow> bin.enc_header h @ bs | Compact_proto \<Rightarrow> cmp.enc_header h @ bs)"

definition header_ok_for :: "proto_kind \<Rightarrow> base_header \<Rightarrow> bool" where
  "header_ok_for kind h = (case kind of Binary_proto \<Rightarrow> bin.header_ok h | Compact_proto \<Rightarrow> cmp.header_ok h)"

definition body_writes :: "'b body_codec \<Rightarrow> proto_kind \<Rightarrow> string \<Rightarrow> 'b \<Rightarrow> byte list \<Rightarrow> bool" where
  "body_writes bc kind ty body bs =
     (case kind of
        Binary_proto \<Rightarrow> (\<forall>l c. bin_cs.writes (l # c) (l # c) (write_bin bc ty body) bs)
      | Compact_proto \<Rightarrow> (\<forall>l c. cmp_cs.writes (l # c) (l # c) (write_cmp bc ty body) bs))"

definition body_reads :: "'b body_codec \<Rightarrow> proto_kind \<Rightarrow> string \<Rightarrow> byte list \<Rightarrow> 'b \<Rightarrow> bool" where
  "body_reads bc kind ty bs body =
     (case kind of
        Binary_proto \<Rightarrow> (\<forall>l c. bin_cs.reads (l # c) (l # c) (read_bin bc ty) bs body)
      | Compact_proto \<Rightarrow> (\<forall>l c. cmp_cs.reads (l # c) (l # c) (read_cmp bc ty) bs body))"

definition body_ok :: "'b body_codec \<Rightarrow> proto_kind \<Rightarrow> string \<Rightarrow> 'b \<Rightarrow> byte list \<Rightarrow> bool" where
  "body_ok bc kind ty body bs \<longleftrightarrow> body_writes bc kind ty body bs \<and> body_reads bc kind ty bs body"

definition proto_type :: "proto_kind \<Rightarrow> i32" where
  "proto_type kind = (case kind of Binary_proto \<Rightarrow> THRIFT_BINARY_PROTO | Compact_proto \<Rightarrow> THRIFT_COMPACT_PROTO)"

lemma get_protocol_type: "get_protocol t = Some kind \<longleftrightarrow> t = proto_type kind"
  by (auto simp: get_protocol_def proto_type_def THRIFT_BINARY_PROTO_def THRIFT_COMPACT_PROTO_def
      split: proto_kind.splits)

lemma encode_run:
  assumes "protos_ok ps" "header_ok_for kind h" "ty \<in> set encode_invokers" "body_writes bc kind ty body bs"
    and "wf_buf b" "length (enc_message kind h bs) < buf_room b"
  shows "\<exists>ps' b'. (case kind of
             Binary_proto \<Rightarrow> with_bin (encode_content binary_vt (write_bin bc)
               \<lparr>message_name = ty, message_content = Some (Msg_body ty h body)\<rparr>)
           | Compact_proto \<Rightarrow> with_cmp (encode_content compact_vt (write_cmp bc)
               \<lparr>message_name = ty, message_content = Some (Msg_body ty h body)\<rparr>)) (ps, b) = (Inr True, (ps', b')) \<and>
           protos_ok ps' \<and> wf_buf b' \<and> std_buf b' \<and> content b' = content b @ enc_message kind h bs"
proof (cases kind)
  case Binary_proto
  let ?p = "(proto_bin ps)\<lparr>bin_buf := b\<rparr>"
  have st: "bin_st [0] ?p" using assms(1,5) by (simp add: protos_ok_def)
  have w: "bin_cs.writes [0] [0] (write_bin bc ty body) bs" and ok: "bin.header_ok h"
    using assms(2,4) Binary_proto by (simp_all add: body_writes_def header_ok_for_def)
  have sp: "length (bin.enc_header h @ bs) < bin_room ?p"
    using assms(6) Binary_proto by (simp add: bin_room_def enc_message_def)
  from bin.encode_content_body [where wr = "write_bin bc", OF ok assms(3) w st less_imp_le [OF sp]] obtain p' where
    p': "encode_content binary_vt (write_bin bc) \<lparr>message_name = ty, message_content = Some (Msg_body ty h body)\<rparr> ?p =
        (Inr True, p')" "bin_st [0] p'" "bin_cont p' = bin_cont ?p @ bin.enc_header h @ bs"
      "bin_room p' = bin_room ?p - length (bin.enc_header h @ bs)" by blast
  have "std_buf (bin_buf p')" using p'(4) sp by (auto simp: bin_room_def buf_room_def split: if_splits)
  moreover have "content (bin_buf p') = content b @ enc_message kind h bs" "wf_buf (bin_buf p')"
    using p'(2,3) Binary_proto by (simp_all add: bin_cont_def enc_message_def bin_st_def)
  ultimately show ?thesis
    using p'(1) protos_ok_upd_bin [OF assms(1) p'(2)] Binary_proto by (simp add: with_bin_def)
next
  case Compact_proto
  let ?p = "(proto_cmp ps)\<lparr>cmp_buf := b\<rparr>"
  obtain l c where st: "cmp_st (l # c) ?p" using assms(1,5) by (auto simp: protos_ok_def)
  have w: "cmp_cs.writes (l # c) (l # c) (write_cmp bc ty body) bs" and ok: "cmp.header_ok h"
    using assms(2,4) Compact_proto by (simp_all add: body_writes_def header_ok_for_def)
  have sp: "length (cmp.enc_header h @ bs) < cmp_room ?p"
    using assms(6) Compact_proto by (simp add: cmp_room_def enc_message_def)
  from cmp.encode_content_body [where wr = "write_cmp bc", OF ok assms(3) w st less_imp_le [OF sp]] obtain p' where
    p': "encode_content compact_vt (write_cmp bc) \<lparr>message_name = ty, message_content = Some (Msg_body ty h body)\<rparr> ?p =
        (Inr True, p')" "cmp_st (l # c) p'" "cmp_cont p' = cmp_cont ?p @ cmp.enc_header h @ bs"
      "cmp_room p' = cmp_room ?p - length (cmp.enc_header h @ bs)" by blast
  have "std_buf (cmp_buf p')" using p'(4) sp by (auto simp: cmp_room_def buf_room_def split: if_splits)
  moreover have "content (cmp_buf p') = content b @ enc_message kind h bs" "wf_buf (cmp_buf p')"
    using p'(2,3) Compact_proto by (simp_all add: cmp_cont_def enc_message_def cmp_st_def)
  ultimately show ?thesis
    using p'(1) protos_ok_upd_cmp [OF assms(1) p'(2)] Compact_proto by (simp add: with_cmp_def)
qed

lemma decode_run:
  assumes "protos_ok ps" "header_ok_for kind h" "\<not> forward_condition vm (norm_header h)"
    and "msg_name h \<in> set encode_invokers" "body_reads bc kind (msg_name h) bs body"
    and "wf_buf b" "content b = enc_message kind h bs"
  shows "\<exists>ps' b'. (case kind of
             Binary_proto \<Rightarrow> with_bin (decode_service_frame binary_vt bin_buf_update (read_bin bc) vm new_message)
           | Compact_proto \<Rightarrow> with_cmp (decode_service_frame compact_vt cmp_buf_update (read_cmp bc) vm new_message))
           (ps, b) = (Inr (DECODERR_SUCCESS, \<lparr>message_name = msg_name h,
              message_content = Some (Msg_body (msg_name h) (norm_header h) body)\<rparr>), (ps', b')) \<and>
           protos_ok ps' \<and> wf_buf b' \<and> content b' = []"
proof (cases kind)
  case Binary_proto
  let ?p = "(proto_bin ps)\<lparr>bin_buf := b\<rparr>"
  have st: "bin_st [0] ?p" using assms(1,6) by (simp add: protos_ok_def)
  have r: "bin_cs.reads [0] [0] (read_bin bc (msg_name h)) bs body" and ok: "bin.header_ok h"
    and c: "bin_cont ?p = bin.enc_header h @ bs @ []"
    using assms(2,5,7) Binary_proto by (simp_all add: body_reads_def header_ok_for_def bin_cont_def enc_message_def)
  from bin.decode_service_frame_body [where rd = "read_bin bc" and setb = bin_buf_update,
      OF ok assms(3) assms(4)[folded invokers_same] r st c]
  obtain p' where
    p': "decode_service_frame binary_vt bin_buf_update (read_bin bc) vm new_message ?p =
        (Inr (DECODERR_SUCCESS, \<lparr>message_name = msg_name h,
              message_content = Some (Msg_body (msg_name h) (norm_header h) body)\<rparr>), p')"
      "bin_st [0] p'" "bin_cont p' = []" by blast
  then show ?thesis
    using protos_ok_upd_bin [OF assms(1) p'(2)] Binary_proto by (simp add: with_bin_def bin_cont_def bin_st_def)
next
  case Compact_proto
  let ?p = "(proto_cmp ps)\<lparr>cmp_buf := b\<rparr>"
  obtain l c where st: "cmp_st (l # c) ?p" using assms(1,6) by (auto simp: protos_ok_def)
  have r: "cmp_cs.reads (l # c) (l # c) (read_cmp bc (msg_name h)) bs body" and ok: "cmp.header_ok h"
    and c: "cmp_cont ?p = cmp.enc_header h @ bs @ []"
    using assms(2,5,7) Compact_proto by (simp_all add: body_reads_def header_ok_for_def cmp_cont_def enc_message_def)
  from cmp.decode_service_frame_body [where rd = "read_cmp bc" and setb = cmp_buf_update,
      OF ok assms(3) assms(4)[folded invokers_same] r st c]
  obtain p' where
    p': "decode_service_frame compact_vt cmp_buf_update (read_cmp bc) vm new_message ?p =
        (Inr (DECODERR_SUCCESS, \<lparr>message_name = msg_name h,
              message_content = Some (Msg_body (msg_name h) (norm_header h) body)\<rparr>), p')"
      "cmp_st (l # c) p'" "cmp_cont p' = []" by blast
  then show ?thesis
    using protos_ok_upd_cmp [OF assms(1) p'(2)] Compact_proto by (simp add: with_cmp_def cmp_cont_def cmp_st_def)
qed

text \<open>The bytes handed to the socket.\<close>

definition on_wire :: "(byte list \<Rightarrow> byte list) \<Rightarrow> coder_args \<Rightarrow> byte list \<Rightarrow> byte list" where
  "on_wire sc vm payload =
     (let p = packet (get_thrift_proto vm) payload
      in if get_compress_enabled vm \<and> 256 \<le> length p then compressed sc p else p)"

lemma encode_ok:
  assumes b0: "wf_buf b0" "std_buf b0" "content b0 = []" and "protos_ok ps" "get_protocol (get_thrift_proto vm) = Some kind" "header_ok_for kind h"
    and "ty \<in> set encode_invokers" "body_writes bc kind ty body bs"
    and "8 + length (enc_message kind h bs) < 10485759"
    and sc: "sc (enc_message kind h bs) \<noteq> []" "8 + length (sc (enc_message kind h bs)) < 10485760"
  shows "\<exists>ps' out. encode sc bc vm \<lparr>message_name = ty, message_content = Some (Msg_body ty h body)\<rparr>
             (ps, b0) = (Inr ENCODERR_SUCCESS, (ps', out)) \<and>
           protos_ok ps' \<and> wf_buf out \<and> std_buf out \<and> content out = on_wire sc vm (enc_message kind h bs)"
proof -
  let ?e = "enc_message kind h bs" and ?t = "get_thrift_proto vm"
  from packet_header_write_ok [OF b0] obtain b where
    b: "packet_header_write \<lparr>packet_len = 0, packet_type = 0\<rparr> b0 = (Inr (), b)"
      "wf_buf b" "std_buf b" "length (content b) = 8" by blast
  have "length ?e < buf_room b" using b assms(9) by (simp add: buf_room_def)
  from encode_run [OF assms(4,6,7,8) b(2) this] obtain ps' b1 where
    r: "(case kind of
             Binary_proto \<Rightarrow> with_bin (encode_content binary_vt (write_bin bc)
               \<lparr>message_name = ty, message_content = Some (Msg_body ty h body)\<rparr>)
           | Compact_proto \<Rightarrow> with_cmp (encode_content compact_vt (write_cmp bc)
               \<lparr>message_name = ty, message_content = Some (Msg_body ty h body)\<rparr>)) (ps, b) = (Inr True, (ps', b1))"
    and b1: "protos_ok ps'" "wf_buf b1" "std_buf b1" "content b1 = content b @ ?e" by blast
  from packet_header_update_ok [OF b1(2,4) b(4), of ?t] obtain b2 where
    u: "packet_header_update \<lparr>packet_len = get_valid_read_len b1, packet_type = ?t\<rparr> b1 = (Inr True, b2)"
      "wf_buf b2" "std_buf b2" "content b2 = packet ?t ?e" using b1(3) by blast
  have len: "sint (get_valid_read_len b1) = int (length (packet ?t ?e))"
    using sint_read_len [OF b1(2)] b1(4) b(4) by simp
  show ?thesis
  proof (cases "get_compress_enabled vm \<and> 256 \<le> length (packet ?t ?e)")
    case False
    then have "encode sc bc vm \<lparr>message_name = ty, message_content = Some (Msg_body ty h body)\<rparr>
        (ps, b0) = (Inr ENCODERR_SUCCESS, (ps', b2))"
      unfolding encode_def
      by (intro mcatch_Inr) (use b(1) r u(1) assms(5) len in
          \<open>auto simp: mbind_run on_buf_run Let_def mget_run mret_run MIN_MSG_LEN_TO_COMPRESS_def\<close>)
    with u b1(1) False show ?thesis by (auto simp: on_wire_def)
  next
    case True
    have d: "drop 8 (content b2) = ?e" "8 \<le> length (content b2)" using u(4) by (simp_all add: packet_def)
    have c: "sc (drop 8 (content b2)) \<noteq> []" "8 + length (sc (drop 8 (content b2))) < 10485760" using sc d by simp_all
    from compress_ok [of b2 sc, OF u(2,3) d(2) c] obtain b3 where
      3: "compress sc b2 = (Inr True, b3)" "wf_buf b3" "std_buf b3" "content b3 = compressed sc (content b2)" by blast
    have "encode sc bc vm \<lparr>message_name = ty, message_content = Some (Msg_body ty h body)\<rparr>
        (ps, b0) = (Inr ENCODERR_SUCCESS, (ps', b3))"
      unfolding encode_def
      by (intro mcatch_Inr) (use b(1) r u(1) assms(5) len True 3(1) in
          \<open>auto simp: mbind_run on_buf_run Let_def mget_run mret_run MIN_MSG_LEN_TO_COMPRESS_def\<close>)
    with 3 u(4) b1(1) True show ?thesis by (auto simp: on_wire_def)
  qed
qed

lemma be_bytes_proto: "be_bytes (proto_type kind) = [0, 0, 0, if kind = Binary_proto then 0 else 1]"
  by (cases kind) (simp_all add: proto_type_def THRIFT_BINARY_PROTO_def THRIFT_COMPACT_PROTO_def be_bytes32)

lemma uncompress_step_wire:
  assumes "get_thrift_proto vm = proto_type kind" and b: "wf_buf b" "content b = on_wire sc vm payload"
    and "payload \<noteq> []" "8 + length payload < 10485760" "8 + length (sc payload) < 10485760"
    and su: "su (sc payload) = Some payload"
  shows "\<exists>b'. uncompress_step su b = (Inr True, b') \<and> wf_buf b' \<and> content b' = packet (proto_type kind) payload"
proof (cases "get_compress_enabled vm \<and> 256 \<le> length (packet (proto_type kind) payload)")
  case False
  then have c: "content b = packet (proto_type kind) payload" using b(2) assms(1) by (auto simp: on_wire_def)
  have "proto_type kind AND 0xFF00 = 0"
    by (cases kind) (simp_all add: proto_type_def THRIFT_BINARY_PROTO_def THRIFT_COMPACT_PROTO_def)
  with no_compress_flag [OF b(1) c] b(1) c show ?thesis by simp
next
  case True
  let ?d = "if kind = Binary_proto then 0 else 1 :: byte"
  have c: "content b = be_bytes (of_nat (8 + length (sc payload)) :: u32) @ [0, 0, 1, ?d] @ sc payload"
    using b(2) assms(1) True by (simp add: on_wire_def compressed_def packet_def be_bytes_proto)
  have l: "8 + length (sc payload) < 4294967296" using assms(6) by simp
  have fl: "bit (1 :: byte) 0" by simp
  from uncompress_ok [where su = su, OF b(1) c l fl su assms(4,5) new_buf_default_wf new_buf_std new_buf_content]
  obtain out where
    out: "uncompress su b (new_buf DEFAULT_BUF_LEN True) = (Inr True, out)" "wf_buf out"
      "content out = packet (proto_type kind) payload"
    by (auto simp: packet_def be_bytes_proto)
  have "load32 4 b = (Inr (le_word [0, 0, 1, ?d]), b)"
    using load32_ok [OF b(1), of 4] by (simp add: c del: le_word.simps)
  then have "has_compress_flag b = (Inr True, b)"
    using flag_bit [of 0 0 1 ?d] hton32_le_word [of "[0, 0, 1, ?d]"]
    by (simp add: has_compress_flag_def PACKET_LEN_FIELD_OFFSET_def mbind_run mret_run del: le_word.simps)
  with out show ?thesis by (simp add: uncompress_step_def mbind_Inr)
qed

lemma decode_frame_ok:
  assumes "protos_ok ps" "get_thrift_proto vm = proto_type kind" "header_ok_for kind h"
    and "\<not> forward_condition vm' (norm_header h)"
    and "msg_name h \<in> set encode_invokers" "body_reads bc kind (msg_name h) bs body"
    and "wf_buf b" "content b = on_wire sc vm (enc_message kind h bs)"
    and "enc_message kind h bs \<noteq> []" "8 + length (enc_message kind h bs) < 10485760"
    and "8 + length (sc (enc_message kind h bs)) < 10485760"
    and "su (sc (enc_message kind h bs)) = Some (enc_message kind h bs)"
  shows "\<exists>ps' b'. decode_frame su bc vm' new_message (ps, b) =
           (Inr (DECODERR_SUCCESS, \<lparr>message_name = msg_name h,
              message_content = Some (Msg_body (msg_name h) (norm_header h) body)\<rparr>), (ps', b')) \<and> protos_ok ps'"
proof -
  let ?e = "enc_message kind h bs" and ?t = "proto_type kind"
  from uncompress_step_wire [where su = su, OF assms(2,7-12)] obtain b1 where
    1: "uncompress_step su b = (Inr True, b1)" "wf_buf b1" "content b1 = packet ?t ?e" by blast
  from packet_header_read_ok [OF 1(2,3)] obtain b2 where
    2: "packet_header_read b1 = (Inr \<lparr>packet_len = of_nat (8 + length ?e), packet_type = ?t\<rparr>, b2)"
      "wf_buf b2" "content b2 = ?e" by blast
  from decode_run [OF assms(1,3-6) 2(2,3)] obtain ps' b3 where
    3: "(case kind of
             Binary_proto \<Rightarrow> with_bin (decode_service_frame binary_vt bin_buf_update (read_bin bc) vm' new_message)
           | Compact_proto \<Rightarrow> with_cmp (decode_service_frame compact_vt cmp_buf_update (read_cmp bc) vm' new_message))
           (ps, b2) = (Inr (DECODERR_SUCCESS, \<lparr>message_name = msg_name h,
              message_content = Some (Msg_body (msg_name h) (norm_header h) body)\<rparr>), (ps', b3))"
      "protos_ok ps'" "wf_buf b3" "content b3 = []" by blast
  have len: "get_valid_read_len b1 = of_nat (8 + length ?e)" "get_valid_read_len b3 = 0"
    using valid_read_len_content [OF 1(2)] valid_read_len_content [OF 3(3)] 1(3) 3(4) by simp_all
  have k: "get_protocol (?t AND 0xFF) = Some kind"
    by (cases kind) (simp_all add: get_protocol_def proto_type_def THRIFT_BINARY_PROTO_def THRIFT_COMPACT_PROTO_def)
  have "decode_frame su bc vm' new_message (ps, b) =
      (Inr (DECODERR_SUCCESS, \<lparr>message_name = msg_name h,
              message_content = Some (Msg_body (msg_name h) (norm_header h) body)\<rparr>), (ps', b3))"
    unfolding decode_frame_def
    by (intro mcatch_Inr) (use 1(1) 2(1) 3(1) len k in
        \<open>simp add: decode_packet_def mbind_run on_buf_run Let_def mget_run mret_run\<close>)
  with 3(2) show ?thesis by blast
qed

lemma on_wire_frame_len:
  assumes "30 \<le> length (on_wire sc vm p)" and "length (on_wire sc vm p) \<le> 4194304"
  shows "full_frame (on_wire sc vm p)" and "take 4 (on_wire sc vm p) = be_bytes (of_nat (length (on_wire sc vm p)) :: u32)"
proof -
  let ?w = "on_wire sc vm p"
  show t: "take 4 ?w = be_bytes (of_nat (length ?w) :: u32)"
    by (simp add: on_wire_def Let_def compressed_def packet_def)
  have "sint (of_nat (length ?w) :: u32) = int (length ?w)"
    using assms(2) by (simp add: sint_uint unsigned_of_nat take_bit_nat_eq_self signed_take_bit_int_eq_self)
  then have "frame_len ?w = int (length ?w)"
    by (simp add: frame_len_def t be_word_be_bytes)
  with assms show "full_frame ?w" by (simp add: full_frame_def valid_len_def)
qed

text \<open>A complete frame reaches \<open>decode_frame\<close>, and the message is taken off the queue.\<close>

lemma decode_complete:
  assumes m: "wf_msg m" "msg_complete m" "msg_bytes m \<noteq> []"
  shows "decode su bc vm msg (ps, m # ms) =
           (case decode_frame su bc vm msg (ps, m_msg_stream m) of
              (Inl f, (ps', b')) \<Rightarrow> (Inl f, (ps', m\<lparr>m_msg_stream := b'\<rparr> # ms))
            | (Inr r, (ps', b')) \<Rightarrow> (Inr r, (ps', ms)))"
proof -
  let ?s = "m_msg_stream m" and ?c = "content (m_msg_stream m)"
  have wf: "wf_buf ?s" using m(1) by (simp add: wf_msg_def)
  have f: "4 \<le> length ?c" "int (length ?c) = frame_len ?c" "30 \<le> length ?c" "length ?c \<le> 4194304"
    using complete_full [OF m(1,3)] m(2) by (auto simp: full_frame_def valid_len_def msg_bytes_def)
  have "(of_int (frame_len ?c) :: i32) = be_word (take 4 ?c)" by (simp add: frame_len_def)
  then have w: "(be_word (take 4 ?c) :: i32) = of_nat (length ?c)"
    unfolding f(2) [symmetric] of_int_of_nat_eq by (rule sym)
  have vl: "get_valid_read_len ?s = of_nat (length ?c)" by (rule valid_read_len_content [OF wf])
  have un: "unat (of_nat (length ?c) :: u32) = length ?c" "unat (ucast (of_nat (length ?c) :: u32) :: u64) = length ?c"
    using f(4) by (simp_all add: unat_of_nat32 unsigned_ucast_eq take_bit_nat_eq_self unsigned_of_nat)
  have rp: "m_read_ptr ?s + 4 \<le> length (m_buf ?s)"
    using f(1) length_content [OF wf] wf unfolding wf_buf_unat by linarith
  have "get_unadjusted_frame_length 0 4 ?s = (Inr (ucast (of_nat (length ?c) :: u32)), ?s)"
    using rp memcpy_from_content [OF wf, of 0 4] f(1) w
    by (simp add: get_unadjusted_frame_length_def hton32_le_word)
  moreover have "\<not> get_valid_read_len ?s < MATRIX_MSG_MIN_READ_LENGTH"
    using vl un f(3) by (simp add: word_less_nat_alt MATRIX_MSG_MIN_READ_LENGTH_def)
  moreover have "\<not> (ucast (of_nat (length ?c) :: u32) :: u64) > of_int MAX_MATRIX_MSG_LEN"
    using un f(4) by (simp add: word_less_nat_alt MAX_MATRIX_MSG_LEN_def)
  moreover have "\<not> (ucast (of_nat (length ?c) :: u32) :: u64) < of_int MIN_MATRIX_MSG_CODE_LEN"
    using un f(3) by (simp add: word_less_nat_alt MIN_MATRIX_MSG_CODE_LEN_def)
  ultimately show ?thesis using m(2) vl by (simp add: decode_def Let_def)
qed

section \<open>The decoder on arbitrary input\<close>

text \<open>
  What a computation on the coder may end with: a failure of the given kind or a value that
  satisfies the postcondition.
\<close>

definition ends :: "(failure \<Rightarrow> bool) \<Rightarrow> ('a \<Rightarrow> bool) \<Rightarrow> failure + 'a \<Rightarrow> bool" where
  "ends F Q r = (case r of Inl f \<Rightarrow> F f | Inr v \<Rightarrow> Q v)"

lemma ends_simps [simp]: "ends F Q (Inl f) = F f" "ends F Q (Inr v) = Q v"
  by (simp_all add: ends_def)

lemma ends_mbind:
  assumes "ends F (\<lambda>_. True) (fst (m s))" and "\<And>v s'. m s = (Inr v, s') \<Longrightarrow> ends F Q (fst (k v s'))"
  shows "ends F Q (fst (mbind m k s))"
  using assms by (cases "m s"; cases "fst (m s)") (auto simp: mbind_run)

lemma ends_mcatch: "ends (\<lambda>f. (\<exists>x. f = Throw x) \<or> F f) Q (fst (m s)) \<Longrightarrow> Q x \<Longrightarrow> ends F Q (fst (mcatch x m s))"
  by (cases "m s"; cases "fst (m s)") (auto simp: mcatch_def split: failure.splits)

text \<open>The failures that may leave the part of the decoder inside its \<open>try\<close> block.\<close>

definition crash :: "coder_args \<Rightarrow> failure \<Rightarrow> bool" where
  "crash vm f \<longleftrightarrow> f = Abort \<and> (\<exists>h. forward_condition vm h)"

definition throw_or_crash :: "coder_args \<Rightarrow> failure \<Rightarrow> bool" where
  "throw_or_crash vm f \<longleftrightarrow> (\<exists>x. f = Throw x) \<or> crash vm f"

definition settled :: "decode_status \<times> 'b message \<Rightarrow> bool" where
  "settled r \<longleftrightarrow> fst r \<noteq> DECODE_NEED_MORE_DATA"

text \<open>A reader whose object points to a buffer, as the coder uses it.\<close>

locale coder_reader = thrift_reader prot ok
  for prot :: "'s protocol" and ok :: "nat \<Rightarrow> 's \<Rightarrow> bool" +
  assumes ok_buf: "ok 0 s \<Longrightarrow> wf_buf (get_buf prot s)"
begin

lemma fast_forward_ends:
  assumes "ok 0 s"
  shows "ends (throw_or_crash vm) settled (fst (decode_fast_forward prot setb vm msg h s))"
proof (cases "forward_condition vm h")
  case False
  then show ?thesis by (simp add: decode_fast_forward_def settled_def)
next
  case True
  let ?b = "get_buf prot s"
  let ?bs = "memcpy_from (m_read_ptr ?b) (unat (get_valid_read_len ?b)) (m_buf ?b)"
  have wf: "wf_buf ?b" by (rule ok_buf [OF assms])
  from move_read_ptr_ok [OF wf, of "get_valid_read_len ?b"] unat_valid_read_len [OF wf] obtain b' where
    mv: "move_read_ptr (get_valid_read_len ?b) ?b = (Inr (), b')" by auto
  show ?thesis
  proof (cases "?bs = []")
    case True
    then show ?thesis using \<open>forward_condition vm h\<close>
      by (auto simp: decode_fast_forward_def Let_def write_to_byte_buf_def throw_or_crash_def crash_def)
  next
    case False
    from write_returns [OF new_buf_default_wf [of True] this] mv True show ?thesis
      by (auto simp: decode_fast_forward_def Let_def mbind_run mlift_def mret_run throw_or_crash_def settled_def)
  qed
qed

lemma fast_forward_same_state:
  "decode_fast_forward prot setb vm msg h s = (Inr (st, m1), s') \<Longrightarrow> message_name m1 \<noteq> BINARY_FORWARD_MSG \<Longrightarrow> s' = s"
  by (auto simp: decode_fast_forward_def Let_def mbind_run mret_run split: if_splits prod.splits sum.splits)

lemma safe_ends:
  assumes "safe prot ok B d e k m" and "ok d s" and "unread prot s \<le> B"
  shows "ends (throw_or_crash vm) (\<lambda>_. True) (fst (m s))"
  using safeD_Inl [OF assms] by (cases "m s"; cases "fst (m s)") (auto simp: throw_or_crash_def)

lemma service_frame_ends:
  assumes s: "ok 0 s" and body: "\<And>B ty. ty \<in> set decode_invokers \<Longrightarrow> safe prot ok B 0 0 0 (rd ty)"
  shows "ends (throw_or_crash vm) settled (fst (decode_service_frame prot setb rd vm msg s))"
  unfolding decode_service_frame_def
proof (rule ends_mbind, goal_cases)
  case 1
  show ?case by (rule safe_ends [OF header_read_safe s order_refl])
next
  case (2 v s')
  obtain n h where v: "v = (n, h)" by (cases v)
  have s': "ok 0 s'" by (rule safeD_Inr(1) [OF header_read_safe s order_refl 2 [unfolded v]])
  note ff = fast_forward_ends [OF s', of vm setb msg h]
  show ?case
    unfolding v prod.case
  proof (rule ends_mbind, goal_cases)
    case 1
    then show ?case using ff by (auto simp: ends_def split: sum.splits)
  next
    case (2 w s2)
    obtain st m1 where w: "w = (st, m1)" by (cases w)
    have st: "st \<noteq> DECODE_NEED_MORE_DATA" using ff 2 w by (simp add: settled_def)
    have r: "ends (throw_or_crash vm) settled (fst (mbind (rd ty) (\<lambda>(_, b). mret (DECODERR_SUCCESS, g b)) s2))"
      if "message_name m1 \<noteq> BINARY_FORWARD_MSG" "ty \<in> set decode_invokers" for ty g
    proof (rule ends_mbind)
      have "ok 0 s2" using fast_forward_same_state [OF 2 [unfolded w] that(1)] s' by simp
      then show "ends (throw_or_crash vm) (\<lambda>_. True) (fst (rd ty s2))" by (rule safe_ends [OF body [OF that(2)] _ order_refl])
    qed (auto simp: mret_run settled_def)
    show ?case unfolding w prod.case 
      using st r [of "msg_name h" "\<lambda>b. m1\<lparr>message_content := Some (Msg_body (msg_name h) h b), message_name := msg_name h\<rparr>"]
      by (simp add: mret_run settled_def)
  qed
qed

end

interpretation bin_cr: coder_reader binary_vt bin_inv
  by unfold_locales (simp add: bin_inv_def binary_vt_def)

interpretation cmp_cr: coder_reader compact_vt cmp_inv
  by unfold_locales (simp add: cmp_inv_def compact_vt_def)

text \<open>The contract of the message classes: their readers are safe on every input.\<close>

definition body_safe :: "'b body_codec \<Rightarrow> bool" where
  "body_safe bc \<longleftrightarrow>
     (\<forall>B. \<forall>ty\<in>set decode_invokers. safe binary_vt bin_inv B 0 0 0 (read_bin bc ty)) \<and>
     (\<forall>B. \<forall>ty\<in>set decode_invokers. safe compact_vt cmp_inv B 0 0 0 (read_cmp bc ty))"

lemma run_proto_ends:
  assumes "body_safe bc" "wf_buf b"
  shows "ends (throw_or_crash vm) settled (fst ((case kind of
             Binary_proto \<Rightarrow> with_bin (decode_service_frame binary_vt bin_buf_update (read_bin bc) vm msg)
           | Compact_proto \<Rightarrow> with_cmp (decode_service_frame compact_vt cmp_buf_update (read_cmp bc) vm msg))
           (ps, b)))"
proof (cases kind)
  case Binary_proto
  have "bin_inv 0 ((proto_bin ps)\<lparr>bin_buf := b\<rparr>)" using assms(2) by (simp add: bin_inv_def)
  from bin_cr.service_frame_ends [where rd = "read_bin bc" and setb = bin_buf_update and msg = msg and vm = vm, OF this] assms(1) Binary_proto
  show ?thesis by (simp add: body_safe_def with_bin_def case_prod_unfold)
next
  case Compact_proto
  have "cmp_inv 0 ((proto_cmp ps)\<lparr>cmp_buf := b\<rparr>)" using assms(2) by (simp add: cmp_inv_def)
  from cmp_cr.service_frame_ends [where rd = "read_cmp bc" and setb = cmp_buf_update and msg = msg and vm = vm, OF this] assms(1) Compact_proto
  show ?thesis by (simp add: body_safe_def with_cmp_def case_prod_unfold)
qed

lemma put_buf_ends:
  assumes "wf_buf b" and "bs \<noteq> []" and "length bs < 4294967296"
  shows "(\<exists>b'. put_buf bs b = (Inr (), b') \<and> wf_buf b' \<and> content b' = content b @ bs) \<or>
         put_buf bs b = (Inl (Throw Length_error), b)"
  using write_returns [OF assms(1,2)] write_success [OF assms(1,3)]
  by (auto simp: put_buf_def mbind_run mret_run)

text \<open>Decompression, when the library never returns an empty or oversized text.\<close>

definition snappy_sane :: "(byte list \<Rightarrow> byte list option) \<Rightarrow> bool" where
  "snappy_sane su \<longleftrightarrow> (\<forall>x t. 22 \<le> length x \<longrightarrow> su x = Some t \<longrightarrow> t \<noteq> [] \<and> length t < 4294967288)"

lemma uncompress_ends:
  assumes "wf_buf inb" "30 \<le> length (content inb)" "snappy_sane su"
    and out: "wf_buf out" "content out = []"
  shows "\<exists>r out'. uncompress su inb out = (r, out') \<and>
           ends (\<lambda>f. \<exists>x. f = Throw x) (\<lambda>ok. ok \<longrightarrow> wf_buf out' \<and> 8 \<le> length (content out')) r"
proof -
  let ?c = "content inb"
  have l0: "load32 0 inb = (Inr (le_word (take 4 ?c)), inb)" and l4: "load32 4 inb = (Inr (le_word (take 4 (drop 4 ?c))), inb)"
    using load32_ok [OF assms(1), of 0] load32_ok [OF assms(1), of 4] assms(2) by simp_all
  define flag where "flag \<longleftrightarrow> drop_bit 8 (hton32 (le_word (take 4 (drop 4 ?c)))) AND 1 \<noteq> 0"
  have fl: "has_compress_flag inb = (Inr flag, inb)"
    by (simp add: has_compress_flag_def PACKET_LEN_FIELD_OFFSET_def l4 mbind_run mret_run flag_def)
  have v: "unat (get_valid_read_len inb) = length ?c" by (rule unat_valid_read_len [OF assms(1)])
  have mem: "memcpy_from (m_read_ptr inb + 8) (length ?c - 8) (m_buf inb) = drop 8 ?c"
    using memcpy_from_content [OF assms(1), of 8 "length ?c - 8"] assms(2) by simp
  show ?thesis
  proof (cases "flag \<and> get_valid_read_len inb = hton32 (le_word (take 4 ?c)) \<and> su (drop 8 ?c) \<noteq> None")
    case False
    then have "\<exists>ok. uncompress su inb out = (Inr ok, out) \<and> \<not> ok"
      using fl l0 l4 v mem assms(2)
      by (auto simp: uncompress_def PACKET_LEN_FIELD_OFFSET_def PACKET_HEADER_LEN_def Let_def)
    then show ?thesis by auto
  next
    case True
    then obtain t where t: "su (drop 8 ?c) = Some t" by auto
    have "22 \<le> length (drop 8 ?c)" using assms(2) by simp
    then have tn: "t \<noteq> []" "length t < 4294967296" using assms(3) t unfolding snappy_sane_def by fastforce+
    define n where "n = mem_bytes (hton32 (of_nat (8 + length t) :: u32))"
    define q where "q = mem_bytes (hton32 (hton32 (le_word (take 4 (drop 4 ?c))) AND 0xFFFF00FF))"
    have ln: "length n = 4" "length q = 4" by (simp_all add: n_def q_def mem_bytes_hton32)
    have run: "uncompress su inb out = mbind (put_buf n) (\<lambda>_. mbind (put_buf q) (\<lambda>_. try_length (put_buf t))) out"
      using True fl l0 l4 v mem assms(2) t
      by (simp add: uncompress_def PACKET_LEN_FIELD_OFFSET_def PACKET_HEADER_LEN_def Let_def n_def q_def)
    from put_buf_ends [OF out(1), of n] ln(1) have "(\<exists>b. put_buf n out = (Inr (), b) \<and> wf_buf b \<and> content b = n) \<or>
        put_buf n out = (Inl (Throw Length_error), out)" using out(2) by force
    then show ?thesis
    proof (elim disjE exE conjE)
      fix b1 assume 1: "put_buf n out = (Inr (), b1)" "wf_buf b1" "content b1 = n"
      from put_buf_ends [OF 1(2), of q] ln(2) have "(\<exists>b. put_buf q b1 = (Inr (), b) \<and> wf_buf b \<and> content b = n @ q) \<or>
        put_buf q b1 = (Inl (Throw Length_error), b1)" using 1(3) by force
      then show ?thesis
      proof (elim disjE exE conjE)
        fix b2 assume 2: "put_buf q b1 = (Inr (), b2)" "wf_buf b2" "content b2 = n @ q"
        from put_buf_ends [OF 2(2) tn] 1 2 ln show ?thesis by (auto simp: run mbind_run try_length_def)
      qed (use 1 in \<open>auto simp: run mbind_run\<close>)
    qed (auto simp: run mbind_run)
  qed
qed

lemma uncompress_step_ends:
  assumes "wf_buf b" "30 \<le> length (content b)" "snappy_sane su"
  shows "\<exists>r b'. uncompress_step su b = (r, b') \<and>
           ends (\<lambda>f. \<exists>x. f = Throw x) (\<lambda>ok. ok \<longrightarrow> wf_buf b' \<and> 8 \<le> length (content b')) r"
proof -
  from uncompress_ends [OF assms new_buf_default_wf new_buf_content] obtain r out where
    u: "uncompress su b (new_buf DEFAULT_BUF_LEN True) = (r, out)"
      "ends (\<lambda>f. \<exists>x. f = Throw x) (\<lambda>ok. ok \<longrightarrow> wf_buf out \<and> 8 \<le> length (content out)) r" by blast
  have "\<exists>fl. has_compress_flag b = (Inr fl, b)"
    using load32_ok [OF assms(1), of 4] assms(2)
    by (simp add: has_compress_flag_def PACKET_LEN_FIELD_OFFSET_def mbind_run mret_run)
  with u assms(1,2) show ?thesis
    by (cases r) (auto simp: uncompress_step_def mbind_run)
qed

lemma packet_header_read_ends:
  assumes "wf_buf b" "8 \<le> length (content b)"
  shows "\<exists>h b'. packet_header_read b = (Inr h, b') \<and> wf_buf b'"
proof -
  have "\<not> get_valid_read_len b < 8"
    using unat_valid_read_len [OF assms(1)] assms(2) by (simp add: word_less_nat_alt)
  moreover from move_read_ptr_ok [OF assms(1), of 8] assms(2) obtain b' where
    "move_read_ptr 8 b = (Inr (), b')" "wf_buf b'" by auto
  ultimately show ?thesis
    using load32_ok [OF assms(1), of 0] load32_ok [OF assms(1), of 4] assms(2)
    by (auto simp: packet_header_read_def mbind_Inr mret_run)
qed

lemma decode_packet_ends:
  assumes "body_safe bc" "wf_buf b"
  shows "ends (throw_or_crash vm) settled (fst (decode_packet bc vm msg n h (ps, b)))"
proof (cases "get_protocol (packet_type h AND 0xFF)")
  case None
  then show ?thesis by (simp add: decode_packet_def mret_run settled_def)
next
  case (Some kind)
  note r = run_proto_ends [OF assms, where vm = vm and kind = kind and msg = msg and ps = ps]
  show ?thesis
    unfolding decode_packet_def Some option.case
  proof (rule ends_mbind, goal_cases)
    case 1
    show ?case using r by (auto simp: ends_def split: sum.splits)
  next
    case (2 v s')
    then have "settled v" using r by simp
    then show ?case
      by (auto simp: settled_def mbind_run mget_run mret_run Let_def split: prod.splits)
  qed
qed

text \<open>Decoding a frame ends with a verdict other than "more data", or with the failed assertion.\<close>

lemma decode_frame_ends:
  assumes b: "wf_buf b" "30 \<le> length (content b)" and su: "snappy_sane su" and bc: "body_safe bc"
  shows "ends (crash vm) settled (fst (decode_frame su bc vm msg (ps, b)))"
  unfolding decode_frame_def
proof (rule ends_mcatch, fold throw_or_crash_def, rule ends_mbind, goal_cases)
  from uncompress_step_ends [OF b su] obtain r b1 where
    u: "uncompress_step su b = (r, b1)"
      "ends (\<lambda>f. \<exists>x. f = Throw x) (\<lambda>ok. ok \<longrightarrow> wf_buf b1 \<and> 8 \<le> length (content b1)) r" by blast
  {
    case 1
    then show ?case using u by (cases r) (auto simp: on_buf_run throw_or_crash_def)
  next
    case (2 ok s')
    then have r: "r = Inr ok" and s': "s' = (ps, b1)" using u(1) by (simp_all add: on_buf_run)
    show ?case
    proof (cases ok)
      case True
      with u(2) r have "wf_buf b1" "8 \<le> length (content b1)" by simp_all
      from packet_header_read_ends [OF this] obtain h b2 where
        2: "packet_header_read b1 = (Inr h, b2)" "wf_buf b2" by blast
      from decode_packet_ends [OF bc 2(2)] 2(1) True s' show ?thesis
        by (simp add: mbind_run [of "on_buf _"] mbind_run [of "mget _"] on_buf_run mget_run)
    qed (simp add: mret_run settled_def)
  }
qed (simp add: settled_def)

section \<open>Forwarding\<close>

text \<open>A codec whose object reads and writes the buffer it points to.\<close>

locale relay_codec = thrift_codec st cont room prot encField encStop encMap encList encByte encI16 encI32 encI64
    encDouble encString map_ok
  for st :: "i16 list \<Rightarrow> 's \<Rightarrow> bool" and cont room and prot :: "'s protocol" and encField encStop encMap encList
    encByte encI16 encI32 encI64 encDouble encString map_ok +
  fixes setb :: "(byte_buf \<Rightarrow> byte_buf) \<Rightarrow> 's \<Rightarrow> 's"
  assumes buf: "st c s \<Longrightarrow> wf_buf (get_buf prot s)" "cont s = content (get_buf prot s)"
    and setb: "st c s \<Longrightarrow> wf_buf b \<Longrightarrow> st c (setb (\<lambda>_. b) s)" "get_buf prot (setb (\<lambda>_. b) s) = b"
    and w_raw: "bs \<noteq> [] \<Longrightarrow> writes c c (append_raw prot bs) bs"
begin

lemma enc_header_norm: "enc_header (norm_header h) = enc_header h"
  by (simp add: enc_header_def header_fields_def norm_header_def)

lemma header_ok_norm: "header_ok h \<Longrightarrow> header_ok (norm_header h)"
  by (auto simp: header_ok_def norm_header_def)

lemma decode_forward:
  assumes "header_ok h" "forward_condition vm (norm_header h)" "st (l # c) p" "cont p = enc_header h @ bs"
    and "bs \<noteq> []" "length bs < 10485760"
  shows "\<exists>body p'. decode_service_frame prot setb rd vm msg p =
           (Inr (DECODERR_SUCCESS, msg\<lparr>message_content := Some (Msg_forward (norm_header h) body),
              message_name := BINARY_FORWARD_MSG\<rparr>), p') \<and>
           st (l # c) p' \<and> cont p' = [] \<and> wf_buf body \<and> content body = bs"
proof -
  from readsD [OF header_reads [OF assms(1)] assms(3,4)] obtain p1 where
    1: "base_header_read prot empty_header p = (Inr (of_nat (length (enc_header h)), norm_header h), p1)"
      "st (l # c) p1" "cont p1 = bs" by blast
  let ?b = "get_buf prot p1"
  have wf: "wf_buf ?b" "content ?b = bs" using buf(1) [OF 1(2)] buf(2) [of p1] 1(3) by simp_all
  have n: "unat (get_valid_read_len ?b) = length bs" using unat_valid_read_len [OF wf(1)] wf(2) by simp
  have mem: "memcpy_from (m_read_ptr ?b) (length bs) (m_buf ?b) = bs"
    using unread_memcpy [OF wf(1), of "length bs"] wf(2) by simp
  from std_append [OF new_buf_default_wf new_buf_std assms(5)] assms(6) obtain body where
    body: "write_to_byte_buf bs (new_buf DEFAULT_BUF_LEN True) = (Inr (of_nat (length bs)), body)"
      "wf_buf body" "content body = bs" by auto
  from move_read_ptr_ok [OF wf(1), of "get_valid_read_len ?b"] n wf(2) obtain b' where
    mv: "move_read_ptr (get_valid_read_len ?b) ?b = (Inr (), b')" "wf_buf b'" "content b' = []" by auto
  have "st (l # c) (setb (\<lambda>_. b') p1)" "cont (setb (\<lambda>_. b') p1) = []"
    using setb(1) [OF 1(2) mv(2)] setb(2) buf(2) mv(3) by simp_all
  with 1(1) n mem body mv(1) assms(2) show ?thesis
    by (auto simp: decode_service_frame_def decode_fast_forward_def Let_def mbind_run mret_run mlift_def)
qed

lemma encode_forward:
  assumes "header_ok h" "st (l # c) p" "wf_buf body" "content body \<noteq> []"
    and "length (enc_header h @ content body) \<le> room p"
  shows "\<exists>p'. encode_content prot wr (msg\<lparr>message_content := Some (Msg_forward h body), message_name := nm\<rparr>) p =
           (Inr True, p') \<and> st (l # c) p' \<and> cont p' = cont p @ enc_header h @ content body"
proof -
  have "length (enc_header h) \<le> room p" using assms(5) by simp
  from writesD [OF header_writes [OF assms(1)] assms(2) this] obtain p1 where
    1: "base_header_write prot h p = (Inr (of_nat (length (enc_header h)), ()), p1)" "st (l # c) p1"
      "cont p1 = cont p @ enc_header h" "room p1 = room p - length (enc_header h)" by blast
  have "length (content body) \<le> room p1" using assms(5) 1(4) by simp
  from writesD [OF w_raw [OF assms(4)] 1(2) this] obtain p2 where
    2: "append_raw prot (content body) p1 = (Inr (of_nat (length (content body)), ()), p2)" "st (l # c) p2"
      "cont p2 = cont p1 @ content body" by blast
  have "memcpy_from (m_read_ptr body) (unat (get_valid_read_len body)) (m_buf body) = content body"
    using unread_memcpy [OF assms(3)] unat_valid_read_len [OF assms(3)] by simp
  with 1 2 show ?thesis by (simp add: encode_content_def mbind_Inr mret_run)
qed

text \<open>A relay sends on exactly the bytes it received.\<close>

lemma relay:
  assumes "header_ok h" "forward_condition vm (norm_header h)" "st (l # c) p" "cont p = enc_header h @ bs"
    and "bs \<noteq> []" "length bs < 10485760" "st (l' # c') q" "length (enc_header h @ bs) \<le> room q"
  shows "\<exists>fwd p' q'. decode_service_frame prot setb rd vm new_message p = (Inr (DECODERR_SUCCESS, fwd), p') \<and>
           message_name fwd = BINARY_FORWARD_MSG \<and>
           encode_content prot wr fwd q = (Inr True, q') \<and> cont q' = cont q @ cont p"
proof -
  from decode_forward [where rd = rd and msg = new_message, OF assms(1-6)] obtain body p' where
    d: "decode_service_frame prot setb rd vm new_message p =
           (Inr (DECODERR_SUCCESS, new_message\<lparr>message_content := Some (Msg_forward (norm_header h) body),
              message_name := BINARY_FORWARD_MSG\<rparr>), p')"
      "wf_buf body" "content body = bs" by blast
  have "content body \<noteq> []" "length (enc_header (norm_header h) @ content body) \<le> room q"
    using assms(5,8) d(3) by (simp_all add: enc_header_norm)
  from encode_forward [where wr = wr and msg = new_message and nm = BINARY_FORWARD_MSG,
      OF header_ok_norm [OF assms(1)] assms(7) d(2) this] d assms(4)
  show ?thesis by (auto simp: enc_header_norm)
qed

end

interpretation bin_rc: relay_codec bin_st bin_cont bin_room binary_vt
  "\<lambda>l t i. t # be_bytes i" "[T_STOP]" "\<lambda>k v n. k # v # be_bytes n" "\<lambda>t n. t # be_bytes n"
  "\<lambda>x. [x]" be_bytes be_bytes be_bytes be_bytes bin_encString "\<lambda>_. True" bin_buf_update
  by unfold_locales (simp_all add: bin_st_def bin_cont_def bin_put_writes)

interpretation cmp_rc: relay_codec cmp_st cmp_cont cmp_room compact_vt
  "\<lambda>l t i. cmp_encField l (ctype t) i" "[T_STOP]" cmp_encMap cmp_encList
  "\<lambda>x. [x]" cmp_encI16 "\<lambda>x. varint (i32ToZigzag x)" "\<lambda>x. varint (i64ToZigzag x)" be_bytes
  cmp_encString "\<lambda>n. n \<noteq> 0" cmp_buf_update
  by unfold_locales (simp_all add: cmp_st_def cmp_cont_def cmp_put_writes)

section \<open>Properties\<close>

text \<open>(C2) End to end: a message of a registered class is encoded under either protocol, with or without
  compression; however the bytes are cut into reads, the receiver finds exactly one frame in them
  and decodes from it the same message: the class of its name, a header equal to the one sent and
  the same body. The message class is a parameter whose reader inverts its writer; snappy is a
  parameter that decompresses what it compressed.\<close>

theorem message_survives_the_wire:
  fixes bc :: "'b body_codec"
  assumes "get_protocol (get_thrift_proto vm) = Some kind"
    and "header_ok_for kind h" and "msg_name h \<in> set encode_invokers"
    and "body_ok bc kind (msg_name h) body bs"
    and "snappy_compress (enc_message kind h bs) \<noteq> []"
    and "snappy_uncompress (snappy_compress (enc_message kind h bs)) = Some (enc_message kind h bs)"
    and "8 + length (enc_message kind h bs) < 10485759" and "8 + length (snappy_compress (enc_message kind h bs)) < 10485760"
    and "30 \<le> length (on_wire snappy_compress vm (enc_message kind h bs))"
    and "length (on_wire snappy_compress vm (enc_message kind h bs)) \<le> 4194304"
    and "\<not> forward_condition vm' (norm_header h)" and "protos_ok ps" and "protos_ok qs"
  shows "\<exists>ps' out. encode snappy_compress bc vm
             \<lparr>message_name = msg_name h, message_content = Some (Msg_body (msg_name h) h body)\<rparr>
             (ps, new_buf DEFAULT_BUF_LEN True) = (Inr ENCODERR_SUCCESS, (ps', out)) \<and>
           (\<forall>reads. (\<forall>b\<in>set reads. wf_buf b) \<and> concat (map content reads) = content out \<longrightarrow>
              (\<exists>ms h' qs'. recv_pieces reads [] = Inr (DECODERR_SUCCESS, ms) \<and> has_complete_message ms \<and>
                 decode snappy_uncompress bc vm' new_message (qs, ms) =
                   (Inr (DECODERR_SUCCESS, \<lparr>message_name = msg_name h,
                      message_content = Some (Msg_body (msg_name h) h' body)\<rparr>), (qs', [])) \<and>
                 header_eq h h'))"
proof -
  let ?e = "enc_message kind h bs" and ?w = "on_wire snappy_compress vm (enc_message kind h bs)"
  have bw: "body_writes bc kind (msg_name h) body bs" and br: "body_reads bc kind (msg_name h) bs body"
    using assms(4) by (simp_all add: body_ok_def)
  have t: "get_thrift_proto vm = proto_type kind" using assms(1) by (simp add: get_protocol_type)
  from encode_ok [of "new_buf DEFAULT_BUF_LEN True" ps vm kind h "msg_name h" bc body bs snappy_compress,
      OF new_buf_default_wf new_buf_std new_buf_content assms(12,1-3) bw assms(7,5,8)] obtain ps' out where
    enc: "encode snappy_compress bc vm
             \<lparr>message_name = msg_name h, message_content = Some (Msg_body (msg_name h) h body)\<rparr>
             (ps, new_buf DEFAULT_BUF_LEN True) = (Inr ENCODERR_SUCCESS, (ps', out))"
      "content out = ?w" by blast
  have full: "full_frame ?w" by (rule on_wire_frame_len(1) [OF assms(9,10)])
  have ne: "?e \<noteq> []"
    by (cases kind) (simp_all add: enc_message_def)
  have l1: "8 + length ?e < 10485760" using assms(7) by simp
  have "\<exists>ms h' qs'. recv_pieces reads [] = Inr (DECODERR_SUCCESS, ms) \<and> has_complete_message ms \<and>
                 decode snappy_uncompress bc vm' new_message (qs, ms) =
                   (Inr (DECODERR_SUCCESS, \<lparr>message_name = msg_name h,
                      message_content = Some (Msg_body (msg_name h) h' body)\<rparr>), (qs', [])) \<and>
                 header_eq h h'"
    if r: "\<forall>b\<in>set reads. wf_buf b" "concat (map content reads) = content out" for reads
  proof -
    have "split_frames (concat (map content reads)) = Some [?w]"
      using split_full [OF full, of "[]"] r(2) enc(2) by (simp add: split_frames.simps [of "[]"])
    with recv_pieces_ok [of "[]", OF _ r(1)] obtain m where
      m: "recv_pieces reads [] = Inr (DECODERR_SUCCESS, [m])" "wf_queue [m]" "msg_bytes m = ?w"
      by (auto simp: wf_queue_def)
    then have wm: "wf_msg m" "msg_bytes m \<noteq> []" by (simp_all add: wf_queue_def)
    then have cm: "msg_complete m" using complete_full full m(3) by simp
    have s: "wf_buf (m_msg_stream m)" "content (m_msg_stream m) = ?w"
      using wm(1) m(3) by (simp_all add: wf_msg_def msg_bytes_def)
    from decode_frame_ok [of qs vm kind h vm' bc bs body "m_msg_stream m" snappy_compress snappy_uncompress,
        OF assms(13) t assms(2,11,3) br s ne l1 assms(8,6)] obtain qs' b' where
      "decode_frame snappy_uncompress bc vm' new_message (qs, m_msg_stream m) =
         (Inr (DECODERR_SUCCESS, \<lparr>message_name = msg_name h,
              message_content = Some (Msg_body (msg_name h) (norm_header h) body)\<rparr>), (qs', b'))" by blast
    with decode_complete [OF wm(1) cm wm(2), of snappy_uncompress bc vm' new_message qs "[]"] m(1) cm header_eq_norm [of h]
    show ?thesis by (auto simp: has_complete_message_def)
  qed
  with enc(1) show ?thesis by blast
qed

text \<open>A message class with one string as its body.\<close>

definition string_codec :: "string body_codec" where
  "string_codec =
     \<lparr>read_bin = (\<lambda>_. readString binary_vt), write_bin = (\<lambda>_. writeString binary_vt),
      read_cmp = (\<lambda>_. readString compact_vt), write_cmp = (\<lambda>_. writeString compact_vt)\<rparr>"

definition no_args :: coder_args where
  "no_args = \<lparr>ENABLE_COMPRESS = None, THRIFT_PROTO = None, LOCAL_NODE_ID = None\<rparr>"

lemma string_codec_ok: "body_ok string_codec Binary_proto ty ''hello'' (bin_encString ''hello'')"
  by (simp add: body_ok_def body_writes_def body_reads_def string_codec_def bin.w_string bin.r_string del: binary_vt_sel)

lemma string_codec_safe: "body_safe string_codec"
  by (simp add: body_safe_def string_codec_def bin_reader.string_read cmp_reader.string_read
      del: binary_vt_sel compact_vt_sel)

theorem message_survives_the_wire_witness:
  "\<exists>ps' out. encode (Cons 1) string_codec no_args
       \<lparr>message_name = ''ver_req'', message_content = Some (Msg_body ''ver_req'' sample_header ''hello'')\<rparr>
       (init_decode_proto, new_buf DEFAULT_BUF_LEN True) = (Inr ENCODERR_SUCCESS, (ps', out)) \<and>
     (\<forall>reads. (\<forall>b\<in>set reads. wf_buf b) \<and> concat (map content reads) = content out \<longrightarrow>
        (\<exists>ms h' qs'. recv_pieces reads [] = Inr (DECODERR_SUCCESS, ms) \<and> has_complete_message ms \<and>
           decode (\<lambda>x. Some (tl x)) string_codec no_args new_message (init_decode_proto, ms) =
             (Inr (DECODERR_SUCCESS, \<lparr>message_name = ''ver_req'',
                message_content = Some (Msg_body ''ver_req'' h' ''hello'')\<rparr>), (qs', [])) \<and>
           header_eq sample_header h'))"
proof -
  let ?e = "enc_message Binary_proto sample_header (bin_encString ''hello'')"
  have n: "msg_name sample_header = ''ver_req''" by (simp add: sample_header_def)
  have len: "22 < length ?e" "length ?e < 210"
    by (simp_all add: enc_message_def bin.enc_header_def bin.header_fields_def sample_header_def empty_header_def
      bin.enc_path_def bin.enc_exten_info_def bin_encString_def)
  have w: "length (on_wire (Cons 1) no_args ?e) = 8 + length ?e"
    by (simp add: on_wire_def no_args_def get_compress_enabled_def)
  have p: "get_protocol (get_thrift_proto no_args) = Some Binary_proto"
    by (simp add: no_args_def get_thrift_proto_def get_protocol_def)
  have f: "\<not> forward_condition no_args h" for h
    by (simp add: forward_condition_def no_args_def get_local_node_id_def)
  have "header_ok_for Binary_proto sample_header" "''ver_req'' \<in> set encode_invokers"
    by (simp_all add: header_ok_for_def sample_header_ok encode_invokers_def)
  then show ?thesis
    using message_survives_the_wire [where snappy_compress = "Cons 1" and snappy_uncompress = "\<lambda>x. Some (tl x)"
        and h = sample_header and bs = "bin_encString ''hello''" and kind = Binary_proto and vm = no_args
        and vm' = no_args and bc = string_codec and ps = init_decode_proto and qs = init_decode_proto
        and body = "''hello''", unfolded n w,
        OF p _ _ string_codec_ok _ _ _ _ _ _ f protos_ok_init protos_ok_init] len by simp
qed

lemma decode_settles:
  assumes "wf_queue (m # ms)" and "msg_complete m" and "snappy_sane su" and "body_safe bc"
  shows "case decode su bc vm msg (ps, m # ms) of
           (Inl f, _) \<Rightarrow> f = Abort \<and> (\<exists>h. forward_condition vm h)
         | (Inr (st, msg'), (ps', ms')) \<Rightarrow> st \<noteq> DECODE_NEED_MORE_DATA \<and> ms' = ms"
proof -
  have m: "wf_msg m" "msg_bytes m \<noteq> []" using assms(1) by (simp_all add: wf_queue_def)
  then have "full_frame (msg_bytes m)" "wf_buf (m_msg_stream m)"
    using complete_full assms(2) by (auto simp: wf_msg_def)
  then have "30 \<le> length (content (m_msg_stream m))"
    by (auto simp: full_frame_def valid_len_def msg_bytes_def)
  from decode_frame_ends [OF \<open>wf_buf (m_msg_stream m)\<close> this assms(3,4), of vm msg ps]
  show ?thesis
    unfolding decode_complete [OF m(1) assms(2) m(2)]
    by (auto simp: ends_def crash_def settled_def split: prod.splits sum.splits)
qed


definition sample_frame :: net_message where
  "sample_frame =
     \<lparr>m_packet_len = 30, theBytes = [0, 0, 0, 30], m_pos = 30,
      m_msg_stream = copy_in ([0, 0, 0, 30] @ replicate 26 0) (new_buf DEFAULT_BUF_LEN True), m_in_data = True\<rparr>"

lemma sample_frame_ok: "wf_queue [sample_frame]" "msg_complete sample_frame"
proof -
  let ?b = "new_buf DEFAULT_BUF_LEN True" and ?p = "[0, 0, 0, 30] @ replicate 26 0 :: byte list"
  have "m_write_ptr ?b + length ?p \<le> m_write_bound ?b" by (simp add: new_buf_def)
  note c = copy_in_props [OF new_buf_default_wf this]
  have "std_buf (copy_in ?p ?b)" using new_buf_std by (simp add: std_buf_def copy_in_def Let_def)
  with c have "wf_msg sample_frame" "msg_bytes sample_frame \<noteq> []"
    by (simp_all add: wf_msg_def sample_frame_def msg_bytes_def frame_len_def be_word_def valid_len_def)
  then show "wf_queue [sample_frame]" by (simp add: wf_queue_def)
  show "msg_complete sample_frame" by (simp add: msg_complete_def sample_frame_def)
qed


text \<open>A packet to be forwarded whose header is followed by no body stops the process: copying the
  empty body runs into the assertion of \<open>write_to_byte_buf\<close>.\<close>

theorem forwarding_empty_body_aborts:
  assumes "bin.header_ok h" and "forward_condition vm (norm_header h)"
    and "wf_buf b" and "content b = bin.enc_header h"
  shows "fst (decode_service_frame binary_vt bin_buf_update rd vm msg (binary_protocol_ctor b)) = Inl Abort"
proof -
  have st: "bin_st [0] (binary_protocol_ctor b)" and c: "bin_cont (binary_protocol_ctor b) = bin.enc_header h @ []"
    using assms(3,4) by (simp_all add: bin_st_def bin_cont_def binary_protocol_ctor_def)
  from bin_cs.readsD [OF bin.header_reads [OF assms(1)] st c] obtain p where
    p: "base_header_read binary_vt empty_header (binary_protocol_ctor b) =
          (Inr (of_nat (length (bin.enc_header h)), norm_header h), p)" "bin_st [0] p" "bin_cont p = []" by blast
  have "unat (get_valid_read_len (bin_buf p)) = 0"
    using p(2,3) unat_valid_read_len [of "bin_buf p"] by (simp add: bin_st_def bin_cont_def)
  then have "memcpy_from (m_read_ptr (bin_buf p)) (unat (get_valid_read_len (bin_buf p))) (m_buf (bin_buf p)) = []"
    by (simp add: memcpy_from_def)
  with assms(2) have "fst (decode_fast_forward binary_vt bin_buf_update vm msg (norm_header h) p) = Inl Abort"
    by (simp add: decode_fast_forward_def Let_def write_to_byte_buf_def)
  with p(1) show ?thesis
    by (cases "decode_fast_forward binary_vt bin_buf_update vm msg (norm_header h) p")
       (simp add: decode_service_frame_def mbind_run)
qed

definition forward_header :: base_header where
  "forward_header =
     empty_header\<lparr>magic := 1, msg_name := ''node_list_task_req'',
                  exten_info := [(''dest_id'', ''node_b'')], isset_exten_info := True\<rparr>"

definition relay_args :: coder_args where
  "relay_args = no_args\<lparr>LOCAL_NODE_ID := Some ''node_a''\<rparr>"

lemma forward_header_ok: "bin.header_ok forward_header" "forward_condition relay_args (norm_header forward_header)"
  by (simp_all add: bin.header_ok_def forward_header_def empty_header_def smap_wf_def forward_condition_def
      relay_args_def no_args_def get_local_node_id_def norm_header_def legacy_none_forwarding_messages_def
      smap_lookup_def)

theorem forwarding_empty_body_aborts_witness:
  "fst (decode_service_frame binary_vt bin_buf_update (read_bin string_codec) relay_args new_message
     (binary_protocol_ctor (copy_in (bin.enc_header forward_header) (new_buf DEFAULT_BUF_LEN True)))) = Inl Abort"
proof -
  let ?b = "new_buf DEFAULT_BUF_LEN True"
  have "length (bin.enc_header forward_header) < 200"
    by (simp add: bin.enc_header_def bin.header_fields_def forward_header_def empty_header_def
      bin.enc_path_def bin.enc_exten_info_def bin_encString_def)
  then have "m_write_ptr ?b + length (bin.enc_header forward_header) \<le> m_write_bound ?b" by (simp add: new_buf_def)
  note c = copy_in_props [OF new_buf_default_wf this]
  show ?thesis by (rule forwarding_empty_body_aborts [OF forward_header_ok c(1)]) (use c(2) in simp)
qed

text \<open>(C5) Forwarding is transparent: a message that is not for this node is not decoded beyond its
  header, and encoding it for the next hop appends to the packet exactly the bytes that were
  received, header and body, under either protocol.\<close>

theorem relay_sends_the_same_bytes:
  "(bin.header_ok h \<and> forward_condition vm (norm_header h) \<and> wf_buf b \<and> content b = bin.enc_header h @ bs \<and>
      bs \<noteq> [] \<and> length bs < 10485760 \<and> wf_buf out \<and> length (content b) \<le> buf_room out \<longrightarrow>
    (\<exists>fwd p' q'. decode_service_frame binary_vt bin_buf_update rd vm new_message (binary_protocol_ctor b) =
         (Inr (DECODERR_SUCCESS, fwd), p') \<and> message_name fwd = BINARY_FORWARD_MSG \<and>
       encode_content binary_vt wr fwd (binary_protocol_ctor out) = (Inr True, q') \<and>
       content (bin_buf q') = content out @ content b)) \<and>
   (cmp.header_ok h \<and> forward_condition vm (norm_header h) \<and> wf_buf b \<and> content b = cmp.enc_header h @ bs \<and>
      bs \<noteq> [] \<and> length bs < 10485760 \<and> wf_buf out \<and> length (content b) \<le> buf_room out \<longrightarrow>
    (\<exists>fwd p' q'. decode_service_frame compact_vt cmp_buf_update rd' vm new_message (compact_protocol_ctor b) =
         (Inr (DECODERR_SUCCESS, fwd), p') \<and> message_name fwd = BINARY_FORWARD_MSG \<and>
       encode_content compact_vt wr' fwd (compact_protocol_ctor out) = (Inr True, q') \<and>
       content (cmp_buf q') = content out @ content b))"
proof (intro conjI impI; elim conjE)
  assume *: "bin.header_ok h" "forward_condition vm (norm_header h)" "wf_buf b" "content b = bin.enc_header h @ bs"
    "bs \<noteq> []" "length bs < 10485760" "wf_buf out" "length (content b) \<le> buf_room out"
  let ?p = "binary_protocol_ctor b" and ?q = "binary_protocol_ctor out"
  have "bin_st [0] ?p" "bin_st [0] ?q" "bin_cont ?p = bin.enc_header h @ bs" "length (bin.enc_header h @ bs) \<le> bin_room ?q"
    using * by (simp_all add: bin_st_def bin_cont_def bin_room_def binary_protocol_ctor_def)
  from bin_rc.relay [where rd = rd and wr = wr, OF *(1,2) this(1,3) *(5,6) this(2,4)]
  show "\<exists>fwd p' q'. decode_service_frame binary_vt bin_buf_update rd vm new_message ?p =
         (Inr (DECODERR_SUCCESS, fwd), p') \<and> message_name fwd = BINARY_FORWARD_MSG \<and>
       encode_content binary_vt wr fwd ?q = (Inr True, q') \<and> content (bin_buf q') = content out @ content b"
    by (simp add: bin_cont_def binary_protocol_ctor_def)
next
  assume *: "cmp.header_ok h" "forward_condition vm (norm_header h)" "wf_buf b" "content b = cmp.enc_header h @ bs"
    "bs \<noteq> []" "length bs < 10485760" "wf_buf out" "length (content b) \<le> buf_room out"
  let ?p = "compact_protocol_ctor b" and ?q = "compact_protocol_ctor out"
  have "cmp_st [0] ?p" "cmp_st [0] ?q" "cmp_cont ?p = cmp.enc_header h @ bs" "length (cmp.enc_header h @ bs) \<le> cmp_room ?q"
    using * by (simp_all add: cmp_st_def cmp_cont_def cmp_room_def compact_protocol_ctor_def)
  from cmp_rc.relay [where rd = rd' and wr = wr', OF *(1,2) this(1,3) *(5,6) this(2,4)]
  show "\<exists>fwd p' q'. decode_service_frame compact_vt cmp_buf_update rd' vm new_message ?p =
         (Inr (DECODERR_SUCCESS, fwd), p') \<and> message_name fwd = BINARY_FORWARD_MSG \<and>
       encode_content compact_vt wr' fwd ?q = (Inr True, q') \<and> content (cmp_buf q') = content out @ content b"
    by (simp add: cmp_cont_def compact_protocol_ctor_def)
qed

theorem relay_sends_the_same_bytes_witness:
  "\<exists>fwd p' q'. decode_service_frame binary_vt bin_buf_update (read_bin string_codec) relay_args new_message
       (binary_protocol_ctor (copy_in (bin.enc_header forward_header @ [1, 2]) (new_buf DEFAULT_BUF_LEN True))) =
       (Inr (DECODERR_SUCCESS, fwd), p') \<and> message_name fwd = BINARY_FORWARD_MSG \<and>
     encode_content binary_vt (write_bin string_codec) fwd (binary_protocol_ctor (new_buf DEFAULT_BUF_LEN True)) =
       (Inr True, q') \<and>
     content (bin_buf q') = bin.enc_header forward_header @ [1, 2]"
proof -
  let ?b = "new_buf DEFAULT_BUF_LEN True" and ?e = "bin.enc_header forward_header @ [1, 2]"
  have l: "length ?e < 200"
    by (simp add: bin.enc_header_def bin.header_fields_def forward_header_def empty_header_def
      bin.enc_path_def bin.enc_exten_info_def bin_encString_def)
  then have "m_write_ptr ?b + length ?e \<le> m_write_bound ?b" by (simp add: new_buf_def)
  note c = copy_in_props [OF new_buf_default_wf this]
  have r: "length (content (copy_in ?e ?b)) \<le> buf_room ?b" using l c(2) by (simp add: buf_room_def)
  show ?thesis
    using relay_sends_the_same_bytes [where h = forward_header and vm = relay_args
        and b = "copy_in ?e ?b" and bs = "[1, 2]" and out = ?b and rd = "read_bin string_codec"
        and wr = "write_bin string_codec", THEN conjunct1, THEN mp] forward_header_ok c r by simp
qed

end
