(* ===== verification/Thrift_Struct.thy ===== *)
theory Thrift_Struct
  imports Matrix_Coder
begin

text \<open>
  The structs of \<open>message/matrix_types.cpp\<close>. Every class there is the output of the thrift compiler
  for one struct: its \<open>read\<close> and \<open>write\<close> are the same code with the members filled in. This theory
  holds that code once, over a description of the members (\<open>tspec\<close>), with its two properties: what
  \<open>write\<close> wrote \<open>read\<close> gets back, and \<open>read\<close> is safe on every input. The descriptions of the classes
  are in \<open>Matrix_Types\<close>.
\<close>

section \<open>Struct descriptions and objects\<close>

text \<open>
  A required member is written always and its absence is an error for the reader, a default one is
  written always, an optional one is written when it is set.
\<close>

datatype requiredness = Required | Default | Optional

datatype tspec =
    S_string
  | S_i16
  | S_i32
  | S_i64
  | S_struct "(i16 \<times> requiredness \<times> tspec) list"
  | S_list tspec
  | S_map tspec

text \<open>
  An object: the members in the order of the description, \<open>None\<close> for one that was never assigned
  (its value is then that of the constructor, and \<open>__isset\<close> is false). A map is keyed by strings.
\<close>

datatype tval =
    V_string string
  | V_i16 i16
  | V_i32 i32
  | V_i64 i64
  | V_struct "tval option list"
  | V_list "tval list"
  | V_map "(string, tval) smap"

definition ttype_of :: "tspec \<Rightarrow> TType" where
  "ttype_of t =
     (case t of S_string \<Rightarrow> T_STRING | S_i16 \<Rightarrow> T_I16 | S_i32 \<Rightarrow> T_I32 | S_i64 \<Rightarrow> T_I64
      | S_struct _ \<Rightarrow> T_STRUCT | S_list _ \<Rightarrow> T_LIST | S_map _ \<Rightarrow> T_MAP)"

text \<open>What the constructor leaves.\<close>

definition default_value :: "tspec \<Rightarrow> tval" where
  "default_value t =
     (case t of S_string \<Rightarrow> V_string [] | S_i16 \<Rightarrow> V_i16 0 | S_i32 \<Rightarrow> V_i32 0 | S_i64 \<Rightarrow> V_i64 0
      | S_struct fs \<Rightarrow> V_struct (replicate (length fs) None) | S_list _ \<Rightarrow> V_list [] | S_map _ \<Rightarrow> V_map [])"

definition struct_members :: "nat \<Rightarrow> tval option \<Rightarrow> tval option list" where
  "struct_members n cur = (case cur of Some (V_struct ms) \<Rightarrow> ms | _ \<Rightarrow> replicate n None)"

section \<open>Reading\<close>

text \<open>
  The \<open>switch\<close> of \<open>read\<close>: per case label the type it expects and how it reads the member, given the
  member as it is (a struct is read into the object that is there).
\<close>

type_synonym 's branch = "i16 \<times> TType \<times> (tval option \<Rightarrow> ('s, tval) X)"

fun branch_index :: "i16 \<Rightarrow> (i16 \<times> 'a) list \<Rightarrow> nat option" where
  "branch_index i [] = None"
| "branch_index i ((j, _) # bs) = (if i = j then Some 0 else map_option Suc (branch_index i bs))"

type_synonym members_read = "tval option list \<times> bool list"

definition read_member :: "'s protocol \<Rightarrow> 's branch list \<Rightarrow> TType \<Rightarrow> i16 \<Rightarrow> members_read \<Rightarrow> ('s, members_read) X" where
  "read_member iprot bs ftype fid = (\<lambda>(ms, isset).
     case branch_index fid bs of
       None \<Rightarrow> xseq (skip iprot ftype) (xret (ms, isset))
     | Some k \<Rightarrow>
         if ftype = fst (snd (bs ! k))
         then xbind (snd (snd (bs ! k)) (ms ! k)) (\<lambda>v. xret (ms[k := Some v], isset[k := True]))
         else xseq (skip iprot ftype) (xret (ms, isset)))"

fun read_members :: "nat \<Rightarrow> 's protocol \<Rightarrow> 's branch list \<Rightarrow> members_read \<Rightarrow> ('s, members_read) X" where
  "read_members 0 iprot bs acc = mfail Diverges"
| "read_members (Suc f) iprot bs acc =
     xbind (readFieldBegin iprot) (\<lambda>(ftype, fid).
       if ftype = T_STOP then xret acc
       else xbind (read_member iprot bs ftype fid acc) (\<lambda>acc'.
            xseq (readFieldEnd iprot) (read_members f iprot bs acc')))"

text \<open>The turns of the loop are bounded by the unread bytes. \<open>reqs\<close> says which members are required.\<close>

definition struct_read :: "'s protocol \<Rightarrow> bool list \<Rightarrow> 's branch list \<Rightarrow> tval option list \<Rightarrow> ('s, tval) X" where
  "struct_read iprot reqs bs ms0 =
     xseq (readStructBegin iprot)
     (xbind (\<lambda>s. read_members (unread iprot s + 1) iprot bs (ms0, replicate (length bs) False) s) (\<lambda>(ms, isset).
      xseq (readStructEnd iprot)
        (if list_all2 (\<lambda>r b. r \<longrightarrow> b) reqs isset then xret (V_struct ms)
         else xfail (TProtocolException INVALID_DATA))))"

definition list_read :: "'s protocol \<Rightarrow> ('s, tval) X \<Rightarrow> ('s, tval) X" where
  "list_read iprot elem =
     xbind (readListBegin iprot) (\<lambda>(etype, size).
     xbind (xfor (unat size) (\<lambda>acc. xbind elem (\<lambda>v. xret (acc @ [v]))) []) (\<lambda>vs.
     xseq (readListEnd iprot) (xret (V_list vs))))"

definition map_read :: "'s protocol \<Rightarrow> (tval option \<Rightarrow> ('s, tval) X) \<Rightarrow> ('s, tval) X" where
  "map_read iprot elem =
     xbind (readMapBegin iprot) (\<lambda>(ktype, vtype, size).
     xbind (xfor (unat size)
              (\<lambda>acc. xbind (readString iprot) (\<lambda>k.
                     xbind (elem (smap_lookup acc k)) (\<lambda>v. xret (smap_insert k v acc)))) []) (\<lambda>m.
     xseq (readMapEnd iprot) (xret (V_map m))))"

fun read_value :: "'s protocol \<Rightarrow> tspec \<Rightarrow> tval option \<Rightarrow> ('s, tval) X" where
  "read_value iprot S_string _ = xbind (readString iprot) (\<lambda>v. xret (V_string v))"
| "read_value iprot S_i16 _ = xbind (readI16 iprot) (\<lambda>v. xret (V_i16 v))"
| "read_value iprot S_i32 _ = xbind (readI32 iprot) (\<lambda>v. xret (V_i32 v))"
| "read_value iprot S_i64 _ = xbind (readI64 iprot) (\<lambda>v. xret (V_i64 v))"
| "read_value iprot (S_struct fs) cur =
     struct_read iprot (map (\<lambda>(i, q, t). q = Required) fs)
       (map (\<lambda>(i, q, t). (i, ttype_of t, read_value iprot t)) fs) (struct_members (length fs) cur)"
| "read_value iprot (S_list t) _ = list_read iprot (read_value iprot t None)"
| "read_value iprot (S_map t) _ = map_read iprot (read_value iprot t)"

section \<open>Writing\<close>

text \<open>A member of an object with its description; whether it is written, and the value that is.\<close>

type_synonym member = "(i16 \<times> requiredness \<times> tspec) \<times> tval option"

definition member_id :: "member \<Rightarrow> i16" where
  "member_id x = fst (fst x)"

definition member_spec :: "member \<Rightarrow> tspec" where
  "member_spec x = snd (snd (fst x))"

definition member_written :: "member \<Rightarrow> bool" where
  "member_written x \<longleftrightarrow> fst (snd (fst x)) \<noteq> Optional \<or> snd x \<noteq> None"

definition member_value :: "member \<Rightarrow> tval" where
  "member_value x = (case snd x of Some v \<Rightarrow> v | None \<Rightarrow> default_value (member_spec x))"

text \<open>No C++ object has a member of another type: the other cases do not arise.\<close>

lemma xforeach_cong [fundef_cong]:
  "xs = ys \<Longrightarrow> (\<And>x. x \<in> set ys \<Longrightarrow> f x = g x) \<Longrightarrow> xforeach xs f = xforeach ys g"
  by (induction ys arbitrary: xs) auto

function write_value :: "'s protocol \<Rightarrow> tspec \<Rightarrow> tval \<Rightarrow> ('s, unit) X" where
  "write_value oprot S_string v = (case v of V_string x \<Rightarrow> writeString oprot x | _ \<Rightarrow> mfail Undefined_behaviour)"
| "write_value oprot S_i16 v = (case v of V_i16 x \<Rightarrow> writeI16 oprot x | _ \<Rightarrow> mfail Undefined_behaviour)"
| "write_value oprot S_i32 v = (case v of V_i32 x \<Rightarrow> writeI32 oprot x | _ \<Rightarrow> mfail Undefined_behaviour)"
| "write_value oprot S_i64 v = (case v of V_i64 x \<Rightarrow> writeI64 oprot x | _ \<Rightarrow> mfail Undefined_behaviour)"
| "write_value oprot (S_struct fs) v =
     (case v of
        V_struct ms \<Rightarrow>
          xseq (writeStructBegin oprot)
          (xseq (xforeach (zip fs ms) (\<lambda>x.
             xwhen (member_written x)
               (write_field oprot (ttype_of (member_spec x)) (member_id x)
                 (write_value oprot (member_spec x) (member_value x)))))
          (xseq (writeFieldStop oprot) (writeStructEnd oprot)))
      | _ \<Rightarrow> mfail Undefined_behaviour)"
| "write_value oprot (S_list t) v =
     (case v of
        V_list vs \<Rightarrow>
          xseq (writeListBegin oprot (ttype_of t) (of_nat (length vs)))
            (xseq (xforeach vs (write_value oprot t)) (writeListEnd oprot))
      | _ \<Rightarrow> mfail Undefined_behaviour)"
| "write_value oprot (S_map t) v =
     (case v of
        V_map m \<Rightarrow>
          xseq (writeMapBegin oprot T_STRING (ttype_of t) (of_nat (length m)))
            (xseq (xforeach m (\<lambda>(k, x). xseq (writeString oprot k) (write_value oprot t x))) (writeMapEnd oprot))
      | _ \<Rightarrow> mfail Undefined_behaviour)"
  by pat_completeness auto

lemma size_member:
  assumes "x \<in> set (zip fs ms)"
  shows "size (member_spec x) < Suc (size_list (size_prod (\<lambda>_. 0) (size_prod (\<lambda>_. 0) size)) fs)"
proof -
  have "fst x \<in> set fs" using assms by (auto simp: set_zip)
  from size_list_estimation' [OF this, of "size (member_spec x)" "size_prod (\<lambda>_. 0) (size_prod (\<lambda>_. 0) size)"]
  show ?thesis by (cases "fst x") (simp add: member_spec_def)
qed

termination write_value
  by (relation "measure (\<lambda>(_, t, _). size t)") (auto dest!: size_member)

section \<open>What read gets back\<close>

text \<open>
  An object as the reader rebuilds it: every member that was written is set. \<open>fits\<close> gives the limits
  within which it does; \<open>mok\<close> tells the sizes of maps the protocol can carry.
\<close>

function norm_value :: "tspec \<Rightarrow> tval \<Rightarrow> tval" where
  "norm_value (S_struct fs) v =
     (case v of
        V_struct ms \<Rightarrow>
          V_struct (map (\<lambda>x. if member_written x then Some (norm_value (member_spec x) (member_value x)) else None)
            (zip fs ms))
      | _ \<Rightarrow> v)"
| "norm_value (S_list t) v = (case v of V_list vs \<Rightarrow> V_list (map (norm_value t) vs) | _ \<Rightarrow> v)"
| "norm_value (S_map t) v = (case v of V_map m \<Rightarrow> V_map (map (\<lambda>(k, x). (k, norm_value t x)) m) | _ \<Rightarrow> v)"
| "norm_value S_string v = v"
| "norm_value S_i16 v = v"
| "norm_value S_i32 v = v"
| "norm_value S_i64 v = v"
  by pat_completeness auto
termination norm_value
  by (relation "measure (\<lambda>(t, _). size t)") (auto dest!: size_member)

function fits :: "(u32 \<Rightarrow> bool) \<Rightarrow> tspec \<Rightarrow> tval \<Rightarrow> bool" where
  "fits mok (S_struct fs) v =
     (case v of
        V_struct ms \<Rightarrow> length ms = length fs \<and> distinct (map fst fs) \<and>
          (\<forall>x\<in>set (zip fs ms). member_written x \<longrightarrow> fits mok (member_spec x) (member_value x))
      | _ \<Rightarrow> False)"
| "fits mok (S_list t) v = (case v of V_list vs \<Rightarrow> length vs \<le> 10240 \<and> (\<forall>x\<in>set vs. fits mok t x) | _ \<Rightarrow> False)"
| "fits mok (S_map t) v =
     (case v of
        V_map m \<Rightarrow> length m \<le> 10240 \<and> mok (of_nat (length m)) \<and> smap_wf m \<and>
          (\<forall>x\<in>set m. case x of (k, x) \<Rightarrow> length k \<le> 10485760 \<and> fits mok t x)
      | _ \<Rightarrow> False)"
| "fits mok S_string v = (case v of V_string x \<Rightarrow> length x \<le> 10485760 | _ \<Rightarrow> False)"
| "fits mok S_i16 v = (case v of V_i16 x \<Rightarrow> True | _ \<Rightarrow> False)"
| "fits mok S_i32 v = (case v of V_i32 x \<Rightarrow> True | _ \<Rightarrow> False)"
| "fits mok S_i64 v = (case v of V_i64 x \<Rightarrow> True | _ \<Rightarrow> False)"
  by pat_completeness auto
termination fits
  by (relation "measure (\<lambda>(_, t, _). size t)") (auto dest!: size_member)

lemma field_type [simp]: "ttype_of t \<in> field_types"
  by (cases t) (simp_all add: ttype_of_def field_types_def)

lemma branch_index_nth:
  assumes "distinct (map fst bs)" and "k < length bs"
  shows "branch_index (fst (bs ! k)) bs = Some k"
  using assms
proof (induction bs arbitrary: k)
  case (Cons b bs)
  show ?case
  proof (cases k)
    case 0
    then show ?thesis by (cases b) simp
  next
    case (Suc n)
    then have "fst (bs ! n) \<in> fst ` set bs" using Cons.prems by simp
    then have "fst (bs ! n) \<noteq> fst b" using Cons.prems(1) by (metis distinct.simps(2) list.simps(9) set_map)
    then show ?thesis using Cons Suc by (cases b) simp
  qed
qed simp

context thrift_codec
begin

text \<open>The bytes of an object: the members that are written, each with the id before it.\<close>

function enc_value :: "tspec \<Rightarrow> tval \<Rightarrow> byte list" where
  "enc_value (S_struct fs) v =
     (case v of
        V_struct ms \<Rightarrow>
          enc_fields 0 (concat (map (\<lambda>x.
            if member_written x
            then [(ttype_of (member_spec x), member_id x, enc_value (member_spec x) (member_value x))] else []) (zip fs ms)))
      | _ \<Rightarrow> [])"
| "enc_value (S_list t) v =
     (case v of V_list vs \<Rightarrow> encList (ttype_of t) (of_nat (length vs)) @ concat (map (enc_value t) vs) | _ \<Rightarrow> [])"
| "enc_value (S_map t) v =
     (case v of
        V_map m \<Rightarrow> encMap T_STRING (ttype_of t) (of_nat (length m)) @
                   concat (map (\<lambda>(k, x). encString k @ enc_value t x) m)
      | _ \<Rightarrow> [])"
| "enc_value S_string v = (case v of V_string x \<Rightarrow> encString x | _ \<Rightarrow> [])"
| "enc_value S_i16 v = (case v of V_i16 x \<Rightarrow> encI16 x | _ \<Rightarrow> [])"
| "enc_value S_i32 v = (case v of V_i32 x \<Rightarrow> encI32 x | _ \<Rightarrow> [])"
| "enc_value S_i64 v = (case v of V_i64 x \<Rightarrow> encI64 x | _ \<Rightarrow> [])"
  by pat_completeness auto
termination enc_value
  by (relation "measure (\<lambda>(t, _). size t)") (auto dest!: size_member)

lemma xseq_assoc: "xseq (xseq a b) c = xseq a (xseq b c)"
  by (rule ext) (auto simp: xseq_def xbind_run add.assoc split: prod.splits sum.splits)

text \<open>The members, given that each writes its bytes.\<close>

lemma writes_members:
  assumes "\<forall>x\<in>set xs. present x \<longrightarrow> ty x \<in> field_types \<and> (\<forall>l c. writes (l # c) (l # c) (wr x) (bs x))"
  shows "writes (l # k # c) (k # c)
    (xseq (xforeach xs (\<lambda>x. xwhen (present x) (write_field prot (ty x) (fid x) (wr x))))
       (xseq (writeFieldStop prot) (writeStructEnd prot)))
    (enc_fields l (concat (map (\<lambda>x. if present x then [(ty x, fid x, bs x)] else []) xs)))"
  using assms
proof (induction xs arbitrary: l)
  case Nil
  then show ?case using writes_end by (simp add: xseq_def)
next
  case (Cons x xs)
  then have IH: "writes (l # k # c) (k # c)
    (xseq (xforeach xs (\<lambda>x. xwhen (present x) (write_field prot (ty x) (fid x) (wr x))))
       (xseq (writeFieldStop prot) (writeStructEnd prot)))
    (enc_fields l (concat (map (\<lambda>x. if present x then [(ty x, fid x, bs x)] else []) xs)))" for l by simp
  show ?case
    using writes_opt_field [OF _ IH, of "present x" "ty x" "fid x" "wr x" "bs x" l] Cons.prems
    by (simp add: xseq_assoc)
qed

text \<open>The members, given that each reads its bytes; \<open>xs\<close> are those already dealt with.\<close>

lemma reads_members:
  fixes rd :: "'x \<Rightarrow> tval option \<Rightarrow> ('s, tval) X"
  assumes brs: "brs = map (\<lambda>x. (fid x, ty x, rd x)) (xs @ ys)" "distinct (map fid (xs @ ys))"
    and ok: "\<forall>y\<in>set ys. present y \<longrightarrow> ty y \<in> field_types \<and> (\<forall>l c. reads (l # c) (l # c) (rd y None) (bs y) (val y))"
    and len: "length ms = length xs" "length sn = length xs"
      "length (concat (map (\<lambda>y. if present y then [(ty y, fid y, bs y)] else []) ys)) < f"
  shows "reads (l # c) (last_id l (concat (map (\<lambda>y. if present y then [(ty y, fid y, bs y)] else []) ys)) # c)
    (read_members f prot brs (ms @ replicate (length ys) None, sn @ replicate (length ys) False))
    (enc_fields l (concat (map (\<lambda>y. if present y then [(ty y, fid y, bs y)] else []) ys)))
    (ms @ map (\<lambda>y. if present y then Some (val y) else None) ys, sn @ map present ys)"
  using assms
proof (induction ys arbitrary: xs ms sn f l)
  case Nil
  then obtain g where f: "f = Suc g" by (cases f) auto
  show ?case by (simp add: f, rule reads_then_nil [OF r_fieldStop]) (simp add: reads_xret)
next
  case (Cons y ys)
  show ?case
  proof (cases "present y")
    case False
    then show ?thesis
      using Cons.IH [of "xs @ [y]" "ms @ [None]" "sn @ [False]" f l] Cons.prems by simp
  next
    case True
    from Cons.prems(6) obtain g where
      f: "f = Suc g" "length (concat (map (\<lambda>y. if present y then [(ty y, fid y, bs y)] else []) ys)) < g"
      using True by (cases f) auto
    let ?k = "length xs"
    have bk: "branch_index (fid y) brs = Some ?k"
      using branch_index_nth [of brs ?k] Cons.prems(1,2) by (simp add: nth_append comp_def)
    have t: "ty y \<in> field_types" and r: "reads (fid y # c) (fid y # c) (rd y None) (bs y) (val y)"
      using Cons.prems(3) True by auto
    let ?acc = "(ms @ None # replicate (length ys) None, sn @ False # replicate (length ys) False)"
    let ?acc' = "(ms @ Some (val y) # replicate (length ys) None, sn @ True # replicate (length ys) False)"
    have m: "reads (fid y # c) (fid y # c) (read_member prot brs (ty y) (fid y) ?acc) (bs y) ?acc'"
      using reads_map [OF r, of "\<lambda>v. (ms @ Some v # replicate (length ys) None, sn @ True # replicate (length ys) False)"]
        bk Cons.prems(1,4,5)
      by (simp add: read_member_def nth_append list_update_append)
    have more: "reads (fid y # c) (last_id (fid y) (concat (map (\<lambda>y. if present y then [(ty y, fid y, bs y)] else []) ys)) # c)
        (read_members g prot brs ?acc')
        (enc_fields (fid y) (concat (map (\<lambda>y. if present y then [(ty y, fid y, bs y)] else []) ys)))
        (ms @ Some (val y) # map (\<lambda>y. if present y then Some (val y) else None) ys, sn @ True # map present ys)"
      using Cons.IH [of "xs @ [y]" "ms @ [Some (val y)]" "sn @ [True]" g "fid y"] Cons.prems f(2) by simp
    show ?thesis
      unfolding f using stop_not_field [OF t] True
      by (simp, intro reads_xbind [OF r_fieldBegin [OF t]])
         (auto intro: reads_xbind [OF m] reads_xseq_nil r_fieldEnd more)
  qed
qed

lemma struct_reads:
  fixes rd :: "'x \<Rightarrow> tval option \<Rightarrow> ('s, tval) X"
  assumes d: "distinct (map fid ys)"
    and ok: "\<forall>y\<in>set ys. present y \<longrightarrow> ty y \<in> field_types \<and> (\<forall>l c. reads (l # c) (l # c) (rd y None) (bs y) (val y))"
    and req: "\<forall>y\<in>set ys. req y \<longrightarrow> present y"
  shows "reads (l # c) (l # c)
    (struct_read prot (map req ys) (map (\<lambda>x. (fid x, ty x, rd x)) ys) (replicate (length ys) None))
    (enc_fields 0 (concat (map (\<lambda>y. if present y then [(ty y, fid y, bs y)] else []) ys)))
    (V_struct (map (\<lambda>y. if present y then Some (val y) else None) ys))"
proof -
  let ?fs = "concat (map (\<lambda>y. if present y then [(ty y, fid y, bs y)] else []) ys)"
  let ?brs = "map (\<lambda>x. (fid x, ty x, rd x)) ys"
  let ?acc = "(replicate (length ys) None, replicate (length ys) False)"
  let ?res = "(map (\<lambda>y. if present y then Some (val y) else None) ys, map present ys)"
  let ?loop = "\<lambda>s. read_members (unread prot s + 1) prot ?brs ?acc s"
  have loop: "reads (0 # l # c) (last_id 0 ?fs # l # c) ?loop (enc_fields 0 ?fs) ?res"
    unfolding reads_def
  proof (intro allI impI)
    fix s rest
    assume s: "st (0 # l # c) s" and cont: "cont s = enc_fields 0 ?fs @ rest"
    show "\<exists>s'. ?loop s = (Inr (of_nat (length (enc_fields 0 ?fs)), ?res), s') \<and>
        st (last_id 0 ?fs # l # c) s' \<and> cont s' = rest"
      using readsD [OF reads_members [of ?brs fid ty rd "[]" ys present bs val "[]" "[]" "unread prot s + 1", OF _ _ ok] s cont]
        d length_enc_fields [of ?fs 0] unread_cont [OF s] cont by simp
  qed
  have "list_all2 (\<lambda>r b. r \<longrightarrow> b) (map req ys) (map present ys)"
    using req by (auto simp: list_all2_map1 list_all2_map2 list.rel_refl_strong)
  then show ?thesis
    unfolding struct_read_def
    by (intro reads_xseq_nil [OF r_structBegin]) (auto intro!: reads_then_nil [OF loop [simplified]]  reads_xseq_nil [OF r_structEnd reads_xret])
qed

lemma list_reads:
  assumes "length vs \<le> 10240" "t \<in> field_types" "\<forall>v\<in>set vs. reads c c elem (enc v) (nv v)"
  shows "reads c c (list_read prot elem) (encList t (of_nat (length vs)) @ concat (map enc vs)) (V_list (map nv vs))"
proof -
  have elems: "reads c c (xfor (length vs) (\<lambda>acc. xbind elem (\<lambda>v. xret (acc @ [v]))) [])
      (concat (map enc vs)) (foldl (\<lambda>acc v. acc @ [nv v]) [] vs)"
    using assms(3) by (intro reads_xfor reads_map) auto
  have "foldl (\<lambda>acc v. acc @ [nv v]) [] vs = map nv vs" by (induction vs rule: rev_induct) auto
  with elems have "reads c c (xbind (xfor (length vs) (\<lambda>acc. xbind elem (\<lambda>v. xret (acc @ [v]))) [])
      (\<lambda>vs. xseq (readListEnd prot) (xret (V_list vs)))) (concat (map enc vs)) (V_list (map nv vs))"
    by (intro reads_then_nil [of c c _ _ "map nv vs"] reads_xseq_nil [OF r_listEnd reads_xret]) simp
  then show ?thesis
    unfolding list_read_def
    using le_container [OF assms(1)] assms(2) by (auto intro!: reads_xbind [OF r_listBegin])
qed

lemma map_elems_reads:
  assumes "smap_wf (done @ es)" "\<forall>(k, v)\<in>set es. length k \<le> 10485760 \<and> reads c c (elem None) (enc v) (nv v)"
  shows "reads c c (xfor (length es)
           (\<lambda>acc. xbind (readString prot) (\<lambda>k. xbind (elem (smap_lookup acc k)) (\<lambda>v. xret (smap_insert k v acc))))
           (map (\<lambda>(k, v). (k, nv v)) done))
    (concat (map (\<lambda>(k, v). encString k @ enc v) es)) (map (\<lambda>(k, v). (k, nv v)) (done @ es))"
  using assms
proof (induction es arbitrary: "done")
  case Nil
  then show ?case by (simp add: reads_xret)
next
  case (Cons e es)
  obtain k v where e: "e = (k, v)" by (cases e)
  let ?acc = "map (\<lambda>(k, v). (k, nv v)) done"
  have wf: "smap_wf (done @ [(k, v)])" using Cons.prems(1) e by (simp add: smap_wf_def sorted_wrt_append)
  have "k \<notin> fst ` set done" using wf by (auto simp: smap_wf_def sorted_wrt_append)
  then have none: "smap_lookup ?acc k = None"
    by (auto simp: smap_lookup_def map_of_eq_None_iff image_image case_prod_unfold)
  have "smap_wf (?acc @ [(k, nv v)])" using wf by (simp add: smap_wf_def case_prod_unfold comp_def)
  then have ins: "smap_insert k (nv v) ?acc = map (\<lambda>(k, v). (k, nv v)) (done @ [(k, v)])"
    by (simp add: smap_insert_last)
  have r: "reads c c (elem None) (enc v) (nv v)" "length k \<le> 10485760" using Cons.prems(2) e by auto
  have more: "reads c c (xfor (length es)
           (\<lambda>acc. xbind (readString prot) (\<lambda>k. xbind (elem (smap_lookup acc k)) (\<lambda>v. xret (smap_insert k v acc))))
           (smap_insert k (nv v) ?acc))
    (concat (map (\<lambda>(k, v). encString k @ enc v) es)) (map (\<lambda>(k, v). (k, nv v)) (done @ e # es))"
    using Cons.IH [of "done @ [(k, v)]"] Cons.prems e unfolding ins by simp
  have "reads c c (xbind (readString prot) (\<lambda>k. xbind (elem (smap_lookup ?acc k)) (\<lambda>v. xret (smap_insert k v ?acc))))
      (encString k @ enc v) (smap_insert k (nv v) ?acc)"
    using none by (intro reads_xbind [OF r_string [OF r(2)]]) (auto intro: reads_map [OF r(1)])
  from reads_xbind [where k = "xfor (length es) (\<lambda>acc. xbind (readString prot) (\<lambda>k.
      xbind (elem (smap_lookup acc k)) (\<lambda>v. xret (smap_insert k v acc))))", OF this more]
  show ?case by (simp add: e)
qed

lemma map_reads:
  assumes "length m \<le> 10240" "t \<in> field_types" "map_ok (of_nat (length m))" "smap_wf m"
    and "\<forall>(k, v)\<in>set m. length k \<le> 10485760 \<and> reads c c (elem None) (enc v) (nv v)"
  shows "reads c c (map_read prot elem)
    (encMap T_STRING t (of_nat (length m)) @ concat (map (\<lambda>(k, v). encString k @ enc v) m))
    (V_map (map (\<lambda>(k, v). (k, nv v)) m))"
proof -
  from map_elems_reads [of "[]" m c elem enc nv] assms(4,5)
  have "reads c c (xbind (xfor (length m)
           (\<lambda>acc. xbind (readString prot) (\<lambda>k. xbind (elem (smap_lookup acc k)) (\<lambda>v. xret (smap_insert k v acc)))) [])
      (\<lambda>m. xseq (readMapEnd prot) (xret (V_map m))))
    (concat (map (\<lambda>(k, v). encString k @ enc v) m)) (V_map (map (\<lambda>(k, v). (k, nv v)) m))"
    by (intro reads_then_nil [of c c _ _ "map (\<lambda>(k, v). (k, nv v)) m"] reads_xseq_nil [OF r_mapEnd reads_xret]) simp
  then show ?thesis
    unfolding map_read_def
    using le_container [OF assms(1)] assms(2,3) by (auto intro!: reads_xbind [OF r_mapBegin])
qed

text \<open>Writing an object and reading it back, by induction on its description.\<close>

lemma value_writes: "fits map_ok t v \<Longrightarrow> writes (l # c) (l # c) (write_value prot t v) (enc_value t v)"
proof (induction "map_ok" t v arbitrary: l c rule: fits.induct)
  case (1 mok fs v)
  then obtain ms where v: "v = V_struct ms" by (cases v) auto
  have "\<forall>x\<in>set (zip fs ms). member_written x \<longrightarrow> ttype_of (member_spec x) \<in> field_types \<and>
      (\<forall>l c. writes (l # c) (l # c) (write_value prot (member_spec x) (member_value x)) (enc_value (member_spec x) (member_value x)))"
    using 1 by (simp add: v)
  from writes_xseq_nil [OF w_structBegin writes_members [OF this, where fid = member_id]]
  show ?case by (simp add: v)
next
  case (2 mok t v)
  then obtain vs where v: "v = V_list vs" by (cases v) auto
  have "writes (l # c) (l # c) (xforeach vs (write_value prot t)) (concat (map (enc_value t) vs))"
    using 2 by (intro writes_xforeach) (simp add: v)
  from writes_xseq [OF w_listBegin writes_xseq [OF this w_listEnd]] 2(2) show ?case by (simp add: v le_container)
next
  case (3 mok t v)
  then obtain m where v: "v = V_map m" by (cases v) auto
  let ?body = "\<lambda>(k, x). xseq (writeString prot k) (write_value prot t x)"
  have "writes (l # c) (l # c) (?body e) ((\<lambda>(k, x). encString k @ enc_value t x) e)" if "e \<in> set m" for e
    using 3 that by (cases e) (fastforce simp: v intro!: writes_xseq w_string)
  then have "writes (l # c) (l # c) (xforeach m ?body) (concat (map (\<lambda>(k, x). encString k @ enc_value t x) m))"
    by (rule writes_xforeach)
  from writes_xseq [OF w_mapBegin writes_xseq [OF this w_mapEnd]] 3(2) show ?case by (simp add: v le_container)
qed (auto split: tval.splits intro: w_string w_i16 w_i32 w_i64)

lemma value_reads:
  "fits mok t v \<Longrightarrow> mok = map_ok \<Longrightarrow> reads (l # c) (l # c) (read_value prot t None) (enc_value t v) (norm_value t v)"
proof (induction mok t v arbitrary: l c rule: fits.induct)
  case (1 mok fs v)
  then obtain ms where v: "v = V_struct ms" "length ms = length fs" "distinct (map fst fs)" by (cases v) auto
  let ?ys = "zip fs ms"
  have ok: "\<forall>x\<in>set ?ys. member_written x \<longrightarrow> ttype_of (member_spec x) \<in> field_types \<and>
      (\<forall>l c. reads (l # c) (l # c) (read_value prot (member_spec x) None) (enc_value (member_spec x) (member_value x))
         (norm_value (member_spec x) (member_value x)))"
    using 1 by (simp add: v)
  have m: "map (f \<circ> fst) ?ys = map f fs" for f :: "i16 \<times> requiredness \<times> tspec \<Rightarrow> 'x"
    using v(2) by (simp flip: map_map)
  have d: "distinct (map member_id ?ys)"
    using v(3) m [of fst] by (simp add: member_id_def [abs_def] comp_def)
  have r: "\<forall>x\<in>set ?ys. fst (snd (fst x)) = Required \<longrightarrow> member_written x" by (auto simp: member_written_def)
  have e: "map (\<lambda>(i, q, t). q = Required) fs = map (\<lambda>x. fst (snd (fst x)) = Required) ?ys"
    "map (\<lambda>(i, q, t). (i, ttype_of t, read_value prot t)) fs =
       map (\<lambda>x. (member_id x, ttype_of (member_spec x), read_value prot (member_spec x))) ?ys"
    using m [of "\<lambda>(i, q, t). q = Required"] m [of "\<lambda>(i, q, t). (i, ttype_of t, read_value prot t)"]
    by (simp_all add: member_id_def member_spec_def comp_def case_prod_unfold)
  from struct_reads [where req = "\<lambda>x. fst (snd (fst x)) = Required" and ys = ?ys and fid = member_id
      and present = member_written and rd = "\<lambda>x. read_value prot (member_spec x)" and ty = "\<lambda>x. ttype_of (member_spec x)",
      OF d ok r] v(2)
  show ?case by (simp add: v(1) e struct_members_def)
next
  case (2 mok t v)
  then obtain vs where v: "v = V_list vs" by (cases v) auto
  then show ?case using 2 list_reads [of vs "ttype_of t" "l # c" "read_value prot t None" "enc_value t" "norm_value t"] by simp
next
  case (3 mok t v)
  then obtain m where v: "v = V_map m" by (cases v) auto
  have "\<forall>(k, x)\<in>set m. length k \<le> 10485760 \<and>
      reads (l # c) (l # c) (read_value prot t None) (enc_value t x) (norm_value t x)"
    using 3 by (auto simp: v)
  with 3(2,3) map_reads [of m "ttype_of t" "l # c" "read_value prot t" "enc_value t" "norm_value t"]
  show ?case by (simp add: v)
qed (auto split: tval.splits intro: reads_map r_string r_i16 r_i32 r_i64)

end

section \<open>Reading arbitrary bytes\<close>

context thrift_reader
begin

lemma member_safe:
  assumes "\<forall>b\<in>set bs. \<forall>cur. safe prot ok B d d 0 (snd (snd b) cur)"
  shows "safe prot ok B d d 0 (read_member prot bs t i acc)"
proof -
  have "k < length bs" if "branch_index i bs = Some k" for k
    using that by (induction i bs arbitrary: k rule: branch_index.induct) (auto split: if_splits)
  then have "safe prot ok B d d 0 (snd (snd (bs ! k)) cur)" if "branch_index i bs = Some k" for k cur
    using assms that by simp
  then show ?thesis
    unfolding read_member_def
    by (intro safe_case_prod) (auto split: option.split intro!: safe_intros skip_safe)
qed

lemma members_safe:
  assumes "B + 1 \<le> f" and "\<And>B d. \<forall>b\<in>set bs. \<forall>cur. safe prot ok B d d 0 (snd (snd b) cur)"
  shows "safe prot ok B d d (Suc 0) (read_members f prot bs acc)"
  using assms(1)
proof (induction f arbitrary: B acc)
  case (Suc f)
  have more: "safe prot ok (B - Suc 0) d d 0 (read_members f prot bs acc')" if "0 < B" for acc'
    by (rule safe_weaken0, rule Suc.IH) (use Suc.prems that in simp)
  show ?case
    by (subst read_members.simps, rule safe_xbind1 [OF fieldBegin])
       (intro safe_intros member_safe [OF assms(2)] fieldEnd more; assumption)
qed simp

lemma struct_safe:
  assumes "\<And>B d. \<forall>b\<in>set bs. \<forall>cur. safe prot ok B d d 0 (snd (snd b) cur)"
  shows "safe prot ok B d d (Suc 0) (struct_read prot reqs bs ms)"
  unfolding struct_read_def
proof (rule safe_xseq0 [OF structBegin], rule safe_xbind1)
  show "safe prot ok B (Suc d) (Suc d) (Suc 0)
      (\<lambda>s. read_members (unread prot s + 1) prot bs (ms, replicate (length bs) False) s)"
    by (rule safe_at_state [where F = "\<lambda>s. read_members (unread prot s + 1) prot bs (ms, replicate (length bs) False)"],
        rule members_safe) (use assms in simp_all)
qed (intro safe_case_prod safe_xseq0 [OF structEnd] safe_intros)

lemma value_safe: "safe prot ok B d d 0 (read_value prot t cur)"
proof (induction t arbitrary: B d cur)
  case (S_struct fs)
  have "\<forall>b\<in>set (map (\<lambda>(i, q, t). (i, ttype_of t, read_value prot t)) fs). \<forall>cur. safe prot ok B d d 0 (snd (snd b) cur)" for B d
    using S_struct by fastforce
  from safe_weaken0 [OF struct_safe [OF this]] show ?case by simp
next
  case (S_list t)
  then show ?case
    by (simp add: list_read_def)
       (rule safe_weaken0, rule safe_xbind1 [OF listBegin], intro safe_intros safe_xfor listEnd)
next
  case (S_map t)
  then show ?case
    by (simp add: map_read_def)
       (rule safe_weaken0, rule safe_xbind1 [OF mapBegin], intro safe_intros safe_xfor mapEnd string_read)
qed (auto intro!: safe_intros reads_safe)

end

end
