(* ===== verification/Matrix_Types.thy ===== *)
theory Matrix_Types
  imports Thrift_Struct
begin

text \<open>
  The message classes: for each struct of \<open>message/matrix_types.cpp\<close> and \<open>message/lan_types.cpp\<close> the ids,
  requiredness and types of its members, as its \<open>read\<close> and \<open>write\<close> have them (\<open>Thrift_Struct\<close> gives the
  code of both). The classes registered with the coder make up \<open>matrix_codec\<close>, for which the
  contracts the coder asks of message bodies are shown.
\<close>

section \<open>Structs\<close>

(* empty: no members *)
definition empty_struct :: tspec where
  "empty_struct = S_struct []"

(* network_address: ip, port *)
definition network_address :: tspec where
  "network_address = S_struct [(1, Required, S_string), (2, Required, S_i16)]"

(* shake_hand_req: body *)
definition shake_hand_req :: tspec where
  "shake_hand_req = S_struct [(1, Default, empty_struct)]"

(* shake_hand_resp: body *)
definition shake_hand_resp :: tspec where
  "shake_hand_resp = S_struct [(1, Default, empty_struct)]"

(* multisig_sign_item: wallet, nonce, sign *)
definition multisig_sign_item :: tspec where
  "multisig_sign_item = S_struct [(1, Required, S_string), (2, Required, S_string), (3, Required, S_string)]"

(* node_list_task_req_data: task_id, peer_nodes_list, additional, wallet, nonce, sign,
   multisig_wallets, multisig_threshold, multisig_signs, session_id, session_id_sign *)
definition node_list_task_req_data :: tspec where
  "node_list_task_req_data = S_struct
     [(1, Required, S_string), (2, Required, S_list S_string), (3, Required, S_string),
      (4, Required, S_string), (5, Required, S_string), (6, Required, S_string),
      (7, Required, S_list S_string), (8, Required, S_i32), (9, Required, S_list multisig_sign_item),
      (10, Required, S_string), (11, Required, S_string)]"

(* node_list_task_req_body: data *)
definition node_list_task_req_body :: tspec where
  "node_list_task_req_body = S_struct [(1, Required, S_string)]"

(* node_list_task_req: body *)
definition node_list_task_req :: tspec where
  "node_list_task_req = S_struct [(1, Default, node_list_task_req_body)]"

(* node_list_task_rsp_body: data *)
definition node_list_task_rsp_body :: tspec where
  "node_list_task_rsp_body = S_struct [(1, Required, S_string)]"

(* node_list_task_rsp: body *)
definition node_list_task_rsp :: tspec where
  "node_list_task_rsp = S_struct [(1, Default, node_list_task_rsp_body)]"

(* node_create_task_req_data: peer_nodes_list, additional, wallet, nonce, sign, multisig_wallets,
   multisig_threshold, multisig_signs, session_id, session_id_sign *)
definition node_create_task_req_data :: tspec where
  "node_create_task_req_data = S_struct
     [(1, Required, S_list S_string), (2, Required, S_string), (3, Required, S_string),
      (4, Required, S_string), (5, Required, S_string), (6, Required, S_list S_string),
      (7, Required, S_i32), (8, Required, S_list multisig_sign_item), (9, Required, S_string),
      (10, Required, S_string)]"

(* node_create_task_req_body: data *)
definition node_create_task_req_body :: tspec where
  "node_create_task_req_body = S_struct [(1, Required, S_string)]"

(* node_create_task_req: body *)
definition node_create_task_req :: tspec where
  "node_create_task_req = S_struct [(1, Default, node_create_task_req_body)]"

(* node_create_task_rsp_body: data *)
definition node_create_task_rsp_body :: tspec where
  "node_create_task_rsp_body = S_struct [(1, Required, S_string)]"

(* node_create_task_rsp: body *)
definition node_create_task_rsp :: tspec where
  "node_create_task_rsp = S_struct [(1, Default, node_create_task_rsp_body)]"

(* node_start_task_req_data: task_id, peer_nodes_list, additional, wallet, nonce, sign,
   multisig_wallets, multisig_threshold, multisig_signs, session_id, session_id_sign *)
definition node_start_task_req_data :: tspec where
  "node_start_task_req_data = S_struct
     [(1, Required, S_string), (2, Required, S_list S_string), (3, Required, S_string),
      (4, Required, S_string), (5, Required, S_string), (6, Required, S_string),
      (7, Required, S_list S_string), (8, Required, S_i32), (9, Required, S_list multisig_sign_item),
      (10, Required, S_string), (11, Required, S_string)]"

(* node_start_task_req_body: data *)
definition node_start_task_req_body :: tspec where
  "node_start_task_req_body = S_struct [(1, Required, S_string)]"

(* node_start_task_req: body *)
definition node_start_task_req :: tspec where
  "node_start_task_req = S_struct [(1, Default, node_start_task_req_body)]"

(* node_start_task_rsp_body: data *)
definition node_start_task_rsp_body :: tspec where
  "node_start_task_rsp_body = S_struct [(1, Required, S_string)]"

(* node_start_task_rsp: body *)
definition node_start_task_rsp :: tspec where
  "node_start_task_rsp = S_struct [(1, Default, node_start_task_rsp_body)]"

(* node_shutdown_task_req_data: task_id, peer_nodes_list, additional, wallet, nonce, sign,
   multisig_wallets, multisig_threshold, multisig_signs, session_id, session_id_sign *)
definition node_shutdown_task_req_data :: tspec where
  "node_shutdown_task_req_data = S_struct
     [(1, Required, S_string), (2, Required, S_list S_string), (3, Required, S_string),
      (4, Required, S_string), (5, Required, S_string), (6, Required, S_string),
      (7, Required, S_list S_string), (8, Required, S_i32), (9, Required, S_list multisig_sign_item),
      (10, Required, S_string), (11, Required, S_string)]"

(* node_shutdown_task_req_body: data *)
definition node_shutdown_task_req_body :: tspec where
  "node_shutdown_task_req_body = S_struct [(1, Required, S_string)]"

(* node_shutdown_task_req: body *)
definition node_shutdown_task_req :: tspec where
  "node_shutdown_task_req = S_struct [(1, Default, node_shutdown_task_req_body)]"

(* node_shutdown_task_rsp_body: data *)
definition node_shutdown_task_rsp_body :: tspec where
  "node_shutdown_task_rsp_body = S_struct [(1, Required, S_string)]"

(* node_shutdown_task_rsp: body *)
definition node_shutdown_task_rsp :: tspec where
  "node_shutdown_task_rsp = S_struct [(1, Default, node_shutdown_task_rsp_body)]"

(* node_poweroff_task_req_data: task_id, peer_nodes_list, additional, wallet, nonce, sign,
   multisig_wallets, multisig_threshold, multisig_signs, session_id, session_id_sign *)
definition node_poweroff_task_req_data :: tspec where
  "node_poweroff_task_req_data = S_struct
     [(1, Required, S_string), (2, Required, S_list S_string), (3, Required, S_string),
      (4, Required, S_string), (5, Required, S_string), (6, Required, S_string),
      (7, Required, S_list S_string), (8, Required, S_i32), (9, Required, S_list multisig_sign_item),
      (10, Required, S_string), (11, Required, S_string)]"

(* node_poweroff_task_req_body: data *)
definition node_poweroff_task_req_body :: tspec where
  "node_poweroff_task_req_body = S_struct [(1, Required, S_string)]"

(* node_poweroff_task_req: body *)
definition node_poweroff_task_req :: tspec where
  "node_poweroff_task_req = S_struct [(1, Default, node_poweroff_task_req_body)]"

(* node_poweroff_task_rsp_body: data *)
definition node_poweroff_task_rsp_body :: tspec where
  "node_poweroff_task_rsp_body = S_struct [(1, Required, S_string)]"

(* node_poweroff_task_rsp: body *)
definition node_poweroff_task_rsp :: tspec where
  "node_poweroff_task_rsp = S_struct [(1, Default, node_poweroff_task_rsp_body)]"

(* node_stop_task_req_data: task_id, peer_nodes_list, additional, wallet, nonce, sign,
   multisig_wallets, multisig_threshold, multisig_signs, session_id, session_id_sign *)
definition node_stop_task_req_data :: tspec where
  "node_stop_task_req_data = S_struct
     [(1, Required, S_string), (2, Required, S_list S_string), (3, Required, S_string),
      (4, Required, S_string), (5, Required, S_string), (6, Required, S_string),
      (7, Required, S_list S_string), (8, Required, S_i32), (9, Required, S_list multisig_sign_item),
      (10, Required, S_string), (11, Required, S_string)]"

(* node_stop_task_req_body: data *)
definition node_stop_task_req_body :: tspec where
  "node_stop_task_req_body = S_struct [(1, Required, S_string)]"

(* node_stop_task_req: body *)
definition node_stop_task_req :: tspec where
  "node_stop_task_req = S_struct [(1, Default, node_stop_task_req_body)]"

(* node_stop_task_rsp_body: data *)
definition node_stop_task_rsp_body :: tspec where
  "node_stop_task_rsp_body = S_struct [(1, Required, S_string)]"

(* node_stop_task_rsp: body *)
definition node_stop_task_rsp :: tspec where
  "node_stop_task_rsp = S_struct [(1, Default, node_stop_task_rsp_body)]"

(* node_restart_task_req_data: task_id, peer_nodes_list, additional, wallet, nonce, sign,
   multisig_wallets, multisig_threshold, multisig_signs, session_id, session_id_sign, force_reboot *)
definition node_restart_task_req_data :: tspec where
  "node_restart_task_req_data = S_struct
     [(1, Required, S_string), (2, Required, S_list S_string), (3, Required, S_string),
      (4, Required, S_string), (5, Required, S_string), (6, Required, S_string),
      (7, Required, S_list S_string), (8, Required, S_i32), (9, Required, S_list multisig_sign_item),
      (10, Required, S_string), (11, Required, S_string), (12, Optional, S_i16)]"

(* node_restart_task_req_body: data *)
definition node_restart_task_req_body :: tspec where
  "node_restart_task_req_body = S_struct [(1, Required, S_string)]"

(* node_restart_task_req: body *)
definition node_restart_task_req :: tspec where
  "node_restart_task_req = S_struct [(1, Default, node_restart_task_req_body)]"

(* node_restart_task_rsp_body: data *)
definition node_restart_task_rsp_body :: tspec where
  "node_restart_task_rsp_body = S_struct [(1, Required, S_string)]"

(* node_restart_task_rsp: body *)
definition node_restart_task_rsp :: tspec where
  "node_restart_task_rsp = S_struct [(1, Default, node_restart_task_rsp_body)]"

(* node_reset_task_req_data: task_id, peer_nodes_list, additional, wallet, nonce, sign,
   multisig_wallets, multisig_threshold, multisig_signs, session_id, session_id_sign *)
definition node_reset_task_req_data :: tspec where
  "node_reset_task_req_data = S_struct
     [(1, Required, S_string), (2, Required, S_list S_string), (3, Required, S_string),
      (4, Required, S_string), (5, Required, S_string), (6, Required, S_string),
      (7, Required, S_list S_string), (8, Required, S_i32), (9, Required, S_list multisig_sign_item),
      (10, Required, S_string), (11, Required, S_string)]"

(* node_reset_task_req_body: data *)
definition node_reset_task_req_body :: tspec where
  "node_reset_task_req_body = S_struct [(1, Required, S_string)]"

(* node_reset_task_req: body *)
definition node_reset_task_req :: tspec where
  "node_reset_task_req = S_struct [(1, Default, node_reset_task_req_body)]"

(* node_reset_task_rsp_body: data *)
definition node_reset_task_rsp_body :: tspec where
  "node_reset_task_rsp_body = S_struct [(1, Required, S_string)]"

(* node_reset_task_rsp: body *)
definition node_reset_task_rsp :: tspec where
  "node_reset_task_rsp = S_struct [(1, Default, node_reset_task_rsp_body)]"

(* node_delete_task_req_data: task_id, peer_nodes_list, additional, wallet, nonce, sign,
   multisig_wallets, multisig_threshold, multisig_signs, session_id, session_id_sign *)
definition node_delete_task_req_data :: tspec where
  "node_delete_task_req_data = S_struct
     [(1, Required, S_string), (2, Required, S_list S_string), (3, Required, S_string),
      (4, Required, S_string), (5, Required, S_string), (6, Required, S_string),
      (7, Required, S_list S_string), (8, Required, S_i32), (9, Required, S_list multisig_sign_item),
      (10, Required, S_string), (11, Required, S_string)]"

(* node_delete_task_req_body: data *)
definition node_delete_task_req_body :: tspec where
  "node_delete_task_req_body = S_struct [(1, Required, S_string)]"

(* node_delete_task_req: body *)
definition node_delete_task_req :: tspec where
  "node_delete_task_req = S_struct [(1, Default, node_delete_task_req_body)]"

(* node_delete_task_rsp_body: data *)
definition node_delete_task_rsp_body :: tspec where
  "node_delete_task_rsp_body = S_struct [(1, Required, S_string)]"

(* node_delete_task_rsp: body *)
definition node_delete_task_rsp :: tspec where
  "node_delete_task_rsp = S_struct [(1, Default, node_delete_task_rsp_body)]"

(* node_task_logs_req_data: task_id, head_or_tail, number_of_lines, peer_nodes_list, additional,
   wallet, nonce, sign, multisig_wallets, multisig_threshold, multisig_signs, session_id,
   session_id_sign *)
definition node_task_logs_req_data :: tspec where
  "node_task_logs_req_data = S_struct
     [(1, Required, S_string), (2, Required, S_i16), (3, Required, S_i32),
      (4, Required, S_list S_string), (5, Required, S_string), (6, Required, S_string),
      (7, Required, S_string), (8, Required, S_string), (9, Required, S_list S_string),
      (10, Required, S_i32), (11, Required, S_list multisig_sign_item), (12, Required, S_string),
      (13, Required, S_string)]"

(* node_task_logs_req_body: data *)
definition node_task_logs_req_body :: tspec where
  "node_task_logs_req_body = S_struct [(1, Required, S_string)]"

(* node_task_logs_req: body *)
definition node_task_logs_req :: tspec where
  "node_task_logs_req = S_struct [(1, Default, node_task_logs_req_body)]"

(* node_task_logs_rsp_body: data *)
definition node_task_logs_rsp_body :: tspec where
  "node_task_logs_rsp_body = S_struct [(1, Required, S_string)]"

(* node_task_logs_rsp: body *)
definition node_task_logs_rsp :: tspec where
  "node_task_logs_rsp = S_struct [(1, Default, node_task_logs_rsp_body)]"

(* node_modify_task_req_data: task_id, peer_nodes_list, additional, wallet, nonce, sign,
   multisig_wallets, multisig_threshold, multisig_signs, session_id, session_id_sign *)
definition node_modify_task_req_data :: tspec where
  "node_modify_task_req_data = S_struct
     [(1, Required, S_string), (2, Required, S_list S_string), (3, Required, S_string),
      (4, Required, S_string), (5, Required, S_string), (6, Required, S_string),
      (7, Required, S_list S_string), (8, Required, S_i32), (9, Required, S_list multisig_sign_item),
      (10, Required, S_string), (11, Required, S_string)]"

(* node_modify_task_req_body: data *)
definition node_modify_task_req_body :: tspec where
  "node_modify_task_req_body = S_struct [(1, Required, S_string)]"

(* node_modify_task_req: body *)
definition node_modify_task_req :: tspec where
  "node_modify_task_req = S_struct [(1, Default, node_modify_task_req_body)]"

(* node_modify_task_rsp_body: data *)
definition node_modify_task_rsp_body :: tspec where
  "node_modify_task_rsp_body = S_struct [(1, Required, S_string)]"

(* node_modify_task_rsp: body *)
definition node_modify_task_rsp :: tspec where
  "node_modify_task_rsp = S_struct [(1, Default, node_modify_task_rsp_body)]"

(* node_passwd_task_req_data: task_id, peer_nodes_list, additional, wallet, nonce, sign,
   multisig_wallets, multisig_threshold, multisig_signs, session_id, session_id_sign *)
definition node_passwd_task_req_data :: tspec where
  "node_passwd_task_req_data = S_struct
     [(1, Required, S_string), (2, Required, S_list S_string), (3, Required, S_string),
      (4, Required, S_string), (5, Required, S_string), (6, Required, S_string),
      (7, Required, S_list S_string), (8, Required, S_i32), (9, Required, S_list multisig_sign_item),
      (10, Required, S_string), (11, Required, S_string)]"

(* node_passwd_task_req_body: data *)
definition node_passwd_task_req_body :: tspec where
  "node_passwd_task_req_body = S_struct [(1, Required, S_string)]"

(* node_passwd_task_req: body *)
definition node_passwd_task_req :: tspec where
  "node_passwd_task_req = S_struct [(1, Default, node_passwd_task_req_body)]"

(* node_passwd_task_rsp_body: data *)
definition node_passwd_task_rsp_body :: tspec where
  "node_passwd_task_rsp_body = S_struct [(1, Required, S_string)]"

(* node_passwd_task_rsp: body *)
definition node_passwd_task_rsp :: tspec where
  "node_passwd_task_rsp = S_struct [(1, Default, node_passwd_task_rsp_body)]"

(* node_list_images_req_data: peer_nodes_list, additional, wallet, nonce, sign, multisig_wallets,
   multisig_threshold, multisig_signs, session_id, session_id_sign, image_server *)
definition node_list_images_req_data :: tspec where
  "node_list_images_req_data = S_struct
     [(1, Required, S_list S_string), (2, Required, S_string), (3, Required, S_string),
      (4, Required, S_string), (5, Required, S_string), (6, Required, S_list S_string),
      (7, Required, S_i32), (8, Required, S_list multisig_sign_item), (9, Required, S_string),
      (10, Required, S_string), (11, Optional, S_string)]"

(* node_list_images_req_body: data *)
definition node_list_images_req_body :: tspec where
  "node_list_images_req_body = S_struct [(1, Required, S_string)]"

(* node_list_images_req: body *)
definition node_list_images_req :: tspec where
  "node_list_images_req = S_struct [(1, Default, node_list_images_req_body)]"

(* node_list_images_rsp_body: data *)
definition node_list_images_rsp_body :: tspec where
  "node_list_images_rsp_body = S_struct [(1, Required, S_string)]"

(* node_list_images_rsp: body *)
definition node_list_images_rsp :: tspec where
  "node_list_images_rsp = S_struct [(1, Default, node_list_images_rsp_body)]"

(* node_download_image_req_data: peer_nodes_list, additional, wallet, nonce, sign, multisig_wallets,
   multisig_threshold, multisig_signs, session_id, session_id_sign, image_server *)
definition node_download_image_req_data :: tspec where
  "node_download_image_req_data = S_struct
     [(1, Required, S_list S_string), (2, Required, S_string), (3, Required, S_string),
      (4, Required, S_string), (5, Required, S_string), (6, Required, S_list S_string),
      (7, Required, S_i32), (8, Required, S_list multisig_sign_item), (9, Required, S_string),
      (10, Required, S_string), (11, Optional, S_string)]"

(* node_download_image_req_body: data *)
definition node_download_image_req_body :: tspec where
  "node_download_image_req_body = S_struct [(1, Required, S_string)]"

(* node_download_image_req: body *)
definition node_download_image_req :: tspec where
  "node_download_image_req = S_struct [(1, Default, node_download_image_req_body)]"

(* node_download_image_rsp_body: data *)
definition node_download_image_rsp_body :: tspec where
  "node_download_image_rsp_body = S_struct [(1, Required, S_string)]"

(* node_download_image_rsp: body *)
definition node_download_image_rsp :: tspec where
  "node_download_image_rsp = S_struct [(1, Default, node_download_image_rsp_body)]"

(* node_download_image_progress_req_data: peer_nodes_list, additional, wallet, nonce, sign,
   multisig_wallets, multisig_threshold, multisig_signs, session_id, session_id_sign *)
definition node_download_image_progress_req_data :: tspec where
  "node_download_image_progress_req_data = S_struct
     [(1, Required, S_list S_string), (2, Required, S_string), (3, Required, S_string),
      (4, Required, S_string), (5, Required, S_string), (6, Required, S_list S_string),
      (7, Required, S_i32), (8, Required, S_list multisig_sign_item), (9, Required, S_string),
      (10, Required, S_string)]"

(* node_download_image_progress_req_body: data *)
definition node_download_image_progress_req_body :: tspec where
  "node_download_image_progress_req_body = S_struct [(1, Required, S_string)]"

(* node_download_image_progress_req: body *)
definition node_download_image_progress_req :: tspec where
  "node_download_image_progress_req = S_struct [(1, Default, node_download_image_progress_req_body)]"

(* node_download_image_progress_rsp_body: data *)
definition node_download_image_progress_rsp_body :: tspec where
  "node_download_image_progress_rsp_body = S_struct [(1, Required, S_string)]"

(* node_download_image_progress_rsp: body *)
definition node_download_image_progress_rsp :: tspec where
  "node_download_image_progress_rsp = S_struct [(1, Default, node_download_image_progress_rsp_body)]"

(* node_stop_download_image_req_data: peer_nodes_list, additional, wallet, nonce, sign,
   multisig_wallets, multisig_threshold, multisig_signs, session_id, session_id_sign *)
definition node_stop_download_image_req_data :: tspec where
  "node_stop_download_image_req_data = S_struct
     [(1, Required, S_list S_string), (2, Required, S_string), (3, Required, S_string),
      (4, Required, S_string), (5, Required, S_string), (6, Required, S_list S_string),
      (7, Required, S_i32), (8, Required, S_list multisig_sign_item), (9, Required, S_string),
      (10, Required, S_string)]"

(* node_stop_download_image_req_body: data *)
definition node_stop_download_image_req_body :: tspec where
  "node_stop_download_image_req_body = S_struct [(1, Required, S_string)]"

(* node_stop_download_image_req: body *)
definition node_stop_download_image_req :: tspec where
  "node_stop_download_image_req = S_struct [(1, Default, node_stop_download_image_req_body)]"

(* node_stop_download_image_rsp_body: data *)
definition node_stop_download_image_rsp_body :: tspec where
  "node_stop_download_image_rsp_body = S_struct [(1, Required, S_string)]"

(* node_stop_download_image_rsp: body *)
definition node_stop_download_image_rsp :: tspec where
  "node_stop_download_image_rsp = S_struct [(1, Default, node_stop_download_image_rsp_body)]"

(* node_upload_image_req_data: peer_nodes_list, additional, wallet, nonce, sign, multisig_wallets,
   multisig_threshold, multisig_signs, session_id, session_id_sign, image_server *)
definition node_upload_image_req_data :: tspec where
  "node_upload_image_req_data = S_struct
     [(1, Required, S_list S_string), (2, Required, S_string), (3, Required, S_string),
      (4, Required, S_string), (5, Required, S_string), (6, Required, S_list S_string),
      (7, Required, S_i32), (8, Required, S_list multisig_sign_item), (9, Required, S_string),
      (10, Required, S_string), (11, Optional, S_string)]"

(* node_upload_image_req_body: data *)
definition node_upload_image_req_body :: tspec where
  "node_upload_image_req_body = S_struct [(1, Required, S_string)]"

(* node_upload_image_req: body *)
definition node_upload_image_req :: tspec where
  "node_upload_image_req = S_struct [(1, Default, node_upload_image_req_body)]"

(* node_upload_image_rsp_body: data *)
definition node_upload_image_rsp_body :: tspec where
  "node_upload_image_rsp_body = S_struct [(1, Required, S_string)]"

(* node_upload_image_rsp: body *)
definition node_upload_image_rsp :: tspec where
  "node_upload_image_rsp = S_struct [(1, Default, node_upload_image_rsp_body)]"

(* node_upload_image_progress_req_data: peer_nodes_list, additional, wallet, nonce, sign,
   multisig_wallets, multisig_threshold, multisig_signs, session_id, session_id_sign *)
definition node_upload_image_progress_req_data :: tspec where
  "node_upload_image_progress_req_data = S_struct
     [(1, Required, S_list S_string), (2, Required, S_string), (3, Required, S_string),
      (4, Required, S_string), (5, Required, S_string), (6, Required, S_list S_string),
      (7, Required, S_i32), (8, Required, S_list multisig_sign_item), (9, Required, S_string),
      (10, Required, S_string)]"

(* node_upload_image_progress_req_body: data *)
definition node_upload_image_progress_req_body :: tspec where
  "node_upload_image_progress_req_body = S_struct [(1, Required, S_string)]"

(* node_upload_image_progress_req: body *)
definition node_upload_image_progress_req :: tspec where
  "node_upload_image_progress_req = S_struct [(1, Default, node_upload_image_progress_req_body)]"

(* node_upload_image_progress_rsp_body: data *)
definition node_upload_image_progress_rsp_body :: tspec where
  "node_upload_image_progress_rsp_body = S_struct [(1, Required, S_string)]"

(* node_upload_image_progress_rsp: body *)
definition node_upload_image_progress_rsp :: tspec where
  "node_upload_image_progress_rsp = S_struct [(1, Default, node_upload_image_progress_rsp_body)]"

(* node_stop_upload_image_req_data: peer_nodes_list, additional, wallet, nonce, sign, multisig_wallets,
   multisig_threshold, multisig_signs, session_id, session_id_sign *)
definition node_stop_upload_image_req_data :: tspec where
  "node_stop_upload_image_req_data = S_struct
     [(1, Required, S_list S_string), (2, Required, S_string), (3, Required, S_string),
      (4, Required, S_string), (5, Required, S_string), (6, Required, S_list S_string),
      (7, Required, S_i32), (8, Required, S_list multisig_sign_item), (9, Required, S_string),
      (10, Required, S_string)]"

(* node_stop_upload_image_req_body: data *)
definition node_stop_upload_image_req_body :: tspec where
  "node_stop_upload_image_req_body = S_struct [(1, Required, S_string)]"

(* node_stop_upload_image_req: body *)
definition node_stop_upload_image_req :: tspec where
  "node_stop_upload_image_req = S_struct [(1, Default, node_stop_upload_image_req_body)]"

(* node_stop_upload_image_rsp_body: data *)
definition node_stop_upload_image_rsp_body :: tspec where
  "node_stop_upload_image_rsp_body = S_struct [(1, Required, S_string)]"

(* node_stop_upload_image_rsp: body *)
definition node_stop_upload_image_rsp :: tspec where
  "node_stop_upload_image_rsp = S_struct [(1, Default, node_stop_upload_image_rsp_body)]"

(* node_delete_image_req_data: peer_nodes_list, additional, wallet, nonce, sign, multisig_wallets,
   multisig_threshold, multisig_signs, session_id, session_id_sign *)
definition node_delete_image_req_data :: tspec where
  "node_delete_image_req_data = S_struct
     [(1, Required, S_list S_string), (2, Required, S_string), (3, Required, S_string),
      (4, Required, S_string), (5, Required, S_string), (6, Required, S_list S_string),
      (7, Required, S_i32), (8, Required, S_list multisig_sign_item), (9, Required, S_string),
      (10, Required, S_string)]"

(* node_delete_image_req_body: data *)
definition node_delete_image_req_body :: tspec where
  "node_delete_image_req_body = S_struct [(1, Required, S_string)]"

(* node_delete_image_req: body *)
definition node_delete_image_req :: tspec where
  "node_delete_image_req = S_struct [(1, Default, node_delete_image_req_body)]"

(* node_delete_image_rsp_body: data *)
definition node_delete_image_rsp_body :: tspec where
  "node_delete_image_rsp_body = S_struct [(1, Required, S_string)]"

(* node_delete_image_rsp: body *)
definition node_delete_image_rsp :: tspec where
  "node_delete_image_rsp = S_struct [(1, Default, node_delete_image_rsp_body)]"

(* node_list_snapshot_req_data: task_id, snapshot_name, peer_nodes_list, additional, wallet, nonce,
   sign, multisig_wallets, multisig_threshold, multisig_signs, session_id, session_id_sign *)
definition node_list_snapshot_req_data :: tspec where
  "node_list_snapshot_req_data = S_struct
     [(1, Required, S_string), (2, Required, S_string), (3, Required, S_list S_string),
      (4, Required, S_string), (5, Required, S_string), (6, Required, S_string),
      (7, Required, S_string), (8, Required, S_list S_string), (9, Required, S_i32),
      (10, Required, S_list multisig_sign_item), (11, Required, S_string), (12, Required, S_string)]"

(* node_list_snapshot_req_body: data *)
definition node_list_snapshot_req_body :: tspec where
  "node_list_snapshot_req_body = S_struct [(1, Required, S_string)]"

(* node_list_snapshot_req: body *)
definition node_list_snapshot_req :: tspec where
  "node_list_snapshot_req = S_struct [(1, Default, node_list_snapshot_req_body)]"

(* node_list_snapshot_rsp_body: data *)
definition node_list_snapshot_rsp_body :: tspec where
  "node_list_snapshot_rsp_body = S_struct [(1, Required, S_string)]"

(* node_list_snapshot_rsp: body *)
definition node_list_snapshot_rsp :: tspec where
  "node_list_snapshot_rsp = S_struct [(1, Default, node_list_snapshot_rsp_body)]"

(* node_create_snapshot_req_data: task_id, peer_nodes_list, additional, wallet, nonce, sign,
   multisig_wallets, multisig_threshold, multisig_signs, session_id, session_id_sign, image_server *)
definition node_create_snapshot_req_data :: tspec where
  "node_create_snapshot_req_data = S_struct
     [(1, Required, S_string), (2, Required, S_list S_string), (3, Required, S_string),
      (4, Required, S_string), (5, Required, S_string), (6, Required, S_string),
      (7, Required, S_list S_string), (8, Required, S_i32), (9, Required, S_list multisig_sign_item),
      (10, Required, S_string), (11, Required, S_string), (12, Optional, S_string)]"

(* node_create_snapshot_req_body: data *)
definition node_create_snapshot_req_body :: tspec where
  "node_create_snapshot_req_body = S_struct [(1, Required, S_string)]"

(* node_create_snapshot_req: body *)
definition node_create_snapshot_req :: tspec where
  "node_create_snapshot_req = S_struct [(1, Default, node_create_snapshot_req_body)]"

(* node_create_snapshot_rsp_body: data *)
definition node_create_snapshot_rsp_body :: tspec where
  "node_create_snapshot_rsp_body = S_struct [(1, Required, S_string)]"

(* node_create_snapshot_rsp: body *)
definition node_create_snapshot_rsp :: tspec where
  "node_create_snapshot_rsp = S_struct [(1, Default, node_create_snapshot_rsp_body)]"

(* node_delete_snapshot_req_data: task_id, snapshot_name, peer_nodes_list, additional, wallet, nonce,
   sign, multisig_wallets, multisig_threshold, multisig_signs, session_id, session_id_sign *)
definition node_delete_snapshot_req_data :: tspec where
  "node_delete_snapshot_req_data = S_struct
     [(1, Required, S_string), (2, Required, S_string), (3, Required, S_list S_string),
      (4, Required, S_string), (5, Required, S_string), (6, Required, S_string),
      (7, Required, S_string), (8, Required, S_list S_string), (9, Required, S_i32),
      (10, Required, S_list multisig_sign_item), (11, Required, S_string), (12, Required, S_string)]"

(* node_delete_snapshot_req_body: data *)
definition node_delete_snapshot_req_body :: tspec where
  "node_delete_snapshot_req_body = S_struct [(1, Required, S_string)]"

(* node_delete_snapshot_req: body *)
definition node_delete_snapshot_req :: tspec where
  "node_delete_snapshot_req = S_struct [(1, Default, node_delete_snapshot_req_body)]"

(* node_delete_snapshot_rsp_body: data *)
definition node_delete_snapshot_rsp_body :: tspec where
  "node_delete_snapshot_rsp_body = S_struct [(1, Required, S_string)]"

(* node_delete_snapshot_rsp: body *)
definition node_delete_snapshot_rsp :: tspec where
  "node_delete_snapshot_rsp = S_struct [(1, Default, node_delete_snapshot_rsp_body)]"

(* node_list_disk_req_data: task_id, peer_nodes_list, additional, wallet, nonce, sign,
   multisig_wallets, multisig_threshold, multisig_signs, session_id, session_id_sign *)
definition node_list_disk_req_data :: tspec where
  "node_list_disk_req_data = S_struct
     [(1, Required, S_string), (2, Required, S_list S_string), (3, Required, S_string),
      (4, Required, S_string), (5, Required, S_string), (6, Required, S_string),
      (7, Required, S_list S_string), (8, Required, S_i32), (9, Required, S_list multisig_sign_item),
      (10, Required, S_string), (11, Required, S_string)]"

(* node_list_disk_req_body: data *)
definition node_list_disk_req_body :: tspec where
  "node_list_disk_req_body = S_struct [(1, Required, S_string)]"

(* node_list_disk_req: body *)
definition node_list_disk_req :: tspec where
  "node_list_disk_req = S_struct [(1, Default, node_list_disk_req_body)]"

(* node_list_disk_rsp_body: data *)
definition node_list_disk_rsp_body :: tspec where
  "node_list_disk_rsp_body = S_struct [(1, Required, S_string)]"

(* node_list_disk_rsp: body *)
definition node_list_disk_rsp :: tspec where
  "node_list_disk_rsp = S_struct [(1, Default, node_list_disk_rsp_body)]"

(* node_resize_disk_req_data: task_id, peer_nodes_list, additional, wallet, nonce, sign,
   multisig_wallets, multisig_threshold, multisig_signs, session_id, session_id_sign *)
definition node_resize_disk_req_data :: tspec where
  "node_resize_disk_req_data = S_struct
     [(1, Required, S_string), (2, Required, S_list S_string), (3, Required, S_string),
      (4, Required, S_string), (5, Required, S_string), (6, Required, S_string),
      (7, Required, S_list S_string), (8, Required, S_i32), (9, Required, S_list multisig_sign_item),
      (10, Required, S_string), (11, Required, S_string)]"

(* node_resize_disk_req_body: data *)
definition node_resize_disk_req_body :: tspec where
  "node_resize_disk_req_body = S_struct [(1, Required, S_string)]"

(* node_resize_disk_req: body *)
definition node_resize_disk_req :: tspec where
  "node_resize_disk_req = S_struct [(1, Default, node_resize_disk_req_body)]"

(* node_resize_disk_rsp_body: data *)
definition node_resize_disk_rsp_body :: tspec where
  "node_resize_disk_rsp_body = S_struct [(1, Required, S_string)]"

(* node_resize_disk_rsp: body *)
definition node_resize_disk_rsp :: tspec where
  "node_resize_disk_rsp = S_struct [(1, Default, node_resize_disk_rsp_body)]"

(* node_add_disk_req_data: task_id, peer_nodes_list, additional, wallet, nonce, sign, multisig_wallets,
   multisig_threshold, multisig_signs, session_id, session_id_sign *)
definition node_add_disk_req_data :: tspec where
  "node_add_disk_req_data = S_struct
     [(1, Required, S_string), (2, Required, S_list S_string), (3, Required, S_string),
      (4, Required, S_string), (5, Required, S_string), (6, Required, S_string),
      (7, Required, S_list S_string), (8, Required, S_i32), (9, Required, S_list multisig_sign_item),
      (10, Required, S_string), (11, Required, S_string)]"

(* node_add_disk_req_body: data *)
definition node_add_disk_req_body :: tspec where
  "node_add_disk_req_body = S_struct [(1, Required, S_string)]"

(* node_add_disk_req: body *)
definition node_add_disk_req :: tspec where
  "node_add_disk_req = S_struct [(1, Default, node_add_disk_req_body)]"

(* node_add_disk_rsp_body: data *)
definition node_add_disk_rsp_body :: tspec where
  "node_add_disk_rsp_body = S_struct [(1, Required, S_string)]"

(* node_add_disk_rsp: body *)
definition node_add_disk_rsp :: tspec where
  "node_add_disk_rsp = S_struct [(1, Default, node_add_disk_rsp_body)]"

(* node_delete_disk_req_data: task_id, peer_nodes_list, additional, wallet, nonce, sign,
   multisig_wallets, multisig_threshold, multisig_signs, session_id, session_id_sign *)
definition node_delete_disk_req_data :: tspec where
  "node_delete_disk_req_data = S_struct
     [(1, Required, S_string), (2, Required, S_list S_string), (3, Required, S_string),
      (4, Required, S_string), (5, Required, S_string), (6, Required, S_string),
      (7, Required, S_list S_string), (8, Required, S_i32), (9, Required, S_list multisig_sign_item),
      (10, Required, S_string), (11, Required, S_string)]"

(* node_delete_disk_req_body: data *)
definition node_delete_disk_req_body :: tspec where
  "node_delete_disk_req_body = S_struct [(1, Required, S_string)]"

(* node_delete_disk_req: body *)
definition node_delete_disk_req :: tspec where
  "node_delete_disk_req = S_struct [(1, Default, node_delete_disk_req_body)]"

(* node_delete_disk_rsp_body: data *)
definition node_delete_disk_rsp_body :: tspec where
  "node_delete_disk_rsp_body = S_struct [(1, Required, S_string)]"

(* node_delete_disk_rsp: body *)
definition node_delete_disk_rsp :: tspec where
  "node_delete_disk_rsp = S_struct [(1, Default, node_delete_disk_rsp_body)]"

(* node_session_id_req_data: peer_nodes_list, additional, wallet, nonce, sign, multisig_wallets,
   multisig_threshold, multisig_signs *)
definition node_session_id_req_data :: tspec where
  "node_session_id_req_data = S_struct
     [(1, Required, S_list S_string), (2, Required, S_string), (3, Required, S_string),
      (4, Required, S_string), (5, Required, S_string), (6, Required, S_list S_string),
      (7, Required, S_i32), (8, Required, S_list multisig_sign_item)]"

(* node_session_id_req_body: data *)
definition node_session_id_req_body :: tspec where
  "node_session_id_req_body = S_struct [(1, Required, S_string)]"

(* node_session_id_req: body *)
definition node_session_id_req :: tspec where
  "node_session_id_req = S_struct [(1, Default, node_session_id_req_body)]"

(* node_session_id_rsp_body: data *)
definition node_session_id_rsp_body :: tspec where
  "node_session_id_rsp_body = S_struct [(1, Required, S_string)]"

(* node_session_id_rsp: body *)
definition node_session_id_rsp :: tspec where
  "node_session_id_rsp = S_struct [(1, Default, node_session_id_rsp_body)]"

(* node_query_node_info_req_data: peer_nodes_list, additional, wallet, nonce, sign, multisig_wallets,
   multisig_threshold, multisig_signs, session_id, session_id_sign, image_server *)
definition node_query_node_info_req_data :: tspec where
  "node_query_node_info_req_data = S_struct
     [(1, Required, S_list S_string), (2, Required, S_string), (3, Required, S_string),
      (4, Required, S_string), (5, Required, S_string), (6, Required, S_list S_string),
      (7, Required, S_i32), (8, Required, S_list multisig_sign_item), (9, Required, S_string),
      (10, Required, S_string), (11, Optional, S_string)]"

(* node_query_node_info_req_body: data *)
definition node_query_node_info_req_body :: tspec where
  "node_query_node_info_req_body = S_struct [(1, Required, S_string)]"

(* node_query_node_info_req: body *)
definition node_query_node_info_req :: tspec where
  "node_query_node_info_req = S_struct [(1, Default, node_query_node_info_req_body)]"

(* node_query_node_info_rsp_body: data *)
definition node_query_node_info_rsp_body :: tspec where
  "node_query_node_info_rsp_body = S_struct [(1, Required, S_string)]"

(* node_query_node_info_rsp: body *)
definition node_query_node_info_rsp :: tspec where
  "node_query_node_info_rsp = S_struct [(1, Default, node_query_node_info_rsp_body)]"

(* node_free_memory_req_data: peer_nodes_list, additional, wallet, nonce, sign, multisig_wallets,
   multisig_threshold, multisig_signs, session_id, session_id_sign *)
definition node_free_memory_req_data :: tspec where
  "node_free_memory_req_data = S_struct
     [(1, Required, S_list S_string), (2, Required, S_string), (3, Required, S_string),
      (4, Required, S_string), (5, Required, S_string), (6, Required, S_list S_string),
      (7, Required, S_i32), (8, Required, S_list multisig_sign_item), (9, Required, S_string),
      (10, Required, S_string)]"

(* node_free_memory_req_body: data *)
definition node_free_memory_req_body :: tspec where
  "node_free_memory_req_body = S_struct [(1, Required, S_string)]"

(* node_free_memory_req: body *)
definition node_free_memory_req :: tspec where
  "node_free_memory_req = S_struct [(1, Default, node_free_memory_req_body)]"

(* node_free_memory_rsp_body: data *)
definition node_free_memory_rsp_body :: tspec where
  "node_free_memory_rsp_body = S_struct [(1, Required, S_string)]"

(* node_free_memory_rsp: body *)
definition node_free_memory_rsp :: tspec where
  "node_free_memory_rsp = S_struct [(1, Default, node_free_memory_rsp_body)]"

(* node_service_info: service_list, name, time_stamp, kvs *)
definition node_service_info :: tspec where
  "node_service_info = S_struct
     [(1, Required, S_list S_string), (2, Optional, S_string), (3, Optional, S_i64),
      (4, Optional, S_map S_string)]"

(* service_broadcast_req_body: node_service_info_map *)
definition service_broadcast_req_body :: tspec where
  "service_broadcast_req_body = S_struct [(1, Required, S_map node_service_info)]"

(* service_broadcast_req: body *)
definition service_broadcast_req :: tspec where
  "service_broadcast_req = S_struct [(1, Default, service_broadcast_req_body)]"

(* ver_req_body: node_id, core_version, protocol_version, time_stamp, addr_me, addr_you, start_height *)
definition ver_req_body :: tspec where
  "ver_req_body = S_struct
     [(1, Required, S_string), (2, Required, S_i32), (3, Required, S_i32), (4, Required, S_i64),
      (5, Required, network_address), (6, Required, network_address), (7, Required, S_i64)]"

(* ver_req: body *)
definition ver_req :: tspec where
  "ver_req = S_struct [(1, Default, ver_req_body)]"

(* ver_resp_body: node_id, core_version, protocol_version *)
definition ver_resp_body :: tspec where
  "ver_resp_body = S_struct [(1, Required, S_string), (2, Required, S_i32), (3, Required, S_i32)]"

(* ver_resp: body *)
definition ver_resp :: tspec where
  "ver_resp = S_struct [(1, Default, ver_resp_body)]"

(* peer_node_info: peer_node_id, core_version, protocol_version, live_time_stamp, addr, service_list *)
definition peer_node_info :: tspec where
  "peer_node_info = S_struct
     [(1, Required, S_string), (2, Required, S_i32), (3, Required, S_i32), (4, Required, S_i32),
      (5, Required, network_address), (6, Optional, S_list S_string)]"

(* get_peer_nodes_req: body *)
definition get_peer_nodes_req :: tspec where
  "get_peer_nodes_req = S_struct [(1, Default, empty_struct)]"

(* get_peer_nodes_resp_body: peer_nodes_list *)
definition get_peer_nodes_resp_body :: tspec where
  "get_peer_nodes_resp_body = S_struct [(1, Required, S_list peer_node_info)]"

(* get_peer_nodes_resp: body *)
definition get_peer_nodes_resp :: tspec where
  "get_peer_nodes_resp = S_struct [(1, Default, get_peer_nodes_resp_body)]"

(* peer_nodes_broadcast_req_body: peer_nodes_list *)
definition peer_nodes_broadcast_req_body :: tspec where
  "peer_nodes_broadcast_req_body = S_struct [(1, Required, S_list peer_node_info)]"

(* peer_nodes_broadcast_req: body *)
definition peer_nodes_broadcast_req :: tspec where
  "peer_nodes_broadcast_req = S_struct [(1, Default, peer_nodes_broadcast_req_body)]"

(* node_list_monitor_server_req_data: peer_nodes_list, additional, wallet, nonce, sign,
   multisig_wallets, multisig_threshold, multisig_signs, session_id, session_id_sign *)
definition node_list_monitor_server_req_data :: tspec where
  "node_list_monitor_server_req_data = S_struct
     [(1, Required, S_list S_string), (2, Required, S_string), (3, Required, S_string),
      (4, Required, S_string), (5, Required, S_string), (6, Required, S_list S_string),
      (7, Required, S_i32), (8, Required, S_list multisig_sign_item), (9, Required, S_string),
      (10, Required, S_string)]"

(* node_list_monitor_server_req_body: data *)
definition node_list_monitor_server_req_body :: tspec where
  "node_list_monitor_server_req_body = S_struct [(1, Required, S_string)]"

(* node_list_monitor_server_req: body *)
definition node_list_monitor_server_req :: tspec where
  "node_list_monitor_server_req = S_struct [(1, Default, node_list_monitor_server_req_body)]"

(* node_list_monitor_server_rsp_body: data *)
definition node_list_monitor_server_rsp_body :: tspec where
  "node_list_monitor_server_rsp_body = S_struct [(1, Required, S_string)]"

(* node_list_monitor_server_rsp: body *)
definition node_list_monitor_server_rsp :: tspec where
  "node_list_monitor_server_rsp = S_struct [(1, Default, node_list_monitor_server_rsp_body)]"

(* node_set_monitor_server_req_data: peer_nodes_list, additional, wallet, nonce, sign,
   multisig_wallets, multisig_threshold, multisig_signs, session_id, session_id_sign *)
definition node_set_monitor_server_req_data :: tspec where
  "node_set_monitor_server_req_data = S_struct
     [(1, Required, S_list S_string), (2, Required, S_string), (3, Required, S_string),
      (4, Required, S_string), (5, Required, S_string), (6, Required, S_list S_string),
      (7, Required, S_i32), (8, Required, S_list multisig_sign_item), (9, Required, S_string),
      (10, Required, S_string)]"

(* node_set_monitor_server_req_body: data *)
definition node_set_monitor_server_req_body :: tspec where
  "node_set_monitor_server_req_body = S_struct [(1, Required, S_string)]"

(* node_set_monitor_server_req: body *)
definition node_set_monitor_server_req :: tspec where
  "node_set_monitor_server_req = S_struct [(1, Default, node_set_monitor_server_req_body)]"

(* node_set_monitor_server_rsp_body: data *)
definition node_set_monitor_server_rsp_body :: tspec where
  "node_set_monitor_server_rsp_body = S_struct [(1, Required, S_string)]"

(* node_set_monitor_server_rsp: body *)
definition node_set_monitor_server_rsp :: tspec where
  "node_set_monitor_server_rsp = S_struct [(1, Default, node_set_monitor_server_rsp_body)]"

(* node_list_lan_req_data: network_id, peer_nodes_list, additional, wallet, nonce, sign,
   multisig_wallets, multisig_threshold, multisig_signs, session_id, session_id_sign *)
definition node_list_lan_req_data :: tspec where
  "node_list_lan_req_data = S_struct
     [(1, Required, S_string), (2, Required, S_list S_string), (3, Required, S_string),
      (4, Required, S_string), (5, Required, S_string), (6, Required, S_string),
      (7, Required, S_list S_string), (8, Required, S_i32), (9, Required, S_list multisig_sign_item),
      (10, Required, S_string), (11, Required, S_string)]"

(* node_list_lan_req_body: data *)
definition node_list_lan_req_body :: tspec where
  "node_list_lan_req_body = S_struct [(1, Required, S_string)]"

(* node_list_lan_req: body *)
definition node_list_lan_req :: tspec where
  "node_list_lan_req = S_struct [(1, Default, node_list_lan_req_body)]"

(* node_list_lan_rsp_body: data *)
definition node_list_lan_rsp_body :: tspec where
  "node_list_lan_rsp_body = S_struct [(1, Required, S_string)]"

(* node_list_lan_rsp: body *)
definition node_list_lan_rsp :: tspec where
  "node_list_lan_rsp = S_struct [(1, Default, node_list_lan_rsp_body)]"

(* node_create_lan_req_data: peer_nodes_list, additional, wallet, nonce, sign, multisig_wallets,
   multisig_threshold, multisig_signs, session_id, session_id_sign *)
definition node_create_lan_req_data :: tspec where
  "node_create_lan_req_data = S_struct
     [(1, Required, S_list S_string), (2, Required, S_string), (3, Required, S_string),
      (4, Required, S_string), (5, Required, S_string), (6, Required, S_list S_string),
      (7, Required, S_i32), (8, Required, S_list multisig_sign_item), (9, Required, S_string),
      (10, Required, S_string)]"

(* node_create_lan_req_body: data *)
definition node_create_lan_req_body :: tspec where
  "node_create_lan_req_body = S_struct [(1, Required, S_string)]"

(* node_create_lan_req: body *)
definition node_create_lan_req :: tspec where
  "node_create_lan_req = S_struct [(1, Default, node_create_lan_req_body)]"

(* node_create_lan_rsp_body: data *)
definition node_create_lan_rsp_body :: tspec where
  "node_create_lan_rsp_body = S_struct [(1, Required, S_string)]"

(* node_create_lan_rsp: body *)
definition node_create_lan_rsp :: tspec where
  "node_create_lan_rsp = S_struct [(1, Default, node_create_lan_rsp_body)]"

(* node_delete_lan_req_data: network_id, peer_nodes_list, additional, wallet, nonce, sign,
   multisig_wallets, multisig_threshold, multisig_signs, session_id, session_id_sign *)
definition node_delete_lan_req_data :: tspec where
  "node_delete_lan_req_data = S_struct
     [(1, Required, S_string), (2, Required, S_list S_string), (3, Required, S_string),
      (4, Required, S_string), (5, Required, S_string), (6, Required, S_string),
      (7, Required, S_list S_string), (8, Required, S_i32), (9, Required, S_list multisig_sign_item),
      (10, Required, S_string), (11, Required, S_string)]"

(* node_delete_lan_req_body: data *)
definition node_delete_lan_req_body :: tspec where
  "node_delete_lan_req_body = S_struct [(1, Required, S_string)]"

(* node_delete_lan_req: body *)
definition node_delete_lan_req :: tspec where
  "node_delete_lan_req = S_struct [(1, Default, node_delete_lan_req_body)]"

(* node_delete_lan_rsp_body: data *)
definition node_delete_lan_rsp_body :: tspec where
  "node_delete_lan_rsp_body = S_struct [(1, Required, S_string)]"

(* node_delete_lan_rsp: body *)
definition node_delete_lan_rsp :: tspec where
  "node_delete_lan_rsp = S_struct [(1, Default, node_delete_lan_rsp_body)]"

section \<open>The registered classes\<close>

text \<open>\<open>BIND_DECODE_INVOKER\<close> and \<open>BIND_ENCODE_INVOKER\<close> bind each name to the class of that name.\<close>

definition message_classes :: "(string \<times> tspec) list" where
  "message_classes =
     [(''ver_req'', ver_req), (''ver_resp'', ver_resp), (''shake_hand_req'', shake_hand_req),
      (''shake_hand_resp'', shake_hand_resp), (''get_peer_nodes_req'', get_peer_nodes_req),
      (''get_peer_nodes_resp'', get_peer_nodes_resp),
      (''peer_nodes_broadcast_req'', peer_nodes_broadcast_req),
      (''node_list_images_req'', node_list_images_req),
      (''node_list_images_rsp'', node_list_images_rsp),
      (''node_download_image_req'', node_download_image_req),
      (''node_download_image_rsp'', node_download_image_rsp),
      (''node_download_image_progress_req'', node_download_image_progress_req),
      (''node_download_image_progress_rsp'', node_download_image_progress_rsp),
      (''node_stop_download_image_req'', node_stop_download_image_req),
      (''node_stop_download_image_rsp'', node_stop_download_image_rsp),
      (''node_upload_image_req'', node_upload_image_req),
      (''node_upload_image_rsp'', node_upload_image_rsp),
      (''node_upload_image_progress_req'', node_upload_image_progress_req),
      (''node_upload_image_progress_rsp'', node_upload_image_progress_rsp),
      (''node_stop_upload_image_req'', node_stop_upload_image_req),
      (''node_stop_upload_image_rsp'', node_stop_upload_image_rsp),
      (''node_delete_image_req'', node_delete_image_req),
      (''node_delete_image_rsp'', node_delete_image_rsp),
      (''node_create_task_req'', node_create_task_req),
      (''node_create_task_rsp'', node_create_task_rsp), (''node_start_task_req'', node_start_task_req),
      (''node_start_task_rsp'', node_start_task_rsp),
      (''node_shutdown_task_req'', node_shutdown_task_req),
      (''node_shutdown_task_rsp'', node_shutdown_task_rsp),
      (''node_poweroff_task_req'', node_poweroff_task_req),
      (''node_poweroff_task_rsp'', node_poweroff_task_rsp),
      (''node_stop_task_req'', node_stop_task_req), (''node_stop_task_rsp'', node_stop_task_rsp),
      (''node_restart_task_req'', node_restart_task_req),
      (''node_restart_task_rsp'', node_restart_task_rsp),
      (''node_reset_task_req'', node_reset_task_req), (''node_reset_task_rsp'', node_reset_task_rsp),
      (''node_delete_task_req'', node_delete_task_req),
      (''node_delete_task_rsp'', node_delete_task_rsp), (''node_list_task_req'', node_list_task_req),
      (''node_list_task_rsp'', node_list_task_rsp), (''node_task_logs_req'', node_task_logs_req),
      (''node_task_logs_rsp'', node_task_logs_rsp), (''node_modify_task_req'', node_modify_task_req),
      (''node_modify_task_rsp'', node_modify_task_rsp),
      (''node_passwd_task_req'', node_passwd_task_req),
      (''node_passwd_task_rsp'', node_passwd_task_rsp),
      (''node_query_node_info_req'', node_query_node_info_req),
      (''node_query_node_info_rsp'', node_query_node_info_rsp),
      (''service_broadcast_req'', service_broadcast_req),
      (''node_session_id_req'', node_session_id_req), (''node_session_id_rsp'', node_session_id_rsp),
      (''node_free_memory_req'', node_free_memory_req),
      (''node_free_memory_rsp'', node_free_memory_rsp),
      (''node_list_snapshot_req'', node_list_snapshot_req),
      (''node_list_snapshot_rsp'', node_list_snapshot_rsp),
      (''node_create_snapshot_req'', node_create_snapshot_req),
      (''node_create_snapshot_rsp'', node_create_snapshot_rsp),
      (''node_delete_snapshot_req'', node_delete_snapshot_req),
      (''node_delete_snapshot_rsp'', node_delete_snapshot_rsp),
      (''node_list_disk_req'', node_list_disk_req), (''node_list_disk_rsp'', node_list_disk_rsp),
      (''node_resize_disk_req'', node_resize_disk_req),
      (''node_resize_disk_rsp'', node_resize_disk_rsp), (''node_add_disk_req'', node_add_disk_req),
      (''node_add_disk_rsp'', node_add_disk_rsp), (''node_delete_disk_req'', node_delete_disk_req),
      (''node_delete_disk_rsp'', node_delete_disk_rsp),
      (''node_list_monitor_server_req'', node_list_monitor_server_req),
      (''node_list_monitor_server_rsp'', node_list_monitor_server_rsp),
      (''node_set_monitor_server_req'', node_set_monitor_server_req),
      (''node_set_monitor_server_rsp'', node_set_monitor_server_rsp),
      (''node_list_lan_req'', node_list_lan_req), (''node_list_lan_rsp'', node_list_lan_rsp),
      (''node_create_lan_req'', node_create_lan_req), (''node_create_lan_rsp'', node_create_lan_rsp),
      (''node_delete_lan_req'', node_delete_lan_req), (''node_delete_lan_rsp'', node_delete_lan_rsp)]"

definition message_class :: "string \<Rightarrow> tspec option" where
  "message_class ty = map_of message_classes ty"

text \<open>A name with no class never reaches the bodies: the coder looks it up first.\<close>

definition matrix_codec :: "tval body_codec" where
  "matrix_codec =
     \<lparr>read_bin = (\<lambda>ty. case message_class ty of
         Some t \<Rightarrow> read_value binary_vt t None | None \<Rightarrow> mfail Undefined_behaviour),
      write_bin = (\<lambda>ty v. case message_class ty of
         Some t \<Rightarrow> write_value binary_vt t v | None \<Rightarrow> mfail Undefined_behaviour),
      read_cmp = (\<lambda>ty. case message_class ty of
         Some t \<Rightarrow> read_value compact_vt t None | None \<Rightarrow> mfail Undefined_behaviour),
      write_cmp = (\<lambda>ty v. case message_class ty of
         Some t \<Rightarrow> write_value compact_vt t v | None \<Rightarrow> mfail Undefined_behaviour)\<rparr>"

section \<open>The contracts of the coder\<close>

lemma class_names: "map fst message_classes = decode_invokers"
  by (simp add: message_classes_def decode_invokers_def)

lemma class_of_registered: "ty \<in> set decode_invokers \<longleftrightarrow> (\<exists>t. message_class ty = Some t)"
  by (metis class_names map_of_eq_None_iff message_class_def not_None_eq set_map)

lemma matrix_codec_safe: "body_safe matrix_codec"
  unfolding body_safe_def class_of_registered
  by (auto simp: matrix_codec_def class_of_registered bin_reader.value_safe cmp_reader.value_safe)

definition kind_map_ok :: "proto_kind \<Rightarrow> u32 \<Rightarrow> bool" where
  "kind_map_ok kind n \<longleftrightarrow> kind = Binary_proto \<or> n \<noteq> 0"

definition enc_body :: "proto_kind \<Rightarrow> tspec \<Rightarrow> tval \<Rightarrow> byte list" where
  "enc_body kind t v = (case kind of Binary_proto \<Rightarrow> bin.enc_value t v | Compact_proto \<Rightarrow> cmp.enc_value t v)"

lemma matrix_codec_transfer:
  assumes "message_class ty = Some t" and "fits (kind_map_ok kind) t v"
  shows "body_writes matrix_codec kind ty v (enc_body kind t v)"
    and "body_reads matrix_codec kind ty (enc_body kind t v) (norm_value t v)"
proof -
  have "fits (\<lambda>_. True) t v" if "kind = Binary_proto" using assms(2) that by (simp add: kind_map_ok_def [abs_def])
  moreover have "fits (\<lambda>n. n \<noteq> 0) t v" if "kind = Compact_proto" using assms(2) that by (simp add: kind_map_ok_def [abs_def])
  ultimately show "body_writes matrix_codec kind ty v (enc_body kind t v)"
    and "body_reads matrix_codec kind ty (enc_body kind t v) (norm_value t v)"
    using bin.value_writes bin.value_reads [OF _ refl] cmp.value_writes cmp.value_reads [OF _ refl] assms(1)
    by (cases kind; simp add: body_writes_def body_reads_def matrix_codec_def enc_body_def)+
qed

section \<open>Members\<close>

text \<open>A member of an object, the value of the constructor when it was never assigned.\<close>

definition get_member :: "tspec \<Rightarrow> nat \<Rightarrow> tval \<Rightarrow> tval" where
  "get_member t k v = (case v of V_struct ms \<Rightarrow> (case ms ! k of Some x \<Rightarrow> x | None \<Rightarrow> default_value t) | _ \<Rightarrow> default_value t)"

definition get_string :: "tval \<Rightarrow> string" where
  "get_string v = (case v of V_string x \<Rightarrow> x | _ \<Rightarrow> [])"

text \<open>\<open>body.node_id\<close> of a \<open>ver_req\<close>.\<close>

definition ver_req_node_id :: "tval \<Rightarrow> string" where
  "ver_req_node_id v = get_string (get_member S_string 0 (get_member ver_req_body 0 v))"

section \<open>Properties\<close>

text \<open>(C29) Every message class round-trips through the binary protocol: an object within the limits is
  written, and any reader whose buffer starts with the bytes it wrote reads the object back, every
  written member set, and leaves exactly the bytes behind it.\<close>

theorem message_body_roundtrip_binary:
  assumes "message_class ty = Some t" and "fits (\<lambda>_. True) t v" and "wf_buf b"
    and "length (bin.enc_value t v) \<le> buf_room b"
  shows "\<exists>p'. write_bin matrix_codec ty v (binary_protocol_ctor b) =
             (Inr (of_nat (length (bin.enc_value t v)), ()), p') \<and>
           content (bin_buf p') = content b @ bin.enc_value t v \<and>
           (\<forall>r rest. wf_buf r \<and> content r = bin.enc_value t v @ rest \<longrightarrow>
              (\<exists>q. read_bin matrix_codec ty (binary_protocol_ctor r) =
                 (Inr (of_nat (length (bin.enc_value t v)), norm_value t v), q) \<and> content (bin_buf q) = rest))"
proof -
  let ?bs = "bin.enc_value t v"
  have st: "bin_st [0] (binary_protocol_ctor r)" if "wf_buf r" for r
    using that by (simp add: bin_st_def binary_protocol_ctor_def)
  have "length ?bs \<le> bin_room (binary_protocol_ctor b)"
    using assms(4) by (simp add: bin_room_def binary_protocol_ctor_def)
  note w = bin_cs.writesD [OF bin.value_writes [OF assms(2)] st [OF assms(3)] this]
  have "\<exists>q. read_value binary_vt t None (binary_protocol_ctor r) = (Inr (of_nat (length ?bs), norm_value t v), q) \<and>
      content (bin_buf q) = rest" if "wf_buf r" "content r = ?bs @ rest" for r rest
  proof -
    have "bin_cont (binary_protocol_ctor r) = ?bs @ rest"
      using that(2) by (simp add: bin_cont_def binary_protocol_ctor_def)
    from bin_cs.readsD [OF bin.value_reads [OF assms(2) refl] st [OF that(1)] this]
    show ?thesis by (auto simp: bin_cont_def)
  qed
  with w assms(1) show ?thesis by (auto simp: matrix_codec_def bin_cont_def binary_protocol_ctor_def)
qed

text \<open>A login request as a node sends it.\<close>

definition sample_address :: tval where
  "sample_address = V_struct [Some (V_string ''10.0.0.1''), Some (V_i16 10001)]"

definition sample_ver_req :: tval where
  "sample_ver_req = V_struct [Some (V_struct
     [Some (V_string ''node''), Some (V_i32 1), Some (V_i32 1), Some (V_i64 1700000000),
      Some sample_address, Some sample_address, Some (V_i64 1)])]"

lemmas ver_req_defs = ver_req_def ver_req_body_def network_address_def sample_ver_req_def sample_address_def
  member_written_def member_value_def member_spec_def

lemma ver_req_class: "message_class ''ver_req'' = Some ver_req"
  by (simp add: message_class_def message_classes_def)

lemma sample_ver_req_ok: "fits mok ver_req sample_ver_req" "norm_value ver_req sample_ver_req = sample_ver_req"
  by (simp_all add: ver_req_defs)

lemma sample_ver_req_length: "length (bin.enc_value ver_req sample_ver_req) < 200"
  by (simp add: ver_req_defs bin_encString_def ttype_of_def member_id_def)

theorem message_body_roundtrip_binary_witness:
  "\<exists>p'. write_bin matrix_codec ''ver_req'' sample_ver_req (binary_protocol_ctor (new_buf DEFAULT_BUF_LEN True)) =
       (Inr (of_nat (length (bin.enc_value ver_req sample_ver_req)), ()), p') \<and>
     content (bin_buf p') = bin.enc_value ver_req sample_ver_req \<and>
     (\<forall>r rest. wf_buf r \<and> content r = bin.enc_value ver_req sample_ver_req @ rest \<longrightarrow>
        (\<exists>q. read_bin matrix_codec ''ver_req'' (binary_protocol_ctor r) =
           (Inr (of_nat (length (bin.enc_value ver_req sample_ver_req)), sample_ver_req), q) \<and> content (bin_buf q) = rest))"
  using message_body_roundtrip_binary [OF ver_req_class sample_ver_req_ok(1) new_buf_default_wf [of True]]
    sample_ver_req_length sample_ver_req_ok(2) by (simp add: buf_room_def)

text \<open>The same under the compact protocol, for objects whose maps are not empty.\<close>

theorem message_body_roundtrip_compact:
  assumes "message_class ty = Some t" and "fits (\<lambda>n. n \<noteq> 0) t v" and "wf_buf b"
    and "length (cmp.enc_value t v) \<le> buf_room b"
  shows "\<exists>p'. write_cmp matrix_codec ty v (compact_protocol_ctor b) =
             (Inr (of_nat (length (cmp.enc_value t v)), ()), p') \<and>
           content (cmp_buf p') = content b @ cmp.enc_value t v \<and>
           (\<forall>r rest. wf_buf r \<and> content r = cmp.enc_value t v @ rest \<longrightarrow>
              (\<exists>q. read_cmp matrix_codec ty (compact_protocol_ctor r) =
                 (Inr (of_nat (length (cmp.enc_value t v)), norm_value t v), q) \<and> content (cmp_buf q) = rest))"
proof -
  let ?bs = "cmp.enc_value t v"
  have st: "cmp_st [0] (compact_protocol_ctor r)" if "wf_buf r" for r
    using that by (simp add: cmp_st_def compact_protocol_ctor_def)
  have "length ?bs \<le> cmp_room (compact_protocol_ctor b)"
    using assms(4) by (simp add: cmp_room_def compact_protocol_ctor_def)
  note w = cmp_cs.writesD [OF cmp.value_writes [OF assms(2)] st [OF assms(3)] this]
  have "\<exists>q. read_value compact_vt t None (compact_protocol_ctor r) = (Inr (of_nat (length ?bs), norm_value t v), q) \<and>
      content (cmp_buf q) = rest" if "wf_buf r" "content r = ?bs @ rest" for r rest
  proof -
    have "cmp_cont (compact_protocol_ctor r) = ?bs @ rest"
      using that(2) by (simp add: cmp_cont_def compact_protocol_ctor_def)
    from cmp_cs.readsD [OF cmp.value_reads [OF assms(2) refl] st [OF that(1)] this]
    show ?thesis by (auto simp: cmp_cont_def)
  qed
  with w assms(1) show ?thesis by (auto simp: matrix_codec_def cmp_cont_def compact_protocol_ctor_def)
qed

text \<open>A message with nothing in it, small under either protocol.\<close>

definition sample_request :: tval where
  "sample_request = V_struct [Some (V_struct [])]"

lemmas request_defs = get_peer_nodes_req_def empty_struct_def sample_request_def
  member_written_def member_value_def member_spec_def

lemma request_class: "message_class ''get_peer_nodes_req'' = Some get_peer_nodes_req"
  by (simp add: message_class_def message_classes_def)

lemma sample_request_ok:
  "fits mok get_peer_nodes_req sample_request" "norm_value get_peer_nodes_req sample_request = sample_request"
  by (simp_all add: request_defs)

lemma sample_request_length: "length (enc_body kind get_peer_nodes_req sample_request) \<le> 8"
  using cmp_encField_length [of 0 "ctype T_STRUCT" 1]
  by (cases kind) (simp_all add: enc_body_def request_defs ttype_of_def member_id_def)

theorem message_body_roundtrip_compact_witness:
  "\<exists>p'. write_cmp matrix_codec ''get_peer_nodes_req'' sample_request (compact_protocol_ctor (new_buf DEFAULT_BUF_LEN True)) =
       (Inr (of_nat (length (cmp.enc_value get_peer_nodes_req sample_request)), ()), p') \<and>
     content (cmp_buf p') = cmp.enc_value get_peer_nodes_req sample_request \<and>
     (\<forall>r rest. wf_buf r \<and> content r = cmp.enc_value get_peer_nodes_req sample_request @ rest \<longrightarrow>
        (\<exists>q. read_cmp matrix_codec ''get_peer_nodes_req'' (compact_protocol_ctor r) =
           (Inr (of_nat (length (cmp.enc_value get_peer_nodes_req sample_request)), sample_request), q) \<and>
           content (cmp_buf q) = rest))"
  using message_body_roundtrip_compact [OF request_class sample_request_ok(1) new_buf_default_wf [of True]]
    sample_request_length [of Compact_proto] sample_request_ok(2) by (simp add: buf_room_def enc_body_def)

text \<open>(C30) Reading a message body is safe on every input: for every registered class and either
  protocol the reader throws an exception or returns an object, never aborts, touches memory it
  may not or runs forever, and the count it returns is the number of bytes it consumed.\<close>

theorem message_body_read_safe:
  assumes "ty \<in> set decode_invokers" and "wf_buf b"
  shows "(case read_bin matrix_codec ty (binary_protocol_ctor b) of
            (Inl f, _) \<Rightarrow> (\<exists>x. f = Throw x)
          | (Inr (n, v), p) \<Rightarrow> wf_buf (bin_buf p) \<and>
              n = of_nat (unread binary_vt (binary_protocol_ctor b) - unread binary_vt p)) \<and>
         (case read_cmp matrix_codec ty (compact_protocol_ctor b) of
            (Inl f, _) \<Rightarrow> (\<exists>x. f = Throw x)
          | (Inr (n, v), p) \<Rightarrow> wf_buf (cmp_buf p) \<and>
              n = of_nat (unread compact_vt (compact_protocol_ctor b) - unread compact_vt p))"
proof
  have ok: "bin_inv 0 (binary_protocol_ctor b)" "cmp_inv 0 (compact_protocol_ctor b)"
    using assms(2) by (simp_all add: bin_inv_def cmp_inv_def binary_protocol_ctor_def compact_protocol_ctor_def)
  have "safe binary_vt bin_inv B 0 0 0 (read_bin matrix_codec ty)" for B
    using matrix_codec_safe assms(1) by (simp add: body_safe_def)
  from this [of "unread binary_vt (binary_protocol_ctor b)", unfolded safe_def] ok(1)
  show "case read_bin matrix_codec ty (binary_protocol_ctor b) of
            (Inl f, _) \<Rightarrow> (\<exists>x. f = Throw x)
          | (Inr (n, v), p) \<Rightarrow> wf_buf (bin_buf p) \<and>
              n = of_nat (unread binary_vt (binary_protocol_ctor b) - unread binary_vt p)"
    by (fastforce simp: bin_inv_def split: prod.splits sum.splits)
  have "safe compact_vt cmp_inv B 0 0 0 (read_cmp matrix_codec ty)" for B
    using matrix_codec_safe assms(1) by (simp add: body_safe_def)
  from this [of "unread compact_vt (compact_protocol_ctor b)", unfolded safe_def] ok(2)
  show "case read_cmp matrix_codec ty (compact_protocol_ctor b) of
            (Inl f, _) \<Rightarrow> (\<exists>x. f = Throw x)
          | (Inr (n, v), p) \<Rightarrow> wf_buf (cmp_buf p) \<and>
              n = of_nat (unread compact_vt (compact_protocol_ctor b) - unread compact_vt p)"
    by (fastforce simp: cmp_inv_def split: prod.splits sum.splits)
qed

theorem message_body_read_safe_witness:
  "(case read_bin matrix_codec ''ver_req'' (binary_protocol_ctor (new_buf DEFAULT_BUF_LEN True)) of
      (Inl f, _) \<Rightarrow> (\<exists>x. f = Throw x)
    | (Inr (n, v), p) \<Rightarrow> wf_buf (bin_buf p) \<and>
        n = of_nat (unread binary_vt (binary_protocol_ctor (new_buf DEFAULT_BUF_LEN True)) - unread binary_vt p)) \<and>
   (case read_cmp matrix_codec ''ver_req'' (compact_protocol_ctor (new_buf DEFAULT_BUF_LEN True)) of
      (Inl f, _) \<Rightarrow> (\<exists>x. f = Throw x)
    | (Inr (n, v), p) \<Rightarrow> wf_buf (cmp_buf p) \<and>
        n = of_nat (unread compact_vt (compact_protocol_ctor (new_buf DEFAULT_BUF_LEN True)) - unread compact_vt p))"
  by (rule message_body_read_safe [OF _ new_buf_default_wf]) (simp add: decode_invokers_def)

end
