(* ===== verification/Nonce_Filter.thy ===== *)
theory Nonce_Filter
  imports Prelude
begin

text \<open>
  Recognising duplicated messages: \<open>util/bloomlru_filter.h\<close> over the rolling Bloom filter of
  \<open>util/filter/bloom.cpp\<close>, the hash function of \<open>util/crypto/hash.cpp\<close> and the cache of
  \<open>util/lru.hpp\<close>. The Bloom filter packs a two-bit generation number per position into pairs of
  64-bit words; the proofs work on the generation numbers.
\<close>

section \<open>MurmurHash3\<close>

definition ROTL32 :: "u32 \<Rightarrow> nat \<Rightarrow> u32" where
  "ROTL32 x r = push_bit r x OR drop_bit (32 - r) x"

definition murmur_c1 :: u32 where "murmur_c1 = 0xcc9e2d51"
definition murmur_c2 :: u32 where "murmur_c2 = 0x1b873593"

definition murmur_mix :: "u32 \<Rightarrow> u32" where
  "murmur_mix k1 = ROTL32 (k1 * murmur_c1) 15 * murmur_c2"

definition murmur_block :: "u32 \<Rightarrow> u32 \<Rightarrow> u32" where
  "murmur_block h1 k1 = ROTL32 (h1 XOR murmur_mix k1) 13 * 5 + 0xe6546b64"

text \<open>The loop over the blocks of four bytes; what is left is the tail.\<close>

fun murmur_body :: "u32 \<Rightarrow> byte list \<Rightarrow> u32 \<times> byte list" where
  "murmur_body h1 (a # b # c # d # bs) = murmur_body (murmur_block h1 (le_word [a, b, c, d])) bs"
| "murmur_body h1 bs = (h1, bs)"

fun murmur_tail :: "u32 \<Rightarrow> byte list \<Rightarrow> u32" where
  "murmur_tail h1 [a, b, c] = h1 XOR murmur_mix ((push_bit 16 (ucast c) XOR push_bit 8 (ucast b)) XOR ucast a)"
| "murmur_tail h1 [a, b] = h1 XOR murmur_mix (push_bit 8 (ucast b) XOR ucast a)"
| "murmur_tail h1 [a] = h1 XOR murmur_mix (ucast a)"
| "murmur_tail h1 _ = h1"

definition murmur_final :: "u32 \<Rightarrow> u32" where
  "murmur_final h0 =
     (let h1 = h0 XOR drop_bit 16 h0; h2 = h1 * 0x85ebca6b; h3 = h2 XOR drop_bit 13 h2;
          h4 = h3 * 0xc2b2ae35
      in h4 XOR drop_bit 16 h4)"

definition MurmurHash3 :: "u32 \<Rightarrow> byte list \<Rightarrow> u32" where
  "MurmurHash3 nHashSeed vDataToHash =
     (let (h1, tail) = murmur_body nHashSeed vDataToHash
      in murmur_final (murmur_tail h1 tail XOR of_nat (length vDataToHash)))"

section \<open>The rolling Bloom filter\<close>

record rolling_bloom =
  nEntriesPerGeneration :: nat
  nEntriesThisGeneration :: nat
  nGeneration :: nat
  data :: "u64 list"
  nTweak :: u32
  nHashFuncs :: nat

text \<open>
  \<open>reset\<close> draws the tweak from \<open>GetRand\<close>. The numbers of hash functions and of bits come from
  floating-point logarithms in the constructor; they are its arguments here.
\<close>

definition bloom_reset :: "u32 \<Rightarrow> rolling_bloom \<Rightarrow> rolling_bloom" where
  "bloom_reset rand f =
     f\<lparr>nTweak := rand, nEntriesThisGeneration := 0, nGeneration := 1, data := map (\<lambda>_. 0) (data f)\<rparr>"

definition new_bloom :: "nat \<Rightarrow> nat \<Rightarrow> nat \<Rightarrow> u32 \<Rightarrow> rolling_bloom" where
  "new_bloom nElements hashFuncs nFilterBits rand =
     bloom_reset rand
       \<lparr>nEntriesPerGeneration = (nElements + 1) div 2, nEntriesThisGeneration = 0, nGeneration = 0,
        data = replicate ((nFilterBits + 63) div 64 * 2) 0, nTweak = 0, nHashFuncs = hashFuncs\<rparr>"

definition RollingBloomHash :: "nat \<Rightarrow> u32 \<Rightarrow> byte list \<Rightarrow> u32" where
  "RollingBloomHash nHashNum tweak v = MurmurHash3 (of_nat nHashNum * 0xFBA4C795 + tweak) v"

text \<open>Wiping the entries of the generation that begins anew.\<close>

fun wipe :: "u64 \<Rightarrow> u64 \<Rightarrow> u64 list \<Rightarrow> u64 list" where
  "wipe m1 m2 (p1 # p2 # ds) =
     (let msk = (p1 XOR m1) OR (p2 XOR m2) in (p1 AND msk) # (p2 AND msk) # wipe m1 m2 ds)"
| "wipe m1 m2 ds = ds"

definition gen_mask :: "bool \<Rightarrow> u64" where
  "gen_mask b = 0 - (if b then 1 else 0)"

definition next_generation :: "rolling_bloom \<Rightarrow> rolling_bloom" where
  "next_generation f =
     (let g = (if nGeneration f + 1 = 4 then 1 else nGeneration f + 1)
      in f\<lparr>nEntriesThisGeneration := 0, nGeneration := g,
           data := wipe (gen_mask (odd g)) (gen_mask (odd (g div 2))) (data f)\<rparr>)"

definition set_bit_to :: "nat \<Rightarrow> bool \<Rightarrow> u64 \<Rightarrow> u64" where
  "set_bit_to i b w = (w AND NOT (push_bit i 1)) OR push_bit i (if b then 1 else 0)"

text \<open>
  \<open>pos & ~1\<close> and \<open>pos | 1\<close> are the even index at or below \<open>pos\<close> and the odd one at or above it. With
  no data \<open>% data.size()\<close> divides by zero.
\<close>

definition hash_bit :: "u32 \<Rightarrow> nat" where "hash_bit h = unat (h AND 0x3F)"

definition hash_pos :: "u32 \<Rightarrow> nat \<Rightarrow> nat" where "hash_pos h n = unat (drop_bit 6 h) mod n"

definition put_entry :: "nat \<Rightarrow> u32 \<Rightarrow> u64 list \<Rightarrow> u64 list" where
  "put_entry g h d =
     (let i = hash_bit h; pos = hash_pos h (length d); lo = pos div 2 * 2; hi = lo + 1;
          d1 = d[lo := set_bit_to i (odd g) (d ! lo)]
      in d1[hi := set_bit_to i (odd (g div 2)) (d1 ! hi)])"

fun put_entries :: "nat \<Rightarrow> u32 list \<Rightarrow> u64 list \<Rightarrow> u64 list" where
  "put_entries g [] d = d"
| "put_entries g (h # hs) d = put_entries g hs (put_entry g h d)"

definition hashes :: "rolling_bloom \<Rightarrow> byte list \<Rightarrow> u32 list" where
  "hashes f v = map (\<lambda>n. RollingBloomHash n (nTweak f) v) [0..<nHashFuncs f]"

definition bloom_insert :: "byte list \<Rightarrow> rolling_bloom \<Rightarrow> rolling_bloom" where
  "bloom_insert v f0 =
     (let f1 = (if nEntriesThisGeneration f0 = nEntriesPerGeneration f0 then next_generation f0 else f0);
          f2 = f1\<lparr>nEntriesThisGeneration := nEntriesThisGeneration f1 + 1\<rparr>
      in f2\<lparr>data := put_entries (nGeneration f2) (hashes f2 v) (data f2)\<rparr>)"

definition has_entry :: "u64 list \<Rightarrow> u32 \<Rightarrow> bool" where
  "has_entry d h =
     (let lo = hash_pos h (length d) div 2 * 2
      in drop_bit (hash_bit h) (d ! lo OR d ! (lo + 1)) AND 1 \<noteq> 0)"

definition bloom_contains :: "rolling_bloom \<Rightarrow> byte list \<Rightarrow> bool" where
  "bloom_contains f v \<longleftrightarrow> (\<forall>h\<in>set (hashes f v). has_entry (data f) h)"

section \<open>The LRU cache\<close>

text \<open>
  \<open>keys_\<close> holds the entries, most recent first; \<open>cache_\<close> maps each key to its node in that list
  and is the lookup in it here.
\<close>

record ('k, 'v) lru =
  keys :: "('k \<times> 'v) list"
  maxSize :: nat
  elasticity :: nat

definition new_lru :: "nat \<Rightarrow> nat \<Rightarrow> ('k, 'v) lru" where
  "new_lru n e = \<lparr>keys = [], maxSize = n, elasticity = e\<rparr>"

definition lru_contains :: "('k, 'v) lru \<Rightarrow> 'k \<Rightarrow> bool" where
  "lru_contains c k \<longleftrightarrow> k \<in> fst ` set (keys c)"

definition lru_prune :: "('k, 'v) lru \<Rightarrow> ('k, 'v) lru" where
  "lru_prune c =
     (if maxSize c = 0 \<or> length (keys c) < maxSize c + elasticity c then c
      else c\<lparr>keys := take (maxSize c) (keys c)\<rparr>)"

definition lru_insert :: "'k \<Rightarrow> 'v \<Rightarrow> ('k, 'v) lru \<Rightarrow> ('k, 'v) lru" where
  "lru_insert k v c =
     (if lru_contains c k then c\<lparr>keys := (k, v) # filter (\<lambda>e. fst e \<noteq> k) (keys c)\<rparr>
      else lru_prune (c\<lparr>keys := (k, v) # keys c\<rparr>))"

section \<open>The filter of nonces\<close>

record bloomlru_filter =
  m_bloom :: rolling_bloom
  m_lru :: "(string, i32) lru"

definition new_filter :: "nat \<Rightarrow> nat \<Rightarrow> nat \<Rightarrow> u32 \<Rightarrow> bloomlru_filter" where
  "new_filter elements hashFuncs nFilterBits rand =
     \<lparr>m_bloom = new_bloom elements hashFuncs nFilterBits rand, m_lru = new_lru elements 0\<rparr>"

definition filter_insert :: "string \<Rightarrow> bloomlru_filter \<Rightarrow> bloomlru_filter" where
  "filter_insert str f =
     (if str = [] then f
      else f\<lparr>m_bloom := bloom_insert (bytes_of_string str) (m_bloom f), m_lru := lru_insert str 1 (m_lru f)\<rparr>)"

text \<open>\<open>contains\<close> records what it has not seen.\<close>

definition filter_contains :: "string \<Rightarrow> bloomlru_filter \<Rightarrow> bool \<times> bloomlru_filter" where
  "filter_contains str f =
     (if str = [] then (False, f)
      else if \<not> bloom_contains (m_bloom f) (bytes_of_string str) then (False, filter_insert str f)
      else if lru_contains (m_lru f) str then (True, f)
      else (False, filter_insert str f))"

section \<open>Generation numbers\<close>

text \<open>The generation recorded for bit \<open>i\<close> of pair \<open>q\<close>; 0 is "unset".\<close>

definition gen_at :: "u64 list \<Rightarrow> nat \<Rightarrow> nat \<Rightarrow> nat" where
  "gen_at d q i = (if bit (d ! (2 * q)) i then 1 else 0) + (if bit (d ! (2 * q + 1)) i then 2 else 0)"

definition wf_data :: "u64 list \<Rightarrow> bool" where
  "wf_data d \<longleftrightarrow> even (length d) \<and> d \<noteq> []"

definition slot :: "nat \<Rightarrow> u32 \<Rightarrow> nat" where
  "slot n h = hash_pos h n div 2"

lemma hash_bit_lt: "hash_bit h < 64"
proof -
  have "h AND 0x3F = take_bit 6 h" by (simp add: take_bit_eq_mask mask_eq_exp_minus_1)
  then show ?thesis
    using take_bit_nat_less_exp [of 6 "unat h"] by (simp add: hash_bit_def unsigned_take_bit_eq)
qed

lemma slot_lt: "wf_data d \<Longrightarrow> 2 * slot (length d) h + 1 < length d"
proof -
  assume "wf_data d"
  then have "hash_pos h (length d) < length d" "even (length d)" by (simp_all add: wf_data_def hash_pos_def)
  then show ?thesis unfolding slot_def by presburger
qed

lemma gen_mask_bit: "i < 64 \<Longrightarrow> bit (gen_mask b) i = b"
  by (cases b) (simp_all add: gen_mask_def)

lemma length_wipe [simp]: "length (wipe m1 m2 d) = length d"
  by (induction m1 m2 d rule: wipe.induct) (simp_all add: Let_def)

lemma wf_wipe [simp]: "wf_data (wipe m1 m2 d) = wf_data d"
  by (metis length_wipe length_0_conv wf_data_def)

text \<open>Wiping generation \<open>g\<close> unsets exactly the positions that hold it.\<close>

lemma wipe_nth:
  "even (length d) \<Longrightarrow> 2 * q + 1 < length d \<Longrightarrow>
     wipe m1 m2 d ! (2 * q) = d ! (2 * q) AND ((d ! (2 * q) XOR m1) OR (d ! (2 * q + 1) XOR m2)) \<and>
     wipe m1 m2 d ! (2 * q + 1) = d ! (2 * q + 1) AND ((d ! (2 * q) XOR m1) OR (d ! (2 * q + 1) XOR m2))"
proof (induction m1 m2 d arbitrary: q rule: wipe.induct)
  case (1 m1 m2 p1 p2 ds)
  show ?case
  proof (cases q)
    case 0
    then show ?thesis by (simp add: Let_def)
  next
    case (Suc r)
    with 1 show ?thesis by (simp add: Let_def)
  qed
qed simp_all

lemma gen_at_wipe:
  assumes "wf_data d" and "2 * q + 1 < length d" and "i < 64" and "g \<in> {1, 2, 3}"
  shows "gen_at (wipe (gen_mask (odd g)) (gen_mask (odd (g div 2))) d) q i =
           (if gen_at d q i = g then 0 else gen_at d q i)"
proof -
  have "even (length d)" using assms(1) by (simp add: wf_data_def)
  note w = wipe_nth [OF this assms(2), of "gen_mask (odd g)" "gen_mask (odd (g div 2))"]
  show ?thesis
    using assms(4) unfolding gen_at_def conjunct1 [OF w] conjunct2 [OF w]
    by (auto simp: bit_and_iff bit_or_iff bit_xor_iff gen_mask_bit [OF assms(3)])
qed

lemma bit_set_bit_to: "i < 64 \<Longrightarrow> bit (set_bit_to i b w) j = (if j = i then b else bit w j)"
  by (cases "j < 64")
     (auto simp: set_bit_to_def bit_or_iff bit_and_iff bit_not_iff bit_push_bit_iff bit_1_iff bit_exp_iff
       dest: bit_imp_le_length split: if_splits)

lemma length_put_entry [simp]: "length (put_entry g h d) = length d"
  by (simp add: put_entry_def Let_def)

lemma wf_put_entry [simp]: "wf_data (put_entry g h d) = wf_data d"
  by (metis length_put_entry length_0_conv wf_data_def)

lemma gen_at_put_entry:
  assumes "wf_data d" and "2 * q + 1 < length d" and "g \<in> {1, 2, 3}"
  shows "gen_at (put_entry g h d) q i = (if q = slot (length d) h \<and> i = hash_bit h then g else gen_at d q i)"
proof -
  let ?s = "slot (length d) h"
  have s: "2 * ?s + 1 < length d" by (rule slot_lt [OF assms(1)])
  have lo: "hash_pos h (length d) div 2 * 2 = 2 * ?s" by (simp add: slot_def)
  have "put_entry g h d = d[2 * ?s := set_bit_to (hash_bit h) (odd g) (d ! (2 * ?s)),
      2 * ?s + 1 := set_bit_to (hash_bit h) (odd (g div 2)) (d ! (2 * ?s + 1))]"
    by (simp add: put_entry_def Let_def lo)
  then show ?thesis
    using assms(2,3) s hash_bit_lt [of h]
    by (auto simp: gen_at_def nth_list_update bit_set_bit_to)
qed

lemma has_entry_gen: "has_entry d h \<longleftrightarrow> gen_at d (slot (length d) h) (hash_bit h) \<noteq> 0"
proof -
  let ?lo = "2 * slot (length d) h"
  have "drop_bit (hash_bit h) (d ! ?lo OR d ! (?lo + 1)) AND 1 \<noteq> 0 \<longleftrightarrow> bit (d ! ?lo OR d ! (?lo + 1)) (hash_bit h)"
    by (simp add: and_one_eq mod_2_eq_odd bit_iff_odd_drop_bit)
  then show ?thesis
    by (simp add: has_entry_def Let_def gen_at_def slot_def bit_or_iff mult.commute)
qed

lemma length_put_entries [simp]: "length (put_entries g hs d) = length d"
  by (induction hs arbitrary: d) simp_all

lemma wf_put_entries [simp]: "wf_data (put_entries g hs d) = wf_data d"
  by (induction hs arbitrary: d) simp_all

lemma gen_at_put_entries:
  assumes "wf_data d" and "2 * q + 1 < length d" and "g \<in> {1, 2, 3}"
  shows "gen_at (put_entries g hs d) q i =
           (if \<exists>h\<in>set hs. q = slot (length d) h \<and> i = hash_bit h then g else gen_at d q i)"
  using assms
proof (induction hs arbitrary: d)
  case (Cons h hs)
  have "wf_data (put_entry g h d)" "2 * q + 1 < length (put_entry g h d)" using Cons.prems by simp_all
  from Cons.IH [OF this Cons.prems(3)] show ?case
    using gen_at_put_entry [OF Cons.prems, of h i] by auto
qed simp

section \<open>No recent entry is forgotten\<close>

definition wf_bloom :: "rolling_bloom \<Rightarrow> bool" where
  "wf_bloom f \<longleftrightarrow>
     wf_data (data f) \<and> nGeneration f \<in> {1, 2, 3} \<and> 0 < nEntriesPerGeneration f \<and>
     nEntriesThisGeneration f \<le> nEntriesPerGeneration f"

lemma wf_new_bloom: "0 < nElements \<Longrightarrow> 0 < bits \<Longrightarrow> wf_bloom (new_bloom nElements k bits r)"
  by (auto simp: wf_bloom_def new_bloom_def bloom_reset_def wf_data_def)

text \<open>The generation before a given one, and the ages a position of an entry may have.\<close>

definition prev_gen :: "nat \<Rightarrow> nat" where
  "prev_gen g = (if g = 1 then 3 else g - 1)"

definition recent :: "nat \<Rightarrow> nat \<Rightarrow> nat \<Rightarrow> bool" where
  "recent r g x \<longleftrightarrow> x = g \<or> 1 \<le> r \<and> x = prev_gen g \<or> 2 \<le> r \<and> x = prev_gen (prev_gen g)"

text \<open>Every position of \<open>v\<close> holds one of the last \<open>r + 1\<close> generations.\<close>

definition protected :: "rolling_bloom \<Rightarrow> byte list \<Rightarrow> nat \<Rightarrow> bool" where
  "protected f v r \<longleftrightarrow>
     (\<forall>h\<in>set (hashes f v). recent r (nGeneration f) (gen_at (data f) (slot (length (data f)) h) (hash_bit h)))"

text \<open>With this many insertions to go before an entry may be wiped.\<close>

definition lasts :: "rolling_bloom \<Rightarrow> byte list \<Rightarrow> nat \<Rightarrow> bool" where
  "lasts f v n \<longleftrightarrow>
     (\<exists>r\<le>2. protected f v r \<and>
        n \<le> (2 - r) * nEntriesPerGeneration f + (nEntriesPerGeneration f - nEntriesThisGeneration f))"

lemma recent_nonzero: "recent r g x \<Longrightarrow> g \<in> {1, 2, 3} \<Longrightarrow> x \<noteq> 0"
  by (auto simp: recent_def prev_gen_def split: if_splits)

lemma lasts_contains: "wf_bloom f \<Longrightarrow> lasts f v n \<Longrightarrow> bloom_contains f v"
  by (auto simp: lasts_def protected_def bloom_contains_def has_entry_gen wf_bloom_def dest!: recent_nonzero)

text \<open>Putting entries of the current generation keeps every entry as recent as it was.\<close>

definition add_entry :: "byte list \<Rightarrow> rolling_bloom \<Rightarrow> rolling_bloom" where
  "add_entry v f =
     f\<lparr>nEntriesThisGeneration := nEntriesThisGeneration f + 1,
       data := put_entries (nGeneration f) (hashes f v) (data f)\<rparr>"

lemma bloom_insert_alt:
  "bloom_insert v f =
     add_entry v (if nEntriesThisGeneration f = nEntriesPerGeneration f then next_generation f else f)"
  by (simp add: bloom_insert_def add_entry_def Let_def hashes_def)

lemma hashes_add [simp]: "hashes (add_entry w f) v = hashes f v"
  by (simp add: hashes_def add_entry_def)

lemma hashes_next [simp]: "hashes (next_generation f) v = hashes f v"
  by (simp add: hashes_def next_generation_def Let_def)

lemma protected_add:
  assumes "wf_data (data f)" "nGeneration f \<in> {1, 2, 3}" "protected f v r"
  shows "protected (add_entry w f) v r"
proof -
  have "recent r (nGeneration f) (gen_at (put_entries (nGeneration f) (hashes f w) (data f)) (slot (length (data f)) h) (hash_bit h))"
    if "h \<in> set (hashes f v)" for h
    using assms(3) that gen_at_put_entries [OF assms(1) slot_lt [OF assms(1)] assms(2)]
    by (auto simp: protected_def recent_def)
  then show ?thesis by (simp add: protected_def) (simp add: add_entry_def)
qed

lemma protected_self:
  assumes "wf_data (data f)" "nGeneration f \<in> {1, 2, 3}"
  shows "protected (add_entry v f) v 0"
proof -
  have "recent 0 (nGeneration f) (gen_at (put_entries (nGeneration f) (hashes f v) (data f)) (slot (length (data f)) h) (hash_bit h))"
    if "h \<in> set (hashes f v)" for h
    using that gen_at_put_entries [OF assms(1) slot_lt [OF assms(1)] assms(2)] by (auto simp: recent_def)
  then show ?thesis by (simp add: protected_def) (simp add: add_entry_def)
qed

text \<open>A new generation ages every entry by one; the first two do not touch it.\<close>

lemma protected_next:
  assumes "wf_data (data f)" "nGeneration f \<in> {1, 2, 3}" "protected f v r" "r < 2"
  shows "protected (next_generation f) v (Suc r)"
proof -
  define g where "g = (if nGeneration f + 1 = 4 then 1 else nGeneration f + 1)"
  have g: "g \<in> {1, 2, 3}" using assms(2) by (auto simp: g_def)
  have age: "recent (Suc r) g (if x = g then 0 else x)" if "recent r (nGeneration f) x" for x
    using that assms(2,4) by (auto simp: recent_def prev_gen_def g_def split: if_splits)
  have "recent (Suc r) g (gen_at (wipe (gen_mask (odd g)) (gen_mask (odd (g div 2))) (data f)) (slot (length (data f)) h) (hash_bit h))"
    if "h \<in> set (hashes f v)" for h
    using assms(3) that unfolding gen_at_wipe [OF assms(1) slot_lt [OF assms(1)] hash_bit_lt g]
    by (intro age) (simp add: protected_def)
  moreover have "nGeneration (next_generation f) = g"
    "data (next_generation f) = wipe (gen_mask (odd g)) (gen_mask (odd (g div 2))) (data f)"
    unfolding next_generation_def Let_def g_def [symmetric] by simp_all
  ultimately show ?thesis by (simp add: protected_def)
qed

lemma wf_next: "wf_bloom f \<Longrightarrow> wf_bloom (next_generation f)"
  by (auto simp: wf_bloom_def next_generation_def Let_def)

lemma wf_insert: "wf_bloom f \<Longrightarrow> wf_bloom (bloom_insert v f)"
  using wf_next [of f]
  by (auto simp: bloom_insert_alt wf_bloom_def add_entry_def next_generation_def Let_def)

lemma per_generation_const [simp]:
  "nEntriesPerGeneration (bloom_insert v f) = nEntriesPerGeneration f"
  by (simp add: bloom_insert_alt add_entry_def next_generation_def Let_def)

lemma insert_lasts:
  assumes wf: "wf_bloom f" and l: "lasts f v (Suc n)"
  shows "lasts (bloom_insert w f) v n"
proof -
  let ?E = "nEntriesPerGeneration f" and ?c = "nEntriesThisGeneration f"
  from l obtain r where r: "r \<le> 2" "protected f v r" "Suc n \<le> (2 - r) * ?E + (?E - ?c)" by (auto simp: lasts_def)
  have d: "wf_data (data f)" "nGeneration f \<in> {1, 2, 3}" "0 < ?E" using wf by (simp_all add: wf_bloom_def)
  show ?thesis
  proof (cases "?c = ?E")
    case True
    with r have r2: "r < 2" by (cases "r = 2") auto
    have nd: "wf_data (data (next_generation f))" "nGeneration (next_generation f) \<in> {1, 2, 3}"
      using wf_next [OF wf] by (simp_all add: wf_bloom_def)
    have "protected (bloom_insert w f) v (Suc r)"
      unfolding bloom_insert_alt using True protected_add [OF nd protected_next [OF d(1,2) r(2) r2]] by simp
    moreover have "nEntriesThisGeneration (bloom_insert w f) = 1"
      using True by (simp add: bloom_insert_alt add_entry_def next_generation_def Let_def)
    moreover have "n \<le> (2 - Suc r) * ?E + (?E - 1)"
    proof -
      have "2 - r = Suc (2 - Suc r)" using r2 by simp
      then show ?thesis using r(3) True d(3) by simp
    qed
    ultimately show ?thesis unfolding lasts_def using r2 by (intro exI [of _ "Suc r"]) simp
  next
    case False
    have "protected (bloom_insert w f) v r"
      unfolding bloom_insert_alt using False protected_add [OF d(1,2) r(2)] by simp
    moreover have "nEntriesThisGeneration (bloom_insert w f) = Suc ?c"
      using False by (simp add: bloom_insert_alt add_entry_def)
    moreover have "n \<le> (2 - r) * ?E + (?E - Suc ?c)" using r(3) False wf by (simp add: wf_bloom_def)
    ultimately show ?thesis unfolding lasts_def using r(1) by (intro exI [of _ r]) simp
  qed
qed

lemma insert_self_lasts:
  assumes "wf_bloom f"
  shows "lasts (bloom_insert v f) v (2 * nEntriesPerGeneration f)"
proof -
  have "wf_data (data f)" "nGeneration f \<in> {1, 2, 3}" "wf_data (data (next_generation f))"
    "nGeneration (next_generation f) \<in> {1, 2, 3}"
    using assms wf_next [OF assms] by (simp_all add: wf_bloom_def)
  then have "protected (bloom_insert v f) v 0"
    unfolding bloom_insert_alt using protected_self [of f] protected_self [of "next_generation f"] by simp
  then show ?thesis unfolding lasts_def by (intro exI [of _ 0]) simp
qed

lemma lasts_mono: "lasts f v n \<Longrightarrow> m \<le> n \<Longrightarrow> lasts f v m"
  unfolding lasts_def by (meson le_trans)

section \<open>The filter\<close>

lemma take_filter:
  "x \<in> set (take n xs) \<Longrightarrow> P x \<Longrightarrow> x \<in> set (take n (filter P xs))"
proof (induction xs arbitrary: n)
  case (Cons a xs)
  show ?case
  proof (cases n)
    case (Suc m)
    have "x \<in> set (take m ys) \<Longrightarrow> x \<in> set (take n ys)" for ys :: "'a list"
      using set_take_subset_set_take [of m n ys] Suc by auto
    with Cons Suc show ?thesis by auto
  qed (use Cons in simp)
qed simp

text \<open>Inserting another key moves a key back by one place at most.\<close>

lemma lru_insert_other:
  assumes "x \<in> set (take n (map fst (keys c)))" and "x \<noteq> k" and "Suc n \<le> maxSize c" and "elasticity c = 0"
  shows "x \<in> set (take (Suc n) (map fst (keys (lru_insert k v c))))"
proof (cases "lru_contains c k")
  case True
  have "map fst (filter (\<lambda>e. fst e \<noteq> k) (keys c)) = filter (\<lambda>y. y \<noteq> k) (map fst (keys c))"
    by (simp add: filter_map o_def)
  with True take_filter [OF assms(1), of "\<lambda>y. y \<noteq> k"] assms(2) show ?thesis by (simp add: lru_insert_def)
next
  case False
  have "take (Suc n) (take (maxSize c) ys) = take (Suc n) ys" for ys :: "'a list"
    using assms(3) by (simp add: min_def)
  with False assms show ?thesis by (simp add: lru_insert_def lru_prune_def take_map [symmetric])
qed

lemma lru_insert_self: "0 < maxSize c \<Longrightarrow> \<exists>ks. map fst (keys (lru_insert k v c)) = k # ks"
  by (cases "maxSize c") (auto simp: lru_insert_def lru_prune_def)

lemma lru_insert_const [simp]:
  "maxSize (lru_insert k v c) = maxSize c" "elasticity (lru_insert k v c) = elasticity c"
  by (simp_all add: lru_insert_def lru_prune_def)

lemma lru_insert_keys: "fst ` set (keys (lru_insert k v c)) \<subseteq> insert k (fst ` set (keys c))"
proof -
  have "fst ` set (take n ((k, v) # keys c)) \<subseteq> insert k (fst ` set (keys c))" for n
    using set_take_subset [of n "(k, v) # keys c"] by auto
  then show ?thesis by (auto simp: lru_insert_def lru_prune_def)
qed

definition wf_filter :: "nat \<Rightarrow> bloomlru_filter \<Rightarrow> bool" where
  "wf_filter n f \<longleftrightarrow>
     wf_bloom (m_bloom f) \<and> maxSize (m_lru f) = n \<and> elasticity (m_lru f) = 0 \<and> 0 < n \<and>
     n \<le> 2 * nEntriesPerGeneration (m_bloom f)"

lemma wf_new_filter: "0 < n \<Longrightarrow> 0 < bits \<Longrightarrow> wf_filter n (new_filter n k bits r)"
  using wf_new_bloom [of n bits k r]
  by (simp add: wf_filter_def new_filter_def new_lru_def) (simp add: new_bloom_def bloom_reset_def)

lemma wf_filter_insert: "wf_filter n f \<Longrightarrow> wf_filter n (filter_insert str f)"
  by (simp add: wf_filter_def filter_insert_def wf_insert)

lemma snd_filter_contains:
  "snd (filter_contains str f) = f \<or> snd (filter_contains str f) = filter_insert str f"
  by (simp add: filter_contains_def)

lemma wf_filter_contains: "wf_filter n f \<Longrightarrow> wf_filter n (snd (filter_contains str f))"
  using snd_filter_contains [of str f] wf_filter_insert by metis

text \<open>\<open>x\<close> will still be recognised after \<open>m\<close> more operations.\<close>

definition remembers :: "nat \<Rightarrow> bloomlru_filter \<Rightarrow> string \<Rightarrow> nat \<Rightarrow> bool" where
  "remembers n f x m \<longleftrightarrow>
     m < n \<and> lasts (m_bloom f) (bytes_of_string x) m \<and> x \<in> set (take (n - m) (map fst (keys (m_lru f))))"

lemma remembers_contains:
  assumes "wf_filter n f" and "remembers n f x m" and "x \<noteq> []"
  shows "filter_contains x f = (True, f)"
proof -
  have "bloom_contains (m_bloom f) (bytes_of_string x)"
    using assms(1,2) lasts_contains by (auto simp: wf_filter_def remembers_def)
  moreover have "lru_contains (m_lru f) x"
    using assms(2) by (auto simp: remembers_def lru_contains_def dest: in_set_takeD)
  ultimately show ?thesis using assms(3) by (simp add: filter_contains_def)
qed

lemma remembers_weaken: "remembers n f x (Suc m) \<Longrightarrow> remembers n f x m"
  using set_take_subset_set_take [of "n - Suc m" "n - m"]
  by (fastforce simp: remembers_def intro: lasts_mono)

lemma insert_remembers: "wf_filter n f \<Longrightarrow> x \<noteq> [] \<Longrightarrow> remembers n (filter_insert x f) x (n - 1)"
proof -
  assume wf: "wf_filter n f" and x: "x \<noteq> []"
  then have "lasts (bloom_insert (bytes_of_string x) (m_bloom f)) (bytes_of_string x) (n - 1)"
    by (intro lasts_mono [OF insert_self_lasts]) (auto simp: wf_filter_def)
  moreover obtain ks where "map fst (keys (lru_insert x 1 (m_lru f))) = x # ks"
    using lru_insert_self [of "m_lru f" x 1] wf by (auto simp: wf_filter_def)
  ultimately show ?thesis using wf x by (simp add: remembers_def filter_insert_def wf_filter_def)
qed

lemma insert_other_remembers:
  assumes "wf_filter n f" and "remembers n f x (Suc m)"
  shows "remembers n (filter_insert y f) x m"
proof (cases "y = [] \<or> y = x")
  case True
  show ?thesis
  proof (cases "y = []")
    case False
    have "remembers n (filter_insert x f) x (n - 1)" using True False assms(1) by (intro insert_remembers) auto
    moreover have "m \<le> n - 1" "m < n" using assms(2) by (auto simp: remembers_def)
    moreover have "set (take (n - (n - 1)) ks) \<subseteq> set (take (n - m) ks)" for ks :: "string list"
      by (rule set_take_subset_set_take) (use \<open>m < n\<close> in simp)
    ultimately show ?thesis using True False by (auto simp: remembers_def intro: lasts_mono)
  qed (use remembers_weaken [OF assms(2)] in \<open>simp add: filter_insert_def\<close>)
next
  case False
  have r: "Suc m < n" "lasts (m_bloom f) (bytes_of_string x) (Suc m)"
    "x \<in> set (take (n - Suc m) (map fst (keys (m_lru f))))" using assms(2) by (simp_all add: remembers_def)
  have "lasts (bloom_insert (bytes_of_string y) (m_bloom f)) (bytes_of_string x) m"
    using assms(1) r(2) by (intro insert_lasts) (auto simp: wf_filter_def)
  moreover have "x \<in> set (take (Suc (n - Suc m)) (map fst (keys (lru_insert y 1 (m_lru f)))))"
    using assms(1) r(1,3) False by (intro lru_insert_other) (auto simp: wf_filter_def)
  moreover have "Suc (n - Suc m) = n - m" using r(1) by simp
  ultimately show ?thesis using False r(1) by (simp add: remembers_def filter_insert_def)
qed

text \<open>A history of the filter: messages sent are inserted, messages received are asked for.\<close>

datatype filter_op = Sent string | Received string

fun filter_step :: "filter_op \<Rightarrow> bloomlru_filter \<Rightarrow> bloomlru_filter" where
  "filter_step (Sent str) f = filter_insert str f"
| "filter_step (Received str) f = snd (filter_contains str f)"

fun op_nonce :: "filter_op \<Rightarrow> string" where
  "op_nonce (Sent str) = str"
| "op_nonce (Received str) = str"

definition filter_run :: "filter_op list \<Rightarrow> bloomlru_filter \<Rightarrow> bloomlru_filter" where
  "filter_run ops f = fold filter_step ops f"

lemma filter_step_wf: "wf_filter n f \<Longrightarrow> wf_filter n (filter_step a f)"
  by (cases a) (simp_all add: wf_filter_insert wf_filter_contains)

lemma filter_step_remembers: "wf_filter n f \<Longrightarrow> remembers n f x (Suc m) \<Longrightarrow> remembers n (filter_step a f) x m"
  using insert_other_remembers remembers_weaken snd_filter_contains
  by (cases a) (simp, metis filter_step.simps(2))

lemma filter_run_remembers:
  "wf_filter n f \<Longrightarrow> remembers n f x (length ops + m) \<Longrightarrow> remembers n (filter_run ops f) x m"
  by (induction ops arbitrary: f) (simp_all add: filter_run_def filter_step_remembers filter_step_wf)

lemma filter_run_wf: "wf_filter n f \<Longrightarrow> wf_filter n (filter_run ops f)"
  by (induction ops arbitrary: f) (simp_all add: filter_run_def filter_step_wf)

lemma filter_insert_keys:
  "fst ` set (keys (m_lru (filter_insert str f))) \<subseteq> insert str (fst ` set (keys (m_lru f)))"
  using lru_insert_keys [of str 1 "m_lru f"] by (auto simp: filter_insert_def)

lemma filter_step_keys:
  "fst ` set (keys (m_lru (filter_step a f))) \<subseteq> insert (op_nonce a) (fst ` set (keys (m_lru f)))"
proof (cases a)
  case (Received str)
  then show ?thesis using snd_filter_contains [of str f] filter_insert_keys [of str f] by force
qed (use filter_insert_keys in simp)

lemma filter_run_keys:
  "fst ` set (keys (m_lru (filter_run ops f))) \<subseteq> op_nonce ` set ops \<union> fst ` set (keys (m_lru f))"
proof (induction ops arbitrary: f)
  case (Cons a ops)
  from Cons.IH [of "filter_step a f"] filter_step_keys [of a f] show ?case by (auto simp: filter_run_def)
qed (simp add: filter_run_def)

section \<open>Properties\<close>

text \<open>(C31) The duplicate filter is exact over its window. Starting empty and after any history, the
  filter calls a nonce a duplicate only if that very nonce was sent or received before (a false
  positive of the Bloom filter alone is never enough to drop a message); and once a message has
  been sent or let through, every copy of it that arrives before \<open>elements\<close> further operations is
  recognised.\<close>

theorem duplicates_recognised_exactly:
  fixes ops :: "filter_op list" and hashFuncs :: nat and rand :: u32
  assumes "0 < elements" and "0 < nFilterBits" and "x \<noteq> []"
  defines "f \<equiv> filter_run ops (new_filter elements hashFuncs nFilterBits rand)"
  shows "(fst (filter_contains x f) \<longrightarrow> x \<in> op_nonce ` set ops) \<and>
         (\<forall>later a. (a = Sent x \<or> a = Received x \<and> \<not> fst (filter_contains x f)) \<and> length later < elements \<longrightarrow>
            fst (filter_contains x (filter_run later (filter_step a f))))"
proof (intro conjI impI allI; (elim conjE)?)
  assume "fst (filter_contains x f)"
  then have "lru_contains (m_lru f) x" by (auto simp: filter_contains_def split: if_splits)
  then show "x \<in> op_nonce ` set ops"
    using filter_run_keys [of ops "new_filter elements hashFuncs nFilterBits rand"]
    by (auto simp: f_def lru_contains_def new_filter_def new_lru_def)
next
  fix later :: "filter_op list" and a
  assume a: "a = Sent x \<or> a = Received x \<and> \<not> fst (filter_contains x f)" and l: "length later < elements"
  have wf: "wf_filter elements f" unfolding f_def by (rule filter_run_wf [OF wf_new_filter [OF assms(1,2)]])
  have step: "filter_step a f = filter_insert x f" using a assms(3) by (auto simp: filter_contains_def split: if_splits)
  have wf': "wf_filter elements (filter_insert x f)" by (rule wf_filter_insert [OF wf])
  have "length later + (elements - 1 - length later) = elements - 1" using l by simp
  then have "remembers elements (filter_run later (filter_insert x f)) x (elements - 1 - length later)"
    using insert_remembers [OF wf assms(3)] by (intro filter_run_remembers [OF wf']) simp
  from remembers_contains [OF filter_run_wf [OF wf'] this assms(3)]
  show "fst (filter_contains x (filter_run later (filter_step a f)))" by (simp add: step)
qed

theorem duplicates_recognised_exactly_witness:
  "fst (filter_contains ''n1''
     (filter_run [Received ''n2'', Sent ''n3''] (filter_step (Sent ''n1'') (filter_run [] (new_filter 4 2 128 7)))))"
  using duplicates_recognised_exactly [of 4 128 "''n1''" "[]" 2 7, THEN conjunct2, THEN spec, of "[Received ''n2'', Sent ''n3'']",
      THEN spec, of "Sent ''n1''"] by simp

text \<open>The rolling Bloom filter keeps the promise of its comment in \<open>bloom.h\<close>: an item is reported as
  contained after any \<open>n\<close> insertions that follow its own, for every \<open>n\<close> up to the \<open>nElements\<close> the
  filter was built for.\<close>

theorem rolling_bloom_keeps_recent:
  assumes "0 < nElements" and "0 < nFilterBits" and "length later \<le> nElements"
  shows "bloom_contains
           (fold bloom_insert later
             (bloom_insert v (fold bloom_insert earlier (new_bloom nElements hashFuncs nFilterBits rand)))) v"
proof -
  define f where "f = fold bloom_insert earlier (new_bloom nElements hashFuncs nFilterBits rand)"
  have wf: "wf_bloom f \<and> nEntriesPerGeneration f = (nElements + 1) div 2"
    unfolding f_def
  proof (induction earlier rule: rev_induct)
    case Nil
    show ?case using wf_new_bloom [OF assms(1,2)] by (simp add: new_bloom_def bloom_reset_def)
  qed (simp add: wf_insert)
  have keep: "wf_bloom g \<Longrightarrow> lasts g v (length ws) \<Longrightarrow> bloom_contains (fold bloom_insert ws g) v" for ws g
    by (induction ws arbitrary: g) (simp_all add: lasts_contains wf_insert insert_lasts)
  have "lasts (bloom_insert v f) v (length later)"
    using insert_self_lasts [of f v] wf assms(3) by (auto elim!: lasts_mono)
  then show ?thesis unfolding f_def [symmetric] using wf by (intro keep) (simp_all add: wf_insert)
qed

theorem rolling_bloom_keeps_recent_witness:
  "bloom_contains
     (fold bloom_insert [[1], [2], [3]] (bloom_insert [9, 9] (fold bloom_insert [[5]] (new_bloom 3 4 100 42)))) [9, 9]"
  by (rule rolling_bloom_keeps_recent) simp_all

end
