(* ===== verification/Tcp_Channel.thy ===== *)
theory Tcp_Channel
  imports Byte_Buf "HOL-Library.Sublist"
begin

text \<open>
  A TCP connection: \<open>network/channel/tcp_socket_channel.{h,cpp}\<close>, from \<open>start\<close> on. The socket is
  represented by whether a read or a write is outstanding and by the bytes it has accepted; its
  completions are the arguments of \<open>on_read\<close> and \<open>on_write\<close>. The handler of the channel
  (\<open>socket_channel_handler\<close>) is a state of type \<open>'h\<close> with its operations as parameters. The counter
  \<open>i\<close> that \<open>read\<close> passes along for its debug output is left out.
\<close>

section \<open>State\<close>

datatype channel_state = CHANNEL_ACTIVE | CHANNEL_STOPPED

definition MAX_SEND_QUEUE_MSG_COUNT :: nat where "MAX_SEND_QUEUE_MSG_COUNT = 204800"

record ('m, 'h) tcp_channel =
  m_state :: channel_state
  m_recv_buf :: byte_buf
  m_socket_handler :: 'h
  m_send_queue :: "'m list"
  m_send_buf :: byte_buf
  reading :: bool
  writing :: bool
  wire :: "byte list"
  errors :: nat

definition new_channel :: "'h \<Rightarrow> ('m, 'h) tcp_channel" where
  "new_channel h =
     \<lparr>m_state = CHANNEL_ACTIVE, m_recv_buf = new_buf DEFAULT_BUF_LEN True, m_socket_handler = h,
      m_send_queue = [], m_send_buf = new_buf DEFAULT_BUF_LEN True, reading = False, writing = False,
      wire = [], errors = 0\<rparr>"

datatype io_error = No_error | Operation_aborted | Remote_io | Other_error

text \<open>\<open>on_error\<close> publishes a \<open>TCP_CHANNEL_ERROR\<close> message; here it is counted.\<close>

definition error_notify :: "('m, 'h) tcp_channel \<Rightarrow> ('m, 'h) tcp_channel" where
  "error_notify ch = ch\<lparr>errors := errors ch + 1\<rparr>"

definition on_error :: "('m, 'h) tcp_channel \<Rightarrow> ('m, 'h) tcp_channel" where
  "on_error ch = error_notify ch"

definition channel_close :: "('m, 'h) tcp_channel \<Rightarrow> ('m, 'h) tcp_channel" where
  "channel_close ch = ch\<lparr>m_state := CHANNEL_STOPPED\<rparr>"

definition channel_stop :: "('h \<Rightarrow> 'h) \<Rightarrow> ('m, 'h) tcp_channel \<Rightarrow> ('m, 'h) tcp_channel" where
  "channel_stop handler_stop ch =
     ch\<lparr>m_socket_handler := handler_stop (m_socket_handler ch), m_state := CHANNEL_STOPPED\<rparr>"

definition is_channel_ready :: "('h \<Rightarrow> bool) \<Rightarrow> ('m, 'h) tcp_channel \<Rightarrow> bool" where
  "is_channel_ready is_logined ch \<longleftrightarrow> is_logined (m_socket_handler ch) \<and> m_state ch \<noteq> CHANNEL_STOPPED"

text \<open>\<open>catch (...)\<close> around a body: every exception calls \<open>on_error\<close> and gives the result \<open>x\<close>.\<close>

definition catch_error :: "'a \<Rightarrow> (('m, 'h) tcp_channel, 'a) M \<Rightarrow> (('m, 'h) tcp_channel, 'a) M" where
  "catch_error x m ch = (case m ch of (Inl (Throw _), ch') \<Rightarrow> (Inr x, on_error ch') | r \<Rightarrow> r)"

section \<open>Receiving\<close>

definition async_read :: "(('m, 'h) tcp_channel, unit) M" where
  "async_read ch =
     (if m_state ch = CHANNEL_STOPPED then (Inr (), ch)
      else case move_buf (m_recv_buf ch) of
             (Inl f, b) \<Rightarrow> (Inl f, ch\<lparr>m_recv_buf := b\<rparr>)
           | (Inr _, b) \<Rightarrow>
               (Inr (), if get_valid_write_len b = 0 then on_error (ch\<lparr>m_recv_buf := b\<rparr>)
                        else ch\<lparr>m_recv_buf := b, reading := True\<rparr>))"

definition start :: "('h \<Rightarrow> 'h) \<Rightarrow> (('m, 'h) tcp_channel, unit) M" where
  "start on_before_msg_receive ch =
     async_read (ch\<lparr>m_socket_handler := on_before_msg_receive (m_socket_handler ch), m_state := CHANNEL_ACTIVE\<rparr>)"

text \<open>
  The completion of a read. The socket has put the bytes it received at the write pointer;
  \<open>handler_on_read\<close> is the handler's \<open>on_read\<close>, true for \<open>ERR_SUCCESS\<close>.
\<close>

definition received_bytes :: "byte list \<Rightarrow> byte_buf \<Rightarrow> byte_buf" where
  "received_bytes bs b = b\<lparr>m_buf := memcpy_to (m_write_ptr b) bs (m_buf b)\<rparr>"

definition on_read ::
  "('h \<times> byte_buf, bool) M \<Rightarrow> io_error \<Rightarrow> byte list \<Rightarrow> (('m, 'h) tcp_channel, unit) M" where
  "on_read handler_on_read error bs ch0 =
     (let ch = ch0\<lparr>m_recv_buf := received_bytes bs (m_recv_buf ch0), reading := False\<rparr>
      in if m_state ch = CHANNEL_STOPPED then (Inr (), ch)
         else case error of
                Operation_aborted \<Rightarrow> (Inr (), ch)
              | Remote_io \<Rightarrow> async_read ch
              | Other_error \<Rightarrow> (Inr (), on_error ch)
              | No_error \<Rightarrow>
                  if bs = [] then async_read ch
                  else catch_error ()
                    (mbind (mlift m_recv_buf m_recv_buf_update (move_write_ptr (of_nat (length bs)))) (\<lambda>_.
                     mbind (\<lambda>c. case handler_on_read (m_socket_handler c, m_recv_buf c) of
                               (r, (h, b)) \<Rightarrow> (r, c\<lparr>m_socket_handler := h, m_recv_buf := b\<rparr>)) (\<lambda>ok.
                     if ok then async_read else mmodify on_error))) ch)"

section \<open>Sending\<close>

text \<open>
  \<open>handler_on_write\<close> encodes a message into the send buffer. A write of at most the unread bytes of
  the buffer is started; the bytes the socket takes are reported by \<open>on_write\<close>.
\<close>

definition async_write :: "('m, 'h) tcp_channel \<Rightarrow> ('m, 'h) tcp_channel" where
  "async_write ch = (if m_state ch = CHANNEL_STOPPED then ch else ch\<lparr>writing := True\<rparr>)"

definition run_handler_write ::
  "('m \<Rightarrow> ('h \<times> byte_buf, bool) M) \<Rightarrow> 'm \<Rightarrow> (('m, 'h) tcp_channel, bool) M" where
  "run_handler_write handler_on_write msg ch =
     (case handler_on_write msg (m_socket_handler ch, m_send_buf ch) of
        (r, (h, b)) \<Rightarrow> (r, ch\<lparr>m_socket_handler := h, m_send_buf := b\<rparr>))"

text \<open>
  \<open>write\<close> in the three parts between which another thread may run: the checks, the push under the
  lock (the value says whether this thread goes on to encode), and the encoding of the first message.
\<close>

definition write_check :: "('m, 'h) tcp_channel \<Rightarrow> bool" where
  "write_check ch \<longleftrightarrow> m_state ch \<noteq> CHANNEL_STOPPED \<and> length (m_send_queue ch) \<le> MAX_SEND_QUEUE_MSG_COUNT"

definition write_push :: "'m \<Rightarrow> ('m, 'h) tcp_channel \<Rightarrow> bool \<times> ('m, 'h) tcp_channel" where
  "write_push msg ch = (m_send_queue ch = [], ch\<lparr>m_send_queue := m_send_queue ch @ [msg]\<rparr>)"

definition write_first :: "('m \<Rightarrow> ('h \<times> byte_buf, bool) M) \<Rightarrow> 'm \<Rightarrow> (('m, 'h) tcp_channel, bool) M" where
  "write_first handler_on_write msg =
     catch_error False
       (mbind (mmodify (\<lambda>ch. if get_valid_read_len (m_send_buf ch) > 0 then ch\<lparr>m_send_buf := reset (m_send_buf ch)\<rparr> else ch)) (\<lambda>_.
        mbind (run_handler_write handler_on_write msg) (\<lambda>ok.
        if ok then mbind (mmodify async_write) (\<lambda>_. mret True)
        else mbind (mmodify on_error) (\<lambda>_. mret False))))"

definition channel_write :: "('m \<Rightarrow> ('h \<times> byte_buf, bool) M) \<Rightarrow> 'm \<Rightarrow> (('m, 'h) tcp_channel, bool) M" where
  "channel_write handler_on_write msg ch =
     (if \<not> write_check ch then (Inr False, ch)
      else let (first, ch1) = write_push msg ch
           in if first then write_first handler_on_write msg ch1 else (Inr True, ch1))"

text \<open>The completion of a write of \<open>n\<close> bytes.\<close>

definition on_write ::
  "('m \<Rightarrow> ('h \<times> byte_buf, bool) M) \<Rightarrow> ('m \<Rightarrow> 'h \<Rightarrow> 'h) \<Rightarrow> io_error \<Rightarrow> nat \<Rightarrow> (('m, 'h) tcp_channel, unit) M" where
  "on_write handler_on_write on_after_msg_sent error n ch0 =
     (let ch = ch0\<lparr>writing := False, wire := wire ch0 @ take n (content (m_send_buf ch0))\<rparr>;
          len = unat (get_valid_read_len (m_send_buf ch))
      in if m_state ch = CHANNEL_STOPPED then (Inr (), ch)
         else if error = Operation_aborted then (Inr (), ch)
         else if error \<noteq> No_error then (Inr (), on_error ch)
         else catch_error ()
           (if n = 0 then mmodify async_write
            else if n < len
            then mbind (mlift m_send_buf m_send_buf_update (move_read_ptr (of_nat n))) (\<lambda>_. mmodify async_write)
            else if n = len
            then mbind (mmodify (\<lambda>c. c\<lparr>m_send_buf := reset (m_send_buf c)\<rparr>)) (\<lambda>_ c.
                 case m_send_queue c of
                   [] \<Rightarrow> (Inl Undefined_behaviour, c)
                 | msg # q \<Rightarrow>
                     let c1 = c\<lparr>m_socket_handler := on_after_msg_sent msg (m_socket_handler c), m_send_queue := q\<rparr>
                     in case q of
                          [] \<Rightarrow> (Inr (), c1)
                        | msg' # _ \<Rightarrow>
                            mbind (run_handler_write handler_on_write msg') (\<lambda>ok.
                              mmodify (if ok then async_write else on_error)) c1)
            else mmodify on_error) ch)"

section \<open>Threads and completions\<close>

text \<open>
  A run of the sending side, with history: the thread that has pushed a message on an empty queue
  and not yet encoded it, the messages pushed and those sent, in order, and the bytes each
  message was encoded to.
\<close>

record ('m, 'h) send_run =
  chan :: "('m, 'h) tcp_channel"
  starting :: "'m option"
  accepted :: "'m list"
  sent :: "'m list"
  frames :: "byte list list"

definition send_init :: "'h \<Rightarrow> ('m, 'h) send_run" where
  "send_init h = \<lparr>chan = new_channel h, starting = None, accepted = [], sent = [], frames = []\<rparr>"

text \<open>Whether a completion finishes the front message, and whether another one follows.\<close>

definition finishes :: "io_error \<Rightarrow> nat \<Rightarrow> ('m, 'h) tcp_channel \<Rightarrow> bool" where
  "finishes e n ch \<longleftrightarrow> e = No_error \<and> m_state ch \<noteq> CHANNEL_STOPPED \<and> 0 < n \<and> n = length (content (m_send_buf ch))"

text \<open>
  The steps. A push may come from any thread at any time (its checks lie before it); a completion
  comes only for an outstanding write and takes no more than was offered; \<open>operation_aborted\<close> is
  reported only for a socket that was closed. Between them the handler may change as \<open>other\<close> allows:
  it receives messages and its timers expire.
\<close>

inductive send_step ::
  "('m \<Rightarrow> ('h \<times> byte_buf, bool) M) \<Rightarrow> ('m \<Rightarrow> 'h \<Rightarrow> 'h) \<Rightarrow> ('h \<Rightarrow> 'h \<Rightarrow> bool) \<Rightarrow>
   ('m, 'h) send_run \<Rightarrow> ('m, 'h) send_run \<Rightarrow> bool"
  for enc after_sent other where
  push: "write_push m (chan s) = (first, ch) \<Longrightarrow>
     send_step enc after_sent other s
       (s\<lparr>chan := ch, accepted := accepted s @ [m], starting := if first then Some m else starting s\<rparr>)"
| encode: "starting s = Some m \<Longrightarrow> write_first enc m (chan s) = (Inr ok, ch) \<Longrightarrow>
     send_step enc after_sent other s
       (s\<lparr>chan := ch, starting := None, frames := frames s @ (if ok then [content (m_send_buf ch)] else [])\<rparr>)"
| complete: "writing (chan s) \<Longrightarrow> n \<le> length (content (m_send_buf (chan s))) \<Longrightarrow>
     (e = Operation_aborted \<longrightarrow> m_state (chan s) = CHANNEL_STOPPED) \<Longrightarrow>
     on_write enc after_sent e n (chan s) = (Inr (), ch) \<Longrightarrow>
     send_step enc after_sent other s
       (s\<lparr>chan := ch,
          sent := sent s @ (if finishes e n (chan s) then [hd (m_send_queue (chan s))] else []),
          frames := frames s @
            (if finishes e n (chan s) \<and> tl (m_send_queue (chan s)) \<noteq> [] then [content (m_send_buf ch)] else [])\<rparr>)"
| close: "send_step enc after_sent other s (s\<lparr>chan := channel_close (chan s)\<rparr>)"
| stop: "other (m_socket_handler (chan s)) (handler_stop (m_socket_handler (chan s))) \<Longrightarrow>
     send_step enc after_sent other s (s\<lparr>chan := channel_stop handler_stop (chan s)\<rparr>)"
| handler: "other (m_socket_handler (chan s)) h' \<Longrightarrow>
     send_step enc after_sent other s (s\<lparr>chan := (chan s)\<lparr>m_socket_handler := h'\<rparr>\<rparr>)"

inductive send_reach ::
  "('m \<Rightarrow> ('h \<times> byte_buf, bool) M) \<Rightarrow> ('m \<Rightarrow> 'h \<Rightarrow> 'h) \<Rightarrow> ('h \<Rightarrow> 'h \<Rightarrow> bool) \<Rightarrow> 'h \<Rightarrow> ('m, 'h) send_run \<Rightarrow> bool"
  for enc after_sent other h where
  init: "send_reach enc after_sent other h (send_init h)"
| step: "send_reach enc after_sent other h s \<Longrightarrow> send_step enc after_sent other s t \<Longrightarrow> send_reach enc after_sent other h t"

lemma reset_move: "move_read_ptr n b = (Inr (), b') \<Longrightarrow> reset b' = reset b"
  by (auto simp: move_read_ptr_def reset_def split: if_splits)

text \<open>What the channel needs of its handler when it encodes.\<close>

locale message_encoder =
  fixes enc :: "'m \<Rightarrow> ('h \<times> byte_buf, bool) M" and after_sent :: "'m \<Rightarrow> 'h \<Rightarrow> 'h"
    and other :: "'h \<Rightarrow> 'h \<Rightarrow> bool" and ok :: "'m \<Rightarrow> bool" and hinv :: "'h \<Rightarrow> bool" and frame_of :: "'m \<Rightarrow> byte list \<Rightarrow> bool"
  assumes enc_ok: "ok m \<Longrightarrow> hinv h \<Longrightarrow> wf_buf b \<Longrightarrow> std_buf b \<Longrightarrow> content b = [] \<Longrightarrow>
      \<exists>h' b'. enc m (h, b) = (Inr True, (h', b')) \<and> hinv h' \<and> wf_buf b' \<and> std_buf b' \<and>
              content b' \<noteq> [] \<and> frame_of m (content b')"
    and after_sent_ok: "hinv h \<Longrightarrow> hinv (after_sent m h)"
    and other_ok: "hinv h \<Longrightarrow> other h h' \<Longrightarrow> hinv h'"
begin

definition idle_buf :: "byte_buf \<Rightarrow> bool" where
  "idle_buf b \<longleftrightarrow> wf_buf b \<and> std_buf b \<and> content b = []"

text \<open>The phases of the sending side.\<close>

definition phase :: "('m, 'h) send_run \<Rightarrow> bool" where
  "phase s \<longleftrightarrow>
     (let ch = chan s; q = m_send_queue ch; b = m_send_buf ch; n = length (frames s)
      in case starting s of
           Some m \<Rightarrow> \<not> writing ch \<and> (\<exists>q'. q = m # q') \<and> n = length (sent s) \<and> wire ch = concat (frames s) \<and> idle_buf b
         | None \<Rightarrow>
             if writing ch
             then q \<noteq> [] \<and> n = Suc (length (sent s)) \<and> content b \<noteq> [] \<and> wire ch @ content b = concat (frames s)
             else if q = [] then n = length (sent s) \<and> wire ch = concat (frames s) \<and> idle_buf b
             else (m_state ch = CHANNEL_STOPPED \<or> 0 < errors ch) \<and> prefix (wire ch) (concat (frames s)))"

definition framed :: "'m list \<Rightarrow> byte list list \<Rightarrow> bool" where
  "framed acc fs \<longleftrightarrow> length fs \<le> length acc \<and> list_all2 frame_of (take (length fs) acc) fs"

definition send_inv :: "('m, 'h) send_run \<Rightarrow> bool" where
  "send_inv s \<longleftrightarrow>
     accepted s = sent s @ m_send_queue (chan s) \<and>
     framed (sent s @ m_send_queue (chan s)) (frames s) \<and>
     hinv (m_socket_handler (chan s)) \<and>
     wf_buf (m_send_buf (chan s)) \<and> std_buf (reset (m_send_buf (chan s))) \<and> phase s"

lemma send_init_inv: "hinv h \<Longrightarrow> send_inv (send_init h)"
  by (simp add: send_inv_def send_init_def new_channel_def phase_def idle_buf_def reset_std framed_def)

lemma framed_push: "framed (acc @ q) fs \<Longrightarrow> framed (acc @ q @ [m]) fs"
  by (simp add: framed_def)

lemma push_inv:
  assumes "send_inv s" and "write_push m (chan s) = (first, ch)"
  shows "send_inv (s\<lparr>chan := ch, accepted := accepted s @ [m], starting := if first then Some m else starting s\<rparr>)"
  using assms
  by (auto simp: send_inv_def write_push_def phase_def Let_def framed_push
      dest: framed_push [of _ "[]" _ m, simplified] framed_push [of _ "_ # _" _ m, simplified]
      split: option.splits if_splits)

lemma encode_idle:
  assumes "ok m" "hinv (m_socket_handler ch)" "idle_buf (m_send_buf ch)"
  shows "\<exists>h' b'. run_handler_write enc m ch = (Inr True, ch\<lparr>m_socket_handler := h', m_send_buf := b'\<rparr>) \<and>
           hinv h' \<and> wf_buf b' \<and> std_buf b' \<and> content b' \<noteq> [] \<and> frame_of m (content b')"
  using enc_ok [OF assms(1,2)] assms(3) by (force simp: run_handler_write_def idle_buf_def)

lemma frame_appended:
  assumes "framed acc fs" "acc = done @ m # q" "length fs = length done" "frame_of m f"
  shows "framed acc (fs @ [f])"
  using assms by (auto simp: framed_def list_all2_append)

lemma encode_inv:
  assumes inv: "send_inv s" and st: "starting s = Some m" and okm: "\<forall>x\<in>set (accepted s). ok x"
    and run: "write_first enc m (chan s) = (Inr r, ch)"
  shows "send_inv (s\<lparr>chan := ch, starting := None, frames := frames s @ (if r then [content (m_send_buf ch)] else [])\<rparr>)"
proof -
  let ?c = "chan s"
  have ph: "\<not> writing ?c" "length (frames s) = length (sent s)" "wire ?c = concat (frames s)" "idle_buf (m_send_buf ?c)"
    and q: "\<exists>q. m_send_queue ?c = m # q"
    using inv st by (simp_all add: send_inv_def phase_def Let_def)
  obtain q where q: "m_send_queue ?c = m # q" using q by blast
  have "ok m" using okm inv q by (simp add: send_inv_def)
  moreover have "hinv (m_socket_handler ?c)" using inv by (simp add: send_inv_def)
  ultimately obtain h' b' where
    e: "run_handler_write enc m ?c = (Inr True, ?c\<lparr>m_socket_handler := h', m_send_buf := b'\<rparr>)"
      "hinv h'" "wf_buf b'" "std_buf b'" "content b' \<noteq> []" "frame_of m (content b')"
    using encode_idle [OF _ _ ph(4)] by blast
  have "get_valid_read_len (m_send_buf ?c) = 0"
    using valid_read_len_content [of "m_send_buf ?c"] ph(4) by (simp add: idle_buf_def)
  then have "write_first enc m ?c = (Inr True, async_write (?c\<lparr>m_socket_handler := h', m_send_buf := b'\<rparr>))"
    using e(1) by (simp add: write_first_def catch_error_def mbind_run mmodify_run mret_run)
  then have r: "r" "ch = async_write (?c\<lparr>m_socket_handler := h', m_send_buf := b'\<rparr>)" using run by simp_all
  have acc: "accepted s = sent s @ m # q" and l2: "framed (sent s @ m # q) (frames s)"
    using inv q by (simp_all add: send_inv_def)
  show ?thesis
    using frame_appended [OF l2 refl ph(2) e(6)] r e ph q inv
    by (simp add: send_inv_def async_write_def phase_def Let_def reset_std)
qed

text \<open>The completion of a write: the bytes are accounted for, and the next message is encoded.\<close>

lemma complete_inv:
  assumes inv: "send_inv s" and w: "writing (chan s)" and okm: "\<forall>x\<in>set (accepted s). ok x"
    and n: "n \<le> length (content (m_send_buf (chan s)))"
    and ab: "e = Operation_aborted \<longrightarrow> m_state (chan s) = CHANNEL_STOPPED"
    and run: "on_write enc after_sent e n (chan s) = (Inr (), ch)"
  shows "send_inv (s\<lparr>chan := ch,
          sent := sent s @ (if finishes e n (chan s) then [hd (m_send_queue (chan s))] else []),
          frames := frames s @
            (if finishes e n (chan s) \<and> tl (m_send_queue (chan s)) \<noteq> [] then [content (m_send_buf ch)] else [])\<rparr>)"
proof -
  let ?c = "chan s" let ?b = "m_send_buf ?c"
  have st: "starting s = None" using inv w by (auto simp: send_inv_def phase_def Let_def split: option.splits)
  have ph: "m_send_queue ?c \<noteq> []" "length (frames s) = Suc (length (sent s))" "content ?b \<noteq> []"
    "wire ?c @ content ?b = concat (frames s)"
    using inv w st by (simp_all add: send_inv_def phase_def Let_def)
  have wf: "wf_buf ?b" "std_buf (reset ?b)" "hinv (m_socket_handler ?c)" using inv by (simp_all add: send_inv_def)
  have len: "unat (get_valid_read_len ?b) = length (content ?b)" by (rule unat_valid_read_len [OF wf(1)])
  define c1 where "c1 = ?c\<lparr>writing := False, wire := wire ?c @ take n (content ?b)\<rparr>"
  have pre: "prefix (wire c1) (concat (frames s))"
    using ph(4) by (simp add: c1_def prefix_def) (metis append_assoc append_take_drop_id)
  show ?thesis
  proof (cases "m_state ?c = CHANNEL_STOPPED \<or> e \<noteq> No_error")
    case True
    then have ch: "ch = c1 \<and> m_state ?c = CHANNEL_STOPPED \<or> ch = on_error c1" and f: "\<not> finishes e n ?c"
      using run ab by (auto simp: on_write_def Let_def c1_def finishes_def split: if_splits)
    from ch f inv pre ph(1) st show ?thesis
      by (auto simp: send_inv_def phase_def Let_def c1_def on_error_def error_notify_def)
  next
    case False
    then have act: "m_state ?c \<noteq> CHANNEL_STOPPED" "e = No_error" by simp_all
    consider "n = 0" | "0 < n" "n < length (content ?b)" | "0 < n" "n = length (content ?b)" using n by linarith
    then show ?thesis
    proof cases
      case 1
      then have "ch = c1\<lparr>writing := True\<rparr>" "\<not> finishes e n ?c"
        using run act by (simp_all add: on_write_def Let_def c1_def catch_error_def mmodify_run async_write_def finishes_def)
      then show ?thesis using inv ph st 1 by (simp add: send_inv_def phase_def Let_def c1_def)
    next
      case 2
      have un: "unat (of_nat n :: u32) = n"
        using 2 length_content_bound [OF wf(1)] by (intro unat_of_nat32) linarith
      from move_read_ptr_ok [OF wf(1), of "of_nat n"] 2 un obtain b' where
        b': "move_read_ptr (of_nat n) ?b = (Inr (), b')" "wf_buf b'" "content b' = drop n (content ?b)" by auto
      have "ch = c1\<lparr>m_send_buf := b', writing := True\<rparr>" "\<not> finishes e n ?c"
        using run act 2 b'(1) len
        by (simp_all add: on_write_def Let_def c1_def catch_error_def mmodify_run mbind_run mlift_def async_write_def finishes_def)
      then show ?thesis
        using inv ph st 2 b' reset_move [OF b'(1)] by (simp add: send_inv_def phase_def Let_def c1_def)
    next
      case 3
      have fin: "finishes e n ?c" using 3 act by (simp add: finishes_def)
      obtain m q where q: "m_send_queue ?c = m # q" using ph(1) by (cases "m_send_queue ?c") auto
      define c2 where "c2 = c1\<lparr>m_send_buf := reset ?b, m_socket_handler := after_sent m (m_socket_handler ?c), m_send_queue := q\<rparr>"
      have idle: "idle_buf (m_send_buf c2)" "hinv (m_socket_handler c2)" "wire c2 = concat (frames s)" "m_send_queue c2 = q"
        using wf ph(4) 3 after_sent_ok by (simp_all add: c2_def c1_def idle_buf_def)
      have acc: "accepted s = sent s @ m # q" using inv q by (simp add: send_inv_def)
      have l2: "framed (sent s @ m # q) (frames s)" using inv q by (simp add: send_inv_def)
      show ?thesis
      proof (cases q)
        case Nil
        then have "ch = c2"
          using run act 3 len q
          by (simp add: on_write_def Let_def c2_def c1_def catch_error_def mmodify_run mbind_run)
        then show ?thesis
          using inv ph st 3 fin q Nil idle wf acc l2 reset_std [of "reset ?b"]
          by (simp add: send_inv_def phase_def Let_def c2_def c1_def idle_buf_def)
      next
        case (Cons m' q')
        have "ok m'" using okm acc Cons by simp
        from encode_idle [OF this idle(2,1)] obtain h' b' where
          e: "run_handler_write enc m' c2 = (Inr True, c2\<lparr>m_socket_handler := h', m_send_buf := b'\<rparr>)"
            "hinv h'" "wf_buf b'" "std_buf b'" "content b' \<noteq> []" "frame_of m' (content b')" by blast
        have ch: "ch = c2\<lparr>m_socket_handler := h', m_send_buf := b', writing := True\<rparr>"
          using run act 3 len q Cons e(1)
          by (simp add: on_write_def Let_def c2_def c1_def catch_error_def mmodify_run mbind_run async_write_def)
        have acc': "sent s @ m # q = (sent s @ [m]) @ m' # q'" using Cons by simp
        have lf: "length (frames s) = length (sent s @ [m])" using ph(2) by simp
        show ?thesis
          using frame_appended [OF l2 acc' lf e(6)] ch e st fin q Cons idle(3) acc lf
          by (simp add: send_inv_def phase_def Let_def c2_def c1_def reset_std)
      qed
    qed
  qed
qed

lemma send_step_inv:
  assumes "send_step enc after_sent other s t" and "send_inv s" and "\<forall>x\<in>set (accepted t). ok x"
  shows "send_inv t"
  using assms(1)
proof (cases rule: send_step.cases)
  case (push m first ch)
  then show ?thesis using push_inv assms(2) by simp
next
  case (encode m r ch)
  then show ?thesis using encode_inv [OF assms(2)] assms(3) by simp
next
  case (complete n e ch)
  then show ?thesis using complete_inv [OF assms(2)] assms(3) by simp
qed (use assms(2) in \<open>auto simp: send_inv_def phase_def Let_def channel_close_def channel_stop_def split: option.splits if_splits intro: other_ok\<close>)

lemma accepted_grows: "send_step enc after_sent other s t \<Longrightarrow> set (accepted s) \<subseteq> set (accepted t)"
  by (induction rule: send_step.induct) auto

lemma send_reach_inv: "send_reach enc after_sent other h s \<Longrightarrow> hinv h \<Longrightarrow> \<forall>x\<in>set (accepted s). ok x \<Longrightarrow> send_inv s"
proof (induction rule: send_reach.induct)
  case init
  then show ?case by (simp add: send_init_inv)
next
  case (step s t)
  then show ?case using send_step_inv accepted_grows by blast
qed

text \<open>Bytes leave in the order of the messages, none is lost, and a busy channel is never stuck.\<close>

lemma sends_in_order:
  assumes "send_reach enc after_sent other h s" and "hinv h" and "\<forall>x\<in>set (accepted s). ok x"
  shows "list_all2 frame_of (take (length (frames s)) (accepted s)) (frames s)"
    and "prefix (wire (chan s)) (concat (frames s))"
    and "m_state (chan s) \<noteq> CHANNEL_STOPPED \<Longrightarrow> errors (chan s) = 0 \<Longrightarrow> starting s = None \<Longrightarrow> \<not> writing (chan s) \<Longrightarrow>
         length (frames s) = length (accepted s) \<and> wire (chan s) = concat (frames s)"
  using send_reach_inv [OF assms]
  by (auto simp: send_inv_def phase_def Let_def framed_def split: option.splits if_splits intro: prefixI [OF sym])

end

end
