(* ===== verification/Channel_Handler.thy ===== *)
theory Channel_Handler
  imports Matrix_Types Nonce_Filter Tcp_Channel
begin

text \<open>
  The handler of a peer-to-peer connection:
  \<open>service/peer_request_service/socket_channel_handler/{tcp,server,client}_socket_channel_handler.{h,cpp}\<close>.
  It turns the bytes of a channel into messages on the bus and messages into bytes, keeps the
  login state of the connection and its timers. What it asks of others is recorded in its state:
  the messages published on the bus, the messages given to \<open>channel::write\<close> and the calls of
  \<open>channel::on_error\<close>. The flow control object is never created (\<open>MAX_RECV_SPEED\<close> is 0).
\<close>

section \<open>State\<close>

datatype handler_kind = Server | Client

definition LOST_SHAKE_HAND_COUNT_MAX :: u16 where "LOST_SHAKE_HAND_COUNT_MAX = 3"

definition VER_REQ :: string where "VER_REQ = ''ver_req''"
definition VER_RESP :: string where "VER_RESP = ''ver_resp''"
definition SHAKE_HAND_REQ :: string where "SHAKE_HAND_REQ = ''shake_hand_req''"
definition SHAKE_HAND_RESP :: string where "SHAKE_HAND_RESP = ''shake_hand_resp''"

lemmas message_ids = VER_REQ_def VER_RESP_def SHAKE_HAND_REQ_def SHAKE_HAND_RESP_def

text \<open>
  What the handler reads from elsewhere: the configuration, the channel it belongs to (its remote
  node id and capacity; \<open>None\<close> when the weak pointer has expired), and snappy.
\<close>

record handler_env =
  local_node_id :: string
  net_flag :: i32
  local_capacity :: matrix_capacity
  peer :: "(string \<times> matrix_capacity) option"
  snappy_comp :: "byte list \<Rightarrow> byte list"
  snappy_uncomp :: "byte list \<Rightarrow> byte list option"

record handler =
  m_stopped :: bool
  m_coder :: coder_protos
  m_decoder :: "coder_protos \<times> net_message list"
  m_has_message :: bool
  m_login_success :: bool
  m_nonce_filter :: bloomlru_filter
  m_lost_shake_hand_count :: u16
  m_recv_ver_req :: bool
  shake_hand_timer :: bool
  wait_ver_timer :: bool
  published :: "tval message list"
  to_channel :: "tval message list"
  channel_errors :: nat

definition new_handler :: "bloomlru_filter \<Rightarrow> handler" where
  "new_handler f =
     \<lparr>m_stopped = False, m_coder = init_decode_proto, m_decoder = (init_decode_proto, []),
      m_has_message = False, m_login_success = False, m_nonce_filter = f,
      m_lost_shake_hand_count = 0, m_recv_ver_req = False, shake_hand_timer = False,
      wait_ver_timer = False, published = [], to_channel = [], channel_errors = 0\<rparr>"

section \<open>Timers and the channel\<close>

definition handler_on_error :: "handler_env \<Rightarrow> handler \<Rightarrow> handler" where
  "handler_on_error e h = (if peer e = None then h else h\<lparr>channel_errors := channel_errors h + 1\<rparr>)"

definition write_to_channel :: "handler_env \<Rightarrow> tval message \<Rightarrow> handler \<Rightarrow> handler" where
  "write_to_channel e msg h = (if peer e = None then h else h\<lparr>to_channel := to_channel h @ [msg]\<rparr>)"

definition reset_has_message :: "handler \<Rightarrow> handler" where
  "reset_has_message h = h\<lparr>m_has_message := False\<rparr>"

definition start_shake_hand_timer_ext :: "handler \<Rightarrow> handler" where
  "start_shake_hand_timer_ext h = h\<lparr>shake_hand_timer := True\<rparr>"

definition start_shake_hand_timer :: "handler \<Rightarrow> handler" where
  "start_shake_hand_timer h = reset_has_message (start_shake_hand_timer_ext h)"

definition stop_shake_hand_timer :: "handler \<Rightarrow> handler" where
  "stop_shake_hand_timer h = h\<lparr>shake_hand_timer := False\<rparr>"

definition start_wait_ver_timer :: "handler \<Rightarrow> handler" where
  "start_wait_ver_timer h = h\<lparr>wait_ver_timer := True\<rparr>"

definition stop_wait_ver_timer :: "handler \<Rightarrow> handler" where
  "stop_wait_ver_timer h = h\<lparr>wait_ver_timer := False\<rparr>"

definition handler_stop :: "handler_kind \<Rightarrow> handler \<Rightarrow> handler" where
  "handler_stop kind h =
     (case kind of
        Server \<Rightarrow> (stop_shake_hand_timer (stop_wait_ver_timer h))\<lparr>m_stopped := True\<rparr>
      | Client \<Rightarrow> stop_shake_hand_timer (h\<lparr>m_stopped := True\<rparr>))"

definition set_has_message :: "tval message \<Rightarrow> handler \<Rightarrow> handler" where
  "set_has_message msg h =
     (if message_name msg \<in> {SHAKE_HAND_REQ, SHAKE_HAND_RESP, VER_REQ, VER_RESP} then h
      else h\<lparr>m_has_message := True\<rparr>)"

definition shake_hand_message :: "handler_env \<Rightarrow> string \<Rightarrow> tval message" where
  "shake_hand_message e name =
     \<lparr>message_name = name,
      message_content = Some (Msg_body name (set_msg_name name (set_magic (net_flag e) empty_header)) (V_struct [None]))\<rparr>"

definition send_shake_hand_resp :: "handler_env \<Rightarrow> handler \<Rightarrow> handler" where
  "send_shake_hand_resp e = write_to_channel e (shake_hand_message e SHAKE_HAND_RESP)"

definition send_shake_hand_req :: "handler_env \<Rightarrow> handler \<Rightarrow> handler" where
  "send_shake_hand_req e = write_to_channel e (shake_hand_message e SHAKE_HAND_REQ)"

text \<open>The expiry callbacks. The wait that was outstanding is over when they run.\<close>

definition server_shake_hand_timer_expired :: "handler_env \<Rightarrow> io_error \<Rightarrow> handler \<Rightarrow> handler" where
  "server_shake_hand_timer_expired e error h0 =
     (let h = h0\<lparr>shake_hand_timer := False\<rparr>
      in if m_stopped h then h
         else if error = Operation_aborted then h
         else if error \<noteq> No_error then handler_on_error e h
         else let h1 = h\<lparr>m_lost_shake_hand_count := m_lost_shake_hand_count h + 1\<rparr>
              in if m_lost_shake_hand_count h1 \<ge> LOST_SHAKE_HAND_COUNT_MAX then handler_on_error e h1
                 else start_shake_hand_timer_ext h1)"

definition client_shake_hand_timer_expired :: "handler_env \<Rightarrow> io_error \<Rightarrow> handler \<Rightarrow> handler" where
  "client_shake_hand_timer_expired e error h0 =
     (let h = h0\<lparr>shake_hand_timer := False\<rparr>
      in if m_stopped h then h
         else if error = Operation_aborted then h
         else if error \<noteq> No_error then handler_on_error e h
         else let h1 = (if m_login_success h \<and> \<not> m_has_message h then send_shake_hand_req e h else h)
              in start_shake_hand_timer_ext (reset_has_message h1))"

text \<open>\<open>expired\<close> is \<open>expires_at() < now\<close>; the server's and the client's timers have the same callback.\<close>

definition wait_ver_timer_expired :: "handler_env \<Rightarrow> io_error \<Rightarrow> bool \<Rightarrow> handler \<Rightarrow> handler" where
  "wait_ver_timer_expired e error expired h0 =
     (let h = h0\<lparr>wait_ver_timer := False\<rparr>
      in if m_stopped h then h
         else if error = Operation_aborted then h
         else if error \<noteq> No_error then handler_on_error e h
         else if expired then handler_on_error e h
         else start_wait_ver_timer h)"

definition on_before_msg_receive :: "handler_kind \<Rightarrow> handler \<Rightarrow> handler" where
  "on_before_msg_receive kind h = (case kind of Server \<Rightarrow> start_wait_ver_timer h | Client \<Rightarrow> h)"

section \<open>Messages received and sent\<close>

definition content_header :: "tval msg_content \<Rightarrow> base_header" where
  "content_header c = (case c of Msg_forward h _ \<Rightarrow> h | Msg_body _ h _ \<Rightarrow> h)"

text \<open>True is \<open>ERR_SUCCESS\<close>.\<close>

definition server_after_msg_received :: "handler_env \<Rightarrow> tval message \<Rightarrow> (handler, bool) M" where
  "server_after_msg_received e msg h =
     (case message_content msg of
        None \<Rightarrow> (Inr False, h)
      | Some c \<Rightarrow>
          if magic (content_header c) \<noteq> net_flag e then (Inr False, h)
          else if \<not> m_login_success h \<and> message_name msg \<noteq> VER_REQ then (Inr False, h)
          else if message_name msg = VER_REQ
          then (case c of
                  Msg_body ty _ body \<Rightarrow>
                    if ty \<noteq> VER_REQ then (Inl Undefined_behaviour, h)
                    else if ver_req_node_id body = local_node_id e then (Inr False, h)
                    else if m_recv_ver_req h then (Inr False, h)
                    else (Inr True, stop_wait_ver_timer (h\<lparr>m_recv_ver_req := True\<rparr>))
                | _ \<Rightarrow> (Inl Undefined_behaviour, h))
          else let h1 = (if message_name msg = SHAKE_HAND_REQ then send_shake_hand_resp e h else h)
               in (Inr True, h1\<lparr>m_lost_shake_hand_count := 0\<rparr>))"

definition client_after_msg_received :: "tval message \<Rightarrow> (handler, bool) M" where
  "client_after_msg_received msg h =
     (if \<not> m_login_success h \<and> message_name msg \<noteq> VER_RESP then (Inr False, h)
      else if message_name msg = VER_RESP
      then if \<not> m_login_success h
           then (Inr True, start_shake_hand_timer (stop_wait_ver_timer (h\<lparr>m_login_success := True\<rparr>)))
           else (Inr False, h)
      else (Inr True, h\<lparr>m_lost_shake_hand_count := 0\<rparr>))"

definition on_after_msg_received :: "handler_kind \<Rightarrow> handler_env \<Rightarrow> tval message \<Rightarrow> (handler, bool) M" where
  "on_after_msg_received kind e msg =
     (case kind of Server \<Rightarrow> server_after_msg_received e msg | Client \<Rightarrow> client_after_msg_received msg)"

definition server_after_msg_sent :: "tval message \<Rightarrow> handler \<Rightarrow> handler" where
  "server_after_msg_sent msg h =
     (if message_name msg = VER_RESP then start_shake_hand_timer (h\<lparr>m_login_success := True\<rparr>)
      else h\<lparr>m_lost_shake_hand_count := 0\<rparr>)"

definition client_after_msg_sent :: "tval message \<Rightarrow> handler \<Rightarrow> handler" where
  "client_after_msg_sent msg h =
     (if message_name msg = VER_REQ then start_wait_ver_timer h
      else if message_name msg = SHAKE_HAND_REQ then h
      else h\<lparr>m_lost_shake_hand_count := 0\<rparr>)"

definition on_after_msg_sent :: "handler_kind \<Rightarrow> tval message \<Rightarrow> handler \<Rightarrow> handler" where
  "on_after_msg_sent kind msg =
     (case kind of Server \<Rightarrow> server_after_msg_sent msg | Client \<Rightarrow> client_after_msg_sent msg)"

section \<open>Routing paths\<close>

text \<open>The path is passed by reference: the second component is what it becomes.\<close>

definition validate_resp_path :: "string \<Rightarrow> string list \<Rightarrow> bool \<times> string list" where
  "validate_resp_path name p =
     (if name \<notin> {''node_list_task_rsp'', ''node_task_logs_rsp'', ''node_query_node_info_rsp''} then (True, p)
      else if length p > 20 then (False, p)
      else (length p = length (remdups_adj p), remdups_adj p))"

definition validate_req_path :: "handler_env \<Rightarrow> string \<Rightarrow> string list \<Rightarrow> bool \<times> string list" where
  "validate_req_path e name p =
     (if name \<notin> {''node_list_task_req'', ''node_task_logs_req'', ''node_query_node_info_req''} then (True, p)
      else if p = [] \<or> length p > 100 then (False, p)
      else case peer e of
             None \<Rightarrow> (False, p)
           | Some (peer_id, _) \<Rightarrow>
               if last p \<noteq> peer_id then (False, p)
               else if local_node_id e \<in> set p then (False, p)
               else (length p = length (remdups_adj p), remdups_adj p))"

section \<open>Reading\<close>

definition set_decode_context :: "handler_env \<Rightarrow> coder_args" where
  "set_decode_context e = \<lparr>ENABLE_COMPRESS = None, THRIFT_PROTO = None, LOCAL_NODE_ID = Some (local_node_id e)\<rparr>"

definition content_set_path :: "string list \<Rightarrow> tval msg_content \<Rightarrow> tval msg_content" where
  "content_set_path p c =
     (case c of Msg_forward h b \<Rightarrow> Msg_forward (h\<lparr>path := p\<rparr>) b | Msg_body ty h b \<Rightarrow> Msg_body ty (h\<lparr>path := p\<rparr>) b)"

definition content_nonce :: "tval msg_content \<Rightarrow> string" where
  "content_nonce c = (if isset_nonce (content_header c) then nonce (content_header c) else [])"

text \<open>
  A decoded message that the connection accepts. \<open>Some r\<close> returns \<open>r\<close> from \<open>on_read\<close>, \<open>None\<close> goes on
  with the loop.
\<close>

definition deliver :: "handler_env \<Rightarrow> tval message \<Rightarrow> handler \<Rightarrow> bool option \<times> handler" where
  "deliver e msg h =
     (if message_name msg \<in> {SHAKE_HAND_REQ, SHAKE_HAND_RESP} then (None, set_has_message msg h)
      else case message_content msg of
             None \<Rightarrow> (Some False, h)
           | Some c \<Rightarrow>
               let (req_ok, p1) = validate_req_path e (message_name msg) (path (content_header c))
               in if \<not> req_ok then (Some True, h)
                  else let (resp_ok, p2) = validate_resp_path (message_name msg) p1
                       in if \<not> resp_ok then (Some True, h)
                          else let (seen, f) = filter_contains (content_nonce c) (m_nonce_filter h);
                                   msg' = msg\<lparr>message_content := Some (content_set_path p2 c)\<rparr>;
                                   h1 = h\<lparr>m_nonce_filter := f\<rparr>;
                                   h2 = (if seen then h1 else h1\<lparr>published := published h1 @ [msg']\<rparr>)
                               in (None, set_has_message msg' h2))"

definition read_step :: "handler_kind \<Rightarrow> handler_env \<Rightarrow> (handler, bool option) M" where
  "read_step kind e h =
     (case decode (snappy_uncomp e) matrix_codec (set_decode_context e) new_message (m_decoder h) of
        (Inl f, d) \<Rightarrow> (Inl f, h\<lparr>m_decoder := d\<rparr>)
      | (Inr (status, msg), d) \<Rightarrow>
          let h1 = h\<lparr>m_decoder := d\<rparr>
          in case status of
               DECODERR_SUCCESS \<Rightarrow>
                 (case on_after_msg_received kind e msg h1 of
                    (Inl f, h2) \<Rightarrow> (Inl f, h2)
                  | (Inr False, h2) \<Rightarrow> (Inr (Some False), h2)
                  | (Inr True, h2) \<Rightarrow> (case deliver e msg h2 of (r, h3) \<Rightarrow> (Inr r, h3)))
             | DECODE_UNKNOWN_MSG \<Rightarrow> (Inr None, h1)
             | DECODE_NEED_MORE_DATA \<Rightarrow> (Inr None, h1)
             | DECODE_ERROR \<Rightarrow> (Inr (Some False), h1))"

text \<open>The loop over the complete messages; not returning is \<open>None\<close>.\<close>

partial_function (option) read_loop ::
  "handler_kind \<Rightarrow> handler_env \<Rightarrow> handler \<Rightarrow> ((failure + bool) \<times> handler) option" where
  "read_loop kind e h =
     (if \<not> has_complete_message (snd (m_decoder h)) then Some (Inr True, h)
      else case read_step kind e h of
             (Inl f, h1) \<Rightarrow> Some (Inl f, h1)
           | (Inr (Some r), h1) \<Rightarrow> Some (Inr r, h1)
           | (Inr None, h1) \<Rightarrow> read_loop kind e h1)"

definition handler_on_read :: "handler_kind \<Rightarrow> handler_env \<Rightarrow> (handler \<times> byte_buf, bool) M" where
  "handler_on_read kind e = (\<lambda>(h, inb).
     if get_valid_read_len inb = 0 then (Inr True, (h, inb))
     else case recv_message (snd (m_decoder h), inb) of
            (Inl f, (ms, inb1)) \<Rightarrow> (Inl f, (h\<lparr>m_decoder := (fst (m_decoder h), ms)\<rparr>, inb1))
          | (Inr st, (ms, inb1)) \<Rightarrow>
              let h1 = h\<lparr>m_decoder := (fst (m_decoder h), ms)\<rparr>
              in if st \<noteq> DECODERR_SUCCESS then (Inr False, (h1, inb1))
                 else case read_loop kind e h1 of
                        None \<Rightarrow> (Inl Diverges, (h1, inb1))
                      | Some (r, h2) \<Rightarrow> (r, (h2, inb1)))"

section \<open>Writing\<close>

definition set_encode_context :: "handler_env \<Rightarrow> coder_args" where
  "set_encode_context e =
     (case peer e of
        None \<Rightarrow> \<lparr>ENABLE_COMPRESS = None, THRIFT_PROTO = None, LOCAL_NODE_ID = None\<rparr>
      | Some (_, a) \<Rightarrow>
          \<lparr>ENABLE_COMPRESS = Some (capacity_compress_enabled a (local_capacity e)),
           THRIFT_PROTO = Some (capacity_thrift_proto a (local_capacity e)), LOCAL_NODE_ID = None\<rparr>)"

text \<open>A null content would be dereferenced for its nonce; \<open>encode\<close> has already dereferenced it.\<close>

definition handler_on_write :: "handler_env \<Rightarrow> tval message \<Rightarrow> (handler \<times> byte_buf, bool) M" where
  "handler_on_write e msg = (\<lambda>(h, b).
     case encode (snappy_comp e) matrix_codec (set_encode_context e) msg (m_coder h, b) of
       (Inl f, (ps, b1)) \<Rightarrow> (Inl f, (h\<lparr>m_coder := ps\<rparr>, b1))
     | (Inr st, (ps, b1)) \<Rightarrow>
         let h1 = h\<lparr>m_coder := ps\<rparr>
         in if st \<noteq> ENCODERR_SUCCESS then (Inr False, (h1, b1))
            else if message_name msg \<in> {SHAKE_HAND_REQ, SHAKE_HAND_RESP}
            then (Inr True, (set_has_message msg h1, b1))
            else case message_content msg of
                   None \<Rightarrow> (Inl Undefined_behaviour, (h1, b1))
                 | Some c \<Rightarrow>
                     (Inr True, (set_has_message msg
                        (h1\<lparr>m_nonce_filter := filter_insert (content_nonce c) (m_nonce_filter h1)\<rparr>), b1)))"

section \<open>Decoded messages\<close>

text \<open>A message that was decoded: its content fits its name.\<close>

definition decoded :: "tval message \<Rightarrow> bool" where
  "decoded msg \<longleftrightarrow>
     (case message_content msg of
        None \<Rightarrow> False
      | Some (Msg_forward _ _) \<Rightarrow> message_name msg = BINARY_FORWARD_MSG
      | Some (Msg_body ty _ _) \<Rightarrow> ty = message_name msg \<and> ty \<in> set decode_invokers)"

lemma service_frame_decoded:
  "decode_service_frame prot setb rd vm new_message s = (Inr (DECODERR_SUCCESS, m), s') \<Longrightarrow> decoded m"
  by (auto simp: decode_service_frame_def decode_fast_forward_def mbind_Inr_iff mret_run Let_def decoded_def new_message_def
      BINARY_FORWARD_MSG_def split: if_splits prod.splits sum.splits)

lemma decode_packet_decoded:
  "decode_packet bc vm new_message n ph s = (Inr (DECODERR_SUCCESS, m), s') \<Longrightarrow> decoded m"
  by (auto simp: decode_packet_def mbind_Inr_iff mret_run mget_run Let_def with_bin_def with_cmp_def
      dest: service_frame_decoded split: option.splits proto_kind.splits if_splits prod.splits)

lemma decode_frame_decoded:
  "decode_frame su bc vm new_message s = (Inr (DECODERR_SUCCESS, m), s') \<Longrightarrow> decoded m"
  by (auto simp: decode_frame_def mcatch_def mbind_Inr_iff mret_run mget_run
      dest: decode_packet_decoded split: if_splits prod.splits sum.splits failure.splits)

lemma decode_decoded:
  "decode su bc vm new_message d = (Inr (DECODERR_SUCCESS, m), d') \<Longrightarrow> decoded m"
  by (auto simp: decode_def Let_def dest: decode_frame_decoded split: list.splits if_splits prod.splits sum.splits)

section \<open>Reading is total\<close>

lemma kept_simps [simp]:
  "m_decoder (handler_on_error e h) = m_decoder h" "m_coder (handler_on_error e h) = m_coder h"
  "m_decoder (write_to_channel e msg h) = m_decoder h" "m_coder (write_to_channel e msg h) = m_coder h"
  "m_decoder (set_has_message msg h) = m_decoder h" "m_coder (set_has_message msg h) = m_coder h"
  by (simp_all add: handler_on_error_def write_to_channel_def set_has_message_def)

lemmas timer_defs = reset_has_message_def start_shake_hand_timer_ext_def start_shake_hand_timer_def
  stop_shake_hand_timer_def start_wait_ver_timer_def stop_wait_ver_timer_def

lemmas received_defs = on_after_msg_received_def server_after_msg_received_def client_after_msg_received_def
  send_shake_hand_resp_def timer_defs

lemma received_kept:
  "on_after_msg_received kind e msg h = (r, h') \<Longrightarrow> m_decoder h' = m_decoder h \<and> m_coder h' = m_coder h"
  by (auto simp: received_defs Let_def
      split: handler_kind.splits option.splits msg_content.splits if_splits)

lemma deliver_kept: "deliver e msg h = (r, h') \<Longrightarrow> m_decoder h' = m_decoder h \<and> m_coder h' = m_coder h"
  by (auto simp: deliver_def Let_def split: option.splits if_splits prod.splits)

lemma received_no_failure: "decoded msg \<Longrightarrow> \<exists>b. fst (on_after_msg_received kind e msg h) = Inr b"
  by (auto simp: received_defs decoded_def message_ids BINARY_FORWARD_MSG_def Let_def
      split: handler_kind.splits option.splits msg_content.splits)

lemma read_step_ends:
  assumes q: "wf_queue (snd (m_decoder h))" "has_complete_message (snd (m_decoder h))"
    and su: "snappy_sane (snappy_uncomp e)"
  shows "case read_step kind e h of
           (Inl f, h') \<Rightarrow> f = Abort \<and> (\<exists>hd. forward_condition (set_decode_context e) hd)
         | (Inr r, h') \<Rightarrow> snd (m_decoder h') = tl (snd (m_decoder h)) \<and> m_coder h' = m_coder h"
proof -
  obtain ps m ms where d: "m_decoder h = (ps, m # ms)" "msg_complete m"
    using q(2) by (cases "m_decoder h") (auto simp: has_complete_message_def split: list.splits)
  have s: "case decode (snappy_uncomp e) matrix_codec (set_decode_context e) new_message (ps, m # ms) of
           (Inl f, _) \<Rightarrow> f = Abort \<and> (\<exists>h. forward_condition (set_decode_context e) h)
         | (Inr (st, msg'), (ps', ms')) \<Rightarrow> st \<noteq> DECODE_NEED_MORE_DATA \<and> ms' = ms"
    using q(1) d su matrix_codec_safe by (intro decode_settles) simp_all
  obtain r d' where run: "decode (snappy_uncomp e) matrix_codec (set_decode_context e) new_message (m_decoder h) = (r, d')"
    by (rule prod.exhaust)
  show ?thesis
  proof (cases r)
    case (Inl f)
    then show ?thesis using s run d(1) by (simp add: read_step_def)
  next
    case (Inr v)
    obtain st msg where v: "v = (st, msg)" by (cases v)
    have st: "st \<noteq> DECODE_NEED_MORE_DATA" "snd d' = ms" using s run Inr v d(1) by (auto split: prod.splits)
    have dec: "decoded msg" if "st = DECODERR_SUCCESS" using decode_decoded run Inr v that by metis
    show ?thesis
    proof (cases "st = DECODERR_SUCCESS")
      case False
      then show ?thesis using run Inr v st d(1) by (cases st) (simp_all add: read_step_def Let_def)
    next
      case True
      obtain b h2 where o: "on_after_msg_received kind e msg (h\<lparr>m_decoder := d'\<rparr>) = (Inr b, h2)"
        using received_no_failure [OF dec [OF True], of kind e "h\<lparr>m_decoder := d'\<rparr>"]
        by (metis prod.collapse)
      obtain b3 h3 where dl: "deliver e msg h2 = (b3, h3)" by (rule prod.exhaust)
      show ?thesis
        using run Inr v True st d(1) o dl received_kept [OF o] deliver_kept [OF dl]
        by (cases b) (simp_all add: read_step_def Let_def)
    qed
  qed
qed

lemma wf_queue_tl: "wf_queue ms \<Longrightarrow> wf_queue (tl ms)"
  by (cases ms) (auto simp: wf_queue_def split: if_splits)

text \<open>The loop ends, and what it has not looked at is still queued.\<close>

lemma read_loop_ends:
  assumes "wf_queue (snd (m_decoder h))" and su: "snappy_sane (snappy_uncomp e)"
  shows "\<exists>r h'. read_loop kind e h = Some (r, h') \<and>
           (case r of
              Inl f \<Rightarrow> f = Abort \<and> (\<exists>hd. forward_condition (set_decode_context e) hd)
            | Inr _ \<Rightarrow> wf_queue (snd (m_decoder h')) \<and> m_coder h' = m_coder h)"
  using assms(1)
proof (induction "length (snd (m_decoder h))" arbitrary: h rule: less_induct)
  case less
  show ?case
  proof (cases "has_complete_message (snd (m_decoder h))")
    case False
    then show ?thesis using less.prems by (simp add: read_loop.simps)
  next
    case True
    note st = read_step_ends [OF less.prems True su, of kind]
    then have sh: "length (snd (m_decoder h1)) < length (snd (m_decoder h))" "wf_queue (snd (m_decoder h1))"
      "m_coder h1 = m_coder h" if "read_step kind e h = (Inr r, h1)" for r h1
      using that True less.prems by (auto simp: has_complete_message_def wf_queue_tl split: list.splits)
    obtain r h1 where run: "read_step kind e h = (r, h1)" by (rule prod.exhaust)
    show ?thesis
    proof (cases r)
      case (Inl f)
      then show ?thesis using st run True by (simp add: read_loop.simps)
    next
      case (Inr v)
      note sh = sh [OF run [unfolded Inr]]
      show ?thesis
      proof (cases v)
        case None
        have "read_loop kind e h = read_loop kind e h1" using run Inr None True by (subst read_loop.simps) simp
        with less.hyps [OF sh(1,2), unfolded sh(3)] show ?thesis by simp
      next
        case (Some b)
        then show ?thesis using run Inr True sh by (simp add: read_loop.simps)
      qed
    qed
  qed
qed

lemma on_read_ends:
  assumes "wf_queue (snd (m_decoder h))" "wf_buf inb" "snappy_sane (snappy_uncomp e)"
  shows "case handler_on_read kind e (h, inb) of
           (Inl f, _) \<Rightarrow> f = Abort \<and> (\<exists>hd. forward_condition (set_decode_context e) hd)
         | (Inr ok, (h', inb')) \<Rightarrow> ok \<longrightarrow> wf_queue (snd (m_decoder h')) \<and> wf_buf inb' \<and> content inb' = []"
proof (cases "get_valid_read_len inb = 0")
  case True
  then have "content inb = []" using unat_valid_read_len [OF assms(2)] by simp
  then show ?thesis using True assms by (simp add: handler_on_read_def)
next
  case False
  note rm = recv_loop_ok [OF assms(1,2), of "unat (get_valid_read_len inb)", folded recv_message_def]
  show ?thesis
  proof (cases "split_frames (concat (map msg_bytes (snd (m_decoder h))) @ content inb)")
    case None
    then show ?thesis using rm unat_valid_read_len [OF assms(2)] False
      by (auto simp: handler_on_read_def recv_message_def Let_def)
  next
    case (Some fs)
    then obtain ms' inb' where
      r: "recv_message (snd (m_decoder h), inb) = (Inr DECODERR_SUCCESS, (ms', inb'))" "wf_queue ms'" "wf_buf inb'" "content inb' = []"
      using rm unat_valid_read_len [OF assms(2)] by (auto simp: recv_message_def)
    have "wf_queue (snd (m_decoder (h\<lparr>m_decoder := (fst (m_decoder h), ms')\<rparr>)))" using r by simp
    from read_loop_ends [OF this assms(3), of kind] obtain x h' where
      l: "read_loop kind e (h\<lparr>m_decoder := (fst (m_decoder h), ms')\<rparr>) = Some (x, h')"
        "case x of Inl f \<Rightarrow> f = Abort \<and> (\<exists>hd. forward_condition (set_decode_context e) hd)
         | Inr _ \<Rightarrow> wf_queue (snd (m_decoder h'))" by (force split: sum.splits)
    then show ?thesis using r False by (cases x) (simp_all add: handler_on_read_def Let_def)
  qed
qed

section \<open>Life of a handler\<close>

text \<open>
  The operations the channel and the timers call, in any order. The environment may differ from
  call to call (the remote node id and capacity are set during login, the channel may be gone);
  \<open>E\<close> says which environments occur.
\<close>

inductive handler_step :: "handler_kind \<Rightarrow> (handler_env \<Rightarrow> bool) \<Rightarrow> handler \<Rightarrow> handler \<Rightarrow> bool"
  for kind E where
  before_receive: "handler_step kind E h (on_before_msg_receive kind h)"
| read: "E e \<Longrightarrow> handler_on_read kind e (h, b) = (Inr ok, (h', b')) \<Longrightarrow> handler_step kind E h h'"
| encode: "E e \<Longrightarrow> handler_on_write e msg (h, b) = (Inr ok, (h', b')) \<Longrightarrow> handler_step kind E h h'"
| sent: "handler_step kind E h (on_after_msg_sent kind msg h)"
| shake_hand_timer: "E e \<Longrightarrow> shake_hand_timer h \<Longrightarrow>
     handler_step kind E h
       (case kind of Server \<Rightarrow> server_shake_hand_timer_expired e error h | Client \<Rightarrow> client_shake_hand_timer_expired e error h)"
| wait_timer: "E e \<Longrightarrow> wait_ver_timer h \<Longrightarrow> handler_step kind E h (wait_ver_timer_expired e error expired h)"
| stop: "handler_step kind E h (handler_stop kind h)"

inductive handler_reach :: "handler_kind \<Rightarrow> (handler_env \<Rightarrow> bool) \<Rightarrow> handler \<Rightarrow> bool"
  for kind E where
  init: "handler_reach kind E (new_handler f)"
| step: "handler_reach kind E h \<Longrightarrow> handler_step kind E h h' \<Longrightarrow> handler_reach kind E h'"

text \<open>An invariant of the loop is an invariant of one turn.\<close>

lemma read_loop_preserves:
  assumes "read_loop kind e h = Some (Inr b, h')" and "P h"
    and "\<And>h r h1. P h \<Longrightarrow> read_step kind e h = (Inr r, h1) \<Longrightarrow> P h1"
  shows "P h'"
  using assms(2,3)
proof (induction kind e h "(Inr b :: failure + bool, h')" rule: read_loop.raw_induct)
  case (1 loop kind e h)
  show ?case
  proof (cases "has_complete_message (snd (m_decoder h))")
    case False
    then show ?thesis using 1(2,3) by simp
  next
    case True
    obtain r h1 where run: "read_step kind e h = (r, h1)" by (rule prod.exhaust)
    show ?thesis
    proof (cases r)
      case (Inl f)
      then show ?thesis using 1(2) True run by simp
    next
      case (Inr v)
      then have p: "P h1" using 1(3,4) run by blast
      show ?thesis
      proof (cases v)
        case None
        then have "loop kind e h1 = Some (Inr b, h')" using 1(2) True run Inr by simp
        from 1(1) [OF this p 1(4)] show ?thesis .
      next
        case (Some x)
        then show ?thesis using 1(2) True run Inr p by simp
      qed
    qed
  qed
qed (rule assms(1))

text \<open>
  Safety of a handler: a property that holds of a new handler and that each of its operations keeps
  holds of every handler that can be reached.
\<close>

locale handler_safety =
  fixes kind :: handler_kind and E :: "handler_env \<Rightarrow> bool" and P :: "handler \<Rightarrow> bool"
  assumes new: "P (new_handler f)"
    and bookkeeping: "P h \<Longrightarrow> P (h\<lparr>m_decoder := d\<rparr>)" "P h \<Longrightarrow> P (h\<lparr>m_coder := c\<rparr>)"
      "P h \<Longrightarrow> P (h\<lparr>m_nonce_filter := f\<rparr>)" "P h \<Longrightarrow> P (h\<lparr>m_has_message := x\<rparr>)"
    and rejected: "E e \<Longrightarrow> decoded msg \<Longrightarrow> P h \<Longrightarrow> on_after_msg_received kind e msg h = (Inr False, h') \<Longrightarrow> P h'"
    and received: "E e \<Longrightarrow> decoded msg \<Longrightarrow> P h \<Longrightarrow> on_after_msg_received kind e msg h = (Inr True, h') \<Longrightarrow>
      deliver e msg h' = (r, h'') \<Longrightarrow> P h''"
    and sent: "P h \<Longrightarrow> P (on_after_msg_sent kind msg h)"
    and begin_receive: "P h \<Longrightarrow> P (on_before_msg_receive kind h)"
    and server_timer: "kind = Server \<Longrightarrow> E e \<Longrightarrow> P h \<Longrightarrow> P (server_shake_hand_timer_expired e error h)"
    and client_timer: "kind = Client \<Longrightarrow> E e \<Longrightarrow> P h \<Longrightarrow> P (client_shake_hand_timer_expired e error h)"
    and wait_timer: "E e \<Longrightarrow> P h \<Longrightarrow> P (wait_ver_timer_expired e error expired h)"
    and stopped: "P h \<Longrightarrow> P (handler_stop kind h)"
begin

lemma read_step_safe:
  assumes "E e" "P h" "read_step kind e h = (Inr r, h1)"
  shows "P h1"
proof -
  obtain st msg d where run: "decode (snappy_uncomp e) matrix_codec (set_decode_context e) new_message (m_decoder h) = (Inr (st, msg), d)"
    using assms(3) by (auto simp: read_step_def split: prod.splits sum.splits)
  have p: "P (h\<lparr>m_decoder := d\<rparr>)" by (rule bookkeeping(1) [OF assms(2)])
  show ?thesis
  proof (cases "st = DECODERR_SUCCESS")
    case False
    then show ?thesis using assms(3) run p by (cases st) (auto simp: read_step_def Let_def)
  next
    case True
    have dec: "decoded msg" using run True by (blast intro: decode_decoded)
    have a: "(case on_after_msg_received kind e msg (h\<lparr>m_decoder := d\<rparr>) of
                (Inl f, h2) \<Rightarrow> (Inl f, h2)
              | (Inr False, h2) \<Rightarrow> (Inr (Some False), h2)
              | (Inr True, h2) \<Rightarrow> (case deliver e msg h2 of (r, h3) \<Rightarrow> (Inr r, h3))) = (Inr r, h1)"
      using assms(3) run True by (simp add: read_step_def Let_def)
    obtain x h2 where o: "on_after_msg_received kind e msg (h\<lparr>m_decoder := d\<rparr>) = (x, h2)" by (rule prod.exhaust)
    obtain y h3 where dl: "deliver e msg h2 = (y, h3)" by (rule prod.exhaust)
    show ?thesis
      using a o dl rejected [OF assms(1) dec p] received [OF assms(1) dec p]
      by (cases x) (auto split: bool.splits)
  qed
qed

lemma on_read_safe:
  assumes "E e" "P h" "handler_on_read kind e (h, b) = (Inr ok, (h', b'))"
  shows "P h'"
proof (cases "get_valid_read_len b = 0")
  case True
  then show ?thesis using assms(2,3) by (simp add: handler_on_read_def)
next
  case False
  obtain r ms b1 where rm: "recv_message (snd (m_decoder h), b) = (r, (ms, b1))" by (metis prod.exhaust)
  let ?h1 = "h\<lparr>m_decoder := (fst (m_decoder h), ms)\<rparr>"
  have p: "P ?h1" by (rule bookkeeping(1) [OF assms(2)])
  have "P h2" if "read_loop kind e ?h1 = Some (Inr x, h2)" for x h2
    using read_loop_preserves [where P = P, OF that p] read_step_safe [OF assms(1)] by blast
  then show ?thesis
    using assms(3) False rm p by (auto simp: handler_on_read_def Let_def split: sum.splits if_splits option.splits prod.splits)
qed

lemma on_write_safe:
  assumes "P h" "handler_on_write e msg (h, b) = (Inr ok, (h', b'))"
  shows "P h'"
  using assms bookkeeping
  by (auto simp: handler_on_write_def set_has_message_def Let_def split: sum.splits if_splits option.splits prod.splits)

lemma reach_safe: "handler_reach kind E h \<Longrightarrow> P h"
proof (induction rule: handler_reach.induct)
  case (step h h')
  from step(2,3) show ?case
    by (induction rule: handler_step.induct)
      (auto intro: begin_receive on_read_safe on_write_safe sent server_timer client_timer wait_timer stopped
        split: handler_kind.splits)
qed (rule new)

end

section \<open>The login gate\<close>

text \<open>What is put on the bus is the decoded message, its path normalised.\<close>

lemma deliver_publishes:
  assumes "deliver e msg h = (r, h')"
  shows "m_login_success h' = m_login_success h" "m_recv_ver_req h' = m_recv_ver_req h"
    "m_lost_shake_hand_count h' = m_lost_shake_hand_count h"
    "published h' = published h \<or>
     (\<exists>c p. message_content msg = Some c \<and> message_name msg \<notin> {SHAKE_HAND_REQ, SHAKE_HAND_RESP} \<and>
        published h' = published h @ [msg\<lparr>message_content := Some (content_set_path p c)\<rparr>])"
  using assms
  by (auto simp: deliver_def set_has_message_def Let_def split: if_splits option.splits prod.splits)

lemma set_path_kept [simp]:
  "content_set_path p (Msg_body ty h b) = Msg_body ty (h\<lparr>path := p\<rparr>) b"
  "magic (content_header (content_set_path p c)) = magic (content_header c)"
  "content_nonce (content_set_path p c) = content_nonce c"
  "content_set_path p c = Msg_body ty h b \<longleftrightarrow> (\<exists>h0. c = Msg_body ty h0 b \<and> h = h0\<lparr>path := p\<rparr>)"
  by (auto simp: content_set_path_def content_header_def content_nonce_def split: msg_content.splits)

definition named :: "string \<Rightarrow> tval message list \<Rightarrow> nat" where
  "named name ms = length (filter (\<lambda>m. message_name m = name) ms)"

lemma named_append [simp]: "named n (xs @ [m]) = named n xs + (if message_name m = n then 1 else 0)"
  "named n [] = 0" "named n [m] = (if message_name m = n then 1 else 0)"
  by (simp_all add: named_def)

text \<open>A message a server may put on the bus: from its own network, and no login from itself.\<close>

definition admissible :: "i32 \<Rightarrow> string \<Rightarrow> tval message \<Rightarrow> bool" where
  "admissible flag me m \<longleftrightarrow>
     message_name m \<notin> {SHAKE_HAND_REQ, SHAKE_HAND_RESP} \<and>
     (case message_content m of
        None \<Rightarrow> False
      | Some c \<Rightarrow> magic (content_header c) = flag \<and>
          (message_name m = VER_REQ \<longrightarrow> (\<exists>h b. c = Msg_body VER_REQ h b \<and> ver_req_node_id b \<noteq> me)))"

definition server_gate :: "i32 \<Rightarrow> string \<Rightarrow> handler \<Rightarrow> bool" where
  "server_gate flag me h \<longleftrightarrow>
     (\<forall>m\<in>set (published h). admissible flag me m) \<and>
     (m_login_success h \<or> (\<forall>m\<in>set (published h). message_name m = VER_REQ)) \<and>
     named VER_REQ (published h) \<le> (if m_recv_ver_req h then 1 else 0)"

definition client_gate :: "handler \<Rightarrow> bool" where
  "client_gate h \<longleftrightarrow>
     (m_login_success h \<or> published h = []) \<and>
     named VER_RESP (published h) \<le> (if m_login_success h then 1 else 0)"

definition configured :: "i32 \<Rightarrow> string \<Rightarrow> handler_env \<Rightarrow> bool" where
  "configured flag me e \<longleftrightarrow> net_flag e = flag \<and> local_node_id e = me"

lemmas handler_op_defs = on_before_msg_receive_def on_after_msg_sent_def server_after_msg_sent_def
  client_after_msg_sent_def server_shake_hand_timer_expired_def client_shake_hand_timer_expired_def
  wait_ver_timer_expired_def handler_stop_def handler_on_error_def write_to_channel_def
  send_shake_hand_req_def timer_defs Let_def

lemma server_received_gate:
  assumes "configured flag me e" "decoded msg" "server_gate flag me h"
    and o: "on_after_msg_received Server e msg h = (Inr True, h')" and d: "deliver e msg h' = (r, h'')"
  shows "server_gate flag me h''"
proof -
  have adm: "admissible flag me (msg\<lparr>message_content := Some (content_set_path p c)\<rparr>)"
    if "message_content msg = Some c" "message_name msg \<notin> {SHAKE_HAND_REQ, SHAKE_HAND_RESP}" for c p
    using o that assms(1)
    by (auto simp: received_defs admissible_def configured_def split: if_splits option.splits msg_content.splits)
  have st: "published h' = published h" "m_login_success h' = m_login_success h"
    "m_recv_ver_req h' = (m_recv_ver_req h \<or> message_name msg = VER_REQ)"
    "message_name msg = VER_REQ \<longrightarrow> \<not> m_recv_ver_req h"
    "\<not> m_login_success h \<longrightarrow> message_name msg = VER_REQ"
    using o by (auto simp: received_defs write_to_channel_def split: if_splits option.splits msg_content.splits)
  show ?thesis
    using deliver_publishes [OF d] adm st assms(3) by (auto simp: server_gate_def)
qed

lemma client_received_gate:
  assumes "client_gate h" and o: "on_after_msg_received Client e msg h = (Inr True, h')"
    and d: "deliver e msg h' = (r, h'')"
  shows "client_gate h''"
proof -
  have st: "published h' = published h" "m_login_success h'"
    "message_name msg = VER_RESP \<longrightarrow> \<not> m_login_success h"
    using o by (auto simp: received_defs split: if_splits)
  show ?thesis
    using deliver_publishes [OF d] st assms(1) by (auto simp: client_gate_def split: if_splits)
qed

interpretation server: handler_safety Server "configured flag me" "server_gate flag me"
  for flag :: i32 and me :: string
proof (unfold_locales, goal_cases)
  case (6 e msg h h')
  then show ?case by (auto simp: received_defs split: if_splits option.splits msg_content.splits)
next
  case (7 e msg h h' r h'')
  then show ?case by (rule server_received_gate)
qed (auto simp: server_gate_def new_handler_def handler_op_defs)

interpretation client: handler_safety Client "\<lambda>_. True" "client_gate :: handler \<Rightarrow> bool"
proof (unfold_locales, goal_cases)
  case (6 e msg h h')
  then show ?case by (auto simp: received_defs split: if_splits)
next
  case (7 e msg h h' r h'')
  then show ?case by (blast intro: client_received_gate)
qed (auto simp: client_gate_def new_handler_def handler_op_defs)

section \<open>The handler as the encoder of its channel\<close>

text \<open>
  What the settings of a connection can be, and a message that can be encoded under all of them:
  the sizes leave room in the send buffer.
\<close>

definition payload :: "proto_kind \<Rightarrow> base_header \<Rightarrow> tspec \<Rightarrow> tval \<Rightarrow> byte list" where
  "payload kind h t body = enc_message kind h (enc_body kind t body)"

definition sendable :: "(byte list \<Rightarrow> byte list) \<Rightarrow> tval message \<Rightarrow> bool" where
  "sendable sc m \<longleftrightarrow>
     (\<exists>ty h body t. m = \<lparr>message_name = ty, message_content = Some (Msg_body ty h body)\<rparr> \<and> message_class ty = Some t \<and>
        (\<forall>kind. header_ok_for kind h \<and> fits (kind_map_ok kind) t body \<and>
           8 + length (payload kind h t body) < 10485759 \<and>
           sc (payload kind h t body) \<noteq> [] \<and> 8 + length (sc (payload kind h t body)) < 10485760))"

text \<open>A packet of the message, under some settings.\<close>

definition packet_of :: "(byte list \<Rightarrow> byte list) \<Rightarrow> tval message \<Rightarrow> byte list \<Rightarrow> bool" where
  "packet_of sc m f \<longleftrightarrow>
     (\<exists>ty h body t kind vm. m = \<lparr>message_name = ty, message_content = Some (Msg_body ty h body)\<rparr> \<and>
        message_class ty = Some t \<and> get_protocol (get_thrift_proto vm) = Some kind \<and>
        f = on_wire sc vm (payload kind h t body))"

text \<open>The state the channel passes around: the handler and the environment it currently sees.\<close>

type_synonym handler_in = "handler \<times> handler_env"

definition write_in :: "tval message \<Rightarrow> (handler_in \<times> byte_buf, bool) M" where
  "write_in m = (\<lambda>((h, e), b). case handler_on_write e m (h, b) of (r, (h', b')) \<Rightarrow> (r, ((h', e), b')))"

definition sent_in :: "handler_kind \<Rightarrow> tval message \<Rightarrow> handler_in \<Rightarrow> handler_in" where
  "sent_in kind m = (\<lambda>(h, e). (on_after_msg_sent kind m h, e))"

definition encoder_inv :: "(byte list \<Rightarrow> byte list) \<Rightarrow> handler_in \<Rightarrow> bool" where
  "encoder_inv sc = (\<lambda>(h, e). protos_ok (m_coder h) \<and> snappy_comp e = sc)"

text \<open>Everything else that happens to a handler leaves its encoder alone.\<close>

definition encoder_same :: "handler_in \<Rightarrow> handler_in \<Rightarrow> bool" where
  "encoder_same = (\<lambda>(h, e) (h', e'). m_coder h' = m_coder h \<and> snappy_comp e' = snappy_comp e)"

lemma encode_context_proto: "\<exists>kind. get_protocol (get_thrift_proto (set_encode_context e)) = Some kind"
  by (auto simp: set_encode_context_def get_thrift_proto_def capacity_thrift_proto_def get_protocol_def
      split: option.splits)

lemma on_wire_ne: "on_wire sc vm p \<noteq> []"
  by (simp add: on_wire_def Let_def compressed_def packet_def be_bytes_ne)

lemma write_in_ok:
  assumes m: "sendable sc m" and inv: "encoder_inv sc (h, e)" and b: "wf_buf b" "std_buf b" "content b = []"
  shows "\<exists>h' b'. write_in m ((h, e), b) = (Inr True, ((h', e), b')) \<and> encoder_inv sc (h', e) \<and>
           wf_buf b' \<and> std_buf b' \<and> content b' \<noteq> [] \<and> packet_of sc m (content b')"
proof -
  let ?vm = "set_encode_context e"
  obtain kind where k: "get_protocol (get_thrift_proto ?vm) = Some kind" using encode_context_proto by blast
  from m obtain ty hd body t where msg: "m = \<lparr>message_name = ty, message_content = Some (Msg_body ty hd body)\<rparr>"
    and cl: "message_class ty = Some t" "header_ok_for kind hd" "fits (kind_map_ok kind) t body"
    and len: "8 + length (payload kind hd t body) < 10485759" "sc (payload kind hd t body) \<noteq> []"
      "8 + length (sc (payload kind hd t body)) < 10485760" unfolding sendable_def by blast
  have ty: "ty \<in> set encode_invokers" using cl(1) class_of_registered [of ty] by (simp add: invokers_same)
  have bw: "body_writes matrix_codec kind ty body (enc_body kind t body)" by (rule matrix_codec_transfer(1) [OF cl(1,3)])
  have c: "protos_ok (m_coder h)" "snappy_comp e = sc" using inv by (simp_all add: encoder_inv_def)
  from encode_ok [where sc = sc, OF b c(1) k cl(2) ty bw len [unfolded payload_def]] obtain ps out where
    enc: "encode sc matrix_codec ?vm m (m_coder h, b) = (Inr ENCODERR_SUCCESS, (ps, out))"
      "protos_ok ps" "wf_buf out" "std_buf out" "content out = on_wire sc ?vm (payload kind hd t body)"
    unfolding msg payload_def by blast
  have "packet_of sc m (content out)" unfolding packet_of_def using msg k cl(1) enc(5) by blast
  moreover have "\<exists>h'. write_in m ((h, e), b) = (Inr True, ((h', e), out)) \<and> m_coder h' = ps"
    using enc(1) c by (simp add: write_in_def handler_on_write_def Let_def msg)
  ultimately show ?thesis using enc(2-5) c by (auto simp: encoder_inv_def on_wire_ne)
qed

interpretation sender: message_encoder write_in "sent_in kind" encoder_same "sendable sc" "encoder_inv sc" "packet_of sc"
  for kind :: handler_kind and sc :: "byte list \<Rightarrow> byte list"
proof (unfold_locales, goal_cases)
  case (1 m h b)
  then show ?case using write_in_ok [of sc m "fst h" "snd h" b] by fastforce
next
  case (2 h m)
  then show ?case
    by (auto simp: encoder_inv_def sent_in_def on_after_msg_sent_def server_after_msg_sent_def client_after_msg_sent_def
        timer_defs split: handler_kind.splits)
next
  case (3 h h')
  then show ?case by (auto simp: encoder_inv_def encoder_same_def)
qed

text \<open>Reading and the timers are such other things: the decoder has protocol objects of its own.\<close>

lemma read_step_coder: "read_step kind e h = (Inr r, h') \<Longrightarrow> m_coder h' = m_coder h"
  by (auto simp: read_step_def Let_def dest!: received_kept deliver_kept
      split: prod.splits sum.splits decode_status.splits bool.splits)

lemma on_read_coder:
  assumes "handler_on_read kind e (h, b) = (Inr ok, (h', b'))"
  shows "encoder_same (h, e) (h', e)"
proof (cases "get_valid_read_len b = 0")
  case True
  then show ?thesis using assms by (simp add: handler_on_read_def encoder_same_def)
next
  case False
  obtain r ms b1 where rm: "recv_message (snd (m_decoder h), b) = (r, (ms, b1))" by (metis prod.exhaust)
  let ?h1 = "h\<lparr>m_decoder := (fst (m_decoder h), ms)\<rparr>"
  have st: "m_coder g1 = m_coder h" if "m_coder g = m_coder h" "read_step kind e g = (Inr r, g1)" for g r g1
    using read_step_coder [OF that(2)] that(1) by simp
  have "m_coder h2 = m_coder h" if "read_loop kind e ?h1 = Some (Inr x, h2)" for x h2
    by (rule read_loop_preserves [where P = "\<lambda>g. m_coder g = m_coder h", OF that _ st]) simp_all
  then show ?thesis
    using assms False rm
    by (auto simp: handler_on_read_def encoder_same_def Let_def split: sum.splits if_splits option.splits prod.splits)
qed

section \<open>Properties\<close>


definition sample_env :: handler_env where
  "sample_env =
     \<lparr>local_node_id = ''me'', net_flag = 0x1234, local_capacity = default_capacity,
      peer = Some (''you'', default_capacity), snappy_comp = Cons 1,
      snappy_uncomp = (\<lambda>x. if length x < 5000000 then Some (tl x) else None)\<rparr>"

definition sample_handler :: handler where
  "sample_handler = new_handler (new_filter 4 2 2 7)"

lemma sample_sane: "snappy_sane (snappy_uncomp sample_env)"
  unfolding snappy_sane_def
proof (intro allI impI)
  fix x t :: "byte list"
  assume "22 \<le> length x" "snappy_uncomp sample_env x = Some t"
  then show "t \<noteq> [] \<and> length t < 4294967288"
    by (cases x) (auto simp: sample_env_def split: if_splits)
qed



lemma reach_after_sent: "handler_reach kind E (on_after_msg_sent kind msg (new_handler f))"
  by (rule handler_reach.step [OF handler_reach.init handler_step.sent])




text \<open>(C6) Sending: threads may write at any moment, the socket may take any part of what it is offered,
  and messages may arrive in between. The bytes that have left are always a prefix of the packets
  of the accepted messages, in the order in which they were accepted, each a packet of its message
  under settings the two ends agreed on. When the channel is idle, open and without error, every
  accepted message has left completely.\<close>

theorem channel_sends_in_order:
  assumes "send_reach write_in (sent_in kind) encoder_same (h, e) s" and "protos_ok (m_coder h)"
    and "\<forall>m\<in>set (accepted s). sendable (snappy_comp e) m"
  shows "list_all2 (packet_of (snappy_comp e)) (take (length (frames s)) (accepted s)) (frames s) \<and>
         prefix (wire (chan s)) (concat (frames s)) \<and>
         (m_state (chan s) \<noteq> CHANNEL_STOPPED \<and> errors (chan s) = 0 \<and> starting s = None \<and> \<not> writing (chan s) \<longrightarrow>
            length (frames s) = length (accepted s) \<and> wire (chan s) = concat (frames s))"
proof -
  have inv: "encoder_inv (snappy_comp e) (h, e)" using assms(2) by (simp add: encoder_inv_def)
  note f = sender.sends_in_order [OF assms(1) inv assms(3)]
  show ?thesis using f by blast
qed

text \<open>A request of a logged-in node.\<close>

definition request_header :: base_header where
  "request_header =
     empty_header\<lparr>magic := 0x1234, msg_name := ''get_peer_nodes_req'', nonce := ''n1'', isset_nonce := True\<rparr>"

definition request_message :: "tval message" where
  "request_message =
     \<lparr>message_name = ''get_peer_nodes_req'',
      message_content = Some (Msg_body ''get_peer_nodes_req'' request_header sample_request)\<rparr>"

lemma request_header_ok: "header_ok_for kind request_header"
  by (cases kind)
    (simp_all add: header_ok_for_def bin.header_ok_def cmp.header_ok_def request_header_def empty_header_def)

lemma request_length:
  "22 < length (enc_message kind request_header (enc_body kind get_peer_nodes_req sample_request))"
  "length (enc_message kind request_header (enc_body kind get_peer_nodes_req sample_request)) < 120"
proof -
  show "length (enc_message kind request_header (enc_body kind get_peer_nodes_req sample_request)) < 120"
    using length_varint32 [of "i32ToZigzag 0x1234"] cmp_encString_length [of "''get_peer_nodes_req''"] cmp_encString_length [of "''n1''"]
      cmp_encField_length [of 0 "ctype T_I32" 1] cmp_encField_length [of 1 "ctype T_STRING" 2]
      cmp_encField_length [of 2 "ctype T_STRING" 3] sample_request_length [of kind]
    by (cases kind) (simp_all add: enc_message_def bin.enc_header_def bin.header_fields_def cmp.enc_header_def cmp.header_fields_def
      request_header_def empty_header_def bin_encString_def)
  show "22 < length (enc_message kind request_header (enc_body kind get_peer_nodes_req sample_request))"
    using cmp.encField_ne [of 0 T_I32 1, folded length_greater_0_conv] cmp.encField_ne [of 1 T_STRING 2, folded length_greater_0_conv]
      cmp.encField_ne [of 2 T_STRING 3, folded length_greater_0_conv]
    by (cases kind) (simp_all add: enc_message_def bin.enc_header_def bin.header_fields_def cmp.enc_header_def cmp.header_fields_def
      request_header_def empty_header_def bin_encString_def cmp_encString_def del: length_greater_0_conv)
qed

lemma request_sendable: "sendable (Cons 1) request_message"
  unfolding sendable_def
proof (intro exI conjI allI)
  show "message_class ''get_peer_nodes_req'' = Some get_peer_nodes_req" by (rule request_class)
  fix kind
  show "8 + length (payload kind request_header get_peer_nodes_req sample_request) < 10485759"
    "8 + length (1 # payload kind request_header get_peer_nodes_req sample_request) < 10485760"
    using request_length(2) [of kind] by (simp_all add: payload_def)
qed (simp_all add: request_message_def request_header_ok sample_request_ok(1))

theorem channel_sends_in_order_witness:
  "let s = (send_init (sample_handler, sample_env))\<lparr>
         chan := snd (write_push request_message (chan (send_init (sample_handler, sample_env)))),
         accepted := [request_message], starting := Some request_message\<rparr>
   in list_all2 (packet_of (Cons 1)) (take (length (frames s)) (accepted s)) (frames s) \<and>
      prefix (wire (chan s)) (concat (frames s)) \<and>
      (m_state (chan s) \<noteq> CHANNEL_STOPPED \<and> errors (chan s) = 0 \<and> starting s = None \<and> \<not> writing (chan s) \<longrightarrow>
         length (frames s) = length (accepted s) \<and> wire (chan s) = concat (frames s))"
proof -
  let ?i = "send_init (sample_handler, sample_env)"
  let ?s = "?i\<lparr>chan := snd (write_push request_message (chan ?i)), accepted := [request_message],
              starting := Some request_message\<rparr>"
  have "write_push request_message (chan ?i) = (True, snd (write_push request_message (chan ?i)))"
    by (simp add: write_push_def send_init_def new_channel_def)
  from send_step.push [OF this]
  have "send_step write_in (sent_in Server) encoder_same ?i ?s" by (simp add: send_init_def)
  from channel_sends_in_order [OF send_reach.step [OF send_reach.init this]] request_sendable
  show ?thesis by (simp add: sample_handler_def new_handler_def sample_env_def Let_def)
qed

text \<open>A silent peer is dropped: after the third expiry of the server's shake-hand timer with no message
  in between the channel is told of the error and the timer is not restarted, not before; any
  message accepted or sent in between starts the count again.\<close>

theorem silent_peer_is_dropped:
  assumes "\<not> m_stopped h" and "peer e \<noteq> None" and "m_lost_shake_hand_count h = 0" and "m_login_success h"
  shows "(\<forall>n<3. channel_errors ((server_shake_hand_timer_expired e No_error ^^ n) h) = channel_errors h \<and>
                (0 < n \<longrightarrow> shake_hand_timer ((server_shake_hand_timer_expired e No_error ^^ n) h))) \<and>
         channel_errors ((server_shake_hand_timer_expired e No_error ^^ 3) h) = channel_errors h + 1 \<and>
         \<not> shake_hand_timer ((server_shake_hand_timer_expired e No_error ^^ 3) h) \<and>
         (\<forall>g msg. message_name msg \<noteq> VER_RESP \<longrightarrow> m_lost_shake_hand_count (on_after_msg_sent Server msg g) = 0) \<and>
         (\<forall>g msg g'. message_name msg \<noteq> VER_REQ \<longrightarrow> on_after_msg_received Server e msg g = (Inr True, g') \<longrightarrow>
            m_lost_shake_hand_count g' = 0)"
proof (intro conjI allI impI)
  have f: "(f ^^ 2) x = f (f x)" "(f ^^ 3) x = f (f (f x))" for f and x :: handler
    by (simp_all add: numeral_2_eq_2 numeral_3_eq_3)
  fix n :: nat
  assume "n < 3"
  then have "n = 0 \<or> n = 1 \<or> n = 2" by linarith
  then show "channel_errors ((server_shake_hand_timer_expired e No_error ^^ n) h) = channel_errors h"
    and "0 < n \<Longrightarrow> shake_hand_timer ((server_shake_hand_timer_expired e No_error ^^ n) h)"
    using assms by (auto simp: f handler_op_defs LOST_SHAKE_HAND_COUNT_MAX_def word_le_nat_alt)
next
  have f: "(f ^^ 3) x = f (f (f x))" for f and x :: handler by (simp add: numeral_3_eq_3)
  show "channel_errors ((server_shake_hand_timer_expired e No_error ^^ 3) h) = channel_errors h + 1"
    and "\<not> shake_hand_timer ((server_shake_hand_timer_expired e No_error ^^ 3) h)"
    using assms by (auto simp: f handler_op_defs LOST_SHAKE_HAND_COUNT_MAX_def word_le_nat_alt)
next
  fix g and msg :: "tval message"
  assume "message_name msg \<noteq> VER_RESP"
  then show "m_lost_shake_hand_count (on_after_msg_sent Server msg g) = 0"
    by (simp add: on_after_msg_sent_def server_after_msg_sent_def)
next
  fix g g' and msg :: "tval message"
  assume "message_name msg \<noteq> VER_REQ" "on_after_msg_received Server e msg g = (Inr True, g')"
  then show "m_lost_shake_hand_count g' = 0"
    by (auto simp: received_defs split: option.splits if_splits)
qed

theorem silent_peer_is_dropped_witness:
  "channel_errors ((server_shake_hand_timer_expired sample_env No_error ^^ 3) (sample_handler\<lparr>m_login_success := True\<rparr>)) = 1"
  using silent_peer_is_dropped [of "sample_handler\<lparr>m_login_success := True\<rparr>" sample_env]
  by (simp add: sample_handler_def new_handler_def sample_env_def)

text \<open>The check of the path of a query misses repeated nodes that are not next to each other:
  \<open>std::unique\<close> removes equal neighbours only, so a path on which a node occurs twice is accepted
  unless the two are adjacent.\<close>

theorem repeated_path_accepted:
  assumes "name \<in> {''node_list_task_rsp'', ''node_task_logs_rsp'', ''node_query_node_info_rsp''}"
    and "a \<noteq> b" and "length p \<le> 17" and "remdups_adj p = p" and "p = [] \<or> last p \<noteq> a"
  shows "validate_resp_path name (p @ [a, b, a]) = (True, p @ [a, b, a]) \<and> \<not> distinct (p @ [a, b, a])"
proof -
  have "remdups_adj (p @ [a, b, a]) = p @ [a, b, a]"
    using assms(2,4,5)
    by (cases "p = []") (simp_all add: remdups_adj_append' remdups_adj_append_two [symmetric])
  then show ?thesis using assms(1,3) by (auto simp: validate_resp_path_def)
qed

theorem repeated_path_accepted_witness:
  "validate_resp_path ''node_list_task_rsp'' ([] @ [''a'', ''b'', ''a'']) = (True, [''a'', ''b'', ''a'']) \<and>
   \<not> distinct [''a'', ''b'', ''a'']"
  using repeated_path_accepted [of "''node_list_task_rsp''" "''a''" "''b''" "[]"] by simp

end
