(* ===== verification/Message_Delivery.thy ===== *)
theory Message_Delivery
  imports Channel_Handler
begin

text \<open>
  From one node to another: the messages a sender's channel accepts, encoded by its handler, cut by
  TCP into arbitrary pieces, are reassembled, decoded, checked and put on the receiver's bus in the
  order in which they were sent. Composes \<open>tcp_socket_channel.cpp\<close>, the handlers, the coder and the
  message classes.
\<close>

section \<open>Cutting a part of a stream of frames\<close>

lemma full_frame_ne: "full_frame f \<Longrightarrow> f \<noteq> []"
  by (auto simp: full_frame_def)

lemma split_part_of_frame:
  assumes "full_frame f" "f = p @ r" "r \<noteq> []"
  shows "split_frames p = Some (if p = [] then [] else [p])" and "\<not> full_frame p"
proof -
  have fl: "frame_len p = int (length f)" "valid_len (frame_len p)" if "4 \<le> length p"
    using assms(1) that unfolding assms(2) by (auto simp: full_frame_def frame_len_append)
  show "split_frames p = Some (if p = [] then [] else [p])"
    using fl assms(2) by (subst split_frames.simps) auto
  show "\<not> full_frame p" using fl assms(2,3) by (auto simp: full_frame_def)
qed

text \<open>What has arrived of a stream of frames is some whole frames and a part of the next one.\<close>

lemma split_partial_stream:
  assumes "\<forall>f\<in>set fs. full_frame f" and "xs @ rest = concat fs"
  shows "\<exists>gs gs' p. fs = gs @ gs' \<and> xs = concat gs @ p \<and> p @ rest = concat gs' \<and>
           split_frames xs = Some (gs @ (if p = [] then [] else [p])) \<and> \<not> full_frame p \<and> (rest = [] \<longrightarrow> gs' = [])"
  using assms
proof (induction fs arbitrary: xs)
  case Nil
  then show ?case by (auto simp: split_frames.simps full_frame_def)
next
  case (Cons f fs)
  have f: "full_frame f" using Cons.prems(1) by simp
  from Cons.prems(2) have "xs @ rest = f @ concat fs" by simp
  then consider us where "f = xs @ us" "us \<noteq> []" "rest = us @ concat fs" | us where "xs = f @ us" "us @ rest = concat fs"
    unfolding append_eq_append_conv2 by (metis append_Nil append_Nil2 append.assoc)
  then show ?case
  proof cases
    case 1
    with split_part_of_frame [OF f 1(1,2)]
    show ?thesis by (intro exI [of _ "[]"] exI [of _ "f # fs"] exI [of _ xs]) auto
  next
    case 2
    have "\<forall>f\<in>set fs. full_frame f" using Cons.prems(1) by simp
    from Cons.IH [OF this 2(2)] obtain gs gs' p where
      "fs = gs @ gs'" "us = concat gs @ p" "p @ rest = concat gs'"
      "split_frames us = Some (gs @ (if p = [] then [] else [p]))" "\<not> full_frame p" "rest = [] \<longrightarrow> gs' = []" by blast
    with 2 split_full [OF f, of us]
    show ?thesis by (intro exI [of _ "f # gs"] exI [of _ gs'] exI [of _ p]) auto
  qed
qed

section \<open>One message\<close>

text \<open>A frame that the decoder turns into the message, whatever was decoded before.\<close>

definition decodes_to :: "handler_env \<Rightarrow> byte list \<Rightarrow> tval message \<Rightarrow> bool" where
  "decodes_to e f m \<longleftrightarrow>
     full_frame f \<and>
     (\<forall>ps b. protos_ok ps \<and> wf_buf b \<and> content b = f \<longrightarrow>
        (\<exists>ps' b'. decode_frame (snappy_uncomp e) matrix_codec (set_decode_context e) new_message (ps, b) =
           (Inr (DECODERR_SUCCESS, m), (ps', b')) \<and> protos_ok ps'))"

definition shake_hand :: "tval message \<Rightarrow> bool" where
  "shake_hand m \<longleftrightarrow> message_name m \<in> {SHAKE_HAND_REQ, SHAKE_HAND_RESP}"

definition message_nonce :: "tval message \<Rightarrow> string" where
  "message_nonce m = (case message_content m of None \<Rightarrow> [] | Some c \<Rightarrow> content_nonce c)"

text \<open>What a node that is logged in accepts: no login, the magic number of the network, a path in order.\<close>

definition admitted :: "handler_env \<Rightarrow> tval message \<Rightarrow> bool" where
  "admitted e m \<longleftrightarrow>
     message_name m \<notin> {VER_REQ, VER_RESP} \<and>
     (case message_content m of None \<Rightarrow> False | Some c \<Rightarrow> magic (content_header c) = net_flag e)"

definition path_ok :: "handler_env \<Rightarrow> tval message \<Rightarrow> bool" where
  "path_ok e m =
     (case message_content m of
        None \<Rightarrow> False
      | Some c \<Rightarrow> fst (validate_req_path e (message_name m) (path (content_header c))) \<and>
                  fst (validate_resp_path (message_name m) (path (content_header c))))"

definition acceptable :: "handler_env \<Rightarrow> tval message \<Rightarrow> bool" where
  "acceptable e m \<longleftrightarrow> admitted e m \<and> path_ok e m"

lemma remdups_adj_same: "length p = length (remdups_adj p) \<Longrightarrow> p = remdups_adj p"
proof (induction p rule: remdups_adj.induct)
  case (3 x y xs)
  show ?case
  proof (cases "x = y")
    case True
    then show ?thesis using 3(3) remdups_adj_length [of "y # xs"] by (simp del: remdups_adj_length)
  next
    case False
    then have "remdups_adj (x # y # xs) = x # remdups_adj (y # xs)" by simp
    with 3(2) [OF False] 3(3) show ?thesis by simp
  qed
qed simp_all

lemma valid_path_kept:
  "fst (validate_req_path e n p) \<Longrightarrow> validate_req_path e n p = (True, p)"
  "fst (validate_resp_path n p) \<Longrightarrow> validate_resp_path n p = (True, p)"
  by (auto simp: validate_req_path_def validate_resp_path_def dest!: remdups_adj_same [THEN sym] split: if_splits option.splits)

lemma content_set_same_path: "content_set_path (path (content_header c)) c = c"
  by (cases c) (simp_all add: content_set_path_def content_header_def)

abbreviation nonces :: "handler \<Rightarrow> string set" where
  "nonces h \<equiv> fst ` set (keys (m_lru (m_nonce_filter h)))"

lemma filter_contains_fresh:
  assumes "x = [] \<or> x \<notin> fst ` set (keys (m_lru f))"
  shows "\<exists>f'. filter_contains x f = (False, f') \<and> fst ` set (keys (m_lru f')) \<subseteq> insert x (fst ` set (keys (m_lru f)))"
  using assms filter_insert_keys [of x f] by (auto simp: filter_contains_def lru_contains_def)

text \<open>The part of the handler that matters here.\<close>

lemma received_accepts:
  assumes "m_login_success h" "admitted e m"
  shows "\<exists>h'. on_after_msg_received kind e m h = (Inr True, h') \<and> m_login_success h' \<and> published h' = published h \<and>
           m_nonce_filter h' = m_nonce_filter h \<and> m_decoder h' = m_decoder h"
  using assms
  by (cases kind) (auto simp: received_defs admitted_def write_to_channel_def Let_def split: option.splits)

lemma set_has_message_keeps [simp]:
  "m_login_success (set_has_message m h) = m_login_success h" "published (set_has_message m h) = published h"
  "m_nonce_filter (set_has_message m h) = m_nonce_filter h"
  by (simp_all add: set_has_message_def)

lemma deliver_accepts:
  assumes "acceptable e m" "message_nonce m = [] \<or> message_nonce m \<notin> nonces h"
  shows "\<exists>h'. deliver e m h = (None, h') \<and> m_login_success h' = m_login_success h \<and>
           published h' = published h @ (if shake_hand m then [] else [m]) \<and>
           nonces h' \<subseteq> insert (message_nonce m) (nonces h) \<and> m_decoder h' = m_decoder h"
proof (cases "shake_hand m")
  case True
  then show ?thesis by (auto simp: deliver_def shake_hand_def)
next
  case False
  obtain c where c: "message_content m = Some c" using assms(1) by (auto simp: acceptable_def admitted_def split: option.splits)
  have v: "validate_req_path e (message_name m) (path (content_header c)) = (True, path (content_header c))"
    "validate_resp_path (message_name m) (path (content_header c)) = (True, path (content_header c))"
    using assms(1) c by (auto simp: acceptable_def path_ok_def intro: valid_path_kept)
  have m: "m\<lparr>message_content := Some c\<rparr> = m" using c by (cases m) simp
  from filter_contains_fresh [of "content_nonce c" "m_nonce_filter h"] assms(2) c obtain f' where
    "filter_contains (content_nonce c) (m_nonce_filter h) = (False, f')"
    "fst ` set (keys (m_lru f')) \<subseteq> insert (content_nonce c) (nonces h)" by (auto simp: message_nonce_def)
  with False c v m show ?thesis
    by (auto simp: deliver_def Let_def shake_hand_def content_set_same_path message_nonce_def)
qed

section \<open>The messages of one read\<close>

definition receiving :: "handler \<Rightarrow> bool" where
  "receiving h \<longleftrightarrow> m_login_success h \<and> protos_ok (fst (m_decoder h)) \<and> wf_queue (snd (m_decoder h))"

lemma decode_front:
  assumes "receiving h" and q: "snd (m_decoder h) = x # xs" and "decodes_to e (msg_bytes x) m"
  obtains ps where "decode (snappy_uncomp e) matrix_codec (set_decode_context e) new_message (m_decoder h) =
      (Inr (DECODERR_SUCCESS, m), (ps, xs))"
    and "receiving (h\<lparr>m_decoder := (ps, xs)\<rparr>)" and "has_complete_message (snd (m_decoder h))"
proof -
  have x: "wf_msg x" "msg_bytes x \<noteq> []" "wf_queue xs"
    using assms(1) q wf_queue_tl [of "x # xs"] by (auto simp: receiving_def wf_queue_def)
  have c: "msg_complete x" using complete_full [OF x(1,2)] assms(3) by (simp add: decodes_to_def)
  obtain ps where d: "m_decoder h = (ps, x # xs)" "protos_ok ps" "m_login_success h"
    using assms(1) q by (cases "m_decoder h") (auto simp: receiving_def)
  have "wf_buf (m_msg_stream x)" using x(1) by (simp add: wf_msg_def)
  with assms(3) d(2) obtain ps' b' where
    fr: "decode_frame (snappy_uncomp e) matrix_codec (set_decode_context e) new_message (ps, m_msg_stream x) =
           (Inr (DECODERR_SUCCESS, m), (ps', b'))" "protos_ok ps'"
    unfolding decodes_to_def msg_bytes_def by blast
  show thesis
  proof
    show "decode (snappy_uncomp e) matrix_codec (set_decode_context e) new_message (m_decoder h) =
        (Inr (DECODERR_SUCCESS, m), (ps', xs))"
      using decode_complete [OF x(1) c x(2), of "snappy_uncomp e" matrix_codec "set_decode_context e" new_message ps xs] fr(1) d(1)
      by simp
    show "receiving (h\<lparr>m_decoder := (ps', xs)\<rparr>)" using fr(2) x(3) d(3) by (simp add: receiving_def)
    show "has_complete_message (snd (m_decoder h))" using c q by (simp add: has_complete_message_def)
  qed
qed

lemma read_step_delivers:
  assumes "receiving h" and q: "snd (m_decoder h) = x # xs" and "decodes_to e (msg_bytes x) m" and "acceptable e m"
    and "message_nonce m = [] \<or> message_nonce m \<notin> nonces h"
  shows "\<exists>h'. read_step kind e h = (Inr None, h') \<and> receiving h' \<and> snd (m_decoder h') = xs \<and>
           published h' = published h @ (if shake_hand m then [] else [m]) \<and>
           nonces h' \<subseteq> insert (message_nonce m) (nonces h)"
proof -
  from decode_front [OF assms(1-3)] obtain ps where
    d: "decode (snappy_uncomp e) matrix_codec (set_decode_context e) new_message (m_decoder h) =
      (Inr (DECODERR_SUCCESS, m), (ps, xs))" "receiving (h\<lparr>m_decoder := (ps, xs)\<rparr>)" by blast
  let ?h1 = "h\<lparr>m_decoder := (ps, xs)\<rparr>"
  from received_accepts [of ?h1 e m kind] d(2) assms(4) [unfolded acceptable_def] obtain h2 where
    2: "on_after_msg_received kind e m ?h1 = (Inr True, h2)" "m_login_success h2" "published h2 = published h"
      "m_nonce_filter h2 = m_nonce_filter h" "m_decoder h2 = (ps, xs)" by (auto simp: receiving_def)
  from deliver_accepts [OF assms(4), of h2] assms(5) 2 obtain h3 where
    3: "deliver e m h2 = (None, h3)" "m_login_success h3" "published h3 = published h @ (if shake_hand m then [] else [m])"
      "nonces h3 \<subseteq> insert (message_nonce m) (nonces h)" "m_decoder h3 = (ps, xs)" by auto
  have "read_step kind e h = (Inr None, h3)" using d(1) 2(1) 3(1) by (simp add: read_step_def Let_def)
  with 3 d(2) show ?thesis by (auto simp: receiving_def)
qed

definition fresh :: "tval message list \<Rightarrow> string set \<Rightarrow> bool" where
  "fresh ms seen \<longleftrightarrow>
     (let ns = filter (\<lambda>n. n \<noteq> []) (map message_nonce ms) in distinct ns \<and> set ns \<inter> seen = {})"

lemma fresh_Cons:
  "fresh (m # ms) seen \<longleftrightarrow>
     (message_nonce m = [] \<or> message_nonce m \<notin> seen) \<and> fresh ms (if message_nonce m = [] then seen else insert (message_nonce m) seen)"
  by (auto simp: fresh_def Let_def)

lemma fresh_mono: "fresh ms seen \<Longrightarrow> seen' \<subseteq> insert [] seen \<Longrightarrow> fresh ms seen'"
  by (auto simp: fresh_def Let_def)

lemma fresh_append: "fresh (ms @ ms') seen \<longleftrightarrow> fresh ms seen \<and> fresh ms' (seen \<union> message_nonce ` set ms)"
  by (auto simp: fresh_def Let_def)

definition to_bus :: "tval message list \<Rightarrow> tval message list" where
  "to_bus ms = filter (\<lambda>m. \<not> shake_hand m) ms"

lemma to_bus_simps [simp]:
  "to_bus [] = []" "to_bus (m # ms) = (if shake_hand m then [] else [m]) @ to_bus ms" "to_bus (xs @ ys) = to_bus xs @ to_bus ys"
  by (simp_all add: to_bus_def)

lemma read_loop_delivers:
  assumes "receiving h" and "map msg_bytes (snd (m_decoder h)) = fs @ (if p = [] then [] else [p])" and "\<not> full_frame p"
    and "list_all2 (decodes_to e) fs ms" and "\<forall>m\<in>set ms. acceptable e m" and "fresh ms (nonces h)"
  shows "\<exists>h'. read_loop kind e h = Some (Inr True, h') \<and> receiving h' \<and>
           map msg_bytes (snd (m_decoder h')) = (if p = [] then [] else [p]) \<and>
           published h' = published h @ to_bus ms \<and> nonces h' \<subseteq> nonces h \<union> message_nonce ` set ms"
  using assms
proof (induction fs arbitrary: h ms)
  case Nil
  have "\<not> has_complete_message (snd (m_decoder h))"
    using Nil.prems(1-3) complete_full
    by (auto simp: has_complete_message_def receiving_def wf_queue_def split: list.splits if_splits)
  then show ?case using Nil.prems by (auto simp: read_loop.simps)
next
  case (Cons f fs)
  obtain x xs where q: "snd (m_decoder h) = x # xs" "msg_bytes x = f" "map msg_bytes xs = fs @ (if p = [] then [] else [p])"
    using Cons.prems(2) by (cases "snd (m_decoder h)") auto
  obtain m ms' where ms: "ms = m # ms'" "decodes_to e f m" "list_all2 (decodes_to e) fs ms'"
    using Cons.prems(4) by (cases ms) auto
  have fr: "message_nonce m = [] \<or> message_nonce m \<notin> nonces h" using Cons.prems(6) ms(1) by (simp add: fresh_Cons)
  have acc: "acceptable e m" using Cons.prems(5) ms(1) by simp
  from read_step_delivers [OF Cons.prems(1) q(1) ms(2) [folded q(2)] acc fr, of kind] obtain h1 where
    1: "read_step kind e h = (Inr None, h1)" "receiving h1" "snd (m_decoder h1) = xs"
      "published h1 = published h @ (if shake_hand m then [] else [m])" "nonces h1 \<subseteq> insert (message_nonce m) (nonces h)" by blast
  have "fresh ms' (nonces h1)"
    using Cons.prems(6) 1(5) unfolding ms(1) fresh_Cons by (auto elim!: fresh_mono split: if_splits)
  moreover have "\<forall>m\<in>set ms'. acceptable e m" using Cons.prems(5) ms(1) by simp
  moreover have "map msg_bytes (snd (m_decoder h1)) = fs @ (if p = [] then [] else [p])" using 1(3) q(3) by simp
  ultimately obtain h' where
    l: "read_loop kind e h1 = Some (Inr True, h')" "receiving h'" "map msg_bytes (snd (m_decoder h')) = (if p = [] then [] else [p])"
      "published h' = published h1 @ to_bus ms'" "nonces h' \<subseteq> nonces h1 \<union> message_nonce ` set ms'"
    using Cons.IH [OF 1(2) _ Cons.prems(3) ms(3)] by blast
  have "has_complete_message (snd (m_decoder h))"
    by (rule decode_front [OF Cons.prems(1) q(1) ms(2) [folded q(2)]])
  then have "read_loop kind e h = read_loop kind e h1" using 1(1) by (subst read_loop.simps) simp
  then show ?case using l 1(4,5) ms(1) by auto
qed

section \<open>The packets of a message\<close>

text \<open>The message as it arrives: the strings that were not set are empty, the members that were written are set.\<close>

definition received :: "tval message \<Rightarrow> tval message" where
  "received m =
     (case message_content m of
        Some (Msg_body ty h body) \<Rightarrow>
          (case message_class ty of
             Some t \<Rightarrow> m\<lparr>message_content := Some (Msg_body ty (norm_header h) (norm_value t body))\<rparr>
           | None \<Rightarrow> m)
      | _ \<Rightarrow> m)"

text \<open>
  A message for the node with environment \<open>e\<close>: its header names it, it is not to be forwarded, the
  node accepts it, snappy restores its payload, and its packets have a length a frame may have.
\<close>

definition deliverable :: "(byte list \<Rightarrow> byte list) \<Rightarrow> handler_env \<Rightarrow> tval message \<Rightarrow> bool" where
  "deliverable sc e m \<longleftrightarrow>
     sendable sc m \<and> acceptable e (received m) \<and>
     (\<exists>h body t. m = \<lparr>message_name = msg_name h, message_content = Some (Msg_body (msg_name h) h body)\<rparr> \<and>
        message_class (msg_name h) = Some t \<and> \<not> forward_condition (set_decode_context e) (norm_header h) \<and>
        (\<forall>kind vm. snappy_uncomp e (sc (payload kind h t body)) = Some (payload kind h t body) \<and>
           30 \<le> length (on_wire sc vm (payload kind h t body)) \<and> length (on_wire sc vm (payload kind h t body)) \<le> 4194304))"

lemma enc_message_ne: "enc_message kind h bs \<noteq> []"
  by (cases kind) (simp_all add: enc_message_def)

lemma frame_decodes:
  assumes "message_class (msg_name h) = Some t" and "\<not> forward_condition (set_decode_context e) (norm_header h)"
    and "get_protocol (get_thrift_proto vm) = Some kind" and "header_ok_for kind h" and "fits (kind_map_ok kind) t body"
    and "snappy_uncomp e (sc (payload kind h t body)) = Some (payload kind h t body)"
    and "8 + length (sc (payload kind h t body)) < 10485760" and "8 + length (payload kind h t body) < 10485760"
    and "30 \<le> length (on_wire sc vm (payload kind h t body))" and "length (on_wire sc vm (payload kind h t body)) \<le> 4194304"
  shows "decodes_to e (on_wire sc vm (payload kind h t body))
           \<lparr>message_name = msg_name h, message_content = Some (Msg_body (msg_name h) (norm_header h) (norm_value t body))\<rparr>"
proof -
  have ty: "msg_name h \<in> set encode_invokers" using assms(1) class_of_registered [of "msg_name h"] by (simp add: invokers_same)
  have "\<exists>ps' b'. decode_frame (snappy_uncomp e) matrix_codec (set_decode_context e) new_message (ps, b) =
           (Inr (DECODERR_SUCCESS, \<lparr>message_name = msg_name h,
              message_content = Some (Msg_body (msg_name h) (norm_header h) (norm_value t body))\<rparr>), (ps', b')) \<and> protos_ok ps'"
    if "protos_ok ps" "wf_buf b" "content b = on_wire sc vm (payload kind h t body)" for ps b
    using decode_frame_ok [where sc = sc and su = "snappy_uncomp e", OF that(1) _ assms(4,2) ty
        matrix_codec_transfer(2) [OF assms(1,5)] that(2) that(3) [unfolded payload_def] enc_message_ne
        assms(8,7,6) [unfolded payload_def]] assms(3) by (simp add: get_protocol_type)
  moreover have "full_frame (on_wire sc vm (payload kind h t body))" by (rule on_wire_frame_len(1) [OF assms(9,10)])
  ultimately show ?thesis unfolding decodes_to_def by blast
qed

lemma packet_decodes:
  assumes "deliverable sc e m" and "packet_of sc m f"
  shows "decodes_to e f (received m)"
proof -
  from assms(1) obtain h body t where m: "m = \<lparr>message_name = msg_name h, message_content = Some (Msg_body (msg_name h) h body)\<rparr>"
    and c: "message_class (msg_name h) = Some t" "\<not> forward_condition (set_decode_context e) (norm_header h)"
    and p: "\<And>kind. snappy_uncomp e (sc (payload kind h t body)) = Some (payload kind h t body)"
      "\<And>kind vm. 30 \<le> length (on_wire sc vm (payload kind h t body))"
      "\<And>kind vm. length (on_wire sc vm (payload kind h t body)) \<le> 4194304" unfolding deliverable_def by blast
  have s: "header_ok_for kind h" "fits (kind_map_ok kind) t body" "8 + length (payload kind h t body) < 10485759"
    "8 + length (sc (payload kind h t body)) < 10485760" for kind
    using assms(1) c(1) by (auto simp: deliverable_def sendable_def m)
  have s': "8 + length (payload kind h t body) < 10485760" for kind using s(3) [of kind] by simp
  from assms(2) obtain kind vm where f: "get_protocol (get_thrift_proto vm) = Some kind" "f = on_wire sc vm (payload kind h t body)"
    using c(1) by (auto simp: packet_of_def m)
  have "received m = \<lparr>message_name = msg_name h, message_content = Some (Msg_body (msg_name h) (norm_header h) (norm_value t body))\<rparr>"
    by (simp add: received_def m c(1))
  then show ?thesis
    using frame_decodes [where sc = sc, OF c f(1) s(1,2) p(1) s(4) s' p(2,3)] by (simp add: f(2))
qed

section \<open>Reading from the socket\<close>

text \<open>The receive buffer when a read is outstanding: empty, with all its room at the write pointer.\<close>

definition recv_ready :: "byte_buf \<Rightarrow> bool" where
  "recv_ready b \<longleftrightarrow> wf_buf b \<and> m_read_ptr b = 0 \<and> m_write_ptr b = 0 \<and> m_len b = DEFAULT_BUF_LEN"

lemma new_buf_ready: "recv_ready (new_buf DEFAULT_BUF_LEN True)"
  using new_buf_default_wf [of True] by (simp add: recv_ready_def) (simp add: new_buf_def)

lemma read_only_moves:
  "read_from_byte_buf n b = (r, b') \<Longrightarrow> m_len b' = m_len b"
  "move_read_ptr k b = (r', b') \<Longrightarrow> m_len b' = m_len b"
  by (auto simp: read_from_byte_buf_def move_read_ptr_def reset_def Let_def split: if_splits)

lemma recv_step_len: "recv_step (ms, b) = (r, (ms', b')) \<Longrightarrow> m_len b' = m_len b"
  by (auto simp: recv_step_def read_packet_len_def read_packet_body_def Let_def dest: read_only_moves
      split: if_splits prod.splits sum.splits)

lemma recv_loop_len: "recv_loop n (ms, b) = (r, (ms', b')) \<Longrightarrow> m_len b' = m_len b"
proof (induction n arbitrary: ms b)
  case (Suc n)
  show ?case
  proof (cases "get_valid_read_len b = 0")
    case False
    obtain x ms1 b1 where st: "recv_step (ms, b) = (x, (ms1, b1))" by (metis prod.exhaust)
    have "m_len b' = m_len b1"
      using Suc.prems Suc.IH [of ms1 b1] st False
      by (auto simp: mbind_run mret_run split: sum.splits option.splits)
    with recv_step_len [OF st] show ?thesis by simp
  qed (use Suc.prems in simp)
qed (auto split: if_splits)

lemma on_read_len: "handler_on_read kind e (h, b) = (r, (h', b')) \<Longrightarrow> m_len b' = m_len b"
  by (auto simp: handler_on_read_def recv_message_def Let_def dest: recv_loop_len
      split: if_splits prod.splits sum.splits option.splits)

text \<open>What the handler does with the bytes of one completed read.\<close>

definition in_progress :: "handler \<Rightarrow> byte list" where
  "in_progress h = concat (map msg_bytes (snd (m_decoder h)))"

lemma on_read_delivers:
  assumes "receiving h" "wf_buf b" "content b \<noteq> []"
    and "in_progress h @ content b @ rest = concat fs"
    and "list_all2 (decodes_to e) fs ms" "\<forall>m\<in>set ms. acceptable e m" "fresh ms (nonces h)"
  shows "\<exists>h' b' fs1 fs2 ms1 ms2. handler_on_read kind e (h, b) = (Inr True, (h', b')) \<and> receiving h' \<and>
           wf_buf b' \<and> content b' = [] \<and> fs = fs1 @ fs2 \<and> ms = ms1 @ ms2 \<and> list_all2 (decodes_to e) fs2 ms2 \<and>
           in_progress h' @ rest = concat fs2 \<and> (rest = [] \<longrightarrow> ms2 = []) \<and>
           published h' = published h @ to_bus ms1 \<and> fresh ms2 (nonces h')"
proof -
  have q: "wf_queue (snd (m_decoder h))" using assms(1) by (simp add: receiving_def)
  have full: "\<forall>f\<in>set fs. full_frame f"
    using assms(5) by (auto simp: list_all2_conv_all_nth in_set_conv_nth decodes_to_def)
  from assms(4) have "(in_progress h @ content b) @ rest = concat fs" by simp
  from split_partial_stream [OF full this] obtain gs gs' p where
    g: "fs = gs @ gs'" "p @ rest = concat gs'" "split_frames (in_progress h @ content b) = Some (gs @ (if p = [] then [] else [p]))"
      "\<not> full_frame p" "rest = [] \<longrightarrow> gs' = []" by blast
  obtain ms1 ms2 where ms: "ms = ms1 @ ms2" "list_all2 (decodes_to e) gs ms1" "list_all2 (decodes_to e) gs' ms2"
    using assms(5) unfolding g(1) list_all2_append1 by blast
  have nz: "get_valid_read_len b \<noteq> 0" using unat_valid_read_len [OF assms(2)] assms(3) by auto
  from recv_loop_ok [OF q assms(2), of "unat (get_valid_read_len b)", folded in_progress_def, unfolded g(3)]
  obtain qs b' where
    r: "recv_message (snd (m_decoder h), b) = (Inr DECODERR_SUCCESS, (qs, b'))" "wf_queue qs"
      "map msg_bytes qs = gs @ (if p = [] then [] else [p])" "wf_buf b'" "content b' = []"
    using unat_valid_read_len [OF assms(2)] by (auto simp: recv_message_def)
  let ?h1 = "h\<lparr>m_decoder := (fst (m_decoder h), qs)\<rparr>"
  have h1: "receiving ?h1" using assms(1) r(2) by (simp add: receiving_def)
  have acc: "\<forall>m\<in>set ms1. acceptable e m" and fr: "fresh ms1 (nonces ?h1)"
    using assms(6,7) ms(1) by (simp_all add: fresh_append)
  have q1: "map msg_bytes (snd (m_decoder ?h1)) = gs @ (if p = [] then [] else [p])" using r(3) by simp
  from read_loop_delivers [OF h1 q1 g(4) ms(2) acc fr, of kind] obtain h' where
    l: "read_loop kind e ?h1 = Some (Inr True, h')" "receiving h'" "map msg_bytes (snd (m_decoder h')) = (if p = [] then [] else [p])"
      "published h' = published h @ to_bus ms1" "nonces h' \<subseteq> nonces h \<union> message_nonce ` set ms1" by auto
  have "handler_on_read kind e (h, b) = (Inr True, (h', b'))"
    using nz r(1) l(1) by (simp add: handler_on_read_def Let_def)
  moreover have "in_progress h' = p" using l(3) by (auto simp: in_progress_def)
  moreover have "rest = [] \<longrightarrow> ms2 = []" using g(5) ms(3) by auto
  moreover have "fresh ms2 (nonces h')"
    using assms(7) l(5) fresh_mono [of ms2 "nonces h \<union> message_nonce ` set ms1" "nonces h'"] unfolding ms(1) fresh_append by blast
  ultimately show ?thesis using l(2,4) r(4,5) g(1,2) ms by blast
qed

text \<open>The completion of a read by the channel, and a sequence of them.\<close>

definition open_for_reading :: "(tval message, handler) tcp_channel \<Rightarrow> bool" where
  "open_for_reading ch \<longleftrightarrow> m_state ch \<noteq> CHANNEL_STOPPED \<and> recv_ready (m_recv_buf ch) \<and> receiving (m_socket_handler ch)"

lemma async_read_ready:
  assumes "m_state ch \<noteq> CHANNEL_STOPPED" "wf_buf (m_recv_buf ch)" "content (m_recv_buf ch) = []"
    "m_len (m_recv_buf ch) = DEFAULT_BUF_LEN"
  shows "\<exists>b. async_read ch = (Inr (), ch\<lparr>m_recv_buf := b, reading := True\<rparr>) \<and> recv_ready b"
proof -
  let ?b = "m_recv_buf ch"
  have "m_read_ptr ?b = m_write_ptr ?b" using assms(2) length_content [OF assms(2)] assms(3) by (simp add: wf_buf_unat)
  then have m: "move_buf ?b = (Inr (), ?b\<lparr>m_read_ptr := 0, m_write_ptr := 0, m_read_bound := 0\<rparr>)"
    using assms(2) by (cases ?b) (auto simp: move_buf_def reset_def wf_buf_unat)
  have rd: "recv_ready (?b\<lparr>m_read_ptr := 0, m_write_ptr := 0, m_read_bound := 0\<rparr>)"
    using assms(2,4) by (auto simp: recv_ready_def wf_buf_unat)
  then have "get_valid_write_len (?b\<lparr>m_read_ptr := 0, m_write_ptr := 0, m_read_bound := 0\<rparr>) \<noteq> 0"
    using unat_valid_write_len [of "?b\<lparr>m_read_ptr := 0, m_write_ptr := 0, m_read_bound := 0\<rparr>"]
    by (auto simp: recv_ready_def wf_buf_unat DEFAULT_BUF_LEN_def)
  with m rd assms(1) show ?thesis by (auto simp: async_read_def)
qed

lemma received_bytes_ready:
  assumes "recv_ready b" "x \<noteq> []" "length x \<le> 10240"
  shows "\<exists>b'. move_write_ptr (of_nat (length x)) (received_bytes x b) = (Inr (), b') \<and> wf_buf b' \<and> content b' = x \<and>
           m_len b' = DEFAULT_BUF_LEN"
proof -
  let ?b = "received_bytes x b"
  have b: "wf_buf b" "m_read_ptr b = 0" "m_write_ptr b = 0" "length (m_buf b) = 10240" "m_write_bound b = 10240"
    "m_len b = DEFAULT_BUF_LEN"
    using assms(1) by (auto simp: recv_ready_def wf_buf_unat DEFAULT_BUF_LEN_def)
  have wf: "wf_buf ?b" using b assms(3) by (auto simp: received_bytes_def wf_buf_unat memcpy_to_def)
  have n: "unat (of_nat (length x) :: u32) = length x" using assms(3) by (simp add: unat_of_nat32)
  from move_write_ptr_ok [OF wf, of "of_nat (length x)"] b n assms(2,3) obtain b' where
    b': "move_write_ptr (of_nat (length x)) ?b = (Inr (), b')" "wf_buf b'"
      "content b' = content ?b @ take (length x) (drop (m_write_ptr ?b) (m_buf ?b))"
    by (auto simp: received_bytes_def)
  have "content ?b = []" using b(1-3) by (simp add: received_bytes_def content_def wf_buf_unat)
  moreover have "m_len b' = m_len b"
    using b'(1) by (auto simp: move_write_ptr_def received_bytes_def Let_def split: if_splits)
  ultimately show ?thesis using b' b(3,6) by (auto simp: received_bytes_def memcpy_to_def)
qed

lemma channel_read_delivers:
  assumes ch: "open_for_reading ch" and x: "x \<noteq> []" "length x \<le> 10240"
    and "in_progress (m_socket_handler ch) @ x @ rest = concat fs"
    and "list_all2 (decodes_to e) fs ms" "\<forall>m\<in>set ms. acceptable e m" "fresh ms (nonces (m_socket_handler ch))"
  shows "\<exists>ch' fs2 ms1 ms2. on_read (handler_on_read kind e) No_error x ch = (Inr (), ch') \<and> open_for_reading ch' \<and>
           reading ch' \<and> errors ch' = errors ch \<and> ms = ms1 @ ms2 \<and> list_all2 (decodes_to e) fs2 ms2 \<and>
           in_progress (m_socket_handler ch') @ rest = concat fs2 \<and> (rest = [] \<longrightarrow> ms2 = []) \<and>
           published (m_socket_handler ch') = published (m_socket_handler ch) @ to_bus ms1 \<and>
           fresh ms2 (nonces (m_socket_handler ch'))"
proof -
  let ?h = "m_socket_handler ch"
  from ch have o: "m_state ch \<noteq> CHANNEL_STOPPED" "recv_ready (m_recv_buf ch)" "receiving ?h"
    by (simp_all add: open_for_reading_def)
  from received_bytes_ready [OF o(2) x] obtain b1 where
    1: "move_write_ptr (of_nat (length x)) (received_bytes x (m_recv_buf ch)) = (Inr (), b1)" "wf_buf b1" "content b1 = x"
      "m_len b1 = DEFAULT_BUF_LEN" by blast
  from on_read_delivers [OF o(3) 1(2), of rest fs e ms kind] assms(4-7) 1(3) x(1) obtain h2 b2 fs1 fs2 ms1 ms2 where
    2: "handler_on_read kind e (?h, b1) = (Inr True, (h2, b2))" "receiving h2" "wf_buf b2" "content b2 = []"
      "ms = ms1 @ ms2" "list_all2 (decodes_to e) fs2 ms2" "in_progress h2 @ rest = concat fs2" "rest = [] \<longrightarrow> ms2 = []"
      "published h2 = published ?h @ to_bus ms1" "fresh ms2 (nonces h2)" by auto
  let ?c = "ch\<lparr>reading := False, m_socket_handler := h2, m_recv_buf := b2\<rparr>"
  have "m_len (m_recv_buf ?c) = DEFAULT_BUF_LEN" using on_read_len [OF 2(1)] 1(4) by simp
  from async_read_ready [OF _ _ _ this] o(1) 2(3,4) obtain b3 where
    3: "async_read ?c = (Inr (), ?c\<lparr>m_recv_buf := b3, reading := True\<rparr>)" "recv_ready b3" by auto
  have "on_read (handler_on_read kind e) No_error x ch = (Inr (), ?c\<lparr>m_recv_buf := b3, reading := True\<rparr>)"
    using o(1) x(1) 1(1) 2(1) 3(1)
    by (simp add: on_read_def Let_def catch_error_def mbind_run mlift_def)
  moreover have "open_for_reading (?c\<lparr>m_recv_buf := b3, reading := True\<rparr>)"
    using o(1) 2(2) 3(2) by (simp add: open_for_reading_def)
  ultimately show ?thesis using 2(5-10) by fastforce
qed

fun channel_reads :: "handler_kind \<Rightarrow> handler_env \<Rightarrow> byte list list \<Rightarrow> ((tval message, handler) tcp_channel, unit) M" where
  "channel_reads kind e [] = mret ()"
| "channel_reads kind e (x # xs) = mbind (on_read (handler_on_read kind e) No_error x) (\<lambda>_. channel_reads kind e xs)"

lemma channel_reads_deliver:
  assumes "open_for_reading ch" and "\<forall>x\<in>set xs. x \<noteq> [] \<and> length x \<le> 10240"
    and "in_progress (m_socket_handler ch) @ concat xs @ rest = concat fs"
    and "list_all2 (decodes_to e) fs ms" "\<forall>m\<in>set ms. acceptable e m" "fresh ms (nonces (m_socket_handler ch))"
    and "in_progress (m_socket_handler ch) = [] \<or> xs \<noteq> []"
  shows "\<exists>ch' ms1 ms2. channel_reads kind e xs ch = (Inr (), ch') \<and> open_for_reading ch' \<and>
           (xs \<noteq> [] \<longrightarrow> reading ch') \<and> errors ch' = errors ch \<and> ms = ms1 @ ms2 \<and> (rest = [] \<longrightarrow> ms2 = []) \<and>
           published (m_socket_handler ch') = published (m_socket_handler ch) @ to_bus ms1"
  using assms
proof (induction xs arbitrary: ch fs ms)
  case Nil
  have "ms = []" if "rest = []"
    using Nil.prems(3,4,7) that by (cases fs; cases ms) (auto simp: decodes_to_def full_frame_def)
  then show ?case using Nil.prems(1)
    by (intro exI [of _ ch] exI [of _ "[]"] exI [of _ ms]) (simp add: mret_run)
next
  case (Cons x xs)
  have x: "x \<noteq> []" "length x \<le> 10240" using Cons.prems(2) by auto
  have "in_progress (m_socket_handler ch) @ x @ (concat xs @ rest) = concat fs" using Cons.prems(3) by simp
  from channel_read_delivers [OF Cons.prems(1) x this Cons.prems(4-6), of kind] obtain c1 fs2 ms1 ms2 where
    1: "on_read (handler_on_read kind e) No_error x ch = (Inr (), c1)" "open_for_reading c1" "reading c1" "errors c1 = errors ch"
      "ms = ms1 @ ms2" "list_all2 (decodes_to e) fs2 ms2" "in_progress (m_socket_handler c1) @ concat xs @ rest = concat fs2"
      "concat xs @ rest = [] \<longrightarrow> ms2 = []" "published (m_socket_handler c1) = published (m_socket_handler ch) @ to_bus ms1"
      "fresh ms2 (nonces (m_socket_handler c1))" by blast
  show ?case
  proof (cases "xs = []")
    case True
    then show ?thesis using 1
      by (intro exI [of _ c1] exI [of _ ms1] exI [of _ ms2]) (simp add: mbind_run mret_run)
  next
    case False
    have p: "\<forall>x\<in>set xs. x \<noteq> [] \<and> length x \<le> 10240" "\<forall>m\<in>set ms2. acceptable e m"
      using Cons.prems(2,5) 1(5) by auto
    from Cons.IH [OF 1(2) p(1) 1(7,6) p(2) 1(10)] False obtain c2 ms3 ms4 where
      2: "channel_reads kind e xs c1 = (Inr (), c2)" "open_for_reading c2" "reading c2" "errors c2 = errors c1"
        "ms2 = ms3 @ ms4" "rest = [] \<longrightarrow> ms4 = []" "published (m_socket_handler c2) = published (m_socket_handler c1) @ to_bus ms3"
      by auto
    then show ?thesis using 1
      by (intro exI [of _ c2] exI [of _ "ms1 @ ms3"] exI [of _ ms4]) (simp add: mbind_run)
  qed
qed

section \<open>Properties\<close>

text \<open>(C1) From node to node: whatever the threads and the socket of the sender do, and however TCP cuts
  the bytes into reads, a receiver that is logged in reads without error and puts on its bus a
  prefix of the messages the sender's channel accepted, in that order, each once (shake-hands are
  consumed); when the sender has become idle and everything it sent has arrived, all of them.\<close>

theorem messages_delivered_in_order:
  assumes "send_reach write_in (sent_in skind) encoder_same (h, e) s" and "protos_ok (m_coder h)"
    and "\<forall>m\<in>set (accepted s). deliverable (snappy_comp e) e' m"
    and "open_for_reading ch" and "snd (m_decoder (m_socket_handler ch)) = []"
    and "fresh (map received (accepted s)) (nonces (m_socket_handler ch))"
    and "\<forall>x\<in>set xs. x \<noteq> [] \<and> length x \<le> 10240" and "prefix (concat xs) (wire (chan s))"
  shows "\<exists>ch' n. channel_reads kind e' xs ch = (Inr (), ch') \<and> errors ch' = errors ch \<and> (xs \<noteq> [] \<longrightarrow> reading ch') \<and>
           published (m_socket_handler ch') =
             published (m_socket_handler ch) @ to_bus (map received (take n (accepted s))) \<and>
           (m_state (chan s) \<noteq> CHANNEL_STOPPED \<and> errors (chan s) = 0 \<and> starting s = None \<and> \<not> writing (chan s) \<and>
            concat xs = wire (chan s) \<longrightarrow> n = length (accepted s))"
proof -
  let ?k = "length (frames s)" and ?h = "m_socket_handler ch"
  let ?ms = "map received (take ?k (accepted s))"
  have inv: "encoder_inv (snappy_comp e) (h, e)" using assms(2) by (simp add: encoder_inv_def)
  have snd: "\<forall>m\<in>set (accepted s). sendable (snappy_comp e) m" using assms(3) by (simp add: deliverable_def)
  note sn = sender.sends_in_order [OF assms(1) inv snd]
  have pk: "list_all2 (packet_of (snappy_comp e)) (take ?k (accepted s)) (frames s)" by (rule sn(1))
  have dec: "list_all2 (decodes_to e') (frames s) ?ms"
    unfolding list_all2_conv_all_nth
  proof (intro conjI allI impI)
    show len: "length (frames s) = length ?ms" using list_all2_lengthD [OF pk] by simp
    fix i
    assume i: "i < length (frames s)"
    have "take ?k (accepted s) ! i \<in> set (accepted s)"
      using i len by (intro in_set_takeD [OF nth_mem]) simp
    with assms(3) have "decodes_to e' (frames s ! i) (received (take ?k (accepted s) ! i))"
      using list_all2_nthD2 [OF pk i] by (intro packet_decodes) auto
    then show "decodes_to e' (frames s ! i) (?ms ! i)" using i len by simp
  qed
  have acc: "\<forall>m\<in>set ?ms. acceptable e' m"
    using assms(3) set_take_subset [of ?k "accepted s"] by (auto simp: deliverable_def)
  have "map received (accepted s) = ?ms @ map received (drop ?k (accepted s))"
    by (simp flip: map_append)
  then have fr: "fresh ?ms (nonces ?h)" using assms(6) by (simp add: fresh_append)
  obtain r0 where r0: "wire (chan s) = concat xs @ r0" using assms(8) by (rule prefixE)
  obtain r1 where r1: "concat (frames s) = wire (chan s) @ r1" using sn(2) by (rule prefixE)
  have ip: "in_progress ?h = []" using assms(5) by (simp add: in_progress_def)
  then have "in_progress ?h @ concat xs @ (r0 @ r1) = concat (frames s)" using r0 r1 by simp
  from channel_reads_deliver [OF assms(4,7) this dec acc fr, of kind] ip obtain ch' ms1 ms2 where
    c: "channel_reads kind e' xs ch = (Inr (), ch')" "xs \<noteq> [] \<longrightarrow> reading ch'" "errors ch' = errors ch" "?ms = ms1 @ ms2"
      "r0 @ r1 = [] \<longrightarrow> ms2 = []" "published (m_socket_handler ch') = published ?h @ to_bus ms1" by blast
  have n: "ms1 = map received (take (length ms1) (accepted s))"
  proof -
    have "ms1 = take (length ms1) ?ms" using c(4) by simp
    moreover have "length ms1 \<le> ?k" using arg_cong [OF c(4), of length] by simp
    ultimately show ?thesis by (simp add: take_map min_def)
  qed
  have "length ms1 = length (accepted s)"
    if "m_state (chan s) \<noteq> CHANNEL_STOPPED" "errors (chan s) = 0" "starting s = None" "\<not> writing (chan s)"
      "concat xs = wire (chan s)"
    using sn(3) [OF that(1-4)] that(5) r0 r1 c(4,5) by (metis append_Nil2 append_self_conv length_map order_refl take_all)
  with c n show ?thesis by (intro exI [of _ ch'] exI [of _ "length ms1"]) auto
qed

text \<open>One request from a sender that becomes idle to a node that is logged in.\<close>

definition sample_receiver :: "(tval message, handler) tcp_channel" where
  "sample_receiver = new_channel (sample_handler\<lparr>m_login_success := True\<rparr>)"

lemma sample_receiver_ready:
  "open_for_reading sample_receiver" "snd (m_decoder (m_socket_handler sample_receiver)) = []"
  "fresh [received request_message] (nonces (m_socket_handler sample_receiver))"
  by (simp_all add: sample_receiver_def open_for_reading_def receiving_def new_buf_ready new_channel_def sample_handler_def
      new_handler_def wf_queue_def fresh_def Let_def new_filter_def new_lru_def)

lemma request_received:
  "received request_message = request_message\<lparr>message_content := Some (Msg_body ''get_peer_nodes_req'' (norm_header request_header) sample_request)\<rparr>"
  using request_class sample_request_ok(2) by (simp add: received_def request_message_def)

lemma request_on_wire:
  "30 \<le> length (on_wire (Cons 1) vm (payload kind request_header get_peer_nodes_req sample_request))"
  "length (on_wire (Cons 1) vm (payload kind request_header get_peer_nodes_req sample_request)) < 130"
  using request_length [of kind] by (simp_all add: on_wire_def payload_def compressed_def Let_def be_bytes_def packet_def)

lemma request_deliverable: "deliverable (Cons 1) sample_env request_message"
  unfolding deliverable_def
proof (intro conjI exI allI)
  show "sendable (Cons 1) request_message" by (rule request_sendable)
  show "acceptable sample_env (received request_message)"
    unfolding request_received
    by (simp add: acceptable_def admitted_def path_ok_def request_message_def message_ids sample_env_def content_header_def
        norm_header_def request_header_def empty_header_def validate_req_path_def validate_resp_path_def)
  show "request_message = \<lparr>message_name = msg_name request_header,
      message_content = Some (Msg_body (msg_name request_header) request_header sample_request)\<rparr>"
    by (simp add: request_message_def request_header_def)
  show "message_class (msg_name request_header) = Some get_peer_nodes_req"
    using request_class by (simp add: request_header_def)
  show "\<not> forward_condition (set_decode_context sample_env) (norm_header request_header)"
    by (simp add: forward_condition_def legacy_none_forwarding_messages_def norm_header_def request_header_def)
  fix kind vm
  show "snappy_uncomp sample_env (1 # payload kind request_header get_peer_nodes_req sample_request) =
      Some (payload kind request_header get_peer_nodes_req sample_request)"
    using request_length(2) [of kind] by (simp add: sample_env_def payload_def)
  show "30 \<le> length (on_wire (Cons 1) vm (payload kind request_header get_peer_nodes_req sample_request))"
    "length (on_wire (Cons 1) vm (payload kind request_header get_peer_nodes_req sample_request)) \<le> 4194304"
    using request_on_wire [where vm = vm and kind = kind] by simp_all
qed

lemma request_sent:
  "\<exists>s f. send_reach write_in (sent_in Client) encoder_same (sample_handler, sample_env) s \<and> accepted s = [request_message] \<and>
     wire (chan s) = f \<and> f \<noteq> [] \<and> length f < 130 \<and> m_state (chan s) \<noteq> CHANNEL_STOPPED \<and> errors (chan s) = 0 \<and>
     starting s = None \<and> \<not> writing (chan s)"
proof -
  let ?i = "send_init (sample_handler, sample_env)" and ?m = request_message
  let ?r = "send_reach write_in (sent_in Client) encoder_same (sample_handler, sample_env)"
  let ?s1 = "?i\<lparr>chan := snd (write_push ?m (chan ?i)), accepted := [?m], starting := Some ?m\<rparr>"
  let ?b0 = "new_buf DEFAULT_BUF_LEN True"
  have "write_push ?m (chan ?i) = (True, snd (write_push ?m (chan ?i)))"
    by (simp add: write_push_def send_init_def new_channel_def)
  from send_step.push [OF this, of write_in "sent_in Client" encoder_same] have s1: "?r ?s1"
    by (intro send_reach.step [OF send_reach.init]) (simp add: send_init_def)
  have inv: "encoder_inv (Cons 1) (sample_handler, sample_env)"
    by (simp add: encoder_inv_def sample_handler_def new_handler_def sample_env_def)
  from write_in_ok [OF request_sendable inv new_buf_default_wf new_buf_std new_buf_content] obtain h' b' where
    w: "write_in ?m ((sample_handler, sample_env), ?b0) = (Inr True, ((h', sample_env), b'))" "wf_buf b'" "content b' \<noteq> []"
      "packet_of (Cons 1) ?m (content b')" by blast
  have len: "length (content b') < 130"
    using w(4) request_on_wire(2) request_class by (auto simp: packet_of_def request_message_def)
  let ?c2 = "(chan ?s1)\<lparr>m_socket_handler := (h', sample_env), m_send_buf := b', writing := True\<rparr>"
  have "write_first write_in ?m (chan ?s1) = (Inr True, ?c2)"
    using w(1)
    by (simp add: write_first_def catch_error_def mbind_run mmodify_run mret_run run_handler_write_def async_write_def
        send_init_def new_channel_def write_push_def get_valid_read_len_def new_buf_def)
  from send_step.encode [OF _ this] have s2: "?r (?s1\<lparr>chan := ?c2, starting := None, frames := [content b']\<rparr>)"
    by (intro send_reach.step [OF s1]) (simp add: send_init_def)
  let ?s2 = "?s1\<lparr>chan := ?c2, starting := None, frames := [content b']\<rparr>"
  have n: "unat (get_valid_read_len b') = length (content b')" by (rule unat_valid_read_len [OF w(2)])
  obtain c3 where c3: "on_write write_in (sent_in Client) No_error (length (content b')) ?c2 = (Inr (), c3)"
    "wire c3 = content b'" "m_state c3 \<noteq> CHANNEL_STOPPED" "errors c3 = 0" "\<not> writing c3"
    using n w(3) by (simp add: on_write_def catch_error_def mbind_run mmodify_run Let_def send_init_def new_channel_def write_push_def)
  from send_step.complete [of ?s2 "length (content b')" No_error write_in "sent_in Client" c3 encoder_same] c3(1)
  obtain s3 where "send_step write_in (sent_in Client) encoder_same ?s2 s3" "accepted s3 = [?m]" "chan s3 = c3" "starting s3 = None"
    by auto
  with send_reach.step [OF s2] c3 w(3) len show ?thesis by blast
qed

theorem messages_delivered_in_order_witness:
  "\<exists>x ch'. x \<noteq> [] \<and> channel_reads Server sample_env [x] sample_receiver = (Inr (), ch') \<and> errors ch' = 0 \<and> reading ch' \<and>
     published (m_socket_handler ch') = [received request_message]"
proof -
  obtain s f where s: "send_reach write_in (sent_in Client) encoder_same (sample_handler, sample_env) s" "accepted s = [request_message]"
    "wire (chan s) = f" "f \<noteq> []" "length f < 130" "m_state (chan s) \<noteq> CHANNEL_STOPPED" "errors (chan s) = 0"
    "starting s = None" "\<not> writing (chan s)" using request_sent by blast
  have "protos_ok (m_coder sample_handler)" "snappy_comp sample_env = Cons 1"
    by (simp_all add: sample_handler_def new_handler_def sample_env_def)
  with messages_delivered_in_order [of Client sample_handler sample_env s sample_env sample_receiver "[f]" Server] s
    request_deliverable sample_receiver_ready
  obtain ch' where "channel_reads Server sample_env [f] sample_receiver = (Inr (), ch')" "errors ch' = errors sample_receiver"
    "reading ch'" "published (m_socket_handler ch') = published (m_socket_handler sample_receiver) @ to_bus [received request_message]"
    by (auto simp del: channel_reads.simps)
  moreover have "to_bus [received request_message] = [received request_message]"
    unfolding request_received by (simp add: shake_hand_def request_message_def message_ids)
  ultimately show ?thesis using s(4)
    by (intro exI [of _ f] exI [of _ ch']) (simp add: sample_receiver_def new_channel_def sample_handler_def new_handler_def)
qed

text \<open>A message with a bad routing path stalls the messages behind it: when the path check fails
  \<open>on_read\<close> returns success at once, so the messages that arrived with it stay in the decoder, complete and
  not delivered, although the receive buffer is empty; only another read will look at them.\<close>

theorem bad_path_stalls_queue:
  assumes "receiving h" and "snd (m_decoder h) = []" and "wf_buf b" and "content b = f @ concat fs"
    and "decodes_to e f m" and "admitted e m" and "\<not> shake_hand m" and "\<not> path_ok e m"
    and "\<forall>g\<in>set fs. full_frame g"
  shows "\<exists>h' b'. handler_on_read kind e (h, b) = (Inr True, (h', b')) \<and> content b' = [] \<and>
           map msg_bytes (snd (m_decoder h')) = fs \<and> published h' = published h"
proof -
  have f: "full_frame f" using assms(5) by (simp add: decodes_to_def)
  have sp: "split_frames (content b) = Some (f # fs)"
    using split_fulls [of "f # fs" "[]"] assms(4,9) f by (simp add: split_frames.simps [of "[]"])
  have nz: "get_valid_read_len b \<noteq> 0"
    using unat_valid_read_len [OF assms(3)] full_frame_ne [OF f] assms(4) by auto
  have "wf_queue []" by (simp add: wf_queue_def)
  from recv_loop_ok [OF this assms(3), of "unat (get_valid_read_len b)"] sp obtain qs b' where
    r: "recv_message ([], b) = (Inr DECODERR_SUCCESS, (qs, b'))" "wf_queue qs" "map msg_bytes qs = f # fs" "content b' = []"
    using unat_valid_read_len [OF assms(3)] by (auto simp: recv_message_def)
  then obtain x xs where q: "qs = x # xs" "msg_bytes x = f" "map msg_bytes xs = fs" by auto
  let ?h1 = "h\<lparr>m_decoder := (fst (m_decoder h), qs)\<rparr>"
  have h1: "receiving ?h1" using assms(1) r(2) by (simp add: receiving_def)
  from decode_front [OF h1, of x xs e m] q(1,2) assms(5) obtain ps where
    d: "decode (snappy_uncomp e) matrix_codec (set_decode_context e) new_message (m_decoder ?h1) =
      (Inr (DECODERR_SUCCESS, m), (ps, xs))" "receiving (?h1\<lparr>m_decoder := (ps, xs)\<rparr>)"
      "has_complete_message (snd (m_decoder ?h1))" by auto
  from received_accepts [of "?h1\<lparr>m_decoder := (ps, xs)\<rparr>" e m kind] d(2) assms(6) obtain h2 where
    2: "on_after_msg_received kind e m (?h1\<lparr>m_decoder := (ps, xs)\<rparr>) = (Inr True, h2)"
      "published h2 = published h" "m_decoder h2 = (ps, xs)" by (auto simp: receiving_def)
  obtain c where c: "message_content m = Some c" using assms(6) by (auto simp: admitted_def split: option.splits)
  have "deliver e m h2 = (Some True, h2)"
  proof (cases "fst (validate_req_path e (message_name m) (path (content_header c)))")
    case True
    then show ?thesis using valid_path_kept(1) [OF True] assms(7,8) c
      by (auto simp: deliver_def path_ok_def shake_hand_def split: prod.splits)
  qed (use assms(7) c in \<open>auto simp: deliver_def shake_hand_def split: prod.splits\<close>)
  then have "read_step kind e ?h1 = (Inr (Some True), h2)" using d(1) 2(1) by (simp add: read_step_def Let_def)
  then have "read_loop kind e ?h1 = Some (Inr True, h2)" using d(3) by (simp add: read_loop.simps)
  with r nz assms(2) have "handler_on_read kind e (h, b) = (Inr True, (h2, b'))"
    by (simp add: handler_on_read_def Let_def)
  with r(4) 2 q(3) show ?thesis by auto
qed

text \<open>A request for the list of tasks that has lost its path, and the request of before behind it.\<close>

definition bad_header :: base_header where
  "bad_header = request_header\<lparr>msg_name := ''node_list_task_req''\<rparr>"

definition bad_body :: tval where "bad_body = V_struct [Some (V_struct [Some (V_string [])])]"

definition bad_frame :: "byte list" where
  "bad_frame = on_wire (Cons 1) no_args (payload Binary_proto bad_header node_list_task_req bad_body)"

definition bad_message :: "tval message" where
  "bad_message = \<lparr>message_name = msg_name bad_header,
     message_content = Some (Msg_body (msg_name bad_header) (norm_header bad_header) (norm_value node_list_task_req bad_body))\<rparr>"

definition request_frame :: "byte list" where
  "request_frame = on_wire (Cons 1) no_args (payload Binary_proto request_header get_peer_nodes_req sample_request)"

lemmas bad_defs = bad_header_def bad_body_def request_header_def empty_header_def node_list_task_req_def node_list_task_req_body_def
  member_written_def member_value_def member_spec_def

lemma bad_length:
  "22 < length (payload Binary_proto bad_header node_list_task_req bad_body)"
  "length (payload Binary_proto bad_header node_list_task_req bad_body) < 120"
  by (simp_all add: payload_def enc_message_def enc_body_def bad_defs bin.enc_header_def bin.header_fields_def bin_encString_def
      ttype_of_def member_id_def)

lemma bad_decodes: "decodes_to sample_env bad_frame bad_message"
  unfolding bad_frame_def bad_message_def
proof (rule frame_decodes)
  show "message_class (msg_name bad_header) = Some node_list_task_req"
    by (simp add: message_class_def message_classes_def bad_header_def)
  show "\<not> forward_condition (set_decode_context sample_env) (norm_header bad_header)"
    by (simp add: forward_condition_def norm_header_def bad_header_def request_header_def empty_header_def smap_lookup_def)
  show "header_ok_for Binary_proto bad_header"
    by (simp add: header_ok_for_def bin.header_ok_def bad_header_def request_header_def empty_header_def)
  show "fits (kind_map_ok Binary_proto) node_list_task_req bad_body" by (simp add: bad_defs)
qed (use bad_length in \<open>simp_all add: no_args_def get_thrift_proto_def get_protocol_def sample_env_def on_wire_def
      get_compress_enabled_def Let_def\<close>)

theorem bad_path_stalls_queue_witness:
  "\<exists>h' b'. handler_on_read Server sample_env
       (sample_handler\<lparr>m_login_success := True\<rparr>, copy_in (bad_frame @ request_frame) (new_buf DEFAULT_BUF_LEN True)) =
       (Inr True, (h', b')) \<and> content b' = [] \<and> map msg_bytes (snd (m_decoder h')) = [request_frame] \<and> published h' = []"
proof -
  let ?b = "new_buf DEFAULT_BUF_LEN True" and ?h = "sample_handler\<lparr>m_login_success := True\<rparr>"
  have l: "length bad_frame < 200" "length request_frame < 200"
    using bad_length(2) request_on_wire(2) [of no_args Binary_proto]
    by (simp_all add: bad_frame_def request_frame_def on_wire_def no_args_def get_compress_enabled_def Let_def)
  then have "m_write_ptr ?b + length (bad_frame @ request_frame) \<le> m_write_bound ?b"
    by (simp add: new_buf_def DEFAULT_BUF_LEN_def)
  note c = copy_in_props [OF new_buf_default_wf this]
  have rf: "full_frame request_frame"
    unfolding request_frame_def using request_on_wire [of no_args Binary_proto] by (intro on_wire_frame_len(1)) simp_all
  have h: "receiving ?h" "snd (m_decoder ?h) = []" "published ?h = []"
    by (simp_all add: receiving_def sample_handler_def new_handler_def wf_queue_def)
  have m: "admitted sample_env bad_message" "\<not> shake_hand bad_message" "\<not> path_ok sample_env bad_message"
    by (simp_all add: admitted_def path_ok_def shake_hand_def bad_message_def bad_header_def message_ids sample_env_def
        content_header_def norm_header_def request_header_def empty_header_def validate_req_path_def)
  show ?thesis
    using bad_path_stalls_queue [OF h(1,2) c(1) _ bad_decodes m, of "[request_frame]" Server] c(2) rf h(3) by simp
qed

end
