(* ===== verification/Topic_Manager.thy ===== *)
theory Topic_Manager
  imports Prelude
begin

text \<open>
  The message bus: \<open>network/topic_manager.h\<close>. The registry is a \<open>std::multimap\<close> whose key is the
  topic followed by the \<open>typeid\<close> name of the type of the handler; the name of a type, which the
  compiler makes up, is a parameter \<open>tyname\<close>. A handler is any value; the caller runs what
  \<open>publish\<close> selects.
\<close>

section \<open>Registry\<close>

text \<open>A multimap keeps its keys sorted and equal keys in the order of insertion.\<close>

type_synonym 'h registry = "(string \<times> 'h) list"

fun multimap_emplace :: "string \<Rightarrow> 'h \<Rightarrow> 'h registry \<Rightarrow> 'h registry" where
  "multimap_emplace k f [] = [(k, f)]"
| "multimap_emplace k f ((k', f') # r) =
     (if k < k' then (k, f) # (k', f') # r else (k', f') # multimap_emplace k f r)"

definition equal_range :: "string \<Rightarrow> 'h registry \<Rightarrow> 'h list" where
  "equal_range k r = map snd (filter (\<lambda>e. fst e = k) r)"

text \<open>
  The types the callers instantiate the templates with: \<open>std::function<void(std::shared_ptr<message>&)>\<close>
  and \<open>std::function<void()>\<close>.
\<close>

datatype handler_type = Fun_void_message | Fun_void

definition topic_add :: "(handler_type \<Rightarrow> string) \<Rightarrow> string \<Rightarrow> handler_type \<Rightarrow> 'h \<Rightarrow> 'h registry \<Rightarrow> 'h registry" where
  "topic_add tyname topic ty f r = multimap_emplace (topic @ tyname ty) f r"

definition topic_subscribe :: "(handler_type \<Rightarrow> string) \<Rightarrow> string \<Rightarrow> handler_type \<Rightarrow> 'h \<Rightarrow> 'h registry \<Rightarrow> 'h registry" where
  "topic_subscribe tyname topic ty f r = topic_add tyname topic ty f r"

text \<open>The handlers \<open>publish\<close> runs, in this order.\<close>

definition topic_publish :: "(handler_type \<Rightarrow> string) \<Rightarrow> string \<Rightarrow> handler_type \<Rightarrow> 'h registry \<Rightarrow> 'h list" where
  "topic_publish tyname topic ty r = equal_range (topic @ tyname ty) r"

definition multimap_erase :: "string \<Rightarrow> 'h registry \<Rightarrow> 'h registry" where
  "multimap_erase k r = (if equal_range k r = [] then r else filter (\<lambda>e. fst e \<noteq> k) r)"

definition topic_unsubscribe :: "(handler_type \<Rightarrow> string) \<Rightarrow> string \<Rightarrow> handler_type \<Rightarrow> 'h registry \<Rightarrow> 'h registry" where
  "topic_unsubscribe tyname topic ty r =
     multimap_erase (topic @ tyname ty) r"

section \<open>What the bus promises\<close>

text \<open>The interface a module relies on when it subscribes and publishes.\<close>

locale message_bus =
  fixes subscribe :: "'k \<Rightarrow> 'h \<Rightarrow> 'r \<Rightarrow> 'r" and publish :: "'k \<Rightarrow> 'r \<Rightarrow> 'h list" and unsubscribe :: "'k \<Rightarrow> 'r \<Rightarrow> 'r"
    and empty_bus :: 'r and ok :: "'r \<Rightarrow> bool"
  assumes ok_empty: "ok empty_bus" and none: "publish k empty_bus = []"
    and ok_subscribe: "ok r \<Longrightarrow> ok (subscribe k f r)"
    and subscribed: "ok r \<Longrightarrow> publish k (subscribe k' f r) = publish k r @ (if k = k' then [f] else [])"
    and ok_unsubscribe: "ok r \<Longrightarrow> ok (unsubscribe k r)"
    and unsubscribed: "ok r \<Longrightarrow> publish k (unsubscribe k' r) = (if k = k' then [] else publish k r)"
begin

text \<open>Handlers run in the order in which they subscribed.\<close>

lemma subscribers_in_order:
  "ok r \<Longrightarrow> publish k (fold (\<lambda>(k', f). subscribe k' f) subs r) =
     publish k r @ map snd (filter (\<lambda>(k', _). k' = k) subs)"
  by (induction subs arbitrary: r) (auto simp: subscribed ok_subscribe)

end

lemma equal_range_emplace:
  "sorted (map fst r) \<Longrightarrow> equal_range k (multimap_emplace k' f r) = equal_range k r @ (if k = k' then [f] else [])"
proof (induction r)
  case (Cons e r)
  show ?case
  proof (cases "k' < fst e")
    case True
    then have "filter (\<lambda>e. fst e = k') (e # r) = []"
      using Cons.prems by (auto simp: filter_empty_conv dest: leD)
    then show ?thesis using True by (cases e) (auto simp: equal_range_def)
  next
    case False
    with Cons show ?thesis by (cases e) (auto simp: equal_range_def)
  qed
qed (simp add: equal_range_def)

lemma set_emplace: "set (multimap_emplace k f r) = insert (k, f) (set r)"
  by (induction k f r rule: multimap_emplace.induct) auto

lemma sorted_emplace: "sorted (map fst r) \<Longrightarrow> sorted (map fst (multimap_emplace k f r))"
  by (induction k f r rule: multimap_emplace.induct) (auto simp: set_emplace less_imp_le)

lemma equal_range_erase: "equal_range k (multimap_erase k' r) = (if k = k' then [] else equal_range k r)"
proof (cases "equal_range k' r = []")
  case True
  then show ?thesis by (simp add: multimap_erase_def)
next
  case False
  have "filter (\<lambda>e. fst e \<noteq> k' \<and> fst e = k) r = (if k = k' then [] else filter (\<lambda>e. fst e = k) r)"
    by (auto intro!: filter_cong filter_False)
  then show ?thesis using False by (simp add: multimap_erase_def equal_range_def)
qed

interpretation bus: message_bus multimap_emplace equal_range multimap_erase "[]" "\<lambda>r. sorted (map fst r)"
proof
  show "sorted (map fst r) \<Longrightarrow> sorted (map fst (multimap_erase k r))" for k and r :: "'h registry"
    by (simp add: multimap_erase_def sorted_filter)
qed (simp_all add: equal_range_emplace sorted_emplace equal_range_erase, simp add: equal_range_def)

section \<open>Properties\<close>

text \<open>Publishing a topic runs exactly the handlers that were subscribed to that topic with a
  function of the published type, in the order in which they subscribed, provided that no two
  pairs of a topic and a type have the same concatenated name.\<close>

theorem publish_runs_subscribers:
  assumes "\<And>t t' a b. t @ tyname a = t' @ tyname b \<Longrightarrow> t = t' \<and> a = b"
  shows "topic_publish tyname topic ty (fold (\<lambda>(t, a, f). topic_subscribe tyname t a f) subs []) =
           map (\<lambda>(t, a, f). f) (filter (\<lambda>(t, a, f). t = topic \<and> a = ty) subs)"
proof -
  have eq: "t @ tyname a = topic @ tyname ty \<longleftrightarrow> t = topic \<and> a = ty" for t a using assms by blast
  have "fold (\<lambda>(t, a, f). topic_subscribe tyname t a f) subs r =
      fold (\<lambda>(k, f). multimap_emplace k f) (map (\<lambda>(t, a, f). (t @ tyname a, f)) subs) r" for r
    by (induction subs arbitrary: r) (auto simp: topic_subscribe_def topic_add_def)
  moreover have "filter (\<lambda>(k, f). k = topic @ tyname ty) (map (\<lambda>(t, a, f). (t @ tyname a, f)) subs) =
      map (\<lambda>(t, a, f). (t @ tyname a, f)) (filter (\<lambda>(t, a, f). t = topic \<and> a = ty) subs)"
    by (induction subs) (auto simp: eq)
  ultimately show ?thesis
    using bus.subscribers_in_order [of "[]" "topic @ tyname ty" "map (\<lambda>(t, a, f). (t @ tyname a, f)) subs"]
    by (simp add: topic_publish_def bus.none o_def case_prod_unfold)
qed

text \<open>Names that tell all pairs apart.\<close>

fun tyname_example :: "handler_type \<Rightarrow> string" where
  "tyname_example Fun_void_message = ''M''"
| "tyname_example Fun_void = ''V''"

lemma tyname_example_unambiguous: "t @ tyname_example a = t' @ tyname_example b \<Longrightarrow> t = t' \<and> a = b"
  by (cases a; cases b) auto

theorem publish_runs_subscribers_witness:
  "topic_publish tyname_example ''tick'' Fun_void_message
     (fold (\<lambda>(t, a, f). topic_subscribe tyname_example t a f)
       [(''tick'', Fun_void_message, 1 :: nat), (''other'', Fun_void_message, 2), (''tick'', Fun_void_message, 3)] []) = [1, 3]"
  using publish_runs_subscribers [of tyname_example "''tick''" Fun_void_message
      "[(''tick'', Fun_void_message, 1 :: nat), (''other'', Fun_void_message, 2), (''tick'', Fun_void_message, 3)]"]
    tyname_example_unambiguous by simp

end
