(* ===== verification/Service_Module.thy ===== *)
theory Service_Module
  imports Topic_Manager
begin

text \<open>
  The base class of the services: \<open>service_module/service_module.{h,cpp}\<close> with the timers of
  \<open>timer/timer.{h,cpp}\<close> and the clock of \<open>timer/timer_tick_manager.cpp\<close>. A module has a bounded queue
  of messages that a thread empties, handlers by message name, timers that the clock messages
  drive, and sessions. Handlers are values; an operation returns the calls it makes, in order. A
  handler that changes the timers of its own module while they are being walked is not modelled.
\<close>

section \<open>Timers\<close>

definition DEFAULT_TIMER_INTERVAL :: u32 where "DEFAULT_TIMER_INTERVAL = 100"
definition INVALID_TIMER_ID :: u32 where "INVALID_TIMER_ID = 0"
definition MAX_TIMER_ID :: u32 where "MAX_TIMER_ID = 0xFFFFFFFF"
definition MAX_MSG_QUEUE_SIZE :: nat where "MAX_MSG_QUEUE_SIZE = 102400"
definition TIMER_TICK_NOTIFICATION :: string where "TIMER_TICK_NOTIFICATION = ''time_tick_notification''"

record core_timer =
  m_name :: string
  m_period :: u32
  m_repeat_times :: u64
  m_timer_id :: u32
  m_time_out_tick :: u64
  m_period_as_tick :: u32
  m_session_id :: string

text \<open>\<open>std::round(x * 1.0 / DEFAULT_TIMER_INTERVAL)\<close>: to the nearest, halves away from zero.\<close>

definition as_tick :: "u32 \<Rightarrow> u32" where
  "as_tick ms = of_nat ((unat ms + 50) div 100)"

definition new_core_timer :: "u64 \<Rightarrow> string \<Rightarrow> u32 \<Rightarrow> u32 \<Rightarrow> u64 \<Rightarrow> string \<Rightarrow> core_timer" where
  "new_core_timer cur_tick name delay period repeat_times session_id =
     \<lparr>m_name = name, m_period = period, m_repeat_times = repeat_times, m_timer_id = 0,
      m_time_out_tick = cur_tick + ucast (as_tick delay), m_period_as_tick = as_tick period,
      m_session_id = session_id\<rparr>"

definition cal_time_out_tick :: "core_timer \<Rightarrow> core_timer" where
  "cal_time_out_tick t = t\<lparr>m_time_out_tick := m_time_out_tick t + ucast (m_period_as_tick t)\<rparr>"

definition desc_repeat_times :: "core_timer \<Rightarrow> core_timer" where
  "desc_repeat_times t = (if m_repeat_times t > 0 then t\<lparr>m_repeat_times := m_repeat_times t - 1\<rparr> else t)"

section \<open>State\<close>

datatype 'c content = Time_tick u64 | Content 'c

record 'c service_msg =
  s_name :: string
  s_content :: "'c content"

record ('c, 'h, 's) service_module =
  m_running :: bool
  m_msg_queue :: "'c service_msg list"
  m_msg_invokers :: "string \<rightharpoonup> 'h"
  m_timer_alloc_id :: u32
  m_timer_queue :: "core_timer list"
  m_timer_invokers :: "string \<rightharpoonup> 'h"
  m_sessions :: "string \<rightharpoonup> 's"

definition new_service_module :: "('c, 'h, 's) service_module" where
  "new_service_module =
     \<lparr>m_running = False, m_msg_queue = [], m_msg_invokers = Map.empty, m_timer_alloc_id = 0,
      m_timer_queue = [], m_timer_invokers = Map.empty, m_sessions = Map.empty\<rparr>"

datatype ('c, 'h) call = Msg_call 'h "'c service_msg" | Timer_call 'h core_timer

section \<open>Operations\<close>

definition send :: "'c service_msg \<Rightarrow> ('c, 'h, 's) service_module \<Rightarrow> ('c, 'h, 's) service_module" where
  "send msg sm =
     (if length (m_msg_queue sm) < MAX_MSG_QUEUE_SIZE then sm\<lparr>m_msg_queue := m_msg_queue sm @ [msg]\<rparr> else sm)"

definition add_timer ::
  "u64 \<Rightarrow> string \<Rightarrow> u32 \<Rightarrow> u32 \<Rightarrow> u64 \<Rightarrow> string \<Rightarrow> 'h option \<Rightarrow> ('c, 'h, 's) service_module \<Rightarrow>
     u32 \<times> ('c, 'h, 's) service_module" where
  "add_timer cur_tick name delay period repeat_times session_id handle sm =
     (if repeat_times < 1 \<or> period < DEFAULT_TIMER_INTERVAL then (INVALID_TIMER_ID, sm)
      else if MAX_TIMER_ID = m_timer_alloc_id sm then (INVALID_TIMER_ID, sm)
      else let i = m_timer_alloc_id sm + 1;
               timer = (new_core_timer cur_tick name delay period repeat_times session_id)\<lparr>m_timer_id := i\<rparr>
           in (i, sm\<lparr>m_timer_alloc_id := i, m_timer_queue := m_timer_queue sm @ [timer],
                    m_timer_invokers :=
                      (case handle of Some h \<Rightarrow> (m_timer_invokers sm)(name \<mapsto> h) | None \<Rightarrow> m_timer_invokers sm)\<rparr>))"

fun erase_timer :: "u32 \<Rightarrow> core_timer list \<Rightarrow> string \<times> core_timer list" where
  "erase_timer i [] = ([], [])"
| "erase_timer i (t # ts) =
     (if i = m_timer_id t then (m_name t, ts) else let (n, ts') = erase_timer i ts in (n, t # ts'))"

definition remove_timer :: "u32 \<Rightarrow> ('c, 'h, 's) service_module \<Rightarrow> ('c, 'h, 's) service_module" where
  "remove_timer timer_id sm =
     (let (name, q) = erase_timer timer_id (m_timer_queue sm); sm1 = sm\<lparr>m_timer_queue := q\<rparr>
      in if name \<noteq> [] then sm1\<lparr>m_timer_invokers := (m_timer_invokers sm1)(name := None)\<rparr> else sm1)"

definition remove_all_timer :: "('c, 'h, 's) service_module \<Rightarrow> ('c, 'h, 's) service_module" where
  "remove_all_timer sm = sm\<lparr>m_timer_queue := [], m_timer_invokers := Map.empty\<rparr>"

text \<open>One turn of the loop over the timers: the call, the timer as it is left, and whether it has expired.\<close>

definition tick_timer ::
  "(string \<rightharpoonup> 'h) \<Rightarrow> u64 \<Rightarrow> core_timer \<Rightarrow> ('c, 'h) call list \<times> core_timer \<times> bool" where
  "tick_timer invokers time_tick timer =
     (if m_time_out_tick timer \<le> time_tick
      then let calls = (case invokers (m_name timer) of Some f \<Rightarrow> [Timer_call f timer] | None \<Rightarrow> []);
               timer' = desc_repeat_times timer
           in if m_repeat_times timer' = 0 then (calls, timer', True)
              else (calls, cal_time_out_tick timer', False)
      else ([], timer, False))"

definition on_timer_tick ::
  "u64 \<Rightarrow> ('c, 'h, 's) service_module \<Rightarrow> ('c, 'h) call list \<times> ('c, 'h, 's) service_module" where
  "on_timer_tick time_tick sm =
     (let rs = map (tick_timer (m_timer_invokers sm) time_tick) (m_timer_queue sm);
          sm1 = sm\<lparr>m_timer_queue := map (fst \<circ> snd) rs\<rparr>;
          remove_timers_list = map (m_timer_id \<circ> fst \<circ> snd) (filter (snd \<circ> snd) rs)
      in (concat (map fst rs), fold remove_timer remove_timers_list sm1))"

definition on_msg_handle ::
  "'c service_msg \<Rightarrow> ('c, 'h, 's) service_module \<Rightarrow> failure + ('c, 'h) call list \<times> ('c, 'h, 's) service_module" where
  "on_msg_handle msg sm =
     (if s_name msg = TIMER_TICK_NOTIFICATION
      then case s_content msg of
             Time_tick t \<Rightarrow> Inr (on_timer_tick t sm)
           | Content _ \<Rightarrow> Inl Undefined_behaviour
      else Inr (case m_msg_invokers sm (s_name msg) of Some f \<Rightarrow> [Msg_call f msg] | None \<Rightarrow> [], sm))"

fun handle_all ::
  "'c service_msg list \<Rightarrow> ('c, 'h, 's) service_module \<Rightarrow> failure + ('c, 'h) call list \<times> ('c, 'h, 's) service_module" where
  "handle_all [] sm = Inr ([], sm)"
| "handle_all (m # ms) sm =
     (case on_msg_handle m sm of
        Inl f \<Rightarrow> Inl f
      | Inr (cs, sm1) \<Rightarrow> (case handle_all ms sm1 of Inl f \<Rightarrow> Inl f | Inr (cs', sm2) \<Rightarrow> Inr (cs @ cs', sm2)))"

text \<open>One turn of the thread: take the whole queue, then handle it message by message.\<close>

definition thread_func ::
  "('c, 'h, 's) service_module \<Rightarrow> failure + ('c, 'h) call list \<times> ('c, 'h, 's) service_module" where
  "thread_func sm =
     (if m_running sm then handle_all (m_msg_queue sm) (sm\<lparr>m_msg_queue := []\<rparr>) else Inr ([], sm))"

text \<open>
  Registration couples the table of handlers with the bus: the subscription is a lambda of type
  \<open>std::function<void(std::shared_ptr<message>&)>\<close> that calls \<open>send\<close> of this module (\<open>me\<close>).
\<close>

definition reg_msg_handle ::
  "(handler_type \<Rightarrow> string) \<Rightarrow> 'me \<Rightarrow> string \<Rightarrow> 'h option \<Rightarrow> ('c, 'h, 's) service_module \<times> 'me registry \<Rightarrow>
     ('c, 'h, 's) service_module \<times> 'me registry" where
  "reg_msg_handle tyname me msgname handle = (\<lambda>(sm, r).
     case handle of
       None \<Rightarrow> (sm, r)
     | Some h \<Rightarrow> (sm\<lparr>m_msg_invokers := (m_msg_invokers sm)(msgname \<mapsto> h)\<rparr>,
                  topic_subscribe tyname msgname Fun_void_message me r))"

definition unreg_msg_handle ::
  "(handler_type \<Rightarrow> string) \<Rightarrow> string \<Rightarrow> ('c, 'h, 's) service_module \<times> 'me registry \<Rightarrow>
     ('c, 'h, 's) service_module \<times> 'me registry" where
  "unreg_msg_handle tyname msgname = (\<lambda>(sm, r).
     (sm\<lparr>m_msg_invokers := (m_msg_invokers sm)(msgname := None)\<rparr>, topic_unsubscribe tyname msgname Fun_void r))"

text \<open>\<open>names\<close> lists the keys of \<open>m_msg_invokers\<close>, in the order of the hash table.\<close>

definition remove_all_msg_handle ::
  "(handler_type \<Rightarrow> string) \<Rightarrow> string list \<Rightarrow> ('c, 'h, 's) service_module \<times> 'me registry \<Rightarrow>
     ('c, 'h, 's) service_module \<times> 'me registry" where
  "remove_all_msg_handle tyname names = (\<lambda>(sm, r).
     (sm\<lparr>m_msg_invokers := Map.empty\<rparr>, fold (\<lambda>n. topic_unsubscribe tyname n Fun_void) names r))"

definition service_init ::
  "(handler_type \<Rightarrow> string) \<Rightarrow> 'me \<Rightarrow> ('c, 'h, 's) service_module \<times> 'me registry \<Rightarrow>
     ('c, 'h, 's) service_module \<times> 'me registry" where
  "service_init tyname me = (\<lambda>(sm, r).
     (sm\<lparr>m_running := True\<rparr>, topic_subscribe tyname TIMER_TICK_NOTIFICATION Fun_void_message me r))"

definition service_exit ::
  "(handler_type \<Rightarrow> string) \<Rightarrow> string list \<Rightarrow> ('c, 'h, 's) service_module \<times> 'me registry \<Rightarrow>
     ('c, 'h, 's) service_module \<times> 'me registry" where
  "service_exit tyname names = (\<lambda>(sm, r).
     let (sm2, r2) = remove_all_msg_handle tyname names (remove_all_timer (sm\<lparr>m_running := False\<rparr>), r)
     in (sm2\<lparr>m_sessions := Map.empty\<rparr>, r2))"

definition add_session :: "string \<Rightarrow> 's \<Rightarrow> ('c, 'h, 's) service_module \<Rightarrow> bool \<times> ('c, 'h, 's) service_module" where
  "add_session session_id session sm =
     (case m_sessions sm session_id of
        None \<Rightarrow> (True, sm\<lparr>m_sessions := (m_sessions sm)(session_id \<mapsto> session)\<rparr>)
      | Some _ \<Rightarrow> (False, sm))"

definition remove_session :: "string \<Rightarrow> ('c, 'h, 's) service_module \<Rightarrow> ('c, 'h, 's) service_module" where
  "remove_session session_id sm = sm\<lparr>m_sessions := (m_sessions sm)(session_id := None)\<rparr>"

definition get_session :: "string \<Rightarrow> ('c, 'h, 's) service_module \<Rightarrow> 's option" where
  "get_session session_id sm = m_sessions sm session_id"

section \<open>The clock\<close>

text \<open>
  \<open>timer_tick_manager::on_timer_expired\<close>: count the tick and publish a notification that carries the
  count; an aborted wait ends the sequence.
\<close>

definition on_timer_expired :: "bool \<Rightarrow> u64 \<Rightarrow> (u64 \<times> 'c service_msg) option" where
  "on_timer_expired aborted cur_tick =
     (if aborted then None
      else Some (cur_tick + 1, \<lparr>s_name = TIMER_TICK_NOTIFICATION, s_content = Time_tick (cur_tick + 1)\<rparr>))"

section \<open>Invariant\<close>

definition sm_inv :: "('c, 'h, 's) service_module \<Rightarrow> bool" where
  "sm_inv sm \<longleftrightarrow>
     length (m_msg_queue sm) \<le> MAX_MSG_QUEUE_SIZE \<and>
     distinct (map m_timer_id (m_timer_queue sm)) \<and>
     (\<forall>t\<in>set (m_timer_queue sm).
        0 < m_timer_id t \<and> m_timer_id t \<le> m_timer_alloc_id sm \<and> 0 < m_repeat_times t \<and> 0 < m_period_as_tick t)"

lemma new_inv: "sm_inv new_service_module"
  by (simp add: sm_inv_def new_service_module_def)

lemma send_inv: "sm_inv sm \<Longrightarrow> sm_inv (send m sm)"
  by (simp add: sm_inv_def send_def)

lemma as_tick_pos: "\<not> ms < 100 \<Longrightarrow> 0 < as_tick ms"
proof -
  assume "\<not> ms < 100"
  then have "100 \<le> unat ms" by (simp add: word_less_nat_alt)
  moreover have "unat ms < 4294967296" using unsigned_less [of ms] by simp
  ultimately have "0 < (unat ms + 50) div 100" "(unat ms + 50) div 100 < 4294967296" by auto
  then show ?thesis by (simp add: as_tick_def word_less_nat_alt unat_of_nat)
qed

lemma alloc_step: "a \<noteq> MAX_TIMER_ID \<Longrightarrow> unat (a + 1) = unat a + 1"
proof -
  assume "a \<noteq> MAX_TIMER_ID"
  then have "unat a \<noteq> 4294967295" unfolding MAX_TIMER_ID_def by (auto simp: word_unat_eq_iff)
  moreover have "unat a < 4294967296" using unsigned_less [of a] by simp
  ultimately show ?thesis by (simp add: unat_word_ariths)
qed

lemma add_timer_inv:
  assumes "sm_inv sm"
  shows "sm_inv (snd (add_timer cur name delay period reps sid h sm))"
proof (cases "reps < 1 \<or> period < DEFAULT_TIMER_INTERVAL \<or> m_timer_alloc_id sm = MAX_TIMER_ID")
  case True
  then show ?thesis using assms by (auto simp: add_timer_def)
next
  case False
  let ?i = "m_timer_alloc_id sm + 1"
  have i: "unat ?i = unat (m_timer_alloc_id sm) + 1" using False by (intro alloc_step) simp
  have "0 < as_tick period" using False by (intro as_tick_pos) (simp add: DEFAULT_TIMER_INTERVAL_def)
  moreover have "0 < reps" using False by (auto simp: word_less_nat_alt)
  moreover have "\<forall>t\<in>set (m_timer_queue sm). m_timer_id t < ?i" "0 < ?i"
    using assms i by (auto simp: sm_inv_def word_less_nat_alt word_le_nat_alt)
  ultimately show ?thesis
    using assms False by (auto simp: add_timer_def sm_inv_def new_core_timer_def Let_def)
qed

section \<open>Removing timers\<close>

lemma erase_timer_queue:
  "distinct (map m_timer_id q) \<Longrightarrow> snd (erase_timer i q) = filter (\<lambda>t. m_timer_id t \<noteq> i) q"
proof (induction q)
  case (Cons t q)
  show ?case
  proof (cases "i = m_timer_id t")
    case True
    then have "filter (\<lambda>t. m_timer_id t \<noteq> i) q = q" using Cons.prems by (force simp: filter_id_conv image_iff)
    with True show ?thesis by simp
  qed (use Cons in \<open>auto simp: case_prod_unfold Let_def\<close>)
qed simp

lemma erase_timer_name:
  "distinct (map m_timer_id q) \<Longrightarrow> t \<in> set q \<Longrightarrow> fst (erase_timer (m_timer_id t) q) = m_name t"
  by (induction q) (auto simp: case_prod_unfold Let_def image_iff)

lemma erase_timer_none: "i \<notin> m_timer_id ` set q \<Longrightarrow> erase_timer i q = ([], q)"
  by (induction q) auto

lemma remove_timer_queue:
  "distinct (map m_timer_id (m_timer_queue sm)) \<Longrightarrow>
     m_timer_queue (remove_timer i sm) = filter (\<lambda>t. m_timer_id t \<noteq> i) (m_timer_queue sm)"
  using erase_timer_queue [of "m_timer_queue sm" i]
  by (cases "erase_timer i (m_timer_queue sm)") (auto simp: remove_timer_def Let_def)

lemma remove_timer_invokers:
  assumes "distinct (map m_timer_id (m_timer_queue sm))"
  shows "m_timer_invokers (remove_timer i sm) n =
           (if n \<noteq> [] \<and> (\<exists>t\<in>set (m_timer_queue sm). m_timer_id t = i \<and> m_name t = n) then None
            else m_timer_invokers sm n)"
proof (cases "i \<in> m_timer_id ` set (m_timer_queue sm)")
  case True
  then obtain t where t: "t \<in> set (m_timer_queue sm)" "i = m_timer_id t" by auto
  have "u = t" if "u \<in> set (m_timer_queue sm)" "m_timer_id u = m_timer_id t" for u
    using assms t(1) that by (auto simp: distinct_map inj_on_def)
  then show ?thesis
    using erase_timer_name [OF assms t(1)] t
    by (cases "erase_timer (m_timer_id t) (m_timer_queue sm)") (auto simp: remove_timer_def Let_def)
next
  case False
  then show ?thesis by (auto simp: remove_timer_def Let_def erase_timer_none)
qed

lemma remove_timer_other [simp]:
  "m_msg_queue (remove_timer i sm) = m_msg_queue sm" "m_msg_invokers (remove_timer i sm) = m_msg_invokers sm"
  "m_timer_alloc_id (remove_timer i sm) = m_timer_alloc_id sm" "m_sessions (remove_timer i sm) = m_sessions sm"
  "m_running (remove_timer i sm) = m_running sm"
  by (simp_all add: remove_timer_def case_prod_unfold Let_def)

lemma remove_timer_distinct:
  "distinct (map m_timer_id (m_timer_queue sm)) \<Longrightarrow> distinct (map m_timer_id (m_timer_queue (remove_timer i sm)))"
  by (simp add: remove_timer_queue distinct_map_filter)

lemma remove_timers_other [simp]:
  "m_msg_queue (fold remove_timer ids sm) = m_msg_queue sm"
  "m_msg_invokers (fold remove_timer ids sm) = m_msg_invokers sm"
  "m_timer_alloc_id (fold remove_timer ids sm) = m_timer_alloc_id sm"
  "m_sessions (fold remove_timer ids sm) = m_sessions sm"
  "m_running (fold remove_timer ids sm) = m_running sm"
  by (induction ids arbitrary: sm) simp_all

lemma remove_timers_queue:
  "distinct (map m_timer_id (m_timer_queue sm)) \<Longrightarrow>
     m_timer_queue (fold remove_timer ids sm) = filter (\<lambda>t. m_timer_id t \<notin> set ids) (m_timer_queue sm)"
proof (induction ids arbitrary: sm)
  case (Cons i ids)
  from Cons.IH [OF remove_timer_distinct [OF Cons.prems]] Cons.prems show ?case
    by (auto simp: remove_timer_queue intro: filter_cong)
qed simp

lemma remove_timers_invokers:
  "distinct (map m_timer_id (m_timer_queue sm)) \<Longrightarrow>
     m_timer_invokers (fold remove_timer ids sm) n =
       (if n \<noteq> [] \<and> (\<exists>t\<in>set (m_timer_queue sm). m_timer_id t \<in> set ids \<and> m_name t = n) then None
        else m_timer_invokers sm n)"
proof (induction ids arbitrary: sm)
  case (Cons i ids)
  from Cons.IH [OF remove_timer_distinct [OF Cons.prems]] Cons.prems show ?case
    by (auto simp: remove_timer_queue remove_timer_invokers)
qed simp

section \<open>One tick\<close>

text \<open>The specification: which timers are due, which of them are spent, and what is left of the others.\<close>

definition due :: "u64 \<Rightarrow> core_timer \<Rightarrow> bool" where
  "due tick t \<longleftrightarrow> m_time_out_tick t \<le> tick"

definition spent :: "u64 \<Rightarrow> core_timer \<Rightarrow> bool" where
  "spent tick t \<longleftrightarrow> due tick t \<and> m_repeat_times t = 1"

definition rearmed :: "u64 \<Rightarrow> core_timer \<Rightarrow> core_timer" where
  "rearmed tick t =
     (if due tick t
      then t\<lparr>m_repeat_times := m_repeat_times t - 1, m_time_out_tick := m_time_out_tick t + ucast (m_period_as_tick t)\<rparr>
      else t)"

definition timer_calls :: "(string \<rightharpoonup> 'h) \<Rightarrow> u64 \<Rightarrow> core_timer list \<Rightarrow> ('c, 'h) call list" where
  "timer_calls invokers tick q =
     concat (map (\<lambda>t. case invokers (m_name t) of Some f \<Rightarrow> [Timer_call f t] | None \<Rightarrow> []) (filter (due tick) q))"

lemma tick_timer_parts:
  assumes "0 < m_repeat_times t"
  shows "fst (tick_timer ivs tick t) = timer_calls ivs tick [t]"
    and "snd (snd (tick_timer ivs tick t)) = spent tick t"
    and "m_timer_id (fst (snd (tick_timer ivs tick t))) = m_timer_id t"
    and "m_name (fst (snd (tick_timer ivs tick t))) = m_name t"
    and "\<not> spent tick t \<Longrightarrow> fst (snd (tick_timer ivs tick t)) = rearmed tick t"
proof -
  have z: "m_repeat_times t - 1 = 0 \<longleftrightarrow> m_repeat_times t = 1" by (metis diff_add_cancel diff_self eq_iff_diff_eq_0)
  show "fst (tick_timer ivs tick t) = timer_calls ivs tick [t]"
    by (simp add: tick_timer_def timer_calls_def due_def Let_def)
  show "snd (snd (tick_timer ivs tick t)) = spent tick t"
    using assms z by (simp add: tick_timer_def spent_def due_def Let_def desc_repeat_times_def)
  show "m_timer_id (fst (snd (tick_timer ivs tick t))) = m_timer_id t"
    "m_name (fst (snd (tick_timer ivs tick t))) = m_name t"
    by (simp_all add: tick_timer_def Let_def desc_repeat_times_def cal_time_out_tick_def)
  show "\<not> spent tick t \<Longrightarrow> fst (snd (tick_timer ivs tick t)) = rearmed tick t"
    using assms z
    by (auto simp: tick_timer_def spent_def due_def Let_def desc_repeat_times_def rearmed_def cal_time_out_tick_def)
qed

lemma on_timer_tick_ok:
  fixes sm :: "('c, 'h, 's) service_module"
  assumes inv: "sm_inv sm"
  shows "fst (on_timer_tick tick sm) = timer_calls (m_timer_invokers sm) tick (m_timer_queue sm)"
    and "m_timer_queue (snd (on_timer_tick tick sm)) =
           map (rearmed tick) (filter (\<lambda>t. \<not> spent tick t) (m_timer_queue sm))"
    and "m_timer_invokers (snd (on_timer_tick tick sm)) n =
           (if n \<noteq> [] \<and> (\<exists>t\<in>set (m_timer_queue sm). spent tick t \<and> m_name t = n) then None
            else m_timer_invokers sm n)"
proof -
  let ?q = "m_timer_queue sm"
  let ?tt = "tick_timer (m_timer_invokers sm) tick :: core_timer \<Rightarrow> ('c, 'h) call list \<times> core_timer \<times> bool"
  have pos: "t \<in> set ?q \<Longrightarrow> 0 < m_repeat_times t" for t using inv by (simp add: sm_inv_def)
  have dist: "distinct (map m_timer_id ?q)" using inv by (simp add: sm_inv_def)
  have parts: "fst (?tt t) = timer_calls (m_timer_invokers sm) tick [t]" "snd (snd (?tt t)) = spent tick t"
    "m_timer_id (fst (snd (?tt t))) = m_timer_id t" "m_name (fst (snd (?tt t))) = m_name t"
    "\<not> spent tick t \<Longrightarrow> fst (snd (?tt t)) = rearmed tick t" if "t \<in> set ?q" for t
    by (simp_all add: tick_timer_parts [OF pos [OF that]])
  define sm1 where "sm1 = sm\<lparr>m_timer_queue := map (fst \<circ> snd) (map ?tt ?q)\<rparr>"
  define ids where "ids = map (m_timer_id \<circ> fst \<circ> snd) (filter (snd \<circ> snd) (map ?tt ?q))"
  have run: "on_timer_tick tick sm = (concat (map fst (map ?tt ?q)), fold remove_timer ids sm1)"
    by (simp add: on_timer_tick_def Let_def ids_def sm1_def)
  have q1: "map m_timer_id (m_timer_queue sm1) = map m_timer_id ?q"
    unfolding sm1_def using parts(3) by simp
  have "set ids = (\<lambda>t. m_timer_id (fst (snd (?tt t)))) ` {t \<in> set ?q. snd (snd (?tt t))}"
    unfolding ids_def by auto
  also have "\<dots> = m_timer_id ` {t \<in> set ?q. spent tick t}"
    by (rule image_cong) (auto simp: parts)
  finally have ids: "set ids = m_timer_id ` {t \<in> set ?q. spent tick t}" .
  have in_ids: "m_timer_id t \<in> set ids \<longleftrightarrow> spent tick t" if "t \<in> set ?q" for t
    using dist that unfolding ids by (auto simp: distinct_map inj_on_def)
  have d1: "distinct (map m_timer_id (m_timer_queue sm1))" using q1 dist by simp
  have "concat (map fst (map ?tt xs)) = timer_calls (m_timer_invokers sm) tick xs" if "set xs \<subseteq> set ?q" for xs
    using that
  proof (induction xs)
    case (Cons x xs)
    then show ?case using parts(1) [of x] by (simp add: timer_calls_def)
  qed (simp add: timer_calls_def)
  then show "fst (on_timer_tick tick sm) = timer_calls (m_timer_invokers sm) tick ?q" unfolding run by simp
  have "filter (\<lambda>t. m_timer_id t \<notin> set ids) (map (fst \<circ> snd \<circ> ?tt) xs) =
      map (rearmed tick) (filter (\<lambda>t. \<not> spent tick t) xs)" if "set xs \<subseteq> set ?q" for xs
    using that
  proof (induction xs)
    case (Cons x xs)
    then show ?case using parts(3,5) [of x] in_ids [of x] by auto
  qed simp
  then show "m_timer_queue (snd (on_timer_tick tick sm)) = map (rearmed tick) (filter (\<lambda>t. \<not> spent tick t) ?q)"
    unfolding run snd_conv remove_timers_queue [OF d1] by (simp add: sm1_def)
  have "(\<exists>t\<in>set (m_timer_queue sm1). m_timer_id t \<in> set ids \<and> m_name t = n) \<longleftrightarrow>
      (\<exists>t\<in>set ?q. spent tick t \<and> m_name t = n)"
    using parts(3,4) in_ids by (auto simp: sm1_def)
  then show "m_timer_invokers (snd (on_timer_tick tick sm)) n =
           (if n \<noteq> [] \<and> (\<exists>t\<in>set ?q. spent tick t \<and> m_name t = n) then None else m_timer_invokers sm n)"
    unfolding run snd_conv remove_timers_invokers [OF d1] by (auto simp: sm1_def)
qed

lemma on_timer_tick_other [simp]:
  "m_msg_queue (snd (on_timer_tick tick sm)) = m_msg_queue sm"
  "m_timer_alloc_id (snd (on_timer_tick tick sm)) = m_timer_alloc_id sm"
  "m_running (snd (on_timer_tick tick sm)) = m_running sm"
  by (simp_all add: on_timer_tick_def Let_def)

lemma on_timer_tick_inv:
  assumes "sm_inv sm"
  shows "sm_inv (snd (on_timer_tick tick sm))"
proof -
  let ?q = "m_timer_queue sm"
  have id: "m_timer_id (rearmed tick t) = m_timer_id t" "m_period_as_tick (rearmed tick t) = m_period_as_tick t" for t
    by (simp_all add: rearmed_def)
  have "m_timer_id \<circ> rearmed tick = m_timer_id" by (simp add: fun_eq_iff id)
  moreover have "0 < m_repeat_times (rearmed tick t)" if "t \<in> set ?q" "\<not> spent tick t" for t
  proof -
    have "m_repeat_times t \<noteq> 0" using assms that(1) by (auto simp: sm_inv_def)
    moreover have "m_repeat_times t - 1 = 0 \<Longrightarrow> m_repeat_times t = 1" by (metis eq_iff_diff_eq_0)
    ultimately show ?thesis using that(2) by (auto simp: rearmed_def spent_def word_neq_0_conv [symmetric])
  qed
  ultimately show ?thesis
    using assms on_timer_tick_ok(2) [OF assms, of tick]
    by (auto simp: sm_inv_def id distinct_map_filter)
qed

section \<open>Runs\<close>

text \<open>What happens to a module between \<open>init\<close> and \<open>exit\<close>, in any order.\<close>

datatype ('c, 'h, 's) sm_op =
    Send "'c service_msg"
  | Turn
  | Add_timer u64 string u32 u32 u64 string "'h option"
  | Remove_timer u32
  | Add_session string 's
  | Remove_session string

text \<open>The module with a history: the messages accepted by \<open>send\<close>, those handled, and the calls made.\<close>

record ('c, 'h, 's) sm_run =
  module_of :: "('c, 'h, 's) service_module"
  accepted :: "'c service_msg list"
  handled :: "'c service_msg list"
  calls :: "('c, 'h) call list"

fun sm_step :: "('c, 'h, 's) sm_op \<Rightarrow> ('c, 'h, 's) sm_run \<Rightarrow> failure + ('c, 'h, 's) sm_run" where
  "sm_step (Send m) r =
     Inr (r\<lparr>module_of := send m (module_of r),
            accepted := accepted r @ (if length (m_msg_queue (module_of r)) < MAX_MSG_QUEUE_SIZE then [m] else [])\<rparr>)"
| "sm_step Turn r =
     (case thread_func (module_of r) of
        Inl f \<Rightarrow> Inl f
      | Inr (cs, sm) \<Rightarrow>
          Inr (r\<lparr>module_of := sm, calls := calls r @ cs,
                 handled := handled r @ (if m_running (module_of r) then m_msg_queue (module_of r) else [])\<rparr>))"
| "sm_step (Add_timer cur name delay period reps sid h) r =
     Inr (r\<lparr>module_of := snd (add_timer cur name delay period reps sid h (module_of r))\<rparr>)"
| "sm_step (Remove_timer i) r = Inr (r\<lparr>module_of := remove_timer i (module_of r)\<rparr>)"
| "sm_step (Add_session i x) r = Inr (r\<lparr>module_of := snd (add_session i x (module_of r))\<rparr>)"
| "sm_step (Remove_session i) r = Inr (r\<lparr>module_of := remove_session i (module_of r)\<rparr>)"

fun sm_steps :: "('c, 'h, 's) sm_op list \<Rightarrow> ('c, 'h, 's) sm_run \<Rightarrow> failure + ('c, 'h, 's) sm_run" where
  "sm_steps [] r = Inr r"
| "sm_steps (a # as) r = (case sm_step a r of Inl f \<Rightarrow> Inl f | Inr r' \<Rightarrow> sm_steps as r')"

definition started :: "('c, 'h, 's) sm_run" where
  "started = \<lparr>module_of = new_service_module\<lparr>m_running := True\<rparr>, accepted = [], handled = [], calls = []\<rparr>"

text \<open>Only the clock sends messages by the name of its notification.\<close>

definition proper :: "'c service_msg \<Rightarrow> bool" where
  "proper m \<longleftrightarrow> (s_name m = TIMER_TICK_NOTIFICATION \<longrightarrow> (\<exists>t. s_content m = Time_tick t))"

fun proper_op :: "('c, 'h, 's) sm_op \<Rightarrow> bool" where
  "proper_op (Send m) = proper m"
| "proper_op _ = True"

definition run_inv :: "('c, 'h, 's) sm_run \<Rightarrow> bool" where
  "run_inv r \<longleftrightarrow> sm_inv (module_of r) \<and> m_running (module_of r) \<and>
     (\<forall>m\<in>set (m_msg_queue (module_of r)). proper m) \<and> accepted r = handled r @ m_msg_queue (module_of r)"

lemma handle_all_ok:
  "\<forall>m\<in>set ms. proper m \<Longrightarrow> sm_inv sm \<Longrightarrow>
     \<exists>cs sm'. handle_all ms sm = Inr (cs, sm') \<and> sm_inv sm' \<and> m_running sm' = m_running sm \<and> m_msg_queue sm' = m_msg_queue sm"
proof (induction ms arbitrary: sm)
  case (Cons m ms)
  have m: "proper m" using Cons.prems(1) by simp
  have "\<exists>cs sm'. on_msg_handle m sm = Inr (cs, sm') \<and> sm_inv sm' \<and> m_running sm' = m_running sm \<and> m_msg_queue sm' = m_msg_queue sm"
  proof (cases "s_name m = TIMER_TICK_NOTIFICATION")
    case True
    with m obtain t where "s_content m = Time_tick t" by (auto simp: proper_def)
    then show ?thesis
      using True on_timer_tick_inv [OF Cons.prems(2), of t] on_timer_tick_other [of t sm]
      by (cases "on_timer_tick t sm") (simp add: on_msg_handle_def)
  qed (use Cons.prems(2) in \<open>simp add: on_msg_handle_def\<close>)
  then obtain cs sm' where 1: "on_msg_handle m sm = Inr (cs, sm')" "sm_inv sm'" "m_running sm' = m_running sm"
    "m_msg_queue sm' = m_msg_queue sm" by blast
  from Cons.IH [of sm'] Cons.prems(1) 1 show ?case by auto
qed simp

lemma remove_timer_inv: "sm_inv sm \<Longrightarrow> sm_inv (remove_timer i sm)"
  by (auto simp: sm_inv_def remove_timer_queue distinct_map_filter)

lemma sm_step_inv:
  assumes r: "run_inv r" and "proper_op a"
  shows "\<exists>r'. sm_step a r = Inr r' \<and> run_inv r'"
proof (cases a)
  case (Send m)
  then show ?thesis using assms send_inv [of "module_of r" m] by (auto simp: run_inv_def send_def)
next
  case Turn
  let ?sm = "module_of r"
  have "sm_inv (?sm\<lparr>m_msg_queue := []\<rparr>)" using r by (simp add: run_inv_def sm_inv_def)
  with handle_all_ok [of "m_msg_queue ?sm" "?sm\<lparr>m_msg_queue := []\<rparr>"] r obtain cs sm' where
    "handle_all (m_msg_queue ?sm) (?sm\<lparr>m_msg_queue := []\<rparr>) = Inr (cs, sm')" "sm_inv sm'" "m_running sm'" "m_msg_queue sm' = []"
    by (auto simp: run_inv_def)
  then show ?thesis using Turn r by (simp add: run_inv_def thread_func_def)
next
  case (Add_timer cur name delay period reps sid h)
  then show ?thesis
    using r add_timer_inv [of "module_of r" cur name delay period reps sid h]
    by (auto simp: run_inv_def add_timer_def Let_def)
qed (use r remove_timer_inv in \<open>auto simp: run_inv_def sm_inv_def add_session_def remove_session_def split: option.splits\<close>)

lemma sm_steps_inv: "run_inv r \<Longrightarrow> \<forall>a\<in>set as. proper_op a \<Longrightarrow> \<exists>r'. sm_steps as r = Inr r' \<and> run_inv r'"
proof (induction as arbitrary: r)
  case (Cons a as)
  from sm_step_inv [OF Cons.prems(1), of a] Cons.prems(2) obtain r' where "sm_step a r = Inr r'" "run_inv r'" by auto
  with Cons show ?case by auto
qed simp

lemma started_inv: "run_inv started"
  using new_inv by (simp add: run_inv_def started_def sm_inv_def new_service_module_def)

section \<open>A timer over time\<close>

fun run_ticks :: "u64 list \<Rightarrow> ('c, 'h, 's) service_module \<Rightarrow> ('c, 'h) call list \<times> ('c, 'h, 's) service_module" where
  "run_ticks [] sm = ([], sm)"
| "run_ticks (t # ts) sm =
     (let (cs, sm1) = on_timer_tick t sm; (cs', sm2) = run_ticks ts sm1 in (cs @ cs', sm2))"

lemma run_ticks_append:
  "run_ticks (xs @ ys) sm =
     (fst (run_ticks xs sm) @ fst (run_ticks ys (snd (run_ticks xs sm))), snd (run_ticks ys (snd (run_ticks xs sm))))"
  by (induction xs arbitrary: sm) (simp_all add: case_prod_unfold Let_def)

lemma of_nat_le64: "a < 2 ^ 64 \<Longrightarrow> b < 2 ^ 64 \<Longrightarrow> (of_nat a :: u64) \<le> of_nat b \<longleftrightarrow> a \<le> b"
  by (simp add: word_le_nat_alt unat_of_nat)

text \<open>
  The state of a lone timer after the ticks before \<open>now\<close>: it has fired \<open>f\<close> reps, each at its turn,
  and if turns remain the next one is not yet due.
\<close>

definition lone_timer :: "core_timer \<Rightarrow> nat \<Rightarrow> nat \<Rightarrow> nat \<Rightarrow> nat \<Rightarrow> nat \<Rightarrow> 'h \<Rightarrow> ('c, 'h, 's) service_module \<Rightarrow> bool" where
  "lone_timer t first period reps f now h sm \<longleftrightarrow>
     sm_inv sm \<and> f \<le> reps \<and> (\<forall>k<f. first + k * period < now) \<and>
     (if f < reps
      then m_timer_queue sm = [t\<lparr>m_repeat_times := of_nat (reps - f), m_time_out_tick := of_nat (first + f * period)\<rparr>] \<and>
           m_timer_invokers sm (m_name t) = Some h \<and> now \<le> first + f * period
      else m_timer_queue sm = [])"

lemma lone_timer_tick:
  assumes l: "lone_timer t first period reps f now h sm"
    and p: "m_period_as_tick t = of_nat period" "0 < period" "period < 2 ^ 32"
    and big: "first + reps * period < 2 ^ 64" "now < 2 ^ 64" "reps < 2 ^ 64"
  shows "\<exists>f'. lone_timer t first period reps f' (Suc now) h (snd (on_timer_tick (of_nat now) sm)) \<and>
           length (fst (on_timer_tick (of_nat now) sm)) = f' - f \<and> f \<le> f'"
proof (cases "f < reps")
  case False
  then have q: "m_timer_queue sm = []" "sm_inv sm" using l by (simp_all add: lone_timer_def)
  have "lone_timer t first period reps f (Suc now) h (snd (on_timer_tick (of_nat now) sm))"
    using l False q on_timer_tick_inv [OF q(2)] on_timer_tick_ok(2) [OF q(2)]
    by (auto simp: lone_timer_def less_Suc_eq)
  moreover have "fst (on_timer_tick (of_nat now) sm) = []"
    unfolding on_timer_tick_ok(1) [OF q(2)] by (simp add: q timer_calls_def)
  ultimately show ?thesis by (intro exI [of _ f]) simp
next
  case True
  let ?t = "t\<lparr>m_repeat_times := of_nat (reps - f), m_time_out_tick := of_nat (first + f * period)\<rparr>"
  have s: "sm_inv sm" "m_timer_queue sm = [?t]" "m_timer_invokers sm (m_name t) = Some h" "now \<le> first + f * period"
    "\<forall>k<f. first + k * period < now"
    using l True by (simp_all add: lone_timer_def)
  have fp: "f * period + period \<le> reps * period" using True mult_le_mono1 [of "Suc f" reps period] by simp
  have due: "due (of_nat now) ?t \<longleftrightarrow> now = first + f * period"
    using of_nat_le64 [of "first + f * period" now] fp big s(4) by (auto simp: due_def)
  note tk = on_timer_tick_ok [OF s(1), where tick = "of_nat now", unfolded s(2)]
  show ?thesis
  proof (cases "now = first + f * period")
    case False
    then have nd: "\<not> due (of_nat now) ?t" using due by simp
    have "m_timer_queue (snd (on_timer_tick (of_nat now) sm)) = [?t]"
      "m_timer_invokers (snd (on_timer_tick (of_nat now) sm)) (m_name t) = Some h"
      "fst (on_timer_tick (of_nat now) sm) = []"
      using tk(1,2) tk(3) [of "m_name t"] nd s(3) by (simp_all add: spent_def rearmed_def timer_calls_def)
    moreover have "Suc now \<le> first + f * period" using False s(4) by simp
    moreover have "\<forall>k<f. first + k * period < Suc now" using s(5) by (auto simp: less_Suc_eq)
    ultimately show ?thesis
      using True on_timer_tick_inv [OF s(1)] by (intro exI [of _ f]) (simp add: lone_timer_def)
  next
    case now: True
    have d: "due (of_nat now) ?t" using due now by simp
    have one: "spent (of_nat now) ?t \<longleftrightarrow> Suc f = reps"
    proof -
      have "(of_nat (reps - f) :: u64) = 1 \<longleftrightarrow> reps - f = 1"
        using big(3) by (simp add: word_unat_eq_iff unat_of_nat)
      then show ?thesis using d True by (auto simp: spent_def)
    qed
    have call: "length (fst (on_timer_tick (of_nat now) sm)) = 1"
      using tk(1) d s(3) by (simp add: timer_calls_def)
    have k: "\<forall>k<Suc f. first + k * period < Suc now" using s(5) now by (auto simp: less_Suc_eq)
    have "lone_timer t first period reps (Suc f) (Suc now) h (snd (on_timer_tick (of_nat now) sm))"
    proof (cases "Suc f = reps")
      case True
      then show ?thesis
        using one k tk(2) on_timer_tick_inv [OF s(1)] by (auto simp: lone_timer_def)
    next
      case False
      have "ucast (of_nat period :: u32) = (of_nat period :: u64)"
        using p(3) by (simp add: word_unat_eq_iff unsigned_ucast_eq unat_of_nat take_bit_nat_eq_self)
      then have "rearmed (of_nat now) ?t =
          t\<lparr>m_repeat_times := of_nat (reps - Suc f), m_time_out_tick := of_nat (first + Suc f * period)\<rparr>"
        using d True p(1) by (simp add: rearmed_def of_nat_diff Suc_leI algebra_simps)
      then show ?thesis
        using False True one k tk(2) tk(3) [of "m_name t"] s(3) now p(2) on_timer_tick_inv [OF s(1)]
        by (auto simp: lone_timer_def)
    qed
    then show ?thesis using call by (intro exI [of _ "Suc f"]) simp
  qed
qed

lemma lone_timer_ticks:
  assumes "lone_timer t first period reps f start h sm"
    and "m_period_as_tick t = of_nat period" "0 < period" "period < 2 ^ 32"
    and "first + reps * period < 2 ^ 64" "start + n < 2 ^ 64" "reps < 2 ^ 64"
  shows "\<exists>f'. lone_timer t first period reps f' (start + n) h (snd (run_ticks (map of_nat [start..<start + n]) sm)) \<and>
           length (fst (run_ticks (map of_nat [start..<start + n]) sm)) = f' - f \<and> f \<le> f'"
  using assms(6)
proof (induction n)
  case 0
  then show ?case using assms(1) by (intro exI [of _ f]) simp
next
  case (Suc n)
  then obtain f' where f': "lone_timer t first period reps f' (start + n) h (snd (run_ticks (map of_nat [start..<start + n]) sm))"
    "length (fst (run_ticks (map of_nat [start..<start + n]) sm)) = f' - f" "f \<le> f'" by auto
  have "start + n < 2 ^ 64" using Suc.prems by simp
  from lone_timer_tick [OF f'(1) assms(2-5) this assms(7)] f'(2,3) show ?case
    by (force simp: run_ticks_append case_prod_unfold Let_def)
qed

section \<open>Properties\<close>


definition sample_ops :: "(nat, string, unit) sm_op list" where
  "sample_ops =
     [Send \<lparr>s_name = ''a'', s_content = Content 1\<rparr>, Turn,
      Send \<lparr>s_name = TIMER_TICK_NOTIFICATION, s_content = Time_tick 5\<rparr>, Add_timer 0 ''t'' 0 100 1 [] (Some ''h''), Turn]"


text \<open>One tick of the clock: exactly the timers whose time has come and that have a handler are
  called, once each and in order; a timer that was due for the last time leaves the queue, the
  other due ones lose one repetition and move on by their period; the handlers of the timers that
  left are forgotten.\<close>

theorem timer_tick_effect:
  assumes "sm_inv sm" and "on_timer_tick tick sm = (cs, sm')"
  shows "cs = timer_calls (m_timer_invokers sm) tick (m_timer_queue sm) \<and>
         m_timer_queue sm' = map (rearmed tick) (filter (\<lambda>t. \<not> spent tick t) (m_timer_queue sm)) \<and>
         (\<forall>n. m_timer_invokers sm' n =
            (if n \<noteq> [] \<and> (\<exists>t\<in>set (m_timer_queue sm). spent tick t \<and> m_name t = n) then None
             else m_timer_invokers sm n)) \<and> sm_inv sm'"
  using on_timer_tick_ok [OF assms(1), of tick] on_timer_tick_inv [OF assms(1), of tick] assms(2) by simp

definition two_timers :: "(nat, string, unit) service_module" where
  "two_timers =
     snd (add_timer 0 ''t'' 0 100 1 ''s2'' (Some ''h'') (snd (add_timer 0 ''t'' 0 100 1 ''s1'' (Some ''h'') new_service_module)))"

lemma two_timers_inv: "sm_inv two_timers"
  unfolding two_timers_def by (intro add_timer_inv new_inv)

theorem timer_tick_effect_witness:
  "fst (on_timer_tick 5 two_timers) = timer_calls (m_timer_invokers two_timers) 5 (m_timer_queue two_timers) \<and>
   m_timer_queue (snd (on_timer_tick 5 two_timers)) =
     map (rearmed 5) (filter (\<lambda>t. \<not> spent 5 t) (m_timer_queue two_timers))"
  using timer_tick_effect [OF two_timers_inv, of 5] by (cases "on_timer_tick 5 two_timers") simp

text \<open>A timer fires on schedule. Take a timer with a handler whose first turn is at tick \<open>first\<close>, with a
  period of at least one tick, alone in its module, and let the clock deliver the ticks \<open>start\<close>,
  \<open>start + 1\<close>, ... up to \<open>now - 1\<close>. It has then been called exactly once for each of its turns
  \<open>first + k * period\<close> before \<open>now\<close>, up to its number of repetitions, and if turns remain it is still
  armed for the next of them.\<close>

theorem timer_fires_on_schedule:
  assumes "lone_timer t first period reps 0 start h sm"
    and "m_period_as_tick t = of_nat period" and "0 < period" and "period < 2 ^ 32"
    and "first + reps * period < 2 ^ 64" and "start + n < 2 ^ 64" and "reps < 2 ^ 64"
  defines "run \<equiv> run_ticks (map of_nat [start..<start + n]) sm"
  shows "length (fst run) = card {k. k < reps \<and> first + k * period < start + n} \<and>
         (length (fst run) < reps \<longrightarrow> (\<exists>t'. m_timer_queue (snd run) = [t'] \<and> m_timer_id t' = m_timer_id t \<and>
            m_time_out_tick t' = of_nat (first + length (fst run) * period)))"
proof -
  from lone_timer_ticks [OF assms(1-7)] obtain f where
    f: "lone_timer t first period reps f (start + n) h (snd run)" "length (fst run) = f" by (auto simp: run_def)
  have "{k. k < reps \<and> first + k * period < start + n} = {..<f}"
  proof (intro set_eqI iffI; simp)
    fix k assume k: "k < reps \<and> first + k * period < start + n"
    show "k < f"
    proof (rule ccontr)
      assume "\<not> k < f"
      moreover from this k have "start + n \<le> first + f * period" using f(1) by (simp add: lone_timer_def)
      moreover have "f * period \<le> k * period" using \<open>\<not> k < f\<close> by (intro mult_le_mono1) simp
      ultimately show False using k by linarith
    qed
  next
    fix k assume "k < f"
    then show "k < reps \<and> first + k * period < start + n" using f(1) by (auto simp: lone_timer_def)
  qed
  then show ?thesis using f by (auto simp: lone_timer_def)
qed

definition one_timer :: "(nat, string, unit) service_module" where
  "one_timer = snd (add_timer 0 ''t'' 200 300 3 ''s'' (Some ''h'') new_service_module)"

definition the_timer :: core_timer where
  "the_timer = (new_core_timer 0 ''t'' 200 300 3 ''s'')\<lparr>m_timer_id := 1\<rparr>"

lemma one_timer_lone: "lone_timer the_timer 2 3 3 0 1 ''h'' one_timer"
proof -
  have "sm_inv one_timer" unfolding one_timer_def by (intro add_timer_inv new_inv)
  then show ?thesis
    by (simp add: lone_timer_def one_timer_def add_timer_def Let_def DEFAULT_TIMER_INTERVAL_def MAX_TIMER_ID_def
        new_service_module_def the_timer_def new_core_timer_def as_tick_def)
qed

theorem timer_fires_on_schedule_witness:
  "length (fst (run_ticks (map of_nat [1..<1 + 6]) one_timer)) = card {k. k < 3 \<and> 2 + k * 3 < 1 + (6 :: nat)}"
proof -
  have "m_period_as_tick the_timer = of_nat 3" by (simp add: the_timer_def new_core_timer_def as_tick_def)
  from timer_fires_on_schedule [OF one_timer_lone this, of 6] show ?thesis by simp
qed

text \<open>Removing a timer disarms its namesakes: the handler is stored under the name of the timer, so
  removing one of two timers with the same name leaves the other in the queue without a handler,
  and no tick will call anything for it.\<close>

theorem remove_timer_disarms_namesakes:
  assumes "sm_inv sm" and "t1 \<in> set (m_timer_queue sm)" and "t2 \<in> set (m_timer_queue sm)"
    and "m_timer_id t1 \<noteq> m_timer_id t2" and "m_name t1 = m_name t2" and "m_name t1 \<noteq> []"
  shows "t2 \<in> set (m_timer_queue (remove_timer (m_timer_id t1) sm)) \<and>
         (\<forall>tick f t. Timer_call f t \<in> set (fst (on_timer_tick tick (remove_timer (m_timer_id t1) sm))) \<longrightarrow>
            m_name t \<noteq> m_name t2)"
proof -
  let ?sm = "remove_timer (m_timer_id t1) sm"
  have d: "distinct (map m_timer_id (m_timer_queue sm))" using assms(1) by (simp add: sm_inv_def)
  have "m_timer_invokers ?sm (m_name t2) = None"
    using remove_timer_invokers [OF d, of "m_timer_id t1" "m_name t2"] assms by auto
  then show ?thesis
    using assms remove_timer_queue [OF d]
    by (auto simp: on_timer_tick_ok(1) [OF remove_timer_inv [OF assms(1)]] timer_calls_def split: option.splits)
qed

lemma two_timers_queue:
  "m_timer_queue two_timers =
     [(new_core_timer 0 ''t'' 0 100 1 ''s1'')\<lparr>m_timer_id := 1\<rparr>, (new_core_timer 0 ''t'' 0 100 1 ''s2'')\<lparr>m_timer_id := 2\<rparr>]"
  by (simp add: two_timers_def add_timer_def Let_def DEFAULT_TIMER_INTERVAL_def MAX_TIMER_ID_def new_service_module_def)

theorem remove_timer_disarms_namesakes_witness:
  "length (m_timer_queue (remove_timer 1 two_timers)) = 1 \<and>
   {t. \<exists>tick f. Timer_call f t \<in> set (fst (on_timer_tick tick (remove_timer 1 two_timers))) \<and> m_name t = ''t''} = {}"
  using remove_timer_disarms_namesakes [OF two_timers_inv, of "(new_core_timer 0 ''t'' 0 100 1 ''s1'')\<lparr>m_timer_id := 1\<rparr>"
      "(new_core_timer 0 ''t'' 0 100 1 ''s2'')\<lparr>m_timer_id := 2\<rparr>"]
    remove_timer_queue [of two_timers 1]
  by (auto simp add: two_timers_queue new_core_timer_def)

text \<open>Unregistering does not unsubscribe: \<open>unreg_msg_handle\<close> and \<open>exit\<close> ask the bus to remove handlers of
  type \<open>std::function<void()>\<close>, while registration subscribed one that takes a message, so every
  handler the bus had for a message is still there.\<close>

theorem unregistered_handlers_stay_subscribed:
  fixes r :: "'me registry"
  assumes "\<And>t t' a b. t @ tyname a = t' @ tyname b \<Longrightarrow> t = t' \<and> a = b"
  shows "topic_publish tyname topic Fun_void_message (snd (unreg_msg_handle tyname name (sm, r))) =
           topic_publish tyname topic Fun_void_message r \<and>
         topic_publish tyname topic Fun_void_message (snd (service_exit tyname names (sm, r))) =
           topic_publish tyname topic Fun_void_message r"
proof -
  have keep: "topic_publish tyname topic Fun_void_message (topic_unsubscribe tyname n Fun_void q) =
      topic_publish tyname topic Fun_void_message q" for n and q :: "'me registry"
    using assms [of topic Fun_void_message n Fun_void]
    by (auto simp: topic_publish_def topic_unsubscribe_def equal_range_erase)
  have "topic_publish tyname topic Fun_void_message (fold (\<lambda>n. topic_unsubscribe tyname n Fun_void) names q) =
      topic_publish tyname topic Fun_void_message q" for q :: "'me registry"
    by (induction names arbitrary: q) (simp_all add: keep)
  with keep show ?thesis
    by (simp add: unreg_msg_handle_def service_exit_def remove_all_msg_handle_def Let_def)
qed

theorem unregistered_handlers_stay_subscribed_witness:
  "topic_publish tyname_example ''m'' Fun_void_message
     (snd (unreg_msg_handle tyname_example ''m''
       (new_service_module :: (nat, string, unit) service_module,
        topic_subscribe tyname_example ''m'' Fun_void_message (1 :: nat) []))) = [1]"
proof -
  let ?r = "topic_subscribe tyname_example ''m'' Fun_void_message (1 :: nat) []"
  have "topic_publish tyname_example ''m'' Fun_void_message ?r = [1]"
    by (simp add: topic_subscribe_def topic_add_def topic_publish_def equal_range_def)
  with unregistered_handlers_stay_subscribed [where tyname = tyname_example and topic = "''m''" and name = "''m''"
      and sm = "new_service_module :: (nat, string, unit) service_module" and r = ?r and names = "[]",
      OF tyname_example_unambiguous]
  show ?thesis by simp
qed

end
