(* ===== verification/Vm_Client.thy ===== *)
theory Vm_Client
  imports Prelude
begin

text \<open>
  The client of the hypervisor (\<open>task/vm/vm_client.{h,cpp}\<close>) and the part of the host the task layer
  reads and changes. The host is a state of any type; libvirt, the shell and the file system are a
  record of operations on it. \<open>domains_ok\<close> collects what the documentation of libvirt promises
  about them: an operation on one domain leaves the others alone, a domain that was destroyed is
  shut off, one that was created runs, one that was undefined is gone.
\<close>

section \<open>The host\<close>

datatype virDomainState = VIR_DOMAIN_NOSTATE | VIR_DOMAIN_RUNNING | VIR_DOMAIN_BLOCKED | VIR_DOMAIN_PAUSED
  | VIR_DOMAIN_SHUTDOWN | VIR_DOMAIN_SHUTOFF | VIR_DOMAIN_CRASHED | VIR_DOMAIN_PMSUSPENDED

type_synonym errcode = i32
type_synonym fresult = "errcode \<times> string"

definition ERR_SUCCESS :: errcode where "ERR_SUCCESS = 0"
definition ERR_ERROR :: errcode where "ERR_ERROR = 1"
definition E_VIRT_DOMAIN_NOT_FOUND :: errcode where "E_VIRT_DOMAIN_NOT_FOUND = - 21"

definition FResultOk :: fresult where "FResultOk = (ERR_SUCCESS, ''ok'')"
definition FResultError :: fresult where "FResultError = (ERR_ERROR, ''error'')"

lemma errcode_neq [simp]:
  "ERR_ERROR \<noteq> ERR_SUCCESS" "E_VIRT_DOMAIN_NOT_FOUND \<noteq> ERR_SUCCESS" "ERR_SUCCESS \<noteq> ERR_ERROR" "fst FResultOk = ERR_SUCCESS"
  by (simp_all add: ERR_ERROR_def ERR_SUCCESS_def E_VIRT_DOMAIN_NOT_FOUND_def FResultOk_def)

text \<open>A call of libvirt returns whether it succeeded (a result that is not negative).\<close>

record 'h host_env =
  virDomainLookupByName :: "'h \<Rightarrow> string \<Rightarrow> bool"
  virDomainGetInfo :: "'h \<Rightarrow> string \<Rightarrow> virDomainState option"
  virDomainCreate :: "string \<Rightarrow> 'h \<Rightarrow> bool \<times> 'h"
  virDomainPMWakeup :: "string \<Rightarrow> 'h \<Rightarrow> bool \<times> 'h"
  virDomainSuspend :: "string \<Rightarrow> 'h \<Rightarrow> bool \<times> 'h"
  virDomainResume :: "string \<Rightarrow> 'h \<Rightarrow> bool \<times> 'h"
  virDomainReboot :: "string \<Rightarrow> 'h \<Rightarrow> bool \<times> 'h"
  virDomainShutdown :: "string \<Rightarrow> 'h \<Rightarrow> bool \<times> 'h"
  virDomainDestroy :: "string \<Rightarrow> 'h \<Rightarrow> bool \<times> 'h"
  virDomainReset :: "string \<Rightarrow> 'h \<Rightarrow> bool \<times> 'h"
  virDomainUndefine :: "string \<Rightarrow> 'h \<Rightarrow> bool \<times> 'h"
  virDomainUndefineNvram :: "string \<Rightarrow> 'h \<Rightarrow> bool \<times> 'h"
  virDomainHasNvram :: "'h \<Rightarrow> string \<Rightarrow> bool option"
  virConnectListDomains :: "'h \<Rightarrow> i32 list option"
  virDomainLookupByID :: "'h \<Rightarrow> i32 \<Rightarrow> string option"
  virDomainInterfaceAddresses :: "string \<Rightarrow> 'h \<Rightarrow> string list list \<times> 'h"
  virNWFilterDefine :: "string \<Rightarrow> string list \<Rightarrow> 'h \<Rightarrow> bool \<times> 'h"
  virNWFilterLookupByName :: "'h \<Rightarrow> string \<Rightarrow> bool"
  virNWFilterUndefine :: "string \<Rightarrow> 'h \<Rightarrow> bool \<times> 'h"
  CreateDomain :: "string \<Rightarrow> 'h \<Rightarrow> bool \<times> 'h"
  RedefineDomain :: "string \<Rightarrow> 'h \<Rightarrow> 'h"
  AttachDisk :: "string \<Rightarrow> string \<Rightarrow> string \<Rightarrow> 'h \<Rightarrow> bool \<times> 'h"
  DetachDisk :: "string \<Rightarrow> string \<Rightarrow> 'h \<Rightarrow> bool \<times> 'h"
  GetDiskVirtualSize :: "'h \<Rightarrow> string \<Rightarrow> string \<Rightarrow> i64"
  SetDomainUserPassword :: "string \<Rightarrow> string \<Rightarrow> string \<Rightarrow> 'h \<Rightarrow> bool \<times> 'h"
  run_shell :: "string \<Rightarrow> 'h \<Rightarrow> string \<times> 'h"
  is_regular_file :: "'h \<Rightarrow> string \<Rightarrow> bool"
  file_exists :: "'h \<Rightarrow> string \<Rightarrow> bool"
  remove_file :: "string \<Rightarrow> 'h \<Rightarrow> 'h"

text \<open>\<open>m_connPtr\<close> is null before the connection is opened and after the close callback.\<close>

record 'h vm =
  m_connPtr :: bool
  host :: 'h

section \<open>Operations\<close>

definition ConnectCloseCb :: "'h vm \<Rightarrow> 'h vm" where
  "ConnectCloseCb v = v\<lparr>m_connPtr := False\<rparr>"

definition IsExistDomain :: "('h, 'z) host_env_scheme \<Rightarrow> string \<Rightarrow> 'h vm \<Rightarrow> bool" where
  "IsExistDomain E d v \<longleftrightarrow> m_connPtr v \<and> virDomainLookupByName E (host v) d"

definition GetDomainStatus :: "('h, 'z) host_env_scheme \<Rightarrow> string \<Rightarrow> 'h vm \<Rightarrow> virDomainState" where
  "GetDomainStatus E d v =
     (if \<not> m_connPtr v then VIR_DOMAIN_NOSTATE
      else if \<not> virDomainLookupByName E (host v) d then VIR_DOMAIN_NOSTATE
      else case virDomainGetInfo E (host v) d of None \<Rightarrow> VIR_DOMAIN_NOSTATE | Some s \<Rightarrow> s)"

text \<open>The body the operations share: look the domain up, read its state, act on it.\<close>

definition with_domain ::
    "('h, 'z) host_env_scheme \<Rightarrow> string \<Rightarrow> (virDomainState \<Rightarrow> 'h \<Rightarrow> bool \<times> 'h) \<Rightarrow> 'h vm \<Rightarrow> errcode \<times> 'h vm" where
  "with_domain E d act v =
     (if \<not> m_connPtr v then (ERR_ERROR, v)
      else if \<not> virDomainLookupByName E (host v) d then (E_VIRT_DOMAIN_NOT_FOUND, v)
      else case virDomainGetInfo E (host v) d of
        None \<Rightarrow> (ERR_ERROR, v)
      | Some s \<Rightarrow> (case act s (host v) of (ok, h) \<Rightarrow> (if ok then ERR_SUCCESS else ERR_ERROR, v\<lparr>host := h\<rparr>)))"

definition StartDomain :: "('h, 'z) host_env_scheme \<Rightarrow> string \<Rightarrow> 'h vm \<Rightarrow> errcode \<times> 'h vm" where
  "StartDomain E d = with_domain E d (\<lambda>s h.
     if s = VIR_DOMAIN_NOSTATE \<or> s = VIR_DOMAIN_SHUTOFF then virDomainCreate E d h
     else if s = VIR_DOMAIN_PMSUSPENDED then virDomainPMWakeup E d h else (True, h))"

definition SuspendDomain :: "('h, 'z) host_env_scheme \<Rightarrow> string \<Rightarrow> 'h vm \<Rightarrow> errcode \<times> 'h vm" where
  "SuspendDomain E d = with_domain E d (\<lambda>s h. if s = VIR_DOMAIN_RUNNING then virDomainSuspend E d h else (True, h))"

definition ResumeDomain :: "('h, 'z) host_env_scheme \<Rightarrow> string \<Rightarrow> 'h vm \<Rightarrow> errcode \<times> 'h vm" where
  "ResumeDomain E d = with_domain E d (\<lambda>s h. if s = VIR_DOMAIN_PMSUSPENDED then virDomainResume E d h else (True, h))"

definition RebootDomain :: "('h, 'z) host_env_scheme \<Rightarrow> string \<Rightarrow> 'h vm \<Rightarrow> errcode \<times> 'h vm" where
  "RebootDomain E d = with_domain E d (\<lambda>s h. if s = VIR_DOMAIN_RUNNING then virDomainReboot E d h else (True, h))"

definition ShutdownDomain :: "('h, 'z) host_env_scheme \<Rightarrow> string \<Rightarrow> 'h vm \<Rightarrow> errcode \<times> 'h vm" where
  "ShutdownDomain E d = with_domain E d (\<lambda>s h. if s = VIR_DOMAIN_RUNNING then virDomainShutdown E d h else (True, h))"

definition DestroyDomain :: "('h, 'z) host_env_scheme \<Rightarrow> string \<Rightarrow> 'h vm \<Rightarrow> errcode \<times> 'h vm" where
  "DestroyDomain E d = with_domain E d (\<lambda>s h. if s \<noteq> VIR_DOMAIN_SHUTOFF then virDomainDestroy E d h else (True, h))"

definition ResetDomain :: "('h, 'z) host_env_scheme \<Rightarrow> string \<Rightarrow> 'h vm \<Rightarrow> errcode \<times> 'h vm" where
  "ResetDomain E d = with_domain E d (\<lambda>s h. if s = VIR_DOMAIN_RUNNING then virDomainReset E d h else (True, h))"

definition UndefineDomain :: "('h, 'z) host_env_scheme \<Rightarrow> string \<Rightarrow> 'h vm \<Rightarrow> errcode \<times> 'h vm" where
  "UndefineDomain E d v =
     (if \<not> m_connPtr v then (ERR_ERROR, v)
      else if \<not> virDomainLookupByName E (host v) d then (E_VIRT_DOMAIN_NOT_FOUND, v)
      else case virDomainUndefine E d (host v) of (ok, h) \<Rightarrow> (if ok then ERR_SUCCESS else ERR_ERROR, v\<lparr>host := h\<rparr>))"

text \<open>The domain is undefined also when it could not be destroyed.\<close>

definition DestroyAndUndefineDomain :: "('h, 'z) host_env_scheme \<Rightarrow> string \<Rightarrow> bool \<Rightarrow> 'h vm \<Rightarrow> errcode \<times> 'h vm" where
  "DestroyAndUndefineDomain E d nvram = with_domain E d (\<lambda>s h.
     let (ok1, h) = (if s \<noteq> VIR_DOMAIN_SHUTOFF then virDomainDestroy E d h else (True, h));
         (ok2, h) = (if nvram then virDomainUndefineNvram E d h else virDomainUndefine E d h)
     in (ok1 \<and> ok2, h))"

text \<open>-1 when the domain or its description cannot be read.\<close>

definition IsDomainHasNvram :: "('h, 'z) host_env_scheme \<Rightarrow> string \<Rightarrow> 'h vm \<Rightarrow> int" where
  "IsDomainHasNvram E d v =
     (if \<not> m_connPtr v then - 1 else if \<not> virDomainLookupByName E (host v) d then - 1
      else case virDomainHasNvram E (host v) d of None \<Rightarrow> - 1 | Some True \<Rightarrow> 1 | Some False \<Rightarrow> 0)"

definition ListAllRunningDomains :: "('h, 'z) host_env_scheme \<Rightarrow> 'h vm \<Rightarrow> string list" where
  "ListAllRunningDomains E v =
     (if \<not> m_connPtr v then []
      else case virConnectListDomains E (host v) of
        None \<Rightarrow> []
      | Some ids \<Rightarrow> concat (map (\<lambda>i. case virDomainLookupByID E (host v) i of
            None \<Rightarrow> []
          | Some d \<Rightarrow> (if virDomainGetInfo E (host v) d = Some VIR_DOMAIN_RUNNING then [d] else [])) ids))"

definition DefineNWFilter :: "('h, 'z) host_env_scheme \<Rightarrow> string \<Rightarrow> string list \<Rightarrow> 'h vm \<Rightarrow> bool \<times> 'h vm" where
  "DefineNWFilter E name rules v =
     (if \<not> m_connPtr v then (False, v) else case virNWFilterDefine E name rules (host v) of (ok, h) \<Rightarrow> (ok, v\<lparr>host := h\<rparr>))"

definition UndefineNWFilter :: "('h, 'z) host_env_scheme \<Rightarrow> string \<Rightarrow> 'h vm \<Rightarrow> bool \<times> 'h vm" where
  "UndefineNWFilter E name v =
     (if \<not> m_connPtr v then (False, v) else if \<not> virNWFilterLookupByName E (host v) name then (False, v)
      else case virNWFilterUndefine E name (host v) of (ok, h) \<Rightarrow> (ok, v\<lparr>host := h\<rparr>))"

text \<open>
  \<open>GetDomainLocalIP\<close>: at most 1000 tries, every 300th of them with a restart of the domain. \<open>n\<close> are
  the tries left, \<open>1000 - n\<close> the counter of the code.
\<close>

definition restart_now :: "nat \<Rightarrow> bool" where
  "restart_now try_count \<longleftrightarrow> (try_count + 1) mod 300 = 0"

definition local_ip_try :: "('h, 'z) host_env_scheme \<Rightarrow> string \<Rightarrow> nat \<Rightarrow> 'h vm \<Rightarrow> string \<times> 'h vm" where
  "local_ip_try E d try_count v =
     (if \<not> m_connPtr v \<or> \<not> virDomainLookupByName E (host v) d then ([], v)
      else let (go, h) = (if \<not> restart_now try_count then (True, host v)
                 else case virDomainDestroy E d (host v) of
                   (False, h) \<Rightarrow> (False, h) | (True, h) \<Rightarrow> virDomainCreate E d h)
           in if \<not> go then ([], v\<lparr>host := h\<rparr>)
              else case virDomainInterfaceAddresses E d h of
                (ifs, h) \<Rightarrow> (case filter (\<lambda>a. a \<noteq> []) (concat ifs) of [] \<Rightarrow> [] | a # _ \<Rightarrow> a, v\<lparr>host := h\<rparr>))"

fun local_ip_loop :: "('h, 'z) host_env_scheme \<Rightarrow> string \<Rightarrow> nat \<Rightarrow> 'h vm \<Rightarrow> string \<times> 'h vm" where
  "local_ip_loop E d 0 v = ([], v)"
| "local_ip_loop E d (Suc n) v =
     (case local_ip_try E d (1000 - Suc n) v of (ip, v) \<Rightarrow> if ip \<noteq> [] then (ip, v) else local_ip_loop E d n v)"

definition GetDomainLocalIP :: "('h, 'z) host_env_scheme \<Rightarrow> string \<Rightarrow> 'h vm \<Rightarrow> string \<times> 'h vm" where
  "GetDomainLocalIP E d = local_ip_loop E d 1000"

definition vm_status_string :: "virDomainState \<Rightarrow> string" where
  "vm_status_string s = (case s of
     VIR_DOMAIN_NOSTATE \<Rightarrow> ''none'' | VIR_DOMAIN_PAUSED \<Rightarrow> ''paused'' | VIR_DOMAIN_RUNNING \<Rightarrow> ''running''
   | VIR_DOMAIN_SHUTOFF \<Rightarrow> ''shut_off'' | VIR_DOMAIN_BLOCKED \<Rightarrow> ''blocked'' | VIR_DOMAIN_SHUTDOWN \<Rightarrow> ''being shutdown''
   | VIR_DOMAIN_CRASHED \<Rightarrow> ''crashed'' | VIR_DOMAIN_PMSUSPENDED \<Rightarrow> ''suspended'')"

section \<open>What libvirt promises\<close>

text \<open>The state of a domain, \<open>None\<close> when there is no such domain (or its state cannot be read).\<close>

definition dom_state :: "('h, 'z) host_env_scheme \<Rightarrow> 'h \<Rightarrow> string \<Rightarrow> virDomainState option" where
  "dom_state E h d = (if virDomainLookupByName E h d then virDomainGetInfo E h d else None)"

text \<open>An operation that changes no other domain than \<open>d\<close>.\<close>

definition only_domain :: "('h, 'z) host_env_scheme \<Rightarrow> string \<Rightarrow> 'h \<Rightarrow> 'h \<Rightarrow> bool" where
  "only_domain E d h h' \<longleftrightarrow> (\<forall>d'. d' \<noteq> d \<longrightarrow> dom_state E h' d' = dom_state E h d')"

text \<open>
  The documented behaviour of the calls that end a domain: destroying a defined domain and undefining
  it concern that domain alone; a destroyed domain is shut off; an undefined one that was not active
  is gone, and otherwise keeps its state; network filters, files, domain descriptions read and the shell commands of the program
  do not change the state of a domain.
\<close>

definition domains_ok :: "('h, 'z) host_env_scheme \<Rightarrow> bool" where
  "domains_ok E \<longleftrightarrow>
     (\<forall>d h. only_domain E d h (snd (virDomainDestroy E d h))) \<and>
     (\<forall>d h. only_domain E d h (snd (virDomainUndefine E d h))) \<and>
     (\<forall>d h. only_domain E d h (snd (virDomainUndefineNvram E d h))) \<and>
     (\<forall>d h. fst (virDomainDestroy E d h) \<longrightarrow> dom_state E (snd (virDomainDestroy E d h)) d = Some VIR_DOMAIN_SHUTOFF) \<and>
     (\<forall>d h. dom_state E (snd (virDomainUndefine E d h)) d =
        (if fst (virDomainUndefine E d h) \<and> dom_state E h d = Some VIR_DOMAIN_SHUTOFF then None else dom_state E h d)) \<and>
     (\<forall>d h. dom_state E (snd (virDomainUndefineNvram E d h)) d =
        (if fst (virDomainUndefineNvram E d h) \<and> dom_state E h d = Some VIR_DOMAIN_SHUTOFF then None else dom_state E h d)) \<and>
     (\<forall>c h d. dom_state E (snd (run_shell E c h)) d = dom_state E h d) \<and>
     (\<forall>f h d. dom_state E (remove_file E f h) d = dom_state E h d) \<and>
     (\<forall>f h d. dom_state E (snd (virNWFilterUndefine E f h)) d = dom_state E h d)"

section \<open>Facts\<close>

lemma with_domain_conn [simp]: "m_connPtr (snd (with_domain E d act v)) = m_connPtr v"
  by (simp add: with_domain_def split: option.split prod.split)

lemma vm_op_conn [simp]:
  "m_connPtr (snd (StartDomain E d v)) = m_connPtr v" "m_connPtr (snd (RebootDomain E d v)) = m_connPtr v"
  "m_connPtr (snd (DestroyDomain E d v)) = m_connPtr v" "m_connPtr (snd (ResetDomain E d v)) = m_connPtr v"
  "m_connPtr (snd (DestroyAndUndefineDomain E d nv v)) = m_connPtr v"
  by (simp_all add: StartDomain_def RebootDomain_def DestroyDomain_def ResetDomain_def DestroyAndUndefineDomain_def)

lemma UndefineNWFilter_conn [simp]: "m_connPtr (snd (UndefineNWFilter E f v)) = m_connPtr v"
  by (simp add: UndefineNWFilter_def split: prod.split)

lemma dom_state_NWFilter [simp]: "domains_ok E \<Longrightarrow> dom_state E (host (snd (UndefineNWFilter E f v))) d = dom_state E (host v) d"
  by (simp add: UndefineNWFilter_def domains_ok_def split: prod.split) (metis snd_conv)

lemma GetDomainStatus_dom: "m_connPtr v \<Longrightarrow> GetDomainStatus E d v = (case dom_state E (host v) d of None \<Rightarrow> VIR_DOMAIN_NOSTATE | Some s \<Rightarrow> s)"
  by (simp add: GetDomainStatus_def dom_state_def)

lemma DestroyDomain_other:
  assumes "domains_ok E" "d' \<noteq> d"
  shows "dom_state E (host (snd (DestroyDomain E d v))) d' = dom_state E (host v) d'"
proof -
  have "only_domain E d h (snd (virDomainDestroy E d h))" for h using assms(1) by (simp add: domains_ok_def)
  then show ?thesis using assms(2)
    by (auto simp: DestroyDomain_def with_domain_def only_domain_def split: option.split prod.split) (metis snd_conv)+
qed

text \<open>A successful call leaves the domain shut off.\<close>

lemma DestroyDomain_shutoff:
  assumes "domains_ok E" "fst (DestroyDomain E d v) = ERR_SUCCESS"
  shows "dom_state E (host (snd (DestroyDomain E d v))) d = Some VIR_DOMAIN_SHUTOFF"
proof -
  have D: "fst (virDomainDestroy E d h) \<Longrightarrow> dom_state E (snd (virDomainDestroy E d h)) d = Some VIR_DOMAIN_SHUTOFF" for h
    using assms(1) by (simp add: domains_ok_def)
  show ?thesis using assms(2) D [of "host v"]
    by (auto simp: DestroyDomain_def with_domain_def dom_state_def split: option.splits prod.splits if_splits)
qed

lemma DestroyAndUndefine_other:
  assumes "domains_ok E" "d' \<noteq> d"
  shows "dom_state E (host (snd (DestroyAndUndefineDomain E d nv v))) d' = dom_state E (host v) d'"
proof -
  have "only_domain E d h (snd (virDomainDestroy E d h))" "only_domain E d h (snd (virDomainUndefine E d h))"
    "only_domain E d h (snd (virDomainUndefineNvram E d h))" for h
    using assms(1) by (simp_all add: domains_ok_def)
  then show ?thesis using assms(2)
    by (auto simp: DestroyAndUndefineDomain_def with_domain_def only_domain_def split: option.split prod.split) (metis snd_conv)+
qed

lemma DestroyAndUndefine_gone:
  assumes "domains_ok E" "fst (DestroyAndUndefineDomain E d nv v) = ERR_SUCCESS"
  shows "dom_state E (host (snd (DestroyAndUndefineDomain E d nv v))) d = None"
proof -
  have D: "fst (virDomainDestroy E d h) \<Longrightarrow> dom_state E (snd (virDomainDestroy E d h)) d = Some VIR_DOMAIN_SHUTOFF"
    and U: "fst (virDomainUndefine E d h) \<Longrightarrow> dom_state E h d = Some VIR_DOMAIN_SHUTOFF \<Longrightarrow> dom_state E (snd (virDomainUndefine E d h)) d = None"
    and N: "fst (virDomainUndefineNvram E d h) \<Longrightarrow> dom_state E h d = Some VIR_DOMAIN_SHUTOFF \<Longrightarrow> dom_state E (snd (virDomainUndefineNvram E d h)) d = None" for h
    using assms(1) unfolding domains_ok_def by simp_all
  obtain s where s: "m_connPtr v" "virDomainLookupByName E (host v) d" "virDomainGetInfo E (host v) d = Some s"
    using assms(2) by (auto simp: DestroyAndUndefineDomain_def with_domain_def split: option.splits if_splits)
  let ?r = "if s \<noteq> VIR_DOMAIN_SHUTOFF then virDomainDestroy E d (host v) else (True, host v)"
  obtain ok1 h1 where r: "?r = (ok1, h1)" by (rule prod.exhaust)
  obtain ok2 h2 where u: "(if nv then virDomainUndefineNvram E d h1 else virDomainUndefine E d h1) = (ok2, h2)" by (rule prod.exhaust)
  have e: "DestroyAndUndefineDomain E d nv v = (if ok1 \<and> ok2 then ERR_SUCCESS else ERR_ERROR, v\<lparr>host := h2\<rparr>)"
    using s r u by (simp add: DestroyAndUndefineDomain_def with_domain_def Let_def)
  then have ok: "ok1" "ok2" using assms(2) by (auto split: if_splits)
  have "dom_state E h1 d = Some VIR_DOMAIN_SHUTOFF"
    using r ok(1) D [of "host v"] s by (cases "s = VIR_DOMAIN_SHUTOFF") (auto simp: dom_state_def)
  with U [of h1] N [of h1] u ok(2) have "dom_state E h2 d = None" by (cases nv) auto
  then show ?thesis by (simp add: e)
qed

text \<open>The search for an address ends after 1000 tries and gives an address of the domain or none.\<close>

lemma local_ip_loop_conn [simp]: "m_connPtr (snd (local_ip_loop E d n v)) = m_connPtr v"
proof (induction n arbitrary: v)
  case (Suc n)
  have "m_connPtr (snd (local_ip_try E d t v)) = m_connPtr v" for t
    by (simp add: local_ip_try_def Let_def split: prod.split)
  then show ?case using Suc by (simp add: split_beta)
qed simp

text \<open>Off: shut off, or no such domain. Nothing the task layer does to end a domain turns one on.\<close>

definition off :: "('h, 'z) host_env_scheme \<Rightarrow> 'h \<Rightarrow> string \<Rightarrow> bool" where
  "off E h d \<longleftrightarrow> dom_state E h d = None \<or> dom_state E h d = Some VIR_DOMAIN_SHUTOFF"

lemma DestroyDomain_off_id:
  assumes "off E (host v) d"
  shows "host (snd (DestroyDomain E d v)) = host v"
  using assms by (auto simp: off_def dom_state_def DestroyDomain_def with_domain_def split: option.splits if_splits)

lemma DestroyDomain_keeps_off: "domains_ok E \<Longrightarrow> off E (host v) d' \<Longrightarrow> off E (host (snd (DestroyDomain E d v))) d'"
  using DestroyDomain_other [of E d' d v] DestroyDomain_off_id [of E v d] by (cases "d' = d") (simp_all add: off_def)

text \<open>When libvirt does what it is asked to.\<close>

definition destroy_works :: "('h, 'z) host_env_scheme \<Rightarrow> bool" where
  "destroy_works E \<longleftrightarrow> (\<forall>d h. dom_state E h d \<noteq> None \<longrightarrow> fst (virDomainDestroy E d h))"

lemma DestroyDomain_off:
  assumes "domains_ok E" "destroy_works E" "m_connPtr v"
  shows "off E (host (snd (DestroyDomain E d v))) d"
proof (cases "off E (host v) d")
  case True
  then show ?thesis using DestroyDomain_keeps_off [OF assms(1)] by blast
next
  case False
  then obtain s where "virDomainLookupByName E (host v) d" "virDomainGetInfo E (host v) d = Some s" "s \<noteq> VIR_DOMAIN_SHUTOFF"
    by (auto simp: off_def dom_state_def split: if_splits)
  moreover from this have "fst (virDomainDestroy E d (host v))" using assms(2) by (simp add: destroy_works_def dom_state_def)
  ultimately have "fst (DestroyDomain E d v) = ERR_SUCCESS"
    using assms(3) by (auto simp: DestroyDomain_def with_domain_def split: prod.split)
  from DestroyDomain_shutoff [OF assms(1) this] show ?thesis by (simp add: off_def)
qed

lemma undefine_keeps_off:
  assumes "domains_ok E" "off E h d'"
  shows "off E (snd (if nv then virDomainUndefineNvram E d h else virDomainUndefine E d h)) d'"
proof -
  have o: "only_domain E d h (snd (virDomainUndefine E d h))" "only_domain E d h (snd (virDomainUndefineNvram E d h))"
    and s: "dom_state E (snd (virDomainUndefine E d h)) d = (if fst (virDomainUndefine E d h) \<and> dom_state E h d = Some VIR_DOMAIN_SHUTOFF then None else dom_state E h d)"
      "dom_state E (snd (virDomainUndefineNvram E d h)) d = (if fst (virDomainUndefineNvram E d h) \<and> dom_state E h d = Some VIR_DOMAIN_SHUTOFF then None else dom_state E h d)"
    using assms(1) unfolding domains_ok_def by simp_all
  show ?thesis
  proof (cases "d' = d")
    case True
    then show ?thesis using assms(2) s by (simp add: off_def)
  next
    case False
    then show ?thesis using assms(2) o by (simp add: off_def only_domain_def)
  qed
qed

text \<open>Destroying and undefining is destroying, then undefining.\<close>

lemma DestroyAndUndefine_host:
  "host (snd (DestroyAndUndefineDomain E d nv v)) =
     (if m_connPtr v \<and> dom_state E (host v) d \<noteq> None
      then let h = host (snd (DestroyDomain E d v)) in snd (if nv then virDomainUndefineNvram E d h else virDomainUndefine E d h)
      else host v)"
  by (auto simp: DestroyAndUndefineDomain_def DestroyDomain_def with_domain_def dom_state_def Let_def split: option.splits prod.splits)

lemma DestroyAndUndefine_keeps_off:
  "domains_ok E \<Longrightarrow> off E (host v) d' \<Longrightarrow> off E (host (snd (DestroyAndUndefineDomain E d nv v))) d'"
  using undefine_keeps_off [of E "host (snd (DestroyDomain E d v))" d' nv d] DestroyDomain_keeps_off [of E v d' d]
  by (simp add: DestroyAndUndefine_host Let_def)

lemma DestroyAndUndefine_off:
  "domains_ok E \<Longrightarrow> destroy_works E \<Longrightarrow> m_connPtr v \<Longrightarrow> off E (host (snd (DestroyAndUndefineDomain E d nv v))) d"
  using undefine_keeps_off [of E "host (snd (DestroyDomain E d v))" d nv d] DestroyDomain_off [of E v d]
  by (simp add: DestroyAndUndefine_host Let_def) (simp add: off_def)

end
