(* ===== verification/Connection_Manager.thy ===== *)
theory Connection_Manager
  imports Channel_Handler
begin

text \<open>
  The connections of a node: \<open>network/connection_manager.{h,cpp}\<close>, \<open>tcp_acceptor.cpp\<close>, \<open>tcp_connector.cpp\<close>
  and \<open>utils/socket_id.h\<close>. Channels, connectors and acceptors are shared objects: they are in stores,
  and the tables hold references to them. A stop of a channel is posted to the thread of the channel
  and runs later. What is published on the bus is recorded.
\<close>

section \<open>Socket ids\<close>

datatype socket_type = SERVER_SOCKET | CLIENT_SOCKET

datatype socket_id = Socket_id (get_type: socket_type) (get_id: u64)

text \<open>The order of the tables, \<open>cmp_key\<close>.\<close>

definition socket_type_code :: "socket_type \<Rightarrow> nat" where
  "socket_type_code t = (case t of SERVER_SOCKET \<Rightarrow> 0 | CLIENT_SOCKET \<Rightarrow> 1)"

definition cmp_key :: "socket_id \<Rightarrow> socket_id \<Rightarrow> bool" where
  "cmp_key s1 s2 \<longleftrightarrow>
     socket_type_code (get_type s1) < socket_type_code (get_type s2) \<or>
     get_type s1 = get_type s2 \<and> get_id s1 < get_id s2"

lemma socket_type_code_inj: "socket_type_code a = socket_type_code b \<longleftrightarrow> a = b"
  by (cases a; cases b) (simp_all add: socket_type_code_def)

instantiation socket_id :: linorder
begin

definition less_socket_id :: "socket_id \<Rightarrow> socket_id \<Rightarrow> bool" where
  "less_socket_id = cmp_key"

definition less_eq_socket_id :: "socket_id \<Rightarrow> socket_id \<Rightarrow> bool" where
  "less_eq_socket_id s1 s2 \<longleftrightarrow> s1 = s2 \<or> cmp_key s1 s2"

instance
proof
  fix x y z :: socket_id
  show "x < y \<longleftrightarrow> x \<le> y \<and> \<not> y \<le> x" "x \<le> x" "x \<le> y \<Longrightarrow> y \<le> x \<Longrightarrow> x = y" "x \<le> y \<or> y \<le> x"
    by (cases x; cases y; auto simp: less_socket_id_def less_eq_socket_id_def cmp_key_def socket_type_code_inj
        simp flip: socket_type_code_inj)+
  show "x \<le> y \<Longrightarrow> y \<le> z \<Longrightarrow> x \<le> z"
    by (cases x; cases y; cases z) (auto simp: less_eq_socket_id_def cmp_key_def)
qed

end

section \<open>State\<close>

datatype address = Addr_v4 u8 u8 u8 u8 | Addr_v6 "u8 list"

type_synonym endpoint = "address \<times> u16"
type_synonym chan_ref = nat
type_synonym conn_ref = nat
type_synonym acc_ref = nat

definition MIN_CORE_FILEDESCRIPTORS :: int where "MIN_CORE_FILEDESCRIPTORS = 150"
definition MAX_OUTBOUND_CONNECTIONS :: int where "MAX_OUTBOUND_CONNECTIONS = 168"
definition MAX_ADDNODE_CONNECTIONS :: int where "MAX_ADDNODE_CONNECTIONS = 168"
definition FD_SETSIZE :: int where "FD_SETSIZE = 1024"
definition MIN_RELEASE_CHANNEL_USE_COUNT :: nat where "MIN_RELEASE_CHANNEL_USE_COUNT = 2"
definition RECONNECT_INTERVAL :: nat where "RECONNECT_INTERVAL = 2"
definition MAX_RECONNECT_TIMES :: u32 where "MAX_RECONNECT_TIMES = 2"

lemmas manager_consts = MIN_CORE_FILEDESCRIPTORS_def MAX_OUTBOUND_CONNECTIONS_def MAX_ADDNODE_CONNECTIONS_def
  FD_SETSIZE_def

text \<open>
  A \<open>tcp_socket_channel\<close> with what the manager sees of it. Its remote node id and capacity are in the
  environment of its handler.
\<close>

record net_channel =
  m_sid :: socket_id
  tcp :: "(tval message, handler_in) tcp_channel"
  m_remote_addr :: "endpoint option"
  m_local_addr :: "endpoint option"

record tcp_connector =
  conn_sid :: socket_id
  m_connect_addr :: endpoint
  m_max_reconnect_times :: u32
  m_connected :: bool
  m_reconnect_times :: u32
  m_client_channel :: chan_ref
  m_reconnect_timer :: "nat option"
  connecting :: bool

record tcp_acceptor =
  m_endpoint :: endpoint
  a_closed :: bool
  accepting :: chan_ref

datatype connect_status = CLIENT_CONNECT_SUCCESS | CLIENT_CONNECT_FAIL

datatype notice =
    Tcp_channel_error socket_id "endpoint option"
  | Client_connect_notification socket_id endpoint connect_status

record conn_mgr =
  m_cur_idx :: u64
  m_max_connect :: int
  m_acceptors :: "acc_ref list"
  m_connectors :: "conn_ref list"
  m_channels :: "(socket_id, chan_ref) smap"
  m_recycle_channels :: "(socket_id, chan_ref) smap"
  channels :: "chan_ref \<Rightarrow> net_channel"
  connectors :: "conn_ref \<Rightarrow> tcp_connector"
  acceptors :: "acc_ref \<Rightarrow> tcp_acceptor"
  next_ref :: nat
  posted_stops :: "chan_ref list"
  notices :: "notice list"

section \<open>Channels\<close>

definition upd_tcp :: "chan_ref \<Rightarrow> ((tval message, handler_in) tcp_channel \<Rightarrow> (tval message, handler_in) tcp_channel) \<Rightarrow> conn_mgr \<Rightarrow> conn_mgr" where
  "upd_tcp r f m = m\<lparr>channels := (channels m)(r := (channels m r)\<lparr>tcp := f (tcp (channels m r))\<rparr>)\<rparr>"

definition chan_state :: "conn_mgr \<Rightarrow> chan_ref \<Rightarrow> channel_state" where
  "chan_state m r = m_state (tcp (channels m r))"

definition is_stopped :: "conn_mgr \<Rightarrow> chan_ref \<Rightarrow> bool" where
  "is_stopped m r \<longleftrightarrow> chan_state m r = CHANNEL_STOPPED"

definition ready :: "conn_mgr \<Rightarrow> chan_ref \<Rightarrow> bool" where
  "ready m r = is_channel_ready (\<lambda>(h, e). m_login_success h) (tcp (channels m r))"

definition get_remote_node_id :: "conn_mgr \<Rightarrow> chan_ref \<Rightarrow> string" where
  "get_remote_node_id m r =
     (case peer (snd (m_socket_handler (tcp (channels m r)))) of Some (i, _) \<Rightarrow> i | None \<Rightarrow> [])"

definition upd_peer :: "(string \<times> matrix_capacity \<Rightarrow> string \<times> matrix_capacity) \<Rightarrow> chan_ref \<Rightarrow> conn_mgr \<Rightarrow> conn_mgr" where
  "upd_peer f r =
     upd_tcp r (\<lambda>c. c\<lparr>m_socket_handler := (case m_socket_handler c of (h, e) \<Rightarrow> (h, e\<lparr>peer := map_option f (peer e)\<rparr>))\<rparr>)"

definition set_remote_node_id :: "string \<Rightarrow> chan_ref \<Rightarrow> conn_mgr \<Rightarrow> conn_mgr" where
  "set_remote_node_id node_id = upd_peer (\<lambda>(_, c). (node_id, c))"

definition post_stop :: "chan_ref \<Rightarrow> conn_mgr \<Rightarrow> conn_mgr" where
  "post_stop r m = m\<lparr>posted_stops := posted_stops m @ [r]\<rparr>"

text \<open>The posted function, on the thread of the channel; \<open>kind\<close> is the class of its handler.\<close>

definition run_stop :: "handler_kind \<Rightarrow> chan_ref \<Rightarrow> conn_mgr \<Rightarrow> conn_mgr" where
  "run_stop kind r m =
     upd_tcp r (channel_stop (\<lambda>(h, e). (handler_stop kind h, e))) (m\<lparr>posted_stops := remove1 r (posted_stops m)\<rparr>)"

definition chan_on_error :: "chan_ref \<Rightarrow> conn_mgr \<Rightarrow> conn_mgr" where
  "chan_on_error r m =
     upd_tcp r on_error (m\<lparr>notices := notices m @ [Tcp_channel_error (m_sid (channels m r)) (m_remote_addr (channels m r))]\<rparr>)"

definition chan_close :: "chan_ref \<Rightarrow> conn_mgr \<Rightarrow> conn_mgr" where
  "chan_close r = upd_tcp r channel_close"

definition chan_write :: "chan_ref \<Rightarrow> tval message \<Rightarrow> (conn_mgr, bool) M" where
  "chan_write r msg m =
     (case channel_write write_in msg (tcp (channels m r)) of (res, c) \<Rightarrow> (res, upd_tcp r (\<lambda>_. c) m))"

text \<open>\<open>start\<close>; the addresses are those of the connected socket.\<close>

definition chan_start :: "handler_kind \<Rightarrow> endpoint \<times> endpoint \<Rightarrow> chan_ref \<Rightarrow> (conn_mgr, unit) M" where
  "chan_start kind addrs r m0 =
     (let m = m0\<lparr>channels := (channels m0)(r := (channels m0 r)\<lparr>m_remote_addr := Some (fst addrs), m_local_addr := Some (snd addrs)\<rparr>)\<rparr>
      in case start (\<lambda>(h, e). (on_before_msg_receive kind h, e)) (tcp (channels m r)) of
           (res, c) \<Rightarrow> (res, upd_tcp r (\<lambda>_. c) m))"

text \<open>
  Creation: \<open>e\<close> is the configuration the handler will see, \<open>f\<close> its filter. A new channel has no remote
  node id and the default capacity.
\<close>

definition make_channel :: "handler_env \<Rightarrow> bloomlru_filter \<Rightarrow> socket_id \<Rightarrow> conn_mgr \<Rightarrow> chan_ref \<times> conn_mgr" where
  "make_channel e f sid m =
     (next_ref m,
      m\<lparr>next_ref := next_ref m + 1,
        channels := (channels m)(next_ref m :=
          \<lparr>m_sid = sid, tcp = new_channel (new_handler f, e\<lparr>peer := Some ([], default_capacity)\<rparr>),
           m_remote_addr = None, m_local_addr = None\<rparr>)\<rparr>)"

definition alloc_socket_id :: "socket_type \<Rightarrow> conn_mgr \<Rightarrow> socket_id \<times> conn_mgr" where
  "alloc_socket_id t m = (Socket_id t (m_cur_idx m + 1), m\<lparr>m_cur_idx := m_cur_idx m + 1\<rparr>)"

section \<open>The table of channels\<close>

definition smap_erase :: "'k \<Rightarrow> ('k, 'v) smap \<Rightarrow> ('k, 'v) smap" where
  "smap_erase k m = filter (\<lambda>(k', _). k' \<noteq> k) m"

definition get_connect_num :: "conn_mgr \<Rightarrow> nat" where
  "get_connect_num m = length (filter (\<lambda>(k, r). \<not> is_stopped m r) (m_channels m))"

definition get_in_connect_num :: "conn_mgr \<Rightarrow> nat" where
  "get_in_connect_num m =
     length (filter (\<lambda>(k, r). get_type k = SERVER_SOCKET \<and> \<not> is_stopped m r) (m_channels m))"

definition get_out_connect_num :: "conn_mgr \<Rightarrow> nat" where
  "get_out_connect_num m =
     length (filter (\<lambda>(k, r). get_type k = CLIENT_SOCKET \<and> \<not> is_stopped m r) (m_channels m))"

definition check_over_max_connect :: "socket_type \<Rightarrow> conn_mgr \<Rightarrow> bool" where
  "check_over_max_connect st m \<longleftrightarrow>
     \<not> (st = SERVER_SOCKET \<and> int (get_in_connect_num m) > m_max_connect m - MAX_OUTBOUND_CONNECTIONS)"

definition add_channel :: "socket_id \<Rightarrow> chan_ref \<Rightarrow> conn_mgr \<Rightarrow> bool \<times> conn_mgr" where
  "add_channel sid r m =
     (if \<not> check_over_max_connect (get_type sid) m then (False, m)
      else if smap_lookup (m_channels m) sid \<noteq> None then (False, m)
      else (True, m\<lparr>m_channels := smap_insert sid r (m_channels m)\<rparr>))"

definition remove_channel :: "socket_id \<Rightarrow> conn_mgr \<Rightarrow> conn_mgr" where
  "remove_channel sid m = m\<lparr>m_channels := smap_erase sid (m_channels m)\<rparr>"

definition get_channel :: "socket_id \<Rightarrow> conn_mgr \<Rightarrow> chan_ref option" where
  "get_channel sid m = smap_lookup (m_channels m) sid"

definition stop_channel :: "socket_id \<Rightarrow> conn_mgr \<Rightarrow> bool \<times> conn_mgr" where
  "stop_channel sid m =
     (case smap_lookup (m_channels m) sid of
        None \<Rightarrow> (False, m)
      | Some r \<Rightarrow>
          let m1 = m\<lparr>m_channels := smap_erase sid (m_channels m)\<rparr>;
              m2 = (if \<not> is_stopped m1 r then post_stop r m1 else m1)
          in if smap_lookup (m_recycle_channels m2) sid \<noteq> None then (True, m2)
             else (True, m2\<lparr>m_recycle_channels := smap_insert sid r (m_recycle_channels m2)\<rparr>))"

definition on_tcp_channel_error :: "socket_id \<Rightarrow> conn_mgr \<Rightarrow> conn_mgr" where
  "on_tcp_channel_error sid m = snd (stop_channel sid m)"

definition stop_all :: "chan_ref list \<Rightarrow> conn_mgr \<Rightarrow> conn_mgr" where
  "stop_all rs m = fold (\<lambda>r m. if is_stopped m r then m else post_stop r m) rs m"

definition stop_all_channel :: "conn_mgr \<Rightarrow> conn_mgr" where
  "stop_all_channel m = (stop_all (map snd (m_channels m)) m)\<lparr>m_channels := []\<rparr>"

definition stop_all_recycle_channel :: "conn_mgr \<Rightarrow> conn_mgr" where
  "stop_all_recycle_channel m = (stop_all (map snd (m_recycle_channels m)) m)\<lparr>m_recycle_channels := []\<rparr>"

text \<open>\<open>use_count\<close> of a channel that is stopped, the copy the loop holds included.\<close>

definition on_recycle_timer :: "(chan_ref \<Rightarrow> nat) \<Rightarrow> conn_mgr \<Rightarrow> conn_mgr" where
  "on_recycle_timer use_count m =
     (stop_all (map snd (m_recycle_channels m)) m)
       \<lparr>m_recycle_channels :=
          filter (\<lambda>(k, r). \<not> (is_stopped m r \<and> use_count r \<le> MIN_RELEASE_CHANNEL_USE_COUNT)) (m_recycle_channels m)\<rparr>"

definition set_proto_capacity :: "socket_id \<Rightarrow> string \<Rightarrow> conn_mgr \<Rightarrow> conn_mgr" where
  "set_proto_capacity sid c m =
     (case smap_lookup (m_channels m) sid of
        None \<Rightarrow> m
      | Some r \<Rightarrow> upd_peer (\<lambda>(i, a). (i, capacity_add c a)) r m)"

section \<open>Sending\<close>

definition send_message :: "socket_id \<Rightarrow> tval message \<Rightarrow> (conn_mgr, bool) M" where
  "send_message sid msg m =
     (case smap_lookup (m_channels m) sid of None \<Rightarrow> (Inr False, m) | Some r \<Rightarrow> chan_write r msg m)"

definition have_active_channel :: "conn_mgr \<Rightarrow> bool" where
  "have_active_channel m \<longleftrightarrow> (\<exists>(k, r)\<in>set (m_channels m). ready m r)"

definition broadcast_to :: "socket_id \<Rightarrow> tval message \<Rightarrow> socket_id \<times> chan_ref \<Rightarrow> (conn_mgr, unit) M" where
  "broadcast_to exclude_sid msg = (\<lambda>(sid, r) m.
     if get_id exclude_sid \<noteq> 0 \<and> sid = exclude_sid then (Inr (), m)
     else if \<not> ready m r then (Inr (), m)
     else mbind (chan_write r msg) (\<lambda>_. mret ()) m)"

definition broadcast_message :: "tval message \<Rightarrow> socket_id \<Rightarrow> (conn_mgr, bool) M" where
  "broadcast_message msg exclude_sid m =
     (case message_content msg of
        None \<Rightarrow> (Inl Undefined_behaviour, m)
      | Some c \<Rightarrow>
          if nonce (content_header c) = [] then (Inr False, m)
          else if \<not> have_active_channel m then (Inr False, m)
          else mbind (mforeach (m_channels m) (\<lambda>x _. broadcast_to exclude_sid msg x) ()) (\<lambda>_. mret True) m)"

text \<open>The channel to a node, and the loop over the nodes of a path; the second result is the path after the call.\<close>

definition channel_to :: "conn_mgr \<Rightarrow> string \<Rightarrow> chan_ref option" where
  "channel_to m node_id =
     map_option snd (find (\<lambda>(k, r). ready m r \<and> get_remote_node_id m r = node_id) (m_channels m))"

fun fast_path_loop :: "conn_mgr \<Rightarrow> nat \<Rightarrow> string list \<Rightarrow> (nat \<times> chan_ref) option" where
  "fast_path_loop m i [] = None"
| "fast_path_loop m i (node_id # rest) =
     (case channel_to m node_id of Some r \<Rightarrow> Some (i + 1, r) | None \<Rightarrow> fast_path_loop m (i + 1) rest)"

definition find_fast_path :: "conn_mgr \<Rightarrow> string list \<Rightarrow> chan_ref option \<times> string list" where
  "find_fast_path m p =
     (case fast_path_loop m 0 p of
        None \<Rightarrow> (None, p)
      | Some (i, r) \<Rightarrow> let nodes_to_be_removed = length p - i + 1 in (Some r, (butlast ^^ nodes_to_be_removed) p))"

definition send_resp_message :: "tval message \<Rightarrow> (conn_mgr, bool) M" where
  "send_resp_message msg m =
     (case message_content msg of
        None \<Rightarrow> (Inl Undefined_behaviour, m)
      | Some c \<Rightarrow>
          if nonce (content_header c) = [] then (Inr False, m)
          else case find_fast_path m (path (content_header c)) of
                 (None, _) \<Rightarrow> (Inr True, m)
               | (Some r, p) \<Rightarrow>
                   mbind (chan_write r (msg\<lparr>message_content := Some (content_set_path p c)\<rparr>)) (\<lambda>_. mret True) m)"

section \<open>Acceptors\<close>

definition start_accept :: "handler_env \<Rightarrow> bloomlru_filter \<Rightarrow> acc_ref \<Rightarrow> conn_mgr \<Rightarrow> conn_mgr" where
  "start_accept e f a m =
     (let (sid, m1) = alloc_socket_id SERVER_SOCKET m; (r, m2) = make_channel e f sid m1
      in m2\<lparr>acceptors := (acceptors m2)(a := (acceptors m2 a)\<lparr>accepting := r\<rparr>)\<rparr>)"

text \<open>
  The completion of an accept. \<open>addrs\<close> are the addresses of the new socket, \<open>None\<close> when asking for them
  throws. True is \<open>ERR_SUCCESS\<close>.
\<close>

definition on_accept ::
  "handler_env \<Rightarrow> bloomlru_filter \<Rightarrow> acc_ref \<Rightarrow> io_error \<Rightarrow> (endpoint \<times> endpoint) option \<Rightarrow> (conn_mgr, bool) M" where
  "on_accept e f a error addrs m =
     (let r = accepting (acceptors m a)
      in if error = Operation_aborted then (Inr False, m)
         else if error \<noteq> No_error then (Inr False, start_accept e f a (chan_on_error r m))
         else case addrs of
                None \<Rightarrow> (Inr False, start_accept e f a (chan_on_error r m))
              | Some addr_pair \<Rightarrow>
                  (case chan_start Server addr_pair r m of
                     (Inl x, m1) \<Rightarrow> (Inl x, m1)
                   | (Inr _, m1) \<Rightarrow>
                       let (ok, m2) = add_channel (m_sid (channels m1 r)) r m1;
                           m3 = (if ok then m2 else chan_on_error r (chan_close r m2))
                       in (Inr True, start_accept e f a m3)))"

text \<open>\<open>listens\<close>: whether the socket could be bound and \<open>listen\<close> succeeded.\<close>

definition start_listen :: "handler_env \<Rightarrow> bloomlru_filter \<Rightarrow> bool \<Rightarrow> endpoint \<Rightarrow> conn_mgr \<Rightarrow> bool \<times> conn_mgr" where
  "start_listen e f listens ep m =
     (if \<not> listens then (False, m)
      else let a = next_ref m;
               m1 = m\<lparr>next_ref := a + 1, acceptors := (acceptors m)(a := \<lparr>m_endpoint = ep, a_closed = False, accepting = 0\<rparr>)\<rparr>;
               m2 = start_accept e f a m1
           in (True, m2\<lparr>m_acceptors := m_acceptors m2 @ [a]\<rparr>))"

definition acceptor_stop :: "acc_ref \<Rightarrow> conn_mgr \<Rightarrow> conn_mgr" where
  "acceptor_stop a m = m\<lparr>acceptors := (acceptors m)(a := (acceptors m a)\<lparr>a_closed := True\<rparr>)\<rparr>"

definition stop_listen :: "endpoint \<Rightarrow> conn_mgr \<Rightarrow> conn_mgr" where
  "stop_listen ep m =
     (case find (\<lambda>a. m_endpoint (acceptors m a) = ep) (m_acceptors m) of
        None \<Rightarrow> m
      | Some a \<Rightarrow> (acceptor_stop a m)\<lparr>m_acceptors := remove1 a (m_acceptors m)\<rparr>)"

definition stop_all_listen :: "conn_mgr \<Rightarrow> conn_mgr" where
  "stop_all_listen m = fold acceptor_stop (m_acceptors m) m"

section \<open>Connectors\<close>

definition upd_conn :: "conn_ref \<Rightarrow> (tcp_connector \<Rightarrow> tcp_connector) \<Rightarrow> conn_mgr \<Rightarrow> conn_mgr" where
  "upd_conn c f m = m\<lparr>connectors := (connectors m)(c := f (connectors m c))\<rparr>"

definition async_connect :: "conn_ref \<Rightarrow> conn_mgr \<Rightarrow> conn_mgr" where
  "async_connect c = upd_conn c (\<lambda>x. x\<lparr>connecting := True\<rparr>)"

definition connect_notify :: "conn_ref \<Rightarrow> connect_status \<Rightarrow> conn_mgr \<Rightarrow> conn_mgr" where
  "connect_notify c status m =
     m\<lparr>notices := notices m @ [Client_connect_notification (conn_sid (connectors m c)) (m_connect_addr (connectors m c)) status]\<rparr>"

definition reconnect :: "conn_ref \<Rightarrow> conn_mgr \<Rightarrow> conn_mgr" where
  "reconnect c m =
     (let x = connectors m c
      in if m_reconnect_times x < m_max_reconnect_times x
         then let n = m_reconnect_times x + 1
              in upd_conn c (\<lambda>x. x\<lparr>m_reconnect_times := n, m_reconnect_timer := Some (RECONNECT_INTERVAL * 2 ^ unat n)\<rparr>) m
         else connect_notify c CLIENT_CONNECT_FAIL m)"

definition on_connect :: "conn_ref \<Rightarrow> io_error \<Rightarrow> (endpoint \<times> endpoint) option \<Rightarrow> (conn_mgr, unit) M" where
  "on_connect c error addrs m0 =
     (let m = upd_conn c (\<lambda>x. x\<lparr>connecting := False\<rparr>) m0;
          r = m_client_channel (connectors m c)
      in if error = Operation_aborted then (Inr (), m)
         else if error \<noteq> No_error then (Inr (), reconnect c m)
         else case addrs of
                None \<Rightarrow> (Inr (), reconnect c m)
              | Some addr_pair \<Rightarrow>
                  (case chan_start Client addr_pair r m of
                     (Inl x, m1) \<Rightarrow> (Inl x, m1)
                   | (Inr _, m1) \<Rightarrow>
                       let (ok, m2) = add_channel (conn_sid (connectors m1 c)) r m1
                       in if \<not> ok then (Inr (), m2)
                          else (Inr (), connect_notify c CLIENT_CONNECT_SUCCESS
                                 (upd_conn c (\<lambda>x. x\<lparr>m_connected := True, m_reconnect_times := 0\<rparr>) m2))))"

definition on_reconnect_timer_expired :: "conn_ref \<Rightarrow> io_error \<Rightarrow> conn_mgr \<Rightarrow> conn_mgr" where
  "on_reconnect_timer_expired c error m0 =
     (let m = upd_conn c (\<lambda>x. x\<lparr>m_reconnect_timer := None\<rparr>) m0
      in if error \<noteq> No_error then m else async_connect c m)"

definition connector_stop :: "conn_ref \<Rightarrow> conn_mgr \<Rightarrow> conn_mgr" where
  "connector_stop c m =
     (if m_connected (connectors m c) then m
      else chan_close (m_client_channel (connectors m c)) (upd_conn c (\<lambda>x. x\<lparr>m_reconnect_timer := None\<rparr>) m))"

text \<open>The constructor allocates the id; \<open>start\<close> creates the channel and connects.\<close>

definition connector_start :: "handler_env \<Rightarrow> bloomlru_filter \<Rightarrow> u32 \<Rightarrow> conn_ref \<Rightarrow> conn_mgr \<Rightarrow> conn_mgr" where
  "connector_start e f retry c m =
     (let n = (if retry > MAX_RECONNECT_TIMES then MAX_RECONNECT_TIMES else retry);
          (r, m1) = make_channel e f (conn_sid (connectors m c)) m
      in async_connect c (upd_conn c (\<lambda>x. x\<lparr>m_max_reconnect_times := n, m_client_channel := r\<rparr>) m1))"

definition start_connect :: "handler_env \<Rightarrow> bloomlru_filter \<Rightarrow> endpoint \<Rightarrow> conn_mgr \<Rightarrow> bool \<times> conn_mgr" where
  "start_connect e f connect_addr m =
     (let (sid, m1) = alloc_socket_id CLIENT_SOCKET m;
          c = next_ref m1;
          m2 = m1\<lparr>next_ref := c + 1,
                  connectors := (connectors m1)(c :=
                    \<lparr>conn_sid = sid, m_connect_addr = connect_addr, m_max_reconnect_times = MAX_RECONNECT_TIMES,
                     m_connected = False, m_reconnect_times = 0, m_client_channel = 0, m_reconnect_timer = None,
                     connecting = False\<rparr>)\<rparr>;
          m3 = connector_start e f MAX_RECONNECT_TIMES c m2
      in (True, m3\<lparr>m_connectors := m_connectors m3 @ [c]\<rparr>))"

definition drop_connector :: "(tcp_connector \<Rightarrow> bool) \<Rightarrow> conn_mgr \<Rightarrow> bool \<times> conn_mgr" where
  "drop_connector P m =
     (case find (\<lambda>c. P (connectors m c)) (m_connectors m) of
        None \<Rightarrow> (False, m)
      | Some c \<Rightarrow> (True, (connector_stop c m)\<lparr>m_connectors := remove1 c (m_connectors m)\<rparr>))"

definition stop_connect :: "endpoint \<Rightarrow> conn_mgr \<Rightarrow> conn_mgr" where
  "stop_connect connect_addr m = snd (drop_connector (\<lambda>c. m_connect_addr c = connect_addr) m)"

definition release_connector :: "socket_id \<Rightarrow> conn_mgr \<Rightarrow> bool \<times> conn_mgr" where
  "release_connector sid = drop_connector (\<lambda>c. conn_sid c = sid)"

definition stop_all_connect :: "conn_mgr \<Rightarrow> conn_mgr" where
  "stop_all_connect m = fold connector_stop (m_connectors m) m"

definition manager_exit :: "conn_mgr \<Rightarrow> conn_mgr" where
  "manager_exit m =
     (stop_all_recycle_channel (stop_all_channel (stop_all_connect (stop_all_listen m))))
       \<lparr>m_acceptors := [], m_connectors := []\<rparr>"

section \<open>The limit of connections\<close>

text \<open>
  \<open>limits\<close> is what \<open>getrlimit\<close> reports (current, maximum), \<open>None\<close> when it fails. The current limit is an
  unsigned 64-bit number that is returned as an \<open>int32_t\<close>.
\<close>

definition RaiseFileDescriptorLimit :: "(u64 \<times> u64) option \<Rightarrow> int \<Rightarrow> int" where
  "RaiseFileDescriptorLimit limits nMinFD =
     (case limits of
        None \<Rightarrow> nMinFD
      | Some (cur, maxl) \<Rightarrow>
          let cur1 = (if cur < of_int nMinFD then (if of_int nMinFD > maxl then maxl else of_int nMinFD) else cur)
          in sint (ucast cur1 :: i32))"

definition load_max_connect :: "int \<Rightarrow> (u64 \<times> u64) option \<Rightarrow> conn_mgr \<Rightarrow> bool \<times> conn_mgr" where
  "load_max_connect conf limits m =
     (if conf \<le> 0 then (False, m\<lparr>m_max_connect := conf\<rparr>)
      else let n = max (min conf (FD_SETSIZE - 1 - MIN_CORE_FILEDESCRIPTORS - MAX_ADDNODE_CONNECTIONS)) 0;
               nFD = RaiseFileDescriptorLimit limits (n + MIN_CORE_FILEDESCRIPTORS + MAX_ADDNODE_CONNECTIONS)
           in if nFD < MIN_CORE_FILEDESCRIPTORS then (False, m\<lparr>m_max_connect := n\<rparr>)
              else (True, m\<lparr>m_max_connect :=
                     max (min (nFD - MIN_CORE_FILEDESCRIPTORS - MAX_ADDNODE_CONNECTIONS) n) MAX_OUTBOUND_CONNECTIONS\<rparr>))"

section \<open>Writing to a channel\<close>

text \<open>A channel that takes a message: open, with room in its queue, its encoder in order.\<close>

definition chan_ok :: "(byte list \<Rightarrow> byte list) \<Rightarrow> (tval message, handler_in) tcp_channel \<Rightarrow> bool" where
  "chan_ok sc c \<longleftrightarrow>
     write_check c \<and> encoder_inv sc (m_socket_handler c) \<and>
     (m_send_queue c = [] \<longrightarrow> wf_buf (m_send_buf c) \<and> std_buf (m_send_buf c))"

lemma reset_buf: "wf_buf b \<Longrightarrow> std_buf b \<Longrightarrow> wf_buf (reset b) \<and> std_buf (reset b) \<and> content (reset b) = []"
  by (auto simp: wf_buf_def std_buf_def reset_def content_def)

lemma unread_nothing: "wf_buf b \<Longrightarrow> \<not> 0 < get_valid_read_len b \<Longrightarrow> content b = []"
  using unat_valid_read_len [of b] by (auto simp: word_gt_0)

lemma channel_write_ok:
  assumes "chan_ok sc c" "sendable sc msg"
  shows "\<exists>c'. channel_write write_in msg c = (Inr True, c') \<and> m_send_queue c' = m_send_queue c @ [msg] \<and>
           m_state c' = m_state c \<and> errors c' = errors c"
proof (cases "m_send_queue c = []")
  case False
  then show ?thesis using assms(1) by (simp add: channel_write_def write_push_def chan_ok_def)
next
  case True
  let ?b = "m_send_buf c"
  let ?b1 = "if get_valid_read_len ?b > 0 then reset ?b else ?b"
  obtain h e where he: "m_socket_handler c = (h, e)" by (rule prod.exhaust)
  from assms(1) True have b: "wf_buf ?b1" "std_buf ?b1" "content ?b1 = []"
    using reset_buf [of ?b] unread_nothing [of ?b] by (auto simp: chan_ok_def)
  have inv: "encoder_inv sc (h, e)" using assms(1) he by (simp add: chan_ok_def)
  from write_in_ok [OF assms(2) inv b] obtain h' b' where
    w: "write_in msg ((h, e), ?b1) = (Inr True, ((h', e), b'))" by blast
  show ?thesis
    using assms(1) True he w
    by (auto simp: channel_write_def chan_ok_def write_push_def write_first_def catch_error_def mbind_run mmodify_run
        mret_run run_handler_write_def async_write_def split: if_splits)
qed

lemma upd_tcp_simps [simp]:
  "channels (upd_tcp r f m) r' = (if r' = r then (channels m r)\<lparr>tcp := f (tcp (channels m r))\<rparr> else channels m r')"
  "m_channels (upd_tcp r f m) = m_channels m" "m_recycle_channels (upd_tcp r f m) = m_recycle_channels m"
  "posted_stops (upd_tcp r f m) = posted_stops m" "next_ref (upd_tcp r f m) = next_ref m"
  "m_max_connect (upd_tcp r f m) = m_max_connect m" "connectors (upd_tcp r f m) = connectors m"
  "acceptors (upd_tcp r f m) = acceptors m" "m_connectors (upd_tcp r f m) = m_connectors m"
  "m_acceptors (upd_tcp r f m) = m_acceptors m" "notices (upd_tcp r f m) = notices m" "m_cur_idx (upd_tcp r f m) = m_cur_idx m"
  by (simp_all add: upd_tcp_def)

lemma chan_write_ok:
  assumes "chan_ok sc (tcp (channels m r))" "sendable sc msg"
  shows "\<exists>c. chan_write r msg m = (Inr True, upd_tcp r (\<lambda>_. c) m) \<and>
           m_send_queue c = m_send_queue (tcp (channels m r)) @ [msg]"
proof -
  from channel_write_ok [OF assms] obtain c where
    "channel_write write_in msg (tcp (channels m r)) = (Inr True, c)" "m_send_queue c = m_send_queue (tcp (channels m r)) @ [msg]"
    by blast
  then show ?thesis by (intro exI [of _ c]) (simp add: chan_write_def)
qed

section \<open>Paths\<close>

lemma fast_path_none: "\<forall>x\<in>set p. channel_to m x = None \<Longrightarrow> fast_path_loop m i p = None"
  by (induction p arbitrary: i) simp_all

lemma fast_path_first:
  "\<forall>x\<in>set p. channel_to m x = None \<Longrightarrow> channel_to m n = Some r \<Longrightarrow> fast_path_loop m i (p @ n # q) = Some (i + length p + 1, r)"
  by (induction p arbitrary: i) simp_all

lemma pop_backs: "(butlast ^^ k) xs = take (length xs - k) xs"
  by (induction k) (simp_all add: butlast_take)

lemma find_fast_path_first:
  assumes "\<forall>x\<in>set p. channel_to m x = None" "channel_to m n = Some r"
  shows "find_fast_path m (p @ n # q) = (Some r, p)"
  using fast_path_first [OF assms, of 0 q] by (simp add: find_fast_path_def pop_backs Let_def)

lemma find_fast_path_none: "\<forall>x\<in>set p. channel_to m x = None \<Longrightarrow> find_fast_path m p = (None, p)"
  by (simp add: find_fast_path_def fast_path_none)

lemma channel_to_ready: "channel_to m n = Some r \<Longrightarrow> (\<exists>k. (k, r) \<in> set (m_channels m)) \<and> ready m r \<and> get_remote_node_id m r = n"
  by (auto simp: channel_to_def find_Some_iff in_set_conv_nth) metis

section \<open>Broadcast\<close>

definition excluded :: "socket_id \<Rightarrow> socket_id \<Rightarrow> bool" where
  "excluded ex sid \<longleftrightarrow> get_id ex \<noteq> 0 \<and> sid = ex"

lemma broadcast_loop:
  assumes "distinct (map snd cs)" and "\<forall>(k, r)\<in>set cs. ready m r \<longrightarrow> chan_ok sc (tcp (channels m r))" and "sendable sc msg"
  shows "\<exists>m'. mforeach cs (\<lambda>x _. broadcast_to ex msg x) () m = (Inr (), m') \<and> m_channels m' = m_channels m \<and>
           (\<forall>r. r \<notin> snd ` set cs \<longrightarrow> channels m' r = channels m r) \<and>
           (\<forall>(k, r)\<in>set cs. if ready m r \<and> \<not> excluded ex k
              then m_send_queue (tcp (channels m' r)) = m_send_queue (tcp (channels m r)) @ [msg]
              else channels m' r = channels m r)"
  using assms(1,2)
proof (induction cs arbitrary: m)
  case Nil
  then show ?case by (simp add: mret_run)
next
  case (Cons x cs)
  obtain k r where x: "x = (k, r)" by (rule prod.exhaust)
  have r: "r \<notin> snd ` set cs" and d: "distinct (map snd cs)" using Cons.prems(1) x by auto
  obtain m1 where m1: "broadcast_to ex msg x m = (Inr (), m1)" "m_channels m1 = m_channels m"
    "\<And>r'. r' \<noteq> r \<Longrightarrow> channels m1 r' = channels m r'"
    "if ready m r \<and> \<not> excluded ex k then m_send_queue (tcp (channels m1 r)) = m_send_queue (tcp (channels m r)) @ [msg]
     else channels m1 r = channels m r"
  proof (cases "ready m r \<and> \<not> excluded ex k")
    case True
    have "chan_ok sc (tcp (channels m r))" using Cons.prems(2) x True by simp
    from chan_write_ok [OF this assms(3)] obtain c where
      "chan_write r msg m = (Inr True, upd_tcp r (\<lambda>_. c) m)" "m_send_queue c = m_send_queue (tcp (channels m r)) @ [msg]" by blast
    with True x that [of "upd_tcp r (\<lambda>_. c) m"] show thesis
      by (auto simp: broadcast_to_def excluded_def mbind_def mret_run)
  next
    case False
    with x that [of m] show thesis by (auto simp: broadcast_to_def excluded_def)
  qed
  have same: "channels m1 r' = channels m r'" "ready m1 r' = ready m r'" if "r' \<in> snd ` set cs" for r'
  proof -
    have "r' \<noteq> r" using that r by auto
    then show "channels m1 r' = channels m r'" "ready m1 r' = ready m r'" using m1(3) by (simp_all add: ready_def)
  qed
  have "\<forall>(k, r)\<in>set cs. ready m1 r \<longrightarrow> chan_ok sc (tcp (channels m1 r))"
    using Cons.prems(2) same by (force split: prod.splits)
  from Cons.IH [OF d this] obtain m' where
    m': "mforeach cs (\<lambda>x _. broadcast_to ex msg x) () m1 = (Inr (), m')" "m_channels m' = m_channels m1"
      "\<forall>r. r \<notin> snd ` set cs \<longrightarrow> channels m' r = channels m1 r"
      "\<forall>(k, r)\<in>set cs. if ready m1 r \<and> \<not> excluded ex k
         then m_send_queue (tcp (channels m' r)) = m_send_queue (tcp (channels m1 r)) @ [msg]
         else channels m' r = channels m1 r" by blast
  have rest: "\<forall>(k, r)\<in>set cs. if ready m r \<and> \<not> excluded ex k
         then m_send_queue (tcp (channels m' r)) = m_send_queue (tcp (channels m r)) @ [msg]
         else channels m' r = channels m r"
  proof
    fix y
    assume y: "y \<in> set cs"
    have "snd y \<in> snd ` set cs" using y by simp
    with bspec [OF m'(4) y] same [of "snd y"]
    show "case y of (k, r) \<Rightarrow> if ready m r \<and> \<not> excluded ex k
         then m_send_queue (tcp (channels m' r)) = m_send_queue (tcp (channels m r)) @ [msg]
         else channels m' r = channels m r" by (cases y) simp
  qed
  have "channels m' r = channels m1 r" using m'(3) r by blast
  then have "if ready m r \<and> \<not> excluded ex k then m_send_queue (tcp (channels m' r)) = m_send_queue (tcp (channels m r)) @ [msg]
     else channels m' r = channels m r" using m1(4) by metis
  moreover have "channels m' r' = channels m r'" if "r' \<notin> snd ` set (x # cs)" for r'
    using m'(3) m1(3) [of r'] that x by auto
  moreover have "mforeach (x # cs) (\<lambda>x _. broadcast_to ex msg x) () m = (Inr (), m')"
    using m'(1) m1(1) by (simp add: mbind_def)
  ultimately show ?case using m1(2) m'(2) rest x by (intro exI [of _ m']) (simp del: mforeach.simps)
qed

section \<open>The life of the tables\<close>

text \<open>
  The events that reach the manager. A channel may change by itself (it reads, writes, its handler
  logs in); that neither opens it again nor changes its id.
\<close>

definition activity :: "chan_ref \<Rightarrow> conn_mgr \<Rightarrow> conn_mgr \<Rightarrow> bool" where
  "activity r m m' \<longleftrightarrow>
     (\<exists>c. m' = m\<lparr>channels := (channels m)(r := c)\<rparr> \<and> m_sid c = m_sid (channels m r) \<and>
        (chan_state m r = CHANNEL_STOPPED \<longrightarrow> m_state (tcp c) = CHANNEL_STOPPED))"

inductive mgr_step :: "conn_mgr \<Rightarrow> conn_mgr \<Rightarrow> bool" where
  listen: "start_listen e f listens ep m = (ok, m') \<Longrightarrow> mgr_step m m'"
| accept: "a \<in> set (m_acceptors m) \<Longrightarrow> on_accept e f a error addrs m = (Inr ok, m') \<Longrightarrow> mgr_step m m'"
| unlisten: "mgr_step m (stop_listen ep m)"
| connect: "start_connect e f ep m = (ok, m') \<Longrightarrow> mgr_step m m'"
| connected: "connecting (connectors m c) \<Longrightarrow> on_connect c error addrs m = (Inr (), m') \<Longrightarrow> mgr_step m m'"
| retry: "m_reconnect_timer (connectors m c) \<noteq> None \<Longrightarrow> mgr_step m (on_reconnect_timer_expired c error m)"
| release: "release_connector sid m = (ok, m') \<Longrightarrow> mgr_step m m'"
| disconnect: "mgr_step m (stop_connect ep m)"
| channel_error: "mgr_step m (on_tcp_channel_error sid m)"
| remove: "mgr_step m (remove_channel sid m)"
| posted: "r \<in> set (posted_stops m) \<Longrightarrow> mgr_step m (run_stop kind r m)"
| recycle: "mgr_step m (on_recycle_timer use_count m)"
| capacity: "mgr_step m (set_proto_capacity sid c m)"
| channel: "r < next_ref m \<Longrightarrow> activity r m m' \<Longrightarrow> mgr_step m m'"

text \<open>\<open>c0\<close> is what a reference to no channel shows.\<close>

definition new_conn_mgr :: "net_channel \<Rightarrow> conn_mgr" where
  "new_conn_mgr c0 =
     \<lparr>m_cur_idx = 0, m_max_connect = 1024, m_acceptors = [], m_connectors = [], m_channels = [], m_recycle_channels = [],
      channels = (\<lambda>_. c0),
      connectors = (\<lambda>_. \<lparr>conn_sid = Socket_id CLIENT_SOCKET 0, m_connect_addr = (Addr_v6 [], 0), m_max_reconnect_times = 0,
         m_connected = False, m_reconnect_times = 0, m_client_channel = 0, m_reconnect_timer = None, connecting = False\<rparr>),
      acceptors = (\<lambda>_. \<lparr>m_endpoint = (Addr_v6 [], 0), a_closed = True, accepting = 0\<rparr>),
      next_ref = 1, posted_stops = [], notices = []\<rparr>"

inductive mgr_reach :: "conn_mgr \<Rightarrow> bool" where
  init: "load_max_connect conf limits (new_conn_mgr c0) = (True, m) \<Longrightarrow> mgr_reach m"
| step: "mgr_reach m \<Longrightarrow> mgr_step m m' \<Longrightarrow> mgr_reach m'"

section \<open>Invariant of the tables\<close>

text \<open>A connector that may still open its channel, and the channels that are not yet in a table.\<close>

definition trying :: "conn_mgr \<Rightarrow> conn_ref \<Rightarrow> bool" where
  "trying m c \<longleftrightarrow> connecting (connectors m c) \<or> m_reconnect_timer (connectors m c) \<noteq> None"

definition tabled :: "conn_mgr \<Rightarrow> chan_ref set" where
  "tabled m = snd ` set (m_channels m) \<union> snd ` set (m_recycle_channels m)"

definition tables_ok :: "conn_mgr \<Rightarrow> bool" where
  "tables_ok m \<longleftrightarrow>
     (\<forall>(k, r)\<in>set (m_channels m) \<union> set (m_recycle_channels m). r < next_ref m \<and> m_sid (channels m r) = k) \<and>
     (\<forall>(k, r)\<in>set (m_recycle_channels m). is_stopped m r \<or> r \<in> set (posted_stops m))"

definition waiting_ok :: "conn_mgr \<Rightarrow> bool" where
  "waiting_ok m \<longleftrightarrow>
     (\<forall>a\<in>set (m_acceptors m). a < next_ref m \<and> accepting (acceptors m a) < next_ref m \<and> accepting (acceptors m a) \<notin> tabled m \<and>
        get_type (m_sid (channels m (accepting (acceptors m a)))) = SERVER_SOCKET) \<and>
     inj_on (\<lambda>a. accepting (acceptors m a)) (set (m_acceptors m)) \<and>
     (\<forall>c. trying m c \<longrightarrow> (connecting (connectors m c) \<longrightarrow> m_reconnect_timer (connectors m c) = None) \<and>
        c < next_ref m \<and> m_client_channel (connectors m c) < next_ref m \<and> m_client_channel (connectors m c) \<notin> tabled m \<and>
        m_sid (channels m (m_client_channel (connectors m c))) = conn_sid (connectors m c) \<and>
        get_type (conn_sid (connectors m c)) = CLIENT_SOCKET) \<and>
     inj_on (\<lambda>c. m_client_channel (connectors m c)) {c. trying m c}"

definition mgr_inv :: "conn_mgr \<Rightarrow> bool" where
  "mgr_inv m \<longleftrightarrow>
     tables_ok m \<and> waiting_ok m \<and> MAX_OUTBOUND_CONNECTIONS \<le> m_max_connect m \<and>
     int (get_in_connect_num m) \<le> m_max_connect m - MAX_OUTBOUND_CONNECTIONS + 1"

lemma in_num_mono:
  assumes "m_channels m' = filter P (m_channels m)"
    and "\<forall>(k, r)\<in>set (m_channels m). get_type k = SERVER_SOCKET \<and> is_stopped m r \<longrightarrow> is_stopped m' r"
  shows "get_in_connect_num m' \<le> get_in_connect_num m"
proof -
  have "filter (\<lambda>(k, r). get_type k = SERVER_SOCKET \<and> \<not> is_stopped m' r) (m_channels m') =
      filter (\<lambda>x. P x \<and> (case x of (k, r) \<Rightarrow> \<not> is_stopped m' r))
        (filter (\<lambda>(k, r). get_type k = SERVER_SOCKET \<and> \<not> is_stopped m r) (m_channels m))"
    unfolding assms(1) filter_filter using assms(2) by (auto intro!: filter_cong split: prod.splits)
  then show ?thesis by (simp only: get_in_connect_num_def length_filter_le)
qed

text \<open>A step that opens nothing: tables shrink or move to the recycle table, waiting channels stay as they are.\<close>

lemma quiet_inv:
  assumes "mgr_inv m"
    and "m_channels m' = filter P (m_channels m)"
    and "set (m_recycle_channels m') \<subseteq> set (m_recycle_channels m) \<union> set (m_channels m)"
    and "\<And>r. r < next_ref m \<Longrightarrow> m_sid (channels m' r) = m_sid (channels m r) \<and> (r \<in> tabled m \<and> is_stopped m r \<longrightarrow> is_stopped m' r)"
    and "\<And>k r. (k, r) \<in> set (m_recycle_channels m') \<Longrightarrow> is_stopped m' r \<or> r \<in> set (posted_stops m')"
    and "next_ref m \<le> next_ref m'" "m_max_connect m' = m_max_connect m"
    and "set (m_acceptors m') \<subseteq> set (m_acceptors m)" "\<And>a. a \<in> set (m_acceptors m') \<Longrightarrow> accepting (acceptors m' a) = accepting (acceptors m a)"
    and "\<And>c. trying m' c \<Longrightarrow> trying m c \<and>
        (connecting (connectors m' c) \<longrightarrow> m_reconnect_timer (connectors m' c) \<noteq> None \<longrightarrow>
           connecting (connectors m c) \<and> m_reconnect_timer (connectors m c) \<noteq> None)"
    and "\<And>c. m_client_channel (connectors m' c) = m_client_channel (connectors m c)"
    and "\<And>c. conn_sid (connectors m' c) = conn_sid (connectors m c)"
  shows "mgr_inv m'"
proof -
  have t: "tables_ok m" "waiting_ok m" using assms(1) by (simp_all add: mgr_inv_def)
  have sub: "set (m_channels m') \<union> set (m_recycle_channels m') \<subseteq> set (m_channels m) \<union> set (m_recycle_channels m)"
    using assms(2,3) by auto
  then have tab: "tabled m' \<subseteq> tabled m" unfolding tabled_def image_Un [symmetric] by (intro image_mono) blast
  have lt: "r < next_ref m \<and> m_sid (channels m r) = k"
    if "(k, r) \<in> set (m_channels m) \<union> set (m_recycle_channels m)" for k r
    using t(1) that by (auto simp: tables_ok_def)
  have "r < next_ref m' \<and> m_sid (channels m' r) = k"
    if "(k, r) \<in> set (m_channels m') \<union> set (m_recycle_channels m')" for k r
    using lt [OF subsetD [OF sub that]] assms(4) [of r] assms(6) by simp
  then have "tables_ok m'" using assms(5) by (auto simp: tables_ok_def)
  moreover have "waiting_ok m'"
  proof -
    note w = t(2) [unfolded waiting_ok_def]
    have a: "a < next_ref m' \<and> accepting (acceptors m' a) < next_ref m' \<and> accepting (acceptors m' a) \<notin> tabled m' \<and>
        get_type (m_sid (channels m' (accepting (acceptors m' a)))) = SERVER_SOCKET"
      if "a \<in> set (m_acceptors m')" for a
    proof -
      have "a \<in> set (m_acceptors m)" using that assms(8) by blast
      with w have "a < next_ref m" "accepting (acceptors m a) < next_ref m" "accepting (acceptors m a) \<notin> tabled m"
        "get_type (m_sid (channels m (accepting (acceptors m a)))) = SERVER_SOCKET" by blast+
      with assms(4,6) tab assms(9) [OF that] show ?thesis by auto
    qed
    have c: "(connecting (connectors m' c) \<longrightarrow> m_reconnect_timer (connectors m' c) = None) \<and> c < next_ref m' \<and> m_client_channel (connectors m' c) < next_ref m' \<and> m_client_channel (connectors m' c) \<notin> tabled m' \<and>
        m_sid (channels m' (m_client_channel (connectors m' c))) = conn_sid (connectors m' c) \<and>
        get_type (conn_sid (connectors m' c)) = CLIENT_SOCKET" if "trying m' c" for c
    proof -
      have tr: "trying m c" using that assms(10) by blast
      then have tm: "connecting (connectors m' c) \<longrightarrow> m_reconnect_timer (connectors m' c) = None"
        using that assms(10) w by blast
      from tr w have "c < next_ref m" "m_client_channel (connectors m c) < next_ref m" "m_client_channel (connectors m c) \<notin> tabled m"
        "m_sid (channels m (m_client_channel (connectors m c))) = conn_sid (connectors m c)"
        "get_type (conn_sid (connectors m c)) = CLIENT_SOCKET" by blast+
      with assms(4,6,11,12) tab tm show ?thesis by auto
    qed
    have "inj_on (\<lambda>a. accepting (acceptors m' a)) (set (m_acceptors m'))"
      using w assms(8,9) unfolding inj_on_def by (metis subsetD)
    moreover have "inj_on (\<lambda>c. m_client_channel (connectors m' c)) {c. trying m' c}"
      using w assms(10,11) unfolding inj_on_def by auto
    ultimately show ?thesis using a c unfolding waiting_ok_def by blast
  qed
  moreover have "get_in_connect_num m' \<le> get_in_connect_num m"
  proof (rule in_num_mono [where P = P, OF assms(2)])
    have "is_stopped m' r" if "(k, r) \<in> set (m_channels m)" "is_stopped m r" for k r
    proof -
      have "r < next_ref m" using lt [of k r] that(1) by simp
      moreover have "r \<in> tabled m" using imageI [OF that(1), of snd] by (simp add: tabled_def)
      ultimately show ?thesis using assms(4) that(2) by blast
    qed
    then show "\<forall>(k, r)\<in>set (m_channels m). get_type k = SERVER_SOCKET \<and> is_stopped m r \<longrightarrow> is_stopped m' r" by auto
  qed
  ultimately show ?thesis using assms(1,7) by (simp add: mgr_inv_def)
qed

lemma upd_conn_simps [simp]:
  "connectors (upd_conn c f m) c' = (if c' = c then f (connectors m c) else connectors m c')"
  "m_channels (upd_conn c f m) = m_channels m" "m_recycle_channels (upd_conn c f m) = m_recycle_channels m"
  "posted_stops (upd_conn c f m) = posted_stops m" "next_ref (upd_conn c f m) = next_ref m"
  "m_max_connect (upd_conn c f m) = m_max_connect m" "channels (upd_conn c f m) = channels m"
  "acceptors (upd_conn c f m) = acceptors m" "m_connectors (upd_conn c f m) = m_connectors m"
  "m_acceptors (upd_conn c f m) = m_acceptors m" "notices (upd_conn c f m) = notices m" "m_cur_idx (upd_conn c f m) = m_cur_idx m"
  by (simp_all add: upd_conn_def)

lemma stop_all_simps [simp]:
  "channels (stop_all rs m) = channels m" "m_channels (stop_all rs m) = m_channels m"
  "m_recycle_channels (stop_all rs m) = m_recycle_channels m" "next_ref (stop_all rs m) = next_ref m"
  "m_max_connect (stop_all rs m) = m_max_connect m" "acceptors (stop_all rs m) = acceptors m"
  "m_acceptors (stop_all rs m) = m_acceptors m" "connectors (stop_all rs m) = connectors m"
  unfolding stop_all_def by (induction rs arbitrary: m) (simp_all add: post_stop_def)

lemma stop_all_posted: "set (posted_stops m) \<subseteq> set (posted_stops (stop_all rs m))"
  unfolding stop_all_def
proof (induction rs arbitrary: m)
  case (Cons r rs)
  show ?case using Cons.IH [of m] Cons.IH [of "post_stop r m"] by (auto simp: post_stop_def)
qed simp

lemma filter_id: "filter (\<lambda>_. True) xs = xs"
  by simp

lemmas stopped_defs = is_stopped_def chan_state_def

lemma recycled: "mgr_inv m \<Longrightarrow> (k, r) \<in> set (m_recycle_channels m) \<Longrightarrow> is_stopped m r \<or> r \<in> set (posted_stops m)"
  by (auto simp: mgr_inv_def tables_ok_def)

lemma smap_insert_set: "set (smap_insert k v m) \<subseteq> insert (k, v) (set m)"
  by (induction k v m rule: smap_insert.induct) auto

lemma lookup_in: "smap_lookup m k = Some v \<Longrightarrow> (k, v) \<in> set m"
  by (simp add: smap_lookup_def map_of_SomeD)

lemma stop_channel_inv: "mgr_inv m \<Longrightarrow> mgr_inv (snd (stop_channel sid m))"
proof (cases "smap_lookup (m_channels m) sid")
  case None
  then show "mgr_inv m \<Longrightarrow> ?thesis" by (simp add: stop_channel_def)
next
  case (Some r)
  assume inv: "mgr_inv m"
  let ?m' = "snd (stop_channel sid m)"
  have eq: "m_channels ?m' = filter (\<lambda>(k', _). k' \<noteq> sid) (m_channels m)" "channels ?m' = channels m" "next_ref ?m' = next_ref m"
    "m_max_connect ?m' = m_max_connect m" "m_acceptors ?m' = m_acceptors m" "acceptors ?m' = acceptors m" "connectors ?m' = connectors m"
    "m_recycle_channels ?m' = m_recycle_channels m \<or> m_recycle_channels ?m' = smap_insert sid r (m_recycle_channels m)"
    "posted_stops ?m' = (if is_stopped m r then posted_stops m else posted_stops m @ [r])"
    using Some by (simp_all add: stop_channel_def Let_def smap_erase_def post_stop_def stopped_defs)
  have rec: "x = (sid, r) \<or> x \<in> set (m_recycle_channels m)" if "x \<in> set (m_recycle_channels ?m')" for x
    using eq(8) that smap_insert_set [of sid r "m_recycle_channels m"] by auto
  show ?thesis
  proof (rule quiet_inv [OF inv eq(1)])
    show "set (m_recycle_channels ?m') \<subseteq> set (m_recycle_channels m) \<union> set (m_channels m)"
      using rec lookup_in [OF Some] by blast
    show "is_stopped ?m' q \<or> q \<in> set (posted_stops ?m')" if "(k, q) \<in> set (m_recycle_channels ?m')" for k q
      using rec [OF that] recycled [OF inv] eq(2,9) by (auto simp: stopped_defs)
  qed (simp_all add: eq(2-7) stopped_defs trying_def)
qed

lemma quiet_steps:
  assumes "mgr_inv m"
  shows "mgr_inv (remove_channel sid m)" and "mgr_inv (on_recycle_timer use_count m)" and "mgr_inv (set_proto_capacity sid cap m)"
    and "mgr_inv (run_stop kind r m)" and "mgr_inv (stop_listen ep m)"
    and "m_reconnect_timer (connectors m c) \<noteq> None \<Longrightarrow> mgr_inv (on_reconnect_timer_expired c error m)"
proof -
  note q = quiet_inv [OF assms] and r = recycled [OF assms, unfolded stopped_defs]
  show "mgr_inv (remove_channel sid m)"
    by (rule q [where P = "\<lambda>(k', _). k' \<noteq> sid"])
      (auto simp: remove_channel_def smap_erase_def stopped_defs trying_def dest!: r)
  show "mgr_inv (on_recycle_timer use_count m)"
    by (rule q [where P = "\<lambda>_. True"])
      (auto simp: on_recycle_timer_def stopped_defs trying_def dest!: r intro: subsetD [OF stop_all_posted])
  show "mgr_inv (set_proto_capacity sid cap m)"
    by (rule q [where P = "\<lambda>_. True"])
      (auto simp: set_proto_capacity_def upd_peer_def stopped_defs trying_def split: option.splits dest!: r)
  show "mgr_inv (run_stop kind r m)"
    by (rule q [where P = "\<lambda>_. True"])
      (auto simp: run_stop_def channel_stop_def stopped_defs trying_def dest!: r)
  show "mgr_inv (stop_listen ep m)"
    by (rule q [where P = "\<lambda>_. True"])
      (auto simp: stop_listen_def acceptor_stop_def stopped_defs trying_def dest!: r subsetD [OF set_remove1_subset] split: option.splits)
  assume "m_reconnect_timer (connectors m c) \<noteq> None"
  then show "mgr_inv (on_reconnect_timer_expired c error m)"
    by (intro q [where P = "\<lambda>_. True"])
      (auto simp: on_reconnect_timer_expired_def async_connect_def Let_def stopped_defs trying_def split: if_splits dest!: r)
qed

lemma drop_connector_inv:
  assumes "mgr_inv m"
  shows "mgr_inv (snd (drop_connector P m))"
  by (rule quiet_inv [OF assms, where P = "\<lambda>_. True"])
    (auto simp: drop_connector_def connector_stop_def chan_close_def channel_close_def stopped_defs trying_def
      dest!: recycled [OF assms, unfolded stopped_defs] split: option.splits if_splits)

lemma activity_inv:
  assumes "mgr_inv m" "activity r m m'"
  shows "mgr_inv m'"
  using assms(2)
  by (intro quiet_inv [OF assms(1), where P = "\<lambda>_. True"])
    (auto simp: activity_def stopped_defs trying_def dest!: recycled [OF assms(1), unfolded stopped_defs])

text \<open>The steps that open a channel. First a new channel for an acceptor.\<close>

lemma start_accept_inv:
  assumes inv: "mgr_inv (m\<lparr>m_acceptors := bs\<rparr>)" and a: "a \<notin> set bs" "a < next_ref m" and as: "set as \<subseteq> insert a (set bs)"
  shows "mgr_inv ((start_accept e f a m)\<lparr>m_acceptors := as\<rparr>)"
proof -
  let ?m' = "(start_accept e f a m)\<lparr>m_acceptors := as\<rparr>" and ?r = "next_ref m"
  have t: "tables_ok (m\<lparr>m_acceptors := bs\<rparr>)" and w: "waiting_ok (m\<lparr>m_acceptors := bs\<rparr>)" using inv by (simp_all add: mgr_inv_def)
  have lt: "r < ?r \<and> m_sid (channels m r) = k" if "(k, r) \<in> set (m_channels m) \<union> set (m_recycle_channels m)" for k r
    using t that by (auto simp: tables_ok_def)
  have eq: "m_channels ?m' = m_channels m" "m_recycle_channels ?m' = m_recycle_channels m" "next_ref ?m' = ?r + 1"
    "connectors ?m' = connectors m" "posted_stops ?m' = posted_stops m" "m_max_connect ?m' = m_max_connect m"
    "m_acceptors ?m' = as" "accepting (acceptors ?m' a) = ?r" "\<And>b. b \<noteq> a \<Longrightarrow> acceptors ?m' b = acceptors m b"
    "\<And>r. r \<noteq> ?r \<Longrightarrow> channels ?m' r = channels m r" "get_type (m_sid (channels ?m' ?r)) = SERVER_SOCKET"
    by (simp_all add: start_accept_def alloc_socket_id_def make_channel_def)
  have tab: "tabled ?m' = tabled m" "?r \<notin> tabled m" by (auto simp: tabled_def eq(1,2) dest: lt [OF UnI1] lt [OF UnI2])
  have stp: "is_stopped ?m' r = is_stopped m r" if "r < ?r" for r using eq(10) [of r] that by (simp add: stopped_defs)
  have "tables_ok ?m'"
  proof -
    have "r < ?r + 1 \<and> m_sid (channels ?m' r) = k" if "(k, r) \<in> set (m_channels m) \<union> set (m_recycle_channels m)" for k r
      using lt [OF that] eq(10) [of r] by auto
    moreover have "is_stopped ?m' r \<or> r \<in> set (posted_stops m)" if "(k, r) \<in> set (m_recycle_channels m)" for k r
      using t that stp [of r] lt [of k r] by (auto simp: tables_ok_def stopped_defs)
    ultimately show ?thesis unfolding tables_ok_def eq(1,2,3,5) by blast
  qed
  moreover have "waiting_ok ?m'"
  proof -
    have b: "b < ?r \<and> accepting (acceptors m b) < ?r \<and> accepting (acceptors m b) \<notin> tabled m \<and>
        get_type (m_sid (channels m (accepting (acceptors m b)))) = SERVER_SOCKET" if "b \<in> set bs" for b
      using w that by (auto simp: waiting_ok_def tabled_def)
    have c: "(connecting (connectors m c) \<longrightarrow> m_reconnect_timer (connectors m c) = None) \<and> c < ?r \<and>
        m_client_channel (connectors m c) < ?r \<and> m_client_channel (connectors m c) \<notin> tabled m \<and>
        m_sid (channels m (m_client_channel (connectors m c))) = conn_sid (connectors m c) \<and>
        get_type (conn_sid (connectors m c)) = CLIENT_SOCKET" if "trying m c" for c
      using w that by (auto simp: waiting_ok_def tabled_def trying_def)
    have tr: "trying ?m' c = trying m c" for c by (simp add: trying_def eq(4))
    have ab: "x \<in> set as \<Longrightarrow> x = a \<or> x \<in> set bs" for x using as by blast
    have "inj_on (\<lambda>x. accepting (acceptors ?m' x)) (set as)"
    proof (rule inj_onI)
      fix x y
      assume xy: "x \<in> set as" "y \<in> set as" "accepting (acceptors ?m' x) = accepting (acceptors ?m' y)"
      have i: "inj_on (\<lambda>x. accepting (acceptors m x)) (set bs)" using w by (simp add: waiting_ok_def)
      show "x = y"
        using ab [OF xy(1)] ab [OF xy(2)] xy(3) eq(8) eq(9) [of x] eq(9) [of y] b [of x] b [of y] a(1) inj_onD [OF i, of x y]
        by (cases "x = a"; cases "y = a") auto
    qed
    moreover have "inj_on (\<lambda>c. m_client_channel (connectors ?m' c)) {c. trying ?m' c}"
      using w by (simp add: waiting_ok_def eq(4) tr trying_def)
    moreover have "x < ?r + 1 \<and> accepting (acceptors ?m' x) < ?r + 1 \<and> accepting (acceptors ?m' x) \<notin> tabled m \<and>
        get_type (m_sid (channels ?m' (accepting (acceptors ?m' x)))) = SERVER_SOCKET" if "x \<in> set as" for x
      using ab [OF that] a tab(2) b [of x] eq(8,11) eq(9) [of x] eq(10) [of "accepting (acceptors m x)"]
      by (cases "x = a") auto
    moreover have "(connecting (connectors m c) \<longrightarrow> m_reconnect_timer (connectors m c) = None) \<and> c < ?r + 1 \<and>
        m_client_channel (connectors m c) < ?r + 1 \<and> m_client_channel (connectors m c) \<notin> tabled m \<and>
        m_sid (channels ?m' (m_client_channel (connectors m c))) = conn_sid (connectors m c) \<and>
        get_type (conn_sid (connectors m c)) = CLIENT_SOCKET" if "trying m c" for c
      using c [OF that] eq(10) [of "m_client_channel (connectors m c)"] by auto
    ultimately show ?thesis unfolding waiting_ok_def eq(3,4,7) tab(1) tr by blast
  qed
  moreover have "get_in_connect_num ?m' \<le> get_in_connect_num m"
    using eq(1) lt stp by (intro in_num_mono [where P = "\<lambda>_. True"]) auto
  ultimately show ?thesis
    using inv eq(6) by (auto simp: mgr_inv_def get_in_connect_num_def stopped_defs)
qed

text \<open>Entering a channel in the table.\<close>

lemma add_channel_inv:
  assumes "mgr_inv m" "r < next_ref m" "m_sid (channels m r) = sid"
    and "\<forall>a\<in>set (m_acceptors m). accepting (acceptors m a) \<noteq> r" "\<forall>c. trying m c \<longrightarrow> m_client_channel (connectors m c) \<noteq> r"
    and "add_channel sid r m = (ok, m')"
  shows "mgr_inv m'"
proof (cases ok)
  case False
  then show ?thesis using assms(1,6) by (auto simp: add_channel_def split: if_splits)
next
  case True
  then have m': "m' = m\<lparr>m_channels := smap_insert sid r (m_channels m)\<rparr>" and ck: "check_over_max_connect (get_type sid) m"
    and new: "smap_lookup (m_channels m) sid = None"
    using assms(6) by (auto simp: add_channel_def split: if_splits)
  have st: "is_stopped m' = is_stopped m" by (simp add: m' stopped_defs fun_eq_iff)
  have sub: "set (m_channels m') \<subseteq> insert (sid, r) (set (m_channels m))" using smap_insert_set by (simp add: m')
  have tab: "tabled m' \<subseteq> insert r (tabled m)" using sub by (force simp: tabled_def m')
  have trm: "trying m' = trying m" by (simp add: trying_def m' fun_eq_iff)
  have t: "tables_ok m'"
    using assms(1-3) sub unfolding mgr_inv_def tables_ok_def st by (auto simp: m')
  have w: "waiting_ok m'"
    using assms(1,4,5) tab unfolding mgr_inv_def waiting_ok_def trm
    by (auto simp: m' dest!: subsetD [OF tab [unfolded m']])
  have "length (filter P (smap_insert sid r xs)) \<le> length (filter P xs) + (if P (sid, r) then 1 else 0)"
    if "smap_lookup xs sid = None" for P and xs :: "(socket_id, chan_ref) smap"
    using that by (induction sid r xs rule: smap_insert.induct) (auto simp: smap_lookup_def split: if_splits)
  note l = this [OF new, of "\<lambda>(k, r). get_type k = SERVER_SOCKET \<and> \<not> is_stopped m r"]
  have "int (get_in_connect_num m') \<le> m_max_connect m - MAX_OUTBOUND_CONNECTIONS + 1"
    using l ck assms(1) unfolding get_in_connect_num_def st mgr_inv_def check_over_max_connect_def
    by (auto simp: m' split: if_splits)
  with t w assms(1) show ?thesis by (simp add: mgr_inv_def m')
qed

lemma chan_start_props:
  assumes "chan_start kind addrs r m = (res, m')"
  shows "m_sid (channels m' q) = m_sid (channels m q)" "q \<noteq> r \<Longrightarrow> channels m' q = channels m q"
    "m_channels m' = m_channels m" "m_recycle_channels m' = m_recycle_channels m" "posted_stops m' = posted_stops m"
    "next_ref m' = next_ref m" "m_max_connect m' = m_max_connect m" "connectors m' = connectors m" "acceptors m' = acceptors m"
    "m_acceptors m' = m_acceptors m" "notices m' = notices m" "m_connectors m' = m_connectors m"
  using assms by (auto simp: chan_start_def Let_def split: prod.splits)

lemma error_inv: "mgr_inv m \<Longrightarrow> mgr_inv (chan_on_error r m)"
  by (rule quiet_inv [where P = "\<lambda>_. True"])
    (auto simp: chan_on_error_def on_error_def error_notify_def stopped_defs trying_def dest: recycled [unfolded stopped_defs])

lemma close_inv: "mgr_inv m \<Longrightarrow> mgr_inv (chan_close r m)"
  by (rule quiet_inv [where P = "\<lambda>_. True"])
    (auto simp: chan_close_def channel_close_def stopped_defs trying_def dest: recycled [unfolded stopped_defs])

text \<open>Starting a channel that is in no table, with the acceptors \<open>as\<close> left.\<close>

lemma chan_start_inv:
  assumes "mgr_inv m" "chan_start kind addrs r m = (res, m1)" "r \<notin> tabled m" "set as \<subseteq> set (m_acceptors m)"
  shows "mgr_inv (m1\<lparr>m_acceptors := as\<rparr>)"
proof (rule quiet_inv [OF assms(1), where P = "\<lambda>_. True"])
  note p = chan_start_props [OF assms(2)]
  show "is_stopped (m1\<lparr>m_acceptors := as\<rparr>) q \<or> q \<in> set (posted_stops (m1\<lparr>m_acceptors := as\<rparr>))"
    if "(k, q) \<in> set (m_recycle_channels (m1\<lparr>m_acceptors := as\<rparr>))" for k q
  proof -
    have q: "(k, q) \<in> set (m_recycle_channels m)" using that p(4) by simp
    then have "q \<in> tabled m" using imageI [OF q, of snd] by (simp add: tabled_def)
    then have "channels m1 q = channels m q" using assms(3) by (intro p(2)) auto
    then show ?thesis using recycled [OF assms(1) q] p(5) by (simp add: stopped_defs)
  qed
  show "m_sid (channels (m1\<lparr>m_acceptors := as\<rparr>) q) = m_sid (channels m q) \<and>
      (q \<in> tabled m \<and> is_stopped m q \<longrightarrow> is_stopped (m1\<lparr>m_acceptors := as\<rparr>) q)" for q
    using p(1) [of q] p(2) [of q] assms(3) by (cases "q = r") (auto simp: stopped_defs)
qed (use chan_start_props [OF assms(2)] assms(4) in \<open>auto simp: trying_def\<close>)

lemma waiting_acceptor:
  assumes "mgr_inv m" "a \<in> set (m_acceptors m)" and r: "r = accepting (acceptors m a)"
  shows "a < next_ref m" "r < next_ref m" "r \<notin> tabled m" "get_type (m_sid (channels m r)) = SERVER_SOCKET"
    "\<forall>b\<in>set (m_acceptors m) - {a}. accepting (acceptors m b) \<noteq> r" "\<forall>c. trying m c \<longrightarrow> m_client_channel (connectors m c) \<noteq> r"
proof -
  have w: "waiting_ok m" using assms(1) by (simp add: mgr_inv_def)
  then show 1: "a < next_ref m" "r < next_ref m" "r \<notin> tabled m" "get_type (m_sid (channels m r)) = SERVER_SOCKET"
    using assms(2) unfolding waiting_ok_def r by blast+
  show "\<forall>b\<in>set (m_acceptors m) - {a}. accepting (acceptors m b) \<noteq> r"
    using w assms(2) unfolding waiting_ok_def inj_on_def r by blast
  show "\<forall>c. trying m c \<longrightarrow> m_client_channel (connectors m c) \<noteq> r"
  proof (intro allI impI notI)
    fix c
    assume "trying m c" "m_client_channel (connectors m c) = r"
    then have "get_type (m_sid (channels m r)) = CLIENT_SOCKET" using w unfolding waiting_ok_def by metis
    with 1(4) show False by simp
  qed
qed

lemma fewer_acceptors: "mgr_inv m \<Longrightarrow> set bs \<subseteq> set (m_acceptors m) \<Longrightarrow> mgr_inv (m\<lparr>m_acceptors := bs\<rparr>)"
  by (rule quiet_inv [where P = "\<lambda>_. True"]) (auto simp: stopped_defs trying_def dest: recycled [unfolded stopped_defs])

lemma acceptors_id: "m_acceptors m = as \<Longrightarrow> m\<lparr>m_acceptors := as\<rparr> = m"
  by simp

lemma close_acceptors:
  "chan_on_error r (chan_close r (m\<lparr>m_acceptors := as\<rparr>)) = (chan_on_error r (chan_close r m))\<lparr>m_acceptors := as\<rparr>"
  by (cases m) (simp add: chan_on_error_def chan_close_def upd_tcp_def)

lemma on_accept_inv:
  assumes inv: "mgr_inv m" and a: "a \<in> set (m_acceptors m)" and run: "on_accept e f a error addrs m = (Inr ok, m')"
  shows "mgr_inv m'"
proof -
  let ?r = "accepting (acceptors m a)" and ?bs = "filter (\<lambda>b. b \<noteq> a) (m_acceptors m)"
  note w = waiting_acceptor [OF inv a refl]
  have again: "mgr_inv (start_accept e f a n)"
    if "mgr_inv (n\<lparr>m_acceptors := ?bs\<rparr>)" "m_acceptors n = m_acceptors m" "next_ref n = next_ref m" for n
  proof -
    have "set (m_acceptors m) \<subseteq> insert a (set ?bs)" by auto
    then have "mgr_inv ((start_accept e f a n)\<lparr>m_acceptors := m_acceptors m\<rparr>)"
      using w(1) that(3) by (intro start_accept_inv [OF that(1)]) simp_all
    moreover have "m_acceptors (start_accept e f a n) = m_acceptors m"
      using that(2) by (simp add: start_accept_def alloc_socket_id_def make_channel_def)
    ultimately show ?thesis by (simp add: acceptors_id)
  qed
  have err: "mgr_inv (start_accept e f a (chan_on_error ?r m))"
    using fewer_acceptors [OF error_inv [OF inv], of ?bs ?r] by (intro again) (auto simp: chan_on_error_def)
  consider "error = Operation_aborted" "m' = m" | "m' = start_accept e f a (chan_on_error ?r m)" |
    addr_pair m1 ok' m2 where "chan_start Server addr_pair ?r m = (Inr (), m1)" "add_channel (m_sid (channels m1 ?r)) ?r m1 = (ok', m2)"
      "m' = start_accept e f a (if ok' then m2 else chan_on_error ?r (chan_close ?r m2))"
    using run by (auto simp: on_accept_def Let_def split: if_splits option.splits prod.splits sum.splits)
  then show ?thesis
  proof cases
    case 1
    then show ?thesis using inv by simp
  next
    case 2
    then show ?thesis using err by simp
  next
    case 3
    note p = chan_start_props [OF 3(1)]
    have 1: "mgr_inv (m1\<lparr>m_acceptors := ?bs\<rparr>)" by (rule chan_start_inv [OF inv 3(1) w(3)]) auto
    have add: "add_channel (m_sid (channels m1 ?r)) ?r (m1\<lparr>m_acceptors := ?bs\<rparr>) = (ok', m2\<lparr>m_acceptors := ?bs\<rparr>)"
      using 3(2) by (auto simp: add_channel_def check_over_max_connect_def get_in_connect_num_def stopped_defs split: if_splits)
    have n: "m_acceptors m2 = m_acceptors m" "next_ref m2 = next_ref m"
      using 3(2) p(6,10) by (auto simp: add_channel_def split: if_splits)
    have "mgr_inv (m2\<lparr>m_acceptors := ?bs\<rparr>)"
    proof (rule add_channel_inv [OF 1 _ _ _ _ add])
      show "\<forall>b\<in>set (m_acceptors (m1\<lparr>m_acceptors := ?bs\<rparr>)). accepting (acceptors (m1\<lparr>m_acceptors := ?bs\<rparr>) b) \<noteq> ?r"
        using w(5) p(9) by auto
      show "\<forall>c. trying (m1\<lparr>m_acceptors := ?bs\<rparr>) c \<longrightarrow> m_client_channel (connectors (m1\<lparr>m_acceptors := ?bs\<rparr>) c) \<noteq> ?r"
        using w(6) p(8) by (simp add: trying_def)
    qed (use w(2) p(6) in simp_all)
    moreover from error_inv [OF close_inv [OF this, of ?r], of ?r]
    have "mgr_inv ((chan_on_error ?r (chan_close ?r m2))\<lparr>m_acceptors := ?bs\<rparr>)" by (simp only: close_acceptors)
    ultimately show ?thesis
      unfolding 3(3) using n by (intro again) (auto simp: chan_on_error_def chan_close_def)
  qed
qed

lemma start_listen_inv:
  assumes inv: "mgr_inv m" and run: "start_listen e f listens ep m = (ok, m')"
  shows "mgr_inv m'"
proof (cases listens)
  case False
  then show ?thesis using assms by (simp add: start_listen_def)
next
  case True
  let ?a = "next_ref m"
  let ?m1 = "m\<lparr>next_ref := ?a + 1, acceptors := (acceptors m)(?a := \<lparr>m_endpoint = ep, a_closed = False, accepting = 0\<rparr>)\<rparr>"
  have old: "?a \<notin> set (m_acceptors m)" using inv by (auto simp: mgr_inv_def waiting_ok_def)
  have 1: "mgr_inv (?m1\<lparr>m_acceptors := m_acceptors m\<rparr>)"
    by (rule quiet_inv [OF inv, where P = "\<lambda>_. True"])
      (use old in \<open>auto simp: stopped_defs trying_def dest: recycled [OF inv, unfolded stopped_defs]\<close>)
  from start_accept_inv [OF 1 old, of "m_acceptors m @ [?a]" e f] True run show ?thesis
    by (auto simp: start_listen_def start_accept_def alloc_socket_id_def make_channel_def Let_def)
qed

lemma waiting_connector:
  assumes "mgr_inv m" "trying m c" and r: "r = m_client_channel (connectors m c)"
  shows "r < next_ref m" "r \<notin> tabled m" "m_sid (channels m r) = conn_sid (connectors m c)"
    "\<forall>a\<in>set (m_acceptors m). accepting (acceptors m a) \<noteq> r"
    "\<forall>d. trying m d \<and> d \<noteq> c \<longrightarrow> m_client_channel (connectors m d) \<noteq> r"
proof -
  have w: "waiting_ok m" using assms(1) by (simp add: mgr_inv_def)
  then have 1: "r < next_ref m" "r \<notin> tabled m" "m_sid (channels m r) = conn_sid (connectors m c)"
      "get_type (conn_sid (connectors m c)) = CLIENT_SOCKET"
    using assms(2) unfolding waiting_ok_def r by blast+
  then show "r < next_ref m" "r \<notin> tabled m" "m_sid (channels m r) = conn_sid (connectors m c)" by blast+
  show "\<forall>a\<in>set (m_acceptors m). accepting (acceptors m a) \<noteq> r"
    using waiting_acceptor(6) [OF assms(1) _ refl] assms(2) r by metis
  show "\<forall>d. trying m d \<and> d \<noteq> c \<longrightarrow> m_client_channel (connectors m d) \<noteq> r"
    using w assms(2) unfolding waiting_ok_def inj_on_def r by blast
qed

text \<open>A connector whose attempt is over, and one that reports.\<close>

lemma attempt_over_inv: "mgr_inv m \<Longrightarrow> mgr_inv (upd_conn c (\<lambda>x. x\<lparr>connecting := False\<rparr>) m)"
  by (rule quiet_inv [where P = "\<lambda>_. True"])
    (auto simp: stopped_defs trying_def split: if_splits dest: recycled [unfolded stopped_defs])

lemma report_inv:
  assumes "mgr_inv m"
  shows "mgr_inv (connect_notify c status m)" "mgr_inv (upd_conn c (\<lambda>x. x\<lparr>m_connected := True, m_reconnect_times := 0\<rparr>) m)"
  by (rule quiet_inv [OF assms, where P = "\<lambda>_. True"];
      auto simp: connect_notify_def stopped_defs trying_def split: if_splits dest: recycled [OF assms, unfolded stopped_defs])+

lemma reconnect_inv:
  assumes inv: "mgr_inv m" and c: "connecting (connectors m c)"
  shows "mgr_inv (reconnect c (upd_conn c (\<lambda>x. x\<lparr>connecting := False\<rparr>) m))"
proof (cases "m_reconnect_times (connectors m c) < m_max_reconnect_times (connectors m c)")
  case False
  then show ?thesis using report_inv(1) [OF attempt_over_inv [OF inv]] by (simp add: reconnect_def)
next
  case True
  then show ?thesis
    by (intro quiet_inv [OF inv, where P = "\<lambda>_. True"])
      (use c in \<open>auto simp: reconnect_def Let_def stopped_defs trying_def split: if_splits dest: recycled [OF inv, unfolded stopped_defs]\<close>)
qed

lemma on_connect_inv:
  assumes inv: "mgr_inv m0" and c: "connecting (connectors m0 c)" and run: "on_connect c error addrs m0 = (Inr (), m')"
  shows "mgr_inv m'"
proof -
  let ?m = "upd_conn c (\<lambda>x. x\<lparr>connecting := False\<rparr>) m0" and ?r = "m_client_channel (connectors m0 c)"
  have t: "trying m0 c" using c by (simp add: trying_def)
  note w = waiting_connector [OF inv t refl] and i = attempt_over_inv [OF inv, of c]
  have tm: "m_reconnect_timer (connectors m0 c) = None" using inv c t by (auto simp: mgr_inv_def waiting_ok_def)
  consider "m' = ?m" | "m' = reconnect c ?m" |
    addr_pair m1 ok m2 where "chan_start Client addr_pair ?r ?m = (Inr (), m1)" "add_channel (conn_sid (connectors m1 c)) ?r m1 = (ok, m2)"
      "m' = (if ok then connect_notify c CLIENT_CONNECT_SUCCESS (upd_conn c (\<lambda>x. x\<lparr>m_connected := True, m_reconnect_times := 0\<rparr>) m2) else m2)"
    using run by (auto simp: on_connect_def Let_def split: if_splits option.splits prod.splits sum.splits)
  then show ?thesis
  proof cases
    case 1
    then show ?thesis using i by simp
  next
    case 2
    then show ?thesis using reconnect_inv [OF inv c] by simp
  next
    case 3
    note p = chan_start_props [OF 3(1)]
    have "mgr_inv (m1\<lparr>m_acceptors := m_acceptors ?m\<rparr>)"
      using w(2) by (intro chan_start_inv [OF i 3(1)]) (simp_all add: tabled_def)
    then have 1: "mgr_inv m1" using p(10) by (simp add: acceptors_id)
    have "mgr_inv m2"
    proof (rule add_channel_inv [OF 1 _ _ _ _ 3(2)])
      show "\<forall>d. trying m1 d \<longrightarrow> m_client_channel (connectors m1 d) \<noteq> ?r"
        using w(5) tm p(8) by (auto simp: trying_def split: if_splits)
    qed (use w p in simp_all)
    then show ?thesis unfolding 3(3) using report_inv by simp
  qed
qed

lemma start_connect_inv:
  assumes inv: "mgr_inv m" and run: "start_connect e f ep m = (ok, m')"
  shows "mgr_inv m'"
proof -
  let ?c = "next_ref m" and ?r = "Suc (next_ref m)"
  have t: "tables_ok m" and w: "waiting_ok m" using inv by (simp_all add: mgr_inv_def)
  have eq: "m_channels m' = m_channels m" "m_recycle_channels m' = m_recycle_channels m" "next_ref m' = Suc ?r"
    "acceptors m' = acceptors m" "posted_stops m' = posted_stops m" "m_max_connect m' = m_max_connect m"
    "m_acceptors m' = m_acceptors m" "\<And>r. r \<noteq> ?r \<Longrightarrow> channels m' r = channels m r"
    "\<And>d. d \<noteq> ?c \<Longrightarrow> connectors m' d = connectors m d" "m_client_channel (connectors m' ?c) = ?r"
    "m_sid (channels m' ?r) = conn_sid (connectors m' ?c)" "get_type (conn_sid (connectors m' ?c)) = CLIENT_SOCKET"
    "m_reconnect_timer (connectors m' ?c) = None"
    using run by (auto simp: start_connect_def connector_start_def async_connect_def alloc_socket_id_def make_channel_def Let_def)
  have lt: "r < ?c \<and> m_sid (channels m r) = k" if "(k, r) \<in> set (m_channels m) \<union> set (m_recycle_channels m)" for k r
    using t that by (auto simp: tables_ok_def)
  have tab: "tabled m' = tabled m" "?r \<notin> tabled m" by (auto simp: tabled_def eq(1,2) dest!: lt [OF UnI1] lt [OF UnI2])
  have old: "channels m' r = channels m r" "is_stopped m' r = is_stopped m r" if "r < ?c" for r
    using eq(8) [of r] that by (simp_all add: stopped_defs)
  have "r < Suc ?r \<and> m_sid (channels m' r) = k" if "(k, r) \<in> set (m_channels m) \<union> set (m_recycle_channels m)" for k r
    using lt [OF that] old [of r] by auto
  moreover have "is_stopped m' r \<or> r \<in> set (posted_stops m)" if "(k, r) \<in> set (m_recycle_channels m)" for k r
    using recycled [OF inv that] old [of r] lt [of k r] that by auto
  ultimately have "tables_ok m'" unfolding tables_ok_def eq(1,2,3,5) by blast
  moreover have "waiting_ok m'"
  proof -
    have a: "a < Suc ?r \<and> accepting (acceptors m a) < Suc ?r \<and> accepting (acceptors m a) \<notin> tabled m \<and>
        get_type (m_sid (channels m' (accepting (acceptors m a)))) = SERVER_SOCKET" if "a \<in> set (m_acceptors m)" for a
      using waiting_acceptor [OF inv that refl] old by auto
    have tr: "trying m d" "connectors m' d = connectors m d" if "trying m' d" "d \<noteq> ?c" for d
      using that eq(9) by (simp_all add: trying_def)
    have d: "(connecting (connectors m' d) \<longrightarrow> m_reconnect_timer (connectors m' d) = None) \<and> d < Suc ?r \<and>
        m_client_channel (connectors m' d) < Suc ?r \<and> m_client_channel (connectors m' d) \<notin> tabled m \<and>
        m_sid (channels m' (m_client_channel (connectors m' d))) = conn_sid (connectors m' d) \<and>
        get_type (conn_sid (connectors m' d)) = CLIENT_SOCKET" if "trying m' d" for d
    proof (cases "d = ?c")
      case True
      then show ?thesis using eq(10-13) tab(2) by simp
    next
      case False
      have "(connecting (connectors m d) \<longrightarrow> m_reconnect_timer (connectors m d) = None) \<and> d < ?c \<and> get_type (conn_sid (connectors m d)) = CLIENT_SOCKET"
        using w tr(1) [OF that False] unfolding waiting_ok_def by blast
      then show ?thesis
        using waiting_connector [OF inv tr(1) [OF that False] refl] tr(2) [OF that False] old by auto
    qed
    have "inj_on (\<lambda>d. m_client_channel (connectors m' d)) {d. trying m' d}"
    proof (rule inj_onI)
      have far: "m_client_channel (connectors m' x) < ?c" if "trying m' x" "x \<noteq> ?c" for x
        using waiting_connector(1) [OF inv tr(1) [OF that] refl] tr(2) [OF that] by simp
      fix x y
      assume xy: "x \<in> {d. trying m' d}" "y \<in> {d. trying m' d}" "m_client_channel (connectors m' x) = m_client_channel (connectors m' y)"
      have i: "inj_on (\<lambda>d. m_client_channel (connectors m d)) {d. trying m d}" using w by (simp add: waiting_ok_def)
      show "x = y"
        using xy far [of x] far [of y] eq(10) tr [of x] tr [of y] inj_onD [OF i, of x y]
        by (cases "x = ?c"; cases "y = ?c") auto
    qed
    moreover have "inj_on (\<lambda>a. accepting (acceptors m a)) (set (m_acceptors m))" using w by (simp add: waiting_ok_def)
    ultimately show ?thesis using a d unfolding waiting_ok_def eq(3,4,7) tab(1) by blast
  qed
  moreover have "get_in_connect_num m' \<le> get_in_connect_num m"
    using eq(1) lt old by (intro in_num_mono [where P = "\<lambda>_. True"]) auto
  ultimately show ?thesis using inv eq(6) by (simp add: mgr_inv_def)
qed

lemma mgr_step_inv: "mgr_step m m' \<Longrightarrow> mgr_inv m \<Longrightarrow> mgr_inv m'"
proof (induction rule: mgr_step.induct)
  case (release sid m ok m')
  then show ?case using drop_connector_inv [of m "\<lambda>c. conn_sid c = sid"] by (simp add: release_connector_def)
next
  case (disconnect m ep)
  then show ?case using drop_connector_inv [of m "\<lambda>c. m_connect_addr c = ep"] by (simp add: stop_connect_def)
next
  case (channel_error m sid)
  then show ?case using stop_channel_inv by (simp add: on_tcp_channel_error_def)
qed (blast intro: start_listen_inv on_accept_inv start_connect_inv on_connect_inv quiet_steps activity_inv)+

lemma load_max_connect_ok:
  "load_max_connect conf limits m = (True, m') \<Longrightarrow>
     m' = m\<lparr>m_max_connect := m_max_connect m'\<rparr> \<and> MAX_OUTBOUND_CONNECTIONS \<le> m_max_connect m' \<and> m_max_connect m' \<le> max conf MAX_OUTBOUND_CONNECTIONS
     \<and> m_max_connect m' \<le> 705"
  by (auto simp: load_max_connect_def Let_def manager_consts split: if_splits)

lemmas manager_defs =
  start_listen_def start_accept_def on_accept_def stop_listen_def acceptor_stop_def start_connect_def
  connector_start_def async_connect_def alloc_socket_id_def make_channel_def on_connect_def reconnect_def connect_notify_def
  on_reconnect_timer_expired_def release_connector_def drop_connector_def connector_stop_def chan_close_def chan_on_error_def
  stop_connect_def on_tcp_channel_error_def stop_channel_def post_stop_def remove_channel_def run_stop_def on_recycle_timer_def
  set_proto_capacity_def upd_peer_def activity_def add_channel_def smap_erase_def Let_def

lemma mgr_step_max: "mgr_step m m' \<Longrightarrow> m_max_connect m' = m_max_connect m"
  by (induction rule: mgr_step.induct)
    (auto simp: manager_defs dest!: chan_start_props(7) split: if_splits option.splits prod.splits sum.splits)

lemma mgr_reach_inv: "mgr_reach m \<Longrightarrow> mgr_inv m \<and> m_max_connect m \<le> 705"
proof (induction rule: mgr_reach.induct)
  case (init conf limits c0 m)
  then obtain n where "m = (new_conn_mgr c0)\<lparr>m_max_connect := n\<rparr>" "MAX_OUTBOUND_CONNECTIONS \<le> n" "n \<le> 705"
    using load_max_connect_ok by metis
  then show ?case by (simp add: mgr_inv_def tables_ok_def waiting_ok_def new_conn_mgr_def trying_def get_in_connect_num_def)
next
  case (step m m')
  then show ?case using mgr_step_inv mgr_step_max by simp
qed

lemma smap_filter_wf [simp]: "smap_wf xs \<Longrightarrow> smap_wf (filter P xs)"
  unfolding smap_wf_def by (induction xs) auto

lemma mgr_step_wf:
  "mgr_step m m' \<Longrightarrow> smap_wf (m_channels m) \<Longrightarrow> smap_wf (m_channels m')"
  by (induction rule: mgr_step.induct)
    (auto simp: manager_defs dest!: chan_start_props(3) split: if_splits option.splits prod.splits sum.splits)

lemma mgr_step_recycle_wf:
  "mgr_step m m' \<Longrightarrow> smap_wf (m_recycle_channels m) \<Longrightarrow> smap_wf (m_recycle_channels m')"
  by (induction rule: mgr_step.induct)
    (auto simp: manager_defs dest!: chan_start_props(4) split: if_splits option.splits prod.splits sum.splits)

lemma mgr_reach_wf: "mgr_reach m \<Longrightarrow> smap_wf (m_channels m) \<and> smap_wf (m_recycle_channels m)"
proof (induction rule: mgr_reach.induct)
  case (init conf limits c0 m)
  then have "m = (new_conn_mgr c0)\<lparr>m_max_connect := m_max_connect m\<rparr>" using load_max_connect_ok by blast
  then have "m_channels m = [] \<and> m_recycle_channels m = []" by (metis new_conn_mgr_def conn_mgr.update_convs(2) conn_mgr.select_convs(5,6))
  then show ?case by (simp add: smap_wf_def)
next
  case (step m m')
  then show ?case using mgr_step_wf mgr_step_recycle_wf by blast
qed

text \<open>Two channels: the one to node \<open>b\<close> has logged in, the one to node \<open>c\<close> has not.\<close>

definition sample_channel :: "socket_id \<Rightarrow> bool \<Rightarrow> string \<Rightarrow> net_channel" where
  "sample_channel sid logged node =
     \<lparr>m_sid = sid,
      tcp = new_channel (sample_handler\<lparr>m_login_success := logged\<rparr>, sample_env\<lparr>peer := Some (node, default_capacity)\<rparr>),
      m_remote_addr = None, m_local_addr = None\<rparr>"

definition sample_mgr :: conn_mgr where
  "sample_mgr =
     (new_conn_mgr (sample_channel (Socket_id CLIENT_SOCKET 9) False []))
       \<lparr>m_channels := [(Socket_id SERVER_SOCKET 1, 1), (Socket_id CLIENT_SOCKET 2, 2)], next_ref := 3,
        channels := (\<lambda>r. if r = 1 then sample_channel (Socket_id SERVER_SOCKET 1) True ''b''
                       else sample_channel (Socket_id CLIENT_SOCKET 2) False ''c'')\<rparr>"

lemma sample_channel_ok: "chan_ok (Cons 1) (tcp (sample_channel sid b n))"
  by (simp add: chan_ok_def sample_channel_def new_channel_def write_check_def encoder_inv_def sample_handler_def new_handler_def
      sample_env_def new_buf_default_wf new_buf_std)

lemma sample_mgr_simps:
  "m_channels sample_mgr = [(Socket_id SERVER_SOCKET 1, 1), (Socket_id CLIENT_SOCKET 2, 2)]" "m_recycle_channels sample_mgr = []"
  "channels sample_mgr r = (if r = 1 then sample_channel (Socket_id SERVER_SOCKET 1) True ''b''
                       else sample_channel (Socket_id CLIENT_SOCKET 2) False ''c'')"
  "ready sample_mgr r = (r = 1)" "get_remote_node_id sample_mgr 1 = ''b''"
  "get_remote_node_id sample_mgr (Suc 0) = ''b''"
  by (auto simp: sample_mgr_def new_conn_mgr_def ready_def get_remote_node_id_def is_channel_ready_def sample_channel_def
      new_channel_def sample_handler_def new_handler_def)

lemma sample_mgr_keys: "\<forall>(k, r)\<in>set (m_channels sample_mgr). m_sid (channels sample_mgr r) = k"
  by (simp add: sample_mgr_simps sample_channel_def)

text \<open>(C10) The tables of the manager, in every state its events lead to: they are ordered maps; the id a
  channel is filed under is its own; a channel that was taken out of service is stopped or its stop
  is on its way; and the number of open inbound connections exceeds the configured rest
  \<open>m_max_connect - MAX_OUTBOUND_CONNECTIONS\<close> by at most one, so it is never above 538.\<close>

theorem connection_tables_invariant:
  assumes "mgr_reach m"
  shows "smap_wf (m_channels m) \<and> smap_wf (m_recycle_channels m) \<and>
         (\<forall>(k, r)\<in>set (m_channels m) \<union> set (m_recycle_channels m). m_sid (channels m r) = k) \<and>
         (\<forall>(k, r)\<in>set (m_recycle_channels m). is_stopped m r \<or> r \<in> set (posted_stops m)) \<and>
         int (get_in_connect_num m) \<le> m_max_connect m - MAX_OUTBOUND_CONNECTIONS + 1 \<and> get_in_connect_num m \<le> 538"
  using mgr_reach_inv [OF assms] mgr_reach_wf [OF assms]
  by (auto simp: mgr_inv_def tables_ok_def MAX_OUTBOUND_CONNECTIONS_def)

theorem connection_tables_invariant_witness:
  "let m = snd (start_connect sample_env (new_filter 4 2 2 7) (Addr_v4 1 2 3 4, 10001)
                 (snd (load_max_connect 1024 None (new_conn_mgr (sample_channel (Socket_id CLIENT_SOCKET 9) False [])))))
   in m_max_connect m = 705 \<and> int (get_in_connect_num m) \<le> 538"
proof -
  let ?n = "new_conn_mgr (sample_channel (Socket_id CLIENT_SOCKET 9) False [])"
  let ?start = "snd (load_max_connect 1024 None ?n)"
  let ?m = "snd (start_connect sample_env (new_filter 4 2 2 7) (Addr_v4 1 2 3 4, 10001) ?start)"
  have l: "load_max_connect 1024 None ?n = (True, ?start)" "m_max_connect ?start = 705"
    by (simp_all add: load_max_connect_def RaiseFileDescriptorLimit_def manager_consts)
  have "start_connect sample_env (new_filter 4 2 2 7) (Addr_v4 1 2 3 4, 10001) ?start = (True, ?m)"
    by (simp add: start_connect_def connector_start_def alloc_socket_id_def make_channel_def Let_def)
  note st = mgr_step.connect [OF this]
  from mgr_step_max [OF st] l(2) have "m_max_connect ?m = 705" by (simp only:)
  with connection_tables_invariant [OF mgr_reach.step [OF mgr_reach.init [OF l(1)] st]]
  show ?thesis unfolding Let_def by (simp del: One_nat_def)
qed

text \<open>(C12) Broadcasting: when some channel is ready, the message is queued exactly once on every channel that
  is ready and not the excluded one; no other channel is touched. When none is ready nothing happens
  and the result is false.\<close>

theorem broadcast_reaches_ready:
  assumes "smap_wf (m_channels m)" and "\<forall>(k, r)\<in>set (m_channels m). m_sid (channels m r) = k"
    and "\<forall>(k, r)\<in>set (m_channels m). ready m r \<longrightarrow> chan_ok sc (tcp (channels m r))"
    and "sendable sc msg" and "message_content msg = Some c" and "nonce (content_header c) \<noteq> []"
  shows "\<exists>m'. broadcast_message msg ex m = (Inr (\<exists>(k, r)\<in>set (m_channels m). ready m r), m') \<and>
           (\<forall>(k, r)\<in>set (m_channels m).
              if ready m r \<and> \<not> (get_id ex \<noteq> 0 \<and> k = ex)
              then m_send_queue (tcp (channels m' r)) = m_send_queue (tcp (channels m r)) @ [msg]
              else channels m' r = channels m r) \<and>
           (\<forall>r. r \<notin> snd ` set (m_channels m) \<longrightarrow> channels m' r = channels m r)"
proof (cases "have_active_channel m")
  case False
  then have "\<forall>(k, r)\<in>set (m_channels m). \<not> ready m r" by (auto simp: have_active_channel_def)
  then show ?thesis using assms(5,6) False
    by (intro exI [of _ m]) (auto simp: broadcast_message_def have_active_channel_def)
next
  case True
  have "distinct (map fst (m_channels m))"
    using assms(1) by (simp add: smap_wf_def strict_sorted_iff)
  then have "distinct (map snd (m_channels m))"
    using assms(2) unfolding distinct_map inj_on_def by (metis (mono_tags, lifting) case_prodE prod.sel)
  from broadcast_loop [OF this assms(3,4), of ex] obtain m' where
    "mforeach (m_channels m) (\<lambda>x _. broadcast_to ex msg x) () m = (Inr (), m')"
    "\<forall>r. r \<notin> snd ` set (m_channels m) \<longrightarrow> channels m' r = channels m r"
    "\<forall>(k, r)\<in>set (m_channels m). if ready m r \<and> \<not> excluded ex k
       then m_send_queue (tcp (channels m' r)) = m_send_queue (tcp (channels m r)) @ [msg]
       else channels m' r = channels m r" by blast
  with True assms(5,6) show ?thesis
    by (intro exI [of _ m']) (simp add: broadcast_message_def mbind_def mret_run excluded_def have_active_channel_def)
qed

theorem broadcast_reaches_ready_witness:
  "\<exists>m'. broadcast_message request_message (Socket_id CLIENT_SOCKET 0) sample_mgr = (Inr True, m') \<and>
     m_send_queue (tcp (channels m' 1)) = [request_message] \<and> channels m' 2 = channels sample_mgr 2"
proof -
  have "sorted_wrt (<) [Socket_id SERVER_SOCKET 1, Socket_id CLIENT_SOCKET 2]"
    by (simp add: less_socket_id_def cmp_key_def socket_type_code_def)
  then have "smap_wf (m_channels sample_mgr)" by (simp add: smap_wf_def sample_mgr_simps)
  moreover have "\<forall>(k, r)\<in>set (m_channels sample_mgr). ready sample_mgr r \<longrightarrow> chan_ok (Cons 1) (tcp (channels sample_mgr r))"
    by (simp add: sample_mgr_simps sample_channel_ok)
  ultimately show ?thesis
    using broadcast_reaches_ready [OF _ sample_mgr_keys _ request_sendable, of "Msg_body ''get_peer_nodes_req'' request_header sample_request" "Socket_id CLIENT_SOCKET 0"]
    by (auto simp: request_message_def request_header_def content_header_def sample_mgr_simps sample_channel_def new_channel_def)
qed

text \<open>(C11) A response goes back along its path: it is queued on the channel to the first node of the path
  that a ready channel reaches, with the path cut to the nodes before that one; when no node of the
  path is reached nothing is sent, and the call still reports success.\<close>

theorem response_takes_first_reachable:
  assumes "message_content msg = Some c" and "nonce (content_header c) \<noteq> []"
  shows "((\<forall>x\<in>set (path (content_header c)). channel_to m x = None) \<longrightarrow> send_resp_message msg m = (Inr True, m)) \<and>
         (\<forall>p n q r msg'. path (content_header c) = p @ n # q \<and> (\<forall>x\<in>set p. channel_to m x = None) \<and> channel_to m n = Some r \<and>
            msg' = msg\<lparr>message_content := Some (content_set_path p c)\<rparr> \<and> sendable sc msg' \<and> chan_ok sc (tcp (channels m r)) \<longrightarrow>
            ready m r \<and> get_remote_node_id m r = n \<and>
            (\<exists>ch. send_resp_message msg m = (Inr True, upd_tcp r (\<lambda>_. ch) m) \<and>
               m_send_queue ch = m_send_queue (tcp (channels m r)) @ [msg']))"
proof (intro conjI impI allI)
  assume "\<forall>x\<in>set (path (content_header c)). channel_to m x = None"
  then show "send_resp_message msg m = (Inr True, m)"
    using assms by (simp add: send_resp_message_def find_fast_path_none)
next
  fix p n q r msg'
  assume a: "path (content_header c) = p @ n # q \<and> (\<forall>x\<in>set p. channel_to m x = None) \<and> channel_to m n = Some r \<and>
      msg' = msg\<lparr>message_content := Some (content_set_path p c)\<rparr> \<and> sendable sc msg' \<and> chan_ok sc (tcp (channels m r))"
  then show "ready m r" "get_remote_node_id m r = n" using channel_to_ready by blast+
  from a have "find_fast_path m (path (content_header c)) = (Some r, p)" using find_fast_path_first by metis
  moreover from a chan_write_ok obtain ch where
    "chan_write r msg' m = (Inr True, upd_tcp r (\<lambda>_. ch) m)" "m_send_queue ch = m_send_queue (tcp (channels m r)) @ [msg']" by blast
  ultimately show "\<exists>ch. send_resp_message msg m = (Inr True, upd_tcp r (\<lambda>_. ch) m) \<and>
      m_send_queue ch = m_send_queue (tcp (channels m r)) @ [msg']"
    using a assms by (intro exI [of _ ch]) (simp add: send_resp_message_def mbind_def mret_run)
qed

theorem response_takes_first_reachable_witness:
  "let c = content_set_path [''b'', ''c''] (Msg_body ''get_peer_nodes_req'' request_header sample_request)
   in \<exists>ch. send_resp_message (request_message\<lparr>message_content := Some c\<rparr>) sample_mgr = (Inr True, upd_tcp 1 (\<lambda>_. ch) sample_mgr) \<and>
        m_send_queue ch = [request_message]"
proof -
  let ?c = "content_set_path [''b'', ''c''] (Msg_body ''get_peer_nodes_req'' request_header sample_request)"
  let ?m = "request_message\<lparr>message_content := Some ?c\<rparr>"
  have m: "?m\<lparr>message_content := Some (content_set_path [] ?c)\<rparr> = request_message"
    by (simp add: request_message_def request_header_def empty_header_def)
  have "channel_to sample_mgr ''b'' = Some 1" by (simp add: channel_to_def sample_mgr_simps)
  then show ?thesis
    using response_takes_first_reachable [of ?m ?c sample_mgr "Cons 1", THEN conjunct2, rule_format, of "[]" "''b''" "[''c'']" 1 request_message]
      m request_sendable sample_channel_ok
    by (simp add: content_header_def sample_mgr_simps request_header_def sample_channel_def new_channel_def)
qed

definition connect_fails :: "io_error \<Rightarrow> (endpoint \<times> endpoint) option \<Rightarrow> bool" where
  "connect_fails error addrs \<longleftrightarrow> error \<noteq> Operation_aborted \<and> (error = No_error \<longrightarrow> addrs = None)"

lemma on_connect_fails:
  "connect_fails error addrs \<Longrightarrow> on_connect c error addrs m = (Inr (), reconnect c (upd_conn c (\<lambda>x. x\<lparr>connecting := False\<rparr>) m))"
  by (auto simp: connect_fails_def on_connect_def Let_def split: option.splits)

text \<open>A connector gives up: when its three attempts fail it waits four seconds, then eight, and then
  reports the failure once; it does not try again.\<close>

theorem connector_gives_up:
  assumes "connect_fails e1 a1" "connect_fails e2 a2" "connect_fails e3 a3"
  shows "let c = next_ref m;
             m1 = snd (start_connect e f ep m);
             m2 = snd (on_connect c e1 a1 m1);
             m3 = snd (on_connect c e2 a2 (on_reconnect_timer_expired c No_error m2));
             m4 = snd (on_connect c e3 a3 (on_reconnect_timer_expired c No_error m3))
         in connecting (connectors m1 c) \<and>
            m_reconnect_timer (connectors m2 c) = Some 4 \<and> m_reconnect_timer (connectors m3 c) = Some 8 \<and>
            \<not> connecting (connectors m3 c) \<and> notices m3 = notices m \<and>
            \<not> connecting (connectors m4 c) \<and> m_reconnect_timer (connectors m4 c) = None \<and>
            notices m4 = notices m @ [Client_connect_notification (Socket_id CLIENT_SOCKET (m_cur_idx m + 1)) ep CLIENT_CONNECT_FAIL]"
  unfolding Let_def on_connect_fails [OF assms(1)] on_connect_fails [OF assms(2)] on_connect_fails [OF assms(3)]
  by (simp add: start_connect_def connector_start_def async_connect_def alloc_socket_id_def make_channel_def reconnect_def Let_def
      on_reconnect_timer_expired_def connect_notify_def MAX_RECONNECT_TIMES_def RECONNECT_INTERVAL_def)

theorem connector_gives_up_witness:
  "let c = next_ref sample_mgr;
       m1 = snd (start_connect sample_env (new_filter 4 2 2 7) (Addr_v4 1 2 3 4, 10001) sample_mgr);
       m2 = snd (on_connect c Remote_io None m1)
   in m_reconnect_timer (connectors m2 c) = Some 4"
  using connector_gives_up [of Remote_io None No_error None Other_error None sample_mgr sample_env "new_filter 4 2 2 7" "(Addr_v4 1 2 3 4, 10001)"]
  unfolding Let_def by (simp add: connect_fails_def)

text \<open>A failed channel is released: the error takes it out of the table, so that nothing is sent on it any
  more, and has it stopped; once the stop has run and no more than two references to it are left, the
  next recycle timer drops it, and nothing of it remains in the tables.\<close>

theorem failed_channel_released:
  assumes "get_channel sid m = Some r" and "smap_lookup (m_recycle_channels m) sid = None"
    and "use_count r \<le> MIN_RELEASE_CHANNEL_USE_COUNT"
    and "\<forall>(k, q)\<in>set (m_channels m). m_sid (channels m q) = k"
  shows "let m1 = on_tcp_channel_error sid m; m2 = run_stop kind r m1; m3 = on_recycle_timer use_count m2
         in send_message sid msg m1 = (Inr False, m1) \<and> (is_stopped m1 r \<or> r \<in> set (posted_stops m1)) \<and>
            smap_lookup (m_recycle_channels m1) sid = Some r \<and> is_stopped m2 r \<and> r \<notin> tabled m3"
proof -
  let ?m1 = "on_tcp_channel_error sid m"
  have look: "smap_lookup (m_channels m) sid = Some r" using assms(1) by (simp add: get_channel_def)
  then have sid: "m_sid (channels m r) = sid" using assms(4) lookup_in [OF look] by auto
  have m1: "m_channels ?m1 = smap_erase sid (m_channels m)" "m_recycle_channels ?m1 = smap_insert sid r (m_recycle_channels m)"
    "channels ?m1 = channels m" "is_stopped ?m1 r \<or> r \<in> set (posted_stops ?m1)"
    using look assms(2) by (auto simp: on_tcp_channel_error_def stop_channel_def Let_def post_stop_def stopped_defs)
  have gone: "smap_lookup (m_channels ?m1) sid = None" unfolding m1(1)
    by (auto simp: smap_lookup_def smap_erase_def map_of_eq_None_iff)
  have "r \<notin> snd ` set (m_channels ?m1)"
    using assms(4) sid by (auto simp: m1(1) smap_erase_def)
  then show ?thesis
    using m1 gone assms(3)
    by (auto simp: Let_def send_message_def smap_lookup_insert run_stop_def channel_stop_def stopped_defs tabled_def on_recycle_timer_def)
qed

theorem failed_channel_released_witness:
  "let sid = Socket_id SERVER_SOCKET 1; m1 = on_tcp_channel_error sid sample_mgr
   in send_message sid request_message m1 = (Inr False, m1) \<and>
      1 \<notin> tabled (on_recycle_timer (\<lambda>_. 2) (run_stop Server 1 m1))"
  using failed_channel_released [of "Socket_id SERVER_SOCKET 1" sample_mgr 1 "\<lambda>_. 2" Server request_message] sample_mgr_keys
  unfolding Let_def by (simp add: get_channel_def sample_mgr_simps smap_lookup_def MIN_RELEASE_CHANNEL_USE_COUNT_def)

text \<open>
  An unlimited number of descriptors (\<open>RLIM_INFINITY\<close>, all bits set) is -1 as an \<open>int32_t\<close>: the node
  refuses to start although descriptors are not short. More generally every limit whose low half is
  below 150 as a signed number is refused.
\<close>

lemma unlimited_descriptors_refused:
  assumes "0 < conf"
  shows "fst (load_max_connect conf (Some (- 1, - 1)) m) = False"
proof -
  have "\<not> (- 1 :: u64) < x" for x by (simp add: not_less)
  moreover have "sint (ucast (- 1 :: u64) :: i32) = - 1" by code_simp
  ultimately show ?thesis using assms
    by (simp add: load_max_connect_def RaiseFileDescriptorLimit_def Let_def manager_consts)
qed

end
