(* ===== verification/Sha256.thy ===== *)
theory Sha256
  imports Prelude
begin

text \<open>
  The hash behind the ids of the program: \<open>util/crypto/sha256.{h,cpp}\<close>, the byte-order helpers of
  \<open>crypto_common.h\<close> and the double hash of \<open>hash.h\<close>. The standard (FIPS 180-4) is stated as the
  reference, and the streaming hasher with its unrolled transformation is shown to compute it.
\<close>

section \<open>The program\<close>

definition ReadBE32 :: "byte list \<Rightarrow> u32" where
  "ReadBE32 ptr = be_word (take 4 ptr)"

definition WriteBE32 :: "u32 \<Rightarrow> byte list" where
  "WriteBE32 x = be_bytes x"

definition WriteBE64 :: "u64 \<Rightarrow> byte list" where
  "WriteBE64 x = be_bytes x"

definition Ch :: "u32 \<Rightarrow> u32 \<Rightarrow> u32 \<Rightarrow> u32" where
  "Ch x y z = z XOR (x AND (y XOR z))"

definition Maj :: "u32 \<Rightarrow> u32 \<Rightarrow> u32 \<Rightarrow> u32" where
  "Maj x y z = (x AND y) OR (z AND (x OR y))"

definition Sigma0 :: "u32 \<Rightarrow> u32" where
  "Sigma0 x = (drop_bit 2 x OR push_bit 30 x) XOR (drop_bit 13 x OR push_bit 19 x) XOR (drop_bit 22 x OR push_bit 10 x)"

definition Sigma1 :: "u32 \<Rightarrow> u32" where
  "Sigma1 x = (drop_bit 6 x OR push_bit 26 x) XOR (drop_bit 11 x OR push_bit 21 x) XOR (drop_bit 25 x OR push_bit 7 x)"

definition sigma0 :: "u32 \<Rightarrow> u32" where
  "sigma0 x = (drop_bit 7 x OR push_bit 25 x) XOR (drop_bit 18 x OR push_bit 14 x) XOR drop_bit 3 x"

definition sigma1 :: "u32 \<Rightarrow> u32" where
  "sigma1 x = (drop_bit 17 x OR push_bit 15 x) XOR (drop_bit 19 x OR push_bit 13 x) XOR drop_bit 10 x"

text \<open>One round; the result are the new values of the references \<open>d\<close> and \<open>h\<close>.\<close>

definition Round :: "u32 \<Rightarrow> u32 \<Rightarrow> u32 \<Rightarrow> u32 \<Rightarrow> u32 \<Rightarrow> u32 \<Rightarrow> u32 \<Rightarrow> u32 \<Rightarrow> u32 \<Rightarrow> u32 \<Rightarrow> u32 \<times> u32" where
  "Round a b c d e f g h k w =
     (let t1 = h + Sigma1 e + Ch e f g + k + w; t2 = Sigma0 a + Maj a b c in (d + t1, t1 + t2))"

definition Initialize :: "u32 list" where
  "Initialize = [0x6a09e667, 0xbb67ae85, 0x3c6ef372, 0xa54ff53a, 0x510e527f, 0x9b05688c, 0x1f83d9ab, 0x5be0cd19]"

text \<open>The constants of the 64 calls of \<open>Round\<close>, in the order of the lines of \<open>Transform\<close>.\<close>

definition round_constants :: "u32 list" where
  "round_constants = concat
    [[0x428a2f98, 0x71374491, 0xb5c0fbcf, 0xe9b5dba5, 0x3956c25b, 0x59f111f1, 0x923f82a4, 0xab1c5ed5],
     [0xd807aa98, 0x12835b01, 0x243185be, 0x550c7dc3, 0x72be5d74, 0x80deb1fe, 0x9bdc06a7, 0xc19bf174],
     [0xe49b69c1, 0xefbe4786, 0x0fc19dc6, 0x240ca1cc, 0x2de92c6f, 0x4a7484aa, 0x5cb0a9dc, 0x76f988da],
     [0x983e5152, 0xa831c66d, 0xb00327c8, 0xbf597fc7, 0xc6e00bf3, 0xd5a79147, 0x06ca6351, 0x14292967],
     [0x27b70a85, 0x2e1b2138, 0x4d2c6dfc, 0x53380d13, 0x650a7354, 0x766a0abb, 0x81c2c92e, 0x92722c85],
     [0xa2bfe8a1, 0xa81a664b, 0xc24b8b70, 0xc76c51a3, 0xd192e819, 0xd6990624, 0xf40e3585, 0x106aa070],
     [0x19a4c116, 0x1e376c08, 0x2748774c, 0x34b0bcb5, 0x391c0cb3, 0x4ed8aa4a, 0x5b9cca4f, 0x682e6ff3],
     [0x748f82ee, 0x78a5636f, 0x84c87814, 0x8cc70208, 0x90befffa, 0xa4506ceb, 0xbef9a3f7, 0xc67178f2]]"

text \<open>
  Line \<open>i\<close> of the unrolled code. The variables \<open>a\<close>, ..., \<open>h\<close> are the list \<open>v\<close>, the variables \<open>w0\<close>, ...,
  \<open>w15\<close> the list \<open>w\<close>. Argument \<open>j\<close> of the call in line \<open>i\<close> is variable \<open>(j - i) mod 8\<close>. The last two lines
  do not store the sum they pass; nothing reads it.
\<close>

definition line_arg :: "nat \<Rightarrow> nat \<Rightarrow> nat" where
  "line_arg i j = (j + 7 * i) mod 8"

definition expand_line :: "byte list \<Rightarrow> nat \<Rightarrow> u32 list \<Rightarrow> u32 list" where
  "expand_line chunk i w =
     (if i < 16 then w[i := ReadBE32 (drop (4 * i) chunk)]
      else w[i mod 16 := w ! (i mod 16) + (sigma1 (w ! ((i + 14) mod 16)) + w ! ((i + 9) mod 16) + sigma0 (w ! ((i + 1) mod 16)))])"

definition transform_line :: "byte list \<Rightarrow> u32 list \<times> u32 list \<Rightarrow> nat \<Rightarrow> u32 list \<times> u32 list" where
  "transform_line chunk = (\<lambda>(v, w) i.
     let w' = expand_line chunk i w;
         (d, h) = Round (v ! line_arg i 0) (v ! line_arg i 1) (v ! line_arg i 2) (v ! line_arg i 3) (v ! line_arg i 4) (v ! line_arg i 5) (v ! line_arg i 6)
                    (v ! line_arg i 7) (round_constants ! i) (w' ! (i mod 16))
     in (v[line_arg i 3 := d, line_arg i 7 := h], w'))"

definition transform_chunk :: "u32 list \<Rightarrow> byte list \<Rightarrow> u32 list" where
  "transform_chunk s chunk = map2 (+) s (fst (foldl (transform_line chunk) (s, replicate 16 0) [0..<64]))"

fun Transform :: "u32 list \<Rightarrow> byte list \<Rightarrow> nat \<Rightarrow> u32 list" where
  "Transform s chunk 0 = s"
| "Transform s chunk (Suc blocks) = Transform (transform_chunk s chunk) (drop 64 chunk) blocks"

record CSHA256 =
  sha_s :: "u32 list"
  sha_buf :: "byte list"
  sha_bytes :: u64

text \<open>The buffer of a new hasher is not initialised; \<open>b\<close> is what it holds.\<close>

definition new_CSHA256 :: "byte list \<Rightarrow> CSHA256" where
  "new_CSHA256 b = \<lparr>sha_s = Initialize, sha_buf = b, sha_bytes = 0\<rparr>"

definition Reset :: "CSHA256 \<Rightarrow> CSHA256" where
  "Reset h = h\<lparr>sha_s := Initialize, sha_bytes := 0\<rparr>"

text \<open>\<open>memcpy\<close> into the buffer at an offset.\<close>

definition fill :: "nat \<Rightarrow> byte list \<Rightarrow> byte list \<Rightarrow> byte list" where
  "fill off xs b = take off b @ xs @ drop (off + length xs) b"

definition Write :: "byte list \<Rightarrow> CSHA256 \<Rightarrow> CSHA256" where
  "Write data h =
     (let bufsize = unat (sha_bytes h mod 64);
          (bufsize, data, h) =
            (if bufsize \<noteq> 0 \<and> bufsize + length data \<ge> 64
             then let b = fill bufsize (take (64 - bufsize) data) (sha_buf h)
                  in (0, drop (64 - bufsize) data,
                      h\<lparr>sha_buf := b, sha_bytes := sha_bytes h + of_nat (64 - bufsize), sha_s := Transform (sha_s h) b 1\<rparr>)
             else (bufsize, data, h));
          (data, h) =
            (if length data \<ge> 64
             then let blocks = length data div 64
                  in (drop (64 * blocks) data,
                      h\<lparr>sha_s := Transform (sha_s h) data blocks, sha_bytes := sha_bytes h + of_nat (64 * blocks)\<rparr>)
             else (data, h))
      in if length data > 0
         then h\<lparr>sha_buf := fill bufsize data (sha_buf h), sha_bytes := sha_bytes h + of_nat (length data)\<rparr>
         else h)"

definition pad :: "byte list" where
  "pad = 0x80 # replicate 63 0"

definition Finalize :: "CSHA256 \<Rightarrow> byte list \<times> CSHA256" where
  "Finalize h =
     (let sizedesc = WriteBE64 (push_bit 3 (sha_bytes h));
          h = Write (take (unat (1 + (119 - sha_bytes h mod 64) mod 64)) pad) h;
          h = Write sizedesc h
      in (concat (map (\<lambda>i. WriteBE32 (sha_s h ! i)) [0..<8]), h))"

text \<open>\<open>Hash\<close>, the double hash of \<open>CHash256\<close>; \<open>b\<close> is the uninitialised buffer.\<close>

definition Hash :: "byte list \<Rightarrow> byte list \<Rightarrow> byte list" where
  "Hash b data =
     (let (buf, sha) = Finalize (Write data (new_CSHA256 b))
      in fst (Finalize (Write buf (Reset sha))))"

section \<open>The standard\<close>

definition fips_Ch :: "u32 \<Rightarrow> u32 \<Rightarrow> u32 \<Rightarrow> u32" where
  "fips_Ch x y z = (x AND y) XOR (NOT x AND z)"

definition fips_Maj :: "u32 \<Rightarrow> u32 \<Rightarrow> u32 \<Rightarrow> u32" where
  "fips_Maj x y z = (x AND y) XOR (x AND z) XOR (y AND z)"

definition big_sigma :: "nat \<Rightarrow> nat \<Rightarrow> nat \<Rightarrow> u32 \<Rightarrow> u32" where
  "big_sigma i j k x = word_rotr i x XOR word_rotr j x XOR word_rotr k x"

definition small_sigma :: "nat \<Rightarrow> nat \<Rightarrow> nat \<Rightarrow> u32 \<Rightarrow> u32" where
  "small_sigma i j k x = word_rotr i x XOR word_rotr j x XOR drop_bit k x"

text \<open>
  The constants of the standard: the first 32 bits of the fractional parts of the cube roots of the
  first 64 primes, and of the square roots of the first eight for the initial value. \<open>root_bits k n b r\<close>
  finds the integer \<open>k\<close>-th root of \<open>n\<close> between \<open>r\<close> and \<open>r + 2 ^ b\<close> bit by bit.
\<close>

fun root_bits :: "nat \<Rightarrow> int \<Rightarrow> nat \<Rightarrow> int \<Rightarrow> int" where
  "root_bits k n 0 r = r"
| "root_bits k n (Suc b) r = root_bits k n b (if (r + 2 ^ b) ^ k \<le> n then r + 2 ^ b else r)"

definition fraction_bits :: "nat \<Rightarrow> int \<Rightarrow> u32" where
  "fraction_bits k p = of_int (root_bits k (p * 2 ^ (32 * k)) 40 0)"

definition first_primes :: "int list" where
  "first_primes = filter (\<lambda>n. \<forall>d\<in>set [2, 3, 5, 7, 11, 13, 17]. d < n \<longrightarrow> n mod d \<noteq> 0) [2..311]"

definition fips_K :: "u32 list" where
  "fips_K = map (fraction_bits 3) first_primes"

definition fips_H0 :: "u32 list" where
  "fips_H0 = map (fraction_bits 2) (take 8 first_primes)"

fun schedule :: "(nat \<Rightarrow> u32) \<Rightarrow> nat \<Rightarrow> u32" where
  "schedule m t =
     (if t < 16 then m t
      else small_sigma 17 19 10 (schedule m (t - 2)) + schedule m (t - 7) + small_sigma 7 18 3 (schedule m (t - 15)) + schedule m (t - 16))"

declare schedule.simps [simp del]

definition fips_round :: "u32 list \<Rightarrow> u32 \<Rightarrow> u32 \<Rightarrow> u32 list" where
  "fips_round v k w =
     (let T1 = v ! 7 + big_sigma 6 11 25 (v ! 4) + fips_Ch (v ! 4) (v ! 5) (v ! 6) + k + w;
          T2 = big_sigma 2 13 22 (v ! 0) + fips_Maj (v ! 0) (v ! 1) (v ! 2)
      in [T1 + T2, v ! 0, v ! 1, v ! 2, v ! 3 + T1, v ! 4, v ! 5, v ! 6])"

definition fips_compress :: "u32 list \<Rightarrow> byte list \<Rightarrow> u32 list" where
  "fips_compress H block =
     map2 (+) H (foldl (\<lambda>v t. fips_round v (fips_K ! t) (schedule (\<lambda>i. be_word (take 4 (drop (4 * i) block))) t)) H [0..<64])"

text \<open>The blocks of 64 bytes of a message, a rest left over.\<close>

definition blocks64 :: "byte list \<Rightarrow> byte list list" where
  "blocks64 m = map (\<lambda>i. take 64 (drop (64 * i) m)) [0..<length m div 64]"

text \<open>
  Padding: a one bit, the fewest zero bits that fill up the last block, the length in bits as a
  64-bit number (the standard speaks of messages of fewer than \<open>2 ^ 61\<close> bytes).
\<close>

definition fips_pad :: "byte list \<Rightarrow> byte list" where
  "fips_pad m = m @ 0x80 # replicate ((64 - (length m + 9) mod 64) mod 64) 0 @ be_bytes (of_nat (8 * length m) :: u64)"

definition fips_sha256 :: "byte list \<Rightarrow> byte list" where
  "fips_sha256 m = concat (map be_bytes (foldl fips_compress fips_H0 (blocks64 (fips_pad m))))"

section \<open>The transformation\<close>

lemma root_bits_floor:
  "r ^ k \<le> n \<Longrightarrow> n < (r + 2 ^ b) ^ k \<Longrightarrow> root_bits k n b r ^ k \<le> n \<and> n < (root_bits k n b r + 1) ^ k"
  by (induction b arbitrary: r) (auto simp: add.assoc)

lemma round_constants_fips: "round_constants = fips_K"
  by code_simp

lemma Initialize_fips: "Initialize = fips_H0"
  by code_simp

lemma rotate_drop_push:
  assumes "i + j = 32" "0 < i"
  shows "drop_bit i x OR push_bit j x = word_rotr i (x :: u32)"
proof (rule bit_word_eqI)
  fix n
  assume "n < LENGTH(32)"
  then have n: "n < 32" by simp
  show "bit (drop_bit i x OR push_bit j x) n = bit (word_rotr i x) n"
  proof (cases "n + i < 32")
    case True
    then have "\<not> j \<le> n" using assms by linarith
    with True n show ?thesis by (simp add: bit_simps add.commute)
  next
    case False
    then have "n + i = n - j + 32" using assms by linarith
    then have "(n + i) mod 32 = n - j" using n by simp
    moreover have "\<not> bit x (i + n)" using False bit_imp_le_length [of x "i + n"] by auto
    ultimately show ?thesis using False n assms by (simp add: bit_simps)
  qed
qed

lemma Ch_fips: "Ch = fips_Ch"
  by (intro ext bit_eqI) (auto simp: Ch_def fips_Ch_def bit_simps)

lemma Maj_fips: "Maj = fips_Maj"
  by (intro ext bit_eqI) (auto simp: Maj_def fips_Maj_def bit_simps)

lemma sigmas_fips:
  "Sigma0 = big_sigma 2 13 22" "Sigma1 = big_sigma 6 11 25" "sigma0 = small_sigma 7 18 3" "sigma1 = small_sigma 17 19 10"
  by (simp_all add: fun_eq_iff Sigma0_def Sigma1_def sigma0_def sigma1_def big_sigma_def small_sigma_def rotate_drop_push)

lemma line_arg_lt [simp]: "line_arg i j < 8"
  by (simp add: line_arg_def)

lemma line_arg_inj: "j < 8 \<Longrightarrow> k < 8 \<Longrightarrow> line_arg i j = line_arg i k \<longleftrightarrow> j = k"
proof -
  assume jk: "j < 8" "k < 8"
  define a where "a = 7 * i mod 8"
  have "line_arg i x = (if x + a < 8 then x + a else x + a - 8)" if "x < 8" for x
    using that mod_add_right_eq [of x "7 * i" 8, symmetric] by (simp add: line_arg_def a_def mod_if [of "x + 7 * i mod 8"])
  with jk show "line_arg i j = line_arg i k \<longleftrightarrow> j = k" by (auto simp: a_def split: if_splits)
qed

lemma line_arg_next:
  "line_arg (Suc i) 0 = line_arg i 7" "line_arg (Suc i) 1 = line_arg i 0" "line_arg (Suc i) 2 = line_arg i 1"
  "line_arg (Suc i) 3 = line_arg i 2" "line_arg (Suc i) 4 = line_arg i 3" "line_arg (Suc i) 5 = line_arg i 4"
  "line_arg (Suc i) 6 = line_arg i 5" "line_arg (Suc i) 7 = line_arg i 6"
proof -
  have "line_arg (Suc i) (Suc j) = line_arg i j" for j
  proof -
    have "Suc j + 7 * Suc i = (j + 7 * i) + 8" by simp
    then show ?thesis unfolding line_arg_def by (simp only: mod_add_self2)
  qed
  from this [of 0] this [of 1] this [of 2] this [of 3] this [of 4] this [of 5] this [of 6]
  show "line_arg (Suc i) 1 = line_arg i 0" "line_arg (Suc i) 2 = line_arg i 1" "line_arg (Suc i) 3 = line_arg i 2"
    "line_arg (Suc i) 4 = line_arg i 3" "line_arg (Suc i) 5 = line_arg i 4" "line_arg (Suc i) 6 = line_arg i 5"
    "line_arg (Suc i) 7 = line_arg i 6" by (simp_all add: numeral_eq_Suc)
  show "line_arg (Suc i) 0 = line_arg i 7" by (simp add: line_arg_def)
qed

text \<open>After \<open>i\<close> lines the variables, read in the order of the next call, are the state of the standard, and
  the last sixteen words of the schedule are in the list.\<close>

definition schedule_of :: "byte list \<Rightarrow> nat \<Rightarrow> u32" where
  "schedule_of chunk = schedule (\<lambda>i. be_word (take 4 (drop (4 * i) chunk)))"

definition lines_ok :: "byte list \<Rightarrow> u32 list \<Rightarrow> nat \<Rightarrow> u32 list \<times> u32 list \<Rightarrow> bool" where
  "lines_ok chunk H i = (\<lambda>(v, w).
     length v = 8 \<and> length w = 16 \<and>
     map (\<lambda>j. v ! line_arg i j) [0..<8] = foldl (\<lambda>v t. fips_round v (round_constants ! t) (schedule_of chunk t)) H [0..<i] \<and>
     (\<forall>t<i. i \<le> t + 16 \<longrightarrow> w ! (t mod 16) = schedule_of chunk t))"

lemma schedule_of_simps:
  "t < 16 \<Longrightarrow> schedule_of chunk t = be_word (take 4 (drop (4 * t) chunk))"
  "16 \<le> t \<Longrightarrow> schedule_of chunk t = sigma1 (schedule_of chunk (t - 2)) + schedule_of chunk (t - 7) +
     sigma0 (schedule_of chunk (t - 15)) + schedule_of chunk (t - 16)"
  unfolding schedule_of_def by (subst schedule.simps, simp add: sigmas_fips)+

lemma expand_line_ok:
  assumes "length w = 16" "\<forall>t<i. i \<le> t + 16 \<longrightarrow> w ! (t mod 16) = schedule_of chunk t"
  shows "length (expand_line chunk i w) = 16"
    "t < Suc i \<Longrightarrow> Suc i \<le> t + 16 \<Longrightarrow> expand_line chunk i w ! (t mod 16) = schedule_of chunk t"
proof -
  show "length (expand_line chunk i w) = 16" using assms(1) by (simp add: expand_line_def)
  have new: "expand_line chunk i w ! (i mod 16) = schedule_of chunk i"
  proof (cases "i < 16")
    case True
    then show ?thesis using assms(1) by (simp add: expand_line_def ReadBE32_def schedule_of_simps)
  next
    case False
    have m: "(i + 14) mod 16 = (i - 2) mod 16" "(i + 9) mod 16 = (i - 7) mod 16" "(i + 1) mod 16 = (i - 15) mod 16"
      "i mod 16 = (i - 16) mod 16"
    proof -
      obtain k where k: "i = k + 16" using False by (metis add.commute le_Suc_ex not_less)
      show "(i + 14) mod 16 = (i - 2) mod 16" "(i + 9) mod 16 = (i - 7) mod 16" "(i + 1) mod 16 = (i - 15) mod 16"
        "i mod 16 = (i - 16) mod 16"
        using mod_add_self2 [of "k + 14" 16] mod_add_self2 [of "k + 9" 16] mod_add_self2 [of "k + 1" 16] by (simp_all add: k add.commute)
    qed
    have w: "w ! ((i - 2) mod 16) = schedule_of chunk (i - 2)" "w ! ((i - 7) mod 16) = schedule_of chunk (i - 7)"
      "w ! ((i - 15) mod 16) = schedule_of chunk (i - 15)" "w ! ((i - 16) mod 16) = schedule_of chunk (i - 16)"
      using assms(2) False by simp_all
    have "expand_line chunk i w ! (i mod 16) =
        w ! (i mod 16) + (sigma1 (w ! ((i + 14) mod 16)) + w ! ((i + 9) mod 16) + sigma0 (w ! ((i + 1) mod 16)))"
      using assms(1) False by (simp add: expand_line_def)
    then show ?thesis unfolding m(1-3) unfolding m(4) w using schedule_of_simps(2) [of i chunk] False by simp
  qed
  assume t: "t < Suc i" "Suc i \<le> t + 16"
  show "expand_line chunk i w ! (t mod 16) = schedule_of chunk t"
  proof (cases "t = i")
    case True
    then show ?thesis using new by simp
  next
    case False
    then have "\<not> 16 dvd i - t" using t by (intro nat_dvd_not_less) auto
    then have "t mod 16 \<noteq> i mod 16" using t mod_eq_dvd_iff_nat [of t i 16] by auto
    then have "expand_line chunk i w ! (t mod 16) = w ! (t mod 16)"
      by (cases "i < 16") (simp_all add: expand_line_def)
    then show ?thesis using assms(2) t False by simp
  qed
qed

lemma upt8: "map f [0..<8] = [f 0, f 1, f 2, f 3, f 4, f 5, f 6, f (7 :: nat)]"
  by (simp add: upt_rec numeral_eq_Suc)

lemma transform_line_ok:
  assumes "lines_ok chunk H i st"
  shows "lines_ok chunk H (Suc i) (transform_line chunk st i)"
proof -
  obtain v w where st: "st = (v, w)" by (rule prod.exhaust)
  let ?w = "expand_line chunk i w" and ?F = "foldl (\<lambda>v t. fips_round v (round_constants ! t) (schedule_of chunk t)) H [0..<i]"
  have a: "length v = 8" "length w = 16" "\<forall>t<i. i \<le> t + 16 \<longrightarrow> w ! (t mod 16) = schedule_of chunk t"
    and F: "map (\<lambda>j. v ! line_arg i j) [0..<8] = ?F"
    using assms by (simp_all add: lines_ok_def st)
  note e = expand_line_ok [OF a(2,3)]
  obtain d h where r: "Round (v ! line_arg i 0) (v ! line_arg i 1) (v ! line_arg i 2) (v ! line_arg i 3) (v ! line_arg i 4)
      (v ! line_arg i 5) (v ! line_arg i 6) (v ! line_arg i 7) (round_constants ! i) (schedule_of chunk i) = (d, h)" by (rule prod.exhaust)
  let ?v = "v[line_arg i 3 := d, line_arg i 7 := h]"
  have w: "?w ! (i mod 16) = schedule_of chunk i" using e(2) [of i] by simp
  have line: "transform_line chunk st i = (?v, ?w)" using r by (simp add: transform_line_def st w Let_def)
  have "map (\<lambda>j. ?v ! line_arg (Suc i) j) [0..<8] = [h, v ! line_arg i 0, v ! line_arg i 1, v ! line_arg i 2, d,
      v ! line_arg i 4, v ! line_arg i 5, v ! line_arg i 6]"
    using a(1) by (simp only: upt8 line_arg_next) (simp add: line_arg_inj nth_list_update)
  also have "\<dots> = fips_round ?F (round_constants ! i) (schedule_of chunk i)"
    using r unfolding F [symmetric] upt8
    by (simp add: fips_round_def Round_def Ch_fips Maj_fips sigmas_fips Let_def add_ac)
  finally show ?thesis using a e unfolding line lines_ok_def by simp
qed
lemma transform_chunk_fips: "length H = 8 \<Longrightarrow> transform_chunk H chunk = fips_compress H chunk"
proof -
  assume H: "length H = 8"
  have "lines_ok chunk H n (foldl (transform_line chunk) (H, replicate 16 0) [0..<n])" for n
  proof (induction n)
    case 0
    have "map (\<lambda>j. H ! line_arg 0 j) [0..<8] = H"
      using H by (intro nth_equalityI) (simp_all add: line_arg_def)
    then show ?case using H by (simp add: lines_ok_def)
  next
    case (Suc n)
    then show ?case using transform_line_ok by simp
  qed
  from this [of 64] obtain v w where f: "foldl (transform_line chunk) (H, replicate 16 0) [0..<64] = (v, w)" "lines_ok chunk H 64 (v, w)"
    by (metis prod.exhaust)
  have v: "length v = 8" using f(2) by (simp add: lines_ok_def)
  have "line_arg 64 j = j" if "j < 8" for j
    using that mod_mult_self1 [of j 56 8] by (simp add: line_arg_def)
  then have "map (\<lambda>j. v ! line_arg 64 j) [0..<8] = v" by (intro nth_equalityI) (simp_all add: v)
  then show ?thesis using f by (simp add: transform_chunk_def fips_compress_def lines_ok_def schedule_of_def round_constants_fips del: upt_rec_numeral)
qed

section \<open>Streaming\<close>

lemma schedule_cong: "(\<And>i. i < 16 \<Longrightarrow> m i = m' i) \<Longrightarrow> schedule m t = schedule m' t"
proof (induction t rule: less_induct)
  case (less t)
  have eq: "schedule m u = schedule m' u" if "u < t" for u using less.IH [OF that] less.prems by blast
  show ?case
  proof (cases "t < 16")
    case True
    then show ?thesis using less.prems by (subst (1 2) schedule.simps) simp
  next
    case False
    then show ?thesis using eq [of "t - 2"] eq [of "t - 7"] eq [of "t - 15"] eq [of "t - 16"]
      by (subst (1 2) schedule.simps) simp
  qed
qed

lemma fips_compress_prefix: "fips_compress H (take 64 block) = fips_compress H block"
proof -
  have "schedule (\<lambda>i. be_word (take 4 (drop (4 * i) (take 64 block)))) = schedule (\<lambda>i. be_word (take 4 (drop (4 * i) block)))"
    by (intro ext schedule_cong) (simp add: drop_take min_def)
  then show ?thesis by (simp add: fips_compress_def)
qed

lemma length_fips_compress [simp]: "length H = 8 \<Longrightarrow> length (fips_compress H b) = 8"
proof -
  assume H: "length H = 8"
  have "length (foldl (\<lambda>v t. fips_round v (f t) (g t)) H xs) = 8" for f g and xs :: "nat list"
    by (induction xs rule: rev_induct) (simp_all add: H fips_round_def Let_def)
  then show ?thesis by (simp add: fips_compress_def H)
qed

lemma length_fold_compress [simp]: "length H = 8 \<Longrightarrow> length (foldl fips_compress H bs) = 8"
  by (induction bs arbitrary: H) simp_all

lemma Transform_fips:
  "length H = 8 \<Longrightarrow> Transform H data n = foldl fips_compress H (map (\<lambda>i. take 64 (drop (64 * i) data)) [0..<n])"
proof (induction n arbitrary: H data)
  case (Suc n)
  have "map (\<lambda>i. take 64 (drop (64 * i) data)) [0..<Suc n] =
      take 64 data # map (\<lambda>i. take 64 (drop (64 * i) (drop 64 data))) [0..<n]"
    by (simp add: upt_conv_Cons map_Suc_upt [symmetric] del: upt_Suc) (simp add: add.commute)
  then show ?case using Suc by (simp add: transform_chunk_fips fips_compress_prefix del: upt_Suc)
qed simp

lemma blocks64_append:
  assumes "length x = 64 * k"
  shows "blocks64 (x @ y) = blocks64 x @ blocks64 y"
proof -
  let ?f = "\<lambda>z i. take 64 (drop (64 * i) z)" and ?l = "length y div 64"
  have "[0..<k + ?l] = [0..<k] @ map (\<lambda>i. i + k) [0..<?l]"
    unfolding map_add_upt using upt_add_eq_append [of 0 k ?l] by (simp add: add.commute)
  then have "map (?f (x @ y)) [0..<k + ?l] = map (?f (x @ y)) [0..<k] @ map (\<lambda>i. ?f (x @ y) (i + k)) [0..<?l]"
    by (simp only: map_append map_map o_def)
  moreover have "map (?f (x @ y)) [0..<k] = map (?f x) [0..<k]"
    using assms by (intro map_cong) simp_all
  moreover have "map (\<lambda>i. ?f (x @ y) (i + k)) [0..<?l] = map (?f y) [0..<?l]"
    using assms by (simp add: distrib_left)
  ultimately show ?thesis using assms by (simp add: blocks64_def)
qed

lemma blocks64_small [simp]: "length r < 64 \<Longrightarrow> blocks64 r = []"
  by (simp add: blocks64_def)

lemma blocks64_single: "length b = 64 \<Longrightarrow> blocks64 b = [b]"
  by (simp add: blocks64_def)

text \<open>The hasher has taken in the message \<open>m\<close>.\<close>

definition hashed :: "CSHA256 \<Rightarrow> byte list \<Rightarrow> bool" where
  "hashed h m \<longleftrightarrow>
     sha_bytes h = of_nat (length m) \<and> length (sha_buf h) = 64 \<and> sha_s h = foldl fips_compress Initialize (blocks64 m) \<and>
     take (length m mod 64) (sha_buf h) = drop (64 * (length m div 64)) m"

lemma hashed_new: "length b = 64 \<Longrightarrow> hashed (new_CSHA256 b) []"
  by (simp add: hashed_def new_CSHA256_def)

lemma length_Initialize [simp]: "length Initialize = 8"
  by (simp add: Initialize_def)

text \<open>A message is its whole blocks and a rest, and only the rest changes when bytes come after it.\<close>

lemma blocks64_snoc:
  "blocks64 (m @ d) = blocks64 m @ blocks64 (drop (64 * (length m div 64)) m @ d)"
proof -
  let ?k = "length m div 64"
  let ?x = "take (64 * ?k) m" and ?r = "drop (64 * ?k) m"
  have x: "length ?x = 64 * ?k" by simp
  have r: "length ?r < 64" by (simp add: minus_mult_div_eq_mod)
  have m: "m = ?x @ ?r" by simp
  have "blocks64 m = blocks64 ?x" using blocks64_append [OF x, of ?r] r by simp
  moreover have "blocks64 (m @ d) = blocks64 ?x @ blocks64 (?r @ d)"
    using blocks64_append [OF x, of "?r @ d"] m by (metis append.assoc)
  ultimately show ?thesis by simp
qed

lemma bufsize_hashed: "hashed h m \<Longrightarrow> unat (sha_bytes h mod 64) = length m mod 64"
  by (simp add: hashed_def unat_mod unat_of_nat mod_mod_cancel)

lemma split64: "length m mod 64 = n \<Longrightarrow> length m = 64 * (length m div 64) + n"
  by (metis mult_div_mod_eq)

lemma write_fill:
  assumes "hashed h m" "length m mod 64 = n" "length d = 64 - n"
  shows "hashed (h\<lparr>sha_buf := fill n d (sha_buf h), sha_bytes := sha_bytes h + of_nat (64 - n),
            sha_s := Transform (sha_s h) (fill n d (sha_buf h)) 1\<rparr>) (m @ d)"
proof -
  let ?r = "drop (64 * (length m div 64)) m"
  have n: "n < 64" using assms(2) by auto
  have lr: "length ?r = n" using assms(2) by (simp add: minus_mult_div_eq_mod)
  have b: "fill n d (sha_buf h) = ?r @ d" using assms n by (simp add: fill_def hashed_def)
  have l: "length (?r @ d) = 64" using lr assms(3) n by simp
  have bl: "blocks64 (m @ d) = blocks64 m @ [?r @ d]" using blocks64_snoc [of m d] blocks64_single [OF l] by simp
  have "length (m @ d) = 64 * Suc (length m div 64)" using split64 [OF assms(2)] assms(3) n by simp
  then have "length (m @ d) mod 64 = 0" "64 * (length (m @ d) div 64) = length (m @ d)" by (simp_all only: mod_mult_self1_is_0 nonzero_mult_div_cancel_left)
  then show ?thesis
    using assms(1,3) l b bl n split64 [OF assms(2)] by (auto simp: hashed_def transform_chunk_fips)
qed

lemma write_blocks:
  assumes "hashed h m" "length m mod 64 = 0" "64 * n \<le> length data"
  shows "hashed (h\<lparr>sha_s := Transform (sha_s h) data n, sha_bytes := sha_bytes h + of_nat (64 * n)\<rparr>) (m @ take (64 * n) data)"
proof -
  let ?t = "take (64 * n) data"
  have t: "blocks64 ?t = map (\<lambda>i. take 64 (drop (64 * i) data)) [0..<n]"
    using assms(3) by (auto simp: blocks64_def drop_take min_def)
  have m: "length m = 64 * (length m div 64)" using split64 [OF assms(2)] by simp
  then have "drop (64 * (length m div 64)) m = []" by simp
  then have bl: "blocks64 (m @ ?t) = blocks64 m @ blocks64 ?t" using blocks64_snoc [of m ?t] by simp
  have "length (m @ ?t) = 64 * (length m div 64 + n)" using m assms(3) by simp
  then have "length (m @ ?t) mod 64 = 0" "64 * (length (m @ ?t) div 64) = length (m @ ?t)" by (simp_all only: mod_mult_self1_is_0 nonzero_mult_div_cancel_left)
  then show ?thesis
    using assms(1,3) bl t by (simp add: hashed_def Transform_fips)
qed

lemma write_rest:
  assumes "hashed h m" "length m mod 64 = n" "n + length d < 64"
  shows "hashed (h\<lparr>sha_buf := fill n d (sha_buf h), sha_bytes := sha_bytes h + of_nat (length d)\<rparr>) (m @ d)"
proof -
  let ?r = "drop (64 * (length m div 64)) m"
  have lr: "length ?r = n" using assms(2) by (simp add: minus_mult_div_eq_mod)
  have "length (m @ d) = 64 * (length m div 64) + (n + length d)" using split64 [OF assms(2)] by simp
  then have q: "length (m @ d) div 64 = length m div 64" "length (m @ d) mod 64 = n + length d"
    using assms(3) by (simp_all only: div_mult_self4 mod_mult_self4 div_less mod_less add_0_right)
  have bl: "blocks64 (m @ d) = blocks64 m" using blocks64_snoc [of m d] lr assms(3) by simp
  have "64 * (length m div 64) \<le> length m" by simp
  then have "drop (64 * (length m div 64)) (m @ d) = ?r @ d" by simp
  moreover have f: "fill n d (sha_buf h) = ?r @ d @ drop (n + length d) (sha_buf h)"
    using assms(1,2) by (simp add: fill_def hashed_def)
  have "take (n + length d) (fill n d (sha_buf h)) = ?r @ d" "length (fill n d (sha_buf h)) = 64"
    unfolding f using lr assms(1,3) by (simp_all add: hashed_def)
  ultimately show ?thesis using assms(1) bl unfolding hashed_def q by simp
qed

lemma Write_hashed:
  assumes "hashed h m"
  shows "hashed (Write data h) (m @ data)"
proof -
  let ?n = "length m mod 64"
  have n: "unat (sha_bytes h mod 64) = ?n" "?n < 64" using bufsize_hashed [OF assms] by simp_all
  obtain k d h1 where 1: "(if ?n \<noteq> 0 \<and> ?n + length data \<ge> 64
        then let b = fill ?n (take (64 - ?n) data) (sha_buf h)
             in (0, drop (64 - ?n) data,
                 h\<lparr>sha_buf := b, sha_bytes := sha_bytes h + of_nat (64 - ?n), sha_s := Transform (sha_s h) b 1\<rparr>)
        else (?n, data, h)) = (k, d, h1)" by (metis prod.exhaust)
  obtain m1 where m1: "hashed h1 m1" "length m1 mod 64 = k" "m1 @ d = m @ data" "k \<noteq> 0 \<longrightarrow> k + length d < 64"
  proof (cases "?n \<noteq> 0 \<and> ?n + length data \<ge> 64")
    case True
    let ?d = "take (64 - ?n) data"
    have l: "length ?d = 64 - ?n" using True n(2) by (auto simp: min_def)
    have "length (m @ ?d) = length m - ?n + 64"
      using l n(2) mod_less_eq_dividend [of "length m" 64] unfolding length_append by linarith
    then have "length (m @ ?d) = 64 * Suc (length m div 64)" by (simp add: minus_mod_eq_mult_div)
    then have "length (m @ ?d) mod 64 = 0" by (simp only: mod_mult_self1_is_0)
    with 1 True write_fill [OF assms refl l] show thesis by (intro that [of "m @ ?d"]) (auto simp: Let_def)
  next
    case False
    then show thesis using 1 assms by (intro that [of m]) auto
  qed
  obtain d2 h2 where 2: "(if length d \<ge> 64
        then let blocks = length d div 64
             in (drop (64 * blocks) d, h1\<lparr>sha_s := Transform (sha_s h1) d blocks, sha_bytes := sha_bytes h1 + of_nat (64 * blocks)\<rparr>)
        else (d, h1)) = (d2, h2)" by (metis prod.exhaust)
  obtain m2 where m2: "hashed h2 m2" "length m2 mod 64 = k" "m2 @ d2 = m1 @ d" "k + length d2 < 64"
  proof (cases "length d \<ge> 64")
    case True
    let ?d = "take (64 * (length d div 64)) d"
    have k: "k = 0" using m1(4) True by auto
    then have "hashed h2 (m1 @ ?d)" using write_blocks [OF m1(1), of "length d div 64" d] m1(2) 2 True by (simp add: Let_def)
    moreover have "length (m1 @ ?d) = 64 * (length m1 div 64 + length d div 64)" using split64 [OF m1(2)] k by simp
    then have "length (m1 @ ?d) mod 64 = 0" by (simp only: mod_mult_self1_is_0)
    ultimately show thesis using 2 True k by (intro that [of "m1 @ ?d"]) (auto simp: Let_def minus_mult_div_eq_mod)
  next
    case False
    then show thesis using 2 m1 by (intro that [of m1]) auto
  qed
  have W: "Write data h = (if length d2 > 0 then h2\<lparr>sha_buf := fill k d2 (sha_buf h2), sha_bytes := sha_bytes h2 + of_nat (length d2)\<rparr> else h2)"
    unfolding Write_def Let_def n(1) using 1 2 unfolding Let_def by simp
  have eq: "m2 @ d2 = m @ data" using m1(3) m2(3) by simp
  show ?thesis using write_rest [OF m2(1,2,4)] m2(1) unfolding W eq [symmetric] by simp
qed

lemma Writes_hashed: "hashed h m \<Longrightarrow> hashed (foldl (\<lambda>h d. Write d h) h ds) (m @ concat ds)"
proof (induction ds arbitrary: h m)
  case (Cons d ds)
  then show ?case using Cons.IH [OF Write_hashed [OF Cons.prems, of d]] by simp
qed simp

lemma padding_length: "(64 - (l + 9) mod 64) mod 64 = (119 - l mod 64) mod (64 :: nat)"
proof -
  define n where "n = l mod 64"
  have n: "n < 64" "(l + 9) mod 64 = (n + 9) mod 64" unfolding n_def by (simp_all add: mod_add_left_eq)
  have "(64 - (n + 9) mod 64) mod 64 = (119 - n) mod 64"
  proof (cases "n < 55")
    case True
    then have "119 - n = 55 - n + 64" by simp
    then have "(119 - n) mod 64 = 55 - n" by (simp only: mod_add_self2) simp
    then show ?thesis using True by simp
  next
    case False
    then have "n + 9 = n - 55 + 64" by simp
    then have "(n + 9) mod 64 = n - 55" using n(1) by (simp only: mod_add_self2) simp
    then show ?thesis using False by simp
  qed
  then show ?thesis using n(2) n_def by simp
qed

lemma Finalize_hashed:
  assumes "hashed h m"
  shows "fst (Finalize h) = fips_sha256 m" "length (sha_buf (snd (Finalize h))) = 64"
proof -
  let ?z = "(64 - (length m + 9) mod 64) mod 64"
  have b: "sha_bytes h = of_nat (length m)" using assms by (simp add: hashed_def)
  have "unat (1 + (119 - sha_bytes h mod 64) mod 64) = Suc ?z"
  proof -
    let ?n = "length m mod 64"
    have n: "unat (sha_bytes h mod 64) = ?n" "?n < 64" using bufsize_hashed [OF assms] by simp_all
    have "unat (119 - sha_bytes h mod 64) = 119 - ?n"
      using n by (subst unat_sub) (simp_all add: word_le_nat_alt)
    then have "unat ((119 - sha_bytes h mod 64) mod 64) = (119 - ?n) mod 64" by (simp add: unat_mod)
    then have "unat (1 + (119 - sha_bytes h mod 64) mod 64) = Suc ((119 - ?n) mod 64)"
      by (subst unat_add_lem [THEN iffD1]) (simp_all add: less_Suc_eq_le)
    moreover have "?z = (119 - ?n) mod 64" by (rule padding_length)
    ultimately show ?thesis by simp
  qed
  then have p: "take (unat (1 + (119 - sha_bytes h mod 64) mod 64)) pad = 0x80 # replicate ?z 0"
    by (simp add: pad_def min_def)
  have s: "push_bit 3 (sha_bytes h) = of_nat (8 * length m)" by (simp add: b push_bit_eq_mult)
  let ?h = "Write (be_bytes (of_nat (8 * length m) :: u64)) (Write (0x80 # replicate ?z 0) h)"
  have F: "Finalize h = (concat (map (\<lambda>i. WriteBE32 (sha_s ?h ! i)) [0..<8]), ?h)"
    by (simp add: Finalize_def Let_def p s WriteBE64_def)
  have h: "hashed ?h (fips_pad m)"
    using Write_hashed [OF Write_hashed [OF assms, of "0x80 # replicate ?z 0"], of "be_bytes (of_nat (8 * length m) :: u64)"]
    by (simp add: fips_pad_def)
  then have l: "length (sha_s ?h) = 8" by (simp add: hashed_def)
  have "map (\<lambda>i. WriteBE32 (xs ! i)) [0..<8] = map be_bytes xs" if "length xs = 8" for xs
    using that by (intro nth_equalityI) (simp_all add: WriteBE32_def)
  note out = this [OF l]
  from out show "fst (Finalize h) = fips_sha256 m" "length (sha_buf (snd (Finalize h))) = 64"
    using h unfolding F by (simp_all add: fips_sha256_def hashed_def Initialize_fips)
qed

lemma Hash_fips: "length b = 64 \<Longrightarrow> Hash b data = fips_sha256 (fips_sha256 data)"
proof -
  assume b: "length b = 64"
  obtain d h where f: "Finalize (Write data (new_CSHA256 b)) = (d, h)" by (rule prod.exhaust)
  have d: "d = fips_sha256 data" "length (sha_buf h) = 64"
    using Finalize_hashed [OF Write_hashed [OF hashed_new [OF b]], of data] f by simp_all
  then have "hashed (Reset h) []" by (simp add: hashed_def Reset_def)
  from Finalize_hashed(1) [OF Write_hashed [OF this]] show ?thesis by (simp add: Hash_def f d)
qed

lemma length_fips_sha256 [simp]: "length (fips_sha256 m) = 32"
proof -
  have "length (concat (map be_bytes xs)) = 4 * length xs" for xs :: "u32 list" by (induction xs) simp_all
  then show ?thesis by (simp add: fips_sha256_def Initialize_fips [symmetric])
qed

text \<open>(C32) The hasher computes SHA-256: whatever pieces a message is written in, and whatever the
  uninitialised buffer held, \<open>Finalize\<close> gives the digest the standard defines for the whole message.\<close>

theorem sha256_streaming_is_fips:
  assumes "length b = 64"
  shows "fst (Finalize (foldl (\<lambda>h d. Write d h) (new_CSHA256 b) pieces)) = fips_sha256 (concat pieces)"
  using Finalize_hashed(1) [OF Writes_hashed [OF hashed_new [OF assms]]] by simp

theorem sha256_streaming_is_fips_witness:
  "fst (Finalize (foldl (\<lambda>h d. Write d h) (new_CSHA256 (replicate 64 7)) [[1, 2], [], replicate 70 3])) =
   fips_sha256 ([1, 2] @ replicate 70 3)"
  using sha256_streaming_is_fips [of "replicate 64 7" "[[1, 2], [], replicate 70 3]"] by (simp only: length_replicate concat.simps append_Nil append_Nil2)

end
