(* ===== verification/Base58.thy ===== *)
theory Base58
  imports Sha256
begin

text \<open>
  Identifiers: \<open>util/crypto/base58.cpp\<close> and the functions of \<open>util/utils/crypt_util.cpp\<close> that make and check
  ids (\<open>create_nonce\<close>, \<open>create_session_id\<close>, \<open>create_task_id\<close>, \<open>check_id\<close>). The vector of digits is kept with
  its last element first, the order in which the loops walk through it.
\<close>

section \<open>The program\<close>

definition pszBase58 :: string where
  "pszBase58 = ''123456789ABCDEFGHJKLMNPQRSTUVWXYZabcdefghijkmnopqrstuvwxyz''"

definition mapBase58 :: "int list" where
  "mapBase58 =
    [-1,-1,-1,-1,-1,-1,-1,-1, -1,-1,-1,-1,-1,-1,-1,-1,
     -1,-1,-1,-1,-1,-1,-1,-1, -1,-1,-1,-1,-1,-1,-1,-1,
     -1,-1,-1,-1,-1,-1,-1,-1, -1,-1,-1,-1,-1,-1,-1,-1,
     -1, 0, 1, 2, 3, 4, 5, 6,  7, 8,-1,-1,-1,-1,-1,-1,
     -1, 9,10,11,12,13,14,15, 16,-1,17,18,19,20,21,-1,
     22,23,24,25,26,27,28,29, 30,31,32,-1,-1,-1,-1,-1,
     -1,33,34,35,36,37,38,39, 40,41,42,43,-1,44,45,46,
     47,48,49,50,51,52,53,54, 55,56,57,-1,-1,-1,-1,-1] @ replicate 128 (-1)"

text \<open>\<open>isspace\<close> of the C locale.\<close>

definition isspace :: "char \<Rightarrow> bool" where
  "isspace c \<longleftrightarrow> c \<in> {CHR '' '', CHR 0x09, CHR 0x0A, CHR 0x0B, CHR 0x0C, CHR 0x0D}"

text \<open>The inner loop of both directions: the result is the carry left, the counter \<open>i\<close> and the digits.\<close>

fun carry_loop :: "nat \<Rightarrow> nat \<Rightarrow> nat \<Rightarrow> nat \<Rightarrow> nat \<Rightarrow> byte list \<Rightarrow> nat \<times> nat \<times> byte list" where
  "carry_loop mul base len carry i [] = (carry, i, [])"
| "carry_loop mul base len carry i (it # rest) =
     (if carry \<noteq> 0 \<or> i < len
      then let carry1 = carry + mul * unat it;
               (carry2, i2, rest2) = carry_loop mul base len (carry1 div base) (Suc i) rest
           in (carry2, i2, of_nat (carry1 mod base) # rest2)
      else (carry, i, it # rest))"

text \<open>The loop over the characters: \<open>None\<close> at a character that is no digit, otherwise what follows the digits.\<close>

fun decode_loop :: "char list \<Rightarrow> nat \<Rightarrow> byte list \<Rightarrow> failure + (char list \<times> nat \<times> byte list) option" where
  "decode_loop [] len b256 = Inr (Some ([], len, b256))"
| "decode_loop (c # psz) len b256 =
     (if isspace c then Inr (Some (c # psz, len, b256))
      else let carry = mapBase58 ! unat (byte_of_char c)
           in if carry = - 1 then Inr None
              else case carry_loop 58 256 len (nat carry) 0 b256 of
                     (carry', i, b256') \<Rightarrow> if carry' \<noteq> 0 then Inl Abort else decode_loop psz i b256')"

definition DecodeBase58 :: "string \<Rightarrow> failure + byte list option" where
  "DecodeBase58 str =
     (let psz = dropWhile isspace (takeWhile (\<lambda>c. c \<noteq> CHR 0x00) str);
          zeroes = length (takeWhile (\<lambda>c. c = CHR ''1'') psz);
          psz = dropWhile (\<lambda>c. c = CHR ''1'') psz;
          size = length psz * 733 div 1000 + 1
      in case decode_loop psz 0 (replicate size 0) of
           Inl f \<Rightarrow> Inl f
         | Inr None \<Rightarrow> Inr None
         | Inr (Some (psz, len, b256)) \<Rightarrow>
             if dropWhile isspace psz \<noteq> [] then Inr None
             else Inr (Some (replicate zeroes 0 @ dropWhile (\<lambda>d. d = 0) (drop (size - len) (rev b256)))))"

fun encode_loop :: "byte list \<Rightarrow> nat \<Rightarrow> byte list \<Rightarrow> failure + (nat \<times> byte list)" where
  "encode_loop [] len b58 = Inr (len, b58)"
| "encode_loop (x # xs) len b58 =
     (case carry_loop 256 58 len (unat x) 0 b58 of
        (carry, i, b58') \<Rightarrow> if carry \<noteq> 0 then Inl Abort else encode_loop xs i b58')"

definition EncodeBase58 :: "byte list \<Rightarrow> failure + string" where
  "EncodeBase58 vch =
     (let zeroes = length (takeWhile (\<lambda>x. x = 0) vch);
          p = dropWhile (\<lambda>x. x = 0) vch;
          size = length p * 138 div 100 + 1
      in case encode_loop p 0 (replicate size 0) of
           Inl f \<Rightarrow> Inl f
         | Inr (len, b58) \<Rightarrow>
             Inr (replicate zeroes (CHR ''1'') @
                  map (\<lambda>d. pszBase58 ! unat d) (dropWhile (\<lambda>d. d = 0) (drop (size - len) (rev b58)))))"

text \<open>With a checksum. \<open>b\<close> is the uninitialised buffer of the hasher; \<open>None\<close> is the result false.\<close>

definition EncodeBase58Check :: "byte list \<Rightarrow> byte list \<Rightarrow> failure + string" where
  "EncodeBase58Check b vchIn = EncodeBase58 (vchIn @ take 4 (Hash b vchIn))"

definition DecodeBase58Check :: "byte list \<Rightarrow> string \<Rightarrow> failure + byte list option" where
  "DecodeBase58Check b str =
     (case DecodeBase58 str of
        Inl f \<Rightarrow> Inl f
      | Inr None \<Rightarrow> Inr None
      | Inr (Some v) \<Rightarrow>
          if length v < 4 then Inr None
          else if take 4 (Hash b (take (length v - 4) v)) \<noteq> drop (length v - 4) v then Inr None
          else Inr (Some (take (length v - 4) v)))"

text \<open>\<open>uuid\<close> is the text of the fresh UUID, \<open>r1\<close> and \<open>t\<close> the decimal numbers of a task id.\<close>

definition create_nonce :: "byte list \<Rightarrow> string \<Rightarrow> failure + string" where
  "create_nonce b uuid = EncodeBase58Check b (bytes_of_string uuid)"

definition create_session_id :: "byte list \<Rightarrow> string \<Rightarrow> failure + string" where
  "create_session_id b uuid = EncodeBase58Check b (bytes_of_string uuid)"

definition create_task_id :: "byte list \<Rightarrow> string \<Rightarrow> string \<Rightarrow> failure + string" where
  "create_task_id b r1 t = EncodeBase58Check b (bytes_of_string (r1 @ t))"

definition check_id :: "byte list \<Rightarrow> string \<Rightarrow> failure + bool" where
  "check_id b idt = (case DecodeBase58Check b idt of Inl f \<Rightarrow> Inl f | Inr r \<Rightarrow> Inr (r \<noteq> None))"

section \<open>Numbers and digits\<close>

text \<open>The value of a list of digits, the least significant first, and the digits of a number.\<close>

primrec digits_val :: "nat \<Rightarrow> byte list \<Rightarrow> nat" where
  "digits_val B [] = 0"
| "digits_val B (x # xs) = unat x + B * digits_val B xs"

fun digits_of :: "nat \<Rightarrow> nat \<Rightarrow> nat list" where
  "digits_of B V = (if V = 0 \<or> B < 2 then [] else digits_of B (V div B) @ [V mod B])"

declare digits_of.simps [simp del]

lemma digits_val_zero: "(\<forall>x\<in>set xs. x = 0) \<Longrightarrow> digits_val B xs = 0"
  by (induction xs) auto

lemma digits_val_bound: "\<forall>x\<in>set xs. unat x < B \<Longrightarrow> digits_val B xs < B ^ length xs"
proof (induction xs)
  case (Cons x xs)
  then have "digits_val B xs + 1 \<le> B ^ length xs" by simp
  then have "B * (digits_val B xs + 1) \<le> B * B ^ length xs" by (rule mult_le_mono2)
  with Cons.prems show ?case by (simp add: algebra_simps)
qed simp

lemma dropWhile_digits:
  assumes "2 \<le> B" "\<forall>x\<in>set xs. unat x < B"
  shows "map unat (dropWhile (\<lambda>d. d = 0) (rev xs)) = digits_of B (digits_val B xs)"
  using assms(2)
proof (induction xs)
  case Nil
  then show ?case by (simp add: digits_of.simps)
next
  case (Cons x xs)
  let ?V = "unat x + B * digits_val B xs"
  have m: "?V mod B = unat x" "?V div B = digits_val B xs" using Cons.prems assms(1) by simp_all
  have IH: "map unat (dropWhile (\<lambda>d. d = 0) (rev xs)) = digits_of B (digits_val B xs)" using Cons by simp
  show ?case
  proof (cases "\<forall>y\<in>set xs. y = 0")
    case True
    then have "digits_val B xs = 0" by (rule digits_val_zero)
    moreover have "dropWhile (\<lambda>d. d = 0) (rev xs @ [x]) = (if x = 0 then [] else [x])" 
      using True by (subst dropWhile_append2) auto
    ultimately show ?thesis using assms(1) Cons.prems by (simp add: digits_of.simps [of B] unat_eq_0)
  next
    case False
    then have "dropWhile (\<lambda>d. d = 0) (rev xs @ [x]) = dropWhile (\<lambda>d. d = 0) (rev xs) @ [x]" by (auto simp: dropWhile_append)
    moreover have "digits_of B (digits_val B xs) \<noteq> []" using False IH by (metis (mono_tags, lifting) Nil_is_map_conv dropWhile_eq_Nil_conv set_rev)
    then have "?V \<noteq> 0" using assms(1) by (auto simp: digits_of.simps [of B 0])
    ultimately show ?thesis using IH m assms(1) by (subst digits_of.simps) simp
  qed
qed

lemma unat_digit: "2 \<le> B \<Longrightarrow> B \<le> 256 \<Longrightarrow> unat (of_nat (x mod B) :: byte) = x mod B"
proof -
  assume B: "2 \<le> B" "B \<le> 256"
  have "x mod B < B" using B(1) by simp
  then have "x mod B < 256" using B(2) by linarith
  then show ?thesis by (simp add: unat_of_nat)
qed

text \<open>The digits above the counter are zero; the loop adds without losing anything.\<close>

definition zero_from :: "nat \<Rightarrow> byte list \<Rightarrow> bool" where
  "zero_from k xs \<longleftrightarrow> (\<forall>x\<in>set (drop k xs). x = 0)"

lemma carry_loop_ok:
  assumes "carry_loop mul base len c i xs = (c', i', xs')" "2 \<le> base" "base \<le> 256"
    and "\<forall>x\<in>set xs. unat x < base" "zero_from (len - i) xs"
  shows "length xs' = length xs \<and> (\<forall>x\<in>set xs'. unat x < base) \<and> i \<le> i' \<and> zero_from (i' - i) xs' \<and>
         c + mul * digits_val base xs = digits_val base xs' + c' * base ^ length xs"
  using assms(1,4,5)
proof (induction xs arbitrary: c i c' i' xs')
  case Nil
  then show ?case by (simp add: zero_from_def)
next
  case (Cons x xs)
  show ?case
  proof (cases "c \<noteq> 0 \<or> i < len")
    case False
    then have "\<forall>y\<in>set (x # xs). y = 0" using Cons.prems(3) by (simp add: zero_from_def)
    then have "digits_val base (x # xs) = 0" by (rule digits_val_zero)
    then show ?thesis using False Cons.prems by (auto simp: zero_from_def simp del: digits_val.simps)
  next
    case True
    let ?c = "c + mul * unat x"
    obtain c2 i2 xs2 where r: "carry_loop mul base len (?c div base) (Suc i) xs = (c2, i2, xs2)" by (metis prod.exhaust)
    have eq: "c' = c2" "i' = i2" "xs' = of_nat (?c mod base) # xs2" using Cons.prems(1) True r by (simp_all add: Let_def)
    have z: "zero_from (len - Suc i) xs"
    proof (cases "len - i")
      case (Suc k)
      then have "len - Suc i = k" by simp
      then show ?thesis using Cons.prems(3) Suc by (simp add: zero_from_def)
    qed (use Cons.prems(3) in \<open>simp add: zero_from_def\<close>)
    note IH = Cons.IH [OF r _ z]
    have d: "unat (of_nat (?c mod base) :: byte) = ?c mod base"
      by (rule unat_digit [OF assms(2,3)])
    have "i' - i = Suc (i2 - Suc i)" using IH Cons.prems(2) eq by auto
    then have "zero_from (i' - i) xs'" using IH Cons.prems(2) by (simp add: zero_from_def eq)
    moreover have "c + mul * digits_val base (x # xs) = digits_val base xs' + c' * base ^ length (x # xs)"
    proof -
      have "c + mul * digits_val base (x # xs) = ?c + base * (mul * digits_val base xs)" by (simp add: algebra_simps)
      also have "\<dots> = ?c mod base + base * (?c div base + mul * digits_val base xs)" by (simp add: algebra_simps)
      also have "?c div base + mul * digits_val base xs = digits_val base xs2 + c2 * base ^ length xs"
        using IH Cons.prems(2) by simp
      finally show ?thesis by (simp only: eq digits_val.simps d) (simp add: algebra_simps)
    qed
    ultimately show ?thesis using IH Cons.prems(2) assms(2) d by (auto simp: eq)
  qed
qed

lemma carry_fits:
  assumes "c + mul * digits_val base xs = digits_val base xs' + c' * base ^ n" "c + mul * digits_val base xs < base ^ n"
  shows "c' = (0 :: nat)"
proof (rule ccontr)
  assume "c' \<noteq> 0"
  then have "base ^ n \<le> c' * base ^ n" by simp
  with assms show False by linarith
qed

section \<open>The vectors are long enough\<close>

lemma power_scale:
  fixes a b :: nat
  assumes "a ^ q \<le> b ^ p" "0 < q" "2 \<le> b" "p * r \<le> q * s" "0 < r"
  shows "a ^ n < b ^ (n * s div r + 1)"
proof -
  let ?k = "n * s div r + 1"
  have "n * s < r * ?k" using assms(5) by (metis dividend_less_times_div mult_Suc_right add.commute Suc_eq_plus1)
  then have "q * (n * s) < q * (r * ?k)" using assms(2) by simp
  moreover have "r * (n * p) \<le> q * (n * s)" using mult_le_mono2 [OF assms(4), of n] by (simp add: algebra_simps)
  moreover have "q * (r * ?k) = r * (q * ?k)" by (rule mult.left_commute)
  ultimately have "r * (n * p) < r * (q * ?k)" by linarith
  then have lt: "n * p < q * ?k" by simp
  have "(a ^ n) ^ q = (a ^ q) ^ n" by (simp only: power_mult [symmetric] mult.commute)
  also have "\<dots> \<le> (b ^ p) ^ n" using assms(1) by (rule power_mono) simp
  also have "\<dots> = b ^ (n * p)" by (simp only: power_mult [symmetric] mult.commute)
  also have "\<dots> < b ^ (q * ?k)" using lt assms(3) by (intro power_strict_increasing) auto
  also have "\<dots> = (b ^ ?k) ^ q" by (simp only: power_mult [symmetric] mult.commute)
  finally show ?thesis by (rule power_less_imp_less_base) simp
qed

lemma size58: "256 ^ n < (58 :: nat) ^ (n * 138 div 100 + 1)"
  by (rule power_scale [where p = 26 and q = 19]) simp_all

lemma size256: "58 ^ n < (256 :: nat) ^ (n * 733 div 1000 + 1)"
  by (rule power_scale [where p = 52 and q = 71]) simp_all

lemma zero_from_dropWhile:
  assumes "zero_from k b"
  shows "dropWhile (\<lambda>d. d = 0) (drop (length b - k) (rev b)) = dropWhile (\<lambda>d. d = 0) (rev b)"
proof -
  have "take (length b - k) (rev b) = rev (drop k b)"
    by (cases "k \<le> length b") (simp_all add: take_rev)
  then have z: "\<forall>x\<in>set (take (length b - k) (rev b)). x = 0" using assms by (simp add: zero_from_def)
  have "dropWhile (\<lambda>d. d = 0) (take (length b - k) (rev b) @ drop (length b - k) (rev b)) =
      dropWhile (\<lambda>d. d = 0) (drop (length b - k) (rev b))" using z by (subst dropWhile_append2) auto
  then show ?thesis by simp
qed

section \<open>Encoding\<close>

text \<open>Both directions append digits of one base to a number in the other.\<close>

fun add_loop :: "nat \<Rightarrow> nat \<Rightarrow> byte list \<Rightarrow> nat \<Rightarrow> byte list \<Rightarrow> failure + (nat \<times> byte list)" where
  "add_loop mul base [] len b = Inr (len, b)"
| "add_loop mul base (x # xs) len b =
     (case carry_loop mul base len (unat x) 0 b of
        (carry, i, b') \<Rightarrow> if carry \<noteq> 0 then Inl Abort else add_loop mul base xs i b')"

lemma encode_loop_add: "encode_loop xs len b = add_loop 256 58 xs len b"
  by (induction xs arbitrary: len b) (auto split: prod.splits)

lemma unat_byte_lt: "unat (x :: byte) < 256"
  using unsigned_less [of x] by simp

lemma digits_val_snoc: "digits_val B (xs @ [x]) = digits_val B xs + B ^ length xs * unat x"
  by (induction xs) (simp_all add: algebra_simps)

lemma add_loop_ok:
  assumes base: "2 \<le> base" "base \<le> 256"
    and "\<forall>x\<in>set b. unat x < base" "zero_from len b" "\<forall>x\<in>set xs. unat x < mul"
    and "mul ^ length xs * (digits_val base b + 1) \<le> base ^ length b"
  shows "\<exists>len' b'. add_loop mul base xs len b = Inr (len', b') \<and> length b' = length b \<and> (\<forall>x\<in>set b'. unat x < base) \<and>
           zero_from len' b' \<and> digits_val base b' = mul ^ length xs * digits_val base b + digits_val mul (rev xs)"
  using assms(3-)
proof (induction xs arbitrary: len b)
  case (Cons x xs)
  let ?v = "digits_val base b"
  obtain c i b1 where c: "carry_loop mul base len (unat x) 0 b = (c, i, b1)" by (metis prod.exhaust)
  from carry_loop_ok [OF c base] Cons.prems(1,2)
  have ok: "length b1 = length b" "\<forall>x\<in>set b1. unat x < base" "zero_from i b1"
    "unat x + mul * ?v = digits_val base b1 + c * base ^ length b" by simp_all
  have x: "unat x < mul" using Cons.prems(3) by simp
  then have "mul * ?v + mul \<le> mul ^ length (x # xs) * (?v + 1)"
    using mult_le_mono1 [of 1 "mul ^ length xs" "mul * (?v + 1)"] by (simp add: algebra_simps Suc_le_eq)
  also note Cons.prems(4)
  finally have "c = 0" using ok(4) x by (intro carry_fits [OF ok(4)]) simp
  have v: "digits_val base b1 = unat x + mul * ?v" using ok(4) \<open>c = 0\<close> by simp
  have "mul ^ length xs * (digits_val base b1 + 1) \<le> mul ^ length xs * (mul * (?v + 1))"
    using x unfolding v by (intro mult_le_mono2) simp
  then have "mul ^ length xs * (digits_val base b1 + 1) \<le> base ^ length b1" using Cons.prems(4) ok(1) by (simp add: algebra_simps)
  from Cons.IH [OF ok(2,3) _ this] Cons.prems(3) obtain len' b' where r: "add_loop mul base xs i b1 = Inr (len', b')" "length b' = length b1"
    "\<forall>x\<in>set b'. unat x < base" "zero_from len' b'" "digits_val base b' = mul ^ length xs * digits_val base b1 + digits_val mul (rev xs)"
    by auto
  have "digits_val base b' = mul ^ length (x # xs) * ?v + digits_val mul (rev (x # xs))"
    using r(5) by (simp add: v digits_val_snoc algebra_simps)
  then show ?case using r c \<open>c = 0\<close> ok(1) by auto
qed simp

text \<open>From the empty number, in a vector that is long enough: the digits come out.\<close>

lemma add_loop_digits:
  assumes "2 \<le> base" "base \<le> 256" "\<forall>x\<in>set xs. unat x < mul" "mul ^ length xs < base ^ n"
  shows "\<exists>len b. add_loop mul base xs 0 (replicate n 0) = Inr (len, b) \<and>
           map unat (dropWhile (\<lambda>d. d = 0) (drop (n - len) (rev b))) = digits_of base (digits_val mul (rev xs))"
proof -
  have z: "digits_val base (replicate n 0) = 0" by (rule digits_val_zero) simp
  from add_loop_ok [OF assms(1,2) _ _ assms(3), of "replicate n 0" 0] assms(1,4) obtain len b where
    b: "add_loop mul base xs 0 (replicate n 0) = Inr (len, b)" "length b = n" "\<forall>x\<in>set b. unat x < base" "zero_from len b"
      "digits_val base b = digits_val mul (rev xs)"
    by (auto simp: zero_from_def z)
  then show ?thesis using dropWhile_digits [OF assms(1) b(3)] zero_from_dropWhile [OF b(4)] by (simp add: b(2,5))
qed

lemma EncodeBase58_ok:
  "EncodeBase58 vch =
     Inr (replicate (length (takeWhile (\<lambda>x. x = 0) vch)) (CHR ''1'') @
          map (\<lambda>d. pszBase58 ! d) (digits_of 58 (digits_val 256 (rev (dropWhile (\<lambda>x. x = 0) vch)))))"
proof -
  let ?p = "dropWhile (\<lambda>x. x = 0) vch"
  define n where "n = length ?p * 138 div 100 + 1"
  have "\<forall>x\<in>set ?p. unat x < 256" by (simp add: unat_byte_lt)
  moreover have "256 ^ length ?p < (58 :: nat) ^ n" unfolding n_def by (rule size58)
  ultimately obtain len b where b: "add_loop 256 58 ?p 0 (replicate n 0) = Inr (len, b)"
    "map unat (dropWhile (\<lambda>d. d = 0) (drop (n - len) (rev b))) = digits_of 58 (digits_val 256 (rev ?p))"
    using add_loop_digits [of 58 ?p 256 n] by auto
  have "map (\<lambda>d. pszBase58 ! unat d) (dropWhile (\<lambda>d. d = 0) (drop (n - len) (rev b))) =
      map (\<lambda>d. pszBase58 ! d) (digits_of 58 (digits_val 256 (rev ?p)))"
    unfolding b(2) [symmetric] by (simp only: map_map o_def)
  then show ?thesis using b(1) by (simp add: EncodeBase58_def Let_def n_def encode_loop_add)
qed

section \<open>Decoding\<close>

definition digit :: "char \<Rightarrow> int" where
  "digit c = mapBase58 ! unat (byte_of_char c)"

lemma table_digits: "d < 58 \<Longrightarrow> digit (pszBase58 ! d) = int d \<and> \<not> isspace (pszBase58 ! d) \<and> pszBase58 ! d \<noteq> CHR 0x00"
proof -
  have "list_all (\<lambda>d. digit (pszBase58 ! d) = int d \<and> \<not> isspace (pszBase58 ! d) \<and> pszBase58 ! d \<noteq> CHR 0x00) [0..<58]"
    by code_simp
  then show "d < 58 \<Longrightarrow> ?thesis" by (simp only: list_all_iff set_upt atLeastLessThan_iff) simp
qed

lemma table_chars:
  assumes "digit c \<noteq> - 1"
  shows "0 \<le> digit c" "digit c < 58" "pszBase58 ! nat (digit c) = c"
proof -
  have "list_all (\<lambda>i. let k = mapBase58 ! i in k = - 1 \<or> 0 \<le> k \<and> k < 58 \<and> of_char (pszBase58 ! nat k) = i) [0..<256]"
    by code_simp
  then have all: "i < 256 \<Longrightarrow> mapBase58 ! i = - 1 \<or> 0 \<le> mapBase58 ! i \<and> mapBase58 ! i < 58 \<and> of_char (pszBase58 ! nat (mapBase58 ! i)) = i" for i
    by (simp only: list_all_iff set_upt atLeastLessThan_iff Let_def) simp
  have b: "unat (byte_of_char c) = of_char c" using char_of_byte_of_char [of c]
    unfolding char_of_byte_def by (metis char_of_eq_iff of_char_mod_256 mod_less unat_byte_lt of_char_of)
  have c: "0 \<le> digit c \<and> digit c < 58 \<and> of_char (pszBase58 ! nat (digit c)) = (of_char c :: nat)"
    using all [OF unat_byte_lt, of "byte_of_char c"] assms unfolding digit_def b by blast
  then show "0 \<le> digit c" "digit c < 58" "pszBase58 ! nat (digit c) = c" by (simp_all add: of_char_eq_iff)
qed

text \<open>The digit of a character as the loop adds it.\<close>

definition digit_byte :: "char \<Rightarrow> byte" where
  "digit_byte c = of_nat (nat (digit c))"

lemma unat_digit_byte: "digit c \<noteq> - 1 \<Longrightarrow> unat (digit_byte c) = nat (digit c)"
proof -
  assume "digit c \<noteq> - 1"
  from table_chars [OF this] obtain n where "digit c = int n" "n < 58" by (metis nonneg_int_cases of_nat_less_iff of_nat_numeral)
  then show ?thesis by (simp add: digit_byte_def unat_of_nat)
qed

lemma decode_loop_add:
  assumes "\<forall>c\<in>set cs. \<not> isspace c \<and> digit c \<noteq> - 1" "rest = [] \<or> isspace (hd rest) \<or> digit (hd rest) = - 1"
  shows "decode_loop (cs @ rest) len b =
     (case add_loop 58 256 (map digit_byte cs) len b of
        Inl f \<Rightarrow> Inl f
      | Inr (len', b') \<Rightarrow> if rest = [] \<or> isspace (hd rest) then Inr (Some (rest, len', b')) else Inr None)"
  using assms(1)
proof (induction cs arbitrary: len b)
  case Nil
  then show ?case using assms(2) by (cases rest) (auto simp: Let_def simp flip: digit_def)
next
  case (Cons c cs)
  then show ?case by (auto simp: Let_def unat_digit_byte simp flip: digit_def split: prod.splits)
qed

lemma decode_loop_Some:
  "decode_loop psz len b = Inr (Some (rest, len', b')) \<Longrightarrow>
     \<exists>cs. psz = cs @ rest \<and> (\<forall>c\<in>set cs. \<not> isspace c \<and> digit c \<noteq> - 1) \<and> (rest = [] \<or> isspace (hd rest))"
proof (induction psz len b rule: decode_loop.induct)
  case (2 c psz len b)
  show ?case
  proof (cases "isspace c")
    case True
    then show ?thesis using 2(2) by (intro exI [of _ "[]"]) auto
  next
    case False
    obtain k i b1 where r: "carry_loop 58 256 len (nat (digit c)) 0 b = (k, i, b1)" by (metis prod.exhaust)
    have d: "digit c \<noteq> - 1" "decode_loop psz i b1 = Inr (Some (rest, len', b'))"
      using 2(2) False r by (auto simp: Let_def simp flip: digit_def split: if_splits)
    then obtain cs where "psz = cs @ rest" "\<forall>c\<in>set cs. \<not> isspace c \<and> digit c \<noteq> - 1" "rest = [] \<or> isspace (hd rest)"
      using 2(1) [OF False refl _ r [unfolded digit_def, symmetric] refl] 2(2) False r
      by (auto simp: Let_def simp flip: digit_def split: if_splits)
    then show ?thesis using False d(1) by (intro exI [of _ "c # cs"]) auto
  qed
qed simp

lemma digits_of_lt: "2 \<le> B \<Longrightarrow> d \<in> set (digits_of B V) \<Longrightarrow> d < B"
proof (induction B V rule: digits_of.induct)
  case (1 B V)
  then show ?case by (subst (asm) (2) digits_of.simps) (auto split: if_splits)
qed

lemma digits_of_hd: "2 \<le> B \<Longrightarrow> digits_of B V = d # ds \<Longrightarrow> d \<noteq> 0"
proof (induction B V arbitrary: d ds rule: digits_of.induct)
  case (1 B V)
  have V: "V \<noteq> 0" using 1(3) by (auto simp: digits_of.simps split: if_splits)
  then have eq: "digits_of B (V div B) @ [V mod B] = d # ds" using 1(2,3) digits_of.simps [of B V] by simp
  show ?case
  proof (cases "digits_of B (V div B)")
    case Nil
    then have "V div B = 0" using 1(2) by (subst (asm) digits_of.simps) (auto split: if_splits)
    then show ?thesis using eq Nil V 1(2) by (auto simp: mod_if div_eq_0_iff split: if_splits)
  next
    case (Cons a as)
    then show ?thesis using 1(1) [of a as] eq V 1(2) by auto
  qed
qed

lemma digits_of_val: "2 \<le> B \<Longrightarrow> B \<le> 256 \<Longrightarrow> digits_val B (rev (map of_nat (digits_of B V))) = V"
proof (induction B V rule: digits_of.induct)
  case (1 B V)
  have "unat (of_nat (V mod B) :: byte) = V mod B"
    by (rule unat_digit [OF 1(2,3)])
  then show ?case using 1 by (subst digits_of.simps) auto
qed

lemma leading_split:
  assumes "ys = [] \<or> \<not> P (hd ys)" "\<forall>x\<in>set xs. P x"
  shows "takeWhile P (xs @ ys) = xs" "dropWhile P (xs @ ys) = ys"
  using assms by (cases ys; simp)+

lemma digits_fit:
  assumes "\<forall>c\<in>set cs. digit c \<noteq> - 1"
  shows "\<exists>len b. add_loop 58 256 (map digit_byte cs) 0 (replicate (length (cs @ rest) * 733 div 1000 + 1) 0) = Inr (len, b) \<and>
           map unat (dropWhile (\<lambda>d. d = 0) (drop (length (cs @ rest) * 733 div 1000 + 1 - len) (rev b))) =
             digits_of 256 (digits_val 58 (rev (map digit_byte cs)))"
proof -
  have "(58 :: nat) ^ length cs \<le> 58 ^ length (cs @ rest)" by (intro power_increasing) simp_all
  also note size256
  finally have sz: "(58 :: nat) ^ length (map digit_byte cs) < 256 ^ (length (cs @ rest) * 733 div 1000 + 1)" by (simp only: length_map)
  have "\<forall>x\<in>set (map digit_byte cs). unat x < 58"
    using assms table_chars unat_digit_byte by (fastforce simp: nat_less_iff)
  then show ?thesis by (intro add_loop_digits [OF _ _ _ sz]) simp_all
qed

lemma DecodeBase58_total: "\<exists>r. DecodeBase58 str = Inr r"
proof -
  define psz where "psz = dropWhile (\<lambda>c. c = CHR ''1'') (dropWhile isspace (takeWhile (\<lambda>c. c \<noteq> CHR 0x00) str))"
  let ?P = "\<lambda>c. \<not> isspace c \<and> digit c \<noteq> - 1"
  let ?cs = "takeWhile ?P psz" and ?rest = "dropWhile ?P psz"
  have cs: "\<forall>c\<in>set ?cs. ?P c" by (auto dest: set_takeWhileD)
  have "?rest = [] \<or> isspace (hd ?rest) \<or> digit (hd ?rest) = - 1" using hd_dropWhile [of ?P psz] by auto
  note add = decode_loop_add [OF cs this, of 0, unfolded takeWhile_dropWhile_id]
  obtain len b where "add_loop 58 256 (map digit_byte ?cs) 0 (replicate (length psz * 733 div 1000 + 1) 0) = Inr (len, b)"
    using digits_fit [of ?cs ?rest, unfolded takeWhile_dropWhile_id] cs by blast
  then obtain r where r: "decode_loop psz 0 (replicate (length psz * 733 div 1000 + 1) 0) = Inr r"
    by (cases "?rest = [] \<or> isspace (hd ?rest)") (simp_all only: add, simp_all)
  show ?thesis unfolding DecodeBase58_def Let_def psz_def [symmetric] r
    by (cases r) (auto split: prod.splits)
qed

lemma DecodeBase58_ok:
  assumes str: "takeWhile (\<lambda>c. c \<noteq> CHR 0x00) str = pre @ replicate z (CHR ''1'') @ cs @ post"
    and sp: "\<forall>c\<in>set pre. isspace c" "\<forall>c\<in>set post. isspace c"
    and cs: "\<forall>c\<in>set cs. \<not> isspace c \<and> digit c \<noteq> - 1" "cs = [] \<or> hd cs \<noteq> CHR ''1''"
  shows "DecodeBase58 str = Inr (Some (replicate z 0 @ map of_nat (digits_of 256 (digits_val 58 (rev (map digit_byte cs))))))"
proof -
  have one: "\<not> isspace (CHR ''1'')" by (simp add: isspace_def)
  obtain post' where p: "dropWhile isspace (pre @ replicate z (CHR ''1'') @ cs @ post) = replicate z (CHR ''1'') @ cs @ post'"
    "\<forall>c\<in>set post'. isspace c"
  proof (cases "z = 0 \<and> cs = []")
    case True
    then show thesis using sp by (intro that [of "[]"]) (auto simp: dropWhile_append2 dropWhile_eq_Nil_conv)
  next
    case False
    then have "\<not> isspace (hd (replicate z (CHR ''1'') @ cs @ post))" using one cs(1) by (cases z; cases cs) auto
    then show thesis using sp leading_split(2) [of "replicate z (CHR ''1'') @ cs @ post" isspace pre] by (intro that [of post]) auto
  qed
  have "cs @ post' = [] \<or> hd (cs @ post') \<noteq> CHR ''1''" using cs(2) p(2) one by (cases cs; cases post') auto
  then have ones: "takeWhile (\<lambda>c. c = CHR ''1'') (replicate z (CHR ''1'') @ cs @ post') = replicate z (CHR ''1'')"
    "dropWhile (\<lambda>c. c = CHR ''1'') (replicate z (CHR ''1'') @ cs @ post') = cs @ post'"
    by (auto intro!: leading_split)
  define n where "n = length (cs @ post') * 733 div 1000 + 1"
  from digits_fit [of cs post', folded n_def] cs(1) obtain len b where b: "add_loop 58 256 (map digit_byte cs) 0 (replicate n 0) = Inr (len, b)"
    "map unat (dropWhile (\<lambda>d. d = 0) (drop (n - len) (rev b))) = digits_of 256 (digits_val 58 (rev (map digit_byte cs)))"
    by auto
  have "map of_nat (map unat xs) = xs" for xs :: "byte list" by (induction xs) simp_all
  from this [of "dropWhile (\<lambda>d. d = 0) (drop (n - len) (rev b))", unfolded b(2)]
  have out: "dropWhile (\<lambda>d. d = 0) (drop (n - len) (rev b)) = map of_nat (digits_of 256 (digits_val 58 (rev (map digit_byte cs))))" ..
  have "post' = [] \<or> isspace (hd post')" using p(2) by (cases post') auto
  then have "decode_loop (cs @ post') 0 (replicate n 0) = Inr (Some (post', len, b))"
    by (subst decode_loop_add [OF cs(1)]) (auto simp: b(1))
  moreover have "dropWhile isspace post' = []" using p(2) by simp
  ultimately show ?thesis
    using out ones unfolding DecodeBase58_def str p(1) Let_def by (simp add: n_def del: length_append)
qed

text \<open>The text of a number: its leading ones and its digits.\<close>

lemma Encode_canonical:
  assumes "\<forall>c\<in>set cs. digit c \<noteq> - 1" "cs = [] \<or> hd cs \<noteq> CHR ''1''"
  shows "EncodeBase58 (replicate z 0 @ map of_nat (digits_of 256 (digits_val 58 (rev (map digit_byte cs))))) =
     Inr (replicate z (CHR ''1'') @ cs)"
proof -
  let ?V = "digits_val 58 (rev (map digit_byte cs))"
  let ?D = "map of_nat (digits_of 256 ?V) :: byte list"
  have "\<not> hd ?D = 0" if ne: "?D \<noteq> []"
  proof -
    obtain d ds where D: "digits_of 256 ?V = d # ds" using ne by (cases "digits_of 256 ?V") auto
    then have "d < 256" "d \<noteq> 0" using digits_of_lt [of 256 d ?V] digits_of_hd [OF _ D] by simp_all
    then have "unat (of_nat d :: byte) \<noteq> 0" by (simp add: unat_of_nat)
    then have "(of_nat d :: byte) \<noteq> 0" by (metis unat_0)
    then show ?thesis using D by simp
  qed
  then have lead: "takeWhile (\<lambda>x. x = 0) (replicate z 0 @ ?D) = replicate z 0" "dropWhile (\<lambda>x. x = 0) (replicate z 0 @ ?D) = ?D"
    by (auto intro!: leading_split)
  have u: "unat (digit_byte c) = nat (digit c) \<and> nat (digit c) < 58 \<and> pszBase58 ! nat (digit c) = c" if "c \<in> set cs" for c
    using assms(1) that unat_digit_byte [of c] table_chars [of c] by auto
  have "hd (map digit_byte cs) \<noteq> 0" if "cs \<noteq> []"
  proof
    assume "hd (map digit_byte cs) = 0"
    then have "unat (digit_byte (hd cs)) = 0" using that by (simp add: hd_map)
    then have "pszBase58 ! 0 = hd cs" using u [of "hd cs"] that by auto
    then show False using assms(2) that by (simp add: pszBase58_def)
  qed
  then have "dropWhile (\<lambda>d. d = 0) (map digit_byte cs) = map digit_byte cs" by (cases cs) auto
  moreover have "\<forall>x\<in>set (rev (map digit_byte cs)). unat x < 58" using u by auto
  ultimately have "digits_of 58 ?V = map unat (map digit_byte cs)"
    using dropWhile_digits [of 58 "rev (map digit_byte cs)"] by simp
  moreover have "map (\<lambda>d. pszBase58 ! d) (map unat (map digit_byte cs)) = cs" using u by (simp add: map_idI)
  moreover have "digits_val 256 (rev ?D) = ?V" by (rule digits_of_val) simp_all
  ultimately show ?thesis by (simp add: EncodeBase58_ok lead)
qed

lemma Encode_decodes:
  assumes "EncodeBase58 v = Inr txt" "takeWhile (\<lambda>c. c \<noteq> CHR 0x00) str = pre @ txt @ post" "\<forall>c\<in>set (pre @ post). isspace c"
  shows "DecodeBase58 str = Inr (Some v)"
proof -
  let ?p = "dropWhile (\<lambda>x. x = 0) v" and ?z = "length (takeWhile (\<lambda>x. x = 0) v)"
  let ?V = "digits_val 256 (rev ?p)"
  let ?ds = "digits_of 58 ?V"
  let ?cs = "map (\<lambda>d. pszBase58 ! d) ?ds"
  have tx: "txt = replicate ?z (CHR ''1'') @ ?cs" using assms(1) by (simp add: EncodeBase58_ok)
  have ds: "d < 58 \<and> digit (pszBase58 ! d) = int d \<and> \<not> isspace (pszBase58 ! d)" if "d \<in> set ?ds" for d
    using digits_of_lt [of 58 d ?V] table_digits [of d] that by simp
  have hd: "?cs = [] \<or> hd ?cs \<noteq> CHR ''1''"
  proof (cases ?ds)
    case (Cons d ds)
    then have "d \<noteq> 0" "digit (pszBase58 ! d) = int d" using digits_of_hd [OF _ Cons] ds [of d] by simp_all
    moreover have "digit (CHR ''1'') = 0" using table_digits [of 0] by (simp add: pszBase58_def)
    ultimately show ?thesis using Cons by auto
  qed simp
  have cs: "\<forall>c\<in>set ?cs. \<not> isspace c \<and> digit c \<noteq> - 1" using ds by auto
  have "map digit_byte ?cs = map of_nat ?ds" using ds by (auto simp: digit_byte_def)
  then have V: "digits_val 58 (rev (map digit_byte ?cs)) = ?V" using digits_of_val [of 58 ?V] by (simp only:)
  have "\<forall>x\<in>set (rev ?p). unat x < 256" by (simp add: unat_byte_lt)
  from dropWhile_digits [OF _ this] have "digits_of 256 ?V = map unat ?p" by simp
  then have "map of_nat (digits_of 256 ?V) = ?p" by (simp add: map_idI)
  moreover have "replicate ?z 0 @ ?p = v"
    by (metis (mono_tags, lifting) replicate_length_same set_takeWhileD takeWhile_dropWhile_id)
  moreover have "\<forall>c\<in>set pre. isspace c" "\<forall>c\<in>set post. isspace c" using assms(3) by auto
  note DecodeBase58_ok [OF assms(2) [unfolded tx append_assoc] this cs hd, unfolded V]
  ultimately show ?thesis by simp
qed

lemma Decode_encodes:
  assumes "DecodeBase58 str = Inr (Some v)"
  shows "\<exists>pre txt post. takeWhile (\<lambda>c. c \<noteq> CHR 0x00) str = pre @ txt @ post \<and> (\<forall>c\<in>set (pre @ post). isspace c) \<and> EncodeBase58 v = Inr txt"
proof -
  let ?s = "takeWhile (\<lambda>c. c \<noteq> CHR 0x00) str"
  let ?q = "dropWhile isspace ?s"
  let ?ones = "takeWhile (\<lambda>c. c = CHR ''1'') ?q" and ?psz = "dropWhile (\<lambda>c. c = CHR ''1'') ?q"
  obtain rest len b where d: "decode_loop ?psz 0 (replicate (length ?psz * 733 div 1000 + 1) 0) = Inr (Some (rest, len, b))"
    "dropWhile isspace rest = []"
  proof -
    define D where "D = decode_loop ?psz 0 (replicate (length ?psz * 733 div 1000 + 1) 0)"
    have "\<exists>rest len b. D = Inr (Some (rest, len, b)) \<and> dropWhile isspace rest = []"
      using assms unfolding DecodeBase58_def Let_def D_def [symmetric] by (auto split: sum.splits option.splits if_splits)
    then show thesis using that unfolding D_def by blast
  qed
  from decode_loop_Some [OF d(1)] obtain cs where cs: "?psz = cs @ rest" "\<forall>c\<in>set cs. \<not> isspace c \<and> digit c \<noteq> - 1" by blast
  have ones: "replicate (length ?ones) (CHR ''1'') = ?ones" by (rule replicate_length_same) (auto dest: set_takeWhileD)
  have str: "?s = takeWhile isspace ?s @ replicate (length ?ones) (CHR ''1'') @ cs @ rest"
    unfolding ones cs(1) [symmetric] takeWhile_dropWhile_id ..
  have hd: "cs = [] \<or> hd cs \<noteq> CHR ''1''" using hd_dropWhile [of "\<lambda>c. c = CHR ''1''" ?q] cs(1) by (cases cs) auto
  have sp: "\<forall>c\<in>set (takeWhile isspace ?s). isspace c" "\<forall>c\<in>set rest. isspace c"
    using d(2) by (auto dest: set_takeWhileD simp: dropWhile_eq_Nil_conv)
  from DecodeBase58_ok [OF str sp cs(2) hd] assms Encode_canonical [of cs] cs(2) hd
  have "EncodeBase58 v = Inr (replicate (length ?ones) (CHR ''1'') @ cs)" by auto
  with str sp show ?thesis
    by (intro exI [of _ "takeWhile isspace ?s"] exI [of _ "replicate (length ?ones) (CHR ''1'') @ cs"] exI [of _ rest]) auto
qed

text \<open>(C33) Base58 is exact: the decoder never aborts, and it accepts a text, up to white space around it and
  what follows a NUL, exactly when the text is the encoding of the bytes it returns; the encoder is
  total, so every byte vector survives the round trip.\<close>

theorem base58_decode_iff_encode:
  "(\<exists>r. DecodeBase58 str = Inr r) \<and>
   (DecodeBase58 str = Inr (Some v) \<longleftrightarrow>
      (\<exists>pre txt post. takeWhile (\<lambda>c. c \<noteq> CHR 0x00) str = pre @ txt @ post \<and> (\<forall>c\<in>set (pre @ post). isspace c) \<and> EncodeBase58 v = Inr txt))"
proof (intro conjI iffI)
  show "\<exists>r. DecodeBase58 str = Inr r" by (rule DecodeBase58_total)
next
  assume "DecodeBase58 str = Inr (Some v)"
  then show "\<exists>pre txt post. takeWhile (\<lambda>c. c \<noteq> CHR 0x00) str = pre @ txt @ post \<and> (\<forall>c\<in>set (pre @ post). isspace c) \<and> EncodeBase58 v = Inr txt"
    by (rule Decode_encodes)
next
  assume "\<exists>pre txt post. takeWhile (\<lambda>c. c \<noteq> CHR 0x00) str = pre @ txt @ post \<and> (\<forall>c\<in>set (pre @ post). isspace c) \<and> EncodeBase58 v = Inr txt"
  then show "DecodeBase58 str = Inr (Some v)" by (elim exE conjE) (rule Encode_decodes)
qed

theorem base58_decode_iff_encode_witness:
  "EncodeBase58 [0, 1] = Inr ''12'' \<and> DecodeBase58 '' 12 '' = Inr (Some [0, 1])"
proof -
  have e: "EncodeBase58 [0, 1] = Inr ''12''" by code_simp
  have "takeWhile (\<lambda>c. c \<noteq> CHR 0x00) '' 12 '' = '' '' @ ''12'' @ '' '' \<and> (\<forall>c\<in>set ('' '' @ '' ''). isspace c)"
    by (simp add: isspace_def)
  with e base58_decode_iff_encode [of "'' 12 ''" "[0, 1]"] show ?thesis by blast
qed

text \<open>An encoding has no NUL in it.\<close>

lemma Encode_no_nul: "EncodeBase58 v = Inr x \<Longrightarrow> takeWhile (\<lambda>c. c \<noteq> CHR 0x00) x = x"
proof -
  assume x: "EncodeBase58 v = Inr x"
  have "c \<noteq> CHR 0x00" if "c \<in> set x" for c
  proof -
    have "c = CHR ''1'' \<or> (\<exists>d\<in>set (digits_of 58 (digits_val 256 (rev (dropWhile (\<lambda>x. x = 0) v)))). c = pszBase58 ! d)"
      using x that by (auto simp: EncodeBase58_ok)
    then show ?thesis using digits_of_lt [of 58, THEN table_digits] by fastforce
  qed
  then show ?thesis by (simp add: takeWhile_eq_all_conv)
qed

lemma Base58Check_checks:
  assumes "length b = 64" "length b' = 64"
  shows "\<exists>x. EncodeBase58Check b v = Inr x \<and> DecodeBase58Check b' x = Inr (Some v)"
proof -
  have h: "Hash b v = fips_sha256 (fips_sha256 v)" "Hash b' v = fips_sha256 (fips_sha256 v)" for v
    using Hash_fips assms by simp_all
  let ?w = "v @ take 4 (fips_sha256 (fips_sha256 v))"
  obtain x where x: "EncodeBase58 ?w = Inr x" using EncodeBase58_ok by blast
  have "DecodeBase58 x = Inr (Some ?w)" using Encode_decodes [OF x, of x "[]" "[]"] Encode_no_nul [OF x] by simp
  then have "DecodeBase58Check b' x = Inr (Some v)" by (simp add: DecodeBase58Check_def h)
  with x show ?thesis by (auto simp: EncodeBase58Check_def h)
qed

lemma nonce_checks:
  assumes "length b = 64" "length b' = 64" "create_nonce b uuid = Inr n"
  shows "check_id b' n = Inr True"
proof -
  obtain v where v: "create_nonce b uuid = EncodeBase58Check b v" by (auto simp: create_nonce_def)
  from Base58Check_checks [OF assms(1,2), of v] assms(3) v show ?thesis by (auto simp: check_id_def)
qed

text \<open>Ids: what \<open>create_nonce\<close>, \<open>create_session_id\<close> and \<open>create_task_id\<close> make always passes \<open>check_id\<close>, and the
  bytes that were encoded come back; a text passes only if it is, up to white space, the encoding of
  some bytes and the first four bytes of their double SHA-256.\<close>

theorem created_ids_check:
  assumes "length b = 64" "length b' = 64"
  shows "(\<forall>v. \<exists>x. EncodeBase58Check b v = Inr x \<and> DecodeBase58Check b' x = Inr (Some v)) \<and>
         (\<forall>uuid. \<exists>x. create_nonce b uuid = Inr x \<and> check_id b' x = Inr True) \<and>
         (\<forall>uuid. \<exists>x. create_session_id b uuid = Inr x \<and> check_id b' x = Inr True) \<and>
         (\<forall>r1 t. \<exists>x. create_task_id b r1 t = Inr x \<and> check_id b' x = Inr True) \<and>
         (\<forall>x. check_id b x = Inr True \<longrightarrow>
            (\<exists>pre y post v. takeWhile (\<lambda>c. c \<noteq> CHR 0x00) x = pre @ y @ post \<and> (\<forall>c\<in>set (pre @ post). isspace c) \<and>
               EncodeBase58 (v @ take 4 (fips_sha256 (fips_sha256 v))) = Inr y))"
proof -
  have h: "Hash b v = fips_sha256 (fips_sha256 v)" "Hash b' v = fips_sha256 (fips_sha256 v)" for v
    using Hash_fips assms by simp_all
  have 1: "\<exists>x. EncodeBase58Check b v = Inr x \<and> DecodeBase58Check b' x = Inr (Some v)" for v
    by (rule Base58Check_checks [OF assms])
  have 2: "\<exists>x. EncodeBase58Check b v = Inr x \<and> check_id b' x = Inr True" for v
    using 1 [of v] by (auto simp: check_id_def)
  have 3: "\<exists>pre y post v. takeWhile (\<lambda>c. c \<noteq> CHR 0x00) x = pre @ y @ post \<and> (\<forall>c\<in>set (pre @ post). isspace c) \<and>
      EncodeBase58 (v @ take 4 (fips_sha256 (fips_sha256 v))) = Inr y" if ck: "check_id b x = Inr True" for x
  proof -
    obtain w where w: "DecodeBase58 x = Inr (Some w)" "4 \<le> length w"
      "take 4 (fips_sha256 (fips_sha256 (take (length w - 4) w))) = drop (length w - 4) w"
    proof -
      obtain w where w: "DecodeBase58 x = Inr (Some w)"
        using ck by (cases "DecodeBase58 x") (auto simp: check_id_def DecodeBase58Check_def split: option.splits)
      then have "4 \<le> length w \<and> take 4 (Hash b (take (length w - 4) w)) = drop (length w - 4) w"
        using ck by (auto simp: check_id_def DecodeBase58Check_def split: if_splits)
      with w show thesis using that by (simp add: h)
    qed
    then have "take (length w - 4) w @ take 4 (fips_sha256 (fips_sha256 (take (length w - 4) w))) = w" by simp
    with Decode_encodes [OF w(1)] show ?thesis by metis
  qed
  show ?thesis
    unfolding create_nonce_def create_session_id_def create_task_id_def using 1 2 3 by (intro conjI allI impI)
qed

theorem created_ids_check_witness:
  "\<exists>x. create_nonce (replicate 64 1) ''01234567-89ab-cdef-0123-456789abcdef'' = Inr x \<and> check_id (replicate 64 2) x = Inr True"
  using created_ids_check [of "replicate 64 1" "replicate 64 2"] by (simp only: length_replicate)

end
