(* ===== verification/P2p_Net_Service.thy ===== *)
theory P2p_Net_Service
  imports Connection_Manager Base58
begin

text \<open>
  The peer-to-peer service: \<open>service/peer_request_service/p2p_net_service.{h,cpp}\<close>, \<open>peer_node.{h,cpp}\<close>,
  \<open>peer_candidate.h\<close>, \<open>network/utils/net_address.{h,cpp}\<close> and the string and signature helpers it uses.
  Candidates are shared objects: the list holds references into a store. What the service does not
  compute itself (the substrate library, the resolver, the parsing of addresses, the clock, the
  order in which an \<open>unordered_map\<close> is walked) is in the environment \<open>p2p_env\<close>.
\<close>

section \<open>Data\<close>

datatype net_state = ns_idle | ns_in_use | ns_failed | ns_zombie | ns_available
datatype peer_node_type = PEER_NORMAL_NODE | PEER_SEED_NODE
datatype connection_status = DISCONNECTED | CONNECTED

type_synonym net_address = "string \<times> u16"
type_synonym cand_ref = nat

record peer_candidate =
  tcp_ep :: endpoint
  cand_type :: peer_node_type
  cand_id :: string
  net_st :: net_state
  reconn_cnt :: u32
  last_conn_tm :: i64
  cand_score :: u32

record peer_node =
  pn_type :: peer_node_type
  pn_id :: string
  pn_sid :: socket_id
  pn_core_version :: i32
  pn_protocol_version :: i32
  pn_connected_time :: i64
  pn_live_time :: i64
  pn_status :: connection_status
  pn_peer_addr :: net_address
  pn_local_addr :: net_address

record p2p_env =
  henv :: handler_env
  hfilter :: bloomlru_filter
  priv_sign :: "string \<Rightarrow> string \<Rightarrow> string"
  pub_verify :: "string \<Rightarrow> string \<Rightarrow> string \<Rightarrow> bool"
  private_key :: string
  public_ip :: string
  addr_to_string :: "address \<Rightarrow> string"
  addr_from_string :: "string \<Rightarrow> address option"
  v4_from_string :: "string \<Rightarrow> address option"
  resolve :: "string \<Rightarrow> endpoint list option"
  umap_order :: "(string \<times> peer_node) list \<Rightarrow> (string \<times> peer_node) list"
  uuid :: string
  scratch :: "byte list"
  now :: i64
  now_text :: string

record p2p =
  m_listen_ip :: string
  m_listen_port :: u16
  m_dns_seeds :: "string list"
  m_ip_seeds :: "string list"
  m_peer_candidates :: "cand_ref list"
  candidates :: "cand_ref \<Rightarrow> peer_candidate"
  next_cand :: nat
  m_peer_nodes_map :: "(string, peer_node) smap"
  disconnect_interval :: u32
  net :: conn_mgr

definition max_reconnect_times :: u32 where "max_reconnect_times = 1"
definition max_connected_peer_nodes_count :: nat where "max_connected_peer_nodes_count = 16"
definition max_peer_candidate_per_check :: nat where "max_peer_candidate_per_check = 16"
definition max_peer_candidates_count :: nat where "max_peer_candidates_count = 64"
definition min_peer_candidates_count :: nat where "min_peer_candidates_count = 8"
definition max_broadcast_peer_nodes_count :: nat where "max_broadcast_peer_nodes_count = 16"
definition MIN_NORMAL_AVAILABLE_NODE_COUNT :: nat where "MIN_NORMAL_AVAILABLE_NODE_COUNT = 2"
definition DISCONNECT_NODE_PER_MINUTES :: u32 where "DISCONNECT_NODE_PER_MINUTES = 5"
definition CORE_VERSION :: i32 where "CORE_VERSION = 0x00040000"
definition PROTOCO_VERSION :: i32 where "PROTOCO_VERSION = 0x00000001"
definition P2P_GET_PEER_NODES_RESP :: string where "P2P_GET_PEER_NODES_RESP = ''get_peer_nodes_resp''"

lemmas p2p_consts = max_reconnect_times_def max_connected_peer_nodes_count_def max_peer_candidate_per_check_def
  max_peer_candidates_count_def min_peer_candidates_count_def max_broadcast_peer_nodes_count_def
  MIN_NORMAL_AVAILABLE_NODE_COUNT_def DISCONNECT_NODE_PER_MINUTES_def

section \<open>Helpers\<close>

definition is_rfc1918 :: "endpoint \<Rightarrow> bool" where
  "is_rfc1918 ep =
     (case fst ep of
        Addr_v4 b0 b1 b2 b3 \<Rightarrow> b0 = 10 \<or> b1 = 168 \<and> b0 = 192 \<or> (16 \<le> b1 \<and> b1 \<le> 31) \<and> b0 = 172
      | Addr_v6 _ \<Rightarrow> False)"

definition net_address_of :: "p2p_env \<Rightarrow> endpoint \<Rightarrow> net_address" where
  "net_address_of e ep = (addr_to_string e (fst ep), snd ep)"

definition hex_char :: "byte \<Rightarrow> char" where
  "hex_char d = ''0123456789ABCDEF'' ! unat d"

definition to_hex :: "string \<Rightarrow> string" where
  "to_hex input =
     concat (map (\<lambda>c. let x = byte_of_char c in [hex_char (drop_bit 4 (x AND 0xF0)), hex_char (x AND 0x0F)]) input)"

definition with_0x :: "string \<Rightarrow> string" where
  "with_0x k = (if take 2 k \<noteq> ''0x'' then ''0x'' @ k else k)"

definition sign :: "p2p_env \<Rightarrow> string \<Rightarrow> string \<Rightarrow> string" where
  "sign e msg privkey = priv_sign e (with_0x privkey) (to_hex msg)"

definition verify_sign :: "p2p_env \<Rightarrow> string \<Rightarrow> string \<Rightarrow> string \<Rightarrow> bool" where
  "verify_sign e signature msg pubkey = pub_verify e signature (to_hex msg) (with_0x pubkey)"

text \<open>\<open>util::split\<close> at a set of delimiters: an empty part is kept unless it is the last.\<close>

fun split_at :: "char list \<Rightarrow> string \<Rightarrow> string \<Rightarrow> string list" where
  "split_at delim acc [] = (if acc \<noteq> [] then [acc] else [])"
| "split_at delim acc (c # cs) = (if c \<in> set delim then acc # split_at delim [] cs else split_at delim (acc @ [c]) cs)"

definition split :: "string \<Rightarrow> string \<Rightarrow> string list" where
  "split str delim = split_at delim [] str"

text \<open>\<open>util::trim\<close>; after the left part a text of spaces is empty and its last character is read nevertheless.\<close>

definition trim :: "string \<Rightarrow> failure + string" where
  "trim str =
     (if str = [] then Inr str
      else let s1 = (if hd str = CHR '' '' then dropWhile (\<lambda>c. c = CHR '' '') str else str)
           in if s1 = [] then Inl Undefined_behaviour
              else Inr (if last s1 = CHR '' '' then rev (dropWhile (\<lambda>c. c = CHR '' '') (rev s1)) else s1))"

definition digit_val :: "char \<Rightarrow> int" where
  "digit_val c = of_char c - 48"

definition is_digit :: "char \<Rightarrow> bool" where
  "is_digit c \<longleftrightarrow> 0 \<le> digit_val c \<and> digit_val c \<le> 9"

text \<open>\<open>atoi\<close> as a mathematical integer: a text out of the range of \<open>int\<close> is the caller's case.\<close>

definition atoi :: "string \<Rightarrow> int" where
  "atoi str =
     (let s1 = dropWhile isspace str;
          (sg, s2) = (case s1 of CHR ''-'' # r \<Rightarrow> (- 1, r) | CHR ''+'' # r \<Rightarrow> (1, r) | _ \<Rightarrow> (1, s1))
      in sg * foldl (\<lambda>v c. 10 * v + digit_val c) 0 (takeWhile is_digit s2))"

section \<open>Candidates\<close>

definition get_peer_candidate :: "endpoint \<Rightarrow> p2p \<Rightarrow> cand_ref option" where
  "get_peer_candidate ep s = find (\<lambda>r. tcp_ep (candidates s r) = ep) (m_peer_candidates s)"

definition is_peer_candidate_exist :: "endpoint \<Rightarrow> p2p \<Rightarrow> bool" where
  "is_peer_candidate_exist ep s \<longleftrightarrow> get_peer_candidate ep s \<noteq> None"

definition upd_cand :: "cand_ref \<Rightarrow> (peer_candidate \<Rightarrow> peer_candidate) \<Rightarrow> p2p \<Rightarrow> p2p" where
  "upd_cand r f s = s\<lparr>candidates := (candidates s)(r := f (candidates s r))\<rparr>"

definition add_peer_candidate ::
  "p2p_env \<Rightarrow> endpoint \<Rightarrow> net_state \<Rightarrow> peer_node_type \<Rightarrow> string \<Rightarrow> p2p \<Rightarrow> bool \<times> p2p" where
  "add_peer_candidate e ep ns ntype node_id s =
     (if length (m_peer_candidates s) \<ge> max_peer_candidates_count then (False, s)
      else case get_peer_candidate ep s of
             Some _ \<Rightarrow> (False, s)
           | None \<Rightarrow>
               (True, s\<lparr>m_peer_candidates := m_peer_candidates s @ [next_cand s],
                        candidates := (candidates s)(next_cand s :=
                          \<lparr>tcp_ep = ep, cand_type = ntype, cand_id = node_id, net_st = ns, reconn_cnt = 0, last_conn_tm = now e, cand_score = 0\<rparr>),
                        next_cand := next_cand s + 1\<rparr>))"

definition remove_peer_candidate :: "endpoint \<Rightarrow> p2p \<Rightarrow> p2p" where
  "remove_peer_candidate ep s =
     (case get_peer_candidate ep s of
        None \<Rightarrow> s
      | Some r \<Rightarrow> s\<lparr>m_peer_candidates := remove1 r (m_peer_candidates s)\<rparr>)"

definition update_peer_candidate_state :: "endpoint \<Rightarrow> net_state \<Rightarrow> p2p \<Rightarrow> bool \<times> p2p" where
  "update_peer_candidate_state ep st s =
     (case get_peer_candidate ep s of None \<Rightarrow> (False, s) | Some r \<Rightarrow> (True, upd_cand r (\<lambda>c. c\<lparr>net_st := st\<rparr>) s))"

definition get_maybe_available_peer_candidates_count :: "p2p \<Rightarrow> nat" where
  "get_maybe_available_peer_candidates_count s =
     length (filter (\<lambda>r. let c = candidates s r
        in net_st c = ns_idle \<or> net_st c = ns_in_use \<or> net_st c = ns_available \<or>
           (net_st c = ns_failed \<and> reconn_cnt c < max_reconnect_times)) (m_peer_candidates s))"

definition get_available_peer_candidates :: "nat \<Rightarrow> p2p \<Rightarrow> cand_ref list" where
  "get_available_peer_candidates count s =
     take count (filter (\<lambda>r. net_st (candidates s r) = ns_available) (m_peer_candidates s))"

definition get_available_peer_candidates_count_by_node_type :: "peer_node_type \<Rightarrow> p2p \<Rightarrow> nat" where
  "get_available_peer_candidates_count_by_node_type t s =
     length (filter (\<lambda>r. net_st (candidates s r) = ns_available \<and> cand_type (candidates s r) = t) (m_peer_candidates s))"

section \<open>Peer nodes\<close>

definition exist_peer_node_ep :: "p2p_env \<Rightarrow> endpoint \<Rightarrow> p2p \<Rightarrow> bool" where
  "exist_peer_node_ep e ep s \<longleftrightarrow>
     net_address_of e ep = (m_listen_ip s, m_listen_port s) \<or>
     (\<exists>(k, n)\<in>set (m_peer_nodes_map s). pn_peer_addr n = net_address_of e ep)"

definition exist_peer_node_id :: "string \<Rightarrow> p2p \<Rightarrow> bool" where
  "exist_peer_node_id node_id s \<longleftrightarrow> node_id \<noteq> [] \<and> smap_lookup (m_peer_nodes_map s) node_id \<noteq> None"

definition get_peer_node :: "string \<Rightarrow> p2p \<Rightarrow> peer_node option" where
  "get_peer_node node_id s = smap_lookup (m_peer_nodes_map s) node_id"

definition remove_peer_node :: "string \<Rightarrow> p2p \<Rightarrow> p2p" where
  "remove_peer_node node_id s = s\<lparr>m_peer_nodes_map := smap_erase node_id (m_peer_nodes_map s)\<rparr>"

definition get_peer_nodes_count_by_socket_type :: "socket_type \<Rightarrow> p2p \<Rightarrow> nat" where
  "get_peer_nodes_count_by_socket_type t s = length (filter (\<lambda>(k, n). get_type (pn_sid n) = t) (m_peer_nodes_map s))"

definition get_i32 :: "tval \<Rightarrow> i32" where
  "get_i32 v = (case v of V_i32 x \<Rightarrow> x | _ \<Rightarrow> 0)"

definition get_i16 :: "tval \<Rightarrow> i16" where
  "get_i16 v = (case v of V_i16 x \<Rightarrow> x | _ \<Rightarrow> 0)"

definition get_list :: "tval \<Rightarrow> tval list" where
  "get_list v = (case v of V_list xs \<Rightarrow> xs | _ \<Rightarrow> [])"

text \<open>The content of a message of a given class (\<open>dynamic_pointer_cast\<close>): its header and its body.\<close>

definition content_as :: "string \<Rightarrow> tval message \<Rightarrow> (base_header \<times> tval) option" where
  "content_as name msg =
     (case message_content msg of Some (Msg_body ty h b) \<Rightarrow> (if ty = name then Some (h, b) else None) | _ \<Rightarrow> None)"

text \<open>\<open>node_id\<close>, \<open>core_version\<close> and \<open>protocol_version\<close> of a login; the first three members of both bodies.\<close>

definition login_info :: "tspec \<Rightarrow> tval \<Rightarrow> string \<times> i32 \<times> i32" where
  "login_info body v =
     (let b = get_member body 0 v
      in (get_string (get_member S_string 0 b), get_i32 (get_member S_i32 1 b), get_i32 (get_member S_i32 2 b)))"

definition login_of :: "tval message \<Rightarrow> (string \<times> i32 \<times> i32) option" where
  "login_of msg =
     (if message_name msg = VER_REQ then map_option (\<lambda>(h, b). login_info ver_req_body b) (content_as VER_REQ msg)
      else if message_name msg = VER_RESP then map_option (\<lambda>(h, b). login_info ver_resp_body b) (content_as VER_RESP msg)
      else None)"

text \<open>The address of a channel; a default-constructed endpoint before it is connected.\<close>

definition endpoint_of :: "endpoint option \<Rightarrow> endpoint" where
  "endpoint_of a = (case a of Some ep \<Rightarrow> ep | None \<Rightarrow> (Addr_v4 0 0 0 0, 0))"

definition add_peer_node :: "p2p_env \<Rightarrow> socket_id \<Rightarrow> tval message \<Rightarrow> p2p \<Rightarrow> bool \<times> p2p" where
  "add_peer_node e sid msg s =
     (case login_of msg of
        None \<Rightarrow> (False, s)
      | Some (peer_node_id, core_version, protocol_version) \<Rightarrow>
          if peer_node_id = [] then (False, s)
          else if local_node_id (henv e) = peer_node_id then (False, s)
          else if smap_lookup (m_peer_nodes_map s) peer_node_id \<noteq> None then (False, s)
          else case get_channel sid (net s) of
                 None \<Rightarrow> (False, s)
               | Some r \<Rightarrow>
                   let ep = endpoint_of (m_remote_addr (channels (net s) r));
                       s1 = s\<lparr>net := set_remote_node_id peer_node_id r (net s)\<rparr>;
                       t = (if message_name msg = VER_RESP
                            then (case get_peer_candidate ep s1 of Some c \<Rightarrow> cand_type (candidates s1 c) | None \<Rightarrow> PEER_NORMAL_NODE)
                            else PEER_NORMAL_NODE);
                       node = \<lparr>pn_type = t, pn_id = peer_node_id, pn_sid = sid, pn_core_version = core_version,
                               pn_protocol_version = protocol_version, pn_connected_time = now e, pn_live_time = 0,
                               pn_status = CONNECTED, pn_peer_addr = net_address_of e ep,
                               pn_local_addr = net_address_of e (endpoint_of (m_local_addr (channels (net s) r)))\<rparr>
                   in (True, s1\<lparr>m_peer_nodes_map := smap_insert peer_node_id node (m_peer_nodes_map s1)\<rparr>))"

section \<open>Connecting\<close>

definition in_net :: "(conn_mgr, 'a) M \<Rightarrow> (p2p, 'a) M" where
  "in_net = mlift net net_update"

definition net_start_connect :: "p2p_env \<Rightarrow> endpoint \<Rightarrow> p2p \<Rightarrow> bool \<times> p2p" where
  "net_start_connect e ep s = (case start_connect (henv e) (hfilter e) ep (net s) of (ok, n) \<Rightarrow> (ok, s\<lparr>net := n\<rparr>))"

definition p2p_start_connect :: "p2p_env \<Rightarrow> endpoint \<Rightarrow> p2p \<Rightarrow> bool \<times> p2p" where
  "p2p_start_connect e ep s = (if exist_peer_node_ep e ep s then (False, s) else net_start_connect e ep s)"

definition p2p_start_acceptor :: "p2p_env \<Rightarrow> bool \<Rightarrow> (p2p, bool) M" where
  "p2p_start_acceptor e listens s =
     (case addr_from_string e (m_listen_ip s) of
        None \<Rightarrow> (Inl (Throw System_error), s)
      | Some a \<Rightarrow>
          (case start_listen (henv e) (hfilter e) listens (a, m_listen_port s) (net s) of (ok, n) \<Rightarrow> (Inr ok, s\<lparr>net := n\<rparr>)))"

text \<open>The two texts of \<open>address:port\<close>, trimmed; \<open>vec[1]\<close> is read without a check.\<close>

definition host_port :: "string list \<Rightarrow> failure + string \<times> string" where
  "host_port vec =
     (case vec of
        a # b # _ \<Rightarrow> (case (trim a, trim b) of (Inr x, Inr y) \<Rightarrow> Inr (x, y) | _ \<Rightarrow> Inl Undefined_behaviour)
      | _ \<Rightarrow> Inl Undefined_behaviour)"

definition parse_endpoint :: "p2p_env \<Rightarrow> string list \<Rightarrow> failure + endpoint" where
  "parse_endpoint e vec =
     (case host_port vec of
        Inl f \<Rightarrow> Inl f
      | Inr (a, b) \<Rightarrow>
          if atoi b < - (2 ^ 31) \<or> 2 ^ 31 \<le> atoi b then Inl Undefined_behaviour
          else case addr_from_string e a of None \<Rightarrow> Inl (Throw System_error) | Some x \<Rightarrow> Inr (x, of_int (atoi b)))"

fun start_connector :: "p2p_env \<Rightarrow> string list \<Rightarrow> (p2p, bool) M" where
  "start_connector e [] s = (Inr True, s)"
| "start_connector e (p # ps) s =
     (case parse_endpoint e (split p '':'') of
        Inl f \<Rightarrow> (Inl f, s)
      | Inr ep \<Rightarrow>
          if exist_peer_node_ep e ep s then start_connector e ps s
          else let (ok, s1) = net_start_connect e ep s
               in if \<not> ok then start_connector e ps s1
                  else start_connector e ps
                         (if is_peer_candidate_exist ep s1 then snd (update_peer_candidate_state ep ns_in_use s1)
                          else snd (add_peer_candidate e ep ns_in_use PEER_NORMAL_NODE [] s1)))"

definition add_dns_seeds :: "p2p_env \<Rightarrow> p2p \<Rightarrow> p2p" where
  "add_dns_seeds e s =
     (case m_dns_seeds s of
        [] \<Rightarrow> s
      | dns_seed # rest \<Rightarrow>
          let s1 = s\<lparr>m_dns_seeds := rest\<rparr>
          in case resolve e dns_seed of
               None \<Rightarrow> s1
             | Some eps \<Rightarrow> fold (\<lambda>ep s. snd (add_peer_candidate e ep ns_idle PEER_SEED_NODE [] s)) eps s1)"

fun ip_seed_loop :: "p2p_env \<Rightarrow> string list \<Rightarrow> (p2p, unit) M" where
  "ip_seed_loop e [] s = (Inr (), s)"
| "ip_seed_loop e (seed # seeds) s =
     (let vec = split seed '':''
      in if length vec \<noteq> 2 then ip_seed_loop e seeds s
         else case parse_endpoint e vec of
                Inl f \<Rightarrow> (Inl f, s)
              | Inr ep \<Rightarrow> ip_seed_loop e seeds (snd (add_peer_candidate e ep ns_idle PEER_SEED_NODE [] s)))"

definition add_ip_seeds :: "p2p_env \<Rightarrow> (p2p, unit) M" where
  "add_ip_seeds e s = ip_seed_loop e (m_ip_seeds s) s"

section \<open>Timers\<close>

text \<open>One turn of the loop over the candidates: whether it tried to connect.\<close>

definition check_candidate :: "p2p_env \<Rightarrow> cand_ref \<Rightarrow> p2p \<Rightarrow> bool \<times> p2p" where
  "check_candidate e r s =
     (let c = candidates s r
      in if net_st c = ns_idle \<or> net_st c = ns_failed \<and> reconn_cnt c < max_reconnect_times
         then if exist_peer_node_id (cand_id c) s \<or> exist_peer_node_ep e (tcp_ep c) s
              then (False, upd_cand r (\<lambda>c. c\<lparr>reconn_cnt := 0\<rparr>) s)
              else if local_node_id (henv e) = cand_id c then (False, upd_cand r (\<lambda>c. c\<lparr>net_st := ns_zombie\<rparr>) s)
              else let s1 = upd_cand r (\<lambda>c. c\<lparr>net_st := ns_in_use, reconn_cnt := reconn_cnt c + 1, last_conn_tm := now e\<rparr>) s;
                       (ok, s2) = net_start_connect e (tcp_ep c) s1
                   in (True, if ok then s2 else upd_cand r (\<lambda>c. c\<lparr>net_st := ns_failed\<rparr>) s2)
         else (False, s))"

fun check_loop :: "p2p_env \<Rightarrow> cand_ref list \<Rightarrow> nat \<Rightarrow> p2p \<Rightarrow> p2p" where
  "check_loop e [] new_conn_cnt s = s"
| "check_loop e (r # rs) new_conn_cnt s =
     (if new_conn_cnt > max_peer_candidate_per_check then s
      else let (tried, s1) = check_candidate e r s
           in check_loop e rs (if tried then new_conn_cnt + 1 else new_conn_cnt) s1)"

definition on_timer_check_peer_candidates :: "p2p_env \<Rightarrow> (p2p, unit) M" where
  "on_timer_check_peer_candidates e s =
     (let s1 = s\<lparr>m_peer_candidates :=
                 filter (\<lambda>r. \<not> (net_st (candidates s r) = ns_failed \<and> reconn_cnt (candidates s r) \<ge> max_reconnect_times)) (m_peer_candidates s)\<rparr>;
          s2 = (if get_maybe_available_peer_candidates_count s1 < min_peer_candidates_count then add_dns_seeds e s1 else s1)
      in case (if get_maybe_available_peer_candidates_count s2 < min_peer_candidates_count then add_ip_seeds e s2 else (Inr (), s2)) of
           (Inl f, s3) \<Rightarrow> (Inl f, s3)
         | (Inr _, s3) \<Rightarrow> (Inr (), check_loop e (m_peer_candidates s3) 0 s3))"

text \<open>\<open>rnd\<close> is the number \<open>get_rand32\<close> gives.\<close>

definition get_dynamic_disconnect_peer_node :: "p2p_env \<Rightarrow> u32 \<Rightarrow> p2p \<Rightarrow> peer_node option \<times> p2p" where
  "get_dynamic_disconnect_peer_node e rnd s =
     (if m_peer_nodes_map s = [] then (None, s)
      else let ns = map snd (umap_order e (m_peer_nodes_map s))
           in case find (\<lambda>n. pn_type n = PEER_SEED_NODE \<and> get_type (pn_sid n) = CLIENT_SOCKET) ns of
                Some n \<Rightarrow> (Some n, s)
              | None \<Rightarrow>
                  let cs = filter (\<lambda>n. get_type (pn_sid n) = CLIENT_SOCKET) ns
                  in if cs = [] then (None, s)
                     else let i = disconnect_interval s + 1; s1 = s\<lparr>disconnect_interval := i\<rparr>
                          in if i mod DISCONNECT_NODE_PER_MINUTES \<noteq> 0 then (None, s1)
                             else (Some (cs ! (unat rnd mod length cs)), s1))"

definition get_dynamic_connect_peer_candidate :: "u32 \<Rightarrow> p2p \<Rightarrow> cand_ref option" where
  "get_dynamic_connect_peer_candidate rnd s =
     (let free = (\<lambda>t. filter (\<lambda>r. get_peer_node (cand_id (candidates s r)) s = None \<and>
                                 net_st (candidates s r) = ns_available \<and> cand_type (candidates s r) = t) (m_peer_candidates s));
          normal = free PEER_NORMAL_NODE; seed = free PEER_SEED_NODE
      in if normal \<noteq> [] then Some (normal ! (unat rnd mod length normal))
         else if seed \<noteq> [] then Some (seed ! (unat rnd mod length seed))
         else None)"

definition connect_candidate :: "p2p_env \<Rightarrow> cand_ref \<Rightarrow> p2p \<Rightarrow> p2p" where
  "connect_candidate e r s =
     (let (ok, s1) = p2p_start_connect e (tcp_ep (candidates s r)) s
      in upd_cand r (\<lambda>c. c\<lparr>net_st := (if ok then ns_in_use else ns_failed)\<rparr>) s1)"

text \<open>To the end of the list, in state \<open>st\<close>.\<close>

definition requeue :: "endpoint \<Rightarrow> (peer_candidate \<Rightarrow> peer_candidate) \<Rightarrow> cand_ref \<Rightarrow> p2p \<Rightarrow> p2p" where
  "requeue ep f r s =
     (let s1 = remove_peer_candidate ep (upd_cand r f s) in s1\<lparr>m_peer_candidates := m_peer_candidates s1 @ [r]\<rparr>)"

definition on_timer_dyanmic_adjust_network :: "p2p_env \<Rightarrow> u32 \<Rightarrow> u32 \<Rightarrow> (p2p, unit) M" where
  "on_timer_dyanmic_adjust_network e rnd1 rnd2 s =
     (let n = get_peer_nodes_count_by_socket_type CLIENT_SOCKET s
      in if n < max_connected_peer_nodes_count
         then (Inr (), fold (connect_candidate e) (get_available_peer_candidates (max_connected_peer_nodes_count - n) s) s)
         else if get_available_peer_candidates_count_by_node_type PEER_NORMAL_NODE s < MIN_NORMAL_AVAILABLE_NODE_COUNT then (Inr (), s)
         else case get_dynamic_disconnect_peer_node e rnd1 s of
                (None, s1) \<Rightarrow> (Inr (), s1)
              | (Some node, s1) \<Rightarrow>
                  let s2 = remove_peer_node (pn_id node) s1;
                      s3 = s2\<lparr>net := snd (stop_channel (pn_sid node) (net s2))\<rparr>
                  in case get_dynamic_connect_peer_candidate rnd2 s3 of
                       None \<Rightarrow> (Inr (), s3)
                     | Some r \<Rightarrow>
                         (case v4_from_string e (fst (pn_peer_addr node)) of
                            None \<Rightarrow> (Inl (Throw System_error), s3)
                          | Some a \<Rightarrow>
                              let node_ep = (a, snd (pn_peer_addr node));
                                  s4 = (case get_peer_candidate node_ep s3 of
                                          None \<Rightarrow> s3
                                        | Some c \<Rightarrow> requeue node_ep (\<lambda>c. c\<lparr>net_st := ns_available\<rparr>) c s3)
                              in (Inr (), connect_candidate e r s4)))"

section \<open>Messages\<close>

definition login_exten :: "p2p_env \<Rightarrow> string \<Rightarrow> (string, string) smap" where
  "login_exten e n =
     smap_insert ''origin_id'' (local_node_id (henv e))
       (smap_insert ''sign_at'' (now_text e)
         (smap_insert ''sign_algo'' ''ecdsa''
           (smap_insert ''sign'' (sign e (n @ local_node_id (henv e)) (private_key e))
             (smap_insert ''capacity'' (capacity_to_string (local_capacity (henv e))) []))))"

definition address_val :: "string \<Rightarrow> u16 \<Rightarrow> tval" where
  "address_val ip port = V_struct [Some (V_string ip), Some (V_i16 port)]"

definition ver_req_message :: "p2p_env \<Rightarrow> u16 \<Rightarrow> endpoint \<Rightarrow> string \<Rightarrow> tval message" where
  "ver_req_message e listen_port ep n =
     \<lparr>message_name = VER_REQ,
      message_content = Some (Msg_body VER_REQ
        (set_exten_info (login_exten e n) (set_nonce n (set_msg_name VER_REQ (set_magic (net_flag (henv e)) empty_header))))
        (V_struct [Some (V_struct
          [Some (V_string (local_node_id (henv e))), Some (V_i32 CORE_VERSION), Some (V_i32 PROTOCO_VERSION), Some (V_i64 (now e)),
           Some (address_val (public_ip e) listen_port), Some (address_val (addr_to_string e (fst ep)) (snd ep)), Some (V_i64 0)])]))\<rparr>"

definition ver_resp_message :: "p2p_env \<Rightarrow> string \<Rightarrow> tval message" where
  "ver_resp_message e n =
     \<lparr>message_name = VER_RESP,
      message_content = Some (Msg_body VER_RESP
        (set_exten_info (login_exten e n) (set_nonce n (set_msg_name VER_RESP (set_magic (net_flag (henv e)) empty_header))))
        (V_struct [Some (V_struct
          [Some (V_string (local_node_id (henv e))), Some (V_i32 CORE_VERSION), Some (V_i32 PROTOCO_VERSION)])]))\<rparr>"

definition send_ver_req :: "p2p_env \<Rightarrow> endpoint \<Rightarrow> socket_id \<Rightarrow> (p2p, unit) M" where
  "send_ver_req e ep sid s =
     (case create_nonce (scratch e) (uuid e) of
        Inl f \<Rightarrow> (Inl f, s)
      | Inr n \<Rightarrow> mbind (in_net (send_message sid (ver_req_message e (m_listen_port s) ep n))) (\<lambda>_. mret ()) s)"

definition send_ver_resp :: "p2p_env \<Rightarrow> socket_id \<Rightarrow> (p2p, unit) M" where
  "send_ver_resp e sid s =
     (case create_nonce (scratch e) (uuid e) of
        Inl f \<Rightarrow> (Inl f, s)
      | Inr n \<Rightarrow> mbind (in_net (send_message sid (ver_resp_message e n))) (\<lambda>_. mret ()) s)"

text \<open>\<open>exten_info["sign"]\<close>: an entry that is missing is empty.\<close>

definition signature_of :: "base_header \<Rightarrow> string" where
  "signature_of h = (case smap_lookup (exten_info h) ''sign'' of Some x \<Rightarrow> x | None \<Rightarrow> [])"

definition stop_net_channel :: "socket_id \<Rightarrow> p2p \<Rightarrow> p2p" where
  "stop_net_channel sid s = s\<lparr>net := snd (stop_channel sid (net s))\<rparr>"

definition save_capacity :: "base_header \<Rightarrow> socket_id \<Rightarrow> p2p \<Rightarrow> p2p" where
  "save_capacity h sid s =
     (case smap_lookup (exten_info h) ''capacity'' of
        None \<Rightarrow> s
      | Some c \<Rightarrow> s\<lparr>net := set_proto_capacity sid c (net s)\<rparr>)"

definition on_ver_req :: "p2p_env \<Rightarrow> socket_id \<Rightarrow> tval message \<Rightarrow> (p2p, unit) M" where
  "on_ver_req e sid msg s =
     (case content_as VER_REQ msg of
        None \<Rightarrow> (Inr (), s)
      | Some (h, b) \<Rightarrow>
          (case check_id (scratch e) (nonce h) of
             Inl f \<Rightarrow> (Inl f, s)
           | Inr False \<Rightarrow> (Inr (), s)
           | Inr True \<Rightarrow>
               let (ok, s1) = add_peer_node e sid msg s
               in if \<not> ok then (Inr (), stop_net_channel sid s1)
                  else let s2 = save_capacity h sid s1; node_id = fst (login_info ver_req_body b)
                       in if \<not> verify_sign e (signature_of h) (nonce h @ node_id) node_id then (Inr (), s2)
                          else send_ver_resp e sid s2))"

section \<open>Peer exchange\<close>

text \<open>\<open>service_list\<close> is filled without being marked as set, so it is not part of what is sent.\<close>

definition peer_info :: "string \<Rightarrow> i32 \<Rightarrow> i32 \<Rightarrow> i64 \<Rightarrow> net_address \<Rightarrow> tval" where
  "peer_info node_id core_version protocol_version live addr =
     V_struct [Some (V_string node_id), Some (V_i32 core_version), Some (V_i32 protocol_version), Some (V_i32 (ucast live)),
               Some (address_val (fst addr) (snd addr)), None]"

definition assign_peer_info :: "peer_node \<Rightarrow> tval" where
  "assign_peer_info n = peer_info (pn_id n) (pn_core_version n) (pn_protocol_version n) (pn_live_time n) (pn_peer_addr n)"

definition candidate_info :: "p2p_env \<Rightarrow> peer_candidate \<Rightarrow> tval" where
  "candidate_info e c = peer_info (cand_id c) 0 0 (last_conn_tm c) (net_address_of e (tcp_ep c))"

definition peers_message :: "p2p_env \<Rightarrow> string \<Rightarrow> tval list \<Rightarrow> tval message" where
  "peers_message e n infos =
     \<lparr>message_name = P2P_GET_PEER_NODES_RESP,
      message_content = Some (Msg_body P2P_GET_PEER_NODES_RESP
        (set_nonce n (set_msg_name P2P_GET_PEER_NODES_RESP (set_magic (net_flag (henv e)) empty_header)))
        (V_struct [Some (V_struct [Some (V_list infos)])]))\<rparr>"

text \<open>The loop that takes at most \<open>n\<close> elements out of a list: what stays and what was taken.\<close>

fun pick :: "nat \<Rightarrow> ('a \<Rightarrow> bool) \<Rightarrow> 'a list \<Rightarrow> 'a list \<times> 'a list" where
  "pick n P [] = ([], [])"
| "pick n P (x # xs) =
     (if n = 0 then (x # xs, [])
      else if P x then (let (keep, taken) = pick (n - 1) P xs in (keep, x # taken))
      else (let (keep, taken) = pick n P xs in (x # keep, taken)))"

definition broadcast_peer_nodes :: "p2p_env \<Rightarrow> peer_node option \<Rightarrow> (p2p, unit) M" where
  "broadcast_peer_nodes e node s =
     (case create_nonce (scratch e) (uuid e) of
        Inl f \<Rightarrow> (Inl f, s)
      | Inr n \<Rightarrow>
          (case node of
             Some nd \<Rightarrow> mbind (in_net (send_message (pn_sid nd) (peers_message e n [assign_peer_info nd]))) (\<lambda>_. mret ()) s
           | None \<Rightarrow>
               let nodes = take max_broadcast_peer_nodes_count
                     (filter (\<lambda>nd. \<not> (get_type (pn_sid nd) = SERVER_SOCKET \<or> pn_type nd = PEER_SEED_NODE))
                       (map snd (umap_order e (m_peer_nodes_map s))));
                   (keep, taken) = pick (100 - length nodes)
                     (\<lambda>r. net_st (candidates s r) = ns_available \<and> cand_type (candidates s r) = PEER_NORMAL_NODE) (m_peer_candidates s);
                   infos = map assign_peer_info nodes @ map (\<lambda>r. candidate_info e (candidates s r)) taken;
                   s1 = s\<lparr>m_peer_candidates := keep @ taken\<rparr>
               in if infos = [] then (Inr (), s1)
                  else mbind (in_net (broadcast_message (peers_message e n infos) (Socket_id SERVER_SOCKET 0))) (\<lambda>_. mret ()) s1))"

definition on_timer_peer_info_exchange :: "p2p_env \<Rightarrow> (p2p, unit) M" where
  "on_timer_peer_info_exchange e = broadcast_peer_nodes e None"

definition advertise_local :: "p2p_env \<Rightarrow> endpoint \<Rightarrow> socket_id \<Rightarrow> (p2p, unit) M" where
  "advertise_local e ep sid s =
     (if is_rfc1918 ep then (Inr (), s)
      else broadcast_peer_nodes e
             (Some \<lparr>pn_type = PEER_NORMAL_NODE, pn_id = local_node_id (henv e), pn_sid = sid, pn_core_version = 0, pn_protocol_version = 0,
                    pn_connected_time = 0, pn_live_time = now e, pn_status = DISCONNECTED,
                    pn_peer_addr = net_address_of e (fst ep, m_listen_port s), pn_local_addr = ([], 0)\<rparr>) s)"

definition on_ver_resp :: "p2p_env \<Rightarrow> socket_id \<Rightarrow> tval message \<Rightarrow> (p2p, unit) M" where
  "on_ver_resp e sid msg s =
     (case content_as VER_RESP msg of
        None \<Rightarrow> (Inr (), s)
      | Some (h, b) \<Rightarrow>
          (case check_id (scratch e) (nonce h) of
             Inl f \<Rightarrow> (Inl f, s)
           | Inr False \<Rightarrow> (Inr (), s)
           | Inr True \<Rightarrow>
               let node_id = fst (login_info ver_resp_body b)
               in if \<not> verify_sign e (signature_of h) (nonce h @ node_id) node_id then (Inr (), s)
                  else case get_channel sid (net s) of
                         None \<Rightarrow> (Inr (), s)
                       | Some r \<Rightarrow>
                           let cand = get_peer_candidate (endpoint_of (m_remote_addr (channels (net s) r))) s;
                               on_cand = (\<lambda>f s. case cand of Some c \<Rightarrow> upd_cand c f s | None \<Rightarrow> s);
                               s1 = on_cand (\<lambda>c. c\<lparr>cand_id := node_id\<rparr>) s
                           in if get_peer_nodes_count_by_socket_type CLIENT_SOCKET s1 \<ge> max_connected_peer_nodes_count
                              then (Inr (), stop_net_channel sid (on_cand (\<lambda>c. c\<lparr>net_st := ns_available\<rparr>) s1))
                              else let (ok, s2) = add_peer_node e sid msg s1
                                   in if \<not> ok then (Inr (), stop_net_channel sid s2)
                                      else advertise_local e (endpoint_of (m_local_addr (channels (net s) r))) sid
                                             (save_capacity h sid (on_cand (\<lambda>c. c\<lparr>reconn_cnt := 0\<rparr>) s2))))"

definition info_endpoint :: "p2p_env \<Rightarrow> tval \<Rightarrow> endpoint option" where
  "info_endpoint e info =
     (let addr = get_member network_address 4 info
      in case v4_from_string e (get_string (get_member S_string 0 addr)) of
           None \<Rightarrow> None
         | Some a \<Rightarrow> Some (a, get_i16 (get_member S_i16 1 addr)))"

definition info_node_id :: "tval \<Rightarrow> string" where
  "info_node_id info = get_string (get_member S_string 0 info)"

fun peers_loop :: "p2p_env \<Rightarrow> tval list \<Rightarrow> (p2p, unit) M" where
  "peers_loop e [] s = (Inr (), s)"
| "peers_loop e (info # infos) s =
     (case info_endpoint e info of
        None \<Rightarrow> (Inl (Throw System_error), s)
      | Some ep \<Rightarrow>
          if is_rfc1918 ep then peers_loop e infos s
          else case get_peer_candidate ep s of
                 None \<Rightarrow> peers_loop e infos (snd (add_peer_candidate e ep ns_idle PEER_NORMAL_NODE [] s))
               | Some r \<Rightarrow>
                   peers_loop e infos
                     (if cand_id (candidates s r) = [] \<and> info_node_id info \<noteq> []
                      then upd_cand r (\<lambda>c. c\<lparr>cand_id := info_node_id info\<rparr>) s else s))"

definition on_broadcast_peer_nodes :: "p2p_env \<Rightarrow> tval message \<Rightarrow> (p2p, unit) M" where
  "on_broadcast_peer_nodes e msg s =
     (if length (m_peer_candidates s) \<ge> max_peer_candidates_count then (Inr (), s)
      else case content_as P2P_GET_PEER_NODES_RESP msg of
             None \<Rightarrow> (Inr (), s)
           | Some (h, b) \<Rightarrow>
               (case check_id (scratch e) (nonce h) of
                  Inl f \<Rightarrow> (Inl f, s)
                | Inr False \<Rightarrow> (Inr (), s)
                | Inr True \<Rightarrow>
                    (case get_list (get_member (S_list peer_node_info) 0 (get_member get_peer_nodes_resp_body 0 b)) of
                       [info] \<Rightarrow>
                         (case info_endpoint e info of
                            None \<Rightarrow> (Inl (Throw System_error), s)
                          | Some ep \<Rightarrow>
                              if is_rfc1918 ep then (Inr (), s)
                              else let s1 = snd (add_peer_candidate e ep ns_available PEER_NORMAL_NODE (info_node_id info) s)
                                   in (Inr (), case get_peer_candidate ep s1 of
                                                 Some r \<Rightarrow> upd_cand r (\<lambda>c. c\<lparr>cand_id := info_node_id info\<rparr>) s1
                                               | None \<Rightarrow> s1))
                     | infos \<Rightarrow> peers_loop e infos s)))"

section \<open>Notifications\<close>

definition release_net_connector :: "socket_id \<Rightarrow> p2p \<Rightarrow> p2p" where
  "release_net_connector sid s = s\<lparr>net := snd (release_connector sid (net s))\<rparr>"

definition on_client_tcp_connect_notify :: "p2p_env \<Rightarrow> socket_id \<Rightarrow> endpoint \<Rightarrow> connect_status \<Rightarrow> (p2p, unit) M" where
  "on_client_tcp_connect_notify e sid ep status s =
     (case get_peer_candidate ep s of
        None \<Rightarrow> (Inr (), stop_net_channel sid (release_net_connector sid s))
      | Some r \<Rightarrow>
          mbind (\<lambda>s. if status = CLIENT_CONNECT_SUCCESS then send_ver_req e ep sid s
                     else (Inr (), upd_cand r (\<lambda>c. c\<lparr>net_st := ns_failed\<rparr>) s))
                (\<lambda>_. mmodify (release_net_connector sid)) s)"

definition p2p_on_tcp_channel_error :: "p2p_env \<Rightarrow> socket_id \<Rightarrow> endpoint \<Rightarrow> p2p \<Rightarrow> p2p" where
  "p2p_on_tcp_channel_error e sid ep s =
     (let s1 = (case get_peer_candidate ep s of
                  None \<Rightarrow> s
                | Some r \<Rightarrow>
                    if net_st (candidates s r) \<noteq> ns_zombie \<and> net_st (candidates s r) \<noteq> ns_available
                    then requeue ep (\<lambda>c. c\<lparr>last_conn_tm := now e, net_st := ns_failed\<rparr>) r s
                    else s)
      in case find (\<lambda>(k, n). pn_sid n = sid) (umap_order e (m_peer_nodes_map s1)) of
           None \<Rightarrow> s1
         | Some (k, n) \<Rightarrow> remove_peer_node k s1)"

section \<open>The life of the service\<close>

text \<open>
  The events that reach the service of the node \<open>me\<close>; the environment \<open>e\<close> (clock, random ids, resolver)
  is another one each time. \<open>network\<close> is what the connection manager does by itself.
\<close>

inductive p2p_step :: "string \<Rightarrow> p2p \<Rightarrow> p2p \<Rightarrow> bool" for me :: string where
  acceptor: "local_node_id (henv e) = me \<Longrightarrow> p2p_start_acceptor e listens s = (res, s') \<Longrightarrow> p2p_step me s s'"
| connector: "local_node_id (henv e) = me \<Longrightarrow> start_connector e peers s = (res, s') \<Longrightarrow> p2p_step me s s'"
| check: "local_node_id (henv e) = me \<Longrightarrow> on_timer_check_peer_candidates e s = (res', s') \<Longrightarrow> p2p_step me s s'"
| exchange: "local_node_id (henv e) = me \<Longrightarrow> on_timer_peer_info_exchange e s = (res', s') \<Longrightarrow> p2p_step me s s'"
| adjust: "local_node_id (henv e) = me \<Longrightarrow> on_timer_dyanmic_adjust_network e rnd1 rnd2 s = (res', s') \<Longrightarrow> p2p_step me s s'"
| login: "local_node_id (henv e) = me \<Longrightarrow> on_ver_req e sid msg s = (res', s') \<Longrightarrow> p2p_step me s s'"
| logged_in: "local_node_id (henv e) = me \<Longrightarrow> on_ver_resp e sid msg s = (res', s') \<Longrightarrow> p2p_step me s s'"
| peers: "local_node_id (henv e) = me \<Longrightarrow> on_broadcast_peer_nodes e msg s = (res', s') \<Longrightarrow> p2p_step me s s'"
| connected: "local_node_id (henv e) = me \<Longrightarrow> on_client_tcp_connect_notify e sid ep status s = (res', s') \<Longrightarrow> p2p_step me s s'"
| failed: "local_node_id (henv e) = me \<Longrightarrow> p2p_step me s (p2p_on_tcp_channel_error e sid ep s)"
| network: "p2p_step me s (s\<lparr>net := n\<rparr>)"

text \<open>A service with an empty candidate table.\<close>

inductive p2p_reach :: "string \<Rightarrow> p2p \<Rightarrow> bool" for me :: string where
  init: "m_peer_candidates s = [] \<Longrightarrow> m_peer_nodes_map s = [] \<Longrightarrow> p2p_reach me s"
| step: "p2p_reach me s \<Longrightarrow> p2p_step me s s' \<Longrightarrow> p2p_reach me s'"

section \<open>Invariant of the candidates and the peer nodes\<close>

definition cands_ok :: "p2p \<Rightarrow> bool" where
  "cands_ok s \<longleftrightarrow>
     distinct (m_peer_candidates s) \<and> (\<forall>r\<in>set (m_peer_candidates s). r < next_cand s) \<and>
     inj_on (\<lambda>r. tcp_ep (candidates s r)) (set (m_peer_candidates s)) \<and>
     length (m_peer_candidates s) \<le> max_peer_candidates_count"

definition nodes_ok :: "string \<Rightarrow> p2p \<Rightarrow> bool" where
  "nodes_ok me s \<longleftrightarrow>
     smap_wf (m_peer_nodes_map s) \<and> (\<forall>(k, n)\<in>set (m_peer_nodes_map s). pn_id n = k \<and> k \<noteq> [] \<and> k \<noteq> me)"

definition p2p_inv :: "string \<Rightarrow> p2p \<Rightarrow> bool" where
  "p2p_inv me s \<longleftrightarrow> cands_ok s \<and> nodes_ok me s"

text \<open>What adds neither a candidate nor a node and changes no address keeps the invariant.\<close>

definition calm :: "p2p \<Rightarrow> p2p \<Rightarrow> bool" where
  "calm s s' \<longleftrightarrow>
     set (m_peer_candidates s') \<subseteq> set (m_peer_candidates s) \<and> length (m_peer_candidates s') \<le> length (m_peer_candidates s) \<and>
     (distinct (m_peer_candidates s) \<longrightarrow> distinct (m_peer_candidates s')) \<and> next_cand s' = next_cand s \<and>
     (\<forall>r. tcp_ep (candidates s' r) = tcp_ep (candidates s r)) \<and>
     (\<exists>P. m_peer_nodes_map s' = filter P (m_peer_nodes_map s))"

lemma calm_refl [simp]: "calm s s"
  by (auto simp: calm_def intro!: exI [of _ "\<lambda>_. True"])

lemma calm_trans [trans]: "calm s s' \<Longrightarrow> calm s' s'' \<Longrightarrow> calm s s''"
  unfolding calm_def by (elim conjE exE) (intro conjI, auto)

lemma calm_inv: "calm s s' \<Longrightarrow> p2p_inv me s \<Longrightarrow> p2p_inv me s'"
  unfolding calm_def p2p_inv_def cands_ok_def nodes_ok_def by (auto intro: inj_on_subset)

lemma calm_net [simp]: "calm s (s\<lparr>net := n\<rparr>)"
  by (auto simp: calm_def intro!: exI [of _ "\<lambda>_. True"])

lemma calm_upd_cand: "(\<And>c. tcp_ep (f c) = tcp_ep c) \<Longrightarrow> calm s (upd_cand r f s)"
  by (auto simp: calm_def upd_cand_def intro!: exI [of _ "\<lambda>_. True"])

lemma calm_remove_node: "calm s (remove_peer_node k s)"
  by (auto simp: calm_def remove_peer_node_def smap_erase_def)

lemma get_candidate_some:
  "get_peer_candidate ep s = Some r \<Longrightarrow> r \<in> set (m_peer_candidates s) \<and> tcp_ep (candidates s r) = ep"
  unfolding get_peer_candidate_def by (auto simp: find_Some_iff)

lemma get_candidate_none: "get_peer_candidate ep s = None \<longleftrightarrow> ep \<notin> (\<lambda>r. tcp_ep (candidates s r)) ` set (m_peer_candidates s)"
  unfolding get_peer_candidate_def by (auto simp: find_None_iff)

lemma get_candidate_upd:
  assumes f: "\<And>c. tcp_ep (f c) = tcp_ep c"
  shows "get_peer_candidate ep (upd_cand r f s) = get_peer_candidate ep s"
proof -
  have "tcp_ep (candidates (upd_cand r f s) x) = tcp_ep (candidates s x)" for x by (simp add: upd_cand_def f)
  then show ?thesis by (simp add: get_peer_candidate_def) (simp add: upd_cand_def)
qed

lemma calm_requeue:
  assumes g: "get_peer_candidate ep s = Some r" and f: "\<And>c. tcp_ep (f c) = tcp_ep c"
  shows "calm s (requeue ep f r s)"
proof -
  let ?xs = "m_peer_candidates s"
  have r: "requeue ep f r s = (upd_cand r f s)\<lparr>m_peer_candidates := remove1 r ?xs @ [r]\<rparr>"
    using g by (simp add: requeue_def remove_peer_candidate_def get_candidate_upd [OF f]) (simp add: upd_cand_def)
  have "r \<in> set ?xs" using get_candidate_some [OF g] by simp
  then have "set (remove1 r ?xs @ [r]) \<subseteq> set ?xs" "length (remove1 r ?xs @ [r]) \<le> length ?xs"
    "distinct ?xs \<longrightarrow> distinct (remove1 r ?xs @ [r])"
    using set_remove1_subset [of r ?xs] length_pos_if_in_set [of r ?xs] by (auto simp: length_remove1)
  with calm_upd_cand [of f s r, OF f] show ?thesis unfolding r calm_def by (simp add: upd_cand_def)
qed

section \<open>Every event keeps it\<close>

lemma calm_in_net: "in_net m s = (res, s') \<Longrightarrow> calm s s'"
  by (auto simp: in_net_def mlift_def split: prod.splits)

lemma calm_mbind_ret: "mbind m (\<lambda>_. mret ()) s = (res, s') \<Longrightarrow> (\<And>x t. m s = (x, t) \<Longrightarrow> calm s t) \<Longrightarrow> calm s s'"
  by (auto simp: mbind_def mret_run split: prod.splits sum.splits)

lemma calm_send:
  assumes "mbind (in_net m) (\<lambda>_. mret ()) s = (res, s')"
  shows "calm s s'"
  using assms by (rule calm_mbind_ret) (rule calm_in_net)

lemma calm_simple [simp]:
  "calm s (stop_net_channel sid s)" "calm s (save_capacity h sid s)" "calm s (release_net_connector sid s)"
  "calm s (snd (net_start_connect e ep s))" "calm s (snd (p2p_start_connect e ep s))"
  by (simp_all add: stop_net_channel_def save_capacity_def release_net_connector_def net_start_connect_def p2p_start_connect_def
      split: option.splits prod.splits)

lemma calm_send_ver_req: "send_ver_req e ep sid s = (res, s') \<Longrightarrow> calm s s'"
  by (auto simp: send_ver_req_def split: sum.splits dest: calm_send)

lemma calm_send_ver_resp: "send_ver_resp e sid s = (res, s') \<Longrightarrow> calm s s'"
  by (auto simp: send_ver_resp_def split: sum.splits dest: calm_send)

lemma add_candidate_inv:
  assumes "p2p_inv me s"
  shows "p2p_inv me (snd (add_peer_candidate e ep ns t i s))"
proof (cases "length (m_peer_candidates s) \<ge> max_peer_candidates_count \<or> get_peer_candidate ep s \<noteq> None")
  case True
  with assms show ?thesis by (auto simp: add_peer_candidate_def)
next
  case False
  let ?s = "snd (add_peer_candidate e ep ns t i s)" and ?xs = "m_peer_candidates s"
  have n: "next_cand s \<notin> set ?xs" using assms unfolding p2p_inv_def cands_ok_def by blast
  have s: "m_peer_candidates ?s = ?xs @ [next_cand s]" "next_cand ?s = next_cand s + 1" "m_peer_nodes_map ?s = m_peer_nodes_map s"
    "tcp_ep (candidates ?s (next_cand s)) = ep" "\<And>r. r \<noteq> next_cand s \<Longrightarrow> candidates ?s r = candidates s r"
    using False by (auto simp: add_peer_candidate_def)
  have same: "(\<lambda>r. tcp_ep (candidates ?s r)) ` set ?xs = (\<lambda>r. tcp_ep (candidates s r)) ` set ?xs"
    using n by (intro image_cong) (simp, metis s(5))
  have inj: "inj_on (\<lambda>r. tcp_ep (candidates ?s r)) (set ?xs)"
    using assms n s(5) unfolding p2p_inv_def cands_ok_def by (subst inj_on_cong [where g = "\<lambda>r. tcp_ep (candidates s r)"]) auto
  have "inj_on (\<lambda>r. tcp_ep (candidates ?s r)) (insert (next_cand s) (set ?xs))"
    using False n inj by (simp add: inj_on_insert s(4) same get_candidate_none)
  moreover have "nodes_ok me ?s" using assms by (simp add: p2p_inv_def nodes_ok_def s(3))
  ultimately show ?thesis using assms n False unfolding p2p_inv_def cands_ok_def by (auto simp: s(1,2))
qed

lemma add_node_cases:
  assumes "add_peer_node e sid msg s = (ok, s')"
  shows "(ok = False \<and> s' = s) \<or>
    (ok = True \<and> (\<exists>k cv pv r node. login_of msg = Some (k, cv, pv) \<and> k \<noteq> [] \<and> k \<noteq> local_node_id (henv e) \<and> smap_lookup (m_peer_nodes_map s) k = None \<and>
       get_channel sid (net s) = Some r \<and>
       s' = s\<lparr>net := set_remote_node_id k r (net s), m_peer_nodes_map := smap_insert k node (m_peer_nodes_map s)\<rparr> \<and>
       pn_id node = k \<and> pn_sid node = sid))"
proof (cases "login_of msg")
  case (Some l)
  obtain k cv pv where l: "l = (k, cv, pv)" by (rule prod_cases3)
  show ?thesis
  proof (cases "k = [] \<or> k = local_node_id (henv e) \<or> smap_lookup (m_peer_nodes_map s) k \<noteq> None \<or> get_channel sid (net s) = None")
    case True
    then have "add_peer_node e sid msg s = (False, s)" using Some l
      by (cases "k = []"; cases "k = local_node_id (henv e)"; cases "smap_lookup (m_peer_nodes_map s) k"; simp add: add_peer_node_def)
    with assms show ?thesis by simp
  next
    case False
    then obtain r where r: "get_channel sid (net s) = Some r" by blast
    moreover have "local_node_id (henv e) \<noteq> k" using False by metis
    ultimately have "\<exists>node. add_peer_node e sid msg s =
        (True, s\<lparr>net := set_remote_node_id k r (net s), m_peer_nodes_map := smap_insert k node (m_peer_nodes_map s)\<rparr>) \<and>
        pn_id node = k \<and> pn_sid node = sid"
      using Some l False by (simp add: add_peer_node_def Let_def split del: if_split) (rule exI, rule conjI, rule refl, simp)
    with assms Some l False r show ?thesis by auto
  qed
qed (use assms in \<open>simp add: add_peer_node_def\<close>)

lemma add_node_inv:
  assumes "p2p_inv (local_node_id (henv e)) s" and run: "add_peer_node e sid msg s = (ok, s')"
  shows "p2p_inv (local_node_id (henv e)) s'"
  using add_node_cases [OF run]
proof (elim disjE conjE exE)
  fix k cv pv r node
  assume k: "k \<noteq> []" "k \<noteq> local_node_id (henv e)" "pn_id node = k"
    and s': "s' = s\<lparr>net := set_remote_node_id k r (net s), m_peer_nodes_map := smap_insert k node (m_peer_nodes_map s)\<rparr>"
  have "nodes_ok (local_node_id (henv e)) s'"
    using assms k smap_insert_set [of k node "m_peer_nodes_map s"] by (fastforce simp: p2p_inv_def nodes_ok_def s')
  moreover have "cands_ok s'" using assms by (simp add: p2p_inv_def cands_ok_def s')
  ultimately show ?thesis by (simp add: p2p_inv_def)
qed (use assms in simp)

lemma start_connector_inv: "p2p_inv me s \<Longrightarrow> start_connector e ps s = (res, s') \<Longrightarrow> p2p_inv me s'"
proof (induction e ps s rule: start_connector.induct)
  case (2 e p ps s)
  show ?case
  proof (cases "parse_endpoint e (split p '':'')")
    case (Inl f)
    with 2 show ?thesis by simp
  next
    case (Inr ep)
    obtain ok s1 where c: "net_start_connect e ep s = (ok, s1)" by (rule prod.exhaust)
    have i1: "p2p_inv me s1" using calm_inv [OF calm_simple(4) 2(4), of e ep] c by simp
    let ?s2 = "if is_peer_candidate_exist ep s1 then snd (update_peer_candidate_state ep ns_in_use s1)
               else snd (add_peer_candidate e ep ns_in_use PEER_NORMAL_NODE [] s1)"
    have "p2p_inv me ?s2" using i1 add_candidate_inv
      by (auto simp: update_peer_candidate_state_def intro!: calm_inv [OF calm_upd_cand] split: option.splits)
    with 2 Inr c i1 show ?thesis
      by (cases "exist_peer_node_ep e ep s"; cases ok) (auto simp: Let_def)
  qed
qed simp

lemma fold_inv: "(\<And>x s. I s \<Longrightarrow> I (f x s)) \<Longrightarrow> I s \<Longrightarrow> I (fold f xs s)"
  by (induction xs arbitrary: s) simp_all

lemma add_dns_seeds_inv: "p2p_inv me s \<Longrightarrow> p2p_inv me (add_dns_seeds e s)"
proof -
  assume i: "p2p_inv me s"
  then have "p2p_inv me (s\<lparr>m_dns_seeds := ds\<rparr>)" for ds by (simp add: p2p_inv_def cands_ok_def nodes_ok_def)
  then show ?thesis using i
    by (auto simp: add_dns_seeds_def Let_def split: list.splits option.splits intro!: fold_inv [where I = "p2p_inv me"] add_candidate_inv)
qed

lemma ip_seed_loop_inv: "p2p_inv me s \<Longrightarrow> ip_seed_loop e seeds s = (res, s') \<Longrightarrow> p2p_inv me s'"
  by (induction e seeds s rule: ip_seed_loop.induct)
    (auto simp: Let_def add_candidate_inv split: if_splits sum.splits)

lemma calm_check_candidate:
  assumes "check_candidate e r s = (tried, s')"
  shows "calm s s'"
proof -
  let ?c = "candidates s r"
  let ?s1 = "upd_cand r (\<lambda>c. c\<lparr>net_st := ns_in_use, reconn_cnt := reconn_cnt c + 1, last_conn_tm := now e\<rparr>) s"
  obtain ok s2 where c: "net_start_connect e (tcp_ep ?c) ?s1 = (ok, s2)" by (rule prod.exhaust)
  let ?s3 = "if ok then s2 else upd_cand r (\<lambda>c. c\<lparr>net_st := ns_failed\<rparr>) s2"
  have c1: "calm s ?s1" by (rule calm_upd_cand) simp
  have c2: "calm ?s1 s2" using calm_simple(4) [of ?s1 e "tcp_ep ?c"] c by simp
  have c3: "calm s2 ?s3" by (simp add: calm_upd_cand)
  have "calm s ?s3" by (rule calm_trans [OF c1 calm_trans [OF c2 c3]])
  moreover have "s' \<in> {s, upd_cand r (\<lambda>c. c\<lparr>reconn_cnt := 0\<rparr>) s, upd_cand r (\<lambda>c. c\<lparr>net_st := ns_zombie\<rparr>) s, ?s3}"
    using assms c unfolding check_candidate_def Let_def by (simp split: if_split_asm)
  ultimately show ?thesis using calm_upd_cand [of "\<lambda>c. c\<lparr>reconn_cnt := 0\<rparr>" s r] calm_upd_cand [of "\<lambda>c. c\<lparr>net_st := ns_zombie\<rparr>" s r]
    by auto
qed

lemma calm_check_loop: "calm s (check_loop e rs n s)"
proof (induction rs arbitrary: n s)
  case (Cons r rs)
  obtain tried s1 where c: "check_candidate e r s = (tried, s1)" by (rule prod.exhaust)
  then show ?case using calm_trans [OF calm_check_candidate [OF c] Cons.IH] by (simp add: Let_def)
qed simp

lemma check_inv: "p2p_inv me s \<Longrightarrow> on_timer_check_peer_candidates e s = (res, s') \<Longrightarrow> p2p_inv me s'"
proof -
  assume i: "p2p_inv me s" and run: "on_timer_check_peer_candidates e s = (res, s')"
  let ?s1 = "s\<lparr>m_peer_candidates :=
     filter (\<lambda>r. \<not> (net_st (candidates s r) = ns_failed \<and> reconn_cnt (candidates s r) \<ge> max_reconnect_times)) (m_peer_candidates s)\<rparr>"
  let ?s2 = "if get_maybe_available_peer_candidates_count ?s1 < min_peer_candidates_count then add_dns_seeds e ?s1 else ?s1"
  have "calm s ?s1" by (auto simp: calm_def intro!: exI [of _ "\<lambda>_. True"])
  then have i2: "p2p_inv me ?s2" using calm_inv [OF _ i] add_dns_seeds_inv by simp
  obtain r3 s3 where s3: "(if get_maybe_available_peer_candidates_count ?s2 < min_peer_candidates_count then add_ip_seeds e ?s2 else (Inr (), ?s2)) = (r3, s3)"
    by (rule prod.exhaust)
  then have "p2p_inv me s3" using i2 ip_seed_loop_inv unfolding add_ip_seeds_def by (simp split: if_split_asm)
  moreover have "s' = s3 \<or> s' = check_loop e (m_peer_candidates s3) 0 s3"
    using run s3 unfolding on_timer_check_peer_candidates_def Let_def by (auto split: sum.splits)
  ultimately show ?thesis using calm_inv [OF calm_check_loop] by blast
qed

lemma calm_connect_candidate: "calm s (connect_candidate e r s)"
proof -
  obtain ok s1 where c: "p2p_start_connect e (tcp_ep (candidates s r)) s = (ok, s1)" by (rule prod.exhaust)
  then have c1: "calm s s1" using calm_simple(5) [of s e "tcp_ep (candidates s r)"] by simp
  have "calm s1 (upd_cand r (\<lambda>c. c\<lparr>net_st := (if ok then ns_in_use else ns_failed)\<rparr>) s1)" by (rule calm_upd_cand) simp
  from calm_trans [OF c1 this] show ?thesis unfolding connect_candidate_def c by simp
qed

lemma calm_fold_connect: "calm s (fold (connect_candidate e) rs s)"
  by (rule fold_inv [where I = "calm s"]) (erule calm_trans, rule calm_connect_candidate, rule calm_refl)

lemma calm_disconnect: "get_dynamic_disconnect_peer_node e rnd s = (res, s') \<Longrightarrow> calm s s'"
proof -
  assume run: "get_dynamic_disconnect_peer_node e rnd s = (res, s')"
  have "calm s (s\<lparr>disconnect_interval := i\<rparr>)" for i by (auto simp: calm_def intro!: exI [of _ "\<lambda>_. True"])
  with run show ?thesis unfolding get_dynamic_disconnect_peer_node_def Let_def by (auto split: if_splits option.splits)
qed

lemma calm_adjust:
  assumes "on_timer_dyanmic_adjust_network e rnd1 rnd2 s = (res, s')"
  shows "calm s s'"
proof (cases "get_dynamic_disconnect_peer_node e rnd1 s")
  case (Pair d s1)
  have c1: "calm s s1" by (rule calm_disconnect [OF Pair])
  show ?thesis
  proof (cases d)
    case None
    with Pair c1 assms calm_fold_connect show ?thesis
      unfolding on_timer_dyanmic_adjust_network_def Let_def by (auto split: if_splits)
  next
    case (Some node)
    let ?s2 = "remove_peer_node (pn_id node) s1"
    define s3 where "s3 = ?s2\<lparr>net := snd (stop_channel (pn_sid node) (net ?s2))\<rparr>"
    define s4 where "s4 ep = (case get_peer_candidate ep s3 of None \<Rightarrow> s3 | Some c \<Rightarrow> requeue ep (\<lambda>c. c\<lparr>net_st := ns_available\<rparr>) c s3)" for ep
    have c3: "calm s s3" unfolding s3_def by (rule calm_trans [OF calm_trans [OF c1 calm_remove_node] calm_net])
    have "calm s3 (s4 ep)" for ep unfolding s4_def by (auto split: option.split intro: calm_requeue)
    then have c4: "calm s (connect_candidate e r (s4 ep))" for r ep
      by (rule calm_trans [OF calm_trans [OF c3] calm_connect_candidate])
    have "s' \<in> {s, s3} \<or> (\<exists>rs. s' = fold (connect_candidate e) rs s) \<or> (\<exists>r ep. s' = connect_candidate e r (s4 ep))"
      using assms Pair Some unfolding on_timer_dyanmic_adjust_network_def Let_def
      by (simp only: option.case prod.case s3_def [symmetric] s4_def [symmetric]) (auto split: if_split_asm option.split_asm)
    with c3 c4 calm_fold_connect show ?thesis by auto
  qed
qed

lemma pick_props:
  "pick n P xs = (keep, taken) \<Longrightarrow> set (keep @ taken) = set xs \<and> length (keep @ taken) = length xs \<and>
     (distinct xs \<longrightarrow> distinct (keep @ taken)) \<and> (\<forall>x\<in>set taken. P x) \<and> length taken \<le> n"
proof (induction n P xs arbitrary: keep taken rule: pick.induct)
  case (2 n P x xs)
  show ?case
  proof (cases "n = 0")
    case False
    obtain k1 t1 where "pick (n - 1) P xs = (k1, t1)" by (rule prod.exhaust)
    moreover obtain k2 t2 where "pick n P xs = (k2, t2)" by (rule prod.exhaust)
    ultimately show ?thesis using 2 False by (cases "P x") (fastforce simp: Let_def)+
  qed (use 2 in simp)
qed simp

lemma calm_broadcast:
  assumes "broadcast_peer_nodes e node s = (res, s')"
  shows "calm s s'"
proof (cases "create_nonce (scratch e) (uuid e)")
  case (Inr n)
  show ?thesis
  proof (cases node)
    case (Some nd)
    with assms Inr show ?thesis by (auto simp: broadcast_peer_nodes_def dest: calm_send)
  next
    case None
    let ?nodes = "take max_broadcast_peer_nodes_count
      (filter (\<lambda>nd. \<not> (get_type (pn_sid nd) = SERVER_SOCKET \<or> pn_type nd = PEER_SEED_NODE)) (map snd (umap_order e (m_peer_nodes_map s))))"
    obtain keep taken where k: "pick (100 - length ?nodes)
        (\<lambda>r. net_st (candidates s r) = ns_available \<and> cand_type (candidates s r) = PEER_NORMAL_NODE) (m_peer_candidates s) = (keep, taken)"
      by (rule prod.exhaust)
    have c1: "calm s (s\<lparr>m_peer_candidates := keep @ taken\<rparr>)"
      using pick_props [OF k] by (auto simp: calm_def intro!: exI [of _ "\<lambda>_. True"])
    from assms None Inr k have "s' = s\<lparr>m_peer_candidates := keep @ taken\<rparr> \<or>
      (\<exists>m :: (conn_mgr, bool) M. mbind (in_net m) (\<lambda>_. mret ()) (s\<lparr>m_peer_candidates := keep @ taken\<rparr>) = (res, s'))"
      unfolding broadcast_peer_nodes_def Let_def by (auto split: if_split_asm)
    then show ?thesis using c1 by (auto dest!: calm_send intro: calm_trans [OF c1])
  qed
qed (use assms in \<open>simp add: broadcast_peer_nodes_def\<close>)

lemma send_nodes: "mbind (in_net m) (\<lambda>_. mret ()) s = (res, s') \<Longrightarrow> m_peer_nodes_map s' = m_peer_nodes_map s"
  by (auto simp: in_net_def mlift_def mbind_def mret_run split: prod.splits sum.splits)

lemma broadcast_nodes: "broadcast_peer_nodes e (Some nd) s = (res, s') \<Longrightarrow> m_peer_nodes_map s' = m_peer_nodes_map s"
  by (auto simp: broadcast_peer_nodes_def split: sum.splits dest: send_nodes)

lemma advertise_calm: "advertise_local e ep sid s = (res, s') \<Longrightarrow> calm s s' \<and> m_peer_nodes_map s' = m_peer_nodes_map s"
  by (auto simp: advertise_local_def split: if_split_asm dest: calm_broadcast broadcast_nodes)

lemma simple_nodes [simp]:
  "m_peer_nodes_map (upd_cand r f s) = m_peer_nodes_map s" "m_peer_nodes_map (save_capacity h sid s) = m_peer_nodes_map s"
  "m_peer_nodes_map (stop_net_channel sid s) = m_peer_nodes_map s" "net (upd_cand r f s) = net s"
  by (simp_all add: upd_cand_def save_capacity_def stop_net_channel_def split: option.split)

lemma on_ver_req_inv:
  assumes i: "p2p_inv (local_node_id (henv e)) s" and run: "on_ver_req e sid msg s = (res, s')"
  shows "p2p_inv (local_node_id (henv e)) s'"
proof -
  obtain ok s1 where a: "add_peer_node e sid msg s = (ok, s1)" by (rule prod.exhaust)
  have i1: "p2p_inv (local_node_id (henv e)) s1" by (rule add_node_inv [OF i a])
  have i2: "p2p_inv (local_node_id (henv e)) (save_capacity h sid s1)" for h by (rule calm_inv [OF calm_simple(2) i1])
  have i3: "p2p_inv (local_node_id (henv e)) t" if "send_ver_resp e sid (save_capacity h sid s1) = (x, t)" for h x t
    by (rule calm_inv [OF calm_send_ver_resp [OF that] i2])
  from run a i i2 i3 calm_inv [OF calm_simple(1) i1] show ?thesis
    unfolding on_ver_req_def Let_def by (auto split: option.splits sum.splits bool.splits if_splits)
qed

text \<open>What a login answer does once its signature is checked.\<close>

lemma on_ver_resp_cases:
  assumes run: "on_ver_resp e sid msg s = (res, s')"
  shows "s' = s \<or> (\<exists>h b t. content_as VER_RESP msg = Some (h, b) \<and> check_id (scratch e) (nonce h) = Inr True \<and>
     verify_sign e (signature_of h) (nonce h @ fst (login_info ver_resp_body b)) (fst (login_info ver_resp_body b)) \<and>
     calm s t \<and> m_peer_nodes_map t = m_peer_nodes_map s \<and>
     (s' = stop_net_channel sid t \<or>
      get_peer_nodes_count_by_socket_type CLIENT_SOCKET s < max_connected_peer_nodes_count \<and>
      (\<exists>ok t2. add_peer_node e sid msg t = (ok, t2) \<and> calm t2 s' \<and> m_peer_nodes_map s' = m_peer_nodes_map t2)))"
proof -
  consider "s' = s" | h b r where "content_as VER_RESP msg = Some (h, b)" "check_id (scratch e) (nonce h) = Inr True"
     "verify_sign e (signature_of h) (nonce h @ fst (login_info ver_resp_body b)) (fst (login_info ver_resp_body b))"
     "get_channel sid (net s) = Some r"
    using run unfolding on_ver_resp_def Let_def by (auto split: option.splits sum.splits bool.splits if_splits)
  then show ?thesis
  proof cases
    case 2
    define cand where "cand = get_peer_candidate (endpoint_of (m_remote_addr (channels (net s) r))) s"
    define on_cand where "on_cand f t = (case cand of Some c \<Rightarrow> upd_cand c f t | None \<Rightarrow> t)" for f t
    define s1 where "s1 = on_cand (\<lambda>c. c\<lparr>cand_id := fst (login_info ver_resp_body b)\<rparr>) s"
    have oc: "m_peer_nodes_map (on_cand f t) = m_peer_nodes_map t" "(\<And>c. tcp_ep (f c) = tcp_ep c) \<Longrightarrow> calm t (on_cand f t)" for f t
      by (simp_all add: on_cand_def calm_upd_cand split: option.split)
    have run: "(if get_peer_nodes_count_by_socket_type CLIENT_SOCKET s1 \<ge> max_connected_peer_nodes_count
        then (Inr (), stop_net_channel sid (on_cand (\<lambda>c. c\<lparr>net_st := ns_available\<rparr>) s1))
        else let (ok, s2) = add_peer_node e sid msg s1
             in if \<not> ok then (Inr (), stop_net_channel sid s2)
                else advertise_local e (endpoint_of (m_local_addr (channels (net s) r))) sid
                       (save_capacity h sid (on_cand (\<lambda>c. c\<lparr>reconn_cnt := 0\<rparr>) s2))) = (res, s')"
      using run 2 unfolding on_ver_resp_def Let_def s1_def on_cand_def cand_def by simp
    have c1: "calm s s1" "m_peer_nodes_map s1 = m_peer_nodes_map s" unfolding s1_def by (simp_all add: oc)
    have cnt: "get_peer_nodes_count_by_socket_type CLIENT_SOCKET s1 = get_peer_nodes_count_by_socket_type CLIENT_SOCKET s"
      by (simp add: get_peer_nodes_count_by_socket_type_def c1(2))
    obtain ok s2 where a: "add_peer_node e sid msg s1 = (ok, s2)" by (rule prod.exhaust)
    show ?thesis
    proof (cases "get_peer_nodes_count_by_socket_type CLIENT_SOCKET s \<ge> max_connected_peer_nodes_count")
      case True
      define t where "t = on_cand (\<lambda>c. c\<lparr>net_st := ns_available\<rparr>) s1"
      have "calm s t" "m_peer_nodes_map t = m_peer_nodes_map s" unfolding t_def using oc(2) [of "\<lambda>c. c\<lparr>net_st := ns_available\<rparr>" s1]
        by (simp_all add: oc(1) c1 calm_trans [OF c1(1)])
      moreover have "s' = stop_net_channel sid t" using run True cnt by (simp add: t_def)
      ultimately show ?thesis using 2 by blast
    next
      case False
      let ?t = "save_capacity h sid (on_cand (\<lambda>c. c\<lparr>reconn_cnt := 0\<rparr>) s2)"
      have ct: "calm s2 ?t" using calm_trans [OF oc(2) calm_simple(2)] by simp
      have "calm s2 s' \<and> m_peer_nodes_map s' = m_peer_nodes_map s2"
      proof (cases ok)
        case True
        with run a False cnt have adv: "advertise_local e (endpoint_of (m_local_addr (channels (net s) r))) sid ?t = (res, s')" by simp
        show ?thesis using advertise_calm [OF adv] calm_trans [OF ct] by (simp add: oc(1))
      qed (use run a False cnt in auto)
      with a 2 c1 False show ?thesis by (metis not_le)
    qed
  qed simp
qed

lemma on_ver_resp_inv:
  assumes i: "p2p_inv (local_node_id (henv e)) s" and run: "on_ver_resp e sid msg s = (res, s')"
  shows "p2p_inv (local_node_id (henv e)) s'"
  using on_ver_resp_cases [OF run]
proof (elim disjE exE conjE)
  fix t ok t2
  assume "calm s t" "add_peer_node e sid msg t = (ok, t2)" "calm t2 s'"
  then show ?thesis using calm_inv add_node_inv i by metis
next
  fix t
  assume "calm s t" "s' = stop_net_channel sid t"
  then show ?thesis using calm_inv calm_simple(1) i by metis
qed (use i in simp)

lemma set_id_inv: "p2p_inv me s \<Longrightarrow> p2p_inv me (upd_cand r (\<lambda>c. c\<lparr>cand_id := i\<rparr>) s)"
  by (rule calm_inv [OF calm_upd_cand]) simp

lemma peers_loop_inv: "p2p_inv me s \<Longrightarrow> peers_loop e infos s = (res, s') \<Longrightarrow> p2p_inv me s'"
proof (induction e infos s rule: peers_loop.induct)
  case (2 e info infos s)
  then show ?case by (auto simp: add_candidate_inv set_id_inv split: option.split_asm if_split_asm)
qed simp

lemma on_broadcast_peer_nodes_cases:
  assumes run: "on_broadcast_peer_nodes e msg s = (res, s')"
  shows "s' = s \<or> (\<exists>h b. content_as P2P_GET_PEER_NODES_RESP msg = Some (h, b) \<and> check_id (scratch e) (nonce h) = Inr True \<and>
     (let infos = get_list (get_member (S_list peer_node_info) 0 (get_member get_peer_nodes_resp_body 0 b))
      in peers_loop e infos s = (res, s') \<or>
         (\<exists>info ep. infos = [info] \<and> info_endpoint e info = Some ep \<and> \<not> is_rfc1918 ep \<and>
           (let s1 = snd (add_peer_candidate e ep ns_available PEER_NORMAL_NODE (info_node_id info) s)
            in s' = s1 \<or> (\<exists>r. s' = upd_cand r (\<lambda>c. c\<lparr>cand_id := info_node_id info\<rparr>) s1)))))"
  using run unfolding on_broadcast_peer_nodes_def
  by (auto simp: Let_def simp del: peers_loop.simps split: if_split_asm option.split_asm sum.split_asm bool.split_asm list.split_asm) blast

lemma on_broadcast_peer_nodes_inv:
  assumes i: "p2p_inv me s" and run: "on_broadcast_peer_nodes e msg s = (res, s')"
  shows "p2p_inv me s'"
  using on_broadcast_peer_nodes_cases [OF run] i peers_loop_inv [OF i]
  by (auto simp: Let_def intro: set_id_inv add_candidate_inv)

lemma calm_notify:
  assumes "on_client_tcp_connect_notify e sid ep status s = (res, s')"
  shows "calm s s'"
proof (cases "get_peer_candidate ep s")
  case None
  have "calm s (stop_net_channel sid (release_net_connector sid s))" by (rule calm_trans [OF calm_simple(3) calm_simple(1)])
  with None assms show ?thesis by (simp add: on_client_tcp_connect_notify_def)
next
  case (Some r)
  obtain x t where t: "(if status = CLIENT_CONNECT_SUCCESS then send_ver_req e ep sid s
      else (Inr (), upd_cand r (\<lambda>c. c\<lparr>net_st := ns_failed\<rparr>) s)) = (x, t)" by (rule prod.exhaust)
  then have c: "calm s t" by (auto split: if_split_asm intro: calm_send_ver_req intro!: calm_upd_cand)
  have "s' = t \<or> s' = release_net_connector sid t"
    using assms Some t by (auto simp: on_client_tcp_connect_notify_def mbind_def mmodify_run split: sum.split_asm)
  then show ?thesis using c calm_trans [OF c calm_simple(3)] by auto
qed

lemma calm_channel_error: "calm s (p2p_on_tcp_channel_error e sid ep s)"
proof -
  define s1 where "s1 = (case get_peer_candidate ep s of
      None \<Rightarrow> s
    | Some r \<Rightarrow> if net_st (candidates s r) \<noteq> ns_zombie \<and> net_st (candidates s r) \<noteq> ns_available
                then requeue ep (\<lambda>c. c\<lparr>last_conn_tm := now e, net_st := ns_failed\<rparr>) r s else s)"
  have c: "calm s s1" unfolding s1_def by (auto split: option.split intro: calm_requeue)
  have "p2p_on_tcp_channel_error e sid ep s = s1 \<or> (\<exists>k. p2p_on_tcp_channel_error e sid ep s = remove_peer_node k s1)"
    unfolding p2p_on_tcp_channel_error_def Let_def s1_def [symmetric] by (auto split: option.split)
  then show ?thesis using c calm_trans [OF c calm_remove_node] by auto
qed

lemma p2p_step_inv: "p2p_step me s s' \<Longrightarrow> p2p_inv me s \<Longrightarrow> p2p_inv me s'"
proof (induction rule: p2p_step.induct)
  case (acceptor e listens s res s')
  then have "calm s s'" by (auto simp: p2p_start_acceptor_def split: option.split_asm prod.split_asm)
  then show ?case using acceptor by (blast intro: calm_inv)
next
  case (connector e peers s res s')
  then show ?case by (blast intro: start_connector_inv)
next
  case (check e s res' s')
  then show ?case by (blast intro: check_inv)
next
  case (exchange e s res' s')
  then show ?case by (auto simp: on_timer_peer_info_exchange_def intro: calm_inv calm_broadcast)
next
  case (adjust e rnd1 rnd2 s res' s')
  then show ?case by (blast intro: calm_inv calm_adjust)
next
  case (login e sid msg s res' s')
  then show ?case using on_ver_req_inv by blast
next
  case (logged_in e sid msg s res' s')
  then show ?case using on_ver_resp_inv by blast
next
  case (peers e msg s res' s')
  then show ?case by (blast intro: on_broadcast_peer_nodes_inv)
next
  case (connected e sid ep status s res' s')
  then show ?case by (blast intro: calm_inv calm_notify)
next
  case (failed e s sid ep)
  then show ?case by (blast intro: calm_inv calm_channel_error)
next
  case (network s n)
  then show ?case by (blast intro: calm_inv calm_net)
qed

lemma p2p_reach_inv: "p2p_reach me s \<Longrightarrow> p2p_inv me s"
proof (induction rule: p2p_reach.induct)
  case (init s)
  then show ?case by (simp add: p2p_inv_def cands_ok_def nodes_ok_def smap_wf_def)
next
  case (step s s')
  then show ?case by (blast intro: p2p_step_inv)
qed

section \<open>Logging in\<close>

lemma member_simps [simp]:
  "get_string (V_string x) = x" "get_i32 (V_i32 i) = i" "get_i16 (V_i16 p) = p" "get_list (V_list vs) = vs"
  by (simp_all add: get_string_def get_i32_def get_i16_def get_list_def)

lemma get_channel_simps [simp]:
  "get_channel sid (set_proto_capacity k c m) = get_channel sid m" "get_channel sid (set_remote_node_id i r m) = get_channel sid m"
  by (simp_all add: get_channel_def set_proto_capacity_def set_remote_node_id_def upd_peer_def Let_def split: option.splits)

lemma login_messages:
  "content_as VER_REQ (ver_req_message e port ep n) = Some (set_exten_info (login_exten e n) (set_nonce n (set_msg_name VER_REQ (set_magic (net_flag (henv e)) empty_header))),
     V_struct [Some (V_struct [Some (V_string (local_node_id (henv e))), Some (V_i32 CORE_VERSION), Some (V_i32 PROTOCO_VERSION), Some (V_i64 (now e)),
           Some (address_val (public_ip e) port), Some (address_val (addr_to_string e (fst ep)) (snd ep)), Some (V_i64 0)])])"
  "content_as VER_RESP (ver_resp_message e n) = Some (set_exten_info (login_exten e n) (set_nonce n (set_msg_name VER_RESP (set_magic (net_flag (henv e)) empty_header))),
     V_struct [Some (V_struct [Some (V_string (local_node_id (henv e))), Some (V_i32 CORE_VERSION), Some (V_i32 PROTOCO_VERSION)])])"
  "login_of (ver_req_message e port ep n) = Some (local_node_id (henv e), CORE_VERSION, PROTOCO_VERSION)"
  "login_of (ver_resp_message e n) = Some (local_node_id (henv e), CORE_VERSION, PROTOCO_VERSION)"
  by (simp_all add: content_as_def ver_req_message_def ver_resp_message_def login_of_def login_info_def get_member_def VER_REQ_def VER_RESP_def)

lemma login_signed:
  assumes "\<And>m. pub_verify eb (priv_sign ea (with_0x (private_key ea)) m) m (with_0x (local_node_id (henv ea)))"
  shows "verify_sign eb (signature_of (set_exten_info (login_exten ea n) h)) (n @ local_node_id (henv ea)) (local_node_id (henv ea))"
  using assms by (simp add: signature_of_def login_exten_def set_exten_info_def smap_lookup_def verify_sign_def sign_def)

lemma login_header [simp]:
  "nonce (set_exten_info x (set_nonce n h)) = n" "exten_info (set_exten_info x h) = x"
  by (simp_all add: set_exten_info_def set_nonce_def)

lemma login_exten_capacity: "smap_lookup (login_exten e n) ''capacity'' = Some (capacity_to_string (local_capacity (henv e)))"
  by (simp add: login_exten_def smap_lookup_def)

lemma add_node_ok:
  assumes "login_of msg = Some (k, cv, pv)" "k \<noteq> []" "k \<noteq> local_node_id (henv e)" "smap_lookup (m_peer_nodes_map s) k = None"
    "get_channel sid (net s) = Some r"
  obtains s' nd where "add_peer_node e sid msg s = (True, s')" "smap_lookup (m_peer_nodes_map s') k = Some nd" "pn_id nd = k" "pn_sid nd = sid"
    "pn_core_version nd = cv" "pn_protocol_version nd = pv" "pn_status nd = CONNECTED"
    "get_channel sid (net s') = Some r"
proof -
  have "local_node_id (henv e) \<noteq> k" using assms by metis
  with assms have "\<exists>nd. add_peer_node e sid msg s = (True, s\<lparr>net := set_remote_node_id k r (net s), m_peer_nodes_map := smap_insert k nd (m_peer_nodes_map s)\<rparr>) \<and>
      pn_id nd = k \<and> pn_sid nd = sid \<and> pn_core_version nd = cv \<and> pn_protocol_version nd = pv \<and> pn_status nd = CONNECTED"
    by (simp add: add_peer_node_def Let_def split del: if_split) (rule exI, rule conjI, rule refl, simp)
  then show thesis using that assms(5) by (auto simp: smap_lookup_insert)
qed

text \<open>A node \<open>i\<close> with a signature scheme in which the private key is the id, and a service with one server and one client channel.\<close>

definition sample_p2p_env :: "string \<Rightarrow> p2p_env" where
  "sample_p2p_env i =
     \<lparr>henv = sample_env\<lparr>local_node_id := i\<rparr>, hfilter = new_filter 4 2 2 7, priv_sign = (\<lambda>k m. k @ m), pub_verify = (\<lambda>sg m k. sg = k @ m),
      private_key = i, public_ip = ''9.9.9.9'', addr_to_string = (\<lambda>_. ''1.2.3.4''), addr_from_string = (\<lambda>_. Some (Addr_v4 1 2 3 4)),
      v4_from_string = (\<lambda>_. Some (Addr_v4 1 2 3 4)), resolve = (\<lambda>_. None), umap_order = (\<lambda>m. m),
      uuid = ''01234567-89ab-cdef-0123-456789abcdef'', scratch = replicate 64 0, now = 7, now_text = ''7''\<rparr>"

definition sample_p2p :: p2p where
  "sample_p2p =
     \<lparr>m_listen_ip = ''0.0.0.0'', m_listen_port = 10001, m_dns_seeds = [], m_ip_seeds = [], m_peer_candidates = [],
      candidates = (\<lambda>_. \<lparr>tcp_ep = (Addr_v6 [], 0), cand_type = PEER_NORMAL_NODE, cand_id = [], net_st = ns_idle, reconn_cnt = 0, last_conn_tm = 0, cand_score = 0\<rparr>),
      next_cand = 0, m_peer_nodes_map = [], disconnect_interval = 0, net = sample_mgr\<rparr>"

lemma sample_p2p_simps:
  "length (scratch (sample_p2p_env i)) = 64" "local_node_id (henv (sample_p2p_env i)) = i"
  "pub_verify (sample_p2p_env j) (priv_sign (sample_p2p_env i) (with_0x (private_key (sample_p2p_env i))) m) m (with_0x i)"
  "m_peer_nodes_map sample_p2p = []" "smap_lookup (m_peer_nodes_map sample_p2p) k = None"
  "get_channel (Socket_id CLIENT_SOCKET 2) (net sample_p2p) = Some 2"
  "get_peer_nodes_count_by_socket_type CLIENT_SOCKET sample_p2p < 16"
  "m_peer_candidates sample_p2p = []" "next_cand sample_p2p = 0" "v4_from_string (sample_p2p_env i) x = Some (Addr_v4 1 2 3 4)"
  by (simp_all add: sample_p2p_env_def sample_p2p_def smap_lookup_def get_channel_def sample_mgr_simps get_peer_nodes_count_by_socket_type_def)

lemma sample_nonce: obtains n where "create_nonce (scratch (sample_p2p_env i)) (uuid (sample_p2p_env i)) = Inr n"
  using Base58Check_checks [of "scratch (sample_p2p_env i)" "scratch (sample_p2p_env i)"] that
  by (auto simp: create_nonce_def sample_p2p_simps)

lemma login_answer_adds:
  assumes "length (scratch ea) = 64" "length (scratch eb) = 64" and n: "create_nonce (scratch ea) (uuid ea) = Inr n"
    and scheme: "\<And>m. pub_verify eb (priv_sign ea (with_0x (private_key ea)) m) m (with_0x (local_node_id (henv ea)))"
    and k: "local_node_id (henv ea) \<noteq> []" "local_node_id (henv ea) \<noteq> local_node_id (henv eb)"
    and new: "smap_lookup (m_peer_nodes_map s) (local_node_id (henv ea)) = None" and ch: "get_channel sid (net s) = Some r"
    and cnt: "get_peer_nodes_count_by_socket_type CLIENT_SOCKET s < 16"
  shows "\<exists>nd. smap_lookup (m_peer_nodes_map (snd (on_ver_resp eb sid (ver_resp_message ea n) s))) (local_node_id (henv ea)) = Some nd \<and>
      pn_sid nd = sid \<and> pn_core_version nd = CORE_VERSION \<and> pn_protocol_version nd = PROTOCO_VERSION \<and> pn_status nd = CONNECTED"
proof -
  let ?k = "local_node_id (henv ea)"
  have ck: "check_id (scratch eb) n = Inr True" by (rule nonce_checks [OF assms(1,2) n])
  note sg = login_signed [of eb ea n, OF scheme]
  define cand where "cand = get_peer_candidate (endpoint_of (m_remote_addr (channels (net s) r))) s"
  define on_cand where "on_cand f t = (case cand of Some c \<Rightarrow> upd_cand c f t | None \<Rightarrow> t)" for f t
  define t where "t = on_cand (\<lambda>c. c\<lparr>cand_id := ?k\<rparr>) s"
  have oc: "m_peer_nodes_map (on_cand f u) = m_peer_nodes_map u" "net (on_cand f u) = net u" for f u
    by (simp_all add: on_cand_def split: option.split)
  obtain s1 nd where a: "add_peer_node eb sid (ver_resp_message ea n) t = (True, s1)"
    and nd: "smap_lookup (m_peer_nodes_map s1) ?k = Some nd" "pn_sid nd = sid" "pn_core_version nd = CORE_VERSION"
      "pn_protocol_version nd = PROTOCO_VERSION" "pn_status nd = CONNECTED"
    by (rule add_node_ok [OF login_messages(4) k, of t sid r]) (use new ch that in \<open>auto simp: t_def oc\<close>)
  have "\<not> get_peer_nodes_count_by_socket_type CLIENT_SOCKET t \<ge> max_connected_peer_nodes_count"
    using cnt by (simp add: get_peer_nodes_count_by_socket_type_def t_def oc p2p_consts)
  with ck sg a ch have "on_ver_resp eb sid (ver_resp_message ea n) s =
      advertise_local eb (endpoint_of (m_local_addr (channels (net s) r))) sid
        (save_capacity (set_exten_info (login_exten ea n) (set_nonce n (set_msg_name VER_RESP (set_magic (net_flag (henv ea)) empty_header)))) sid
          (on_cand (\<lambda>c. c\<lparr>reconn_cnt := 0\<rparr>) s1))"
    by (simp add: on_ver_resp_def login_messages login_info_def get_member_def cand_def [symmetric] on_cand_def [symmetric] t_def [symmetric] Let_def)
  then have "m_peer_nodes_map (snd (on_ver_resp eb sid (ver_resp_message ea n) s)) = m_peer_nodes_map s1"
    using advertise_calm by (metis oc(1) prod.collapse simple_nodes(2))
  with nd show ?thesis by simp
qed



text \<open>(C14) A login answer is authenticated: if \<open>on_ver_resp\<close> changes who is a peer at all, the message carries a nonce with a correct
  checksum and a signature of nonce and id that verifies under the id; exactly that id is added, for the channel the
  answer came on, it was not a peer before, and fewer than 16 peers were connected by this node.\<close>

theorem login_answer_authenticated:
  assumes run: "on_ver_resp e sid msg s = (res, s')"
    and ch: "smap_lookup (m_peer_nodes_map s') k \<noteq> smap_lookup (m_peer_nodes_map s) k"
  shows "\<exists>h b nd. content_as VER_RESP msg = Some (h, b) \<and> check_id (scratch e) (nonce h) = Inr True \<and>
     fst (login_info ver_resp_body b) = k \<and> verify_sign e (signature_of h) (nonce h @ k) k \<and>
     k \<noteq> [] \<and> k \<noteq> local_node_id (henv e) \<and> smap_lookup (m_peer_nodes_map s) k = None \<and>
     smap_lookup (m_peer_nodes_map s') k = Some nd \<and> pn_sid nd = sid \<and>
     get_peer_nodes_count_by_socket_type CLIENT_SOCKET s < 16 \<and>
     (\<forall>k'. k' \<noteq> k \<longrightarrow> smap_lookup (m_peer_nodes_map s') k' = smap_lookup (m_peer_nodes_map s) k')"
proof -
  from on_ver_resp_cases [OF run] ch obtain h b t ok t2 where
    c: "content_as VER_RESP msg = Some (h, b)" "check_id (scratch e) (nonce h) = Inr True"
     "verify_sign e (signature_of h) (nonce h @ fst (login_info ver_resp_body b)) (fst (login_info ver_resp_body b))"
    and t: "m_peer_nodes_map t = m_peer_nodes_map s"
    and cnt: "get_peer_nodes_count_by_socket_type CLIENT_SOCKET s < max_connected_peer_nodes_count"
    and a: "add_peer_node e sid msg t = (ok, t2)" and s': "m_peer_nodes_map s' = m_peer_nodes_map t2"
    by (auto simp: simple_nodes)
  from add_node_cases [OF a] ch obtain j cv pv nd where
    j: "login_of msg = Some (j, cv, pv)" "j \<noteq> []" "j \<noteq> local_node_id (henv e)" "smap_lookup (m_peer_nodes_map s) j = None"
      "m_peer_nodes_map s' = smap_insert j nd (m_peer_nodes_map s)" "pn_sid nd = sid"
    by (auto simp: s' t)
  have "j = fst (login_info ver_resp_body b)"
    using j(1) c(1) by (auto simp: login_of_def content_as_def VER_REQ_def VER_RESP_def split: if_split_asm option.split_asm msg_content.split_asm)
  moreover have "k = j" using ch j(5) by (simp add: smap_lookup_insert split: if_split_asm)
  ultimately show ?thesis using c cnt j by (auto simp: smap_lookup_insert p2p_consts)
qed

theorem login_answer_authenticated_witness:
  "\<exists>n h. content_as VER_RESP (ver_resp_message (sample_p2p_env ''a'') n) \<noteq> None \<and> nonce h = n \<and>
     verify_sign (sample_p2p_env ''b'') (signature_of h) (nonce h @ ''a'') ''a'' \<and> smap_lookup (m_peer_nodes_map sample_p2p) ''a'' = None \<and>
     smap_lookup (m_peer_nodes_map (snd (on_ver_resp (sample_p2p_env ''b'') (Socket_id CLIENT_SOCKET 2)
          (ver_resp_message (sample_p2p_env ''a'') n) sample_p2p))) ''a'' \<noteq> None"
proof -
  obtain n where n: "create_nonce (scratch (sample_p2p_env ''a'')) (uuid (sample_p2p_env ''a'')) = Inr n" by (rule sample_nonce)
  have ne: "''a'' \<noteq> []" "''a'' \<noteq> ''b''" by simp_all
  obtain res s' where run: "on_ver_resp (sample_p2p_env ''b'') (Socket_id CLIENT_SOCKET 2) (ver_resp_message (sample_p2p_env ''a'') n) sample_p2p = (res, s')"
    by (rule prod.exhaust)
  have a: "smap_lookup (m_peer_nodes_map s') ''a'' \<noteq> None"
    using login_answer_adds [where ea = "sample_p2p_env ''a''" and eb = "sample_p2p_env ''b''" and s = sample_p2p and sid = "Socket_id CLIENT_SOCKET 2",
      unfolded sample_p2p_simps(2), OF sample_p2p_simps(1,1) n sample_p2p_simps(3) ne sample_p2p_simps(5,6,7)] run by auto
  from login_answer_authenticated [OF run, of "''a''"] a obtain h b where
    "content_as VER_RESP (ver_resp_message (sample_p2p_env ''a'') n) = Some (h, b)" "verify_sign (sample_p2p_env ''b'') (signature_of h) (nonce h @ ''a'') ''a''"
    by (auto simp: sample_p2p_simps(5))
  moreover from this(1) have "nonce h = n" by (auto simp: login_messages)
  ultimately show ?thesis using a run by (intro exI [of _ n] exI [of _ h]) (simp add: sample_p2p_simps(5))
qed

text \<open>(C36) A login request is not: with a signature that does not verify, \<open>on_ver_req\<close> returns without an answer, but the
  sender has already been recorded as a connected peer and its channel stays open.\<close>

theorem unverified_login_recorded:
  assumes c: "content_as VER_REQ msg = Some (h, b)" "message_name msg = VER_REQ" "check_id (scratch e) (nonce h) = Inr True"
    and k: "fst (login_info ver_req_body b) = k" "k \<noteq> []" "k \<noteq> local_node_id (henv e)" "smap_lookup (m_peer_nodes_map s) k = None"
    and ch: "get_channel sid (net s) = Some r" and bad: "\<not> verify_sign e (signature_of h) (nonce h @ k) k"
  shows "\<exists>s' nd. on_ver_req e sid msg s = (Inr (), s') \<and> smap_lookup (m_peer_nodes_map s') k = Some nd \<and>
     pn_sid nd = sid \<and> pn_status nd = CONNECTED \<and> get_channel sid (net s') = Some r"
proof -
  obtain cv pv where l: "login_of msg = Some (k, cv, pv)"
    using c k(1) by (cases "login_info ver_req_body b") (auto simp: login_of_def)
  obtain s1 nd where a: "add_peer_node e sid msg s = (True, s1)" "smap_lookup (m_peer_nodes_map s1) k = Some nd" "pn_sid nd = sid"
      "pn_status nd = CONNECTED" "get_channel sid (net s1) = Some r"
    by (rule add_node_ok [OF l k(2,3,4) ch]) (rule that)
  moreover have "on_ver_req e sid msg s = (Inr (), save_capacity h sid s1)"
    using c bad a(1) by (simp add: on_ver_req_def k(1))
  moreover have "get_channel sid (net (save_capacity h sid s1)) = get_channel sid (net s1)"
    by (simp add: save_capacity_def split: option.split)
  ultimately show ?thesis by (metis simple_nodes(2))
qed

theorem unverified_login_recorded_witness:
  "\<exists>n s' nd. create_nonce (scratch (sample_p2p_env ''a'')) (uuid (sample_p2p_env ''a'')) = Inr n \<and>
     on_ver_req (sample_p2p_env ''b''\<lparr>pub_verify := (\<lambda>_ _ _. False)\<rparr>) (Socket_id CLIENT_SOCKET 2)
       (ver_req_message (sample_p2p_env ''a'') 10001 (Addr_v4 1 2 3 4, 80) n) sample_p2p = (Inr (), s') \<and>
     smap_lookup (m_peer_nodes_map s') ''a'' = Some nd \<and> pn_status nd = CONNECTED \<and> get_channel (Socket_id CLIENT_SOCKET 2) (net s') = Some 2"
proof -
  obtain n where n: "create_nonce (scratch (sample_p2p_env ''a'')) (uuid (sample_p2p_env ''a'')) = Inr n" by (rule sample_nonce)
  let ?e = "sample_p2p_env ''b''\<lparr>pub_verify := (\<lambda>_ _ _. False)\<rparr>"
  let ?msg = "ver_req_message (sample_p2p_env ''a'') 10001 (Addr_v4 1 2 3 4, 80) n"
  obtain h b where c: "content_as VER_REQ ?msg = Some (h, b)" "nonce h = n" "fst (login_info ver_req_body b) = ''a''"
    by (rule that [OF login_messages(1)]) (simp_all add: login_info_def get_member_def sample_p2p_simps)
  have "check_id (scratch ?e) (nonce h) = Inr True"
    using nonce_checks [OF sample_p2p_simps(1) sample_p2p_simps(1) n, of "''b''"] c(2) by simp
  from unverified_login_recorded [OF c(1) _ this c(3) _ _ sample_p2p_simps(5,6)]
  show ?thesis using n by (auto simp: ver_req_message_def sample_p2p_simps verify_sign_def)
qed

section \<open>Candidates that others advertise\<close>

definition grown :: "(peer_candidate \<Rightarrow> bool) \<Rightarrow> p2p \<Rightarrow> p2p \<Rightarrow> bool" where
  "grown Q s s' \<longleftrightarrow>
     next_cand s \<le> next_cand s' \<and> (\<forall>r < next_cand s. tcp_ep (candidates s' r) = tcp_ep (candidates s r) \<and> cand_type (candidates s' r) = cand_type (candidates s r)) \<and>
     (\<forall>r\<in>set (m_peer_candidates s'). r < next_cand s' \<and> (r \<in> set (m_peer_candidates s) \<or> next_cand s \<le> r \<and> Q (candidates s' r)))"

lemma grown_trans:
  assumes Q: "\<And>c c'. tcp_ep c = tcp_ep c' \<Longrightarrow> cand_type c = cand_type c' \<Longrightarrow> Q c = Q c'"
    and g: "grown Q s t" "grown Q t u"
  shows "grown Q s u"
proof -
  have "r < next_cand u \<and> (r \<in> set (m_peer_candidates s) \<or> next_cand s \<le> r \<and> Q (candidates u r))" if "r \<in> set (m_peer_candidates u)" for r
  proof (cases "r \<in> set (m_peer_candidates t)")
    case True
    then have "tcp_ep (candidates u r) = tcp_ep (candidates t r)" "cand_type (candidates u r) = cand_type (candidates t r)"
      using g unfolding grown_def by auto
    then have "Q (candidates u r) = Q (candidates t r)" by (rule Q)
    with True that g show ?thesis unfolding grown_def by auto
  next
    case False
    with that g show ?thesis unfolding grown_def by fastforce
  qed
  moreover have "tcp_ep (candidates u r) = tcp_ep (candidates s r) \<and> cand_type (candidates u r) = cand_type (candidates s r)" if "r < next_cand s" for r
    using g that unfolding grown_def by auto
  ultimately show ?thesis using g unfolding grown_def by auto
qed

lemma grown_upd_id:
  assumes "\<forall>r\<in>set (m_peer_candidates s). r < next_cand s"
  shows "grown Q s (upd_cand r (\<lambda>c. c\<lparr>cand_id := i\<rparr>) s)"
  using assms by (simp add: grown_def upd_cand_def)

lemma grown_add:
  assumes "\<forall>r\<in>set (m_peer_candidates s). r < next_cand s"
    and "\<And>c. tcp_ep c = ep \<Longrightarrow> cand_type c = t \<Longrightarrow> Q c"
  shows "grown Q s (snd (add_peer_candidate e ep ns t i s))"
  using assms by (auto simp: grown_def add_peer_candidate_def less_Suc_eq split: option.split)

definition advertised :: "p2p_env \<Rightarrow> tval list \<Rightarrow> peer_candidate \<Rightarrow> bool" where
  "advertised e infos c \<longleftrightarrow>
     (\<exists>info\<in>set infos. info_endpoint e info = Some (tcp_ep c)) \<and> \<not> is_rfc1918 (tcp_ep c) \<and> cand_type c = PEER_NORMAL_NODE"

lemma advertised_cong: "tcp_ep c = tcp_ep c' \<Longrightarrow> cand_type c = cand_type c' \<Longrightarrow> advertised e infos c = advertised e infos c'"
  by (simp add: advertised_def)

lemma grown_mono: "grown Q s t \<Longrightarrow> (\<And>c. Q c \<Longrightarrow> Q' c) \<Longrightarrow> grown Q' s t"
  unfolding grown_def by blast

lemma peers_loop_grown:
  "\<forall>r\<in>set (m_peer_candidates s). r < next_cand s \<Longrightarrow> peers_loop e infos s = (res, s') \<Longrightarrow> grown (advertised e infos) s s'"
proof (induction infos arbitrary: s)
  case Nil
  then show ?case by (simp add: grown_def)
next
  case (Cons info infos)
  have more: "grown (advertised e (info # infos)) t u" if "grown (advertised e infos) t u" for t u
    by (rule grown_mono [OF that]) (auto simp: advertised_def)
  consider "s' = s" | t where "grown (advertised e (info # infos)) s t" "peers_loop e infos t = (res, s')"
  proof (cases "info_endpoint e info")
    case None
    with Cons.prems that show thesis by simp
  next
    case (Some ep)
    have g: "grown (advertised e (info # infos)) s (upd_cand r (\<lambda>c. c\<lparr>cand_id := i\<rparr>) s)" "grown (advertised e (info # infos)) s s" for r i
      using Cons.prems(1) by (simp_all add: grown_upd_id) (simp add: grown_def)
    have a: "\<not> is_rfc1918 ep \<Longrightarrow> grown (advertised e (info # infos)) s (snd (add_peer_candidate e ep ns_idle PEER_NORMAL_NODE [] s))"
      using Cons.prems(1) Some by (intro grown_add) (auto simp: advertised_def)
    from Cons.prems(2) Some a g that(2) show thesis
      by (auto split: if_split_asm option.split_asm)
  qed
  then show ?case
  proof cases
    case (2 t)
    have "\<forall>r\<in>set (m_peer_candidates t). r < next_cand t" using 2(1) by (simp add: grown_def)
    from grown_trans [OF advertised_cong 2(1) more [OF Cons.IH [OF this 2(2)]]] show ?thesis .
  qed (use Cons.prems in \<open>simp add: grown_def\<close>)
qed

text \<open>A message that advertises one node, handled by a new service.\<close>

lemma sample_gossip:
  assumes "create_nonce (scratch (sample_p2p_env i)) (uuid (sample_p2p_env i)) = Inr n"
  obtains s' where "on_broadcast_peer_nodes (sample_p2p_env ''b'') (peers_message (sample_p2p_env i) n [peer_info ''c'' 0 0 7 (''1.2.3.4'', 80)]) sample_p2p = (Inr (), s')"
    "m_peer_candidates s' = [0]" "tcp_ep (candidates s' 0) = (Addr_v4 1 2 3 4, 80)" "cand_id (candidates s' 0) = ''c''"
proof -
  have ck: "check_id (scratch (sample_p2p_env ''b'')) n = Inr True" by (rule nonce_checks [OF sample_p2p_simps(1,1) assms])
  have "on_broadcast_peer_nodes (sample_p2p_env ''b'') (peers_message (sample_p2p_env i) n [peer_info ''c'' 0 0 7 (''1.2.3.4'', 80)]) sample_p2p =
      (Inr (), sample_p2p\<lparr>m_peer_candidates := [0], next_cand := 1, candidates := (candidates sample_p2p)(0 :=
         \<lparr>tcp_ep = (Addr_v4 1 2 3 4, 80), cand_type = PEER_NORMAL_NODE, cand_id = ''c'', net_st = ns_available, reconn_cnt = 0,
          last_conn_tm = now (sample_p2p_env ''b''), cand_score = 0\<rparr>)\<rparr>)"
    by (simp add: on_broadcast_peer_nodes_def sample_p2p_simps p2p_consts content_as_def peers_message_def ck set_nonce_def get_member_def
        peer_info_def info_endpoint_def address_val_def is_rfc1918_def info_node_id_def add_peer_candidate_def get_peer_candidate_def upd_cand_def)
  then show thesis by (rule that) simp_all
qed

lemma sample_reach: "p2p_reach me sample_p2p"
  by (rule p2p_reach.init) (simp_all add: sample_p2p_simps)

text \<open>(C16) Only public addresses spread: a candidate that \<open>on_broadcast_peer_nodes\<close> adds has an address that the message lists and
  that is no private one (RFC 1918), and is a normal node; there are never more than 64 candidates, and candidates that were
  there keep their address.\<close>

theorem gossip_adds_public_candidates:
  assumes reach: "p2p_reach (local_node_id (henv e)) s" and run: "on_broadcast_peer_nodes e msg s = (res, s')"
    and r: "r \<in> set (m_peer_candidates s')" "r \<notin> set (m_peer_candidates s)"
  shows "length (m_peer_candidates s') \<le> 64 \<and>
     (\<forall>q\<in>set (m_peer_candidates s). tcp_ep (candidates s' q) = tcp_ep (candidates s q)) \<and>
     (\<exists>h b info. content_as P2P_GET_PEER_NODES_RESP msg = Some (h, b) \<and> check_id (scratch e) (nonce h) = Inr True \<and>
        info \<in> set (get_list (get_member (S_list peer_node_info) 0 (get_member get_peer_nodes_resp_body 0 b))) \<and>
        info_endpoint e info = Some (tcp_ep (candidates s' r))) \<and>
     \<not> is_rfc1918 (tcp_ep (candidates s' r)) \<and> cand_type (candidates s' r) = PEER_NORMAL_NODE"
proof -
  have i: "p2p_inv (local_node_id (henv e)) s" by (rule p2p_reach_inv [OF reach])
  then have b: "\<forall>r\<in>set (m_peer_candidates s). r < next_cand s" by (simp add: p2p_inv_def cands_ok_def)
  from on_broadcast_peer_nodes_cases [OF run] r obtain h v infos where
    c: "content_as P2P_GET_PEER_NODES_RESP msg = Some (h, v)" "check_id (scratch e) (nonce h) = Inr True"
      "infos = get_list (get_member (S_list peer_node_info) 0 (get_member get_peer_nodes_resp_body 0 v))"
    and alt: "peers_loop e infos s = (res, s') \<or>
         (\<exists>info ep. infos = [info] \<and> info_endpoint e info = Some ep \<and> \<not> is_rfc1918 ep \<and>
           (let s1 = snd (add_peer_candidate e ep ns_available PEER_NORMAL_NODE (info_node_id info) s)
            in s' = s1 \<or> (\<exists>r. s' = upd_cand r (\<lambda>c. c\<lparr>cand_id := info_node_id info\<rparr>) s1)))"
    unfolding Let_def by blast
  have "grown (advertised e infos) s s'" using alt
  proof (elim disjE exE conjE)
    fix info ep
    assume x: "infos = [info]" "info_endpoint e info = Some ep" "\<not> is_rfc1918 ep"
      and s1: "let s1 = snd (add_peer_candidate e ep ns_available PEER_NORMAL_NODE (info_node_id info) s)
            in s' = s1 \<or> (\<exists>r. s' = upd_cand r (\<lambda>c. c\<lparr>cand_id := info_node_id info\<rparr>) s1)"
    define s1 where "s1 = snd (add_peer_candidate e ep ns_available PEER_NORMAL_NODE (info_node_id info) s)"
    have g: "grown (advertised e infos) s s1" unfolding s1_def using b x by (intro grown_add) (auto simp: advertised_def)
    then have "\<forall>r\<in>set (m_peer_candidates s1). r < next_cand s1" by (simp add: grown_def)
    from grown_trans [OF advertised_cong g grown_upd_id [OF this]] g s1 show ?thesis by (auto simp: s1_def [symmetric] Let_def)
  qed (rule peers_loop_grown [OF b])
  moreover have "length (m_peer_candidates s') \<le> 64"
    using on_broadcast_peer_nodes_inv [OF i run] by (simp add: p2p_inv_def cands_ok_def p2p_consts)
  ultimately show ?thesis using r b c unfolding grown_def advertised_def by blast
qed

theorem gossip_adds_public_candidates_witness:
  "\<exists>n s'. on_broadcast_peer_nodes (sample_p2p_env ''b'') (peers_message (sample_p2p_env ''a'') n [peer_info ''c'' 0 0 7 (''1.2.3.4'', 80)]) sample_p2p = (Inr (), s') \<and>
     m_peer_candidates s' = [0] \<and> \<not> is_rfc1918 (tcp_ep (candidates s' 0)) \<and> cand_type (candidates s' 0) = PEER_NORMAL_NODE"
proof -
  obtain n where n: "create_nonce (scratch (sample_p2p_env ''a'')) (uuid (sample_p2p_env ''a'')) = Inr n" by (rule sample_nonce)
  obtain s' where s': "on_broadcast_peer_nodes (sample_p2p_env ''b'') (peers_message (sample_p2p_env ''a'') n [peer_info ''c'' 0 0 7 (''1.2.3.4'', 80)]) sample_p2p = (Inr (), s')"
    "m_peer_candidates s' = [0]" by (rule sample_gossip [OF n])
  from gossip_adds_public_candidates [OF sample_reach s'(1), of 0] s' show ?thesis by (auto simp: sample_p2p_simps(8))
qed

text \<open>(C15) The tables of the service, at every moment: no two candidates have the same address, there are at most 64 of
  them, and the peer nodes are filed once each under their own id, which is neither empty nor the id of this node.\<close>

theorem peer_tables_invariant:
  assumes "p2p_reach me s"
  shows "distinct (map (\<lambda>r. tcp_ep (candidates s r)) (m_peer_candidates s)) \<and> length (m_peer_candidates s) \<le> 64 \<and>
     distinct (map fst (m_peer_nodes_map s)) \<and> (\<forall>(k, n)\<in>set (m_peer_nodes_map s). pn_id n = k \<and> k \<noteq> [] \<and> k \<noteq> me)"
  using p2p_reach_inv [OF assms]
  by (auto simp: p2p_inv_def cands_ok_def nodes_ok_def smap_wf_def p2p_consts distinct_map strict_sorted_iff)

theorem peer_tables_invariant_witness:
  "\<exists>n s'. on_broadcast_peer_nodes (sample_p2p_env ''b'') (peers_message (sample_p2p_env ''a'') n [peer_info ''c'' 0 0 7 (''1.2.3.4'', 80)]) sample_p2p = (Inr (), s') \<and>
     p2p_reach ''b'' s' \<and> m_peer_candidates s' = [0] \<and> distinct (map (\<lambda>r. tcp_ep (candidates s' r)) (m_peer_candidates s')) \<and>
     distinct (map fst (m_peer_nodes_map s'))"
proof -
  obtain n where n: "create_nonce (scratch (sample_p2p_env ''a'')) (uuid (sample_p2p_env ''a'')) = Inr n" by (rule sample_nonce)
  obtain s' where s': "on_broadcast_peer_nodes (sample_p2p_env ''b'') (peers_message (sample_p2p_env ''a'') n [peer_info ''c'' 0 0 7 (''1.2.3.4'', 80)]) sample_p2p = (Inr (), s')"
    "m_peer_candidates s' = [0]" by (rule sample_gossip [OF n])
  have "p2p_reach ''b'' s'" by (rule p2p_reach.step [OF sample_reach p2p_step.peers [OF _ s'(1)]]) (simp add: sample_p2p_simps)
  with peer_tables_invariant [OF this] s' show ?thesis by blast
qed

section \<open>Connections of one check\<close>

lemma start_connect_connectors: "start_connect h f ep m = (ok, m') \<Longrightarrow> ok \<and> length (m_connectors m') = length (m_connectors m) + 1"
  by (auto simp: start_connect_def Let_def connector_start_def alloc_socket_id_def upd_conn_def make_channel_def async_connect_def
      split: prod.splits)

lemma check_candidate_connectors:
  "check_candidate e r s = (tried, s') \<Longrightarrow>
     length (m_connectors (net s')) = length (m_connectors (net s)) + (if tried then 1 else 0)"
  unfolding check_candidate_def Let_def
  by (auto simp: net_start_connect_def split: if_split_asm prod.split_asm dest!: start_connect_connectors)

lemma check_loop_connectors:
  "n \<le> 17 \<Longrightarrow> length (m_connectors (net (check_loop e rs n s))) + n \<le> length (m_connectors (net s)) + 17"
proof (induction rs arbitrary: n s)
  case (Cons r rs)
  obtain tried s1 where c: "check_candidate e r s = (tried, s1)" by (rule prod.exhaust)
  show ?case
  proof (cases "n > 16")
    case False
    with Cons.IH [of "if tried then n + 1 else n" s1] check_candidate_connectors [OF c] c show ?thesis
      by (simp add: p2p_consts Let_def split: if_split_asm)
  qed (use Cons.prems in \<open>simp add: p2p_consts\<close>)
qed simp

lemma add_candidate_net [simp]: "net (snd (add_peer_candidate e ep ns t i s)) = net s"
  by (simp add: add_peer_candidate_def split: option.split)

lemma seeds_net: "net (add_dns_seeds e s) = net s" "ip_seed_loop e seeds t = (res, t') \<Longrightarrow> net t' = net t"
proof -
  have "net (fold (\<lambda>ep s. snd (add_peer_candidate e ep ns_idle PEER_SEED_NODE [] s)) eps u) = net u" for eps u
    by (rule fold_inv [where I = "\<lambda>t. net t = net u"]) simp_all
  then show "net (add_dns_seeds e s) = net s" by (simp add: add_dns_seeds_def Let_def split: list.split option.split)
  show "ip_seed_loop e seeds t = (res, t') \<Longrightarrow> net t' = net t"
    by (induction e seeds t rule: ip_seed_loop.induct) (auto simp: Let_def split: if_splits sum.splits)
qed

text \<open>One check of the candidates starts at most 17 connections, one more than \<open>max_peer_candidate_per_check\<close>: the loop
  stops only once the count is above the limit.\<close>

theorem check_connects_bounded:
  "length (m_connectors (net (snd (on_timer_check_peer_candidates e s)))) \<le> length (m_connectors (net s)) + 17"
proof -
  let ?s1 = "s\<lparr>m_peer_candidates :=
     filter (\<lambda>r. \<not> (net_st (candidates s r) = ns_failed \<and> reconn_cnt (candidates s r) \<ge> max_reconnect_times)) (m_peer_candidates s)\<rparr>"
  let ?s2 = "if get_maybe_available_peer_candidates_count ?s1 < min_peer_candidates_count then add_dns_seeds e ?s1 else ?s1"
  obtain r3 s3 where s3: "(if get_maybe_available_peer_candidates_count ?s2 < min_peer_candidates_count then add_ip_seeds e ?s2 else (Inr (), ?s2)) = (r3, s3)"
    by (rule prod.exhaust)
  have "net ?s2 = net s" by (simp add: seeds_net)
  moreover have "net s3 = net ?s2" using s3 by (auto simp: add_ip_seeds_def split: if_split_asm dest: seeds_net(2))
  ultimately have n: "net s3 = net s" by (rule trans [rotated])
  have "snd (on_timer_check_peer_candidates e s) \<in> {s3, check_loop e (m_peer_candidates s3) 0 s3}"
    unfolding on_timer_check_peer_candidates_def Let_def s3 by (simp split: sum.split)
  then show ?thesis using check_loop_connectors [of 0 e "m_peer_candidates s3" s3] n by auto
qed


end
