(* ===== verification/Task_Tables.thy ===== *)
theory Task_Tables
  imports Vm_Client P2p_Net_Service
begin

text \<open>
  What the task layer remembers: the tables under \<open>task/detail\<close> (task infos, GPUs, disks and
  snapshots, port forwarding, tasks and sessions of the wallets) with the databases behind them, the
  queue of events, and the shell commands of the port forwarding. A database of \<open>db/\<close> is the map from
  its keys to the structures written under them (\<open>leveldb\<close> keeps them in key order; the encoding of
  the structures is the one of \<open>Thrift_Struct\<close>).
\<close>

section \<open>Helpers\<close>

text \<open>\<open>std::to_string\<close>.\<close>

fun dec_nat :: "nat \<Rightarrow> string" where
  "dec_nat n = (if n < 10 then [char_of (48 + n)] else dec_nat (n div 10) @ [char_of (48 + n mod 10)])"

declare dec_nat.simps [simp del]

definition dec_int :: "int \<Rightarrow> string" where
  "dec_int i = (if i < 0 then CHR ''-'' # dec_nat (nat (- i)) else dec_nat (nat i))"

definition is_digits :: "string \<Rightarrow> bool" where
  "is_digits s \<longleftrightarrow> s \<noteq> [] \<and> (\<forall>c\<in>set s. is_digit c)"

definition rtrim :: "char \<Rightarrow> string \<Rightarrow> string" where
  "rtrim c s = rev (dropWhile (\<lambda>x. x = c) (rev s))"

text \<open>The \<open>split\<close> that returns a vector, for a separator of one character: empty parts are left out.\<close>

definition split_parts :: "string \<Rightarrow> char \<Rightarrow> string list" where
  "split_parts src sep = filter (\<lambda>p. p \<noteq> []) (split_at [sep] [] src)"

text \<open>\<open>util::replace\<close> for an old and a new text of two characters.\<close>

fun replace2 :: "char \<Rightarrow> char \<Rightarrow> string \<Rightarrow> string \<Rightarrow> string" where
  "replace2 a b new (c # d # cs) = (if c = a \<and> d = b then new @ replace2 a b new cs else c # replace2 a b new (d # cs))"
| "replace2 a b new cs = cs"

text \<open>\<open>insert\<close> into a \<open>std::map\<close>: a key that is present keeps its value.\<close>

definition smap_insert_new :: "'k::linorder \<Rightarrow> 'v \<Rightarrow> ('k, 'v) smap \<Rightarrow> ('k, 'v) smap" where
  "smap_insert_new k v m = (if smap_lookup m k = None then smap_insert k v m else m)"

definition smap_update :: "'k::linorder \<Rightarrow> ('v \<Rightarrow> 'v) \<Rightarrow> ('k, 'v) smap \<Rightarrow> ('k, 'v) smap" where
  "smap_update k f m = (case smap_lookup m k of None \<Rightarrow> m | Some v \<Rightarrow> smap_insert k (f v) m)"

definition smap_get :: "('k, ('l, 'v) smap) smap \<Rightarrow> 'k \<Rightarrow> ('l, 'v) smap" where
  "smap_get m k = (case smap_lookup m k of None \<Rightarrow> [] | Some v \<Rightarrow> v)"

lemma smap_lookup_erase [simp]: "smap_lookup (smap_erase k m) k' = (if k' = k then None else smap_lookup m k')"
  by (induction m) (auto simp: smap_lookup_def smap_erase_def)

lemma smap_lookup_update [simp]:
  "smap_lookup (smap_update k f m) k' = (if k' = k then map_option f (smap_lookup m k) else smap_lookup m k')"
  by (simp add: smap_update_def smap_lookup_insert split: option.split)

lemma smap_lookup_insert_new [simp]:
  "smap_lookup (smap_insert_new k v m) k' = (if k' = k \<and> smap_lookup m k = None then Some v else smap_lookup m k')"
  by (auto simp: smap_insert_new_def smap_lookup_insert)

lemma smap_erase_wf [simp]: "smap_wf m \<Longrightarrow> smap_wf (smap_erase k m)"
  unfolding smap_wf_def smap_erase_def sorted_wrt_map by (rule sorted_wrt_filter)

lemma smap_update_wf [simp]: "smap_wf m \<Longrightarrow> smap_wf (smap_update k f m)"
  by (simp add: smap_update_def split: option.split)

lemma smap_in_set: "smap_wf m \<Longrightarrow> (k, v) \<in> set m \<longleftrightarrow> smap_lookup m k = Some v"
  by (simp add: smap_wf_def smap_lookup_def strict_sorted_iff)

lemma smap_keys: "k \<in> fst ` set m \<longleftrightarrow> smap_lookup m k \<noteq> None"
  by (simp add: smap_lookup_def map_of_eq_None_iff)

lemma smap_keys_update [simp]: "map fst (smap_update k f m) = map fst m" if "smap_wf m"
proof -
  have "map fst (smap_insert k v m) = map fst m" if "smap_wf m" "smap_lookup m k \<noteq> None" for v
    using that unfolding smap_wf_def smap_lookup_def
    by (induction k v m rule: smap_insert.induct) (auto split: if_splits, fastforce dest: map_of_SomeD)
  then show ?thesis using that by (simp add: smap_update_def split: option.split)
qed

section \<open>Data\<close>

datatype task_status =
    TS_None | TS_Task_Shutoff | TS_Task_Running | TS_Task_PMSuspend
  | TS_Task_Creating | TS_Task_Starting | TS_Task_BeingShutdown | TS_Task_BeingPoweroff | TS_Task_Restarting | TS_Task_Resetting | TS_Task_Deleting
  | TS_Disk_Resizing | TS_Disk_Adding | TS_Disk_Deleting | TS_Snapshot_Creating
  | TS_Error | TS_CreateTaskError | TS_StartTaskError | TS_ShutdownTaskError | TS_PoweroffTaskError | TS_RestartTaskError | TS_ResetTaskError
  | TS_DeleteTaskError | TS_ResizeDiskError | TS_AddDiskError | TS_DeleteDiskError | TS_CreateSnapshotError

fun task_status_string :: "task_status \<Rightarrow> string" where
  "task_status_string TS_None = ''none''"
| "task_status_string TS_Task_Shutoff = ''closed''"
| "task_status_string TS_Task_Running = ''running''"
| "task_status_string TS_Task_PMSuspend = ''pmsuspend''"
| "task_status_string TS_Task_Creating = ''creating''"
| "task_status_string TS_Task_Starting = ''starting''"
| "task_status_string TS_Task_BeingShutdown = ''being shutdown''"
| "task_status_string TS_Task_BeingPoweroff = ''being poweroff''"
| "task_status_string TS_Task_Restarting = ''restarting''"
| "task_status_string TS_Task_Resetting = ''resetting''"
| "task_status_string TS_Task_Deleting = ''deleting''"
| "task_status_string TS_Disk_Resizing = ''disk resizing''"
| "task_status_string TS_Disk_Adding = ''disk adding''"
| "task_status_string TS_Disk_Deleting = ''disk deleting''"
| "task_status_string TS_Snapshot_Creating = ''snapshot creating''"
| "task_status_string TS_Error = ''error''"
| "task_status_string TS_CreateTaskError = ''create error''"
| "task_status_string TS_StartTaskError = ''start error''"
| "task_status_string TS_ShutdownTaskError = ''shutdown error''"
| "task_status_string TS_PoweroffTaskError = ''poweroff error''"
| "task_status_string TS_RestartTaskError = ''restart error''"
| "task_status_string TS_ResetTaskError = ''reset error''"
| "task_status_string TS_DeleteTaskError = ''delete error''"
| "task_status_string TS_ResizeDiskError = ''resize disk error''"
| "task_status_string TS_AddDiskError = ''add disk error''"
| "task_status_string TS_DeleteDiskError = ''delete disk error''"
| "task_status_string TS_CreateSnapshotError = ''create snapshot error''"

lemma task_status_string_inj: "task_status_string a = task_status_string b \<Longrightarrow> a = b"
  by (cases a; cases b) simp_all

text \<open>The part of a task info that is stored, and the part that lives in memory only.\<close>

record db_task_info =
  ti_task_id :: string
  ti_image_name :: string
  ti_desc :: string
  ti_login_username :: string
  ti_login_password :: string
  ti_ssh_port :: string
  ti_rdp_port :: string
  ti_custom_port :: "string list"
  ti_create_time :: i64
  ti_operation_system :: string
  ti_bios_mode :: string
  ti_multicast :: "string list"
  ti_vda_rootbackfile :: string
  ti_network_name :: string
  ti_public_ip :: string
  ti_nwfilter :: "string list"

record task_info =
  ti_db :: db_task_info
  ti_cpu_sockets :: i32
  ti_cpu_cores :: i32
  ti_cpu_threads :: i32
  ti_mem_size :: i64
  ti_vnc_port :: u16
  ti_vnc_password :: string
  ti_status :: task_status

record gpu_info =
  gpu_id :: string
  gpu_devices :: "string list"

record disk_info =
  disk_name :: string
  disk_virtual_size :: i64
  disk_source_file :: string

datatype snapshot_status = SS_None | SS_Creating | SS_Uploading

record snapshot_item =
  snap_name :: string
  snap_file :: string
  snap_create_time :: i64
  snap_desc :: string

record snapshot_info =
  snaps :: "snapshot_item list"
  snap_status :: "(string, snapshot_status) smap"

record iptable_info =
  ipt_task_id :: string
  ipt_host_ip :: string
  ipt_task_local_ip :: string
  ipt_ssh_port :: string
  ipt_rdp_port :: string
  ipt_custom_port :: "string list"
  ipt_public_ip :: string

record rent_task =
  rt_wallet :: string
  rt_task_ids :: "string list"
  rt_rent_end :: i64

record wallet_session =
  ws_wallet :: string
  ws_session_id :: string
  ws_signers :: "string list"

datatype task_event =
    CreateTaskEvent string string
  | StartTaskEvent string
  | ShutdownTaskEvent string
  | PowerOffTaskEvent string
  | ReStartTaskEvent string
  | ForceRebootTaskEvent string
  | ResetTaskEvent string
  | DeleteTaskEvent string
  | ModifyTaskEvent string
  | ResizeDiskEvent string string i64 string
  | AddDiskEvent string i64 string
  | DeleteDiskEvent string string
  | CreateSnapshotEvent string string string string string

record 'h tm =
  tvm :: "'h vm"
  m_task_infos :: "(string, task_info) smap"
  info_db :: "(string, db_task_info) smap"
  m_running_tasks :: "string list"
  running_db :: "(string, unit) smap"
  m_task_gpus :: "(string, (string, gpu_info) smap) smap"
  m_task_disks :: "(string, (string, disk_info) smap) smap"
  m_task_snapshots :: "(string, snapshot_info) smap"
  snapshot_db :: "(string, snapshot_item list) smap"
  m_task_iptables :: "(string, iptable_info) smap"
  iptable_db :: "(string, iptable_info) smap"
  m_wallet_renttasks :: "(string, rent_task) smap"
  renttask_db :: "(string, rent_task) smap"
  m_wallet_sessionid :: "(string, wallet_session) smap"
  m_sessionid_wallet :: "(string, wallet_session) smap"
  session_db :: "(string, wallet_session) smap"
  m_events :: "task_event list"

section \<open>Task infos\<close>

definition getSSHPort :: "task_info \<Rightarrow> u16" where "getSSHPort t = word_of_int (atoi (ti_ssh_port (ti_db t)))"
definition getRDPPort :: "task_info \<Rightarrow> u16" where "getRDPPort t = word_of_int (atoi (ti_rdp_port (ti_db t)))"

definition getTaskInfo :: "string \<Rightarrow> 'h tm \<Rightarrow> task_info option" where
  "getTaskInfo tid s = smap_lookup (m_task_infos s) tid"

text \<open>A change of the object a pointer of the table refers to.\<close>

definition upd_info :: "string \<Rightarrow> (task_info \<Rightarrow> task_info) \<Rightarrow> 'h tm \<Rightarrow> 'h tm" where
  "upd_info tid f s = s\<lparr>m_task_infos := smap_update tid f (m_task_infos s)\<rparr>"

definition setTaskStatus :: "string \<Rightarrow> task_status \<Rightarrow> 'h tm \<Rightarrow> 'h tm" where
  "setTaskStatus tid st = upd_info tid (\<lambda>t. t\<lparr>ti_status := st\<rparr>)"

text \<open>A deletion of the empty key is not passed on to the database.\<close>

definition db_delete :: "string \<Rightarrow> (string, 'v) smap \<Rightarrow> (string, 'v) smap" where
  "db_delete k db = (if k = [] then db else smap_erase k db)"

definition info_add :: "task_info \<Rightarrow> 'h tm \<Rightarrow> 'h tm" where
  "info_add t s = (let tid = ti_task_id (ti_db t) in
     s\<lparr>m_task_infos := smap_insert tid t (m_task_infos s), info_db := smap_insert tid (ti_db t) (info_db s)\<rparr>)"

definition info_del :: "string \<Rightarrow> 'h tm \<Rightarrow> 'h tm" where
  "info_del tid s = (case getTaskInfo tid s of
     None \<Rightarrow> s
   | Some t \<Rightarrow> s\<lparr>m_task_infos := smap_erase tid (m_task_infos s), info_db := db_delete (ti_task_id (ti_db t)) (info_db s)\<rparr>)"

text \<open>\<open>update\<close> of an info that is in the table writes its stored part.\<close>

definition info_store :: "string \<Rightarrow> 'h tm \<Rightarrow> 'h tm" where
  "info_store tid s = (case getTaskInfo tid s of None \<Rightarrow> s | Some t \<Rightarrow> info_add t s)"

definition update_running_tasks :: "'h tm \<Rightarrow> 'h tm" where
  "update_running_tasks s = (let ids = concat (map (\<lambda>(k, t). if ti_status t = TS_Task_Running then [ti_task_id (ti_db t)] else []) (m_task_infos s)) in
     s\<lparr>m_running_tasks := ids, running_db := foldl (\<lambda>db i. smap_insert i () db) [] ids\<rparr>)"

section \<open>GPUs\<close>

definition getTaskGpus :: "string \<Rightarrow> 'h tm \<Rightarrow> (string, gpu_info) smap" where
  "getTaskGpus tid s = smap_get (m_task_gpus s) tid"

definition gpu_add :: "string \<Rightarrow> gpu_info \<Rightarrow> 'h tm \<Rightarrow> 'h tm" where
  "gpu_add tid g s = s\<lparr>m_task_gpus := smap_insert tid (smap_insert_new (gpu_id g) g (smap_get (m_task_gpus s) tid)) (m_task_gpus s)\<rparr>"

definition gpu_del :: "string \<Rightarrow> 'h tm \<Rightarrow> 'h tm" where
  "gpu_del tid s = s\<lparr>m_task_gpus := smap_erase tid (m_task_gpus s)\<rparr>"

definition gpu_del_one :: "string \<Rightarrow> string \<Rightarrow> 'h tm \<Rightarrow> 'h tm" where
  "gpu_del_one tid g s = s\<lparr>m_task_gpus := smap_update tid (smap_erase g) (m_task_gpus s)\<rparr>"

section \<open>Disks and snapshots\<close>

definition addDiskInfo :: "string \<Rightarrow> disk_info \<Rightarrow> 'h tm \<Rightarrow> 'h tm" where
  "addDiskInfo tid d s = s\<lparr>m_task_disks := smap_insert tid (smap_insert_new (disk_name d) d (smap_get (m_task_disks s) tid)) (m_task_disks s)\<rparr>"

definition listDisks :: "string \<Rightarrow> 'h tm \<Rightarrow> (string, disk_info) smap" where
  "listDisks tid s = smap_get (m_task_disks s) tid"

definition on_host :: "('h \<Rightarrow> 'h) \<Rightarrow> 'h tm \<Rightarrow> 'h tm" where
  "on_host f s = s\<lparr>tvm := (tvm s)\<lparr>host := f (host (tvm s))\<rparr>\<rparr>"

definition delDisks :: "('h, 'z) host_env_scheme \<Rightarrow> string \<Rightarrow> 'h tm \<Rightarrow> 'h tm" where
  "delDisks E tid s =
     (let disks = listDisks tid s
      in on_host (\<lambda>h. foldl (\<lambda>h (_, d). if is_regular_file E h (disk_source_file d) then remove_file E (disk_source_file d) h else h) h disks)
           (s\<lparr>m_task_disks := smap_erase tid (m_task_disks s)\<rparr>))"

definition delSnapshots :: "('h, 'z) host_env_scheme \<Rightarrow> string \<Rightarrow> 'h tm \<Rightarrow> 'h tm" where
  "delSnapshots E tid s = (case smap_lookup (m_task_snapshots s) tid of
     None \<Rightarrow> s
   | Some si \<Rightarrow> on_host (\<lambda>h. foldl (\<lambda>h i. remove_file E (snap_file i) h) h (snaps si))
       (s\<lparr>m_task_snapshots := smap_erase tid (m_task_snapshots s), snapshot_db := db_delete tid (snapshot_db s)\<rparr>))"

definition addSnapshot :: "snapshot_item \<Rightarrow> snapshot_info \<Rightarrow> snapshot_info" where
  "addSnapshot i si = \<lparr>snaps = snaps si @ [i], snap_status = smap_insert_new (snap_name i) SS_None (snap_status si)\<rparr>"

definition setSnapshotStatus :: "string \<Rightarrow> snapshot_status \<Rightarrow> snapshot_info \<Rightarrow> snapshot_info" where
  "setSnapshotStatus n st si = si\<lparr>snap_status := smap_insert n st (snap_status si)\<rparr>"

fun remove_first :: "('a \<Rightarrow> bool) \<Rightarrow> 'a list \<Rightarrow> 'a list" where
  "remove_first p [] = []"
| "remove_first p (x # xs) = (if p x then xs else x # remove_first p xs)"

definition delSnapshot :: "string \<Rightarrow> snapshot_info \<Rightarrow> snapshot_info" where
  "delSnapshot n si = \<lparr>snaps = remove_first (\<lambda>i. snap_name i = n) (snaps si), snap_status = smap_erase n (snap_status si)\<rparr>"

definition getSnapshot :: "string \<Rightarrow> string \<Rightarrow> 'h tm \<Rightarrow> snapshot_item option" where
  "getSnapshot tid n s = (case smap_lookup (m_task_snapshots s) tid of None \<Rightarrow> None | Some si \<Rightarrow> List.find (\<lambda>i. snap_name i = n) (snaps si))"

text \<open>A changed snapshot entry of the table, stored as well.\<close>

definition put_snapshots :: "string \<Rightarrow> snapshot_info \<Rightarrow> 'h tm \<Rightarrow> 'h tm" where
  "put_snapshots tid si s = s\<lparr>m_task_snapshots := smap_insert tid si (m_task_snapshots s), snapshot_db := smap_insert tid (snaps si) (snapshot_db s)\<rparr>"

text \<open>Ending the upload is the image manager's; it changes no table of the tasks.\<close>

definition terminateUploadSnapshot :: "('h, 'z) host_env_scheme \<Rightarrow> string \<Rightarrow> string \<Rightarrow> 'h tm \<Rightarrow> 'h tm" where
  "terminateUploadSnapshot E tid n s = (case smap_lookup (m_task_snapshots s) tid of
     None \<Rightarrow> s
   | Some si \<Rightarrow> (case List.find (\<lambda>i. snap_name i = n) (snaps si) of
        None \<Rightarrow> s
      | Some i \<Rightarrow> put_snapshots tid (delSnapshot n si)
          (on_host (\<lambda>h. if file_exists E h (snap_file i) then remove_file E (snap_file i) h else h) s)))"

section \<open>Port forwarding\<close>

definition getIptableInfo :: "string \<Rightarrow> 'h tm \<Rightarrow> iptable_info option" where
  "getIptableInfo tid s = smap_lookup (m_task_iptables s) tid"

definition iptable_add :: "iptable_info \<Rightarrow> 'h tm \<Rightarrow> 'h tm" where
  "iptable_add i s = s\<lparr>m_task_iptables := smap_insert (ipt_task_id i) i (m_task_iptables s), iptable_db := smap_insert (ipt_task_id i) i (iptable_db s)\<rparr>"

definition iptable_del :: "string \<Rightarrow> 'h tm \<Rightarrow> 'h tm" where
  "iptable_del tid s = (case getIptableInfo tid s of
     None \<Rightarrow> s
   | Some i \<Rightarrow> s\<lparr>m_task_iptables := smap_erase tid (m_task_iptables s), iptable_db := db_delete (ipt_task_id i) (iptable_db s)\<rparr>)"

section \<open>Tasks of a wallet\<close>

definition getWalletRentTask :: "string \<Rightarrow> 'h tm \<Rightarrow> rent_task option" where
  "getWalletRentTask w s = smap_lookup (m_wallet_renttasks s) w"

definition put_rent :: "string \<Rightarrow> rent_task \<Rightarrow> 'h tm \<Rightarrow> 'h tm" where
  "put_rent w r s = s\<lparr>m_wallet_renttasks := smap_insert w r (m_wallet_renttasks s), renttask_db := smap_insert (rt_wallet r) r (renttask_db s)\<rparr>"

definition rent_add :: "string \<Rightarrow> string \<Rightarrow> i64 \<Rightarrow> 'h tm \<Rightarrow> 'h tm" where
  "rent_add w tid rent_end s = (case getWalletRentTask w s of
     None \<Rightarrow> put_rent w \<lparr>rt_wallet = w, rt_task_ids = [tid], rt_rent_end = rent_end\<rparr> s
   | Some r \<Rightarrow> put_rent w (r\<lparr>rt_task_ids := rt_task_ids r @ [tid], rt_rent_end := rent_end\<rparr>) s)"

text \<open>\<open>del\<close>: the first wallet of the map whose list has the id loses its first occurrence there.\<close>

definition rent_del :: "string \<Rightarrow> 'h tm \<Rightarrow> 'h tm" where
  "rent_del tid s = (case List.find (\<lambda>(_, r). tid \<in> set (rt_task_ids r)) (m_wallet_renttasks s) of
     None \<Rightarrow> s
   | Some (w, r) \<Rightarrow> put_rent w (r\<lparr>rt_task_ids := remove_first (\<lambda>i. i = tid) (rt_task_ids r)\<rparr>) s)"

text \<open>\<open>update(renttask)\<close> for an entry of the table.\<close>

definition rent_set_end :: "string \<Rightarrow> i64 \<Rightarrow> 'h tm \<Rightarrow> 'h tm" where
  "rent_set_end w e s = (case getWalletRentTask w s of None \<Rightarrow> s | Some r \<Rightarrow> put_rent (rt_wallet r) (r\<lparr>rt_rent_end := e\<rparr>) s)"

definition rent_init :: "(string, rent_task) smap \<Rightarrow> (string, rent_task) smap" where
  "rent_init db = foldl (\<lambda>m (_, r). smap_insert_new (rt_wallet r) r m) [] db"

section \<open>Sessions of a wallet\<close>

definition getWalletSessionByWallet :: "string \<Rightarrow> 'h tm \<Rightarrow> wallet_session option" where
  "getWalletSessionByWallet w s = smap_lookup (m_wallet_sessionid s) w"

definition getWalletSessionBySessionId :: "string \<Rightarrow> 'h tm \<Rightarrow> wallet_session option" where
  "getWalletSessionBySessionId i s = smap_lookup (m_sessionid_wallet s) i"

definition session_add :: "wallet_session \<Rightarrow> 'h tm \<Rightarrow> 'h tm" where
  "session_add ws s =
     s\<lparr>m_wallet_sessionid := smap_insert (ws_wallet ws) ws (m_wallet_sessionid s),
       m_sessionid_wallet := smap_insert (ws_session_id ws) ws (m_sessionid_wallet s),
       session_db := smap_insert (ws_wallet ws) ws (session_db s)\<rparr>"

text \<open>\<open>del\<close> does not touch the database.\<close>

definition session_del :: "string \<Rightarrow> 'h tm \<Rightarrow> 'h tm" where
  "session_del w s = (case getWalletSessionByWallet w s of
     None \<Rightarrow> s
   | Some ws \<Rightarrow> s\<lparr>m_sessionid_wallet := smap_erase (ws_session_id ws) (m_sessionid_wallet s),
                 m_wallet_sessionid := smap_erase w (m_wallet_sessionid s)\<rparr>)"

definition session_init :: "(string, wallet_session) smap \<Rightarrow> (string, wallet_session) smap \<times> (string, wallet_session) smap" where
  "session_init db =
     (let m = foldl (\<lambda>m (_, ws). smap_insert_new (ws_wallet ws) ws m) [] db
      in (m, foldl (\<lambda>m (_, ws). smap_insert_new (ws_session_id ws) ws m) [] m))"

section \<open>Commands of the port forwarding\<close>

definition run_cmds :: "('h, 'z) host_env_scheme \<Rightarrow> string list \<Rightarrow> 'h \<Rightarrow> 'h" where
  "run_cmds E cmds h = foldl (\<lambda>h c. snd (run_shell E c h)) h cmds"

definition func_remove_chain :: "string \<Rightarrow> string \<Rightarrow> string list" where
  "func_remove_chain main_chain task_chain =
     [''sudo iptables -t nat -F '' @ task_chain,
      ''sudo iptables -t nat -D '' @ main_chain @ '' -j '' @ task_chain,
      ''sudo iptables -t nat -X '' @ task_chain]"

definition get_default_network_device :: "('h, 'z) host_env_scheme \<Rightarrow> 'h \<Rightarrow> string \<times> 'h" where
  "get_default_network_device E h =
     (case run_shell E (''ip route|awk '' @ [CHR 0x27] @ ''NR==1{print $5}'' @ [CHR 0x27]) h of (nic, h) \<Rightarrow> (rtrim CHR 0x0A nic, h))"

text \<open>\<open>substr(0, rfind('.'))\<close>; a text without a dot stays whole.\<close>

definition before_last_dot :: "string \<Rightarrow> string" where
  "before_last_dot ip = (if CHR ''.'' \<in> set ip then rev (tl (dropWhile (\<lambda>c. c \<noteq> CHR ''.'') (rev ip))) else ip)"

definition chains_of :: "string \<Rightarrow> string list" where
  "chains_of tid =
     func_remove_chain ''PREROUTING'' (''chain_'' @ tid) @ func_remove_chain ''PREROUTING'' (tid @ ''_dnat'') @
     func_remove_chain ''POSTROUTING'' (tid @ ''_snat'')"

definition public_address_cmd :: "('h, 'z) host_env_scheme \<Rightarrow> string \<Rightarrow> string \<Rightarrow> 'h \<Rightarrow> 'h" where
  "public_address_cmd E verb pub_ip h =
     (if pub_ip = [] then h
      else case get_default_network_device E h of
        (nic, h) \<Rightarrow> if nic = [] then h else snd (run_shell E (''sudo ip address '' @ verb @ '' '' @ pub_ip @ '' dev '' @ nic) h))"

text \<open>The rules older versions of the program made.\<close>

definition old_rules :: "string \<Rightarrow> u16 \<Rightarrow> string \<Rightarrow> string list" where
  "old_rules host_ip ssh_port local_ip =
     (let port = dec_nat (unat ssh_port); net = before_last_dot local_ip in
      [''sudo iptables --table nat -D PREROUTING --protocol tcp --destination '' @ host_ip @ '' --destination-port '' @ port @ '' --jump DNAT --to-destination '' @ local_ip @ '':22'',
       ''sudo iptables -t nat -D PREROUTING -p tcp --dport '' @ port @ '' -j DNAT --to-destination '' @ local_ip @ '':22'',
       ''sudo iptables -t nat -D POSTROUTING -p tcp --dport '' @ port @ '' -d '' @ local_ip @ '' -j SNAT --to '' @ net @ ''.1'',
       ''sudo iptables -t nat -D PREROUTING -p tcp -m tcp --dport 20000:60000 -j DNAT --to-destination '' @ local_ip @ '':20000-60000'',
       ''sudo iptables -t nat -D PREROUTING -p udp -m udp --dport 20000:60000 -j DNAT --to-destination '' @ local_ip @ '':20000-60000'',
       ''sudo iptables -t nat -D POSTROUTING -d '' @ local_ip @ '' -p tcp -m tcp --dport 20000:60000 -j SNAT --to-source '' @ host_ip,
       ''sudo iptables -t nat -D POSTROUTING -d '' @ local_ip @ '' -p udp -m udp --dport 20000:60000 -j SNAT --to-source '' @ host_ip,
       ''sudo iptables -t nat -D PREROUTING -p tcp -d '' @ host_ip @ '' --dport '' @ port @ '' -j DNAT --to-destination '' @ local_ip @ '':22'',
       ''sudo iptables -t nat -D POSTROUTING -s '' @ net @ ''.0/24 -j SNAT --to-source '' @ host_ip,
       ''sudo iptables -t nat -D PREROUTING -p tcp -d '' @ host_ip @ '' --dport 6000:60000 -j DNAT --to-destination '' @ local_ip @ '':6000-60000''])"

definition shell_remove_iptable_from_system :: "('h, 'z) host_env_scheme \<Rightarrow> string \<Rightarrow> string \<Rightarrow> u16 \<Rightarrow> string \<Rightarrow> string \<Rightarrow> 'h \<Rightarrow> 'h" where
  "shell_remove_iptable_from_system E tid host_ip ssh_port local_ip pub_ip h =
     run_cmds E (old_rules host_ip ssh_port local_ip) (public_address_cmd E ''del'' pub_ip (run_cmds E (chains_of tid) h))"

text \<open>The rule for one custom port: a port, a pair \<open>from:to\<close>, a range or a range to a range; any other text is skipped.\<close>

definition dnat_rule :: "string \<Rightarrow> string \<Rightarrow> string \<Rightarrow> string \<Rightarrow> string \<Rightarrow> string \<Rightarrow> string" where
  "dnat_rule chain proto net_ip dport jump target =
     ''sudo iptables -t nat -A '' @ chain @ '' -p '' @ proto @ '' --destination '' @ net_ip @ '' --dport '' @ dport @ '' '' @ jump @ '' DNAT --to-destination '' @ target"

definition two_digits :: "string \<Rightarrow> char \<Rightarrow> (string \<times> string) option" where
  "two_digits s sep = (if sep \<notin> set s then None
     else case split_parts s sep of [a, b] \<Rightarrow> (if is_digits a \<and> is_digits b then Some (a, b) else None) | _ \<Rightarrow> None)"

definition two_ranges :: "string \<Rightarrow> (string \<times> string \<times> string \<times> string) option" where
  "two_ranges s = (if CHR '':'' \<notin> set s \<or> CHR ''-'' \<notin> set s then None
     else case split_parts s CHR '':'' of
       [x, y] \<Rightarrow> (case (split_parts x CHR ''-'', split_parts y CHR ''-'') of ([a, b], [c, d]) \<Rightarrow> Some (a, b, c, d) | _ \<Rightarrow> None)
     | _ \<Rightarrow> None)"

definition custom_rule :: "string \<Rightarrow> string \<Rightarrow> string \<Rightarrow> string \<Rightarrow> failure + string list" where
  "custom_rule chain net_ip local_ip str =
     (case split_parts str CHR '','' of
        [proto, port] \<Rightarrow>
          (if proto \<noteq> ''tcp'' \<and> proto \<noteq> ''udp'' then Inr []
           else case trim port of
             Inl f \<Rightarrow> Inl f
           | Inr p \<Rightarrow> Inr
               (if is_digits p then [dnat_rule chain proto net_ip p ''--jump'' (local_ip @ '':'' @ p)]
                else case two_digits p CHR '':'' of
                  Some (a, b) \<Rightarrow> [dnat_rule chain proto net_ip a ''--jump'' (local_ip @ '':'' @ b)]
                | None \<Rightarrow> (case two_digits p CHR ''-'' of
                    Some (a, b) \<Rightarrow> [dnat_rule chain proto net_ip (a @ '':'' @ b) ''-j'' (local_ip @ '':'' @ a @ ''-'' @ b)]
                  | None \<Rightarrow> (case two_ranges p of
                      Some (a, b, c, d) \<Rightarrow> [dnat_rule chain proto net_ip (a @ '':'' @ b) ''-j'' (local_ip @ '':'' @ c @ ''-'' @ d)]
                    | None \<Rightarrow> []))))
      | _ \<Rightarrow> Inr [])"

fun custom_rules :: "string \<Rightarrow> string \<Rightarrow> string \<Rightarrow> string list \<Rightarrow> failure + string list" where
  "custom_rules chain net_ip local_ip [] = Inr []"
| "custom_rules chain net_ip local_ip (c # cs) = (case custom_rule chain net_ip local_ip c of
     Inl f \<Rightarrow> Inl f
   | Inr r \<Rightarrow> (case custom_rules chain net_ip local_ip cs of Inl f \<Rightarrow> Inl f | Inr rs \<Rightarrow> Inr (r @ rs)))"

text \<open>The rules of the chain of a task, in order.\<close>

definition port_rules :: "string \<Rightarrow> string \<Rightarrow> u16 \<Rightarrow> u16 \<Rightarrow> string \<Rightarrow> string list" where
  "port_rules chain net_ip ssh_port rdp_port local_ip =
     (if ssh_port > 0 then [dnat_rule chain ''tcp'' net_ip (dec_nat (unat ssh_port)) ''--jump'' (local_ip @ '':22'')] else []) @
     (if rdp_port > 0 then [dnat_rule chain ''tcp'' net_ip (dec_nat (unat rdp_port)) ''--jump'' (local_ip @ '':3389'')] else [])"

definition snat_cmds :: "string \<Rightarrow> string \<Rightarrow> string \<Rightarrow> string list" where
  "snat_cmds tid local_ip pub_ip = (if pub_ip = [] then []
     else [''sudo iptables -t nat -N '' @ tid @ ''_snat'',
           ''sudo iptables -t nat -I '' @ tid @ ''_snat'' @ '' --source '' @ local_ip @ '' --jump SNAT --to-source '' @ pub_ip,
           ''sudo iptables -t nat -I POSTROUTING -j '' @ tid @ ''_snat''])"

definition shell_add_iptable_to_system ::
    "('h, 'z) host_env_scheme \<Rightarrow> string \<Rightarrow> string \<Rightarrow> u16 \<Rightarrow> u16 \<Rightarrow> string list \<Rightarrow> string \<Rightarrow> string \<Rightarrow> 'h \<Rightarrow> (failure + unit) \<times> 'h" where
  "shell_add_iptable_to_system E tid host_ip ssh_port rdp_port custom local_ip pub_ip h =
     (let net_ip = (if pub_ip = [] then host_ip else pub_ip); chain = tid @ ''_dnat'';
          h1 = run_cmds E (chains_of tid @ [''sudo iptables -t nat -N '' @ chain] @ port_rules chain net_ip ssh_port rdp_port local_ip) h
      in case custom_rules chain net_ip local_ip custom of
           Inl f \<Rightarrow> (Inl f, h1)
         | Inr rs \<Rightarrow> (Inr (), public_address_cmd E ''add'' pub_ip
             (run_cmds E (rs @ (if pub_ip = [] then [] else [''sudo iptables -t nat -A '' @ chain @ '' --destination '' @ pub_ip @ '' --jump DNAT --to-destination '' @ local_ip]) @
                [''sudo iptables -t nat -I PREROUTING -j '' @ chain] @ snat_cmds tid local_ip pub_ip) h1)))"

text \<open>The rules of the filter table with a \<open>reject\<close> target are deleted.\<close>

definition reject_list_cmd :: string where
  "reject_list_cmd = ''sudo iptables -t filter --list-rules |grep reject |awk '' @ [CHR 0x27] @ ''{print $0}'' @ [CHR 0x27] @ '' |tr '' @ [CHR 0x22, CHR 0x0A, CHR 0x22] @ '' '' @ [CHR 0x22] @ ''|'' @ [CHR 0x22]"

definition shell_remove_reject_iptable_from_system :: "('h, 'z) host_env_scheme \<Rightarrow> 'h \<Rightarrow> 'h" where
  "shell_remove_reject_iptable_from_system E h =
     (case run_shell E reject_list_cmd h of
        (out, h) \<Rightarrow> run_cmds E (concat (map (\<lambda>r. if contains_str r ''-A''
             then [''sudo iptables -t filter '' @ replace2 CHR ''-'' CHR ''A'' ''-D'' r] else []) (split out ''|''))) h)"

definition getSSHPort_ipt :: "iptable_info \<Rightarrow> u16" where "getSSHPort_ipt i = word_of_int (atoi (ipt_ssh_port i))"
definition getRDPPort_ipt :: "iptable_info \<Rightarrow> u16" where "getRDPPort_ipt i = word_of_int (atoi (ipt_rdp_port i))"

definition remove_iptable_from_system :: "('h, 'z) host_env_scheme \<Rightarrow> string \<Rightarrow> 'h tm \<Rightarrow> 'h tm" where
  "remove_iptable_from_system E tid s = (case getIptableInfo tid s of
     None \<Rightarrow> s
   | Some i \<Rightarrow> on_host (shell_remove_iptable_from_system E tid (ipt_host_ip i) (getSSHPort_ipt i) (ipt_task_local_ip i) (ipt_public_ip i)) s)"

definition add_iptable_to_system :: "('h, 'z) host_env_scheme \<Rightarrow> string \<Rightarrow> ('h tm, unit) M" where
  "add_iptable_to_system E tid s = (case getIptableInfo tid s of
     None \<Rightarrow> (Inr (), s)
   | Some i \<Rightarrow> (case shell_add_iptable_to_system E tid (ipt_host_ip i) (getSSHPort_ipt i) (getRDPPort_ipt i) (ipt_custom_port i)
        (ipt_task_local_ip i) (ipt_public_ip i) (host (tvm s)) of (r, h) \<Rightarrow> (r, on_host (\<lambda>_. h) s)))"

end
