(* ===== verification/Base64.thy ===== *)
theory Base64
  imports P2p_Net_Service
begin

text \<open>
  The sealed data of the requests between nodes: base64 (\<open>util/base64.cc\<close>), keys as hexadecimal texts and
  \<open>encrypt_data\<close>, \<open>decrypt_data\<close> of \<open>util/utils.cpp\<close>. \<open>crypto_box\<close> and \<open>crypto_box_open\<close> come from the
  cryptographic library and are parameters.
\<close>

unbundle bit_operations_syntax

section \<open>Base64\<close>

definition base64_chars :: string where
  "base64_chars = ''ABCDEFGHIJKLMNOPQRSTUVWXYZ'' @ ''abcdefghijklmnopqrstuvwxyz'' @ ''0123456789+/''"

definition is_base64 :: "char \<Rightarrow> bool" where
  "is_base64 c \<longleftrightarrow> (let n = of_char c :: nat in
     48 \<le> n \<and> n \<le> 57 \<or> 65 \<le> n \<and> n \<le> 90 \<or> 97 \<le> n \<and> n \<le> 122 \<or> n = 43 \<or> n = 47)"

text \<open>The four numbers of \<open>char_array_4\<close> from the three bytes of \<open>char_array_3\<close>.\<close>

definition quad0 :: "byte \<Rightarrow> byte" where "quad0 a = drop_bit 2 (a AND 0xFC)"
definition quad1 :: "byte \<Rightarrow> byte \<Rightarrow> byte" where "quad1 a b = push_bit 4 (a AND 0x03) + drop_bit 4 (b AND 0xF0)"
definition quad2 :: "byte \<Rightarrow> byte \<Rightarrow> byte" where "quad2 b c = push_bit 2 (b AND 0x0F) + drop_bit 6 (c AND 0xC0)"
definition quad3 :: "byte \<Rightarrow> byte" where "quad3 c = c AND 0x3F"

definition b64_char :: "byte \<Rightarrow> char" where "b64_char n = base64_chars ! unat n"

fun base64_encode :: "byte list \<Rightarrow> string" where
  "base64_encode [] = []"
| "base64_encode [a] = [b64_char (quad0 a), b64_char (quad1 a 0), CHR ''='', CHR ''='']"
| "base64_encode [a, b] = [b64_char (quad0 a), b64_char (quad1 a b), b64_char (quad2 b 0), CHR ''='']"
| "base64_encode (a # b # c # bs) =
     b64_char (quad0 a) # b64_char (quad1 a b) # b64_char (quad2 b c) # b64_char (quad3 c) # base64_encode bs"

text \<open>\<open>base64_chars.find\<close>, as an unsigned char, of a character that occurs.\<close>

fun find_from :: "nat \<Rightarrow> string \<Rightarrow> char \<Rightarrow> byte" where
  "find_from i [] c = 255"
| "find_from i (x # xs) c = (if x = c then of_nat i else find_from (i + 1) xs c)"

definition b64_value :: "char \<Rightarrow> byte" where "b64_value c = find_from 0 base64_chars c"

definition tri0 :: "byte \<Rightarrow> byte \<Rightarrow> byte" where "tri0 p q = push_bit 2 p + drop_bit 4 (q AND 0x30)"
definition tri1 :: "byte \<Rightarrow> byte \<Rightarrow> byte" where "tri1 q r = push_bit 4 (q AND 0x0F) + drop_bit 2 (r AND 0x3C)"
definition tri2 :: "byte \<Rightarrow> byte \<Rightarrow> byte" where "tri2 r s = push_bit 6 (r AND 0x03) + s"

text \<open>The values of the characters up to the first that is not of the alphabet, four at a time.\<close>

fun from_quads :: "byte list \<Rightarrow> byte list" where
  "from_quads (p # q # r # s # vs) = tri0 p q # tri1 q r # tri2 r s # from_quads vs"
| "from_quads [p, q, r] = [tri0 p q, tri1 q r]"
| "from_quads [p, q] = [tri0 p q]"
| "from_quads [p] = []"
| "from_quads [] = []"

definition base64_decode :: "string \<Rightarrow> byte list" where
  "base64_decode s = from_quads (map b64_value (takeWhile (\<lambda>c. c \<noteq> CHR ''='' \<and> is_base64 c) s))"

section \<open>Keys and boxes\<close>

definition toupper :: "char \<Rightarrow> char" where
  "toupper c = (let n = of_char c :: nat in if 97 \<le> n \<and> n \<le> 122 then char_of (n - 32) else c)"

definition hex_digit :: "char \<Rightarrow> byte" where
  "hex_digit c = (let x = byte_of_char (toupper c) in if x > 0x39 then x - 0x37 else x - 0x30)"

fun hex_bytes :: "string \<Rightarrow> byte list" where
  "hex_bytes (h # l # cs) = (push_bit 4 (hex_digit h) OR hex_digit l) # hex_bytes cs"
| "hex_bytes _ = []"

text \<open>
  \<open>HexStrToByte\<close> into an array of half the length of the text: an odd length writes one byte behind the
  array, and the counter of type \<open>short\<close> does not get past 32766.
\<close>

definition HexStrToByte :: "string \<Rightarrow> failure + byte list" where
  "HexStrToByte s = (if odd (length s) \<or> length s > 32766 then Inl Undefined_behaviour else Inr (hex_bytes s))"

definition crypto_box_ZEROBYTES :: nat where "crypto_box_ZEROBYTES = 32"
definition crypto_box_BOXZEROBYTES :: nat where "crypto_box_BOXZEROBYTES = 16"
definition crypto_box_NONCEBYTES :: nat where "crypto_box_NONCEBYTES = 24"
definition crypto_box_KEYBYTES :: nat where "crypto_box_KEYBYTES = 32"

lemmas box_sizes = crypto_box_ZEROBYTES_def crypto_box_BOXZEROBYTES_def crypto_box_NONCEBYTES_def crypto_box_KEYBYTES_def

text \<open>The library: \<open>box padded nonce pub priv\<close> and \<open>box_open boxed nonce pub priv\<close>, \<open>None\<close> when opening fails.\<close>

record box_lib =
  box :: "byte list \<Rightarrow> byte list \<Rightarrow> byte list \<Rightarrow> byte list \<Rightarrow> byte list"
  box_open :: "byte list \<Rightarrow> byte list \<Rightarrow> byte list \<Rightarrow> byte list \<Rightarrow> byte list option"
  randombytes :: "byte list"

text \<open>Both keys as bytes; the library reads 32 bytes of each.\<close>

definition key_pair :: "string \<Rightarrow> string \<Rightarrow> failure + byte list \<times> byte list" where
  "key_pair pub_key priv_key = (case (HexStrToByte pub_key, HexStrToByte priv_key) of
     (Inr a, Inr b) \<Rightarrow> (if length a < crypto_box_KEYBYTES \<or> length b < crypto_box_KEYBYTES then Inl Undefined_behaviour else Inr (a, b))
   | _ \<Rightarrow> Inl Undefined_behaviour)"

definition encrypt_data :: "box_lib \<Rightarrow> byte list \<Rightarrow> string \<Rightarrow> string \<Rightarrow> failure + string" where
  "encrypt_data B plain pub_key priv_key = (case key_pair pub_key priv_key of
     Inl f \<Rightarrow> Inl f
   | Inr (a, b) \<Rightarrow>
       let padded = replicate crypto_box_ZEROBYTES 0 @ plain;
           encrypted = box B padded (randombytes B) a b
       in Inr (base64_encode (randombytes B @ drop crypto_box_BOXZEROBYTES encrypted)))"

text \<open>
  A text that decodes to fewer bytes than a nonce has makes the second \<open>memcpy\<close> copy a length that has
  wrapped around.
\<close>

definition decrypt_data :: "box_lib \<Rightarrow> string \<Rightarrow> string \<Rightarrow> string \<Rightarrow> failure + byte list option" where
  "decrypt_data B sealed pub_key priv_key = (case key_pair pub_key priv_key of
     Inl f \<Rightarrow> Inl f
   | Inr (a, b) \<Rightarrow>
       let str_data = base64_decode sealed in
       if length str_data < crypto_box_NONCEBYTES then Inl Undefined_behaviour
       else let n24 = take crypto_box_NONCEBYTES str_data;
                boxed = replicate crypto_box_BOXZEROBYTES 0 @ drop crypto_box_NONCEBYTES str_data
            in Inr (map_option (drop crypto_box_ZEROBYTES) (box_open B boxed n24 a b)))"

section \<open>Round trips\<close>

lemma unat_low: "unat (a AND 0x03) = unat a mod 4" "unat (a AND 0x0F) = unat a mod 16" "unat (a AND 0x3F) = unat a mod 64" for a :: byte
proof -
  have "a AND mask n = take_bit n a" for n by (simp add: take_bit_eq_mask)
  from this [of 2] this [of 4] this [of 6]
  show "unat (a AND 0x03) = unat a mod 4" "unat (a AND 0x0F) = unat a mod 16" "unat (a AND 0x3F) = unat a mod 64"
    by (simp_all add: mask_eq_exp_minus_1 take_bit_eq_mod unat_mod)
qed

lemma drop_masks:
  "drop_bit 2 (a AND 0xFC) = drop_bit 2 a AND 0x3F" "drop_bit 4 (a AND 0xF0) = drop_bit 4 a AND 0x0F" "drop_bit 6 (a AND 0xC0) = drop_bit 6 a AND 0x03"
  "drop_bit 4 (a AND 0x30) = drop_bit 4 a AND 0x03" "drop_bit 2 (a AND 0x3C) = drop_bit 2 a AND 0x0F" for a :: byte
  by simp_all

lemma unat_shifts:
  "unat (drop_bit 2 a) = unat a div 4" "unat (drop_bit 4 a) = unat a div 16" "unat (drop_bit 6 a) = unat a div 64"
  "unat (push_bit 2 a) = unat a * 4 mod 256" "unat (push_bit 4 a) = unat a * 16 mod 256" "unat (push_bit 6 a) = unat a * 64 mod 256" for a :: byte
proof -
  have "unat a div 4 < 256" "unat a div 16 < 256" "unat a div 64 < 256" using unat_byte_lt [of a] by linarith+
  then show "unat (drop_bit 2 a) = unat a div 4" "unat (drop_bit 4 a) = unat a div 16" "unat (drop_bit 6 a) = unat a div 64"
    by (simp_all add: drop_bit_eq_div unat_word_ariths)
  show "unat (push_bit 2 a) = unat a * 4 mod 256" "unat (push_bit 4 a) = unat a * 16 mod 256" "unat (push_bit 6 a) = unat a * 64 mod 256"
    by (simp_all add: push_bit_eq_mult unat_word_ariths)
qed

lemma byte_parts:
  "unat (drop_bit 2 (a AND 0xFC)) = unat a div 4" "unat (push_bit 4 (a AND 0x03)) = unat a mod 4 * 16" "unat (drop_bit 4 (a AND 0xF0)) = unat a div 16"
  "unat (push_bit 2 (a AND 0x0F)) = unat a mod 16 * 4" "unat (drop_bit 6 (a AND 0xC0)) = unat a div 64" "unat (a AND 0x3F) = unat a mod 64"
  "unat (drop_bit 4 (a AND 0x30)) = unat a div 16 mod 4" "unat (push_bit 4 (a AND 0x0F)) = unat a mod 16 * 16"
  "unat (drop_bit 2 (a AND 0x3C)) = unat a div 4 mod 16" "unat (push_bit 6 (a AND 0x03)) = unat a mod 4 * 64" for a :: byte
proof -
  have "unat a div 4 < 64" "unat a div 16 < 16" "unat a div 64 < 4" using unat_byte_lt [of a] by simp_all
  moreover have "unat a mod 4 * 16 < 256" "unat a mod 16 * 4 < 256" "unat a mod 16 * 16 < 256" "unat a mod 4 * 64 < 256"
    using mod_less_divisor [of 4 "unat a"] mod_less_divisor [of 16 "unat a"] by linarith+
  ultimately show "unat (drop_bit 2 (a AND 0xFC)) = unat a div 4" "unat (push_bit 4 (a AND 0x03)) = unat a mod 4 * 16" "unat (drop_bit 4 (a AND 0xF0)) = unat a div 16"
    "unat (push_bit 2 (a AND 0x0F)) = unat a mod 16 * 4" "unat (drop_bit 6 (a AND 0xC0)) = unat a div 64" "unat (a AND 0x3F) = unat a mod 64"
    "unat (drop_bit 4 (a AND 0x30)) = unat a div 16 mod 4" "unat (push_bit 4 (a AND 0x0F)) = unat a mod 16 * 16"
    "unat (drop_bit 2 (a AND 0x3C)) = unat a div 4 mod 16" "unat (push_bit 6 (a AND 0x03)) = unat a mod 4 * 64"
    unfolding drop_masks unat_low unat_shifts by (simp_all only: mod_less)
qed

lemma byte_sum: "unat x + unat y < 256 \<Longrightarrow> unat (x + y) = unat x + unat y" for x y :: byte
  by (simp add: unat_word_ariths)

lemma unat_quads:
  "unat (quad0 a) = unat a div 4" "unat (quad1 a b) = unat a mod 4 * 16 + unat b div 16"
  "unat (quad2 b c) = unat b mod 16 * 4 + unat c div 64" "unat (quad3 c) = unat c mod 64"
proof -
  show "unat (quad0 a) = unat a div 4" "unat (quad3 c) = unat c mod 64" unfolding quad0_def quad3_def by (rule byte_parts)+
  have "unat b div 16 < 16" "unat a mod 4 < 4" "unat c div 64 < 4" "unat b mod 16 < 16" using unat_byte_lt [of b] unat_byte_lt [of c] by simp_all
  then have "unat a mod 4 * 16 + unat b div 16 < 256" "unat b mod 16 * 4 + unat c div 64 < 256" by linarith+
  then show "unat (quad1 a b) = unat a mod 4 * 16 + unat b div 16" "unat (quad2 b c) = unat b mod 16 * 4 + unat c div 64"
    unfolding quad1_def quad2_def using byte_sum [of "push_bit 4 (a AND 0x03)" "drop_bit 4 (b AND 0xF0)"] byte_sum [of "push_bit 2 (b AND 0x0F)" "drop_bit 6 (c AND 0xC0)"]
    unfolding byte_parts by blast+
qed

lemma quad_less: "unat (quad0 a) < 64" "unat (quad1 a b) < 64" "unat (quad2 b c) < 64" "unat (quad3 c) < 64"
proof -
  note l = unat_byte_lt [of a] unat_byte_lt [of b] unat_byte_lt [of c]
  show "unat (quad0 a) < 64" using l(1) by (simp add: unat_quads)
  have "unat b div 16 < 16" using l(2) by simp
  moreover have "unat a mod 4 < 4" by simp
  ultimately show "unat (quad1 a b) < 64" unfolding unat_quads by linarith
  have "unat c div 64 < 4" using l(3) by simp
  moreover have "unat b mod 16 < 16" by simp
  ultimately show "unat (quad2 b c) < 64" unfolding unat_quads by linarith
  show "unat (quad3 c) < 64" by (simp add: unat_quads)
qed

lemma unat_tris:
  assumes "unat p < 64" "unat s < 64"
  shows "unat (tri0 p q) = unat p * 4 + unat q div 16 mod 4" "unat (tri1 q r) = unat q mod 16 * 16 + unat r div 4 mod 16" "unat (tri2 r s) = unat r mod 4 * 64 + unat s"
proof -
  have m: "unat (push_bit 2 p) = unat p * 4" using assms(1) by (simp add: unat_shifts)
  have "unat q div 16 mod 4 < 4" "unat r div 4 mod 16 < 16" "unat q mod 16 < 16" "unat r mod 4 < 4" by simp_all
  then have "unat p * 4 + unat q div 16 mod 4 < 256" "unat q mod 16 * 16 + unat r div 4 mod 16 < 256" "unat r mod 4 * 64 + unat s < 256"
    using assms by linarith+
  then show "unat (tri0 p q) = unat p * 4 + unat q div 16 mod 4" "unat (tri1 q r) = unat q mod 16 * 16 + unat r div 4 mod 16" "unat (tri2 r s) = unat r mod 4 * 64 + unat s"
    unfolding tri0_def tri1_def tri2_def using byte_sum [of "push_bit 2 p" "drop_bit 4 (q AND 0x30)"] byte_sum [of "push_bit 4 (q AND 0x0F)" "drop_bit 2 (r AND 0x3C)"]
      byte_sum [of "push_bit 6 (r AND 0x03)" s] unfolding byte_parts m by blast+
qed

lemma tri_quads: "tri0 (quad0 a) (quad1 a b) = a" "tri1 (quad1 a b) (quad2 b c) = b" "tri2 (quad2 b c) (quad3 c) = c"
proof -
  note l = unat_byte_lt [of a] unat_byte_lt [of b] unat_byte_lt [of c]
  have "(unat a mod 4 * 16 + unat b div 16) div 16 = unat a mod 4" "(unat a mod 4 * 16 + unat b div 16) mod 16 = unat b div 16"
    "(unat b mod 16 * 4 + unat c div 64) div 4 = unat b mod 16" "(unat b mod 16 * 4 + unat c div 64) mod 4 = unat c div 64" using l by simp_all
  then have "unat (tri0 (quad0 a) (quad1 a b)) = unat a" "unat (tri1 (quad1 a b) (quad2 b c)) = unat b" "unat (tri2 (quad2 b c) (quad3 c)) = unat c"
    using unat_tris [OF quad_less(1,4)] by (simp_all add: unat_quads)
  then show "tri0 (quad0 a) (quad1 a b) = a" "tri1 (quad1 a b) (quad2 b c) = b" "tri2 (quad2 b c) (quad3 c) = c" by (simp_all add: word_unat_eq_iff)
qed

lemma b64_values: "map b64_value base64_chars = map of_nat [0..<64]"
  by (simp add: b64_value_def base64_chars_def upt_rec)

lemma b64_alphabet:
  assumes "n < 64"
  shows "is_base64 (base64_chars ! n)" "base64_chars ! n \<noteq> CHR ''=''" "b64_value (base64_chars ! n) = of_nat n"
proof -
  have l: "length base64_chars = 64" by (simp add: base64_chars_def)
  have "\<forall>c\<in>set base64_chars. is_base64 c \<and> c \<noteq> CHR ''=''" by (simp add: base64_chars_def is_base64_def)
  with assms l show "is_base64 (base64_chars ! n)" "base64_chars ! n \<noteq> CHR ''=''" by (metis nth_mem)+
  have "map b64_value base64_chars ! n = map of_nat [0..<64] ! n" by (simp only: b64_values)
  with assms l show "b64_value (base64_chars ! n) = of_nat n" by simp
qed

lemma b64_char_value:
  assumes "unat v < 64"
  shows "is_base64 (b64_char v)" "b64_char v \<noteq> CHR ''=''" "b64_value (b64_char v) = v"
  using b64_alphabet [OF assms] by (simp_all add: b64_char_def)

lemma decode_encode: "base64_decode (base64_encode bs) = bs"
  by (induction bs rule: base64_encode.induct) (simp_all add: base64_decode_def b64_char_value quad_less tri_quads)

text \<open>
  What the documentation of the library says: a box begins with 16 zero bytes, and the owner of the other
  key pair opens it with the same nonce. \<open>pair p k\<close> says that \<open>p\<close> is the public key of the secret key \<open>k\<close>.
\<close>

definition box_law :: "box_lib \<Rightarrow> (byte list \<Rightarrow> byte list \<Rightarrow> bool) \<Rightarrow> bool" where
  "box_law B pair \<longleftrightarrow> length (randombytes B) = crypto_box_NONCEBYTES \<and>
     (\<forall>m n pa sa pb sb. pair pa sa \<and> pair pb sb \<and> length n = crypto_box_NONCEBYTES \<longrightarrow>
        (\<exists>c. box B (replicate crypto_box_ZEROBYTES 0 @ m) n pb sa = replicate crypto_box_BOXZEROBYTES 0 @ c \<and>
             box_open B (replicate crypto_box_BOXZEROBYTES 0 @ c) n pa sb = Some (replicate crypto_box_ZEROBYTES 0 @ m)))"

lemma seal_opens:
  assumes "box_law B pair" "key_pair pub_b priv_a = Inr (pb, sa)" "key_pair pub_a priv_b = Inr (pa, sb)" "pair pa sa" "pair pb sb"
  shows "\<exists>x. encrypt_data B plain pub_b priv_a = Inr x \<and> decrypt_data B x pub_a priv_b = Inr (Some plain)"
proof -
  let ?n = "randombytes B"
  from assms(1,4,5) obtain c where c: "length ?n = 24" "box B (replicate 32 0 @ plain) ?n pb sa = replicate 16 0 @ c"
    "box_open B (replicate 16 0 @ c) ?n pa sb = Some (replicate 32 0 @ plain)" unfolding box_law_def box_sizes by blast
  then have "encrypt_data B plain pub_b priv_a = Inr (base64_encode (?n @ c))" by (simp add: encrypt_data_def assms(2) box_sizes Let_def)
  moreover have "decrypt_data B (base64_encode (?n @ c)) pub_a priv_b = Inr (Some plain)"
    using c(1,3) by (simp add: decrypt_data_def assms(3) decode_encode box_sizes Let_def)
  ultimately show ?thesis by blast
qed

text \<open>A library without secrecy that obeys the law.\<close>

definition plain_box :: box_lib where
  "plain_box = \<lparr>box = (\<lambda>m n p k. m), box_open = (\<lambda>c n p k. Some c), randombytes = replicate 24 7\<rparr>"

lemma plain_box_law: "box_law plain_box pair"
  unfolding box_law_def plain_box_def box_sizes
  by (simp, metis append_assoc replicate_add numeral_Bit0)

lemma length_hex_bytes [simp]: "length (hex_bytes s) = length s div 2"
  by (induction s rule: hex_bytes.induct) simp_all

lemma sample_keys: "key_pair (replicate 64 CHR ''a'') (replicate 64 CHR ''b'') = Inr (hex_bytes (replicate 64 CHR ''a''), hex_bytes (replicate 64 CHR ''b''))"
  by (simp add: key_pair_def HexStrToByte_def box_sizes)

end
