(* ===== verification/Task_Manager.thy ===== *)
theory Task_Manager
  imports Task_Tables Base64
begin

text \<open>
  The task manager (\<open>task/TaskManager.{h,cpp}\<close>, \<open>task/detail/disk/TaskDiskManager.cpp\<close>): requests put a task
  into a transitional status and an event into the queue, the process thread takes the events and
  works on the domains, the prune thread closes and deletes tasks by what the chain says about the
  machine. The chain client, the readings of the host, the image and the network manager are
  parameters.
\<close>

section \<open>The environment\<close>

datatype machine_status = MS_Unknown | MS_Verify | MS_Online | MS_Rented
datatype user_role = Role_Unknown | Verifier | WalletRenter | SessionIdRenter

text \<open>A parsed JSON object: the value of a member that is a string or an integer, and the strings of a member that is an array.\<close>

record json_doc =
  json_string :: "string \<Rightarrow> string option"
  json_int :: "string \<Rightarrow> i32 option"
  json_array :: "string \<Rightarrow> string list option"

record 'h task_env = "'h host_env" +
  si_cores :: int
  si_physical_cpus :: int
  si_physical_cores_per_cpu :: int
  si_threads_per_cpu :: int
  si_mem_free :: "'h \<Rightarrow> i64"
  si_gpus :: "'h \<Rightarrow> (string, string list) smap"
  si_disk_total :: "'h \<Rightarrow> string \<Rightarrow> i64"
  si_disk_available :: "'h \<Rightarrow> string \<Rightarrow> i64"
  si_disk_free :: "'h \<Rightarrow> string \<Rightarrow> i64"
  si_route_ip :: "'h \<Rightarrow> string"
  image_busy :: "'h \<Rightarrow> string \<Rightarrow> bool"
  image_upload :: "string \<Rightarrow> 'h \<Rightarrow> bool \<times> 'h"
  CreateNetworkClient :: "string \<Rightarrow> 'h \<Rightarrow> fresult \<times> 'h"
  network_leave :: "string \<Rightarrow> string \<Rightarrow> 'h \<Rightarrow> 'h"
  network_join :: "string \<Rightarrow> string \<Rightarrow> 'h \<Rightarrow> 'h"
  udp_broadcast :: "string \<Rightarrow> 'h \<Rightarrow> 'h"
  parse_json :: "string \<Rightarrow> json_doc option"
  valid_ip :: "string \<Rightarrow> bool"
  path_extension :: "string \<Rightarrow> string"
  is_multicast :: "string \<Rightarrow> bool option"
  rand_number :: nat
  time_stamp :: i64
  time_str :: string
  rand_seq :: "nat list"
  chain_machine_status :: "'h \<Rightarrow> machine_status"
  chain_cur_renter :: "'h \<Rightarrow> string \<times> i64"
  chain_cur_block :: "'h \<Rightarrow> i64"
  chain_in_verify_time :: "'h \<Rightarrow> string \<Rightarrow> bool"
  chain_rent_end :: "'h \<Rightarrow> string \<Rightarrow> i64"
  hash_scratch :: "byte list"
  session_uuid :: string
  sign_env :: p2p_env

definition on_vm :: "('h vm \<Rightarrow> 'a \<times> 'h vm) \<Rightarrow> 'h tm \<Rightarrow> 'a \<times> 'h tm" where
  "on_vm f s = (case f (tvm s) of (r, v) \<Rightarrow> (r, s\<lparr>tvm := v\<rparr>))"

definition domain_status :: "'h task_env \<Rightarrow> string \<Rightarrow> 'h tm \<Rightarrow> virDomainState" where
  "domain_status E tid s = GetDomainStatus E tid (tvm s)"

definition pushTaskEvent :: "task_event \<Rightarrow> 'h tm \<Rightarrow> 'h tm" where
  "pushTaskEvent ev s = s\<lparr>m_events := m_events s @ [ev]\<rparr>"

definition is_check_task :: "string \<Rightarrow> bool" where
  "is_check_task tid = contains_str tid ''vm_check_''"

section \<open>Starting, closing and deleting\<close>

definition start_task :: "'h task_env \<Rightarrow> string \<Rightarrow> ('h tm, unit) M" where
  "start_task E tid s =
     (if domain_status E tid s = VIR_DOMAIN_RUNNING then (Inr (), s)
      else case on_vm (StartDomain E tid) s of
        (r, s) \<Rightarrow> if r = ERR_SUCCESS then add_iptable_to_system E tid (setTaskStatus tid TS_Task_Running s) else (Inr (), s))"

definition close_task :: "'h task_env \<Rightarrow> string \<Rightarrow> 'h tm \<Rightarrow> 'h tm" where
  "close_task E tid s =
     (if domain_status E tid s = VIR_DOMAIN_SHUTOFF then s
      else case on_vm (DestroyDomain E tid) s of
        (r, s) \<Rightarrow> if r = ERR_SUCCESS then remove_iptable_from_system E tid (setTaskStatus tid TS_Task_Shutoff s) else s)"

definition delete_task :: "'h task_env \<Rightarrow> string \<Rightarrow> 'h tm \<Rightarrow> 'h tm" where
  "delete_task E tid s =
     (let nvram = (IsDomainHasNvram E tid (tvm s) > 0);
          s = snd (on_vm (DestroyAndUndefineDomain E tid nvram) s)
      in case getTaskInfo tid s of
           None \<Rightarrow> s
         | Some t \<Rightarrow>
             let s = on_host (network_leave E (ti_network_name (ti_db t)) tid) s;
                 s = info_del tid s;
                 s = gpu_del tid s;
                 s = delDisks E tid s;
                 s = delSnapshots E tid s;
                 s = iptable_del tid (remove_iptable_from_system E tid s);
                 s = rent_del tid s
             in snd (on_vm (UndefineNWFilter E tid) s))"

section \<open>Finding and listing\<close>

definition findTask :: "string \<Rightarrow> string \<Rightarrow> 'h tm \<Rightarrow> task_info option" where
  "findTask w tid s = (case getWalletRentTask w s of
     None \<Rightarrow> None | Some r \<Rightarrow> (if tid \<in> set (rt_task_ids r) then getTaskInfo tid s else None))"

definition listAllTask :: "string \<Rightarrow> 'h tm \<Rightarrow> task_info list" where
  "listAllTask w s = (case getWalletRentTask w s of
     None \<Rightarrow> [] | Some r \<Rightarrow> List.map_filter (\<lambda>i. getTaskInfo i s) (rt_task_ids r))"

definition listRunningTask :: "string \<Rightarrow> 'h tm \<Rightarrow> task_info list" where
  "listRunningTask w s = filter (\<lambda>t. ti_status t = TS_Task_Running) (listAllTask w s)"

text \<open>The entry of the wallet is used without a check.\<close>

definition getRunningTasksSize :: "string \<Rightarrow> 'h tm \<Rightarrow> failure + nat" where
  "getRunningTasksSize w s = (case getWalletRentTask w s of
     None \<Rightarrow> Inl Undefined_behaviour
   | Some r \<Rightarrow> Inr (length (filter (\<lambda>t. ti_status t = TS_Task_Running) (List.map_filter (\<lambda>i. getTaskInfo i s) (rt_task_ids r)))))"

definition queryTaskStatus :: "'h task_env \<Rightarrow> string \<Rightarrow> 'h tm \<Rightarrow> task_status \<times> 'h tm" where
  "queryTaskStatus E tid s = (case getTaskInfo tid s of
     None \<Rightarrow> (TS_Task_Shutoff, s)
   | Some t \<Rightarrow>
       let st = ti_status t; d = domain_status E tid s in
       if st = TS_Task_Shutoff \<and> d \<noteq> VIR_DOMAIN_SHUTOFF \<or> st = TS_Task_Running \<and> d \<noteq> VIR_DOMAIN_RUNNING \<or>
          st = TS_Task_PMSuspend \<and> d \<noteq> VIR_DOMAIN_PMSUSPENDED
       then let st' = (if d = VIR_DOMAIN_SHUTOFF \<or> d = VIR_DOMAIN_SHUTDOWN then TS_Task_Shutoff
                       else if d = VIR_DOMAIN_RUNNING \<or> d = VIR_DOMAIN_PAUSED \<or> d = VIR_DOMAIN_BLOCKED then TS_Task_Running
                       else if d = VIR_DOMAIN_PMSUSPENDED then TS_Task_PMSuspend else st)
            in (st', setTaskStatus tid st' s)
       else (st, s))"

definition deleteAllCheckTasks :: "'h task_env \<Rightarrow> 'h tm \<Rightarrow> 'h tm" where
  "deleteAllCheckTasks E s = foldl (\<lambda>s i. delete_task E i s) s (filter is_check_task (map fst (m_task_infos s)))"

definition deleteOtherCheckTasks :: "'h task_env \<Rightarrow> string \<Rightarrow> 'h tm \<Rightarrow> 'h tm" where
  "deleteOtherCheckTasks E w s =
     foldl (\<lambda>s i. delete_task E i s) s
       (filter (\<lambda>i. getTaskInfo i s \<noteq> None \<and> is_check_task i)
          (concat (map (\<lambda>(w', r). if w' \<noteq> w then rt_task_ids r else []) (m_wallet_renttasks s))))"

section \<open>Sessions\<close>

definition createSessionId :: "'h task_env \<Rightarrow> string \<Rightarrow> string list \<Rightarrow> ('h tm, string) M" where
  "createSessionId E w signers s = (case getWalletSessionByWallet w s of
     Some ws \<Rightarrow> (Inr (ws_session_id ws), s)
   | None \<Rightarrow> (case create_session_id (hash_scratch E) (session_uuid E) of
        Inl f \<Rightarrow> (Inl f, s)
      | Inr i \<Rightarrow> (Inr i, session_add \<lparr>ws_wallet = w, ws_session_id = i, ws_signers = signers\<rparr> s)))"

definition getSessionId :: "string \<Rightarrow> 'h tm \<Rightarrow> string" where
  "getSessionId w s = (case getWalletSessionByWallet w s of Some ws \<Rightarrow> ws_session_id ws | None \<Rightarrow> [])"

definition checkSessionId :: "'h task_env \<Rightarrow> string \<Rightarrow> string \<Rightarrow> 'h tm \<Rightarrow> string" where
  "checkSessionId E i sg s =
     (if i = [] \<or> sg = [] then []
      else case getWalletSessionBySessionId i s of
        None \<Rightarrow> []
      | Some ws \<Rightarrow>
          if verify_sign (sign_env E) sg i (ws_wallet ws) then ws_wallet ws
          else if \<exists>w\<in>set (ws_signers ws). verify_sign (sign_env E) sg i w then ws_wallet ws else [])"

section \<open>Resources\<close>

definition check_cpu :: "'h task_env \<Rightarrow> i32 \<Rightarrow> i32 \<Rightarrow> i32 \<Rightarrow> fresult" where
  "check_cpu E sockets cores threads =
     (let n = sint (sockets * cores * threads) in
      if n \<le> 0 \<or> n > si_cores E \<or> sint sockets > si_physical_cpus E \<or> sint cores > si_physical_cores_per_cpu E \<or> sint threads > si_threads_per_cpu E
      then (ERR_ERROR, ''check cpu failed'') else FResultOk)"

text \<open>The GPUs of the host that no task holds whose domain is not shut off.\<close>

definition can_use_gpu :: "'h task_env \<Rightarrow> 'h tm \<Rightarrow> (string, string list) smap" where
  "can_use_gpu E s =
     foldl (\<lambda>m (i, _). if domain_status E i s = VIR_DOMAIN_SHUTOFF then m else foldl (\<lambda>m (g, _). smap_erase g m) m (getTaskGpus i s))
       (si_gpus E (host (tvm s))) (m_task_infos s)"

fun check_gpu_loop :: "(string, string list) smap \<Rightarrow> (string \<times> gpu_info) list \<Rightarrow> fresult" where
  "check_gpu_loop free [] = FResultOk"
| "check_gpu_loop free ((g, info) # gs) = (case smap_lookup free g of
     None \<Rightarrow> (ERR_ERROR, ''gpu '' @ g @ '' is already in use'')
   | Some devs \<Rightarrow> (case List.find (\<lambda>d. d \<notin> set devs) (gpu_devices info) of
        Some d \<Rightarrow> (ERR_ERROR, ''gpu device '' @ d @ '' not found in system'')
      | None \<Rightarrow> check_gpu_loop free gs))"

definition check_gpu :: "'h task_env \<Rightarrow> (string, gpu_info) smap \<Rightarrow> 'h tm \<Rightarrow> fresult" where
  "check_gpu E gpus s = check_gpu_loop (can_use_gpu E s) gpus"

definition check_mem :: "'h task_env \<Rightarrow> i64 \<Rightarrow> 'h tm \<Rightarrow> fresult" where
  "check_mem E n s = (if sint n > 0 \<and> sint n \<le> sint (si_mem_free E (host (tvm s))) then FResultOk else FResultError)"

definition occupied :: "virDomainState \<Rightarrow> bool" where
  "occupied d \<longleftrightarrow> d = VIR_DOMAIN_RUNNING \<or> d = VIR_DOMAIN_BLOCKED \<or> d = VIR_DOMAIN_PAUSED"

fun port_conflict_loop :: "'h task_env \<Rightarrow> u16 \<Rightarrow> string \<Rightarrow> 'h tm \<Rightarrow> (string \<times> task_info) list \<Rightarrow> fresult" where
  "port_conflict_loop E port exclude s [] = FResultOk"
| "port_conflict_loop E port exclude s ((i, t) # ts) =
     (if i = exclude \<or> \<not> occupied (domain_status E i s) then port_conflict_loop E port exclude s ts
      else if ti_vnc_port t = port then (ERR_ERROR, ''port conflict, exist vnc_port = '' @ dec_nat (unat port))
      else if ti_public_ip (ti_db t) \<noteq> [] then port_conflict_loop E port exclude s ts
      else if getSSHPort t = port then (ERR_ERROR, ''port conflict, exist ssh_port = '' @ dec_nat (unat port))
      else if getRDPPort t = port then (ERR_ERROR, ''port conflict, exist rdp_port = '' @ dec_nat (unat port))
      else port_conflict_loop E port exclude s ts)"

definition check_port_conflict :: "'h task_env \<Rightarrow> u16 \<Rightarrow> string \<Rightarrow> 'h tm \<Rightarrow> fresult" where
  "check_port_conflict E port exclude s = port_conflict_loop E port exclude s (m_task_infos s)"

definition isLinuxOS :: "string \<Rightarrow> bool" where "isLinuxOS os \<longleftrightarrow> contains_str os ''linux'' \<or> contains_str os ''ubuntu''"
definition isWindowsOS :: "string \<Rightarrow> bool" where "isWindowsOS os \<longleftrightarrow> contains_str os ''windows'' \<or> contains_str os ''win''"

text \<open>GPUs that have left the host are taken from the task, and its domain is defined anew.\<close>

definition checkXmlGpu :: "'h task_env \<Rightarrow> string \<Rightarrow> 'h tm \<Rightarrow> 'h tm" where
  "checkXmlGpu E tid s = (case smap_lookup (m_task_gpus s) tid of
     None \<Rightarrow> s
   | Some gpus \<Rightarrow>
       let lost = filter (\<lambda>(g, _). smap_lookup (si_gpus E (host (tvm s))) g = None) gpus;
           s = foldl (\<lambda>s (_, info). gpu_del_one tid (gpu_id info) s) s lost
       in if lost = [] then s else on_host (RedefineDomain E tid) s)"

definition drop_caches :: "'h task_env \<Rightarrow> 'h tm \<Rightarrow> 'h tm" where
  "drop_caches E = on_host (\<lambda>h. snd (run_shell E ''echo 3 > /proc/sys/vm/drop_caches'' h))"

definition check_ports :: "'h task_env \<Rightarrow> task_info \<Rightarrow> 'h tm \<Rightarrow> fresult" where
  "check_ports E t s =
     (let tid = ti_task_id (ti_db t); os = ti_operation_system (ti_db t) in
      if isLinuxOS os \<and> fst (check_port_conflict E (getSSHPort t) tid s) \<noteq> ERR_SUCCESS then (ERR_ERROR, ''check ssh_port failed'')
      else if \<not> isLinuxOS os \<and> isWindowsOS os \<and> fst (check_port_conflict E (getRDPPort t) tid s) \<noteq> ERR_SUCCESS then (ERR_ERROR, ''check rdp_port failed'')
      else if fst (check_port_conflict E (ti_vnc_port t) tid s) \<noteq> ERR_SUCCESS then (ERR_ERROR, ''check vnc_port failed'')
      else FResultOk)"

definition check_resource :: "'h task_env \<Rightarrow> task_info \<Rightarrow> 'h tm \<Rightarrow> fresult \<times> 'h tm" where
  "check_resource E t s =
     (let tid = ti_task_id (ti_db t); s = checkXmlGpu E tid s in
      if fst (check_cpu E (ti_cpu_sockets t) (ti_cpu_cores t) (ti_cpu_threads t)) \<noteq> ERR_SUCCESS then ((ERR_ERROR, ''check cpu failed''), s)
      else if fst (check_gpu E (getTaskGpus tid s) s) \<noteq> ERR_SUCCESS then ((ERR_ERROR, ''check gpu failed''), s)
      else let s' = (if fst (check_mem E (ti_mem_size t) s) \<noteq> ERR_SUCCESS then drop_caches E s else s) in
      if fst (check_mem E (ti_mem_size t) s) \<noteq> ERR_SUCCESS \<and> fst (check_mem E (ti_mem_size t) s') \<noteq> ERR_SUCCESS then ((ERR_ERROR, ''check memory failed''), s')
      else (check_ports E t s', s'))"

section \<open>Requests\<close>

definition not_exist :: fresult where "not_exist = (ERR_ERROR, ''task not exist'')"

text \<open>The task must be in the table and its domain must be defined.\<close>

definition with_task :: "'h task_env \<Rightarrow> string \<Rightarrow> (task_info \<Rightarrow> 'h tm \<Rightarrow> fresult \<times> 'h tm) \<Rightarrow> 'h tm \<Rightarrow> fresult \<times> 'h tm" where
  "with_task E tid f s = (case getTaskInfo tid s of
     None \<Rightarrow> (not_exist, s)
   | Some t \<Rightarrow> (if IsExistDomain E tid (tvm s) then f t s else (not_exist, s)))"

definition accept_event :: "string \<Rightarrow> task_status \<Rightarrow> task_event \<Rightarrow> 'h tm \<Rightarrow> fresult \<times> 'h tm" where
  "accept_event tid st ev s = (FResultOk, pushTaskEvent ev (setTaskStatus tid st s))"

definition task_is :: "virDomainState \<Rightarrow> fresult" where
  "task_is d = (ERR_ERROR, ''task is '' @ vm_status_string d)"

text \<open>None of the requests looks at the wallet.\<close>

definition startTask :: "'h task_env \<Rightarrow> string \<Rightarrow> string \<Rightarrow> 'h tm \<Rightarrow> fresult \<times> 'h tm" where
  "startTask E w tid = with_task E tid (\<lambda>t s. case check_resource E t s of (r, s) \<Rightarrow>
     if fst r \<noteq> ERR_SUCCESS then (r, s)
     else let d = domain_status E tid s in
       if d = VIR_DOMAIN_NOSTATE \<or> d = VIR_DOMAIN_SHUTOFF \<or> d = VIR_DOMAIN_PMSUSPENDED
       then accept_event tid TS_Task_Starting (StartTaskEvent tid) s else (task_is d, s))"

definition shutdownTask :: "'h task_env \<Rightarrow> string \<Rightarrow> string \<Rightarrow> 'h tm \<Rightarrow> fresult \<times> 'h tm" where
  "shutdownTask E w tid = with_task E tid (\<lambda>t s. let d = domain_status E tid s in
     if d \<noteq> VIR_DOMAIN_SHUTOFF \<and> d \<noteq> VIR_DOMAIN_SHUTDOWN
     then accept_event tid TS_Task_BeingShutdown (ShutdownTaskEvent tid) s else (task_is d, s))"

definition poweroffTask :: "'h task_env \<Rightarrow> string \<Rightarrow> string \<Rightarrow> 'h tm \<Rightarrow> fresult \<times> 'h tm" where
  "poweroffTask E w tid = with_task E tid (\<lambda>t s. let d = domain_status E tid s in
     if d \<noteq> VIR_DOMAIN_SHUTOFF then accept_event tid TS_Task_BeingPoweroff (PowerOffTaskEvent tid) s else (task_is d, s))"

definition restartTask :: "'h task_env \<Rightarrow> string \<Rightarrow> string \<Rightarrow> bool \<Rightarrow> 'h tm \<Rightarrow> fresult \<times> 'h tm" where
  "restartTask E w tid force_reboot = with_task E tid (\<lambda>t s. case check_resource E t s of (r, s) \<Rightarrow>
     if fst r \<noteq> ERR_SUCCESS then (r, s)
     else let d = domain_status E tid s in
       if d = VIR_DOMAIN_NOSTATE \<or> d = VIR_DOMAIN_SHUTOFF \<or> d = VIR_DOMAIN_RUNNING
       then accept_event tid TS_Task_Restarting (if force_reboot then ForceRebootTaskEvent tid else ReStartTaskEvent tid) s else (task_is d, s))"

definition resetTask :: "'h task_env \<Rightarrow> string \<Rightarrow> string \<Rightarrow> 'h tm \<Rightarrow> fresult \<times> 'h tm" where
  "resetTask E w tid = with_task E tid (\<lambda>t s. let d = domain_status E tid s in
     if d = VIR_DOMAIN_RUNNING then accept_event tid TS_Task_Resetting (ResetTaskEvent tid) s else (task_is d, s))"

definition deleteTask :: "'h task_env \<Rightarrow> string \<Rightarrow> string \<Rightarrow> 'h tm \<Rightarrow> fresult \<times> 'h tm" where
  "deleteTask E w tid = with_task E tid (\<lambda>t s. accept_event tid TS_Task_Deleting (DeleteTaskEvent tid) s)"

section \<open>Disks\<close>

definition close_first :: fresult where "close_first = (ERR_ERROR, ''please close task first and try again'')"

definition resizeDisk :: "'h task_env \<Rightarrow> string \<Rightarrow> string \<Rightarrow> i64 \<Rightarrow> 'h tm \<Rightarrow> fresult \<times> 'h tm" where
  "resizeDisk E tid dname size_k s = (case smap_lookup (m_task_disks s) tid of
     None \<Rightarrow> ((ERR_ERROR, ''task have no disk''), s)
   | Some disks \<Rightarrow> (case smap_lookup disks dname of
        None \<Rightarrow> ((ERR_ERROR, ''task have no disk:'' @ dname), s)
      | Some d \<Rightarrow>
          if sint size_k \<le> 0 then ((ERR_ERROR, ''size is invalid (usage: size > 0)''), s)
          else if domain_status E tid s \<noteq> VIR_DOMAIN_SHUTOFF then (close_first, s)
          else (FResultOk, pushTaskEvent (ResizeDiskEvent tid dname size_k (disk_source_file d)) s)))"

definition addNewDisk :: "'h task_env \<Rightarrow> string \<Rightarrow> i64 \<Rightarrow> string \<Rightarrow> 'h tm \<Rightarrow> fresult \<times> 'h tm" where
  "addNewDisk E tid size_k mount_dir s = (case smap_lookup (m_task_disks s) tid of
     None \<Rightarrow> ((ERR_ERROR, ''task have no disk''), s)
   | Some disks \<Rightarrow>
       if sint size_k \<le> 0 then ((ERR_ERROR, ''size is invalid (usage: size > 0)''), s)
       else if mount_dir = [] \<or> \<not> file_exists E (host (tvm s)) mount_dir then ((ERR_ERROR, ''not exist mount directory: '' @ mount_dir), s)
       else if domain_status E tid s \<noteq> VIR_DOMAIN_SHUTOFF then (close_first, s)
       else if sint (si_disk_free E (host (tvm s)) mount_dir) \<le> 1024 * 1024
         then ((ERR_ERROR, ''mount directory:'' @ mount_dir @ '' have no enough space''), s)
       else (FResultOk, pushTaskEvent (AddDiskEvent tid size_k mount_dir) s))"

definition deleteDisk :: "'h task_env \<Rightarrow> string \<Rightarrow> string \<Rightarrow> 'h tm \<Rightarrow> fresult \<times> 'h tm" where
  "deleteDisk E tid dname s = (case smap_lookup (m_task_disks s) tid of
     None \<Rightarrow> ((ERR_ERROR, ''task no disk''), s)
   | Some disks \<Rightarrow> (case smap_lookup disks dname of
        None \<Rightarrow> ((ERR_ERROR, ''task have no disk:'' @ dname), s)
      | Some d \<Rightarrow>
          if domain_status E tid s \<noteq> VIR_DOMAIN_SHUTOFF then (close_first, s)
          else if dname = ''vda'' then ((ERR_ERROR, ''can not allowed to delete disk:'' @ [CHR 0x27] @ ''vda'' @ [CHR 0x27]), s)
          else (FResultOk, pushTaskEvent (DeleteDiskEvent tid dname) s)))"

definition createAndUploadSnapshot :: "'h task_env \<Rightarrow> string \<Rightarrow> string \<Rightarrow> string \<Rightarrow> 'h tm \<Rightarrow> fresult \<times> 'h tm" where
  "createAndUploadSnapshot E tid sname desc s = (case smap_lookup (m_task_disks s) tid of
     None \<Rightarrow> ((ERR_ERROR, ''task have no disk''), s)
   | Some disks \<Rightarrow> (case smap_lookup disks ''vda'' of
        None \<Rightarrow> ((ERR_ERROR, ''task have no disk:'' @ [CHR 0x27] @ ''vda'' @ [CHR 0x27]), s)
      | Some d \<Rightarrow>
          if domain_status E tid s \<noteq> VIR_DOMAIN_SHUTOFF then (close_first, s)
          else (case getTaskInfo tid s of
            None \<Rightarrow> ((ERR_ERROR, ''not found vda'' @ [CHR 0x27] @ ''s root backfile''), s)
          | Some t \<Rightarrow>
              if ti_vda_rootbackfile (ti_db t) = [] then ((ERR_ERROR, ''not found vda'' @ [CHR 0x27] @ ''s root backfile''), s)
              else let file = ''/tmp/dbc_snapshots/snap_'' @ dec_nat (rand_number E mod 100000) @ ''_'' @ time_str E @ ''_'' @ ''vda.qcow2'';
                       item = \<lparr>snap_name = sname, snap_file = file, snap_create_time = time_stamp E, snap_desc = desc\<rparr>;
                       old = (case smap_lookup (m_task_snapshots s) tid of None \<Rightarrow> \<lparr>snaps = [], snap_status = []\<rparr> | Some si \<Rightarrow> si)
                   in (FResultOk, pushTaskEvent (CreateSnapshotEvent tid sname (ti_vda_rootbackfile (ti_db t)) (disk_source_file d) file)
                        (put_snapshots tid (setSnapshotStatus sname SS_Creating (addSnapshot item old)) s)))))"

definition process_resize_disk :: "'h task_env \<Rightarrow> string \<Rightarrow> string \<Rightarrow> i64 \<Rightarrow> string \<Rightarrow> 'h tm \<Rightarrow> 'h tm" where
  "process_resize_disk E tid dname size_k source s =
     (let s = on_host (\<lambda>h. snd (run_shell E (''qemu-img resize '' @ source @ '' +'' @ dec_int (sint size_k) @ ''K'') h)) s;
          n = GetDiskVirtualSize E (host (tvm s)) tid dname
      in s\<lparr>m_task_disks := smap_update tid (smap_update dname (\<lambda>d. d\<lparr>disk_virtual_size := n\<rparr>)) (m_task_disks s)\<rparr>)"

text \<open>
  The name of a new disk ends in the character after the one the last disk of the map ends in. When
  the task has no disk (any more) the last element of an empty map is read.
\<close>

definition next_disk_name :: "(string, disk_info) smap \<Rightarrow> string option" where
  "next_disk_name disks = (if disks = [] \<or> disk_name (snd (last disks)) = [] then None
     else Some (''vd'' @ [char_of (of_char (last (disk_name (snd (last disks)))) + 1 :: nat)]))"

definition process_add_disk :: "'h task_env \<Rightarrow> string \<Rightarrow> i64 \<Rightarrow> string \<Rightarrow> ('h tm, unit) M" where
  "process_add_disk E tid size_k mount_dir s = (case next_disk_name (smap_get (m_task_disks s) tid) of
     None \<Rightarrow> (Inl Undefined_behaviour, s)
   | Some dname \<Rightarrow>
       let file = mount_dir @ ''/data_'' @ dec_nat (rand_number E mod 100000) @ ''_'' @ time_str E @ ''.qcow2'';
           s = on_host (\<lambda>h. snd (run_shell E (''qemu-img create -f qcow2 '' @ file @ '' '' @ dec_int (sint size_k) @ ''K'') h)) s
       in case AttachDisk E tid dname file (host (tvm s)) of
            (False, h) \<Rightarrow> (Inr (), on_host (\<lambda>_. remove_file E file h) s)
          | (True, h) \<Rightarrow> (Inr (), addDiskInfo tid \<lparr>disk_name = dname, disk_virtual_size = size_k * 1024, disk_source_file = file\<rparr> (on_host (\<lambda>_. h) s)))"

definition process_delete_disk :: "'h task_env \<Rightarrow> string \<Rightarrow> string \<Rightarrow> 'h tm \<Rightarrow> 'h tm" where
  "process_delete_disk E tid dname s = (case DetachDisk E tid dname (host (tvm s)) of
     (False, h) \<Rightarrow> on_host (\<lambda>_. h) s
   | (True, h) \<Rightarrow> let s = on_host (\<lambda>_. h) s in
       case smap_lookup (smap_get (m_task_disks s) tid) dname of
         None \<Rightarrow> s
       | Some d \<Rightarrow> on_host (remove_file E (disk_source_file d))
           (s\<lparr>m_task_disks := smap_update tid (smap_erase dname) (m_task_disks s)\<rparr>))"

text \<open>
  The upload calls back when it has ended; here its start only. When the task has lost its snapshots
  in the meantime the null pointer of the map is used.
\<close>

definition process_create_snapshot :: "'h task_env \<Rightarrow> string \<Rightarrow> string \<Rightarrow> string \<Rightarrow> string \<Rightarrow> string \<Rightarrow> ('h tm, unit) M" where
  "process_create_snapshot E tid sname root source file s =
     (let s = on_host (run_cmds E [''mkdir -p /tmp/dbc_snapshots'', ''qemu-img convert -f qcow2 -O qcow2 -B '' @ root @ '' '' @ source @ '' '' @ file]) s
      in case image_upload E file (host (tvm s)) of
           (False, h) \<Rightarrow> (Inr (), terminateUploadSnapshot E tid sname (on_host (\<lambda>_. h) s))
         | (True, h) \<Rightarrow> let s = on_host (\<lambda>_. h) s in
             (case smap_lookup (m_task_snapshots s) tid of
                None \<Rightarrow> (Inl Undefined_behaviour, s)
              | Some si \<Rightarrow> (Inr (), s\<lparr>m_task_snapshots := smap_insert tid (setSnapshotStatus sname SS_Uploading si) (m_task_snapshots s)\<rparr>)))"

section \<open>The process thread\<close>

text \<open>A transitional status gives way to a final one, unless another request has changed it.\<close>

definition resolve_status :: "string \<Rightarrow> task_status \<Rightarrow> task_status \<Rightarrow> 'h tm \<Rightarrow> 'h tm" where
  "resolve_status tid from to = upd_info tid (\<lambda>t. if ti_status t = from then t\<lparr>ti_status := to\<rparr> else t)"

definition backing_cmd :: "string \<Rightarrow> string" where
  "backing_cmd f = ''qemu-img info '' @ f @ '' | grep -i '' @ [CHR 0x27] @ ''backing file:'' @ [CHR 0x27] @ '' | awk -F '' @ [CHR 0x27] @ '': '' @ [CHR 0x27] @ '' '' @ [CHR 0x27] @ ''{print $2}'' @ [CHR 0x27]"

text \<open>The file at the end of the chain of backing files; a chain that comes back to itself is followed for ever.\<close>

partial_function (option) root_loop :: "('h, 'z) host_env_scheme \<Rightarrow> string \<Rightarrow> string \<Rightarrow> 'h \<Rightarrow> (string \<times> 'h) option" where
  "root_loop E back root h =
     (if back = [] then Some (root, h) else case run_shell E (backing_cmd back) h of (back', h') \<Rightarrow> root_loop E back' back h')"

definition root_backfile :: "'h task_env \<Rightarrow> string \<Rightarrow> ('h tm, string) M" where
  "root_backfile E img s =
     (let vda = ''/data/'' @ img in
      case run_shell E (backing_cmd vda) (host (tvm s)) of (back, h) \<Rightarrow>
        (case root_loop E back vda h of None \<Rightarrow> (Inl Diverges, s) | Some (root, h) \<Rightarrow> (Inr root, on_host (\<lambda>_. h) s)))"

definition store_root_backfile :: "'h task_env \<Rightarrow> string \<Rightarrow> ('h tm, unit) M" where
  "store_root_backfile E tid s = (case getTaskInfo tid s of
     None \<Rightarrow> (Inr (), s)
   | Some t \<Rightarrow>
       if ti_bios_mode (ti_db t) = ''pxe'' \<or> ti_vda_rootbackfile (ti_db t) \<noteq> [] then (Inr (), s)
       else (case root_backfile E (ti_image_name (ti_db t)) s of
          (Inl f, s) \<Rightarrow> (Inl f, s)
        | (Inr root, s) \<Rightarrow> (Inr (), info_store tid (upd_info tid (\<lambda>t. t\<lparr>ti_db := (ti_db t)\<lparr>ti_vda_rootbackfile := root\<rparr>\<rparr>) s))))"

definition create_task_iptable :: "'h task_env \<Rightarrow> string \<Rightarrow> task_info \<Rightarrow> string \<Rightarrow> 'h tm \<Rightarrow> bool \<times> 'h tm" where
  "create_task_iptable E tid t local_ip s =
     (let host_ip = si_route_ip E (host (tvm s)) in
      if host_ip \<noteq> [] \<and> local_ip \<noteq> []
      then (True, iptable_add \<lparr>ipt_task_id = tid, ipt_host_ip = host_ip, ipt_task_local_ip = local_ip,
              ipt_ssh_port = dec_nat (unat (getSSHPort t)), ipt_rdp_port = dec_nat (unat (getRDPPort t)),
              ipt_custom_port = ti_custom_port (ti_db t), ipt_public_ip = ti_public_ip (ti_db t)\<rparr> s)
      else (False, s))"

text \<open>
  The port forwarding of a domain that runs: without an address or a route the domain is destroyed
  again and the status becomes the error \<open>err\<close>.
\<close>

definition make_iptable :: "'h task_env \<Rightarrow> string \<Rightarrow> task_info \<Rightarrow> task_status \<Rightarrow> task_status \<Rightarrow> 'h tm \<Rightarrow> bool \<times> 'h tm" where
  "make_iptable E tid t from err s =
     (case on_vm (GetDomainLocalIP E tid) s of (ip, s) \<Rightarrow>
        let fail = (\<lambda>s. (False, resolve_status tid from err (snd (on_vm (DestroyDomain E tid) s)))) in
        if ip = [] then fail s
        else case create_task_iptable E tid t ip s of (ok, s) \<Rightarrow> if ok then (True, s) else fail s)"

definition process_create_task :: "'h task_env \<Rightarrow> string \<Rightarrow> string \<Rightarrow> ('h tm, unit) M" where
  "process_create_task E tid bios s = (case getTaskInfo tid s of
     None \<Rightarrow> (Inr (), s)
   | Some t \<Rightarrow>
       case on_vm (DefineNWFilter E tid (ti_nwfilter (ti_db t))) s of (ok, s) \<Rightarrow>
         if \<not> ok then (Inr (), resolve_status tid TS_Task_Creating TS_CreateTaskError s)
         else case CreateDomain E tid (host (tvm s)) of (ok, h) \<Rightarrow>
           let s = on_host (\<lambda>_. h) s in
           if \<not> ok then (Inr (), resolve_status tid TS_Task_Creating TS_CreateTaskError s)
           else if bios = ''pxe'' then (Inr (), resolve_status tid TS_Task_Creating TS_Task_Running s)
           else case make_iptable E tid t TS_Task_Creating TS_CreateTaskError s of (ok, s) \<Rightarrow>
             if \<not> ok then (Inr (), s)
             else mbind (add_iptable_to_system E tid) (\<lambda>_ s.
               let user = (if isLinuxOS (ti_operation_system (ti_db t)) then ''dbc'' else ''Administrator'') in
               case SetDomainUserPassword E tid user (ti_login_password (ti_db t)) (host (tvm s)) of (ok, h) \<Rightarrow>
                 (Inr (), resolve_status tid TS_Task_Creating TS_Task_Running
                    (upd_info tid (\<lambda>t. t\<lparr>ti_db := (if ok then (ti_db t)\<lparr>ti_login_username := user\<rparr>
                        else (ti_db t)\<lparr>ti_login_password := ''N/A'', ti_login_username := ''N/A''\<rparr>)\<rparr>) (on_host (\<lambda>_. h) s)))) s)"

definition process_start_task :: "'h task_env \<Rightarrow> string \<Rightarrow> ('h tm, unit) M" where
  "process_start_task E tid s = (case getTaskInfo tid s of
     None \<Rightarrow> (Inr (), s)
   | Some t \<Rightarrow>
       case on_vm (StartDomain E tid) s of (r, s) \<Rightarrow>
         if r \<noteq> ERR_SUCCESS then (Inr (), resolve_status tid TS_Task_Starting TS_StartTaskError s)
         else case (if ti_bios_mode (ti_db t) \<noteq> ''pxe'' \<and> getIptableInfo tid s = None
                    then make_iptable E tid t TS_Task_Starting TS_StartTaskError s else (True, s)) of (ok, s) \<Rightarrow>
           if \<not> ok then (Inr (), s)
           else add_iptable_to_system E tid (resolve_status tid TS_Task_Starting TS_Task_Running s))"

text \<open>\<open>process_shutdown_task\<close> and \<open>process_poweroff_task\<close> differ in the two statuses only.\<close>

definition process_destroy :: "'h task_env \<Rightarrow> task_status \<Rightarrow> task_status \<Rightarrow> string \<Rightarrow> ('h tm, unit) M" where
  "process_destroy E from err tid s = (case getTaskInfo tid s of
     None \<Rightarrow> (Inr (), s)
   | Some t \<Rightarrow>
       case on_vm (DestroyDomain E tid) s of (r, s) \<Rightarrow>
         if r \<noteq> ERR_SUCCESS then (Inr (), resolve_status tid from err s)
         else store_root_backfile E tid (remove_iptable_from_system E tid (resolve_status tid from TS_Task_Shutoff s)))"

definition process_shutdown_task :: "'h task_env \<Rightarrow> string \<Rightarrow> ('h tm, unit) M" where
  "process_shutdown_task E = process_destroy E TS_Task_BeingShutdown TS_ShutdownTaskError"

definition process_poweroff_task :: "'h task_env \<Rightarrow> string \<Rightarrow> ('h tm, unit) M" where
  "process_poweroff_task E = process_destroy E TS_Task_BeingPoweroff TS_PoweroffTaskError"

text \<open>The end of a restart.\<close>

definition restarted :: "'h task_env \<Rightarrow> string \<Rightarrow> errcode \<times> 'h tm \<Rightarrow> (failure + unit) \<times> 'h tm" where
  "restarted E tid = (\<lambda>(r, s).
     if r \<noteq> ERR_SUCCESS then (Inr (), resolve_status tid TS_Task_Restarting TS_RestartTaskError s)
     else add_iptable_to_system E tid (resolve_status tid TS_Task_Restarting TS_Task_Running s))"

definition process_restart_task :: "'h task_env \<Rightarrow> string \<Rightarrow> ('h tm, unit) M" where
  "process_restart_task E tid s = (case getTaskInfo tid s of
     None \<Rightarrow> (Inr (), s)
   | Some t \<Rightarrow>
       let d = domain_status E tid s in
       if d = VIR_DOMAIN_SHUTOFF then restarted E tid (on_vm (StartDomain E tid) s)
       else if d = VIR_DOMAIN_RUNNING then restarted E tid (on_vm (RebootDomain E tid) s)
       else (Inr (), s))"

definition process_force_reboot_task :: "'h task_env \<Rightarrow> string \<Rightarrow> ('h tm, unit) M" where
  "process_force_reboot_task E tid s = (case getTaskInfo tid s of
     None \<Rightarrow> (Inr (), s)
   | Some t \<Rightarrow>
       if domain_status E tid s = VIR_DOMAIN_SHUTOFF then restarted E tid (on_vm (StartDomain E tid) s)
       else case on_vm (DestroyDomain E tid) s of (r, s) \<Rightarrow>
         if r \<noteq> ERR_SUCCESS then (Inr (), resolve_status tid TS_Task_Restarting TS_RestartTaskError s)
         else restarted E tid (on_vm (StartDomain E tid) s))"

definition process_reset_task :: "'h task_env \<Rightarrow> string \<Rightarrow> 'h tm \<Rightarrow> 'h tm" where
  "process_reset_task E tid s = (case getTaskInfo tid s of
     None \<Rightarrow> s
   | Some t \<Rightarrow> (case on_vm (ResetDomain E tid) s of (r, s) \<Rightarrow>
       resolve_status tid TS_Task_Resetting (if r \<noteq> ERR_SUCCESS then TS_ResetTaskError else TS_Task_Running) s))"

definition process_delete_task :: "'h task_env \<Rightarrow> string \<Rightarrow> 'h tm \<Rightarrow> 'h tm" where
  "process_delete_task E tid s = (case getTaskInfo tid s of None \<Rightarrow> s | Some t \<Rightarrow> delete_task E tid s)"

fun process_event :: "'h task_env \<Rightarrow> task_event \<Rightarrow> ('h tm, unit) M" where
  "process_event E (CreateTaskEvent tid bios) = process_create_task E tid bios"
| "process_event E (StartTaskEvent tid) = process_start_task E tid"
| "process_event E (ShutdownTaskEvent tid) = process_shutdown_task E tid"
| "process_event E (PowerOffTaskEvent tid) = process_poweroff_task E tid"
| "process_event E (ReStartTaskEvent tid) = process_restart_task E tid"
| "process_event E (ForceRebootTaskEvent tid) = process_force_reboot_task E tid"
| "process_event E (ResetTaskEvent tid) = mmodify (process_reset_task E tid)"
| "process_event E (DeleteTaskEvent tid) = mmodify (process_delete_task E tid)"
| "process_event E (ModifyTaskEvent tid) = mret ()"
| "process_event E (ResizeDiskEvent tid dname size_k source) = mmodify (process_resize_disk E tid dname size_k source)"
| "process_event E (AddDiskEvent tid size_k mount_dir) = process_add_disk E tid size_k mount_dir"
| "process_event E (DeleteDiskEvent tid dname) = mmodify (process_delete_disk E tid dname)"
| "process_event E (CreateSnapshotEvent tid sname root source file) = process_create_snapshot E tid sname root source file"

definition process_task :: "'h task_env \<Rightarrow> task_event \<Rightarrow> ('h tm, unit) M" where
  "process_task E ev = mbind (process_event E ev) (\<lambda>_. mmodify update_running_tasks)"

text \<open>One round of the process thread: the oldest event leaves the queue and is processed.\<close>

definition process_round :: "'h task_env \<Rightarrow> ('h tm, unit) M" where
  "process_round E s = (case m_events s of [] \<Rightarrow> (Inr (), s) | ev # evs \<Rightarrow> process_task E ev (s\<lparr>m_events := evs\<rparr>))"

section \<open>The prune thread\<close>

definition task_ids_of :: "string \<Rightarrow> 'h tm \<Rightarrow> string list" where
  "task_ids_of w s = (case getWalletRentTask w s of None \<Rightarrow> [] | Some r \<Rightarrow> rt_task_ids r)"

definition rent_end_of :: "string \<Rightarrow> 'h tm \<Rightarrow> i64" where
  "rent_end_of w s = (case getWalletRentTask w s of None \<Rightarrow> 0 | Some r \<Rightarrow> rt_rent_end r)"

text \<open>A task is kept ten days after the rent has ended, at 120 blocks an hour.\<close>

definition reserve_blocks :: i64 where "reserve_blocks = 120 * 24 * 10"

definition prune_by_status :: "'h task_env \<Rightarrow> machine_status \<Rightarrow> string \<Rightarrow> 'h tm \<Rightarrow> 'h tm" where
  "prune_by_status E st w s = (case st of
     MS_Verify \<Rightarrow> foldl (\<lambda>s i. if is_check_task i then s else close_task E i s) s (task_ids_of w s)
   | MS_Online \<Rightarrow> foldl (\<lambda>s i. if is_check_task i then delete_task E i s else close_task E i s) s (task_ids_of w s)
   | MS_Rented \<Rightarrow> foldl (\<lambda>s i. if is_check_task i then delete_task E i s else s) s (task_ids_of w s)
   | MS_Unknown \<Rightarrow> s)"

definition prune_by_renter :: "'h task_env \<Rightarrow> string \<Rightarrow> i64 \<Rightarrow> i64 \<Rightarrow> string \<Rightarrow> 'h tm \<Rightarrow> 'h tm" where
  "prune_by_renter E renter rent_end block w s =
     (if w \<noteq> renter then
        let s = foldl (\<lambda>s i. close_task E i s) s (task_ids_of w s) in
        if sint block > 0 \<and> sint (rent_end_of w s + reserve_blocks) < sint block
        then foldl (\<lambda>s i. delete_task E i s) s (task_ids_of w s) else s
      else if sint rent_end > sint (rent_end_of w s) then rent_set_end w rent_end s else s)"

definition prune_wallet :: "'h task_env \<Rightarrow> machine_status \<Rightarrow> string \<Rightarrow> i64 \<Rightarrow> i64 \<Rightarrow> string \<Rightarrow> 'h tm \<Rightarrow> 'h tm" where
  "prune_wallet E st renter rent_end block w s =
     (let s = prune_by_status E st w s in
      if st = MS_Online \<or> st = MS_Rented then prune_by_renter E renter rent_end block w s else s)"

text \<open>The JSON text goes out encoded, by UDP.\<close>

definition broadcast_message :: "'h task_env \<Rightarrow> string \<Rightarrow> 'h tm \<Rightarrow> 'h tm" where
  "broadcast_message E msg = on_host (udp_broadcast E (base64_encode (bytes_of_string
     (''{'' @ [CHR 0x22] @ ''node_id'' @ [CHR 0x22] @ '':'' @ [CHR 0x22] @ local_node_id (henv (sign_env E)) @ [CHR 0x22] @ '', '' @
      [CHR 0x22] @ ''status'' @ [CHR 0x22] @ '':'' @ [CHR 0x22] @ msg @ [CHR 0x22] @ ''}''))))"

definition prune_round :: "'h task_env \<Rightarrow> 'h tm \<Rightarrow> 'h tm" where
  "prune_round E s =
     (let s = on_host (shell_remove_reject_iptable_from_system E) s;
          st = chain_machine_status E (host (tvm s))
      in if st = MS_Unknown then s
         else let (renter, rent_end) = chain_cur_renter E (host (tvm s));
                  block = chain_cur_block E (host (tvm s));
                  s = foldl (\<lambda>s w. prune_wallet E st renter rent_end block w s) s (map fst (m_wallet_renttasks s));
                  s = (if st = MS_Online then drop_caches E s else s)
              in broadcast_message E (if sint rent_end \<le> 0 then ''empty'' else ''renting'') s)"

section \<open>Creating\<close>

record create_params =
  cp_task_id :: string
  cp_desc :: string
  cp_login_password :: string
  cp_image_name :: string
  cp_ssh_port :: u16
  cp_rdp_port :: u16
  cp_custom_port :: "string list"
  cp_cpu_sockets :: int
  cp_cpu_cores :: int
  cp_cpu_threads :: int
  cp_mem_size :: i64
  cp_disk_size :: i64
  cp_gpus :: "(string, string list) smap"
  cp_data_file_name :: string
  cp_vnc_port :: u16
  cp_vnc_password :: string
  cp_operation_system :: string
  cp_bios_mode :: string
  cp_multicast :: "string list"
  cp_network_name :: string
  cp_public_ip :: string
  cp_nwfilter :: "string list"

definition genpwd_chars :: string where
  "genpwd_chars = ''ABCDEFGHIJKLMNOPQRSTUVWXYZabcdefghijklmnopqrstuvwxyz0123456789_/+[]@#^''"

text \<open>The first character is a letter; \<open>rs\<close> are the values of \<open>rand\<close>.\<close>

definition genpwd :: "nat list \<Rightarrow> string" where
  "genpwd rs = genpwd_chars ! (rs ! 0 mod 52) # map (\<lambda>i. genpwd_chars ! (rs ! i mod 70)) [1..<16]"

definition tolower :: "char \<Rightarrow> char" where
  "tolower c = (let n = of_char c :: nat in if 65 \<le> n \<and> n \<le> 90 then char_of (n + 32) else c)"

definition check_image :: "'h task_env \<Rightarrow> string \<Rightarrow> 'h tm \<Rightarrow> fresult" where
  "check_image E img s =
     (if img = [] then (ERR_ERROR, ''image_name is empty'')
      else if path_extension E img \<noteq> ''.qcow2'' then (ERR_ERROR, [CHR 0x27] @ ''image_name'' @ [CHR 0x27] @ '' extension name is invalid'')
      else if \<not> file_exists E (host (tvm s)) (''/data/'' @ img)
        then (ERR_ERROR, [CHR 0x27] @ ''image_name'' @ [CHR 0x27] @ '' is not exist (path:'' @ ''/data/'' @ img @ '')'')
      else if image_busy E (host (tvm s)) img
        then (ERR_ERROR, [CHR 0x27] @ ''image_name'' @ [CHR 0x27] @ '':'' @ img @ '' in downloading or uploading, please try again later'')
      else FResultOk)"

definition check_operation_system :: "string \<Rightarrow> fresult" where
  "check_operation_system os =
     (if os = [] then (ERR_ERROR, ''operation_system is emtpy'')
      else if isLinuxOS os \<or> isWindowsOS os then FResultOk
      else (ERR_ERROR, ''unsupported operation system: '' @ os @ '' (usage: '' @ [CHR 0x27] @ ''linux'' @ [CHR 0x27] @ '' '' @ [CHR 0x27] @ ''windows'' @ [CHR 0x27] @ '')''))"

definition check_bios_mode :: "string \<Rightarrow> fresult" where
  "check_bios_mode b =
     (if b = [] then (ERR_ERROR, ''bios_mode is emtpy'')
      else if b = ''legacy'' \<or> b = ''uefi'' \<or> b = ''pxe'' then FResultOk
      else (ERR_ERROR, ''unsupported bios mode: '' @ b @ '' (usage: '' @ [CHR 0x27] @ ''legacy(default)'' @ [CHR 0x27, CHR 0xE3, CHR 0x80, CHR 0x81, CHR 0x27] @
        ''uefi'' @ [CHR 0x27, CHR 0xE3, CHR 0x80, CHR 0x81, CHR 0x27] @ ''pxe'' @ [CHR 0x27] @ '')''))"

definition check_public_ip :: "'h task_env \<Rightarrow> string \<Rightarrow> string \<Rightarrow> 'h tm \<Rightarrow> fresult" where
  "check_public_ip E ip tid s =
     (if ip = [] then FResultOk
      else if \<not> valid_ip E ip then (ERR_ERROR, ''invalid public ip'')
      else if si_route_ip E (host (tvm s)) = ip then (ERR_ERROR, ''public ip being used'')
      else if \<exists>(i, t)\<in>set (m_task_infos s). i \<noteq> tid \<and> ti_public_ip (ti_db t) = ip then (ERR_ERROR, ''public ip being used'')
      else FResultOk)"

definition check_ssh_port :: "string \<Rightarrow> fresult" where
  "check_ssh_port p = (if p = [] then (ERR_ERROR, ''ssh_port is empty'') else if \<not> is_digits p then (ERR_ERROR, ''ssh_port is not digit'') else FResultOk)"

definition check_rdp_port :: "string \<Rightarrow> fresult" where
  "check_rdp_port p = (if p = [] then (ERR_ERROR, ''rdp_port is empty'') else if \<not> is_digits p then (ERR_ERROR, ''rdp_port is not digit'') else FResultOk)"

definition check_vnc_port :: "string \<Rightarrow> fresult" where
  "check_vnc_port p =
     (if p = [] then (ERR_ERROR, ''vnc_port is empty'')
      else if \<not> is_digits p then (ERR_ERROR, ''vnc_port is not digit'')
      else let n = (word_of_int (atoi p) :: u16) in
        if n < 5900 \<or> n > 6000 then (ERR_ERROR, ''vnc_port is invalid (usage: [5900, 6000])'') else FResultOk)"

text \<open>The text of an address that is no IPv4 address makes the library throw.\<close>

fun check_multicast :: "'h task_env \<Rightarrow> string list \<Rightarrow> failure + fresult" where
  "check_multicast E [] = Inr FResultOk"
| "check_multicast E (a # as) = (case split_parts a CHR '':'' of
     [ip, port] \<Rightarrow> (case is_multicast E ip of
        None \<Rightarrow> Inl (Throw System_error)
      | Some False \<Rightarrow> Inr (ERR_ERROR, ''address is not a multicast address'')
      | Some True \<Rightarrow> check_multicast E as)
   | _ \<Rightarrow> Inr (ERR_ERROR, ''multicast format: ip:port''))"

text \<open>The loop \<open>while (tmp_cores % m != 0) tmp_cores += 1\<close>.\<close>

function round_up :: "int \<Rightarrow> int \<Rightarrow> int" where
  "round_up t m = (if m \<le> 0 \<or> t mod m = 0 then t else round_up (t + 1) m)"
  by pat_completeness auto
termination
proof (relation "measure (\<lambda>(t, m). nat (m - 1 - (t - 1) mod m))")
  fix t m :: int
  assume "\<not> (m \<le> 0 \<or> t mod m = 0)"
  then have m: "0 < m" "t mod m \<noteq> 0" by simp_all
  have "(t mod m - 1) mod m = t mod m - 1"
    by (rule mod_pos_pos_trivial) (use m pos_mod_bound [of m t] pos_mod_sign [of m t] in linarith)+
  then have "(t - 1) mod m = t mod m - 1" by (simp add: mod_diff_left_eq)
  with m pos_mod_bound [of m t] show "((t + 1, m), (t, m)) \<in> measure (\<lambda>(t, m). nat (m - 1 - (t - 1) mod m))" by simp
qed simp

declare round_up.simps [simp del]

text \<open>
  The first number of sockets that fits: the total is rounded up to a multiple of \<open>n * threads\<close>. A host
  without threads makes the division undefined.
\<close>

fun cpu_loop :: "int \<Rightarrow> int \<Rightarrow> int \<Rightarrow> int \<Rightarrow> nat \<Rightarrow> (int \<times> int \<times> int) option" where
  "cpu_loop want nCores threads n 0 = None"
| "cpu_loop want nCores threads n (Suc k) =
     (let t = round_up want (n * threads) in
      if t div (n * threads) \<le> nCores then Some (t, n, t div (n * threads)) else cpu_loop want nCores threads (n + 1) k)"

definition allocate_cpu :: "'h task_env \<Rightarrow> int \<Rightarrow> failure + (int \<times> int \<times> int \<times> int) option" where
  "allocate_cpu E want =
     (if want > si_cores E then Inr None
      else if si_threads_per_cpu E \<le> 0 \<and> si_physical_cpus E \<ge> 1 then Inl Undefined_behaviour
      else let threads = si_threads_per_cpu E;
               (t, sockets, cores) = (case cpu_loop want (si_physical_cores_per_cpu E) threads 1 (nat (si_physical_cpus E)) of
                  Some r \<Rightarrow> r | None \<Rightarrow> (want, 0, 0))
           in Inr (if t = sockets * cores * threads then Some (t, sockets, cores, threads) else None))"

definition allocate_mem :: "'h task_env \<Rightarrow> i64 \<Rightarrow> 'h tm \<Rightarrow> bool" where
  "allocate_mem E n s \<longleftrightarrow> sint n > 0 \<and> sint n \<le> sint (si_mem_free E (host (tvm s)))"

definition allocate_gpu :: "'h task_env \<Rightarrow> int \<Rightarrow> 'h tm \<Rightarrow> bool \<times> (string, string list) smap" where
  "allocate_gpu E n s =
     (if n = 0 then (True, [])
      else let free = can_use_gpu E s in
        if n < 0 then (False, free) else (nat n \<le> length free, take (nat n) free))"

definition g_disk_system_size :: i64 where "g_disk_system_size = 350"

definition disk_free_for_data :: "'h task_env \<Rightarrow> 'h tm \<Rightarrow> int" where
  "disk_free_for_data E s =
     min (sint (si_disk_total E (host (tvm s)) ''/data'' - g_disk_system_size * 1024 * 1024)) (sint (si_disk_available E (host (tvm s)) ''/data''))"

definition allocate_disk :: "'h task_env \<Rightarrow> i64 \<Rightarrow> 'h tm \<Rightarrow> bool" where
  "allocate_disk E n s \<longleftrightarrow> sint n > 0 \<and> sint n \<le> disk_free_for_data E s"

partial_function (option) needed_loop :: "('h, 'z) host_env_scheme \<Rightarrow> string \<Rightarrow> 'h \<Rightarrow> (string list \<times> 'h) option" where
  "needed_loop E cur h =
     (if \<not> contains_str cur ''/data/'' then Some ([], h)
      else if \<not> file_exists E h cur then Some ([cur], h)
      else case run_shell E (backing_cmd cur) h of (cur', h') \<Rightarrow> needed_loop E cur' h')"

definition getNeededBackingImage :: "'h task_env \<Rightarrow> string \<Rightarrow> ('h tm, string list) M" where
  "getNeededBackingImage E img s = (case needed_loop E (''/data/'' @ img) (host (tvm s)) of
     None \<Rightarrow> (Inl Diverges, s) | Some (l, h) \<Rightarrow> (Inr l, on_host (\<lambda>_. h) s))"

definition json_str :: "json_doc \<Rightarrow> string \<Rightarrow> string" where
  "json_str d k = (case json_string d k of None \<Rightarrow> [] | Some v \<Rightarrow> v)"

definition json_arr :: "json_doc \<Rightarrow> string \<Rightarrow> string list" where
  "json_arr d k = (case json_array d k of None \<Rightarrow> [] | Some v \<Rightarrow> v)"

text \<open>A check that may end the function with its error.\<close>

definition mcheck :: "('s \<Rightarrow> fresult) \<Rightarrow> ('s, fresult + 'a) M \<Rightarrow> ('s, fresult + 'a) M" where
  "mcheck c m s = (if fst (c s) \<noteq> ERR_SUCCESS then (Inr (Inl (c s)), s) else m s)"

definition mreject :: "bool \<Rightarrow> string \<Rightarrow> ('s, fresult + 'a) M \<Rightarrow> ('s, fresult + 'a) M" where
  "mreject b msg m s = (if b then (Inr (Inl (ERR_ERROR, msg)), s) else m s)"

text \<open>\<open>JSON_PARSE_STRING\<close> of a text with a default, in lower case.\<close>

definition json_lower :: "json_doc \<Rightarrow> string \<Rightarrow> string \<Rightarrow> string" where
  "json_lower d k dflt = map tolower (if json_str d k = [] then dflt else json_str d k)"

text \<open>The ports: with a public address the defaults replace a wrong text. The RDP part looks at the SSH port.\<close>

definition chosen_ssh_port :: "json_doc \<Rightarrow> string \<Rightarrow> string \<Rightarrow> u16" where
  "chosen_ssh_port d os pub = (if isLinuxOS os \<and> pub \<noteq> [] \<and> fst (check_ssh_port (json_str d ''ssh_port'')) \<noteq> ERR_SUCCESS
     then 22 else word_of_int (atoi (json_str d ''ssh_port'')))"

definition chosen_rdp_port :: "json_doc \<Rightarrow> string \<Rightarrow> string \<Rightarrow> u16" where
  "chosen_rdp_port d os pub = (if isWindowsOS os \<and> pub \<noteq> [] \<and> fst (check_rdp_port (json_str d ''ssh_port'')) \<noteq> ERR_SUCCESS
     then 3389 else word_of_int (atoi (json_str d ''rdp_port'')))"

definition check_ports_of :: "'h task_env \<Rightarrow> json_doc \<Rightarrow> string \<Rightarrow> string \<Rightarrow> ('h tm, fresult + 'a) M \<Rightarrow> ('h tm, fresult + 'a) M" where
  "check_ports_of E d os pub m =
     (let ssh = json_str d ''ssh_port''; vnc = json_str d ''vnc_port''; n_ssh = chosen_ssh_port d os pub in
      mcheck (\<lambda>s. if isLinuxOS os \<and> pub = [] then check_ssh_port ssh else FResultOk)
      (mcheck (\<lambda>s. if isLinuxOS os \<and> pub = [] then check_port_conflict E n_ssh [] s else FResultOk)
      (mcheck (\<lambda>s. if isWindowsOS os \<and> pub = [] then check_rdp_port ssh else FResultOk)
      (mcheck (\<lambda>s. if isWindowsOS os \<and> pub = [] then check_port_conflict E n_ssh [] s else FResultOk)
      (mcheck (\<lambda>s. check_vnc_port vnc)
      (mcheck (\<lambda>s. check_port_conflict E (word_of_int (atoi vnc)) [] s) m))))))"

definition alloc_cpu_m :: "'h task_env \<Rightarrow> int \<Rightarrow> (int \<times> int \<times> int \<times> int \<Rightarrow> ('h tm, fresult + 'a) M) \<Rightarrow> ('h tm, fresult + 'a) M" where
  "alloc_cpu_m E n k = (case allocate_cpu E n of
     Inl f \<Rightarrow> mfail f | Inr None \<Rightarrow> mret (Inl (ERR_ERROR, ''allocate cpu failed'')) | Inr (Some r) \<Rightarrow> k r)"

definition alloc_mem_m :: "'h task_env \<Rightarrow> i64 \<Rightarrow> ('h tm, fresult + 'a) M \<Rightarrow> ('h tm, fresult + 'a) M" where
  "alloc_mem_m E n m s = (if allocate_mem E n s then m s
     else let s = drop_caches E s in if allocate_mem E n s then m s else (Inr (Inl (ERR_ERROR, ''allocate mem failed'')), s))"

definition alloc_gpu_m :: "'h task_env \<Rightarrow> int \<Rightarrow> ((string, string list) smap \<Rightarrow> ('h tm, fresult + 'a) M) \<Rightarrow> ('h tm, fresult + 'a) M" where
  "alloc_gpu_m E n k s = (case allocate_gpu E n s of
     (False, _) \<Rightarrow> (Inr (Inl (ERR_ERROR, ''allocate gpu failed'')), s) | (True, gpus) \<Rightarrow> k gpus s)"

definition role_number :: "user_role \<Rightarrow> 'a \<Rightarrow> 'a \<Rightarrow> 'a" where
  "role_number role all wanted = (if role = Verifier then all else wanted)"

definition disk_request :: "'h task_env \<Rightarrow> json_doc \<Rightarrow> user_role \<Rightarrow> string \<Rightarrow> (i64 \<times> string \<Rightarrow> ('h tm, fresult + 'a) M) \<Rightarrow> ('h tm, fresult + 'a) M" where
  "disk_request E d role bios k s =
     (if bios = ''pxe'' then k (0, []) s
      else let n = (word_of_int (atoi (json_str d ''disk_size'')) * 1024 * 1024 :: i64) in
        if sint n \<le> 0 then (Inr (Inl (ERR_ERROR, ''disk_size is invalid (usage: disk_size > 0)'')), s)
        else let n = role_number role (word_of_int (max 0 (disk_free_for_data E s))) n; file = json_str d ''data_file_name'' in
          if \<not> allocate_disk E n s then (Inr (Inl (ERR_ERROR, ''allocate disk failed'')), s)
          else if file \<noteq> [] \<and> \<not> file_exists E (host (tvm s)) (''/data/'' @ file)
            then (Inr (Inl (ERR_ERROR, ''data_file_name is not exist, path: /data/'' @ file)), s)
          else k (n, file) s)"

fun join_comma :: "string list \<Rightarrow> string" where
  "join_comma [] = []"
| "join_comma [x] = x"
| "join_comma (x # xs) = x @ '','' @ join_comma xs"

definition check_backing :: "'h task_env \<Rightarrow> string \<Rightarrow> string \<Rightarrow> ('h tm, fresult + 'a) M \<Rightarrow> ('h tm, fresult + 'a) M" where
  "check_backing E bios img m = (if bios = ''pxe'' then m
     else mbind (getNeededBackingImage E img) (\<lambda>missing. mreject (missing \<noteq> []) (''image backfile not exist: '' @ join_comma missing) m))"

definition network_request :: "'h task_env \<Rightarrow> string \<Rightarrow> ('h tm, fresult + 'a) M \<Rightarrow> ('h tm, fresult + 'a) M" where
  "network_request E name m s = (if name = [] then m s
     else case CreateNetworkClient E name (host (tvm s)) of (r, h) \<Rightarrow>
       if fst r \<noteq> ERR_SUCCESS then (Inr (Inl r), on_host (\<lambda>_. h) s) else m (on_host (\<lambda>_. h) s))"

definition new_task_id :: "'h task_env \<Rightarrow> user_role \<Rightarrow> failure + string" where
  "new_task_id E role = (case create_task_id (hash_scratch E) (dec_nat (rand_number E mod 1000000)) (dec_int (sint (time_stamp E))) of
     Inl f \<Rightarrow> Inl f | Inr i \<Rightarrow> Inr (if role = Verifier then ''vm_check_'' @ dec_int (sint (time_stamp E)) else i))"

definition parse_create_params :: "'h task_env \<Rightarrow> string \<Rightarrow> user_role \<Rightarrow> ('h tm, fresult + create_params) M" where
  "parse_create_params E additional role =
     (if additional = [] then mret (Inl (ERR_ERROR, ''additional is empty''))
      else case parse_json E additional of
        None \<Rightarrow> mret (Inl (ERR_ERROR, ''additional parse failed''))
      | Some d \<Rightarrow>
          let os = json_lower d ''operation_system'' ''linux''; bios = json_lower d ''bios_mode'' ''legacy''; img = json_str d ''image_name'';
              pub = json_str d ''public_ip'';
              cores = atoi (json_str d ''cpu_cores''); mem = (word_of_int (atoi (json_str d ''mem_size'')) * 1024 * 1024 :: i64);
              gpus = atoi (json_str d ''gpu_count''); mcast = json_arr d ''multicast''
          in mcheck (\<lambda>_. check_operation_system os) (mcheck (\<lambda>_. check_bios_mode bios) (mcheck (check_image E img)
             (check_backing E bios img (mcheck (check_public_ip E pub []) (check_ports_of E d os pub
             (mreject (cores \<le> 0) ''cpu_cores is invalid'' (alloc_cpu_m E (role_number role (si_cores E) cores) (\<lambda>(_, sockets, ncores, threads).
              mreject (sint mem \<le> 0) ''mem_size is invalid'' (\<lambda>s.
              let mem = role_number role (si_mem_free E (host (tvm s))) mem in
              alloc_mem_m E mem (mreject (gpus < 0) ''gpu_count is invalid (usage: gpu_count >= 0)'' (\<lambda>s.
              alloc_gpu_m E (role_number role (int (length (si_gpus E (host (tvm s))))) gpus) (\<lambda>gpumap.
              disk_request E d role bios (\<lambda>(disk, file). network_request E (json_str d ''network_name'') (\<lambda>s.
              case check_multicast E mcast of
                Inl f \<Rightarrow> (Inl f, s)
              | Inr r \<Rightarrow> mcheck (\<lambda>_. r) (\<lambda>s. case new_task_id E role of
                  Inl f \<Rightarrow> (Inl f, s)
                | Inr tid \<Rightarrow> (Inr (Inr \<lparr>cp_task_id = tid, cp_desc = json_str d ''desc'', cp_login_password = genpwd (rand_seq E), cp_image_name = img,
                    cp_ssh_port = chosen_ssh_port d os pub, cp_rdp_port = chosen_rdp_port d os pub, cp_custom_port = json_arr d ''custom_port'',
                    cp_cpu_sockets = sockets, cp_cpu_cores = ncores, cp_cpu_threads = threads, cp_mem_size = mem, cp_disk_size = disk,
                    cp_gpus = gpumap, cp_data_file_name = file, cp_vnc_port = word_of_int (atoi (json_str d ''vnc_port'')),
                    cp_vnc_password = genpwd (rand_seq E), cp_operation_system = os, cp_bios_mode = bios, cp_multicast = mcast,
                    cp_network_name = json_str d ''network_name'', cp_public_ip = pub, cp_nwfilter = json_arr d ''network_filters''\<rparr>), s)) s)
              )) s)) s))))))))))"

definition info_of :: "'h task_env \<Rightarrow> create_params \<Rightarrow> string \<Rightarrow> task_info" where
  "info_of E p root =
     \<lparr>ti_db = \<lparr>ti_task_id = cp_task_id p, ti_image_name = cp_image_name p, ti_desc = cp_desc p, ti_login_username = [], ti_login_password = cp_login_password p,
        ti_ssh_port = dec_nat (unat (cp_ssh_port p)), ti_rdp_port = dec_nat (unat (cp_rdp_port p)), ti_custom_port = cp_custom_port p,
        ti_create_time = time_stamp E, ti_operation_system = cp_operation_system p, ti_bios_mode = cp_bios_mode p, ti_multicast = cp_multicast p,
        ti_vda_rootbackfile = root, ti_network_name = cp_network_name p, ti_public_ip = cp_public_ip p, ti_nwfilter = cp_nwfilter p\<rparr>,
      ti_cpu_sockets = word_of_int (cp_cpu_sockets p), ti_cpu_cores = word_of_int (cp_cpu_cores p), ti_cpu_threads = word_of_int (cp_cpu_threads p),
      ti_mem_size = cp_mem_size p, ti_vnc_port = cp_vnc_port p, ti_vnc_password = cp_vnc_password p, ti_status = TS_Task_Creating\<rparr>"

text \<open>The random parts of the two file names are successive values of \<open>rand\<close>.\<close>

definition new_disks :: "'h task_env \<Rightarrow> create_params \<Rightarrow> disk_info list" where
  "new_disks E p = (if cp_bios_mode p = ''pxe'' then []
     else [\<lparr>disk_name = ''vda'', disk_virtual_size = g_disk_system_size * 1024 * 1024 * 1024,
            disk_source_file = ''/data/vm_'' @ dec_nat (rand_seq E ! 0 mod 100000) @ ''_'' @ time_str E @ ''.qcow2''\<rparr>,
           \<lparr>disk_name = ''vdb'', disk_virtual_size = cp_disk_size p * 1024,
            disk_source_file = (if cp_data_file_name p = [] then ''/data/data_'' @ dec_nat (rand_seq E ! 1 mod 100000) @ ''_'' @ time_str E @ ''.qcow2''
                                else ''/data/'' @ cp_data_file_name p)\<rparr>])"

definition createTask :: "'h task_env \<Rightarrow> string \<Rightarrow> string \<Rightarrow> i64 \<Rightarrow> user_role \<Rightarrow> ('h tm, fresult \<times> string) M" where
  "createTask E w additional rent_end role = mbind (parse_create_params E additional role) (\<lambda>r. case r of
     Inl e \<Rightarrow> mret (e, [])
   | Inr p \<Rightarrow> mbind (root_backfile E (cp_image_name p)) (\<lambda>root s.
       let tid = cp_task_id p;
           s = info_add (info_of E p root) s;
           s = foldl (\<lambda>s d. addDiskInfo tid d s) s (new_disks E p);
           s = foldl (\<lambda>s (g, devs). gpu_add tid \<lparr>gpu_id = g, gpu_devices = devs\<rparr> s) s (cp_gpus p);
           s = rent_add w tid rent_end s;
           s = on_host (network_join E (cp_network_name p) tid) s
       in (Inr (FResultOk, tid), pushTaskEvent (CreateTaskEvent tid (cp_bios_mode p)) s)))"

section \<open>After a restart\<close>

definition restore_backfiles :: "'h task_env \<Rightarrow> string list \<Rightarrow> ('h tm, unit) M" where
  "restore_backfiles E ids = mforeach ids (\<lambda>tid _ s. case getTaskInfo tid s of
     None \<Rightarrow> (Inr (), s)
   | Some t \<Rightarrow> (if domain_status E tid s = VIR_DOMAIN_SHUTOFF \<and> ti_vda_rootbackfile (ti_db t) = []
       then mbind (root_backfile E (ti_image_name (ti_db t))) (\<lambda>root.
         mmodify (\<lambda>s. info_store tid (upd_info tid (\<lambda>t. t\<lparr>ti_db := (ti_db t)\<lparr>ti_vda_rootbackfile := root\<rparr>\<rparr>) s))) s
       else (Inr (), s))) ()"

definition restore_running :: "'h task_env \<Rightarrow> string list \<Rightarrow> ('h tm, unit) M" where
  "restore_running E ids = mforeach ids (\<lambda>tid _ s. case getTaskInfo tid s of
     None \<Rightarrow> (Inr (), s) | Some t \<Rightarrow> start_task E tid (setTaskStatus tid TS_Task_Running s)) ()"

definition initial_status :: "virDomainState \<Rightarrow> task_status" where
  "initial_status d =
     (if d = VIR_DOMAIN_SHUTOFF \<or> d = VIR_DOMAIN_SHUTDOWN \<or> d = VIR_DOMAIN_CRASHED \<or> d = VIR_DOMAIN_NOSTATE then TS_Task_Shutoff
      else if d = VIR_DOMAIN_RUNNING \<or> d = VIR_DOMAIN_PAUSED then TS_Task_Running
      else if d = VIR_DOMAIN_PMSUSPENDED then TS_Task_PMSuspend else TS_None)"

definition init_tasks_status :: "'h task_env \<Rightarrow> ('h tm, unit) M" where
  "init_tasks_status E s = mbind (restore_backfiles E (map fst (m_task_infos s))) (\<lambda>_ s.
     mbind (restore_running E (m_running_tasks s)) (\<lambda>_. mmodify (\<lambda>s.
       foldl (\<lambda>s (tid, t). if ti_status t = TS_None then setTaskStatus tid (initial_status (domain_status E tid s)) s else s) s (m_task_infos s))) s) s"

end
