(* ===== verification/Task_Lifecycle.thy ===== *)
theory Task_Lifecycle
  imports Task_Manager
begin

text \<open>
  What the task manager guarantees: the statuses of a task and the events that resolve them, what is
  left of a deleted task, which tasks a round of the prune thread ends, how resources are given to a
  new task, and the sessions of the wallets.
\<close>

section \<open>Resources\<close>

lemma round_up_spec: "0 < m \<Longrightarrow> m dvd round_up t m \<and> t \<le> round_up t m \<and> round_up t m < t + m"
proof (induction t m rule: round_up.induct)
  case (1 t m)
  show ?case
  proof (cases "t mod m = 0")
    case True
    then show ?thesis using 1(2) by (simp add: round_up.simps [of t m] dvd_eq_mod_eq_0)
  next
    case False
    with 1(2) have r: "round_up t m = round_up (t + 1) m" by (simp add: round_up.simps [of t m])
    from 1 False have ih: "m dvd round_up (t + 1) m" "t + 1 \<le> round_up (t + 1) m" "round_up (t + 1) m < t + 1 + m" by simp_all
    moreover have "round_up (t + 1) m \<noteq> t + m"
      using ih(1) False by (metis dvd_add_right_iff dvd_refl dvd_eq_mod_eq_0 add.commute)
    ultimately show ?thesis unfolding r by linarith
  qed
qed

lemma round_up_div:
  assumes "0 < m"
  shows "round_up t m = round_up t m div m * m" "round_up t m div m \<le> c \<longleftrightarrow> t \<le> c * m"
proof -
  note r = round_up_spec [OF assms, of t]
  then show eq: "round_up t m = round_up t m div m * m" by simp
  define q where "q = round_up t m div m"
  have q: "round_up t m = q * m" using eq by (simp add: q_def)
  show "round_up t m div m \<le> c \<longleftrightarrow> t \<le> c * m" unfolding q_def [symmetric]
  proof
    assume "q \<le> c"
    then have "q * m \<le> c * m" using assms by simp
    with r q show "t \<le> c * m" by linarith
  next
    assume "t \<le> c * m"
    with r q have "q * m < c * m + m" by linarith
    then have "q * m < (c + 1) * m" by (simp add: distrib_right)
    with assms show "q \<le> c" by simp
  qed
qed

lemma cpu_loop_Some:
  assumes "cpu_loop want c th n k = Some (t, so, co)" "0 < th" "0 < n"
  shows "n \<le> so \<and> so < n + int k \<and> t = so * co * th \<and> want \<le> t \<and> t < want + so * th \<and> co \<le> c \<and> (\<forall>j. n \<le> j \<and> j < so \<longrightarrow> j * c * th < want)"
  using assms
proof (induction k arbitrary: n)
  case (Suc k)
  let ?m = "n * th"
  have m: "0 < ?m" using Suc.prems by simp
  note r = round_up_spec [OF m, of want] and d = round_up_div [OF m, of want]
  show ?case
  proof (cases "round_up want ?m div ?m \<le> c")
    case True
    with Suc.prems(1) have "t = round_up want ?m" "so = n" "co = round_up want ?m div ?m" by (auto simp: Let_def)
    with r d(1) True show ?thesis by (simp add: mult_ac)
  next
    case False
    then have "cpu_loop want c th (n + 1) k = Some (t, so, co)" using Suc.prems(1) by (simp add: Let_def)
    from Suc.IH [OF this] Suc.prems(2,3)
    have ih: "n + 1 \<le> so \<and> so < n + 1 + int k \<and> t = so * co * th \<and> want \<le> t \<and> t < want + so * th \<and> co \<le> c \<and> (\<forall>j. n + 1 \<le> j \<and> j < so \<longrightarrow> j * c * th < want)"
      by simp
    have "n * c * th < want" using d(2) [of c] False by (simp add: mult_ac)
    then have "\<forall>j. n \<le> j \<and> j < so \<longrightarrow> j * c * th < want" using ih by (metis order_le_imp_less_or_eq zless_imp_add1_zle)
    with ih show ?thesis by simp
  qed
qed simp

lemma cpu_loop_None:
  assumes "cpu_loop want c th n k = None" "0 < th" "0 < n" "n \<le> j" "j < n + int k"
  shows "j * c * th < want"
  using assms
proof (induction k arbitrary: n)
  case (Suc k)
  let ?m = "n * th"
  have m: "0 < ?m" using Suc.prems by simp
  have no: "\<not> round_up want ?m div ?m \<le> c" "cpu_loop want c th (n + 1) k = None" using Suc.prems(1) by (auto simp: Let_def split: if_splits)
  show ?case
  proof (cases "j = n")
    case True
    then show ?thesis using no(1) round_up_div(2) [OF m, of want c] by (simp add: mult_ac)
  next
    case False
    then show ?thesis using Suc.IH [OF no(2)] Suc.prems by simp
  qed
qed simp

text \<open>(C28) CPUs for a new task: \<open>allocate_cpu\<close> always returns; when it succeeds it gives whole sockets of equal numbers of
  cores with all their threads, at least the number asked for and less than one core per socket more, within the
  sockets and cores of the host and with the fewest sockets possible; it refuses only what the host cannot give.\<close>

theorem allocate_cpu_correct:
  assumes "0 < want" "0 < si_threads_per_cpu E" "0 < si_physical_cpus E"
  shows "case allocate_cpu E want of
           Inl f \<Rightarrow> False
         | Inr None \<Rightarrow> si_cores E < want \<or> si_physical_cpus E * si_physical_cores_per_cpu E * si_threads_per_cpu E < want
         | Inr (Some (t, sockets, cores, threads)) \<Rightarrow>
             t = sockets * cores * threads \<and> want \<le> t \<and> t < want + sockets * threads \<and> want \<le> si_cores E \<and>
             1 \<le> sockets \<and> sockets \<le> si_physical_cpus E \<and> 1 \<le> cores \<and> cores \<le> si_physical_cores_per_cpu E \<and> threads = si_threads_per_cpu E \<and>
             (\<forall>j. 1 \<le> j \<and> j < sockets \<longrightarrow> j * si_physical_cores_per_cpu E * threads < want)"
proof (cases "cpu_loop want (si_physical_cores_per_cpu E) (si_threads_per_cpu E) 1 (nat (si_physical_cpus E))")
  case None
  from cpu_loop_None [OF this assms(2), of "si_physical_cpus E"] assms show ?thesis by (simp add: allocate_cpu_def None)
next
  case (Some r)
  obtain t so co where r: "r = (t, so, co)" by (rule prod_cases3)
  from cpu_loop_Some [OF Some [unfolded r] assms(2)] assms
  have b: "1 \<le> so" "so < 1 + si_physical_cpus E" "t = so * co * si_threads_per_cpu E" "want \<le> t" "t < want + so * si_threads_per_cpu E"
    "co \<le> si_physical_cores_per_cpu E" "\<forall>j. 1 \<le> j \<and> j < so \<longrightarrow> j * si_physical_cores_per_cpu E * si_threads_per_cpu E < want" by simp_all
  have "0 < so * co * si_threads_per_cpu E" using b(3,4) assms(1) by linarith
  then have "1 \<le> co" using b(1) assms(2) by (simp add: zero_less_mult_iff)
  with b assms show ?thesis by (simp add: allocate_cpu_def Some r Let_def)
qed

lemma lookup_erase_all: "smap_lookup (foldl (\<lambda>m (g, _). smap_erase g m) m gs) g = (if g \<in> fst ` set gs then None else smap_lookup m g)"
  by (induction gs arbitrary: m) auto

lemma wf_erase_all [simp]: "smap_wf m \<Longrightarrow> smap_wf (foldl (\<lambda>m (g, _). smap_erase g m) m gs)"
  by (induction gs arbitrary: m) auto

lemma can_use_gpu_fold:
  "smap_lookup (foldl (\<lambda>m (i, _). if domain_status E i s = VIR_DOMAIN_SHUTOFF then m else foldl (\<lambda>m (g, _). smap_erase g m) m (getTaskGpus i s)) m0 ts) g =
     (if \<exists>i\<in>fst ` set ts. domain_status E i s \<noteq> VIR_DOMAIN_SHUTOFF \<and> smap_lookup (getTaskGpus i s) g \<noteq> None then None else smap_lookup m0 g)"
  by (induction ts arbitrary: m0) (auto simp: lookup_erase_all smap_keys)

lemma can_use_gpu_wf: "smap_wf (si_gpus E (host (tvm s))) \<Longrightarrow> smap_wf (can_use_gpu E s)"
proof -
  have "smap_wf m0 \<Longrightarrow> smap_wf (foldl (\<lambda>m (i, _). if domain_status E i s = VIR_DOMAIN_SHUTOFF then m else foldl (\<lambda>m (g, _). smap_erase g m) m (getTaskGpus i s)) m0 ts)" for m0 :: "(string, string list) smap" and ts :: "(string \<times> task_info) list"
    by (induction ts arbitrary: m0) auto
  then show "smap_wf (si_gpus E (host (tvm s))) \<Longrightarrow> smap_wf (can_use_gpu E s)" by (simp add: can_use_gpu_def)
qed

text \<open>A GPU in use: a task holds it whose domain is not shut off.\<close>

definition gpu_in_use :: "'h task_env \<Rightarrow> 'h tm \<Rightarrow> string \<Rightarrow> bool" where
  "gpu_in_use E s g \<longleftrightarrow> (\<exists>i t. getTaskInfo i s = Some t \<and> domain_status E i s \<noteq> VIR_DOMAIN_SHUTOFF \<and> smap_lookup (getTaskGpus i s) g \<noteq> None)"

lemma can_use_gpu_iff:
  "smap_lookup (can_use_gpu E s) g = (if gpu_in_use E s g then None else smap_lookup (si_gpus E (host (tvm s))) g)"
  unfolding can_use_gpu_def can_use_gpu_fold gpu_in_use_def getTaskInfo_def Bex_def smap_keys by auto

text \<open>(C27) GPUs for a new task: \<open>allocate_gpu\<close> gives exactly the number asked for, each of them a GPU of the host with its
  devices, none of them held by a task whose domain is not shut off, and it fails only if fewer are free; a task is
  started again only if \<open>check_gpu\<close> finds all its GPUs free in the same sense.\<close>

theorem gpus_exclusive:
  assumes "smap_wf (si_gpus E (host (tvm s)))" "0 \<le> n"
  shows "(\<forall>gpus. allocate_gpu E n s = (True, gpus) \<longrightarrow> int (length gpus) = n \<and> distinct (map fst gpus) \<and>
            (\<forall>(g, devs)\<in>set gpus. smap_lookup (si_gpus E (host (tvm s))) g = Some devs \<and> \<not> gpu_in_use E s g)) \<and>
         (fst (allocate_gpu E n s) \<longleftrightarrow> n \<le> int (card {g. smap_lookup (si_gpus E (host (tvm s))) g \<noteq> None \<and> \<not> gpu_in_use E s g})) \<and>
         (\<forall>gpus. fst (check_gpu E gpus s) = ERR_SUCCESS \<longrightarrow>
            (\<forall>(g, info)\<in>set gpus. \<not> gpu_in_use E s g \<and> (\<exists>devs. smap_lookup (si_gpus E (host (tvm s))) g = Some devs \<and> set (gpu_devices info) \<subseteq> set devs)))"
proof (intro conjI allI impI)
  let ?free = "can_use_gpu E s"
  have wf: "smap_wf ?free" by (rule can_use_gpu_wf) (rule assms(1))
  then have d: "distinct (map fst ?free)" by (simp add: smap_wf_def strict_sorted_iff)
  have "{g. smap_lookup (si_gpus E (host (tvm s))) g \<noteq> None \<and> \<not> gpu_in_use E s g} = fst ` set ?free"
    by (rule set_eqI) (simp add: smap_keys can_use_gpu_iff)
  then have card: "card {g. smap_lookup (si_gpus E (host (tvm s))) g \<noteq> None \<and> \<not> gpu_in_use E s g} = length ?free"
    using d by (metis distinct_card length_map list.set_map)
  show "fst (allocate_gpu E n s) \<longleftrightarrow> n \<le> int (card {g. smap_lookup (si_gpus E (host (tvm s))) g \<noteq> None \<and> \<not> gpu_in_use E s g})"
    unfolding card using assms(2) by (auto simp: allocate_gpu_def Let_def)
  fix gpus
  {
    assume a: "allocate_gpu E n s = (True, gpus)"
    then have g: "gpus = take (nat n) ?free" "nat n \<le> length ?free" using assms(2) by (auto simp: allocate_gpu_def Let_def split: if_splits)
    then show "int (length gpus) = n" using assms(2) by simp
    show "distinct (map fst gpus)" using d by (simp add: g(1) take_map [symmetric])
    have "smap_lookup ?free k = Some v" if "(k, v) \<in> set gpus" for k v
      using that smap_in_set [OF wf] g(1) in_set_takeD by metis
    then show "\<forall>(g, devs)\<in>set gpus. smap_lookup (si_gpus E (host (tvm s))) g = Some devs \<and> \<not> gpu_in_use E s g"
      by (fastforce simp: can_use_gpu_iff split: if_splits)
  }
  fix gpus :: "(string, gpu_info) smap"
  assume "fst (check_gpu E gpus s) = ERR_SUCCESS"
  then have "fst (check_gpu_loop ?free gpus) = ERR_SUCCESS" by (simp add: check_gpu_def)
  then have "\<forall>(g, info)\<in>set gpus. \<exists>devs. smap_lookup ?free g = Some devs \<and> set (gpu_devices info) \<subseteq> set devs"
    by (induction gpus) (auto split: option.splits simp: find_None_iff2 find_None_iff)
  then show "\<forall>(g, info)\<in>set gpus. \<not> gpu_in_use E s g \<and> (\<exists>devs. smap_lookup (si_gpus E (host (tvm s))) g = Some devs \<and> set (gpu_devices info) \<subseteq> set devs)"
    by (fastforce simp: can_use_gpu_iff split: if_splits)
qed

section \<open>The host under shell commands\<close>

lemma run_shell_dom [simp]: "domains_ok E \<Longrightarrow> dom_state E (snd (run_shell E c h)) d = dom_state E h d"
  unfolding domains_ok_def by blast

lemma remove_file_dom [simp]: "domains_ok E \<Longrightarrow> dom_state E (remove_file E f h) d = dom_state E h d"
  unfolding domains_ok_def by blast

lemma run_cmds_dom [simp]: "domains_ok E \<Longrightarrow> dom_state E (run_cmds E cmds h) d = dom_state E h d"
  unfolding run_cmds_def by (induction cmds arbitrary: h) simp_all

lemma public_address_dom [simp]: "domains_ok E \<Longrightarrow> dom_state E (public_address_cmd E verb ip h) d = dom_state E h d"
  by (simp add: public_address_cmd_def get_default_network_device_def split_beta)

lemma remove_iptable_dom [simp]:
  "domains_ok E \<Longrightarrow> dom_state E (host (tvm (remove_iptable_from_system E tid s))) d = dom_state E (host (tvm s)) d"
  "m_connPtr (tvm (remove_iptable_from_system E tid s)) = m_connPtr (tvm s)"
  by (simp_all add: remove_iptable_from_system_def shell_remove_iptable_from_system_def on_host_def split: option.split)

lemma vm_frame [simp]:
  "tvm (resolve_status tid from to s) = tvm s" "tvm (setTaskStatus tid st s) = tvm s" "tvm (upd_info tid f s) = tvm s"
  "tvm (info_store tid s) = tvm s" "tvm (info_del tid s) = tvm s" "tvm (gpu_del tid s) = tvm s"
  "tvm (iptable_del tid s) = tvm s" "tvm (rent_del tid s) = tvm s"
  by (simp_all add: resolve_status_def setTaskStatus_def upd_info_def info_store_def info_add_def info_del_def gpu_del_def iptable_del_def
      rent_del_def put_rent_def Let_def split: option.split prod.split)

lemma root_loop_dom:
  assumes "root_loop E back root h = Some y"
  shows "domains_ok E \<longrightarrow> dom_state E (snd y) d = dom_state E h d"
proof (rule root_loop.raw_induct [OF _ assms])
  fix f E bk root h and y :: "string \<times> 'a"
  assume ih: "\<And>E bk root h y. f E bk root h = Some y \<Longrightarrow> domains_ok E \<longrightarrow> dom_state E (snd y) d = dom_state E h d"
    and e: "(if bk = [] then Some (root, h) else case run_shell E (backing_cmd bk) h of (bk', h') \<Rightarrow> f E bk' bk h') = Some y"
  show "domains_ok E \<longrightarrow> dom_state E (snd y) d = dom_state E h d"
  proof (cases "bk = []")
    case True
    then show ?thesis using e by auto
  next
    case False
    then have "f E (fst (run_shell E (backing_cmd bk) h)) bk (snd (run_shell E (backing_cmd bk) h)) = Some y"
      using e by (simp add: split_beta)
    from ih [OF this] show ?thesis by simp
  qed
qed

lemma root_backfile_frame:
  assumes "root_backfile E img s = (r, s')"
  shows "\<forall>i. getTaskInfo i s' = getTaskInfo i s" "domains_ok E \<Longrightarrow> dom_state E (host (tvm s')) d = dom_state E (host (tvm s)) d"
    "m_connPtr (tvm s') = m_connPtr (tvm s)"
  using assms root_loop_dom [of E "fst (run_shell E (backing_cmd (''/data/'' @ img)) (host (tvm s)))" "''/data/'' @ img" "snd (run_shell E (backing_cmd (''/data/'' @ img)) (host (tvm s)))" _ d]
  by (auto simp: root_backfile_def Let_def split_beta on_host_def getTaskInfo_def split: option.splits)

lemma store_root_dom:
  "domains_ok E \<Longrightarrow> store_root_backfile E tid s = (Inr (), s') \<Longrightarrow> dom_state E (host (tvm s')) d = dom_state E (host (tvm s)) d"
  by (auto simp: store_root_backfile_def dest: root_backfile_frame(2) [where d = d] split: option.splits if_splits prod.splits sum.splits)

section \<open>Statuses\<close>

definition status_of :: "string \<Rightarrow> 'h tm \<Rightarrow> task_status option" where
  "status_of tid s = map_option ti_status (getTaskInfo tid s)"

lemma info_frame [simp]:
  "getTaskInfo i (on_host f s) = getTaskInfo i s" "getTaskInfo i (snd (on_vm g s)) = getTaskInfo i s"
  "getTaskInfo i (remove_iptable_from_system E tid s) = getTaskInfo i s" "getTaskInfo i (iptable_add x s) = getTaskInfo i s"
  "getTaskInfo i (snd (create_task_iptable T tid t ip s)) = getTaskInfo i s"
  "getTaskInfo i (snd (add_iptable_to_system E tid s)) = getTaskInfo i s"
  "getTaskInfo i (update_running_tasks s) = getTaskInfo i s"
  "getTaskInfo i (s\<lparr>m_events := evs\<rparr>) = getTaskInfo i s"
  by (simp_all add: getTaskInfo_def on_host_def on_vm_def remove_iptable_from_system_def iptable_add_def create_task_iptable_def
      add_iptable_to_system_def update_running_tasks_def Let_def split: option.split prod.split)

lemma info_upd [simp]: "getTaskInfo i (upd_info tid f s) = (if i = tid then map_option f (getTaskInfo tid s) else getTaskInfo i s)"
  by (simp add: getTaskInfo_def upd_info_def)

lemma info_set_status [simp]:
  "getTaskInfo i (setTaskStatus tid st s) = (if i = tid then map_option (\<lambda>t. t\<lparr>ti_status := st\<rparr>) (getTaskInfo tid s) else getTaskInfo i s)"
  by (simp add: setTaskStatus_def)

lemma info_resolve [simp]:
  "getTaskInfo i (resolve_status tid from to s) =
     (if i = tid then map_option (\<lambda>t. if ti_status t = from then t\<lparr>ti_status := to\<rparr> else t) (getTaskInfo tid s) else getTaskInfo i s)"
  by (simp add: resolve_status_def)

text \<open>Every info is filed under its own id.\<close>

definition infos_ok :: "'h tm \<Rightarrow> bool" where
  "infos_ok s \<longleftrightarrow> smap_wf (m_task_infos s) \<and> (\<forall>i t. getTaskInfo i s = Some t \<longrightarrow> ti_task_id (ti_db t) = i)"

lemma info_store_frame [simp]: "\<forall>t. getTaskInfo tid s = Some t \<longrightarrow> ti_task_id (ti_db t) = tid \<Longrightarrow> getTaskInfo i (info_store tid s) = getTaskInfo i s"
  by (auto simp: info_store_def info_add_def getTaskInfo_def Let_def smap_lookup_insert split: option.split)

text \<open>A task whose status is \<open>from\<close> ends in one of two others, and no other task is touched.\<close>

definition resolves :: "string \<Rightarrow> task_status \<Rightarrow> task_status \<Rightarrow> 'h tm \<Rightarrow> 'h tm \<Rightarrow> bool" where
  "resolves tid good err s s' \<longleftrightarrow> (status_of tid s' = Some good \<or> status_of tid s' = Some err) \<and> (\<forall>i. i \<noteq> tid \<longrightarrow> getTaskInfo i s' = getTaskInfo i s)"

lemma status_frame [simp]:
  "status_of i (on_host f s) = status_of i s" "status_of i (snd (on_vm g s)) = status_of i s"
  "status_of i (remove_iptable_from_system E tid s) = status_of i s" "status_of i (snd (add_iptable_to_system E tid s)) = status_of i s"
  "status_of i (update_running_tasks s) = status_of i s" "status_of i (s\<lparr>m_events := evs\<rparr>) = status_of i s"
  by (simp_all add: status_of_def)

lemma resolves_resolve:
  assumes "status_of tid s = Some from" "to = good \<or> to = err" "\<And>i. getTaskInfo i s = getTaskInfo i s0"
  shows "resolves tid good err s0 (resolve_status tid from to s)"
  using assms by (auto simp: resolves_def status_of_def)

lemma resolves_cong: "resolves tid good err s0 s \<Longrightarrow> (\<And>i. i \<noteq> tid \<Longrightarrow> getTaskInfo i s' = getTaskInfo i s) \<Longrightarrow> status_of tid s' = status_of tid s \<Longrightarrow> resolves tid good err s0 s'"
  by (auto simp: resolves_def)

lemma make_iptable_resolves:
  assumes "make_iptable E tid t from err s = (ok, s')" "status_of tid s = Some from"
  shows "if ok then \<forall>i. getTaskInfo i s' = getTaskInfo i s else resolves tid good err s s'"
  using assms
  by (auto simp: make_iptable_def Let_def split_beta status_of_def intro!: resolves_resolve split: if_splits)

lemma add_iptable_resolves:
  "add_iptable_to_system E tid s = (r, s') \<Longrightarrow> resolves tid good err s0 s \<Longrightarrow> resolves tid good err s0 s'"
  using info_frame(6) [of _ E tid s] by (auto intro!: resolves_cong [of tid good err s0 s s'] simp: status_of_def)

lemma restarted_resolves:
  assumes "restarted E tid (on_vm f s) = (Inr (), s')" "status_of tid s = Some TS_Task_Restarting"
  shows "resolves tid TS_Task_Running TS_RestartTaskError s s'"
proof -
  obtain r s1 where f: "on_vm f s = (r, s1)" by (rule prod.exhaust)
  then have i: "getTaskInfo i s1 = getTaskInfo i s" for i using info_frame(2) [of i f s] by simp
  then have "resolves tid TS_Task_Running TS_RestartTaskError s (resolve_status tid TS_Task_Restarting (if r \<noteq> ERR_SUCCESS then TS_RestartTaskError else TS_Task_Running) s1)"
    using assms(2) by (intro resolves_resolve) (auto simp: status_of_def)
  with assms(1) show ?thesis by (auto simp: restarted_def f split: if_splits dest: add_iptable_resolves)
qed

lemma store_root_frame:
  assumes "store_root_backfile E tid s = (Inr (), s')" "\<And>t. getTaskInfo tid s = Some t \<Longrightarrow> ti_task_id (ti_db t) = tid"
  shows "status_of tid s' = status_of tid s" "i \<noteq> tid \<Longrightarrow> getTaskInfo i s' = getTaskInfo i s"
proof -
  show "status_of tid s' = status_of tid s" "i \<noteq> tid \<Longrightarrow> getTaskInfo i s' = getTaskInfo i s"
    using assms by (auto simp: store_root_backfile_def status_of_def dest!: root_backfile_frame(1) split: option.splits if_splits prod.splits sum.splits)
qed

lemma process_destroy_resolves:
  assumes "process_destroy E from err tid s = (Inr (), s')" "status_of tid s = Some from" "infos_ok s" "err \<noteq> TS_Task_Shutoff"
  shows "resolves tid TS_Task_Shutoff err s s'"
    "domains_ok E \<Longrightarrow> status_of tid s' = Some TS_Task_Shutoff \<Longrightarrow> dom_state E (host (tvm s')) tid = Some VIR_DOMAIN_SHUTOFF"
proof -
  obtain t where t: "getTaskInfo tid s = Some t" using assms(2) by (auto simp: status_of_def)
  obtain r s1 where f: "on_vm (DestroyDomain E tid) s = (r, s1)" by (rule prod.exhaust)
  then have i: "getTaskInfo i s1 = getTaskInfo i s" for i using info_frame(2) [of i "DestroyDomain E tid" s] by simp
  then have st: "status_of tid s1 = Some from" using assms(2) by (simp add: status_of_def)
  have id: "ti_task_id (ti_db t) = tid" using assms(3) t by (simp add: infos_ok_def)
  show "resolves tid TS_Task_Shutoff err s s'"
    "domains_ok E \<Longrightarrow> status_of tid s' = Some TS_Task_Shutoff \<Longrightarrow> dom_state E (host (tvm s')) tid = Some VIR_DOMAIN_SHUTOFF"
  proof (atomize (full), cases "r = ERR_SUCCESS")
    case False
    then have e: "s' = resolve_status tid from err s1" using assms(1) t f by (simp add: process_destroy_def)
    have "status_of tid s' = Some err" using st by (auto simp: e status_of_def)
    with assms(4) show "resolves tid TS_Task_Shutoff err s s' \<and> (domains_ok E \<longrightarrow> status_of tid s' = Some TS_Task_Shutoff \<longrightarrow> dom_state E (host (tvm s')) tid = Some VIR_DOMAIN_SHUTOFF)"
      unfolding e using st i by (auto intro!: resolves_resolve)
  next
    case True
    let ?s2 = "remove_iptable_from_system E tid (resolve_status tid from TS_Task_Shutoff s1)"
    have "resolves tid TS_Task_Shutoff err s (resolve_status tid from TS_Task_Shutoff s1)"
      using st i by (intro resolves_resolve) auto
    then have r2: "resolves tid TS_Task_Shutoff err s ?s2" by (rule resolves_cong) simp_all
    have e: "store_root_backfile E tid ?s2 = (Inr (), s')" using assms(1) t f True by (simp add: process_destroy_def)
    have "ti_task_id (ti_db t') = tid" if "getTaskInfo tid ?s2 = Some t'" for t' using that i t id by (auto split: if_splits)
    from store_root_frame [OF e this] have "resolves tid TS_Task_Shutoff err s s'" by (intro resolves_cong [OF r2]) simp_all
    moreover have "dom_state E (host (tvm s')) tid = Some VIR_DOMAIN_SHUTOFF" if ok: "domains_ok E"
    proof -
      have "fst (DestroyDomain E tid (tvm s)) = ERR_SUCCESS" "tvm s1 = snd (DestroyDomain E tid (tvm s))"
        using f True by (auto simp: on_vm_def split: prod.splits)
      with DestroyDomain_shutoff [OF ok, of tid "tvm s"] have "dom_state E (host (tvm s1)) tid = Some VIR_DOMAIN_SHUTOFF" by simp
      then show ?thesis using store_root_dom [OF ok e] by (simp add: ok)
    qed
    ultimately show "resolves tid TS_Task_Shutoff err s s' \<and> (domains_ok E \<longrightarrow> status_of tid s' = Some TS_Task_Shutoff \<longrightarrow> dom_state E (host (tvm s')) tid = Some VIR_DOMAIN_SHUTOFF)" by simp
  qed
qed

lemma process_start_resolves:
  assumes "process_start_task E tid s = (Inr (), s')" "status_of tid s = Some TS_Task_Starting"
  shows "resolves tid TS_Task_Running TS_StartTaskError s s'"
proof -
  obtain t where t: "getTaskInfo tid s = Some t" using assms(2) by (auto simp: status_of_def)
  obtain r s1 where f: "on_vm (StartDomain E tid) s = (r, s1)" by (rule prod.exhaust)
  then have i: "getTaskInfo i s1 = getTaskInfo i s" for i using info_frame(2) [of i "StartDomain E tid" s] by simp
  then have st: "status_of tid s1 = Some TS_Task_Starting" using assms(2) by (simp add: status_of_def)
  have go: "resolves tid TS_Task_Running TS_StartTaskError s s''"
    if "add_iptable_to_system E tid (resolve_status tid TS_Task_Starting TS_Task_Running s2) = (r, s'')" "\<And>i. getTaskInfo i s2 = getTaskInfo i s1" for s2 s'' r
    using that st i by (intro add_iptable_resolves [OF that(1)] resolves_resolve) (auto simp: status_of_def)
  consider "r \<noteq> ERR_SUCCESS" | "r = ERR_SUCCESS" "\<not> (ti_bios_mode (ti_db t) \<noteq> ''pxe'' \<and> getIptableInfo tid s1 = None)"
    | "r = ERR_SUCCESS" "ti_bios_mode (ti_db t) \<noteq> ''pxe''" "getIptableInfo tid s1 = None" by blast
  then show ?thesis
  proof cases
    case 1
    then show ?thesis using assms(1) t f st i by (auto simp: process_start_task_def intro!: resolves_resolve)
  next
    case 2
    then show ?thesis using assms(1) t f go by (auto simp: process_start_task_def)
  next
    case 3
    obtain ok s2 where m: "make_iptable E tid t TS_Task_Starting TS_StartTaskError s1 = (ok, s2)" by (rule prod.exhaust)
    note mr = make_iptable_resolves [OF m st, of TS_Task_Running]
    show ?thesis
    proof (cases ok)
      case True
      then show ?thesis using assms(1) t f 3 m mr go by (auto simp: process_start_task_def)
    next
      case False
      then show ?thesis using assms(1) t f 3 m mr i by (auto simp: process_start_task_def resolves_def)
    qed
  qed
qed

lemma on_vm_info: "on_vm f s = (r, s1) \<Longrightarrow> getTaskInfo i s1 = getTaskInfo i s"
  using info_frame(2) [of i f s] by simp

lemma process_create_resolves:
  assumes "process_create_task E tid bios s = (Inr (), s')" "status_of tid s = Some TS_Task_Creating"
  shows "resolves tid TS_Task_Running TS_CreateTaskError s s'"
proof -
  obtain t where t: "getTaskInfo tid s = Some t" using assms(2) by (auto simp: status_of_def)
  obtain r s1 where f: "on_vm (DefineNWFilter E tid (ti_nwfilter (ti_db t))) s = (r, s1)" by (rule prod.exhaust)
  obtain ok h where c: "CreateDomain E tid (host (tvm s1)) = (ok, h)" by (rule prod.exhaust)
  define s2 where "s2 = on_host (\<lambda>_. h) s1"
  have i: "getTaskInfo i s1 = getTaskInfo i s" "getTaskInfo i s2 = getTaskInfo i s" for i using on_vm_info [OF f] by (simp_all add: s2_def)
  then have st: "status_of tid s1 = Some TS_Task_Creating" "status_of tid s2 = Some TS_Task_Creating" using assms(2) by (simp_all add: status_of_def)
  consider "\<not> r" | "r" "\<not> ok" | "r" "ok" "bios = ''pxe''" | "r" "ok" "bios \<noteq> ''pxe''" by blast
  then show ?thesis
  proof cases
    case 4
    obtain ok' s3 where m: "make_iptable E tid t TS_Task_Creating TS_CreateTaskError s2 = (ok', s3)" by (rule prod.exhaust)
    note mr = make_iptable_resolves [OF m st(2), of TS_Task_Running]
    show ?thesis
    proof (cases ok')
      case True
      then have i3: "getTaskInfo i s3 = getTaskInfo i s" for i using mr i by simp
      obtain f4 s4 where a: "add_iptable_to_system E tid s3 = (f4, s4)" by (rule prod.exhaust)
      then have i4: "getTaskInfo i s4 = getTaskInfo i s" for i using info_frame(6) [of i E tid s3] i3 by simp
      then have st4: "status_of tid s4 = Some TS_Task_Creating" using assms(2) by (simp add: status_of_def)
      have "\<exists>s5. s' = resolve_status tid TS_Task_Creating TS_Task_Running s5 \<and> (\<forall>i. i \<noteq> tid \<longrightarrow> getTaskInfo i s5 = getTaskInfo i s4) \<and> status_of tid s5 = status_of tid s4"
        using assms(1) t f c 4 m True a
        by (auto simp: process_create_task_def s2_def Let_def mbind_def status_of_def option.map_comp comp_def split: sum.splits prod.splits)
      then obtain s5 where "s' = resolve_status tid TS_Task_Creating TS_Task_Running s5" "\<And>i. i \<noteq> tid \<Longrightarrow> getTaskInfo i s5 = getTaskInfo i s"
        "status_of tid s5 = Some TS_Task_Creating" using i4 st4 by auto
      then show ?thesis by (auto simp: resolves_def status_of_def)
    next
      case False
      then show ?thesis using assms(1) t f c 4 m mr i by (auto simp: process_create_task_def s2_def Let_def resolves_def)
    qed
  qed (use assms(1) t f c st i in \<open>auto simp: process_create_task_def s2_def Let_def intro!: resolves_resolve\<close>)
qed

text \<open>The task an event is about, the transitional status of its request, and the statuses it may end in.\<close>

fun pending :: "task_event \<Rightarrow> (string \<times> task_status \<times> task_status \<times> task_status) option" where
  "pending (CreateTaskEvent tid bios) = Some (tid, TS_Task_Creating, TS_Task_Running, TS_CreateTaskError)"
| "pending (StartTaskEvent tid) = Some (tid, TS_Task_Starting, TS_Task_Running, TS_StartTaskError)"
| "pending (ShutdownTaskEvent tid) = Some (tid, TS_Task_BeingShutdown, TS_Task_Shutoff, TS_ShutdownTaskError)"
| "pending (PowerOffTaskEvent tid) = Some (tid, TS_Task_BeingPoweroff, TS_Task_Shutoff, TS_PoweroffTaskError)"
| "pending (ReStartTaskEvent tid) = Some (tid, TS_Task_Restarting, TS_Task_Running, TS_RestartTaskError)"
| "pending (ForceRebootTaskEvent tid) = Some (tid, TS_Task_Restarting, TS_Task_Running, TS_RestartTaskError)"
| "pending (ResetTaskEvent tid) = Some (tid, TS_Task_Resetting, TS_Task_Running, TS_ResetTaskError)"
| "pending _ = None"

lemma process_event_resolves:
  assumes "infos_ok s" "pending ev = Some (tid, from, good, err)" "status_of tid s = Some from" "process_event E ev s = (Inr (), s')"
    "ev = ReStartTaskEvent tid \<Longrightarrow> domain_status E tid s = VIR_DOMAIN_SHUTOFF \<or> domain_status E tid s = VIR_DOMAIN_RUNNING"
  shows "resolves tid good err s s'"
proof -
  obtain t where t: "getTaskInfo tid s = Some t" using assms(3) by (auto simp: status_of_def)
  show ?thesis
  proof (cases ev)
    case (CreateTaskEvent a b)
    then show ?thesis using assms by (auto dest: process_create_resolves)
  next
    case (StartTaskEvent a)
    then show ?thesis using assms by (auto dest: process_start_resolves)
  next
    case (ShutdownTaskEvent a)
    then show ?thesis using assms by (auto simp: process_shutdown_task_def dest: process_destroy_resolves(1))
  next
    case (PowerOffTaskEvent a)
    then show ?thesis using assms by (auto simp: process_poweroff_task_def dest: process_destroy_resolves(1))
  next
    case (ReStartTaskEvent a)
    then show ?thesis using assms t
      by (auto simp: process_restart_task_def Let_def dest: restarted_resolves)
  next
    case (ForceRebootTaskEvent a)
    then have p: "process_force_reboot_task E tid s = (Inr (), s')" "good = TS_Task_Running" "err = TS_RestartTaskError" "status_of tid s = Some TS_Task_Restarting"
      using assms by auto
    obtain r s1 where f: "on_vm (DestroyDomain E tid) s = (r, s1)" by (rule prod.exhaust)
    have i: "getTaskInfo i s1 = getTaskInfo i s" for i using on_vm_info [OF f] .
    then have st: "status_of tid s1 = Some TS_Task_Restarting" using p(4) by (simp add: status_of_def)
    have "resolves tid TS_Task_Running TS_RestartTaskError s1 s' \<or> resolves tid TS_Task_Running TS_RestartTaskError s s'"
      using p(1) t f st p(4)
      by (auto simp: process_force_reboot_task_def dest: restarted_resolves intro!: resolves_resolve [of tid s1] split: if_splits)
    then show ?thesis using i p(2,3) by (auto simp: resolves_def)
  next
    case (ResetTaskEvent a)
    then have p: "s' = process_reset_task E tid s" "from = TS_Task_Resetting" "good = TS_Task_Running" "err = TS_ResetTaskError" using assms by (auto simp: mmodify_def)
    obtain r s1 where f: "on_vm (ResetDomain E tid) s = (r, s1)" by (rule prod.exhaust)
    have "getTaskInfo i s1 = getTaskInfo i s" for i using on_vm_info [OF f] .
    then show ?thesis unfolding p using t f assms(3) p(2) by (auto simp: process_reset_task_def status_of_def intro!: resolves_resolve)
  qed (use assms in auto)
qed


text \<open>(C39) A restart can hang: \<open>restartTask\<close> accepts a domain without a state (its state could not be read), and the
  event does nothing for a domain that is neither shut off nor running, so the task stays in the
  status of restarting and the request has no answer.\<close>

theorem restart_can_hang:
  assumes "restartTask E w tid False s = (FResultOk, s1)" "m_events s = []" "domain_status E tid s1 = VIR_DOMAIN_NOSTATE"
  shows "\<exists>s2. process_round E s1 = (Inr (), s2) \<and> m_events s2 = [] \<and> status_of tid s2 = Some TS_Task_Restarting"
proof -
  obtain t r s0 where t: "getTaskInfo tid s = Some t" and c: "check_resource E t s = (r, s0)" and s1: "s1 = pushTaskEvent (ReStartTaskEvent tid) (setTaskStatus tid TS_Task_Restarting s0)"
    using assms(1) by (auto simp: restartTask_def with_task_def not_exist_def task_is_def FResultOk_def accept_event_def Let_def
        split: option.splits prod.splits if_splits)
  have gpu: "getTaskInfo i (foldl (\<lambda>s (_, info). gpu_del_one a (gpu_id info) s) x l) = getTaskInfo i x"
    "m_events (foldl (\<lambda>s (_, info). gpu_del_one a (gpu_id info) s) x l) = m_events x" for i a l and x :: "'a tm"
    by (induction l arbitrary: x) (auto simp: gpu_del_one_def getTaskInfo_def)
  have oh: "m_events (on_host f x) = m_events x" for f and x :: "'a tm" by (simp add: on_host_def)
  have "getTaskInfo tid s0 = getTaskInfo tid s" "m_events s0 = m_events s"
    using c by (auto simp: check_resource_def checkXmlGpu_def drop_caches_def Let_def gpu oh split: option.splits if_splits)
  then show ?thesis using t assms(2,3)
    by (auto simp: process_round_def s1 pushTaskEvent_def setTaskStatus_def upd_info_def process_task_def mbind_def process_restart_task_def
        mmodify_def domain_status_def Let_def status_of_def getTaskInfo_def update_running_tasks_def)
qed

section \<open>Deleting\<close>

text \<open>The tables of the wallets: an ordered map, each entry filed under its own wallet.\<close>

definition rents_ok :: "'h tm \<Rightarrow> bool" where
  "rents_ok s \<longleftrightarrow> smap_wf (m_wallet_renttasks s) \<and> (\<forall>w r. getWalletRentTask w s = Some r \<longrightarrow> rt_wallet r = w)"

lemma remove_first_facts:
  "set (remove_first p l) \<subseteq> set l" "x \<in> set l \<Longrightarrow> \<not> p x \<Longrightarrow> x \<in> set (remove_first p l)"
  "distinct l \<Longrightarrow> remove_first (\<lambda>i. i = y) l = filter (\<lambda>i. i \<noteq> y) l"
  by (induction l) (auto intro!: filter_id_conv [THEN iffD2, symmetric])

text \<open>Deleting from the lists: no other id is touched, and an id that is listed once is gone.\<close>

lemma rent_del_Some:
  assumes "rents_ok s" "List.find (\<lambda>(_, r). tid \<in> set (rt_task_ids r)) (m_wallet_renttasks s) = Some (w0, r0)"
  shows "getWalletRentTask w0 s = Some r0" "tid \<in> set (rt_task_ids r0)" "rt_wallet r0 = w0"
    "rent_del tid s = put_rent w0 (r0\<lparr>rt_task_ids := remove_first (\<lambda>i. i = tid) (rt_task_ids r0)\<rparr>) s"
proof -
  from assms(2) have "(w0, r0) \<in> set (m_wallet_renttasks s)" "tid \<in> set (rt_task_ids r0)"
    by (auto simp: find_Some_iff) (metis nth_mem)
  with assms(1) show "getWalletRentTask w0 s = Some r0" "tid \<in> set (rt_task_ids r0)"
    by (simp_all add: rents_ok_def getWalletRentTask_def smap_in_set)
  with assms(1) show "rt_wallet r0 = w0" by (simp add: rents_ok_def)
  show "rent_del tid s = put_rent w0 (r0\<lparr>rt_task_ids := remove_first (\<lambda>i. i = tid) (rt_task_ids r0)\<rparr>) s" by (simp add: rent_del_def assms(2))
qed

lemma put_rent_lookup [simp]: "getWalletRentTask w (put_rent w0 r s) = (if w = w0 then Some r else getWalletRentTask w s)"
  by (simp add: getWalletRentTask_def put_rent_def smap_lookup_insert)

lemma put_rent_ok: "rents_ok s \<Longrightarrow> rt_wallet r = w0 \<Longrightarrow> rents_ok (put_rent w0 r s)"
  by (simp add: rents_ok_def) (simp add: put_rent_def)

lemma rent_del_facts:
  assumes "rents_ok s"
  shows "rents_ok (rent_del tid s)" "set (task_ids_of w (rent_del tid s)) \<subseteq> set (task_ids_of w s)"
    "i \<in> set (task_ids_of w s) \<Longrightarrow> i \<noteq> tid \<Longrightarrow> i \<in> set (task_ids_of w (rent_del tid s))"
    "rent_end_of w (rent_del tid s) = rent_end_of w s"
proof -
  have "rents_ok (rent_del tid s) \<and> set (task_ids_of w (rent_del tid s)) \<subseteq> set (task_ids_of w s) \<and>
      (i \<in> set (task_ids_of w s) \<longrightarrow> i \<noteq> tid \<longrightarrow> i \<in> set (task_ids_of w (rent_del tid s))) \<and> rent_end_of w (rent_del tid s) = rent_end_of w s"
  proof (cases "List.find (\<lambda>(_, r). tid \<in> set (rt_task_ids r)) (m_wallet_renttasks s)")
    case None
    then have "rent_del tid s = s" by (simp add: rent_del_def)
    then show ?thesis using assms by simp
  next
    case (Some p)
    obtain w0 r0 where p: "p = (w0, r0)" by (rule prod.exhaust)
    note d = rent_del_Some [OF assms Some [unfolded p]]
    show ?thesis
      unfolding d(4) using put_rent_ok [OF assms, of "r0\<lparr>rt_task_ids := remove_first (\<lambda>i. i = tid) (rt_task_ids r0)\<rparr>" w0] d(1,3)
        remove_first_facts(1) [of "\<lambda>i. i = tid" "rt_task_ids r0"] remove_first_facts(2) [of i "rt_task_ids r0" "\<lambda>i. i = tid"]
      by (auto simp: task_ids_of_def rent_end_of_def)
  qed
  then show "rents_ok (rent_del tid s)" "set (task_ids_of w (rent_del tid s)) \<subseteq> set (task_ids_of w s)"
    "i \<in> set (task_ids_of w s) \<Longrightarrow> i \<noteq> tid \<Longrightarrow> i \<in> set (task_ids_of w (rent_del tid s))"
    "rent_end_of w (rent_del tid s) = rent_end_of w s" by blast+
qed

lemma rent_frame [simp]:
  "getWalletRentTask w (on_host f s) = getWalletRentTask w s" "getWalletRentTask w (snd (on_vm g s)) = getWalletRentTask w s"
  "getWalletRentTask w (remove_iptable_from_system E tid s) = getWalletRentTask w s" "getWalletRentTask w (setTaskStatus tid st s) = getWalletRentTask w s"
  "getWalletRentTask w (info_del tid s) = getWalletRentTask w s" "getWalletRentTask w (gpu_del tid s) = getWalletRentTask w s"
  "getWalletRentTask w (delDisks E tid s) = getWalletRentTask w s" "getWalletRentTask w (delSnapshots E tid s) = getWalletRentTask w s"
  "getWalletRentTask w (iptable_del tid s) = getWalletRentTask w s"
  by (simp_all add: getWalletRentTask_def on_host_def on_vm_def remove_iptable_from_system_def setTaskStatus_def upd_info_def info_del_def gpu_del_def
      delDisks_def delSnapshots_def iptable_del_def Let_def split: option.split prod.split)

lemma renttasks_frame [simp]:
  "m_wallet_renttasks (on_host f s) = m_wallet_renttasks s" "m_wallet_renttasks (snd (on_vm g s)) = m_wallet_renttasks s"
  "m_wallet_renttasks (remove_iptable_from_system E tid s) = m_wallet_renttasks s" "m_wallet_renttasks (setTaskStatus tid st s) = m_wallet_renttasks s"
  "m_wallet_renttasks (info_del tid s) = m_wallet_renttasks s" "m_wallet_renttasks (gpu_del tid s) = m_wallet_renttasks s"
  "m_wallet_renttasks (delDisks E tid s) = m_wallet_renttasks s" "m_wallet_renttasks (delSnapshots E tid s) = m_wallet_renttasks s"
  "m_wallet_renttasks (iptable_del tid s) = m_wallet_renttasks s"
  by (simp_all add: on_host_def on_vm_def remove_iptable_from_system_def setTaskStatus_def upd_info_def info_del_def gpu_del_def
      delDisks_def delSnapshots_def iptable_del_def Let_def split: option.split prod.split)

lemma rents_ok_frame [simp]:
  "rents_ok (on_host f s) = rents_ok s" "rents_ok (snd (on_vm g s)) = rents_ok s" "rents_ok (remove_iptable_from_system E tid s) = rents_ok s"
  "rents_ok (setTaskStatus tid st s) = rents_ok s" "rents_ok (info_del tid s) = rents_ok s" "rents_ok (gpu_del tid s) = rents_ok s"
  "rents_ok (delDisks E tid s) = rents_ok s" "rents_ok (delSnapshots E tid s) = rents_ok s" "rents_ok (iptable_del tid s) = rents_ok s"
  by (simp_all add: rents_ok_def)

lemma delDisks_dom [simp]: "domains_ok E \<Longrightarrow> dom_state E (host (tvm (delDisks E tid s))) d = dom_state E (host (tvm s)) d"
proof -
  assume ok: "domains_ok E"
  have "dom_state E (foldl (\<lambda>h (_, d). if is_regular_file E h (disk_source_file d) then remove_file E (disk_source_file d) h else h) h l) d = dom_state E h d"
    for h and l :: "(string, disk_info) smap"
    by (induction l arbitrary: h) (auto simp: ok)
  then show ?thesis by (simp add: delDisks_def on_host_def Let_def)
qed

lemma delSnapshots_dom [simp]: "domains_ok E \<Longrightarrow> dom_state E (host (tvm (delSnapshots E tid s))) d = dom_state E (host (tvm s)) d"
proof -
  assume ok: "domains_ok E"
  have "dom_state E (foldl (\<lambda>h i. remove_file E (snap_file i) h) h l) d = dom_state E h d" for h and l :: "snapshot_item list"
    by (induction l arbitrary: h) (auto simp: ok)
  then show ?thesis by (simp add: delSnapshots_def on_host_def split: option.split)
qed

lemma conn_frame [simp]:
  "m_connPtr (tvm (on_host f s)) = m_connPtr (tvm s)" "m_connPtr (tvm (delDisks E tid s)) = m_connPtr (tvm s)" "m_connPtr (tvm (delSnapshots E tid s)) = m_connPtr (tvm s)"
  by (simp_all add: on_host_def delDisks_def delSnapshots_def Let_def split: option.split)

lemma on_vm_tvm [simp]: "tvm (snd (on_vm f s)) = snd (f (tvm s))"
  by (simp add: on_vm_def split: prod.split)

lemma on_host_host [simp]: "host (tvm (on_host f s)) = f (host (tvm s))"
  by (simp add: on_host_def)

text \<open>Leaving a network and the broadcasts do not change a domain either.\<close>

definition quiet_env :: "'h task_env \<Rightarrow> bool" where
  "quiet_env E \<longleftrightarrow> domains_ok E \<and> (\<forall>n t h d. dom_state E (network_leave E n t h) d = dom_state E h d) \<and>
     (\<forall>m h d. dom_state E (udp_broadcast E m h) d = dom_state E h d)"

lemma quiet_envD: "quiet_env E \<Longrightarrow> domains_ok E" "quiet_env E \<Longrightarrow> dom_state E (network_leave E n t h) d = dom_state E h d"
  "quiet_env E \<Longrightarrow> dom_state E (udp_broadcast E m h) d = dom_state E h d"
  by (simp_all add: quiet_env_def)

lemma delete_task_dom:
  assumes "quiet_env E"
  shows "dom_state E (host (tvm (delete_task E tid s))) d =
    dom_state E (host (snd (DestroyAndUndefineDomain E tid (IsDomainHasNvram E tid (tvm s) > 0) (tvm s)))) d"
    "m_connPtr (tvm (delete_task E tid s)) = m_connPtr (tvm s)"
  using quiet_envD [OF assms]
  by (simp_all add: delete_task_def Let_def split: option.split)

lemma delete_task_rents:
  assumes "rents_ok s"
  shows "rents_ok (delete_task E tid s)" "set (task_ids_of w (delete_task E tid s)) \<subseteq> set (task_ids_of w s)"
    "i \<in> set (task_ids_of w s) \<Longrightarrow> i \<noteq> tid \<Longrightarrow> i \<in> set (task_ids_of w (delete_task E tid s))"
    "rent_end_of w (delete_task E tid s) = rent_end_of w s"
proof -
  have "\<exists>s1. (delete_task E tid s = s1 \<or> delete_task E tid s = snd (on_vm (UndefineNWFilter E tid) (rent_del tid s1))) \<and> m_wallet_renttasks s1 = m_wallet_renttasks s"
  proof (cases "getTaskInfo tid s")
    case None
    then show ?thesis by (intro exI [of _ "delete_task E tid s"]) (simp add: delete_task_def Let_def)
  next
    case (Some t)
    show ?thesis unfolding delete_task_def Let_def info_frame Some option.case by (intro exI conjI disjI2, rule refl) simp
  qed
  then obtain s1 where d: "delete_task E tid s = s1 \<or> delete_task E tid s = snd (on_vm (UndefineNWFilter E tid) (rent_del tid s1))"
    and s1: "m_wallet_renttasks s1 = m_wallet_renttasks s" by blast
  have e: "rents_ok s1 = rents_ok s" "task_ids_of w s1 = task_ids_of w s" "rent_end_of w s1 = rent_end_of w s" for w
    using s1 by (simp_all add: rents_ok_def task_ids_of_def rent_end_of_def getWalletRentTask_def)
  note f = rent_del_facts [of s1, unfolded e, OF assms]
  have fr: "task_ids_of w (snd (on_vm g x)) = task_ids_of w x" "rent_end_of w (snd (on_vm g x)) = rent_end_of w x" for g :: "'a vm \<Rightarrow> 'b \<times> 'a vm" and x w
    by (simp_all add: task_ids_of_def rent_end_of_def)
  show "rents_ok (delete_task E tid s)" "set (task_ids_of w (delete_task E tid s)) \<subseteq> set (task_ids_of w s)"
    "i \<in> set (task_ids_of w s) \<Longrightarrow> i \<noteq> tid \<Longrightarrow> i \<in> set (task_ids_of w (delete_task E tid s))"
    "rent_end_of w (delete_task E tid s) = rent_end_of w s"
    using d f e assms subsetD [OF f(2)] by (auto simp: fr)
qed

section \<open>Pruning\<close>

text \<open>
  What holds between a state and a later one as far as the prune thread goes: domains that are off
  stay off, and an id leaves the list of a wallet only when its domain is off.
\<close>

definition tame :: "'h task_env \<Rightarrow> 'h tm \<Rightarrow> 'h tm \<Rightarrow> bool" where
  "tame E s s' \<longleftrightarrow> (m_connPtr (tvm s) \<and> rents_ok s \<longrightarrow> m_connPtr (tvm s') \<and> rents_ok s' \<and> (\<forall>d. off E (host (tvm s)) d \<longrightarrow> off E (host (tvm s')) d) \<and>
     (\<forall>w i. i \<in> set (task_ids_of w s) \<longrightarrow> i \<in> set (task_ids_of w s') \<or> off E (host (tvm s')) i))"

lemma tameD:
  assumes "tame E s s'" "m_connPtr (tvm s)" "rents_ok s"
  shows "m_connPtr (tvm s')" "rents_ok s'" "off E (host (tvm s)) d \<Longrightarrow> off E (host (tvm s')) d"
    "i \<in> set (task_ids_of w s) \<Longrightarrow> i \<in> set (task_ids_of w s') \<or> off E (host (tvm s')) i"
  using assms by (auto simp: tame_def)

lemma tame_refl: "tame E s s"
  by (simp add: tame_def)

lemma tame_trans: "tame E s s' \<Longrightarrow> tame E s' s'' \<Longrightarrow> tame E s s''"
  unfolding tame_def by blast

lemma tame_foldl: "(\<And>s x. tame E s (f s x)) \<Longrightarrow> tame E s (foldl f s xs)"
  by (induction xs arbitrary: s) (auto intro: tame_refl tame_trans)

lemma tame_same:
  "m_connPtr (tvm s') = m_connPtr (tvm s) \<Longrightarrow> m_wallet_renttasks s' = m_wallet_renttasks s \<Longrightarrow> (\<And>d. dom_state E (host (tvm s')) d = dom_state E (host (tvm s)) d) \<Longrightarrow> tame E s s'"
  by (simp add: tame_def rents_ok_def task_ids_of_def getWalletRentTask_def off_def)

lemma close_task_tame: "quiet_env E \<Longrightarrow> tame E s (close_task E tid s)"
proof -
  assume "quiet_env E"
  then have ok: "domains_ok E" by (rule quiet_envD)
  obtain r s1 where f: "on_vm (DestroyDomain E tid) s = (r, s1)" by (rule prod.exhaust)
  then have v: "tvm s1 = snd (DestroyDomain E tid (tvm s))" "m_wallet_renttasks s1 = m_wallet_renttasks s"
    using on_vm_tvm [of "DestroyDomain E tid" s] renttasks_frame(2) [of "DestroyDomain E tid" s] by simp_all
  have "tame E s s1"
    using DestroyDomain_keeps_off [OF ok, of "tvm s"] v by (simp add: tame_def rents_ok_def task_ids_of_def getWalletRentTask_def)
  moreover have "tame E s1 (remove_iptable_from_system E tid (setTaskStatus tid TS_Task_Shutoff s1))"
    by (rule tame_same) (simp_all add: ok)
  ultimately show ?thesis by (auto simp: close_task_def f intro: tame_refl tame_trans)
qed

lemma close_task_off:
  assumes "quiet_env E" "destroy_works E" "m_connPtr (tvm s)"
  shows "off E (host (tvm (close_task E tid s))) tid"
proof (cases "domain_status E tid s = VIR_DOMAIN_SHUTOFF")
  case True
  with assms(3) show ?thesis by (auto simp: close_task_def domain_status_def GetDomainStatus_dom off_def split: option.splits)
next
  case False
  note ok = quiet_envD(1) [OF assms(1)]
  obtain r s1 where f: "on_vm (DestroyDomain E tid) s = (r, s1)" by (rule prod.exhaust)
  then have "tvm s1 = snd (DestroyDomain E tid (tvm s))" using on_vm_tvm [of "DestroyDomain E tid" s] by simp
  with DestroyDomain_off [OF ok assms(2,3)] have "off E (host (tvm s1)) tid" by simp
  then show ?thesis using False by (simp add: close_task_def f off_def ok)
qed

lemma delete_task_tame_off:
  assumes "quiet_env E" "destroy_works E"
  shows "tame E s (delete_task E tid s)" "m_connPtr (tvm s) \<Longrightarrow> off E (host (tvm (delete_task E tid s))) tid"
proof -
  note ok = quiet_envD(1) [OF assms(1)] and d = delete_task_dom [OF assms(1)]
  show o: "off E (host (tvm (delete_task E tid s))) tid" if "m_connPtr (tvm s)"
    using DestroyAndUndefine_off [OF ok assms(2) that] d(1) by (simp add: off_def)
  show "tame E s (delete_task E tid s)"
    unfolding tame_def
  proof (intro impI conjI allI)
    assume c: "m_connPtr (tvm s) \<and> rents_ok s"
    then show "m_connPtr (tvm (delete_task E tid s))" "rents_ok (delete_task E tid s)" using d(2) delete_task_rents(1) by auto
    show "off E (host (tvm (delete_task E tid s))) x" if "off E (host (tvm s)) x" for x
      using DestroyAndUndefine_keeps_off [OF ok that] d(1) by (simp add: off_def)
    show "i \<in> set (task_ids_of w (delete_task E tid s)) \<or> off E (host (tvm (delete_task E tid s))) i" if "i \<in> set (task_ids_of w s)" for w i
      using that c o delete_task_rents(3) [of s i w tid E] by (cases "i = tid") auto
  qed
qed

lemma foldl_off:
  assumes "\<And>s x. tame E s (f s x)" "\<And>s x. m_connPtr (tvm s) \<Longrightarrow> off E (host (tvm (f s x))) x" "m_connPtr (tvm s)" "rents_ok s"
  shows "\<forall>x\<in>set xs. off E (host (tvm (foldl f s xs))) x"
  using assms(3,4)
proof (induction xs arbitrary: s)
  case (Cons x xs)
  have t: "m_connPtr (tvm (f s x))" "rents_ok (f s x)" using assms(1) [of s x] Cons.prems by (auto simp: tame_def)
  have "tame E (f s x) (foldl f (f s x) xs)" by (rule tame_foldl) (rule assms(1))
  with t assms(2) [OF Cons.prems(1), of x] have "off E (host (tvm (foldl f (f s x) xs))) x" by (auto simp: tame_def)
  with Cons.IH [OF t] show ?case by simp
qed simp

lemma rent_set_end_tame: "tame E s (rent_set_end w e s)"
proof (cases "getWalletRentTask w s")
  case (Some r)
  show ?thesis unfolding tame_def
  proof (intro impI)
    assume c: "m_connPtr (tvm s) \<and> rents_ok s"
    then have "rt_wallet r = w" using Some by (simp add: rents_ok_def)
    then have e: "rent_set_end w e s = put_rent w (r\<lparr>rt_rent_end := e\<rparr>) s" using Some by (simp add: rent_set_end_def)
    have "tvm (put_rent w (r\<lparr>rt_rent_end := e\<rparr>) s) = tvm s" by (simp add: put_rent_def)
    with c put_rent_ok [of s "r\<lparr>rt_rent_end := e\<rparr>" w] \<open>rt_wallet r = w\<close>
    show "m_connPtr (tvm (rent_set_end w e s)) \<and> rents_ok (rent_set_end w e s) \<and>
      (\<forall>d. off E (host (tvm s)) d \<longrightarrow> off E (host (tvm (rent_set_end w e s))) d) \<and>
      (\<forall>w' i. i \<in> set (task_ids_of w' s) \<longrightarrow> i \<in> set (task_ids_of w' (rent_set_end w e s)) \<or> off E (host (tvm (rent_set_end w e s))) i)"
      unfolding e using Some by (auto simp: task_ids_of_def)
  qed
qed (simp add: rent_set_end_def tame_refl)

lemma prune_by_status_tame: "quiet_env E \<Longrightarrow> destroy_works E \<Longrightarrow> tame E s (prune_by_status E st w s)"
  unfolding prune_by_status_def
  by (cases st) (auto intro!: tame_foldl close_task_tame delete_task_tame_off(1) simp: tame_refl)

lemma prune_by_renter_tame:
  assumes "quiet_env E" "destroy_works E"
  shows "tame E s (prune_by_renter E renter rent_end block w s)"
    "w \<noteq> renter \<Longrightarrow> m_connPtr (tvm s) \<Longrightarrow> rents_ok s \<Longrightarrow> \<forall>i\<in>set (task_ids_of w s). off E (host (tvm (prune_by_renter E renter rent_end block w s))) i"
proof -
  let ?s1 = "foldl (\<lambda>s i. close_task E i s) s (task_ids_of w s)"
  let ?s2 = "foldl (\<lambda>s i. delete_task E i s) ?s1 (task_ids_of w ?s1)"
  have t: "tame E s ?s1" "tame E ?s1 ?s2"
    by (rule tame_foldl, rule close_task_tame [OF assms(1)], rule tame_foldl, rule delete_task_tame_off(1) [OF assms])
  show "tame E s (prune_by_renter E renter rent_end block w s)"
    using t by (auto simp: prune_by_renter_def Let_def tame_refl rent_set_end_tame intro: tame_trans)
  assume w: "w \<noteq> renter" "m_connPtr (tvm s)" "rents_ok s"
  have "\<forall>i\<in>set (task_ids_of w s). off E (host (tvm ?s1)) i"
    by (rule foldl_off [OF close_task_tame [OF assms(1)] close_task_off [OF assms] w(2,3)])
  with t w show "\<forall>i\<in>set (task_ids_of w s). off E (host (tvm (prune_by_renter E renter rent_end block w s))) i"
    by (auto simp: prune_by_renter_def Let_def tame_def)
qed

lemma prune_wallet_off:
  assumes "quiet_env E" "destroy_works E"
  shows "tame E s (prune_wallet E st renter rent_end block w s)"
    "w \<noteq> renter \<Longrightarrow> st = MS_Online \<or> st = MS_Rented \<Longrightarrow> m_connPtr (tvm s) \<Longrightarrow> rents_ok s \<Longrightarrow> \<forall>i\<in>set (task_ids_of w s). off E (host (tvm (prune_wallet E st renter rent_end block w s))) i"
proof -
  let ?s1 = "prune_by_status E st w s"
  let ?s2 = "prune_by_renter E renter rent_end block w ?s1"
  have t: "tame E s ?s1" "tame E ?s1 ?s2" by (rule prune_by_status_tame [OF assms], rule prune_by_renter_tame [OF assms])
  then show "tame E s (prune_wallet E st renter rent_end block w s)" by (auto simp: prune_wallet_def Let_def intro: tame_trans)
  assume w: "w \<noteq> renter" "st = MS_Online \<or> st = MS_Rented" and c: "m_connPtr (tvm s)" "rents_ok s"
  then have c1: "m_connPtr (tvm ?s1)" "rents_ok ?s1" using t(1) by (auto simp: tame_def)
  have e: "prune_wallet E st renter rent_end block w s = ?s2" using w(2) by (auto simp: prune_wallet_def)
  show "\<forall>i\<in>set (task_ids_of w s). off E (host (tvm (prune_wallet E st renter rent_end block w s))) i"
    unfolding e using prune_by_renter_tame(2) [OF assms w(1) c1] tameD(3,4) [OF t(2) c1] tameD(4) [OF t(1) c] by blast
qed

lemma prune_fold_off:
  assumes "quiet_env E" "destroy_works E" "st = MS_Online \<or> st = MS_Rented"
  shows "m_connPtr (tvm s) \<Longrightarrow> rents_ok s \<Longrightarrow> w \<in> set ws \<Longrightarrow> w \<noteq> renter \<Longrightarrow>
    \<forall>i\<in>set (task_ids_of w s). off E (host (tvm (foldl (\<lambda>s w. prune_wallet E st renter rent_end block w s) s ws))) i"
proof (induction ws arbitrary: s)
  case (Cons v ws)
  let ?f = "\<lambda>s w. prune_wallet E st renter rent_end block w s" and ?s1 = "prune_wallet E st renter rent_end block v s"
  have t: "tame E s ?s1" "tame E ?s1 (foldl ?f ?s1 ws)"
    by (rule prune_wallet_off [OF assms(1,2)], rule tame_foldl, rule prune_wallet_off [OF assms(1,2)])
  have c1: "m_connPtr (tvm ?s1)" "rents_ok ?s1" using t(1) Cons.prems by (auto simp: tame_def)
  show ?case
  proof (cases "w = v")
    case True
    with prune_wallet_off(2) [OF assms(1,2) _ assms(3), of w renter s rent_end block] Cons.prems
    have "\<forall>i\<in>set (task_ids_of w s). off E (host (tvm ?s1)) i" by blast
    with t(2) c1 show ?thesis by (auto simp: tame_def)
  next
    case False
    with Cons.IH [OF c1] Cons.prems have "\<forall>i\<in>set (task_ids_of w ?s1). off E (host (tvm (foldl ?f ?s1 ws))) i" by simp
    with t Cons.prems(1,2) c1 show ?thesis unfolding tame_def foldl.simps by blast
  qed
qed simp

text \<open>What the chain says in a round, after the commands at its beginning.\<close>

definition round_start :: "'h task_env \<Rightarrow> 'h tm \<Rightarrow> 'h tm" where
  "round_start E s = on_host (shell_remove_reject_iptable_from_system E) s"

lemma round_start_same:
  assumes "domains_ok E"
  shows "dom_state E (host (tvm (round_start E s))) d = dom_state E (host (tvm s)) d" "m_connPtr (tvm (round_start E s)) = m_connPtr (tvm s)"
    "m_wallet_renttasks (round_start E s) = m_wallet_renttasks s" "m_task_infos (round_start E s) = m_task_infos s"
  using assms by (simp_all add: round_start_def shell_remove_reject_iptable_from_system_def split_beta) (simp add: on_host_def)

text \<open>(C24) Pruning ends the tasks of everybody but the renter: when the machine is online or rented, after a round every task
  that was listed under another wallet than the current renter has a domain that is shut off or gone (as
  long as the hypervisor destroys what it is asked to).\<close>

theorem prune_closes_foreign_tasks:
  assumes "quiet_env E" "destroy_works E" "m_connPtr (tvm s)" "rents_ok s"
    "chain_machine_status E (host (tvm (round_start E s))) = MS_Online \<or> chain_machine_status E (host (tvm (round_start E s))) = MS_Rented"
    "w \<noteq> fst (chain_cur_renter E (host (tvm (round_start E s))))" "tid \<in> set (task_ids_of w s)"
  shows "off E (host (tvm (prune_round E s))) tid"
proof -
  note ok = quiet_envD(1) [OF assms(1)]
  let ?s0 = "round_start E s" and ?st = "chain_machine_status E (host (tvm (round_start E s)))"
  obtain renter rent_end where cr: "chain_cur_renter E (host (tvm ?s0)) = (renter, rent_end)" by (rule prod.exhaust)
  let ?s1 = "foldl (\<lambda>s w. prune_wallet E ?st renter rent_end (chain_cur_block E (host (tvm ?s0))) w s) ?s0 (map fst (m_wallet_renttasks ?s0))"
  note same = round_start_same [OF ok, of s]
  have c: "m_connPtr (tvm ?s0)" "rents_ok ?s0" "task_ids_of w ?s0 = task_ids_of w s"
    using assms(3,4) same by (simp_all add: rents_ok_def task_ids_of_def getWalletRentTask_def)
  have "getWalletRentTask w s \<noteq> None" using assms(7) by (cases "getWalletRentTask w s") (simp_all add: task_ids_of_def)
  then have "w \<in> set (map fst (m_wallet_renttasks ?s0))" by (simp add: same(3) getWalletRentTask_def smap_keys)
  from prune_fold_off [OF assms(1,2,5) c(1,2) this] assms(6,7) c(3) cr have o: "off E (host (tvm ?s1)) tid" by simp
  have e: "prune_round E s = broadcast_message E (if sint rent_end \<le> 0 then ''empty'' else ''renting'') (if ?st = MS_Online then drop_caches E ?s1 else ?s1)"
    using assms(5) cr by (auto simp: prune_round_def round_start_def Let_def)
  have "dom_state E (host (tvm (prune_round E s))) tid = dom_state E (host (tvm ?s1)) tid"
    unfolding e using ok quiet_envD(3) [OF assms(1)] by (simp add: broadcast_message_def drop_caches_def)
  then show ?thesis using o by (simp add: off_def)
qed

text \<open>What a round leaves alone: the info and the domain of a task, and in which lists it is.\<close>

definition spares :: "'h task_env \<Rightarrow> string \<Rightarrow> 'h tm \<Rightarrow> 'h tm \<Rightarrow> bool" where
  "spares E tid s s' \<longleftrightarrow> (rents_ok s \<longrightarrow> rents_ok s' \<and> getTaskInfo tid s' = getTaskInfo tid s \<and> dom_state E (host (tvm s')) tid = dom_state E (host (tvm s)) tid \<and>
     (\<forall>w. tid \<in> set (task_ids_of w s') \<longleftrightarrow> tid \<in> set (task_ids_of w s)))"

lemma spares_refl: "spares E tid s s"
  by (simp add: spares_def)

lemma spares_trans: "spares E tid s s' \<Longrightarrow> spares E tid s' s'' \<Longrightarrow> spares E tid s s''"
  unfolding spares_def by simp

lemma spares_foldl: "(\<And>s x. x \<in> set xs \<Longrightarrow> spares E tid s (f s x)) \<Longrightarrow> spares E tid s (foldl f s xs)"
  by (induction xs arbitrary: s) (auto intro: spares_refl spares_trans)

lemma info_del_frame [simp]:
  "getTaskInfo i (info_del tid s) = (if i = tid then None else getTaskInfo i s)" "getTaskInfo i (gpu_del tid s) = getTaskInfo i s"
  "getTaskInfo i (delDisks E tid s) = getTaskInfo i s" "getTaskInfo i (delSnapshots E tid s) = getTaskInfo i s"
  "getTaskInfo i (iptable_del tid s) = getTaskInfo i s" "getTaskInfo i (rent_del tid s) = getTaskInfo i s" "getTaskInfo i (put_rent w r s) = getTaskInfo i s"
  by (auto simp: info_del_def gpu_del_def delDisks_def delSnapshots_def iptable_del_def rent_del_def put_rent_def getTaskInfo_def Let_def on_host_def
      split: option.split prod.split)

lemma delete_task_info: "getTaskInfo i (delete_task E tid s) = (if i = tid then None else getTaskInfo i s)"
  by (auto simp: delete_task_def Let_def split: option.split)

lemma close_task_spares: "quiet_env E \<Longrightarrow> i \<noteq> tid \<Longrightarrow> spares E tid s (close_task E i s)"
  using quiet_envD(1) [of E] DestroyDomain_other [of E tid i "tvm s"]
  by (simp add: spares_def close_task_def split_beta task_ids_of_def)

lemma delete_task_spares: "quiet_env E \<Longrightarrow> i \<noteq> tid \<Longrightarrow> spares E tid s (delete_task E i s)"
  using quiet_envD(1) [of E] delete_task_rents [where s = s and E = E and tid = i] delete_task_dom(1) [of E i s tid]
    DestroyAndUndefine_other [of E tid i "IsDomainHasNvram E i (tvm s) > 0" "tvm s"]
  by (auto simp: spares_def delete_task_info)

lemma rent_set_end_facts:
  assumes "rents_ok s" "getWalletRentTask w s \<noteq> None"
  shows "rents_ok (rent_set_end w e s)" "task_ids_of v (rent_set_end w e s) = task_ids_of v s"
    "rent_end_of v (rent_set_end w e s) = (if v = w then e else rent_end_of v s)" "tvm (rent_set_end w e s) = tvm s"
    "getTaskInfo i (rent_set_end w e s) = getTaskInfo i s"
proof -
  obtain r where r: "getWalletRentTask w s = Some r" using assms(2) by auto
  then have "rt_wallet r = w" using assms(1) by (simp add: rents_ok_def)
  then have e: "rent_set_end w e s = put_rent w (r\<lparr>rt_rent_end := e\<rparr>) s" using r by (simp add: rent_set_end_def)
  show "rents_ok (rent_set_end w e s)" unfolding e using assms(1) \<open>rt_wallet r = w\<close> by (intro put_rent_ok) simp_all
  show "task_ids_of v (rent_set_end w e s) = task_ids_of v s" "rent_end_of v (rent_set_end w e s) = (if v = w then e else rent_end_of v s)"
    "getTaskInfo i (rent_set_end w e s) = getTaskInfo i s"
    unfolding e using r by (simp_all add: task_ids_of_def rent_end_of_def)
  show "tvm (rent_set_end w e s) = tvm s" unfolding e by (simp add: put_rent_def)
qed

lemma rent_set_end_spares: "spares E tid s (rent_set_end w e s)"
proof (cases "getWalletRentTask w s")
  case None
  then show ?thesis by (simp add: rent_set_end_def spares_refl)
next
  case (Some r)
  then show ?thesis using rent_set_end_facts [of s w] by (auto simp: spares_def)
qed

lemma prune_wallet_spares:
  assumes "quiet_env E" "\<not> is_check_task tid" "w \<noteq> renter \<Longrightarrow> tid \<notin> set (task_ids_of w s)" "rents_ok s"
  shows "spares E tid s (prune_wallet E MS_Rented renter rent_end block w s)"
proof -
  let ?s1 = "prune_by_status E MS_Rented w s"
  have s1: "spares E tid s ?s1"
    unfolding prune_by_status_def machine_status.case
    by (rule spares_foldl) (use assms(2) in \<open>auto intro: delete_task_spares [OF assms(1)] spares_refl\<close>)
  have "spares E tid ?s1 (prune_by_renter E renter rent_end block w ?s1)"
  proof (cases "w = renter")
    case True
    then show ?thesis by (simp add: prune_by_renter_def spares_refl rent_set_end_spares)
  next
    case False
    have n1: "tid \<notin> set (task_ids_of w ?s1)" "rents_ok ?s1" using s1 assms(3) [OF False] assms(4) by (simp_all add: spares_def)
    let ?s2 = "foldl (\<lambda>s i. close_task E i s) ?s1 (task_ids_of w ?s1)"
    have s2: "spares E tid ?s1 ?s2" by (rule spares_foldl, rule close_task_spares [OF assms(1)]) (use n1(1) in auto)
    then have n2: "tid \<notin> set (task_ids_of w ?s2)" using n1 by (simp add: spares_def)
    have "spares E tid ?s2 (foldl (\<lambda>s i. delete_task E i s) ?s2 (task_ids_of w ?s2))"
      by (rule spares_foldl, rule delete_task_spares [OF assms(1)]) (use n2 in auto)
    with s2 False show ?thesis by (auto simp: prune_by_renter_def Let_def intro: spares_trans)
  qed
  with s1 show ?thesis by (auto simp: prune_wallet_def Let_def intro: spares_trans)
qed

lemma prune_fold_spares:
  assumes "quiet_env E" "\<not> is_check_task tid"
  shows "rents_ok s \<Longrightarrow> (\<And>w. w \<noteq> renter \<Longrightarrow> tid \<notin> set (task_ids_of w s)) \<Longrightarrow>
    spares E tid s (foldl (\<lambda>s w. prune_wallet E MS_Rented renter rent_end block w s) s ws)"
proof (induction ws arbitrary: s)
  case (Cons v ws)
  have sp: "spares E tid s (prune_wallet E MS_Rented renter rent_end block v s)"
    by (rule prune_wallet_spares [OF assms]) (use Cons.prems in auto)
  with Cons.prems have "rents_ok (prune_wallet E MS_Rented renter rent_end block v s)"
    "\<And>w. w \<noteq> renter \<Longrightarrow> tid \<notin> set (task_ids_of w (prune_wallet E MS_Rented renter rent_end block v s))" by (simp_all add: spares_def)
  from Cons.IH [OF this] sp show ?case by (auto intro: spares_trans)
qed (simp add: spares_refl)

text \<open>(C25) Pruning leaves the renter alone: while the machine is rented, a task listed under the current renter only (and not a
  task of a verification) keeps its info, its status and its domain, and stays in the list of the renter.\<close>

theorem prune_spares_renter:
  assumes "quiet_env E" "rents_ok s" "chain_machine_status E (host (tvm (round_start E s))) = MS_Rented"
    "chain_cur_renter E (host (tvm (round_start E s))) = (renter, rent_end)"
    "\<not> is_check_task tid" "\<forall>w. tid \<in> set (task_ids_of w s) \<longleftrightarrow> w = renter"
  shows "getTaskInfo tid (prune_round E s) = getTaskInfo tid s \<and>
         dom_state E (host (tvm (prune_round E s))) tid = dom_state E (host (tvm s)) tid \<and>
         (\<forall>w. tid \<in> set (task_ids_of w (prune_round E s)) \<longleftrightarrow> w = renter)"
proof -
  note ok = quiet_envD(1) [OF assms(1)]
  let ?s0 = "round_start E s"
  let ?s1 = "foldl (\<lambda>s w. prune_wallet E MS_Rented renter rent_end (chain_cur_block E (host (tvm ?s0))) w s) ?s0 (map fst (m_wallet_renttasks ?s0))"
  note same = round_start_same [OF ok, of s]
  have c: "rents_ok ?s0" "\<And>w. task_ids_of w ?s0 = task_ids_of w s" using assms(2) same by (simp_all add: rents_ok_def task_ids_of_def getWalletRentTask_def)
  have "spares E tid ?s0 ?s1" by (rule prune_fold_spares [OF assms(1,5) c(1)]) (use assms(6) c(2) in simp)
  moreover have e: "prune_round E s = broadcast_message E (if sint rent_end \<le> 0 then ''empty'' else ''renting'') ?s1"
    using assms(3,4) by (simp add: prune_round_def round_start_def Let_def)
  moreover have "getTaskInfo tid ?s0 = getTaskInfo tid s" by (simp add: getTaskInfo_def same)
  ultimately show ?thesis using c same(1) assms(6) quiet_envD(3) [OF assms(1)]
    by (simp add: spares_def broadcast_message_def) (simp add: task_ids_of_def)
qed

text \<open>The tables after a deletion, one by one.\<close>

lemma on_vm_fields [simp]:
  "m_task_infos (snd (on_vm f s)) = m_task_infos s" "info_db (snd (on_vm f s)) = info_db s" "m_task_gpus (snd (on_vm f s)) = m_task_gpus s" "m_task_disks (snd (on_vm f s)) = m_task_disks s"
  "m_task_snapshots (snd (on_vm f s)) = m_task_snapshots s" "snapshot_db (snd (on_vm f s)) = snapshot_db s"
  "m_task_iptables (snd (on_vm f s)) = m_task_iptables s" "iptable_db (snd (on_vm f s)) = iptable_db s"
  by (simp_all add: on_vm_def split: prod.split)

lemma on_host_fields [simp]:
  "m_task_infos (on_host f s) = m_task_infos s" "info_db (on_host f s) = info_db s" "m_task_gpus (on_host f s) = m_task_gpus s" "m_task_disks (on_host f s) = m_task_disks s"
  "m_task_snapshots (on_host f s) = m_task_snapshots s" "snapshot_db (on_host f s) = snapshot_db s"
  "m_task_iptables (on_host f s) = m_task_iptables s" "iptable_db (on_host f s) = iptable_db s"
  by (simp_all add: on_host_def)

lemma rent_del_fields [simp]:
  "m_task_infos (rent_del tid s) = m_task_infos s" "info_db (rent_del tid s) = info_db s" "m_task_gpus (rent_del tid s) = m_task_gpus s" "m_task_disks (rent_del tid s) = m_task_disks s"
  "m_task_snapshots (rent_del tid s) = m_task_snapshots s" "snapshot_db (rent_del tid s) = snapshot_db s"
  "m_task_iptables (rent_del tid s) = m_task_iptables s" "iptable_db (rent_del tid s) = iptable_db s"
  by (simp_all add: rent_del_def put_rent_def split: option.split prod.split)

lemma remove_iptable_fields [simp]:
  "m_task_infos (remove_iptable_from_system E tid s) = m_task_infos s" "info_db (remove_iptable_from_system E tid s) = info_db s" "m_task_gpus (remove_iptable_from_system E tid s) = m_task_gpus s"
  "m_task_disks (remove_iptable_from_system E tid s) = m_task_disks s" "m_task_snapshots (remove_iptable_from_system E tid s) = m_task_snapshots s"
  "snapshot_db (remove_iptable_from_system E tid s) = snapshot_db s" "m_task_iptables (remove_iptable_from_system E tid s) = m_task_iptables s"
  "iptable_db (remove_iptable_from_system E tid s) = iptable_db s"
  by (simp_all add: remove_iptable_from_system_def split: option.split)

lemmas delete_parts = info_del_def gpu_del_def delDisks_def delSnapshots_def iptable_del_def getIptableInfo_def getTaskInfo_def

lemma delete_task_fields:
  assumes "getTaskInfo tid s = Some t"
  shows "info_db (delete_task E tid s) = db_delete (ti_task_id (ti_db t)) (info_db s)"
    "m_task_gpus (delete_task E tid s) = smap_erase tid (m_task_gpus s)" "m_task_disks (delete_task E tid s) = smap_erase tid (m_task_disks s)"
    "m_task_snapshots (delete_task E tid s) = (if smap_lookup (m_task_snapshots s) tid = None then m_task_snapshots s else smap_erase tid (m_task_snapshots s))"
    "snapshot_db (delete_task E tid s) = (if smap_lookup (m_task_snapshots s) tid = None then snapshot_db s else db_delete tid (snapshot_db s))"
    "m_task_iptables (delete_task E tid s) = (if getIptableInfo tid s = None then m_task_iptables s else smap_erase tid (m_task_iptables s))"
    "iptable_db (delete_task E tid s) = (case getIptableInfo tid s of None \<Rightarrow> iptable_db s | Some i \<Rightarrow> db_delete (ipt_task_id i) (iptable_db s))"
  using assms by (simp_all add: delete_task_def Let_def, auto simp: delete_parts Let_def split: option.split)

lemma delete_task_lists:
  assumes "rents_ok s" "getTaskInfo tid s = Some t" "\<forall>w. distinct (task_ids_of w s)"
    "\<forall>w w'. tid \<in> set (task_ids_of w s) \<and> tid \<in> set (task_ids_of w' s) \<longrightarrow> w = w'"
  shows "task_ids_of w (delete_task E tid s) = filter (\<lambda>i. i \<noteq> tid) (task_ids_of w s)"
proof -
  have "\<exists>s1. delete_task E tid s = snd (on_vm (UndefineNWFilter E tid) (rent_del tid s1)) \<and> m_wallet_renttasks s1 = m_wallet_renttasks s"
    unfolding delete_task_def Let_def info_frame assms(2) option.case by (intro exI conjI, rule refl) simp
  then obtain s1 where d: "delete_task E tid s = snd (on_vm (UndefineNWFilter E tid) (rent_del tid s1))" and m: "m_wallet_renttasks s1 = m_wallet_renttasks s" by blast
  then have e: "task_ids_of v (delete_task E tid s) = task_ids_of v (rent_del tid s1)" "task_ids_of v s1 = task_ids_of v s" "rents_ok s1" for v
    using assms(1) by (simp_all add: task_ids_of_def getWalletRentTask_def rents_ok_def)
  have no: "filter (\<lambda>i. i \<noteq> tid) l = l" if "tid \<notin> set l" for l using that by (auto simp: filter_id_conv)
  show ?thesis
  proof (cases "List.find (\<lambda>(_, r). tid \<in> set (rt_task_ids r)) (m_wallet_renttasks s1)")
    case None
    have n: "tid \<notin> set (task_ids_of w s)"
    proof (cases "getWalletRentTask w s")
      case (Some r)
      then have "(w, r) \<in> set (m_wallet_renttasks s1)" using assms(1) by (simp add: m rents_ok_def getWalletRentTask_def smap_in_set)
      with None show ?thesis using Some by (auto simp: find_None_iff task_ids_of_def)
    qed (simp add: task_ids_of_def)
    have "rent_del tid s1 = s1" using None by (simp add: rent_del_def)
    with e no [OF n] show ?thesis by simp
  next
    case (Some p)
    obtain w0 r0 where p: "p = (w0, r0)" by (rule prod.exhaust)
    note f = rent_del_Some [OF e(3) Some [unfolded p]]
    have w0: "task_ids_of w0 s = rt_task_ids r0" using f(1) e(2) [of w0] by (simp add: task_ids_of_def)
    show ?thesis
    proof (cases "w = w0")
      case True
      have "task_ids_of w0 (rent_del tid s1) = remove_first (\<lambda>i. i = tid) (rt_task_ids r0)" by (simp add: f(4) task_ids_of_def)
      moreover have "distinct (rt_task_ids r0)" using assms(3) w0 by metis
      ultimately show ?thesis using True e(1) w0 remove_first_facts(3) by metis
    next
      case False
      then have "tid \<notin> set (task_ids_of w s)" using assms(4) f(2) w0 by metis
      moreover have "task_ids_of w (rent_del tid s1) = task_ids_of w s" using f(4) False e(2) [of w] by (simp add: task_ids_of_def)
      ultimately show ?thesis using e(1) no by simp
    qed
  qed
qed


section \<open>Sessions\<close>

text \<open>The two tables hold the same sessions, and the database what the first holds.\<close>

definition sessions_ok :: "'h tm \<Rightarrow> bool" where
  "sessions_ok s \<longleftrightarrow> smap_wf (m_wallet_sessionid s) \<and> smap_wf (m_sessionid_wallet s) \<and> session_db s = m_wallet_sessionid s \<and>
     (\<forall>w ws. getWalletSessionByWallet w s = Some ws \<longrightarrow> ws_wallet ws = w \<and> getWalletSessionBySessionId (ws_session_id ws) s = Some ws) \<and>
     (\<forall>i ws. getWalletSessionBySessionId i s = Some ws \<longrightarrow> ws_session_id ws = i \<and> getWalletSessionByWallet (ws_wallet ws) s = Some ws)"

lemma sessions_okD:
  assumes "sessions_ok s"
  shows "smap_wf (m_wallet_sessionid s)" "smap_wf (m_sessionid_wallet s)" "session_db s = m_wallet_sessionid s"
    "getWalletSessionByWallet w s = Some ws \<Longrightarrow> ws_wallet ws = w" "getWalletSessionByWallet w s = Some ws \<Longrightarrow> getWalletSessionBySessionId (ws_session_id ws) s = Some ws"
    "getWalletSessionBySessionId i s = Some ws \<Longrightarrow> ws_session_id ws = i" "getWalletSessionBySessionId i s = Some ws \<Longrightarrow> getWalletSessionByWallet (ws_wallet ws) s = Some ws"
  using assms unfolding sessions_ok_def by blast+

lemma smap_ext:
  assumes "smap_wf m" "smap_wf m'" "\<And>k. smap_lookup m k = smap_lookup m' k"
  shows "m = m'"
proof -
  have "set m = set m'" using smap_in_set [OF assms(1)] smap_in_set [OF assms(2)] assms(3) by auto
  moreover have "inj_on fst (set m \<union> set m')"
    unfolding \<open>set m = set m'\<close> using assms(2) by (simp add: smap_wf_def strict_sorted_iff distinct_map)
  ultimately show ?thesis
    using map_sorted_distinct_set_unique [of fst m m'] assms(1,2) by (simp add: smap_wf_def strict_sorted_iff)
qed

lemma smap_insert_new_wf [simp]: "smap_wf m \<Longrightarrow> smap_wf (smap_insert_new k v m)"
  by (simp add: smap_insert_new_def)

lemma load_lookup:
  "smap_lookup (foldl (\<lambda>m (_, x). smap_insert_new (key x) x m) m l) k =
     (case smap_lookup m k of Some v \<Rightarrow> Some v | None \<Rightarrow> List.find (\<lambda>x. key x = k) (map snd l))"
  by (induction l arbitrary: m) (auto split: option.splits)

lemma load_wf: "smap_wf m \<Longrightarrow> smap_wf (foldl (\<lambda>m (_, x). smap_insert_new (key x) x m) m l)"
  by (induction l arbitrary: m) auto

text \<open>Loading a table whose entries have keys of their own gives the table with these keys.\<close>

lemma load_table:
  assumes "smap_wf m" "\<And>k v. smap_lookup m k = Some v \<longleftrightarrow> (\<exists>x. (x, v) \<in> set l) \<and> key v = k"
  shows "foldl (\<lambda>m (_, x). smap_insert_new (key x) x m) [] l = m"
proof (rule smap_ext)
  show "smap_wf (foldl (\<lambda>m (_, x). smap_insert_new (key x) x m) [] l)" by (rule load_wf) (simp add: smap_wf_def)
  show "smap_wf m" by (rule assms)
  fix k
  have "List.find (\<lambda>x. key x = k) (map snd l) = smap_lookup m k"
  proof (cases "List.find (\<lambda>x. key x = k) (map snd l)")
    case None
    then have "\<forall>x\<in>set l. key (snd x) \<noteq> k" by (auto simp: find_None_iff)
    then have "smap_lookup m k \<noteq> Some v" for v using assms(2) [of k v] by force
    with None show ?thesis by (metis not_Some_eq)
  next
    case (Some v)
    then have "v \<in> set (map snd l)" "key v = k" by (auto simp: find_Some_iff simp del: set_map) (metis nth_mem length_map nth_map)
    then have "smap_lookup m k = Some v" using assms(2) by auto
    with Some show ?thesis by simp
  qed
  then show "smap_lookup (foldl (\<lambda>m (_, x). smap_insert_new (key x) x m) [] l) k = smap_lookup m k"
    by (simp add: load_lookup) (simp add: smap_lookup_def)
qed

text \<open>(C26) Sessions: creating a session with a new id keeps the two tables and the database in step; the id then authenticates
  exactly the wallet, for a signature of the wallet or of one of the signers it was created with;
  \<open>checkSessionId\<close> accepts nothing else; and after a restart the tables are loaded as they were.\<close>

theorem sessions_authenticate:
  assumes "sessions_ok s" "createSessionId E w signers s = (Inr i, s')"
    "getWalletSessionByWallet w s = None \<longrightarrow> getWalletSessionBySessionId i s = None" "w \<noteq> []" "i \<noteq> []"
  shows "sessions_ok s' \<and> getSessionId w s' = i \<and> session_init (session_db s') = (m_wallet_sessionid s', m_sessionid_wallet s') \<and>
         (\<forall>sg. sg \<noteq> [] \<longrightarrow> verify_sign (sign_env E) sg i w \<longrightarrow> checkSessionId E i sg s' = w) \<and>
         (\<forall>sg w'. getWalletSessionByWallet w s = None \<longrightarrow> w' \<in> set signers \<longrightarrow> sg \<noteq> [] \<longrightarrow> verify_sign (sign_env E) sg i w' \<longrightarrow> checkSessionId E i sg s' = w) \<and>
         (\<forall>j sg v. checkSessionId E j sg s' = v \<longrightarrow> v \<noteq> [] \<longrightarrow>
            (\<exists>ws. getWalletSessionByWallet v s' = Some ws \<and> ws_session_id ws = j \<and> (\<exists>u\<in>insert v (set (ws_signers ws)). verify_sign (sign_env E) sg j u)))"
proof -
  have ok: "sessions_ok s'" and w: "\<exists>ws. getWalletSessionByWallet w s' = Some ws \<and> ws_session_id ws = i \<and> (getWalletSessionByWallet w s = None \<longrightarrow> ws_signers ws = signers)"
  proof (atomize (full), cases "getWalletSessionByWallet w s")
    case (Some ws)
    then show "sessions_ok s' \<and> (\<exists>ws. getWalletSessionByWallet w s' = Some ws \<and> ws_session_id ws = i \<and> (getWalletSessionByWallet w s = None \<longrightarrow> ws_signers ws = signers))"
      using assms(1,2) by (auto simp: createSessionId_def)
  next
    case None
    let ?ws = "\<lparr>ws_wallet = w, ws_session_id = i, ws_signers = signers\<rparr>"
    have s': "s' = session_add ?ws s" using assms(2) None by (auto simp: createSessionId_def split: sum.splits)
    have l: "getWalletSessionByWallet v s' = (if v = w then Some ?ws else getWalletSessionByWallet v s)"
      "getWalletSessionBySessionId j s' = (if j = i then Some ?ws else getWalletSessionBySessionId j s)" for v j
      by (simp_all add: s' session_add_def getWalletSessionByWallet_def getWalletSessionBySessionId_def smap_lookup_insert)
    have n: "getWalletSessionBySessionId i s = None" using assms(3) None by simp
    have "smap_wf (m_wallet_sessionid s')" "smap_wf (m_sessionid_wallet s')" "session_db s' = m_wallet_sessionid s'"
      using assms(1) by (simp_all add: s' session_add_def sessions_ok_def)
    moreover have "ws_wallet ws = v \<and> getWalletSessionBySessionId (ws_session_id ws) s' = Some ws" if "getWalletSessionByWallet v s' = Some ws" for v ws
    proof (cases "v = w")
      case False
      then have v: "getWalletSessionByWallet v s = Some ws" using that by (simp add: l)
      from sessions_okD(4,5) [OF assms(1) v] n show ?thesis by (auto simp: l)
    qed (use that in \<open>auto simp: l\<close>)
    moreover have "ws_session_id ws = j \<and> getWalletSessionByWallet (ws_wallet ws) s' = Some ws" if "getWalletSessionBySessionId j s' = Some ws" for j ws
    proof (cases "j = i")
      case False
      then have v: "getWalletSessionBySessionId j s = Some ws" using that by (simp add: l)
      from sessions_okD(6,7) [OF assms(1) v] None show ?thesis by (auto simp: l)
    qed (use that in \<open>auto simp: l\<close>)
    ultimately have "sessions_ok s'" unfolding sessions_ok_def by blast
    then show "sessions_ok s' \<and> (\<exists>ws. getWalletSessionByWallet w s' = Some ws \<and> ws_session_id ws = i \<and> (getWalletSessionByWallet w s = None \<longrightarrow> ws_signers ws = signers))"
      by (simp add: l)
  qed
  from w obtain ws where "getWalletSessionByWallet w s' = Some ws \<and> ws_session_id ws = i \<and> (getWalletSessionByWallet w s = None \<longrightarrow> ws_signers ws = signers)"
    by (rule exE)
  then have ws: "getWalletSessionByWallet w s' = Some ws" "ws_session_id ws = i" "getWalletSessionByWallet w s = None \<longrightarrow> ws_signers ws = signers" by simp_all
  have by_id: "getWalletSessionBySessionId i s' = Some ws" "ws_wallet ws = w" using sessions_okD(4,5) [OF ok ws(1)] ws(2) by simp_all
  have m1: "foldl (\<lambda>m (_, x). smap_insert_new (ws_wallet x) x m) [] (session_db s') = m_wallet_sessionid s'"
  proof (rule load_table)
    show "smap_wf (m_wallet_sessionid s')" using ok by (simp add: sessions_ok_def)
    then show "smap_lookup (m_wallet_sessionid s') k = Some v \<longleftrightarrow> (\<exists>x. (x, v) \<in> set (session_db s')) \<and> ws_wallet v = k" for k v
      using sessions_okD(4) [OF ok, of _ v] unfolding sessions_okD(3) [OF ok] getWalletSessionByWallet_def by (auto simp: smap_in_set)
  qed
  have m2: "foldl (\<lambda>m (_, x). smap_insert_new (ws_session_id x) x m) [] (m_wallet_sessionid s') = m_sessionid_wallet s'"
  proof (rule load_table)
    show "smap_wf (m_sessionid_wallet s')" using ok by (simp add: sessions_ok_def)
    have "smap_wf (m_wallet_sessionid s')" using ok by (simp add: sessions_ok_def)
    then show "smap_lookup (m_sessionid_wallet s') k = Some v \<longleftrightarrow> (\<exists>x. (x, v) \<in> set (m_wallet_sessionid s')) \<and> ws_session_id v = k" for k v
      using sessions_okD(5) [OF ok, of _ v] sessions_okD(6,7) [OF ok, of k v]
      unfolding getWalletSessionByWallet_def getWalletSessionBySessionId_def by (auto simp: smap_in_set)
  qed
  have sound: "\<exists>ws. getWalletSessionByWallet v s' = Some ws \<and> ws_session_id ws = j \<and> (\<exists>u\<in>insert v (set (ws_signers ws)). verify_sign (sign_env E) sg j u)"
    if "checkSessionId E j sg s' = v" "v \<noteq> []" for j sg v
  proof -
    from that obtain ws where ws: "getWalletSessionBySessionId j s' = Some ws" "v = ws_wallet ws" "\<exists>u\<in>insert v (set (ws_signers ws)). verify_sign (sign_env E) sg j u"
      by (auto simp: checkSessionId_def split: option.splits if_splits)
    from sessions_okD(6,7) [OF ok ws(1)] ws(2,3) show ?thesis by blast
  qed
  show ?thesis using ok ws by_id m1 m2 sound assms(4,5)
    by (simp add: session_init_def Let_def getSessionId_def checkSessionId_def)
qed

section \<open>Events of a task that is gone\<close>

lemma m_events_frame [simp]:
  "m_events (on_host f s) = m_events s" "m_events (snd (on_vm g s)) = m_events s" "m_events (info_del tid s) = m_events s" "m_events (gpu_del tid s) = m_events s"
  "m_events (delDisks E tid s) = m_events s" "m_events (delSnapshots E tid s) = m_events s" "m_events (remove_iptable_from_system E tid s) = m_events s"
  "m_events (iptable_del tid s) = m_events s" "m_events (rent_del tid s) = m_events s"
  by (simp_all add: on_host_def on_vm_def rent_del_def put_rent_def delete_parts remove_iptable_from_system_def Let_def split: option.split prod.split)

text \<open>(C40) Events are not checked against the task again: when a task with disks is deleted while a request to add a disk
  to it is waiting behind the deletion, the second event reads the last disk of an empty map, which is undefined.\<close>

theorem add_disk_after_delete_undefined:
  assumes "m_events s = [DeleteTaskEvent tid, AddDiskEvent tid n dir]" "getTaskInfo tid s = Some t"
  shows "\<exists>s1 s2. process_round E s = (Inr (), s1) \<and> process_round E s1 = (Inl Undefined_behaviour, s2)"
proof -
  let ?s0 = "s\<lparr>m_events := [AddDiskEvent tid n dir]\<rparr>"
  have t: "getTaskInfo tid ?s0 = Some t" using assms(2) by simp
  let ?s1 = "update_running_tasks (delete_task E tid ?s0)"
  have ev: "m_events (delete_task E tid x) = m_events x" for x by (simp add: delete_task_def Let_def split: option.split)
  have 1: "process_round E s = (Inr (), ?s1)"
    using t by (simp add: process_round_def assms(1) process_task_def mbind_def mmodify_def process_delete_task_def)
  have "m_events ?s1 = [AddDiskEvent tid n dir]" by (simp add: update_running_tasks_def Let_def ev)
  moreover have "smap_get (m_task_disks ?s1) tid = []"
    using delete_task_fields(3) [OF t, of E] by (simp add: update_running_tasks_def Let_def smap_get_def)
  ultimately have "\<exists>s2. process_round E ?s1 = (Inl Undefined_behaviour, s2)"
    by (simp add: process_round_def process_task_def mbind_def process_add_disk_def next_disk_name_def)
  with 1 show ?thesis by blast
qed

section \<open>Witnesses\<close>

text \<open>A host that is the map of its domains and their states.\<close>

type_synonym toy = "string \<Rightarrow> virDomainState option"

definition toy_set :: "virDomainState option \<Rightarrow> string \<Rightarrow> toy \<Rightarrow> bool \<times> toy" where
  "toy_set st d h = (if h d = None then (False, h) else (True, h(d := st)))"

definition toy_undefine :: "string \<Rightarrow> toy \<Rightarrow> bool \<times> toy" where
  "toy_undefine d h = (if h d = Some VIR_DOMAIN_SHUTOFF then (True, h(d := None)) else (False, h))"

definition toy_env :: "machine_status \<Rightarrow> toy task_env" where
  "toy_env st = \<lparr>virDomainLookupByName = (\<lambda>h d. h d \<noteq> None), virDomainGetInfo = (\<lambda>h d. h d),
     virDomainCreate = toy_set (Some VIR_DOMAIN_RUNNING), virDomainPMWakeup = toy_set (Some VIR_DOMAIN_RUNNING), virDomainSuspend = toy_set (Some VIR_DOMAIN_PAUSED),
     virDomainResume = toy_set (Some VIR_DOMAIN_RUNNING), virDomainReboot = toy_set (Some VIR_DOMAIN_RUNNING), virDomainShutdown = toy_set (Some VIR_DOMAIN_SHUTOFF),
     virDomainDestroy = toy_set (Some VIR_DOMAIN_SHUTOFF), virDomainReset = toy_set (Some VIR_DOMAIN_RUNNING),
     virDomainUndefine = toy_undefine, virDomainUndefineNvram = toy_undefine, virDomainHasNvram = (\<lambda>h d. Some False),
     virConnectListDomains = (\<lambda>h. Some []), virDomainLookupByID = (\<lambda>h i. None), virDomainInterfaceAddresses = (\<lambda>d h. ([[''192.168.122.2'']], h)),
     virNWFilterDefine = (\<lambda>n rs h. (True, h)), virNWFilterLookupByName = (\<lambda>h n. True), virNWFilterUndefine = (\<lambda>n h. (True, h)),
     CreateDomain = (\<lambda>d h. (True, h(d \<mapsto> VIR_DOMAIN_RUNNING))), RedefineDomain = (\<lambda>d h. h), AttachDisk = (\<lambda>d n f h. (True, h)), DetachDisk = (\<lambda>d n h. (True, h)),
     GetDiskVirtualSize = (\<lambda>h d n. 0), SetDomainUserPassword = (\<lambda>d u p h. (True, h)), run_shell = (\<lambda>c h. ([], h)), is_regular_file = (\<lambda>h f. True),
     file_exists = (\<lambda>h f. True), remove_file = (\<lambda>f h. h),
     si_cores = 16, si_physical_cpus = 2, si_physical_cores_per_cpu = 4, si_threads_per_cpu = 2, si_mem_free = (\<lambda>h. 4194304),
     si_gpus = (\<lambda>h. [(''01:00.0'', [''01:00.0'', ''01:00.1'']), (''02:00.0'', [''02:00.0''])]),
     si_disk_total = (\<lambda>h d. 0), si_disk_available = (\<lambda>h d. 0), si_disk_free = (\<lambda>h d. 0), si_route_ip = (\<lambda>h. ''10.0.0.1''), image_busy = (\<lambda>h i. False),
     image_upload = (\<lambda>f h. (True, h)), CreateNetworkClient = (\<lambda>n h. (FResultOk, h)), network_leave = (\<lambda>n t h. h), network_join = (\<lambda>n t h. h),
     udp_broadcast = (\<lambda>m h. h), parse_json = (\<lambda>t. None), valid_ip = (\<lambda>i. True), path_extension = (\<lambda>p. ''.qcow2''), is_multicast = (\<lambda>a. None),
     rand_number = 7, time_stamp = 0, time_str = ''0'', rand_seq = replicate 16 0,
     chain_machine_status = (\<lambda>h. st), chain_cur_renter = (\<lambda>h. (''alice'', 1000)), chain_cur_block = (\<lambda>h. 500), chain_in_verify_time = (\<lambda>h w. True),
     chain_rent_end = (\<lambda>h w. if w = ''alice'' then 1000 else 0), hash_scratch = replicate 64 0, session_uuid = ''session'', sign_env = undefined\<rparr>"

lemma toy_quiet: "quiet_env (toy_env st)" "destroy_works (toy_env st)"
  by (simp_all add: quiet_env_def domains_ok_def destroy_works_def only_domain_def dom_state_def toy_env_def toy_set_def toy_undefine_def)

definition toy_info :: "string \<Rightarrow> task_status \<Rightarrow> task_info" where
  "toy_info tid st = \<lparr>ti_db = \<lparr>ti_task_id = tid, ti_image_name = ''a.qcow2'', ti_desc = [], ti_login_username = [], ti_login_password = [], ti_ssh_port = ''22'', ti_rdp_port = [],
     ti_custom_port = [], ti_create_time = 0, ti_operation_system = ''linux'', ti_bios_mode = ''legacy'', ti_multicast = [], ti_vda_rootbackfile = ''/data/a.qcow2'',
     ti_network_name = [], ti_public_ip = [], ti_nwfilter = []\<rparr>, ti_cpu_sockets = 1, ti_cpu_cores = 2, ti_cpu_threads = 2, ti_mem_size = 1048576, ti_vnc_port = 5901,
     ti_vnc_password = [], ti_status = st\<rparr>"

definition toy_tm :: "toy \<Rightarrow> (string, task_info) smap \<Rightarrow> (string, rent_task) smap \<Rightarrow> task_event list \<Rightarrow> toy tm" where
  "toy_tm h infos rents evs = \<lparr>tvm = \<lparr>m_connPtr = True, host = h\<rparr>, m_task_infos = infos, info_db = [], m_running_tasks = [], running_db = [],
     m_task_gpus = [(''t1'', [(''01:00.0'', \<lparr>gpu_id = ''01:00.0'', gpu_devices = [''01:00.0'']\<rparr>)])], m_task_disks = [], m_task_snapshots = [], snapshot_db = [],
     m_task_iptables = [], iptable_db = [], m_wallet_renttasks = rents, renttask_db = [], m_wallet_sessionid = [], m_sessionid_wallet = [], session_db = [], m_events = evs\<rparr>"

definition toy_two :: "task_status \<Rightarrow> toy tm" where
  "toy_two st = toy_tm [''t1'' \<mapsto> VIR_DOMAIN_RUNNING, ''t2'' \<mapsto> VIR_DOMAIN_RUNNING] [(''t1'', toy_info ''t1'' st), (''t2'', toy_info ''t2'' TS_Task_Running)]
     [(''alice'', \<lparr>rt_wallet = ''alice'', rt_task_ids = [''t1''], rt_rent_end = 900\<rparr>), (''bob'', \<lparr>rt_wallet = ''bob'', rt_task_ids = [''t2''], rt_rent_end = 100\<rparr>)] []"

lemmas toy_defs = toy_env_def toy_set_def toy_undefine_def toy_info_def toy_tm_def toy_two_def

lemma toy_two_infos: "infos_ok (toy_two st)"
  by (auto simp: toy_two_def toy_tm_def infos_ok_def getTaskInfo_def smap_lookup_def smap_wf_def toy_info_def split: if_splits)

lemma toy_two_rents: "rents_ok (toy_two st)"
  by (auto simp: toy_two_def toy_tm_def rents_ok_def getWalletRentTask_def smap_lookup_def smap_wf_def split: if_splits)

lemma toy_status: "getTaskInfo ''t1'' (toy_two st) = Some (toy_info ''t1'' st)"
  by (simp add: toy_two_def toy_tm_def getTaskInfo_def smap_lookup_def)

lemma toy_round_start: "round_start (toy_env st) s = s"
  by (simp add: round_start_def on_host_def shell_remove_reject_iptable_from_system_def toy_env_def split_def split_at.simps P2p_Net_Service.split_def run_cmds_def)

theorem allocate_cpu_correct_witness:
  "allocate_cpu (toy_env MS_Online) 5 = Inr (Some (6, 1, 3, 2)) \<and> (6 :: int) = 1 * 3 * 2 \<and> (5 :: int) \<le> 6 \<and> (3 :: int) \<le> 4"
proof -
  have "round_up 5 2 = 6" by (simp add: round_up.simps [of 5 2] round_up.simps [of 6 2])
  then have "cpu_loop 5 4 2 1 (Suc (Suc 0)) = Some (6, 1, 3)" by simp
  then have "allocate_cpu (toy_env MS_Online) 5 = Inr (Some (6, 1, 3, 2))" by (simp add: allocate_cpu_def toy_env_def numeral_2_eq_2 Let_def)
  then show ?thesis using allocate_cpu_correct [of 5 "toy_env MS_Online"] by (simp add: toy_env_def)
qed

theorem gpus_exclusive_witness:
  "\<exists>gpus. allocate_gpu (toy_env MS_Online) 1 (toy_two TS_Task_Running) = (True, gpus) \<and> length gpus = 1 \<and> gpu_in_use (toy_env MS_Online) (toy_two TS_Task_Running) ''01:00.0''"
proof -
  let ?E = "toy_env MS_Online" and ?s = "toy_two TS_Task_Running"
  have wf: "smap_wf (si_gpus ?E (host (tvm ?s)))" by (simp add: toy_env_def smap_wf_def)
  have "can_use_gpu ?E ?s = [(''02:00.0'', [''02:00.0''])]"
    by (simp add: can_use_gpu_def toy_defs domain_status_def GetDomainStatus_def getTaskGpus_def smap_get_def smap_lookup_def smap_erase_def)
  then have a: "allocate_gpu ?E 1 ?s = (True, [(''02:00.0'', [''02:00.0''])])" by (simp add: allocate_gpu_def)
  have "gpu_in_use ?E ?s ''01:00.0''"
    unfolding gpu_in_use_def using toy_status [of TS_Task_Running]
    by (intro exI [of _ "''t1''"] exI [of _ "toy_info ''t1'' TS_Task_Running"])
      (simp add: toy_defs domain_status_def GetDomainStatus_def getTaskGpus_def smap_get_def smap_lookup_def)
  with a gpus_exclusive [OF wf, of 1] show ?thesis by simp
qed


theorem prune_closes_foreign_tasks_witness:
  "dom_state (toy_env MS_Rented) (host (tvm (toy_two TS_Task_Running))) ''t2'' = Some VIR_DOMAIN_RUNNING \<and>
   off (toy_env MS_Rented) (host (tvm (prune_round (toy_env MS_Rented) (toy_two TS_Task_Running)))) ''t2''"
proof -
  have "''t2'' \<in> set (task_ids_of ''bob'' (toy_two TS_Task_Running))" by (simp add: toy_two_def toy_tm_def task_ids_of_def getWalletRentTask_def smap_lookup_def)
  moreover have "chain_machine_status (toy_env MS_Rented) h = MS_Rented" "chain_cur_renter (toy_env MS_Rented) h = (''alice'', 1000)" for h by (simp_all add: toy_env_def)
  moreover have "m_connPtr (tvm (toy_two TS_Task_Running))" by (simp add: toy_two_def toy_tm_def)
  ultimately have "off (toy_env MS_Rented) (host (tvm (prune_round (toy_env MS_Rented) (toy_two TS_Task_Running)))) ''t2''"
    using prune_closes_foreign_tasks [OF toy_quiet, of "toy_two TS_Task_Running" MS_Rented "''bob''" "''t2''"] toy_two_rents [of TS_Task_Running] by simp
  then show ?thesis by (simp add: toy_defs dom_state_def)
qed

theorem prune_spares_renter_witness:
  "dom_state (toy_env MS_Rented) (host (tvm (prune_round (toy_env MS_Rented) (toy_two TS_Task_Running)))) ''t1'' = Some VIR_DOMAIN_RUNNING"
proof -
  have t: "chain_machine_status (toy_env MS_Rented) h = MS_Rented" "chain_cur_renter (toy_env MS_Rented) h = (''alice'', 1000)" for h by (simp_all add: toy_env_def)
  have "''t1'' \<in> set (task_ids_of w (toy_two TS_Task_Running)) \<longleftrightarrow> w = ''alice''" for w
    by (simp add: toy_two_def toy_tm_def task_ids_of_def getWalletRentTask_def smap_lookup_def)
  moreover have "\<not> is_check_task ''t1''" by (simp add: is_check_task_def)
  ultimately show ?thesis
    using prune_spares_renter [OF toy_quiet(1) toy_two_rents [of TS_Task_Running] t, of "''t1''"] by (simp add: toy_defs dom_state_def)
qed

theorem restart_can_hang_witness:
  "\<exists>s1 s2. restartTask (toy_env MS_Rented) ''alice'' ''t3'' False (toy_tm [''t3'' \<mapsto> VIR_DOMAIN_NOSTATE] [(''t3'', toy_info ''t3'' TS_Task_Running)] [] []) = (FResultOk, s1) \<and>
     process_round (toy_env MS_Rented) s1 = (Inr (), s2) \<and> status_of ''t3'' s2 = Some TS_Task_Restarting"
proof -
  let ?E = "toy_env MS_Rented" and ?s = "toy_tm [''t3'' \<mapsto> VIR_DOMAIN_NOSTATE] [(''t3'', toy_info ''t3'' TS_Task_Running)] [] []"
  let ?s1 = "snd (restartTask ?E ''alice'' ''t3'' False ?s)"
  have 1: "domain_status ?E ''t3'' ?s = VIR_DOMAIN_NOSTATE" "getTaskInfo ''t3'' ?s = Some (toy_info ''t3'' TS_Task_Running)" "IsExistDomain ?E ''t3'' (tvm ?s)"
    by (simp_all add: toy_defs domain_status_def GetDomainStatus_def getTaskInfo_def smap_lookup_def IsExistDomain_def)
  have c: "check_resource ?E (toy_info ''t3'' TS_Task_Running) ?s = (FResultOk, ?s)"
    by (simp add: check_resource_def toy_defs checkXmlGpu_def smap_lookup_def check_cpu_def check_gpu_def can_use_gpu_def getTaskGpus_def smap_get_def domain_status_def
        GetDomainStatus_def check_mem_def check_ports_def check_port_conflict_def occupied_def isLinuxOS_def Let_def FResultOk_def)
  have r: "restartTask ?E ''alice'' ''t3'' False ?s = (FResultOk, ?s1)" "domain_status ?E ''t3'' ?s1 = VIR_DOMAIN_NOSTATE"
    using 1 c by (simp_all add: restartTask_def with_task_def accept_event_def Let_def pushTaskEvent_def setTaskStatus_def upd_info_def) (simp add: domain_status_def)
  have "m_events ?s = []" by (simp add: toy_tm_def)
  from restart_can_hang [OF r(1) this r(2)] r(1) show ?thesis by blast
qed


theorem sessions_authenticate_witness:
  "\<exists>i s'. createSessionId (toy_env MS_Rented) ''alice'' [] (toy_two TS_Task_Running) = (Inr i, s') \<and> sessions_ok s' \<and> getSessionId ''alice'' s' = i \<and>
     session_init (session_db s') = (m_wallet_sessionid s', m_sessionid_wallet s')"
proof -
  let ?E = "toy_env MS_Rented" and ?s = "toy_two TS_Task_Running"
  have ok: "sessions_ok ?s"
    by (simp add: sessions_ok_def toy_two_def toy_tm_def smap_wf_def getWalletSessionByWallet_def getWalletSessionBySessionId_def smap_lookup_def)
  have n: "getWalletSessionByWallet ''alice'' ?s = None" "getWalletSessionBySessionId i ?s = None" for i
    by (simp_all add: toy_two_def toy_tm_def getWalletSessionByWallet_def getWalletSessionBySessionId_def smap_lookup_def)
  obtain i where c: "create_session_id (hash_scratch ?E) (session_uuid ?E) = Inr i" and k: "check_id (replicate 64 0) i = Inr True"
    using Base58Check_checks [of "replicate 64 0" "replicate 64 0" "bytes_of_string ''session''"] by (auto simp: toy_env_def create_session_id_def check_id_def)
  have "check_id (replicate 64 0) [] \<noteq> Inr True" by code_simp
  with k have "i \<noteq> []" by auto
  moreover obtain s' where "createSessionId ?E ''alice'' [] ?s = (Inr i, s')" using c n(1) by (simp add: createSessionId_def)
  ultimately show ?thesis using sessions_authenticate [OF ok, of ?E "''alice''" "[]" i s'] n by blast
qed

theorem add_disk_after_delete_undefined_witness:
  "\<exists>s1 s2. process_round (toy_env MS_Online) ((toy_two TS_Task_Running)\<lparr>m_events := [DeleteTaskEvent ''t1'', AddDiskEvent ''t1'' 10 ''/data'']\<rparr>) = (Inr (), s1) \<and>
     process_round (toy_env MS_Online) s1 = (Inl Undefined_behaviour, s2)"
proof -
  let ?s = "(toy_two TS_Task_Running)\<lparr>m_events := [DeleteTaskEvent ''t1'', AddDiskEvent ''t1'' 10 ''/data'']\<rparr>"
  have "getTaskInfo ''t1'' ?s = Some (toy_info ''t1'' TS_Task_Running)" using toy_status by simp
  from add_disk_after_delete_undefined [OF _ this, of 10 "''/data''" "toy_env MS_Online"] show ?thesis by simp
qed

end
