(* ===== verification/Node_Request_Service.thy ===== *)
theory Node_Request_Service
  imports Task_Lifecycle
begin

text \<open>
  The service that takes the requests of other nodes
  (\<open>service/node_request_service/node_request_service.cpp\<close>): a request is opened only by the node it is
  for, every other node passes it on; before anything happens the wallet or the session behind the
  request must be entitled to the machine. The handlers differ in the message, the members of its data and
  the action only.
\<close>

section \<open>Data\<close>

record sign_item =
  si_wallet :: string
  si_nonce :: string
  si_sign :: string

record authority_params =
  ap_wallet :: string
  ap_nonce :: string
  ap_sign :: string
  ap_multisig_wallets :: "string list"
  ap_multisig_threshold :: i32
  ap_multisig_signs :: "sign_item list"
  ap_session_id :: string
  ap_session_id_sign :: string

record authorise_result =
  ar_success :: bool
  ar_errmsg :: string
  ar_machine_status :: machine_status
  ar_user_role :: user_role
  ar_rent_wallet :: string
  ar_rent_end :: i64

definition new_result :: authorise_result where
  "new_result = \<lparr>ar_success = False, ar_errmsg = [], ar_machine_status = MS_Unknown, ar_user_role = Role_Unknown, ar_rent_wallet = [], ar_rent_end = 0\<rparr>"

text \<open>
  The configuration of the node, the boxes, the accounts of several signers (\<open>create_multisig_account\<close> of
  the substrate library), the text of a time, and what becomes of the host during \<open>sleep(2)\<close>.
\<close>

record 'h svc_env =
  tenv :: "'h task_env"
  is_compute :: bool
  conf_priv_key :: string
  conf_pub_key :: string
  boxes :: box_lib
  create_multisig_account :: "string \<Rightarrow> i32 \<Rightarrow> string option"
  format_time :: "i64 \<Rightarrow> string"
  after_sleep :: "'h \<Rightarrow> 'h"

record 'h svc =
  svc_filter :: bloomlru_filter
  svc_tm :: "'h tm"
  svc_net :: conn_mgr

definition in_tm :: "('h tm, 'a) M \<Rightarrow> ('h svc, 'a) M" where
  "in_tm = mlift svc_tm svc_tm_update"

definition in_svc_net :: "(conn_mgr, 'a) M \<Rightarrow> ('h svc, 'a) M" where
  "in_svc_net = mlift svc_net svc_net_update"

definition own_id :: "'h svc_env \<Rightarrow> string" where
  "own_id E = local_node_id (henv (sign_env (tenv E)))"

definition E_DEFAULT :: errcode where "E_DEFAULT = - 3"

section \<open>Checks of the header\<close>

definition hit_node :: "string list \<Rightarrow> string \<Rightarrow> bool" where
  "hit_node peer_node_list node_id \<longleftrightarrow> node_id \<in> set peer_node_list"

text \<open>A nonce that passes is recorded by \<open>contains\<close>.\<close>

definition check_req_header_nonce :: "'h svc_env \<Rightarrow> string \<Rightarrow> ('h svc, bool) M" where
  "check_req_header_nonce E n s =
     (if n = [] then (Inr False, s)
      else case check_id (hash_scratch (tenv E)) n of
        Inl f \<Rightarrow> (Inl f, s)
      | Inr False \<Rightarrow> (Inr False, s)
      | Inr True \<Rightarrow> (case filter_contains n (svc_filter s) of (seen, f) \<Rightarrow> (Inr (\<not> seen), s\<lparr>svc_filter := f\<rparr>)))"

definition check_req_header :: "'h svc_env \<Rightarrow> base_header \<Rightarrow> failure + bool" where
  "check_req_header E h =
     (if session_id h = [] then Inr False
      else case check_id (hash_scratch (tenv E)) (session_id h) of
        Inl f \<Rightarrow> Inl f
      | Inr False \<Rightarrow> Inr False
      | Inr True \<Rightarrow> Inr (smap_lookup (exten_info h) ''pub_key'' \<noteq> None))"

section \<open>Answers\<close>

definition quoted :: "string \<Rightarrow> string" where
  "quoted t = [CHR 0x22] @ t @ [CHR 0x22]"

definition response_message :: "'h svc_env \<Rightarrow> string \<Rightarrow> base_header \<Rightarrow> string \<Rightarrow> string \<Rightarrow> tval message" where
  "response_message E name h n rsp_data =
     (let e = sign_env (tenv E);
          exten = smap_insert ''pub_key'' (conf_pub_key E) (smap_insert ''sign'' (sign e (n @ session_id h) (private_key e)) [])
      in \<lparr>message_name = name,
          message_content = Some (Msg_body name
            (set_exten_info exten (set_path (path h) (set_session_id (session_id h) (set_nonce n (set_msg_name name (set_magic (net_flag (henv e)) empty_header))))))
            (V_struct [Some (V_struct [Some (V_string rsp_data)])]))\<rparr>)"

definition send_response_json :: "'h svc_env \<Rightarrow> string \<Rightarrow> base_header \<Rightarrow> string \<Rightarrow> ('h svc, unit) M" where
  "send_response_json E name h rsp_data s = (case create_nonce (scratch (sign_env (tenv E))) (uuid (sign_env (tenv E))) of
     Inl f \<Rightarrow> (Inl f, s)
   | Inr n \<Rightarrow> mbind (in_svc_net (send_resp_message (response_message E name h n rsp_data))) (\<lambda>_. mret ()) s)"

text \<open>A text sealed for the sender of the request; without a key nothing is sent.\<close>

definition send_sealed :: "'h svc_env \<Rightarrow> string \<Rightarrow> base_header \<Rightarrow> string \<Rightarrow> ('h svc, unit) M" where
  "send_sealed E name h txt_json = (case smap_lookup (exten_info h) ''pub_key'' of
     None \<Rightarrow> mret ()
   | Some pub_key \<Rightarrow>
       if pub_key = [] \<or> conf_priv_key E = [] then mret ()
       else case encrypt_data (boxes E) (bytes_of_string txt_json) pub_key (conf_priv_key E) of
         Inl f \<Rightarrow> mfail f
       | Inr s_data \<Rightarrow> send_response_json E name h s_data)"

definition send_response_ok :: "'h svc_env \<Rightarrow> string \<Rightarrow> base_header \<Rightarrow> ('h svc, unit) M" where
  "send_response_ok E name h = send_sealed E name h
     (''{'' @ quoted ''errcode'' @ '':'' @ dec_int (sint ERR_SUCCESS) @ '', '' @ quoted ''message'' @ '':'' @ quoted ''ok'' @ ''}'')"

definition send_response_error :: "'h svc_env \<Rightarrow> string \<Rightarrow> base_header \<Rightarrow> errcode \<Rightarrow> string \<Rightarrow> ('h svc, unit) M" where
  "send_response_error E name h code msg = send_sealed E name h
     (''{'' @ quoted ''errcode'' @ '':'' @ dec_int (sint code) @ '', '' @ quoted ''message'' @ '':'' @ quoted msg @ ''}'')"

section \<open>Authority\<close>

definition check_nonce :: "'h svc_env \<Rightarrow> string \<Rightarrow> string \<Rightarrow> string \<Rightarrow> 'h svc \<Rightarrow> fresult \<times> 'h svc" where
  "check_nonce E w n sg s =
     (if w = [] then ((ERR_ERROR, ''wallet is empty''), s)
      else if n = [] then ((ERR_ERROR, ''nonce is empty''), s)
      else if sg = [] then ((ERR_ERROR, ''sign is empty''), s)
      else if \<not> verify_sign (sign_env (tenv E)) sg n w then ((ERR_ERROR, ''verify sign failed''), s)
      else case filter_contains n (svc_filter s) of (seen, f) \<Rightarrow>
        (if seen then (ERR_ERROR, ''nonce is already exist'') else FResultOk, s\<lparr>svc_filter := f\<rparr>))"

fun check_signs :: "'h svc_env \<Rightarrow> string list \<Rightarrow> sign_item list \<Rightarrow> 'h svc \<Rightarrow> fresult \<times> 'h svc" where
  "check_signs E wallets [] s = (FResultOk, s)"
| "check_signs E wallets (it # its) s =
     (if si_wallet it \<notin> set wallets then ((ERR_ERROR, ''multisig sign_wallet '' @ si_wallet it @ '' not found in wallets''), s)
      else if si_nonce it = [] then ((ERR_ERROR, ''multisig nonce is empty''), s)
      else if si_sign it = [] then ((ERR_ERROR, ''multisig sign is empty''), s)
      else if \<not> verify_sign (sign_env (tenv E)) (si_sign it) (si_nonce it) (si_wallet it) then ((ERR_ERROR, ''verify multisig sign failed''), s)
      else case filter_contains (si_nonce it) (svc_filter s) of (seen, f) \<Rightarrow>
        if seen then ((ERR_ERROR, ''multisig nonce is already exist''), s\<lparr>svc_filter := f\<rparr>)
        else check_signs E wallets its (s\<lparr>svc_filter := f\<rparr>))"

definition check_nonce_multisig :: "'h svc_env \<Rightarrow> string list \<Rightarrow> i32 \<Rightarrow> sign_item list \<Rightarrow> 'h svc \<Rightarrow> fresult \<times> 'h svc" where
  "check_nonce_multisig E wallets threshold signs s =
     (if wallets = [] \<or> signs = [] \<or> sint threshold \<le> 0 then ((ERR_ERROR, ''multisig wallet is emtpty''), s)
      else if nat (sint threshold) > length wallets \<or> nat (sint threshold) > length signs then ((ERR_ERROR, ''threshold is invalid''), s)
      else check_signs E wallets signs s)"

definition parse_wallet :: "'h svc_env \<Rightarrow> authority_params \<Rightarrow> 'h svc \<Rightarrow> (string \<times> string) \<times> 'h svc" where
  "parse_wallet E p s =
     (case check_nonce E (ap_wallet p) (ap_nonce p) (ap_sign p) s of (ret1, s) \<Rightarrow>
      case check_nonce_multisig E (ap_multisig_wallets p) (ap_multisig_threshold p) (ap_multisig_signs p) s of (ret2, s) \<Rightarrow>
        ((if fst ret1 = ERR_SUCCESS then ap_wallet p else [],
          if fst ret2 = ERR_SUCCESS
          then (case create_multisig_account E (join_comma (ap_multisig_wallets p)) (ap_multisig_threshold p) of Some a \<Rightarrow> a | None \<Rightarrow> [])
          else []), s))"

text \<open>One wallet during the verification of the machine, and one while it is rented.\<close>

definition try_verifier :: "'h svc_env \<Rightarrow> string \<Rightarrow> authorise_result \<Rightarrow> ('h svc, authorise_result) M" where
  "try_verifier E w r s =
     (if ar_success r \<or> w = [] then (Inr r, s)
      else if \<not> chain_in_verify_time (tenv E) (host (tvm (svc_tm s))) w then (Inr (r\<lparr>ar_errmsg := ''not in verify time''\<rparr>), s)
      else (Inr (r\<lparr>ar_success := True, ar_user_role := Verifier, ar_rent_wallet := w\<rparr>), s\<lparr>svc_tm := deleteOtherCheckTasks (tenv E) w (svc_tm s)\<rparr>))"

definition try_renter :: "'h svc_env \<Rightarrow> string \<Rightarrow> string list \<Rightarrow> authorise_result \<Rightarrow> ('h svc, authorise_result) M" where
  "try_renter E w signers r s =
     (if ar_success r \<or> w = [] then (Inr r, s)
      else let rent_end = chain_rent_end (tenv E) (host (tvm (svc_tm s))) w in
        if sint rent_end > 0
        then mbind (in_tm (createSessionId (tenv E) w signers)) (\<lambda>_.
          mret (r\<lparr>ar_success := True, ar_user_role := WalletRenter, ar_rent_wallet := w, ar_rent_end := rent_end\<rparr>)) s
        else (Inr (r\<lparr>ar_errmsg := ''wallet not rented''\<rparr>), s))"

definition authority_verify :: "'h svc_env \<Rightarrow> authority_params \<Rightarrow> ('h svc, authorise_result) M" where
  "authority_verify E p s =
     (case parse_wallet E p s of ((w, mw), s) \<Rightarrow>
        let r = new_result\<lparr>ar_machine_status := MS_Verify\<rparr> in
        if w = [] \<and> mw = [] then (Inr (r\<lparr>ar_errmsg := ''nonce check failed''\<rparr>), s)
        else mbind (try_verifier E mw r) (try_verifier E w) s)"

definition authority_rented :: "'h svc_env \<Rightarrow> authority_params \<Rightarrow> ('h svc, authorise_result) M" where
  "authority_rented E p s =
     (let s = s\<lparr>svc_tm := deleteAllCheckTasks (tenv E) (svc_tm s)\<rparr>;
          r = new_result\<lparr>ar_machine_status := MS_Rented\<rparr>;
          rent_wallet = checkSessionId (tenv E) (ap_session_id p) (ap_session_id_sign p) (svc_tm s)
      in if rent_wallet = [] then
           (case parse_wallet E p s of ((w, mw), s) \<Rightarrow>
              if w = [] \<and> mw = [] then
                (Inr (r\<lparr>ar_errmsg := (if ap_session_id p \<noteq> [] \<and> ap_session_id_sign p \<noteq> [] then ''session_id is invalid'' else ''nonce check failed'')\<rparr>), s)
              else mbind (try_renter E mw (ap_multisig_wallets p) r) (try_renter E w []) s)
         else let rent_end = chain_rent_end (tenv E) (host (tvm (svc_tm s))) rent_wallet in
           if sint rent_end > 0
           then (Inr (r\<lparr>ar_success := True, ar_user_role := SessionIdRenter, ar_rent_wallet := rent_wallet, ar_rent_end := rent_end\<rparr>), s)
           else (Inr (r\<lparr>ar_errmsg := ''machine has already expired''\<rparr>), s))"

definition check_authority :: "'h svc_env \<Rightarrow> authority_params \<Rightarrow> ('h svc, authorise_result) M" where
  "check_authority E p s = (case chain_machine_status (tenv E) (host (tvm (svc_tm s))) of
     MS_Unknown \<Rightarrow> (Inr (new_result\<lparr>ar_errmsg := ''query machine_status failed''\<rparr>), s)
   | MS_Verify \<Rightarrow> authority_verify E p s
   | MS_Online \<Rightarrow> (Inr (new_result\<lparr>ar_machine_status := MS_Online, ar_errmsg := ''machine is not be rented''\<rparr>),
        s\<lparr>svc_tm := deleteAllCheckTasks (tenv E) (svc_tm s)\<rparr>)
   | MS_Rented \<Rightarrow> authority_rented E p s)"

section \<open>Other domains\<close>

definition foreign_domain :: "'h svc_env \<Rightarrow> 'h tm \<Rightarrow> bool" where
  "foreign_domain E s \<longleftrightarrow> (\<exists>d\<in>set (ListAllRunningDomains (tenv E) (tvm s)). getTaskInfo d s = None)"

fun other_domains_loop :: "'h svc_env \<Rightarrow> nat \<Rightarrow> 'h tm \<Rightarrow> bool \<times> 'h tm" where
  "other_domains_loop E 0 s = (True, s)"
| "other_domains_loop E (Suc n) s =
     (if foreign_domain E s then other_domains_loop E n (on_host (after_sleep E) s) else (False, s))"

definition found_other_running_domains :: "'h svc_env \<Rightarrow> 'h tm \<Rightarrow> bool \<times> 'h tm" where
  "found_other_running_domains E s = other_domains_loop E 5 (Task_Manager.broadcast_message (tenv E) ''renting'' s)"

section \<open>The frame of a handler\<close>

definition forward_request :: "'h svc_env \<Rightarrow> socket_id \<Rightarrow> tval message \<Rightarrow> string \<Rightarrow> base_header \<Rightarrow> tval \<Rightarrow> ('h svc, unit) M" where
  "forward_request E sid msg name h b =
     mbind (in_svc_net (Connection_Manager.broadcast_message
       (msg\<lparr>message_content := Some (Msg_body name (h\<lparr>path := path h @ [own_id E]\<rparr>) b)\<rparr>) sid)) (\<lambda>_. mret ())"

text \<open>
  The data of a request: opened with the keys, then read by the binary protocol from a buffer of its
  own; \<open>None\<close> is the case that is passed on.
\<close>

definition read_data :: "tspec \<Rightarrow> byte list \<Rightarrow> failure + tval option" where
  "read_data spec ori = (case write_to_byte_buf ori (new_buf DEFAULT_BUF_LEN True) of
     (Inl (Throw _), _) \<Rightarrow> Inr None
   | (Inl f, _) \<Rightarrow> Inl f
   | (Inr _, buf) \<Rightarrow> (case read_value binary_vt spec None (binary_protocol_ctor buf) of
        (Inl (Throw _), _) \<Rightarrow> Inr None | (Inl f, _) \<Rightarrow> Inl f | (Inr (_, v), _) \<Rightarrow> Inr (Some v)))"

definition open_request :: "'h svc_env \<Rightarrow> tspec \<Rightarrow> string \<Rightarrow> tval \<Rightarrow> failure + tval option" where
  "open_request E spec pub_key b =
     (case decrypt_data (boxes E) (get_string (get_member S_string 0 (get_member (S_struct [(1, Required, S_string)]) 0 b))) pub_key (conf_priv_key E) of
        Inl f \<Rightarrow> Inl f
      | Inr None \<Rightarrow> Inr None
      | Inr (Some ori) \<Rightarrow> (if ori = [] then Inr None else read_data spec ori))"

definition item_of :: "tval \<Rightarrow> sign_item" where
  "item_of v = \<lparr>si_wallet = get_string (get_member S_string 0 v), si_nonce = get_string (get_member S_string 1 v), si_sign = get_string (get_member S_string 2 v)\<rparr>"

text \<open>
  The members: the list of nodes at position \<open>k\<close>, behind it the additional text, the wallet and so on;
  \<open>with_session\<close> is false for the one message without a session.
\<close>

definition peers_of :: "nat \<Rightarrow> tval \<Rightarrow> string list" where
  "peers_of k d = map get_string (get_list (get_member (S_list S_string) k d))"

definition additional_of :: "nat \<Rightarrow> tval \<Rightarrow> string" where
  "additional_of k d = get_string (get_member S_string (k + 1) d)"

definition params_of :: "nat \<Rightarrow> bool \<Rightarrow> tval \<Rightarrow> authority_params" where
  "params_of k with_session d =
     (let str = (\<lambda>i. get_string (get_member S_string i d)) in
      \<lparr>ap_wallet = str (k + 2), ap_nonce = str (k + 3), ap_sign = str (k + 4),
       ap_multisig_wallets = map get_string (get_list (get_member (S_list S_string) (k + 5) d)),
       ap_multisig_threshold = get_i32 (get_member S_i32 (k + 6) d),
       ap_multisig_signs = map item_of (get_list (get_member (S_list multisig_sign_item) (k + 7) d)),
       ap_session_id = (if with_session then str (k + 8) else []), ap_session_id_sign = (if with_session then str (k + 9) else [])\<rparr>)"

record 'h request_kind =
  rk_req :: string
  rk_rsp :: string
  rk_data :: tspec
  rk_peers :: nat
  rk_session :: bool
  rk_renters_only :: bool
  rk_domains :: "string option"
  rk_act :: "base_header \<Rightarrow> tval \<Rightarrow> authorise_result \<Rightarrow> ('h svc, unit) M"

definition refused :: "'h request_kind \<Rightarrow> authorise_result \<Rightarrow> bool" where
  "refused K r \<longleftrightarrow> \<not> ar_success r \<or> rk_renters_only K \<and> (ar_user_role r = Role_Unknown \<or> ar_user_role r = Verifier)"

definition run_request :: "'h svc_env \<Rightarrow> 'h request_kind \<Rightarrow> base_header \<Rightarrow> tval \<Rightarrow> ('h svc, unit) M" where
  "run_request E K h d = mbind (check_authority E (params_of (rk_peers K) (rk_session K) d)) (\<lambda>r.
     if refused K r then send_response_error E (rk_rsp K) h E_DEFAULT (''check authority failed: '' @ ar_errmsg r)
     else case rk_domains K of
       None \<Rightarrow> rk_act K h d r
     | Some verb \<Rightarrow> mbind (in_tm (\<lambda>s. case found_other_running_domains E s of (b, s) \<Rightarrow> (Inr b, s))) (\<lambda>found.
         if found then send_response_error E (rk_rsp K) h E_DEFAULT (verb @ '' task failed, please try again in a minute'')
         else rk_act K h d r))"

definition on_node_req :: "'h svc_env \<Rightarrow> 'h request_kind \<Rightarrow> socket_id \<Rightarrow> tval message \<Rightarrow> ('h svc, unit) M" where
  "on_node_req E K sid msg = (case content_as (rk_req K) msg of
     None \<Rightarrow> mret ()
   | Some (h, b) \<Rightarrow>
       let forward = forward_request E sid msg (rk_req K) h b in
       mbind (check_req_header_nonce E (nonce h)) (\<lambda>fresh.
         if \<not> fresh then mret ()
         else if \<not> is_compute E then forward
         else case check_req_header E h of
           Inl f \<Rightarrow> mfail f
         | Inr False \<Rightarrow> forward
         | Inr True \<Rightarrow>
             let pub_key = (case smap_lookup (exten_info h) ''pub_key'' of Some k \<Rightarrow> k | None \<Rightarrow> []) in
             if pub_key = [] \<or> conf_priv_key E = [] then forward
             else case open_request E (rk_data K) pub_key b of
               Inl f \<Rightarrow> mfail f
             | Inr None \<Rightarrow> forward
             | Inr (Some d) \<Rightarrow> if hit_node (peers_of (rk_peers K) d) (own_id E) then run_request E K h d else forward))"

section \<open>Actions\<close>

definition task_id_of :: "tval \<Rightarrow> string" where
  "task_id_of d = get_string (get_member S_string 0 d)"

text \<open>A request of the task manager, and the answer to it.\<close>

definition do_and_reply :: "'h svc_env \<Rightarrow> string \<Rightarrow> ('h tm \<Rightarrow> fresult \<times> 'h tm) \<Rightarrow> base_header \<Rightarrow> ('h svc, unit) M" where
  "do_and_reply E rsp f h = mbind (in_tm (\<lambda>s. case f s of (r, s) \<Rightarrow> (Inr r, s))) (\<lambda>r.
     if fst r = ERR_SUCCESS then send_response_ok E rsp h else send_response_error E rsp h (fst r) (snd r))"

definition task_start :: "'h svc_env \<Rightarrow> base_header \<Rightarrow> tval \<Rightarrow> authorise_result \<Rightarrow> ('h svc, unit) M" where
  "task_start E h d r = do_and_reply E ''node_start_task_rsp'' (startTask (tenv E) (ar_rent_wallet r) (task_id_of d)) h"

definition task_shutdown :: "'h svc_env \<Rightarrow> base_header \<Rightarrow> tval \<Rightarrow> authorise_result \<Rightarrow> ('h svc, unit) M" where
  "task_shutdown E h d r = do_and_reply E ''node_shutdown_task_rsp'' (shutdownTask (tenv E) (ar_rent_wallet r) (task_id_of d)) h"

definition task_poweroff :: "'h svc_env \<Rightarrow> base_header \<Rightarrow> tval \<Rightarrow> authorise_result \<Rightarrow> ('h svc, unit) M" where
  "task_poweroff E h d r = do_and_reply E ''node_poweroff_task_rsp'' (poweroffTask (tenv E) (ar_rent_wallet r) (task_id_of d)) h"

definition task_stop :: "'h svc_env \<Rightarrow> base_header \<Rightarrow> tval \<Rightarrow> authorise_result \<Rightarrow> ('h svc, unit) M" where
  "task_stop E h d r = do_and_reply E ''node_stop_task_rsp'' (poweroffTask (tenv E) (ar_rent_wallet r) (task_id_of d)) h"

definition task_restart :: "'h svc_env \<Rightarrow> base_header \<Rightarrow> tval \<Rightarrow> authorise_result \<Rightarrow> ('h svc, unit) M" where
  "task_restart E h d r = do_and_reply E ''node_restart_task_rsp''
     (restartTask (tenv E) (ar_rent_wallet r) (task_id_of d) (get_i16 (get_member S_i16 11 d) \<noteq> 0)) h"

definition task_reset :: "'h svc_env \<Rightarrow> base_header \<Rightarrow> tval \<Rightarrow> authorise_result \<Rightarrow> ('h svc, unit) M" where
  "task_reset E h d r = do_and_reply E ''node_reset_task_rsp'' (resetTask (tenv E) (ar_rent_wallet r) (task_id_of d)) h"

definition task_delete :: "'h svc_env \<Rightarrow> base_header \<Rightarrow> tval \<Rightarrow> authorise_result \<Rightarrow> ('h svc, unit) M" where
  "task_delete E h d r = do_and_reply E ''node_delete_task_rsp'' (deleteTask (tenv E) (ar_rent_wallet r) (task_id_of d)) h"

definition json_reply :: "errcode \<Rightarrow> string \<Rightarrow> string" where
  "json_reply code msg = ''{'' @ quoted ''errcode'' @ '':'' @ dec_int (sint code) @ '','' @ quoted ''message'' @ '':'' @ quoted msg @ ''}''"

text \<open>The task found after its creation is used without a check.\<close>

definition created_text :: "'h svc_env \<Rightarrow> string \<Rightarrow> task_info \<Rightarrow> string" where
  "created_text E tid t =
     ''{'' @ quoted ''errcode'' @ '':'' @ dec_int (sint ERR_SUCCESS) @ '', '' @ quoted ''message'' @ '':{'' @ quoted ''task_id'' @ '':'' @ quoted tid @
     '', '' @ quoted ''create_time'' @ '':'' @ quoted (format_time E (ti_create_time (ti_db t))) @ '', '' @ quoted ''desc'' @ '':'' @ quoted (ti_desc (ti_db t)) @
     '', '' @ quoted ''status'' @ '':'' @ quoted ''creating'' @ ''}}''"

definition task_create :: "'h svc_env \<Rightarrow> base_header \<Rightarrow> tval \<Rightarrow> authorise_result \<Rightarrow> ('h svc, unit) M" where
  "task_create E h d r =
     mbind (in_tm (createTask (tenv E) (ar_rent_wallet r) (additional_of 0 d) (ar_rent_end r) (ar_user_role r))) (\<lambda>(fr, tid) s.
       if fst fr = ERR_SUCCESS then
         (case findTask (ar_rent_wallet r) tid (svc_tm s) of
            None \<Rightarrow> (Inl Undefined_behaviour, s)
          | Some t \<Rightarrow> send_sealed E ''node_create_task_rsp'' h (created_text E tid t) s)
       else send_response_error E ''node_create_task_rsp'' h (fst fr) (snd fr) s)"

definition node_session_id :: "'h svc_env \<Rightarrow> base_header \<Rightarrow> tval \<Rightarrow> authorise_result \<Rightarrow> ('h svc, unit) M" where
  "node_session_id E h d r s =
     (if ar_machine_status r = MS_Rented \<and> ar_user_role r = WalletRenter then
        (let i = getSessionId (ar_rent_wallet r) (svc_tm s) in
         if i = [] then send_response_error E ''node_session_id_rsp'' h E_DEFAULT ''no session id'' s
         else send_sealed E ''node_session_id_rsp'' h
           (''{'' @ quoted ''errcode'' @ '':'' @ dec_int (sint ERR_SUCCESS) @ '', '' @ quoted ''message'' @ '':{'' @ quoted ''session_id'' @ '':'' @ quoted i @ ''}}'') s)
      else send_response_error E ''node_session_id_rsp'' h E_DEFAULT ''check authority failed'' s)"

definition node_free_memory :: "'h svc_env \<Rightarrow> base_header \<Rightarrow> tval \<Rightarrow> authorise_result \<Rightarrow> ('h svc, unit) M" where
  "node_free_memory E h d r = mbind (in_tm (mmodify (drop_caches (tenv E)))) (\<lambda>_. send_response_ok E ''node_free_memory_rsp'' h)"

text \<open>What the disk requests have in common: the task, its domain, the boot mode and the JSON text.\<close>

definition with_disk_request ::
  "'h svc_env \<Rightarrow> string \<Rightarrow> base_header \<Rightarrow> tval \<Rightarrow> (json_doc \<Rightarrow> ('h svc, unit) M) \<Rightarrow> ('h svc, unit) M" where
  "with_disk_request E rsp h d k s =
     (let tid = task_id_of d; err = send_response_error E rsp h E_DEFAULT in
      case getTaskInfo tid (svc_tm s) of
        None \<Rightarrow> err ''task not exist'' s
      | Some t \<Rightarrow>
          if \<not> IsExistDomain (tenv E) tid (tvm (svc_tm s)) then err ''task not exist'' s
          else if ti_bios_mode (ti_db t) = ''pxe'' then err ''pxe not support disk'' s
          else case parse_json (tenv E) (additional_of 1 d) of None \<Rightarrow> err ''parse xml failed'' s | Some doc \<Rightarrow> k doc s)"

definition disk_reply :: "'h svc_env \<Rightarrow> string \<Rightarrow> ('h tm \<Rightarrow> fresult \<times> 'h tm) \<Rightarrow> base_header \<Rightarrow> ('h svc, unit) M" where
  "disk_reply E rsp f h = mbind (in_tm (\<lambda>s. case f s of (r, s) \<Rightarrow> (Inr r, s))) (\<lambda>r.
     send_sealed E rsp h (if fst r = ERR_SUCCESS then json_reply ERR_SUCCESS ''ok'' else json_reply (fst r) (snd r)))"

text \<open>The size is a variable without an initial value.\<close>

definition with_size :: "'h svc_env \<Rightarrow> string \<Rightarrow> base_header \<Rightarrow> json_doc \<Rightarrow> (i64 \<Rightarrow> ('h svc, unit) M) \<Rightarrow> ('h svc, unit) M" where
  "with_size E rsp h doc k = (case json_int doc ''size'' of
     None \<Rightarrow> mfail Undefined_behaviour
   | Some n \<Rightarrow> if sint n \<le> 0 then send_response_error E rsp h E_DEFAULT ([CHR 0x27] @ ''size'' @ [CHR 0x27] @ '' is invalid'') else k (scast n * 1024 * 1024))"

definition do_resize_disk :: "'h svc_env \<Rightarrow> base_header \<Rightarrow> tval \<Rightarrow> authorise_result \<Rightarrow> ('h svc, unit) M" where
  "do_resize_disk E h d r = (let rsp = ''node_resize_disk_rsp'' in
     with_disk_request E rsp h d (\<lambda>doc.
       if json_str doc ''disk'' = [] then send_response_error E rsp h E_DEFAULT ([CHR 0x27] @ ''disk'' @ [CHR 0x27] @ '' is empty'')
       else with_size E rsp h doc (\<lambda>n. disk_reply E rsp (resizeDisk (tenv E) (task_id_of d) (json_str doc ''disk'') n) h)))"

definition do_add_disk :: "'h svc_env \<Rightarrow> base_header \<Rightarrow> tval \<Rightarrow> authorise_result \<Rightarrow> ('h svc, unit) M" where
  "do_add_disk E h d r = (let rsp = ''node_add_disk_rsp'' in
     with_disk_request E rsp h d (\<lambda>doc. with_size E rsp h doc (\<lambda>n s.
       let dir = (if json_str doc ''mount_dir'' = [] then ''/data'' else json_str doc ''mount_dir'') in
       if \<not> file_exists (tenv E) (host (tvm (svc_tm s))) dir then send_response_error E rsp h E_DEFAULT (dir @ '' is not exist'') s
       else disk_reply E rsp (addNewDisk (tenv E) (task_id_of d) n dir) h s)))"

definition do_delete_disk :: "'h svc_env \<Rightarrow> base_header \<Rightarrow> tval \<Rightarrow> authorise_result \<Rightarrow> ('h svc, unit) M" where
  "do_delete_disk E h d r = (let rsp = ''node_delete_disk_rsp'' in
     with_disk_request E rsp h d (\<lambda>doc.
       if json_str doc ''disk'' = [] then send_response_error E rsp h E_DEFAULT ([CHR 0x27] @ ''disk'' @ [CHR 0x27] @ '' is empty'')
       else disk_reply E rsp (deleteDisk (tenv E) (task_id_of d) (json_str doc ''disk'')) h))"

definition snapshot_create :: "'h svc_env \<Rightarrow> base_header \<Rightarrow> tval \<Rightarrow> authorise_result \<Rightarrow> ('h svc, unit) M" where
  "snapshot_create E h d r = (let rsp = ''node_create_snapshot_rsp'' in
     case parse_json (tenv E) (additional_of 1 d) of
       None \<Rightarrow> send_response_error E rsp h E_DEFAULT ''parse xml failed''
     | Some doc \<Rightarrow>
         if json_str doc ''snapshot_name'' = [] then send_response_error E rsp h E_DEFAULT ([CHR 0x27] @ ''snapshot_name'' @ [CHR 0x27] @ '' is empty'')
         else disk_reply E rsp (createAndUploadSnapshot (tenv E) (task_id_of d) (json_str doc ''snapshot_name'') (json_str doc ''desc'')) h)"

definition snapshot_delete :: "'h svc_env \<Rightarrow> base_header \<Rightarrow> tval \<Rightarrow> authorise_result \<Rightarrow> ('h svc, unit) M" where
  "snapshot_delete E h d r = (let name = get_string (get_member S_string 1 d) in
     disk_reply E ''node_delete_snapshot_rsp'' (\<lambda>s. case getSnapshot (task_id_of d) name s of
       None \<Rightarrow> ((ERR_ERROR, name @ '' not exist''), s)
     | Some _ \<Rightarrow> (FResultOk, terminateUploadSnapshot (tenv E) (task_id_of d) name s)) h)"

section \<open>The handlers\<close>

text \<open>The message, its data, the position of the list of nodes and the action; the handlers of a task have no other conditions.\<close>

definition kind :: "string \<Rightarrow> string \<Rightarrow> tspec \<Rightarrow> nat \<Rightarrow> (base_header \<Rightarrow> tval \<Rightarrow> authorise_result \<Rightarrow> ('h svc, unit) M) \<Rightarrow> 'h request_kind" where
  "kind req rsp spec k act = \<lparr>rk_req = req, rk_rsp = rsp, rk_data = spec, rk_peers = k, rk_session = True, rk_renters_only = False, rk_domains = None, rk_act = act\<rparr>"

definition create_task_kind :: "'h svc_env \<Rightarrow> 'h request_kind" where
  "create_task_kind E = (kind ''node_create_task_req'' ''node_create_task_rsp'' node_create_task_req_data 0 (task_create E))\<lparr>rk_domains := Some ''create''\<rparr>"

definition start_task_kind :: "'h svc_env \<Rightarrow> 'h request_kind" where
  "start_task_kind E = (kind ''node_start_task_req'' ''node_start_task_rsp'' node_start_task_req_data 1 (task_start E))\<lparr>rk_domains := Some ''start''\<rparr>"

definition restart_task_kind :: "'h svc_env \<Rightarrow> 'h request_kind" where
  "restart_task_kind E = (kind ''node_restart_task_req'' ''node_restart_task_rsp'' node_restart_task_req_data 1 (task_restart E))\<lparr>rk_domains := Some ''restart''\<rparr>"

definition shutdown_task_kind :: "'h svc_env \<Rightarrow> 'h request_kind" where
  "shutdown_task_kind E = kind ''node_shutdown_task_req'' ''node_shutdown_task_rsp'' node_shutdown_task_req_data 1 (task_shutdown E)"

definition poweroff_task_kind :: "'h svc_env \<Rightarrow> 'h request_kind" where
  "poweroff_task_kind E = kind ''node_poweroff_task_req'' ''node_poweroff_task_rsp'' node_poweroff_task_req_data 1 (task_poweroff E)"

definition stop_task_kind :: "'h svc_env \<Rightarrow> 'h request_kind" where
  "stop_task_kind E = kind ''node_stop_task_req'' ''node_stop_task_rsp'' node_stop_task_req_data 1 (task_stop E)"

definition reset_task_kind :: "'h svc_env \<Rightarrow> 'h request_kind" where
  "reset_task_kind E = kind ''node_reset_task_req'' ''node_reset_task_rsp'' node_reset_task_req_data 1 (task_reset E)"

definition delete_task_kind :: "'h svc_env \<Rightarrow> 'h request_kind" where
  "delete_task_kind E = kind ''node_delete_task_req'' ''node_delete_task_rsp'' node_delete_task_req_data 1 (task_delete E)"

definition create_snapshot_kind :: "'h svc_env \<Rightarrow> 'h request_kind" where
  "create_snapshot_kind E = (kind ''node_create_snapshot_req'' ''node_create_snapshot_rsp'' node_create_snapshot_req_data 1 (snapshot_create E))\<lparr>rk_renters_only := True\<rparr>"

definition delete_snapshot_kind :: "'h svc_env \<Rightarrow> 'h request_kind" where
  "delete_snapshot_kind E = (kind ''node_delete_snapshot_req'' ''node_delete_snapshot_rsp'' node_delete_snapshot_req_data 2 (snapshot_delete E))\<lparr>rk_renters_only := True\<rparr>"

definition resize_disk_kind :: "'h svc_env \<Rightarrow> 'h request_kind" where
  "resize_disk_kind E = (kind ''node_resize_disk_req'' ''node_resize_disk_rsp'' node_resize_disk_req_data 1 (do_resize_disk E))\<lparr>rk_renters_only := True\<rparr>"

definition add_disk_kind :: "'h svc_env \<Rightarrow> 'h request_kind" where
  "add_disk_kind E = (kind ''node_add_disk_req'' ''node_add_disk_rsp'' node_add_disk_req_data 1 (do_add_disk E))\<lparr>rk_renters_only := True\<rparr>"

definition delete_disk_kind :: "'h svc_env \<Rightarrow> 'h request_kind" where
  "delete_disk_kind E = (kind ''node_delete_disk_req'' ''node_delete_disk_rsp'' node_delete_disk_req_data 1 (do_delete_disk E))\<lparr>rk_renters_only := True\<rparr>"

definition session_id_kind :: "'h svc_env \<Rightarrow> 'h request_kind" where
  "session_id_kind E = (kind ''node_session_id_req'' ''node_session_id_rsp'' node_session_id_req_data 0 (node_session_id E))\<lparr>rk_session := False\<rparr>"

definition free_memory_kind :: "'h svc_env \<Rightarrow> 'h request_kind" where
  "free_memory_kind E = kind ''node_free_memory_req'' ''node_free_memory_rsp'' node_free_memory_req_data 0 (node_free_memory E)"

text \<open>The table of \<open>init_invoker\<close>, as far as the actions are modelled.\<close>

definition request_kinds :: "'h svc_env \<Rightarrow> 'h request_kind list" where
  "request_kinds E = [create_task_kind E, start_task_kind E, restart_task_kind E, shutdown_task_kind E, poweroff_task_kind E, stop_task_kind E, reset_task_kind E,
     delete_task_kind E, create_snapshot_kind E, delete_snapshot_kind E, resize_disk_kind E, add_disk_kind E, delete_disk_kind E, session_id_kind E, free_memory_kind E]"

definition dispatch_request :: "'h svc_env \<Rightarrow> socket_id \<Rightarrow> tval message \<Rightarrow> ('h svc, unit) M" where
  "dispatch_request E sid msg = (case List.find (\<lambda>K. rk_req K = message_name msg) (request_kinds E) of
     None \<Rightarrow> mret () | Some K \<Rightarrow> on_node_req E K sid msg)"

end
