(* ===== verification/Node_Authority.thy ===== *)
theory Node_Authority
  imports Node_Request_Service
begin

text \<open>
  What the service of requests guarantees: nothing happens to the tasks without authority, what authority
  rests on, that a signed nonce is good once, and that requests for other nodes are passed on unopened; and
  where it fails.
\<close>

section \<open>Steps that leave the tasks alone\<close>

definition silent :: "('h svc, 'a) M \<Rightarrow> bool" where
  "silent m \<longleftrightarrow> (\<forall>s. svc_tm (snd (m s)) = svc_tm s \<and> svc_filter (snd (m s)) = svc_filter s)"

lemma silentD: "silent m \<Longrightarrow> m s = (r, s') \<Longrightarrow> svc_tm s' = svc_tm s" "silent m \<Longrightarrow> m s = (r, s') \<Longrightarrow> svc_filter s' = svc_filter s"
  unfolding silent_def by (metis snd_conv)+

lemma silent_steps [intro]:
  "silent (mret x)" "silent (mfail f)" "silent (in_svc_net m)"
  by (simp_all add: silent_def mret_def mfail_def in_svc_net_def mlift_def split: prod.split)

lemma silent_bind [intro]: "silent m \<Longrightarrow> (\<And>x. silent (k x)) \<Longrightarrow> silent (mbind m k)"
  unfolding silent_def by (auto simp: mbind_def split: prod.splits sum.splits) (metis snd_conv)+

lemma silent_answers [intro]:
  "silent (send_response_json E name h t)" "silent (send_sealed E name h t)" "silent (send_response_ok E name h)" "silent (send_response_error E name h c t)"
  "silent (forward_request E sid msg name h b)"
proof -
  show j: "silent (send_response_json E name h t)" for t
  proof (cases "create_nonce (scratch (sign_env (tenv E))) (uuid (sign_env (tenv E)))")
    case (Inl f)
    then have "send_response_json E name h t = mfail f" by (intro ext) (simp add: send_response_json_def mfail_def)
    then show ?thesis by auto
  next
    case (Inr n)
    then have "send_response_json E name h t = mbind (in_svc_net (send_resp_message (response_message E name h n t))) (\<lambda>_. mret ())"
      by (intro ext) (simp add: send_response_json_def)
    then show ?thesis by auto
  qed
  show k: "silent (send_sealed E name h t)" for t
    using j by (auto simp: send_sealed_def split: option.split sum.split)
  show "silent (send_response_ok E name h)" "silent (send_response_error E name h c t)" "silent (forward_request E sid msg name h b)"
    using k by (auto simp: send_response_ok_def send_response_error_def forward_request_def)
qed

text \<open>The events, the sessions and the tasks that are not made by a verifier.\<close>

definition tasks_kept :: "'h tm \<Rightarrow> 'h tm \<Rightarrow> bool" where
  "tasks_kept s s' \<longleftrightarrow> m_events s' = m_events s \<and> (\<forall>i. \<not> is_check_task i \<longrightarrow> getTaskInfo i s' = getTaskInfo i s) \<and>
     m_wallet_sessionid s' = m_wallet_sessionid s \<and> m_sessionid_wallet s' = m_sessionid_wallet s"

lemma tasks_kept_refl [simp]: "tasks_kept s s"
  by (simp add: tasks_kept_def)

lemma tasks_kept_trans: "tasks_kept s s' \<Longrightarrow> tasks_kept s' s'' \<Longrightarrow> tasks_kept s s''"
  by (simp add: tasks_kept_def)

lemma session_fields [simp]:
  "m_wallet_sessionid (on_host f s) = m_wallet_sessionid s" "m_wallet_sessionid (snd (on_vm g s)) = m_wallet_sessionid s"
  "m_wallet_sessionid (rent_del tid s) = m_wallet_sessionid s" "m_wallet_sessionid (remove_iptable_from_system E tid s) = m_wallet_sessionid s"
  "m_sessionid_wallet (on_host f s) = m_sessionid_wallet s" "m_sessionid_wallet (snd (on_vm g s)) = m_sessionid_wallet s"
  "m_sessionid_wallet (rent_del tid s) = m_sessionid_wallet s" "m_sessionid_wallet (remove_iptable_from_system E tid s) = m_sessionid_wallet s"
  by (simp_all add: on_host_def on_vm_def rent_del_def put_rent_def remove_iptable_from_system_def split: option.split prod.split)

lemma delete_task_kept: "is_check_task i \<Longrightarrow> tasks_kept s (delete_task E i s)"
  unfolding tasks_kept_def by (auto simp: delete_task_info)
    (simp_all add: delete_task_def delete_parts Let_def split: option.split)

lemma delete_tasks_kept: "\<forall>i\<in>set is. is_check_task i \<Longrightarrow> tasks_kept s (foldl (\<lambda>s i. delete_task E i s) s is)"
  by (induction "is" arbitrary: s) (auto intro: tasks_kept_trans [OF delete_task_kept])

lemma check_tasks_kept: "tasks_kept s (deleteAllCheckTasks E s)" "tasks_kept s (deleteOtherCheckTasks E w s)"
  unfolding deleteAllCheckTasks_def deleteOtherCheckTasks_def by (rule delete_tasks_kept, simp)+

section \<open>What authority rests on\<close>

text \<open>The wallet has signed the nonce, or it is the account of several wallets and enough signatures of them are valid.\<close>

definition signed_by :: "'h svc_env \<Rightarrow> authority_params \<Rightarrow> string \<Rightarrow> bool" where
  "signed_by E p w \<longleftrightarrow> w \<noteq> [] \<and>
     (w = ap_wallet p \<and> ap_nonce p \<noteq> [] \<and> verify_sign (sign_env (tenv E)) (ap_sign p) (ap_nonce p) w \<or>
      create_multisig_account E (join_comma (ap_multisig_wallets p)) (ap_multisig_threshold p) = Some w \<and>
      0 < sint (ap_multisig_threshold p) \<and> nat (sint (ap_multisig_threshold p)) \<le> length (ap_multisig_signs p) \<and>
      (\<forall>it\<in>set (ap_multisig_signs p). si_wallet it \<in> set (ap_multisig_wallets p) \<and> si_nonce it \<noteq> [] \<and>
         verify_sign (sign_env (tenv E)) (si_sign it) (si_nonce it) (si_wallet it)))"

definition session_of :: "'h svc_env \<Rightarrow> authority_params \<Rightarrow> 'h tm \<Rightarrow> string \<Rightarrow> bool" where
  "session_of E p s w \<longleftrightarrow> w \<noteq> [] \<and> (\<exists>ws. getWalletSessionBySessionId (ap_session_id p) s = Some ws \<and> ws_wallet ws = w \<and>
     (\<exists>k\<in>set (w # ws_signers ws). verify_sign (sign_env (tenv E)) (ap_session_id_sign p) (ap_session_id p) k))"

text \<open>
  The machine is being verified and the wallet has its turn, or the machine is rented by the wallet, and the
  wallet is behind the request.
\<close>

definition entitled :: "'h svc_env \<Rightarrow> authority_params \<Rightarrow> 'h tm \<Rightarrow> user_role \<Rightarrow> string \<Rightarrow> bool" where
  "entitled E p s role w \<longleftrightarrow> (case role of
     Verifier \<Rightarrow> chain_machine_status (tenv E) (host (tvm s)) = MS_Verify \<and> signed_by E p w \<and> (\<exists>h. chain_in_verify_time (tenv E) h w)
   | WalletRenter \<Rightarrow> chain_machine_status (tenv E) (host (tvm s)) = MS_Rented \<and> signed_by E p w \<and> (\<exists>h. 0 < sint (chain_rent_end (tenv E) h w))
   | SessionIdRenter \<Rightarrow> chain_machine_status (tenv E) (host (tvm s)) = MS_Rented \<and> session_of E p s w \<and> (\<exists>h. 0 < sint (chain_rent_end (tenv E) h w))
   | Role_Unknown \<Rightarrow> False)"

lemma check_nonce_ok:
  assumes "check_nonce E w n sg s = (r, s')"
  shows "svc_tm s' = svc_tm s" "fst r = ERR_SUCCESS \<Longrightarrow> w \<noteq> [] \<and> n \<noteq> [] \<and> verify_sign (sign_env (tenv E)) sg n w"
  using assms by (auto simp: check_nonce_def split: if_splits prod.splits)

lemma check_signs_ok:
  assumes "check_signs E ws its s = (r, s')"
  shows "svc_tm s' = svc_tm s \<and> (fst r = ERR_SUCCESS \<longrightarrow> (\<forall>it\<in>set its. si_wallet it \<in> set ws \<and> si_nonce it \<noteq> [] \<and>
     verify_sign (sign_env (tenv E)) (si_sign it) (si_nonce it) (si_wallet it)))"
  using assms by (induction E ws its s rule: check_signs.induct) (fastforce split: if_splits prod.splits)+

lemma check_multisig_ok:
  assumes "check_nonce_multisig E ws th its s = (r, s')"
  shows "svc_tm s' = svc_tm s" "fst r = ERR_SUCCESS \<Longrightarrow> 0 < sint th \<and> nat (sint th) \<le> length its \<and> (\<forall>it\<in>set its. si_wallet it \<in> set ws \<and> si_nonce it \<noteq> [] \<and>
     verify_sign (sign_env (tenv E)) (si_sign it) (si_nonce it) (si_wallet it))"
  using assms check_signs_ok [of E ws its s r s'] by (auto simp: check_nonce_multisig_def split: if_splits)

lemma parse_wallet_ok:
  assumes "parse_wallet E p s = ((w, mw), s')"
  shows "svc_tm s' = svc_tm s" "w \<noteq> [] \<Longrightarrow> signed_by E p w" "mw \<noteq> [] \<Longrightarrow> signed_by E p mw"
proof -
  obtain r1 s1 where 1: "check_nonce E (ap_wallet p) (ap_nonce p) (ap_sign p) s = (r1, s1)" by (cases "check_nonce E (ap_wallet p) (ap_nonce p) (ap_sign p) s")
  obtain r2 s2 where 2: "check_nonce_multisig E (ap_multisig_wallets p) (ap_multisig_threshold p) (ap_multisig_signs p) s1 = (r2, s2)"
    by (cases "check_nonce_multisig E (ap_multisig_wallets p) (ap_multisig_threshold p) (ap_multisig_signs p) s1")
  note e = assms [unfolded parse_wallet_def 1 prod.case 2]
  show "svc_tm s' = svc_tm s" "w \<noteq> [] \<Longrightarrow> signed_by E p w" "mw \<noteq> [] \<Longrightarrow> signed_by E p mw"
    using e check_nonce_ok [OF 1] check_multisig_ok [OF 2] by (auto simp: signed_by_def split: if_splits option.splits)
qed

lemma checkSessionId_ok:
  "checkSessionId (tenv E) (ap_session_id p) (ap_session_id_sign p) s = w \<Longrightarrow> w \<noteq> [] \<Longrightarrow> session_of E p s w"
  by (fastforce simp: checkSessionId_def session_of_def split: if_splits option.splits)

lemma try_verifier_ok:
  assumes "try_verifier E w r s = (x, s')"
  shows "\<exists>r'. x = Inr r' \<and> tasks_kept (svc_tm s) (svc_tm s') \<and> (ar_success r \<longrightarrow> r' = r) \<and>
     (\<not> ar_success r \<and> ar_success r' \<longrightarrow> w \<noteq> [] \<and> ar_user_role r' = Verifier \<and> ar_rent_wallet r' = w \<and> (\<exists>h. chain_in_verify_time (tenv E) h w))"
  using assms check_tasks_kept(2) by (fastforce simp: try_verifier_def split: if_splits)

lemma authority_verify_ok:
  assumes "authority_verify E p s = (x, s')" "chain_machine_status (tenv E) (host (tvm (svc_tm s))) = MS_Verify"
  shows "\<exists>r. x = Inr r \<and> tasks_kept (svc_tm s) (svc_tm s') \<and> (ar_success r \<longrightarrow> entitled E p (svc_tm s) (ar_user_role r) (ar_rent_wallet r))"
proof -
  obtain w mw s1 where p: "parse_wallet E p s = ((w, mw), s1)" by (metis prod.exhaust)
  note ok = parse_wallet_ok [OF p]
  show ?thesis
  proof (cases "w = [] \<and> mw = []")
    case True
    then show ?thesis using assms(1) ok(1) by (auto simp: authority_verify_def p Let_def new_result_def)
  next
    case False
    let ?r = "new_result\<lparr>ar_machine_status := MS_Verify\<rparr>"
    obtain x1 s2 where 1: "try_verifier E mw ?r s1 = (x1, s2)" by (cases "try_verifier E mw ?r s1")
    from try_verifier_ok [OF 1] obtain r1 where r1: "x1 = Inr r1" "tasks_kept (svc_tm s1) (svc_tm s2)"
      "ar_success r1 \<longrightarrow> mw \<noteq> [] \<and> ar_user_role r1 = Verifier \<and> ar_rent_wallet r1 = mw \<and> (\<exists>h. chain_in_verify_time (tenv E) h mw)"
      by (auto simp: new_result_def)
    from assms(1) False have 2: "try_verifier E w r1 s2 = (x, s')" by (simp add: authority_verify_def p Let_def mbind_def 1 r1(1))
    from try_verifier_ok [OF 2] r1 ok assms(2) show ?thesis
      by (auto simp: entitled_def intro: tasks_kept_trans)
  qed
qed

lemma createSession_ok:
  assumes "createSessionId E w sg s = (x, s')"
  shows "m_events s' = m_events s" "getTaskInfo i s' = getTaskInfo i s" "x = Inl f \<Longrightarrow> s' = s"
  using assms by (auto simp: createSessionId_def session_add_def getTaskInfo_def split: option.splits sum.splits)

lemma try_renter_ok:
  assumes "try_renter E w sg r s = (x, s')"
  shows "(case x of Inl f \<Rightarrow> s' = s \<and> \<not> ar_success r | Inr r' \<Rightarrow> (ar_success r \<longrightarrow> r' = r \<and> s' = s) \<and> (\<not> ar_success r' \<longrightarrow> s' = s) \<and>
     (\<not> ar_success r \<and> ar_success r' \<longrightarrow> w \<noteq> [] \<and> ar_user_role r' = WalletRenter \<and> ar_rent_wallet r' = w \<and> (\<exists>h. 0 < sint (chain_rent_end (tenv E) h w))))"
proof (cases "ar_success r \<or> w = []")
  case False
  obtain y t where c: "createSessionId (tenv E) w sg (svc_tm s) = (y, t)" by (cases "createSessionId (tenv E) w sg (svc_tm s)")
  show ?thesis
    using assms False createSession_ok(3) [OF c]
    by (cases y) (auto simp: try_renter_def Let_def in_tm_def mlift_def mbind_def mret_def c split: if_splits)
qed (use assms in \<open>auto simp: try_renter_def\<close>)

lemma authority_rented_ok:
  assumes "authority_rented E p s = (x, s')" "chain_machine_status (tenv E) (host (tvm (svc_tm s))) = MS_Rented"
  shows "case x of Inl f \<Rightarrow> tasks_kept (svc_tm s) (svc_tm s')
     | Inr r \<Rightarrow> if ar_success r then entitled E p (svc_tm s) (ar_user_role r) (ar_rent_wallet r) else tasks_kept (svc_tm s) (svc_tm s')"
proof -
  let ?s = "s\<lparr>svc_tm := deleteAllCheckTasks (tenv E) (svc_tm s)\<rparr>" and ?r = "new_result\<lparr>ar_machine_status := MS_Rented\<rparr>"
  let ?w = "checkSessionId (tenv E) (ap_session_id p) (ap_session_id_sign p) (svc_tm ?s)"
  have k: "tasks_kept (svc_tm s) (svc_tm ?s)" by (simp add: check_tasks_kept(1))
  show ?thesis
  proof (cases "?w = []")
    case False
    have "session_of E p (svc_tm s) ?w"
      using checkSessionId_ok [OF refl False] k by (simp add: session_of_def tasks_kept_def getWalletSessionBySessionId_def)
    then show ?thesis using assms False k by (auto simp: authority_rented_def Let_def entitled_def new_result_def split: if_splits)
  next
    case True
    obtain w mw s1 where p: "parse_wallet E p ?s = ((w, mw), s1)" by (metis prod.exhaust)
    note ok = parse_wallet_ok [OF p]
    show ?thesis
    proof (cases "w = [] \<and> mw = []")
      case True
      then show ?thesis using assms(1) \<open>?w = []\<close> p ok(1) k by (auto simp: authority_rented_def Let_def new_result_def)
    next
      case False
      obtain x1 s2 where 1: "try_renter E mw (ap_multisig_wallets p) ?r s1 = (x1, s2)" by (cases "try_renter E mw (ap_multisig_wallets p) ?r s1")
      have m: "mbind (try_renter E mw (ap_multisig_wallets p) ?r) (try_renter E w []) s1 = (x, s')"
        using assms(1) \<open>?w = []\<close> p False by (auto simp: authority_rented_def Let_def split: if_splits)
      have e: "(x, s') = (case x1 of Inl f \<Rightarrow> (Inl f, s2) | Inr r1 \<Rightarrow> try_renter E w [] r1 s2)"
        using m by (cases x1) (auto simp: mbind_def 1)
      show ?thesis
      proof (cases x1)
        case (Inl f)
        then show ?thesis using e try_renter_ok [OF 1] ok(1) k by simp
      next
        case (Inr r1)
        then have 2: "try_renter E w [] r1 s2 = (x, s')" using e by simp
        from try_renter_ok [OF 1] Inr have r1: "ar_success r1 \<longrightarrow> mw \<noteq> [] \<and> ar_user_role r1 = WalletRenter \<and> ar_rent_wallet r1 = mw \<and> (\<exists>h. 0 < sint (chain_rent_end (tenv E) h mw))"
          "\<not> ar_success r1 \<longrightarrow> s2 = s1" by (auto simp: new_result_def)
        show ?thesis using try_renter_ok [OF 2] r1 ok k assms(2) by (auto simp: entitled_def split: sum.splits)
      qed
    qed
  qed
qed

lemma check_authority_ok:
  assumes "check_authority E p s = (x, s')"
  shows "case x of Inl f \<Rightarrow> tasks_kept (svc_tm s) (svc_tm s')
     | Inr r \<Rightarrow> if ar_success r then entitled E p (svc_tm s) (ar_user_role r) (ar_rent_wallet r) \<and> (ar_user_role r = Verifier \<longrightarrow> tasks_kept (svc_tm s) (svc_tm s'))
         else tasks_kept (svc_tm s) (svc_tm s')"
proof (cases "chain_machine_status (tenv E) (host (tvm (svc_tm s)))")
  case MS_Verify
  then show ?thesis using assms authority_verify_ok [of E p s x s'] by (auto simp: check_authority_def)
next
  case MS_Rented
  then show ?thesis using assms authority_rented_ok [of E p s x s'] by (auto simp: check_authority_def entitled_def split: sum.splits if_splits)
qed (use assms check_tasks_kept(1) in \<open>auto simp: check_authority_def new_result_def\<close>)

lemma header_nonce_ok:
  assumes "check_req_header_nonce E n s = (x, s1)"
  shows "svc_tm s1 = svc_tm s" "x = Inr True \<Longrightarrow> n \<noteq> [] \<and> check_id (hash_scratch (tenv E)) n = Inr True \<and> s1 = s\<lparr>svc_filter := filter_insert n (svc_filter s)\<rparr>"
  using assms by (auto simp: check_req_header_nonce_def filter_contains_def split: if_splits sum.splits bool.splits prod.splits)

text \<open>The data of a request, when it is opened at this node and for this node.\<close>

definition opened_here :: "'h svc_env \<Rightarrow> 'h request_kind \<Rightarrow> tval message \<Rightarrow> tval \<Rightarrow> bool" where
  "opened_here E K msg d \<longleftrightarrow> is_compute E \<and> own_id E \<in> set (peers_of (rk_peers K) d) \<and>
     (\<exists>h b pub_key. content_as (rk_req K) msg = Some (h, b) \<and> smap_lookup (exten_info h) ''pub_key'' = Some pub_key \<and>
        open_request E (rk_data K) pub_key b = Inr (Some d))"

lemma run_request_ok:
  assumes "run_request E K h d s = (x, s')" "\<not> tasks_kept (svc_tm s) (svc_tm s')"
  shows "\<exists>role w. entitled E (params_of (rk_peers K) (rk_session K) d) (svc_tm s) role w \<and> (rk_renters_only K \<longrightarrow> role = WalletRenter \<or> role = SessionIdRenter)"
proof -
  obtain y s1 where a: "check_authority E (params_of (rk_peers K) (rk_session K) d) s = (y, s1)" by (cases "check_authority E (params_of (rk_peers K) (rk_session K) d) s")
  note ok = check_authority_ok [OF a]
  show ?thesis
  proof (cases y)
    case (Inl f)
    then show ?thesis using assms ok a by (auto simp: run_request_def mbind_def)
  next
    case (Inr r)
    have "ar_success r"
    proof (rule ccontr)
      assume n: "\<not> ar_success r"
      with assms(1) a Inr have "send_response_error E (rk_rsp K) h E_DEFAULT (''check authority failed: '' @ ar_errmsg r) s1 = (x, s')"
        by (simp add: run_request_def mbind_def refused_def)
      then have "svc_tm s' = svc_tm s1" by (rule silentD(1) [OF silent_answers(4)])
      then show False using ok n Inr assms(2) by simp
    qed
    moreover have "\<not> refused K r"
    proof
      assume n: "refused K r"
      with assms(1) a Inr have e: "send_response_error E (rk_rsp K) h E_DEFAULT (''check authority failed: '' @ ar_errmsg r) s1 = (x, s')"
        by (simp add: run_request_def mbind_def)
      then have "svc_tm s' = svc_tm s1" by (rule silentD(1) [OF silent_answers(4)])
      moreover have "ar_user_role r = Verifier" using n ok Inr \<open>ar_success r\<close> by (auto simp: refused_def entitled_def)
      ultimately show False using ok Inr assms(2) \<open>ar_success r\<close> by simp
    qed
    ultimately show ?thesis using ok Inr by (cases "ar_user_role r") (auto simp: refused_def)
  qed
qed

lemma on_node_req_ok:
  assumes "on_node_req E K sid msg s = (x, s')" "\<not> tasks_kept (svc_tm s) (svc_tm s')"
  shows "\<exists>d role w. opened_here E K msg d \<and> entitled E (params_of (rk_peers K) (rk_session K) d) (svc_tm s) role w \<and>
     (rk_renters_only K \<longrightarrow> role = WalletRenter \<or> role = SessionIdRenter)"
proof (cases "content_as (rk_req K) msg")
  case (Some hb)
  obtain h b where hb: "hb = (h, b)" by (cases hb)
  let ?fwd = "forward_request E sid msg (rk_req K) h b" and ?pk = "case smap_lookup (exten_info h) ''pub_key'' of Some k \<Rightarrow> k | None \<Rightarrow> []"
  obtain y s1 where n: "check_req_header_nonce E (nonce h) s = (y, s1)" by (cases "check_req_header_nonce E (nonce h) s")
  note t = header_nonce_ok(1) [OF n]
  have silent: "svc_tm s' \<noteq> svc_tm s1" using assms(2) t by auto
  have no: "\<not> (silent m \<and> m s1 = (x, s'))" for m :: "('a svc, unit) M" using silentD(1) [of m s1 x s'] silent by auto
  have e: "on_node_req E K sid msg s = (case y of Inl f \<Rightarrow> (Inl f, s1) | Inr fresh \<Rightarrow> (if \<not> fresh then mret () else if \<not> is_compute E then ?fwd
         else case check_req_header E h of Inl f \<Rightarrow> mfail f | Inr False \<Rightarrow> ?fwd
         | Inr True \<Rightarrow> if ?pk = [] \<or> conf_priv_key E = [] then ?fwd
             else case open_request E (rk_data K) ?pk b of Inl f \<Rightarrow> mfail f | Inr None \<Rightarrow> ?fwd
             | Inr (Some d) \<Rightarrow> if hit_node (peers_of (rk_peers K) d) (own_id E) then run_request E K h d else ?fwd) s1)"
    unfolding on_node_req_def Some hb option.case prod.case Let_def by (cases y) (simp_all only: mbind_def n prod.case sum.case)
  note q = silent_steps(1,2) silent_answers(5)
  from assms(1) e no q silent obtain d where d: "is_compute E" "?pk \<noteq> []" "open_request E (rk_data K) ?pk b = Inr (Some d)" "own_id E \<in> set (peers_of (rk_peers K) d)"
    "run_request E K h d s1 = (x, s')"
    by (auto simp: hit_node_def split: sum.splits if_splits bool.splits option.splits)
  then have "opened_here E K msg d" by (auto simp: opened_here_def Some hb split: option.splits)
  with run_request_ok [OF d(5)] assms(2) t show ?thesis by metis
qed (use assms in \<open>simp add: on_node_req_def mret_def\<close>)

section \<open>Properties\<close>


lemma try_filter:
  "try_verifier E w r s = (x, s') \<Longrightarrow> svc_filter s' = svc_filter s" "try_renter E w sg r s = (y, s') \<Longrightarrow> svc_filter s' = svc_filter s"
  by (auto simp: try_verifier_def try_renter_def Let_def in_tm_def mlift_def mbind_def mret_def split: if_splits prod.splits sum.splits)

lemma try_bind_filter:
  "mbind (try_verifier E a r) (try_verifier E b) s = (x, s') \<Longrightarrow> svc_filter s' = svc_filter s"
  "mbind (try_renter E a sg r) (try_renter E b sg') s = (y, s') \<Longrightarrow> svc_filter s' = svc_filter s"
  by (auto simp: mbind_def dest: try_filter split: prod.splits sum.splits) (metis try_filter)+

lemma parse_wallet_single:
  assumes "ap_multisig_signs p = []" "check_nonce E (ap_wallet p) (ap_nonce p) (ap_sign p) s = (r1, s1)"
  shows "parse_wallet E p s = ((if fst r1 = ERR_SUCCESS then ap_wallet p else [], []), s1)"
  using assms by (simp add: parse_wallet_def check_nonce_multisig_def)

lemma check_nonce_once:
  assumes "check_nonce E w n sg s = (r, s1)" "fst r = ERR_SUCCESS"
  shows "n \<noteq> [] \<and> \<not> fst (filter_contains n (svc_filter s)) \<and> svc_filter s1 = filter_insert n (svc_filter s)"
  using assms by (auto simp: check_nonce_def filter_contains_def split: if_splits)

text \<open>With one wallet only, success without a session means that the nonce was new and is now recorded.\<close>

lemma success_records:
  assumes "check_authority E p s = (Inr r, s')" "ar_success r" "ar_user_role r \<noteq> SessionIdRenter" "ap_multisig_signs p = []"
  shows "ap_nonce p \<noteq> [] \<and> \<not> fst (filter_contains (ap_nonce p) (svc_filter s)) \<and> svc_filter s' = filter_insert (ap_nonce p) (svc_filter s)"
proof -
  let ?d = "s\<lparr>svc_tm := deleteAllCheckTasks (tenv E) (svc_tm s)\<rparr>"
  have key: ?thesis
    if f: "svc_filter t = svc_filter s" and c: "check_nonce E (ap_wallet p) (ap_nonce p) (ap_sign p) t = (r1, s1)" and k: "fst r1 = ERR_SUCCESS" and e: "svc_filter s' = svc_filter s1" for t r1 s1
    using check_nonce_once [OF c k] f e by simp
  show ?thesis
  proof (cases "chain_machine_status (tenv E) (host (tvm (svc_tm s)))")
    case MS_Verify
    obtain r1 s1 where c: "check_nonce E (ap_wallet p) (ap_nonce p) (ap_sign p) s = (r1, s1)" by (cases "check_nonce E (ap_wallet p) (ap_nonce p) (ap_sign p) s")
    from MS_Verify assms(1,2) show ?thesis
      by (intro key [OF _ c]) (auto simp: check_authority_def authority_verify_def parse_wallet_single [OF assms(4) c] Let_def new_result_def dest: try_bind_filter split: if_splits)
  next
    case MS_Rented
    obtain r1 s1 where c: "check_nonce E (ap_wallet p) (ap_nonce p) (ap_sign p) ?d = (r1, s1)" by (cases "check_nonce E (ap_wallet p) (ap_nonce p) (ap_sign p) ?d")
    from MS_Rented assms(1,2,3) show ?thesis
      by (intro key [OF _ c]) (auto simp: check_authority_def authority_rented_def parse_wallet_single [OF assms(4) c] Let_def new_result_def dest: try_bind_filter split: if_splits)
  qed (use assms in \<open>auto simp: check_authority_def new_result_def\<close>)
qed

text \<open>(C18) A signed nonce is good once: when a wallet has been let in by its signature on a nonce, the same request is refused
  as long as the filter remembers the nonce, for as many further nonces as the filter was built for, whatever else
  has happened to the node; only a valid session would still open the door.\<close>

theorem signed_nonce_good_once:
  assumes "wf_filter n (svc_filter s)" "check_authority E p s = (Inr r, s')" "ar_success r" "ar_user_role r \<noteq> SessionIdRenter" "ap_multisig_signs p = []"
    and "svc_filter t = filter_run later (svc_filter s')" "length later < n" "check_authority E p t = (Inr r2, t')" "ar_success r2"
  shows "ar_user_role r2 = SessionIdRenter"
proof (rule ccontr)
  assume no: "ar_user_role r2 \<noteq> SessionIdRenter"
  let ?x = "ap_nonce p" and ?f = "filter_insert (ap_nonce p) (svc_filter s)"
  from success_records [OF assms(2-5)] have x: "?x \<noteq> []" "svc_filter s' = ?f" by simp_all
  have wf: "wf_filter n ?f" by (rule wf_filter_insert [OF assms(1)])
  have "length later + (n - 1 - length later) = n - 1" using assms(7) by simp
  then have "remembers n (filter_run later ?f) ?x (n - 1 - length later)"
    using insert_remembers [OF assms(1) x(1)] by (intro filter_run_remembers [OF wf]) simp
  from remembers_contains [OF filter_run_wf [OF wf] this x(1)] have "fst (filter_contains ?x (svc_filter t))" by (simp add: assms(6) x(2))
  with success_records [OF assms(8,9) no assms(5)] show False by simp
qed

text \<open>(C38) The threshold of an account with several signers counts signatures, not signers: one wallet of the group that
  signs as many different new nonces as the threshold asks for is accepted for the whole group.\<close>

theorem one_signer_fills_threshold:
  assumes "w \<in> set wallets" "0 < sint th" "nat (sint th) \<le> length wallets" "length its = nat (sint th)" "distinct (map si_nonce its)"
    and "\<forall>it\<in>set its. si_wallet it = w \<and> si_nonce it \<noteq> [] \<and> si_sign it \<noteq> [] \<and> verify_sign (sign_env (tenv E)) (si_sign it) (si_nonce it) w"
    and "\<forall>it\<in>set its. si_nonce it \<notin> fst ` set (keys (m_lru (svc_filter s)))"
  shows "\<exists>s'. check_nonce_multisig E wallets th its s = (FResultOk, s')"
proof -
  have "\<exists>s'. check_signs E wallets its s = (FResultOk, s')"
    using assms(5-7)
  proof (induction its arbitrary: s)
    case (Cons it its)
    have f: "filter_contains (si_nonce it) (svc_filter s) = (False, filter_insert (si_nonce it) (svc_filter s))"
      using Cons.prems(2,3) by (auto simp: filter_contains_def lru_contains_def)
    have "\<exists>s'. check_signs E wallets its (s\<lparr>svc_filter := filter_insert (si_nonce it) (svc_filter s)\<rparr>) = (FResultOk, s')"
    proof (rule Cons.IH)
      show "\<forall>i\<in>set its. si_nonce i \<notin> fst ` set (keys (m_lru (svc_filter (s\<lparr>svc_filter := filter_insert (si_nonce it) (svc_filter s)\<rparr>))))"
      proof
        fix i assume i: "i \<in> set its"
        have "si_nonce i \<noteq> si_nonce it" using Cons.prems(1) imageI [OF i, of si_nonce] by auto
        moreover have "si_nonce i \<notin> fst ` set (keys (m_lru (svc_filter s)))" using Cons.prems(3) i by simp
        ultimately have "si_nonce i \<notin> fst ` set (keys (m_lru (filter_insert (si_nonce it) (svc_filter s))))"
          using filter_insert_keys [of "si_nonce it" "svc_filter s"] by blast
        then show "si_nonce i \<notin> fst ` set (keys (m_lru (svc_filter (s\<lparr>svc_filter := filter_insert (si_nonce it) (svc_filter s)\<rparr>))))" by simp
      qed
    qed (use Cons.prems in simp_all)
    then show ?case using Cons.prems(2) assms(1) f by simp
  qed simp
  then show ?thesis using assms(1-4) by (auto simp: check_nonce_multisig_def)
qed

text \<open>(C21) A request travels on and is looked at once: a node that does not compute passes a request with a new nonce to
  all other channels, its own id behind the path and the data unopened, without touching its tasks; a copy of the request that
  arrives again, over any channel, is dropped without any effect as long as the filter remembers its nonce.\<close>

theorem requests_relayed_once:
  assumes "wf_filter n (svc_filter s)" "content_as (rk_req K) msg = Some (h, b)" "check_req_header_nonce E (nonce h) s = (Inr True, s1)"
    and "\<not> is_compute E" "svc_filter t = filter_run later (svc_filter s1)" "length later < n"
  shows "on_node_req E K sid msg s = mbind (in_svc_net (Connection_Manager.broadcast_message
           (msg\<lparr>message_content := Some (Msg_body (rk_req K) (h\<lparr>path := path h @ [own_id E]\<rparr>) b)\<rparr>) sid)) (\<lambda>_. mret ()) s1 \<and>
         svc_tm (snd (on_node_req E K sid msg s)) = svc_tm s \<and> on_node_req E K sid' msg t = (Inr (), t)"
proof (intro conjI)
  note ok = header_nonce_ok [OF assms(3)]
  have x: "nonce h \<noteq> []" "check_id (hash_scratch (tenv E)) (nonce h) = Inr True" "svc_filter s1 = filter_insert (nonce h) (svc_filter s)" using ok(2) by auto
  have e: "on_node_req E K sid msg s = forward_request E sid msg (rk_req K) h b s1"
    using assms(2-4) by (simp add: on_node_req_def mbind_def Let_def)
  then show "on_node_req E K sid msg s = mbind (in_svc_net (Connection_Manager.broadcast_message
     (msg\<lparr>message_content := Some (Msg_body (rk_req K) (h\<lparr>path := path h @ [own_id E]\<rparr>) b)\<rparr>) sid)) (\<lambda>_. mret ()) s1"
    by (simp add: forward_request_def)
  show "svc_tm (snd (on_node_req E K sid msg s)) = svc_tm s" unfolding e using silent_answers(5) ok(1) by (metis silent_def)
  have wf: "wf_filter n (svc_filter s1)" using wf_filter_insert [OF assms(1)] x(3) by simp
  have "length later + (n - 1 - length later) = n - 1" using assms(6) by simp
  then have "remembers n (filter_run later (svc_filter s1)) (nonce h) (n - 1 - length later)"
    using insert_remembers [OF assms(1) x(1)] x(3) by (intro filter_run_remembers [OF wf]) simp
  from remembers_contains [OF filter_run_wf [OF wf] this x(1)] have "filter_contains (nonce h) (svc_filter t) = (True, svc_filter t)" by (simp add: assms(5))
  then show "on_node_req E K sid' msg t = (Inr (), t)" using assms(2) x(1,2) by (simp add: on_node_req_def mbind_def check_req_header_nonce_def mret_def Let_def)
qed

text \<open>(C37) Before any check of authority, at a computing node: a request with a well-formed header whose sealed
  data decodes to fewer than 24 bytes, or whose public key has an odd number of digits, leads to undefined behaviour: the
  lengths of the copies wrap around, or a byte is written behind an array.\<close>

theorem malformed_request_undefined:
  assumes "K \<in> set (request_kinds E)" "content_as (rk_req K) msg = Some (h, b)" "check_req_header_nonce E (nonce h) s = (Inr True, s1)" "is_compute E"
    and "check_req_header E h = Inr True" "smap_lookup (exten_info h) ''pub_key'' = Some pub_key" "pub_key \<noteq> []" "conf_priv_key E \<noteq> []"
    and "odd (length pub_key) \<or> length (base64_decode (get_string (get_member S_string 0 (get_member (S_struct [(1, Required, S_string)]) 0 b)))) < 24"
  shows "on_node_req E K sid msg s = (Inl Undefined_behaviour, s1)"
proof -
  have "key_pair pub_key (conf_priv_key E) = Inl Undefined_behaviour \<or> (\<exists>a c. key_pair pub_key (conf_priv_key E) = Inr (a, c))"
    by (auto simp: key_pair_def HexStrToByte_def)
  moreover have "key_pair pub_key (conf_priv_key E) = Inl Undefined_behaviour" if "odd (length pub_key)"
    using that by (simp add: key_pair_def HexStrToByte_def)
  ultimately have "open_request E (rk_data K) pub_key b = Inl Undefined_behaviour"
    using assms(9) by (auto simp: open_request_def decrypt_data_def box_sizes Let_def)
  with assms(2-8) show ?thesis by (simp add: on_node_req_def mbind_def Let_def mfail_def)
qed

lemma poweroff_served:
  assumes "content_as ''node_poweroff_task_req'' msg = Some (h, b)" "check_req_header_nonce E (nonce h) s = (Inr True, s1)" "is_compute E"
    and "check_req_header E h = Inr True" "smap_lookup (exten_info h) ''pub_key'' = Some pub_key" "pub_key \<noteq> []" "conf_priv_key E \<noteq> []"
    and "open_request E node_poweroff_task_req_data pub_key b = Inr (Some d)" "own_id E \<in> set (peers_of 1 d)"
    and "chain_machine_status (tenv E) (host (tvm (svc_tm s))) = MS_Rented" "tm1 = deleteAllCheckTasks (tenv E) (svc_tm s)"
    and "checkSessionId (tenv E) (ap_session_id (params_of 1 True d)) (ap_session_id_sign (params_of 1 True d)) tm1 = w" "w \<noteq> []"
    and "0 < sint (chain_rent_end (tenv E) (host (tvm tm1)) w)"
    and "getTaskInfo (task_id_of d) tm1 = Some t" "IsExistDomain (tenv E) (task_id_of d) (tvm tm1)" "domain_status (tenv E) (task_id_of d) tm1 \<noteq> VIR_DOMAIN_SHUTOFF"
  shows "m_events (svc_tm (snd (on_node_req E (poweroff_task_kind E) sid msg s))) = m_events (svc_tm s) @ [PowerOffTaskEvent (task_id_of d)] \<and>
         status_of (task_id_of d) (svc_tm (snd (on_node_req E (poweroff_task_kind E) sid msg s))) = Some TS_Task_BeingPoweroff"
proof -
  let ?K = "poweroff_task_kind E" and ?i = "task_id_of d" and ?s2 = "s1\<lparr>svc_tm := tm1\<rparr>"
  have K: "rk_req ?K = ''node_poweroff_task_req''" "rk_data ?K = node_poweroff_task_req_data" "rk_peers ?K = 1" "rk_session ?K" "\<not> rk_renters_only ?K" "rk_domains ?K = None" "rk_act ?K = task_poweroff E"
    by (simp_all add: poweroff_task_kind_def kind_def)
  have t1: "svc_tm s1 = svc_tm s" by (rule header_nonce_ok(1) [OF assms(2)])
  have "on_node_req E ?K sid msg s = run_request E ?K h d s1"
    using assms(1-9) by (simp add: on_node_req_def K mbind_def Let_def hit_node_def)
  moreover obtain r where r: "check_authority E (params_of 1 True d) s1 = (Inr r, ?s2)" "ar_success r" "ar_rent_wallet r = w"
    using assms(10-14) t1 by (simp add: check_authority_def authority_rented_def Let_def)
  have po: "poweroffTask (tenv E) w ?i tm1 = (FResultOk, pushTaskEvent (PowerOffTaskEvent ?i) (setTaskStatus ?i TS_Task_BeingPoweroff tm1))"
    using assms(15-17) by (simp add: poweroffTask_def with_task_def accept_event_def Let_def)
  ultimately have "on_node_req E ?K sid msg s = task_poweroff E h d r ?s2"
    using K r by (simp add: run_request_def mbind_def refused_def)
  also have "\<dots> = send_response_ok E ''node_poweroff_task_rsp'' h (?s2\<lparr>svc_tm := pushTaskEvent (PowerOffTaskEvent ?i) (setTaskStatus ?i TS_Task_BeingPoweroff tm1)\<rparr>)"
    using po r(3) by (simp add: task_poweroff_def do_and_reply_def mbind_def in_tm_def mlift_def FResultOk_def)
  finally have "svc_tm (snd (on_node_req E ?K sid msg s)) = pushTaskEvent (PowerOffTaskEvent ?i) (setTaskStatus ?i TS_Task_BeingPoweroff tm1)"
    using silent_answers(3) [of E "''node_poweroff_task_rsp''" h] by (simp add: silent_def)
  moreover have "m_events tm1 = m_events (svc_tm s)" using check_tasks_kept(1) [of "svc_tm s" "tenv E"] assms(11) by (simp add: tasks_kept_def)
  ultimately show ?thesis using assms(15) by (simp add: pushTaskEvent_def setTaskStatus_def upd_info_def status_of_def getTaskInfo_def)
qed

text \<open>(C20) The holder of a session is served: a sealed request to power off a task, with the signed id of a session of the renter, puts the
  event into the queue and the task into its transitional status, whatever becomes of the answer; the
  task need not be one of the wallet's own.\<close>

theorem session_holder_served:
  assumes "content_as ''node_poweroff_task_req'' msg = Some (h, b)" "check_req_header_nonce E (nonce h) s = (Inr True, s1)" "is_compute E"
    and "check_req_header E h = Inr True" "smap_lookup (exten_info h) ''pub_key'' = Some pub_key" "pub_key \<noteq> []" "conf_priv_key E \<noteq> []"
    and "open_request E node_poweroff_task_req_data pub_key b = Inr (Some d)" "own_id E \<in> set (peers_of 1 d)"
    and "chain_machine_status (tenv E) (host (tvm (svc_tm s))) = MS_Rented" "tm1 = deleteAllCheckTasks (tenv E) (svc_tm s)"
    and "checkSessionId (tenv E) (ap_session_id (params_of 1 True d)) (ap_session_id_sign (params_of 1 True d)) tm1 = w" "w \<noteq> []"
    and "0 < sint (chain_rent_end (tenv E) (host (tvm tm1)) w)"
    and "getTaskInfo (task_id_of d) tm1 = Some t" "IsExistDomain (tenv E) (task_id_of d) (tvm tm1)" "domain_status (tenv E) (task_id_of d) tm1 \<noteq> VIR_DOMAIN_SHUTOFF"
  shows "m_events (svc_tm (snd (on_node_req E (poweroff_task_kind E) sid msg s))) = m_events (svc_tm s) @ [PowerOffTaskEvent (task_id_of d)] \<and>
         status_of (task_id_of d) (svc_tm (snd (on_node_req E (poweroff_task_kind E) sid msg s))) = Some TS_Task_BeingPoweroff"
  by (rule poweroff_served [OF assms])

text \<open>What \<open>read_data\<close> makes of the encoding of an object.\<close>

lemma read_data_encoded:
  assumes "fits (\<lambda>_. True) spec v" "bin.enc_value spec v \<noteq> []" "length (bin.enc_value spec v) < 10485760"
  shows "read_data spec (bin.enc_value spec v) = Inr (Some (norm_value spec v))"
proof -
  let ?bs = "bin.enc_value spec v"
  from bb.write_room [of "new_buf DEFAULT_BUF_LEN True" ?bs] assms(2,3) new_buf_default_wf [of True] obtain b where
    b: "write_to_byte_buf ?bs (new_buf DEFAULT_BUF_LEN True) = (Inr (of_nat (length ?bs)), b)" "wf_buf b" "content b = ?bs"
    by (auto simp: buf_room_def)
  have "bin_st [0] (binary_protocol_ctor b)" "bin_cont (binary_protocol_ctor b) = ?bs @ []"
    using b(2,3) by (simp_all add: bin_st_def bin_cont_def binary_protocol_ctor_def)
  from bin_cs.readsD [OF bin.value_reads [OF assms(1) refl] this] b(1) show ?thesis by (auto simp: read_data_def)
qed

text \<open>The message of a request with sealed data.\<close>

definition sealed_body :: "string \<Rightarrow> tval" where
  "sealed_body x = V_struct [Some (V_struct [Some (V_string x)])]"

lemma sealed_body_data: "get_string (get_member S_string 0 (get_member t 0 (sealed_body x))) = x"
  by (simp add: sealed_body_def get_member_def get_string_def)

text \<open>(C19) A request reaches the node it is sealed for: the data of a request, written by the binary protocol and
  sealed with the public key of the node, is what the node reads after opening it with its own key and
  the public key in the header, for every class of data.\<close>

theorem sealed_request_opens:
  assumes "box_law (boxes E) pair" "key_pair pub_b priv_a = Inr (pb, sa)" "key_pair pub_a (conf_priv_key E) = Inr (pa, sb)" "pair pa sa" "pair pb sb"
    and "fits (\<lambda>_. True) spec v" "bin.enc_value spec v \<noteq> []" "length (bin.enc_value spec v) < 10485760"
  shows "\<exists>x. encrypt_data (boxes E) (bin.enc_value spec v) pub_b priv_a = Inr x \<and> open_request E spec pub_a (sealed_body x) = Inr (Some (norm_value spec v))"
  using seal_opens [OF assms(1-5), of "bin.enc_value spec v"] read_data_encoded [OF assms(6-8)] assms(7)
  by (auto simp: open_request_def sealed_body_data)

section \<open>Witnesses\<close>

text \<open>A node \<open>me\<close> on a machine that \<open>alice\<close> has rented and where \<open>bob\<close> still has a task; \<open>alice\<close> holds the session \<open>s1\<close>.\<close>

definition toy_svc_env :: "bool \<Rightarrow> toy svc_env" where
  "toy_svc_env c = \<lparr>tenv = (toy_env MS_Rented)\<lparr>sign_env := sample_p2p_env ''me''\<rparr>, is_compute = c, conf_priv_key = replicate 64 CHR ''b'', conf_pub_key = replicate 64 CHR ''a'',
     boxes = plain_box, create_multisig_account = (\<lambda>ws n. None), format_time = (\<lambda>t. []), after_sleep = (\<lambda>h. h)\<rparr>"

definition toy_session :: wallet_session where
  "toy_session = \<lparr>ws_wallet = ''alice'', ws_session_id = ''s1'', ws_signers = []\<rparr>"

definition toy_svc :: "toy svc" where
  "toy_svc = \<lparr>svc_filter = new_filter 4 2 128 7, svc_tm = (toy_two TS_Task_Running)\<lparr>m_sessionid_wallet := [(''s1'', toy_session)]\<rparr>, svc_net = sample_mgr\<rparr>"

definition toy_sign :: "string \<Rightarrow> string \<Rightarrow> string" where
  "toy_sign w t = with_0x w @ to_hex t"

lemma toy_svc_simps:
  "sign_env (tenv (toy_svc_env c)) = sample_p2p_env ''me''" "is_compute (toy_svc_env c) = c" "conf_priv_key (toy_svc_env c) = replicate 64 CHR ''b''" "boxes (toy_svc_env c) = plain_box"
  "own_id (toy_svc_env c) = ''me''" "verify_sign (sample_p2p_env i) (toy_sign w t) t w" "length (hash_scratch (tenv (toy_svc_env c))) = 64"
  "chain_machine_status (tenv (toy_svc_env c)) h = MS_Rented" "chain_rent_end (tenv (toy_svc_env c)) h w = (if w = ''alice'' then 1000 else 0)"
  "svc_filter toy_svc = new_filter 4 2 128 7" "keys (m_lru (new_filter n k b r)) = []"
  by (simp_all add: toy_svc_env_def own_id_def sample_p2p_simps verify_sign_def toy_sign_def sample_p2p_env_def toy_env_def toy_svc_def new_filter_def new_lru_def)

theorem one_signer_fills_threshold_witness:
  "\<exists>s'. check_nonce_multisig (toy_svc_env True) [''alice'', ''bob''] 2
     [\<lparr>si_wallet = ''bob'', si_nonce = ''n1'', si_sign = toy_sign ''bob'' ''n1''\<rparr>, \<lparr>si_wallet = ''bob'', si_nonce = ''n2'', si_sign = toy_sign ''bob'' ''n2''\<rparr>] toy_svc = (FResultOk, s')"
  by (rule one_signer_fills_threshold [of "''bob''"]) (simp_all add: toy_svc_simps, simp_all add: toy_sign_def with_0x_def)

theorem sealed_request_opens_witness:
  "\<exists>x. encrypt_data plain_box (bin.enc_value ver_req sample_ver_req) (replicate 64 CHR ''a'') (replicate 64 CHR ''b'') = Inr x \<and>
     open_request (toy_svc_env True) ver_req (replicate 64 CHR ''a'') (sealed_body x) = Inr (Some sample_ver_req)"
proof -
  have "bin.enc_value ver_req sample_ver_req \<noteq> []" by (simp add: ver_req_defs)
  with sealed_request_opens [of "toy_svc_env True", OF _ sample_keys, of "\<lambda>p k. True" "replicate 64 CHR ''a''" _ _ ver_req sample_ver_req]
    sample_ver_req_length sample_ver_req_ok plain_box_law sample_keys show ?thesis by (simp add: toy_svc_simps)
qed

text \<open>Some id that passes, and the header with it.\<close>

definition toy_header :: "string \<Rightarrow> base_header" where
  "toy_header n = empty_header\<lparr>nonce := n, session_id := n, path := [''a''], exten_info := [(''pub_key'', replicate 64 CHR ''a'')]\<rparr>"

definition toy_message :: "string \<Rightarrow> string \<Rightarrow> tval message" where
  "toy_message n x = \<lparr>message_name = ''node_poweroff_task_req'', message_content = Some (Msg_body ''node_poweroff_task_req'' (toy_header n) (sealed_body x))\<rparr>"

lemma toy_message_simps:
  "content_as ''node_poweroff_task_req'' (toy_message n x) = Some (toy_header n, sealed_body x)" "content_as (rk_req (poweroff_task_kind E)) (toy_message n x) = Some (toy_header n, sealed_body x)"
  "nonce (toy_header n) = n" "smap_lookup (exten_info (toy_header n)) ''pub_key'' = Some (replicate 64 CHR ''a'')"
  by (simp_all add: toy_message_def toy_header_def content_as_def smap_lookup_def poweroff_task_kind_def kind_def)

lemma toy_id:
  obtains n where "check_id (replicate 64 0) n = Inr True" "n \<noteq> []"
proof -
  obtain n where n: "create_nonce (scratch (sample_p2p_env [])) (uuid (sample_p2p_env [])) = Inr n" by (rule sample_nonce)
  have "check_id (replicate 64 0) n = Inr True" by (rule nonce_checks [OF _ _ n]) (simp_all add: sample_p2p_simps)
  moreover have "DecodeBase58 [] = Inr (Some [])" by code_simp
  then have "check_id b [] \<noteq> Inr True" for b by (simp add: check_id_def DecodeBase58Check_def)
  ultimately show thesis using that by metis
qed

lemma toy_checks:
  assumes "check_id (replicate 64 0) n = Inr True" "n \<noteq> []"
  shows "check_req_header_nonce (toy_svc_env c) n toy_svc = (Inr True, toy_svc\<lparr>svc_filter := filter_insert n (new_filter 4 2 128 7)\<rparr>)"
    "check_req_header (toy_svc_env c) (toy_header n) = Inr True"
proof -
  have "hash_scratch (tenv (toy_svc_env c)) = replicate 64 0" by (simp add: toy_svc_env_def toy_env_def)
  with assms show "check_req_header_nonce (toy_svc_env c) n toy_svc = (Inr True, toy_svc\<lparr>svc_filter := filter_insert n (new_filter 4 2 128 7)\<rparr>)"
    "check_req_header (toy_svc_env c) (toy_header n) = Inr True"
    by (simp_all add: check_req_header_nonce_def check_req_header_def toy_message_simps toy_svc_simps filter_contains_def lru_contains_def) (simp add: toy_header_def smap_lookup_def)
qed

theorem requests_relayed_once_witness:
  "\<exists>n. let E = toy_svc_env False; K = poweroff_task_kind E; msg = toy_message n ''x''; s1 = toy_svc\<lparr>svc_filter := filter_insert n (new_filter 4 2 128 7)\<rparr> in
     check_id (replicate 64 0) n = Inr True \<and> svc_tm (snd (on_node_req E K (Socket_id SERVER_SOCKET 1) msg toy_svc)) = svc_tm toy_svc \<and>
     on_node_req E K (Socket_id CLIENT_SOCKET 2) msg s1 = (Inr (), s1)"
proof -
  obtain n where n: "check_id (replicate 64 0) n = Inr True" "n \<noteq> []" by (rule toy_id)
  let ?s = "toy_svc\<lparr>svc_filter := filter_insert n (new_filter 4 2 128 7)\<rparr>"
  from requests_relayed_once [of 4 toy_svc "poweroff_task_kind (toy_svc_env False)" "toy_message n ''x''" "toy_header n" "sealed_body ''x''" "toy_svc_env False" ?s ?s "[]"
      "Socket_id SERVER_SOCKET 1" "Socket_id CLIENT_SOCKET 2", THEN conjunct2]
  show ?thesis using n by (intro exI [of _ n]) (simp add: toy_message_simps toy_svc_simps toy_checks wf_new_filter filter_run_def Let_def)
qed

theorem malformed_request_undefined_witness:
  "\<exists>n. on_node_req (toy_svc_env True) (poweroff_task_kind (toy_svc_env True)) (Socket_id SERVER_SOCKET 1) (toy_message n ''AAAA'') toy_svc =
     (Inl Undefined_behaviour, toy_svc\<lparr>svc_filter := filter_insert n (new_filter 4 2 128 7)\<rparr>)"
proof -
  obtain n where n: "check_id (replicate 64 0) n = Inr True" "n \<noteq> []" by (rule toy_id)
  have "length (base64_decode ''AAAA'') < 24" by code_simp
  then show ?thesis
    using malformed_request_undefined [of "poweroff_task_kind (toy_svc_env True)" "toy_svc_env True" "toy_message n ''AAAA''" "toy_header n" "sealed_body ''AAAA''" toy_svc] n
    by (intro exI [of _ n]) (simp add: toy_message_simps toy_svc_simps toy_checks sealed_body_data request_kinds_def)
qed

text \<open>The request of \<open>alice\<close> to power off the task of \<open>bob\<close>.\<close>

definition toy_request :: tval where
  "toy_request = V_struct [Some (V_string ''t2''), Some (V_list [V_string ''me'']), Some (V_string []), Some (V_string []), Some (V_string []), Some (V_string []),
     Some (V_list []), Some (V_i32 0), Some (V_list []), Some (V_string ''s1''), Some (V_string (toy_sign ''alice'' ''s1''))]"

lemmas toy_request_defs = toy_request_def node_poweroff_task_req_data_def multisig_sign_item_def member_written_def member_value_def member_spec_def

lemma toy_request_ok:
  "fits mok node_poweroff_task_req_data toy_request" "norm_value node_poweroff_task_req_data toy_request = toy_request"
  "bin.enc_value node_poweroff_task_req_data toy_request \<noteq> []" "length (bin.enc_value node_poweroff_task_req_data toy_request) < 10485760"
  by (simp_all add: toy_request_defs toy_sign_def with_0x_def to_hex_def Let_def bin_encString_def ttype_of_def member_id_def)

lemma toy_request_members:
  "task_id_of toy_request = ''t2''" "peers_of (Suc 0) toy_request = [''me'']" "ap_session_id (params_of (Suc 0) True toy_request) = ''s1''"
  "ap_session_id_sign (params_of (Suc 0) True toy_request) = toy_sign ''alice'' ''s1''"
  by (simp_all add: toy_request_def task_id_of_def peers_of_def params_of_def get_member_def get_string_def get_list_def Let_def)

lemma toy_sealed:
  obtains x where "open_request (toy_svc_env True) node_poweroff_task_req_data (replicate 64 CHR ''a'') (sealed_body x) = Inr (Some toy_request)"
proof -
  from seal_opens [OF plain_box_law sample_keys sample_keys, of "\<lambda>p k. True" "bin.enc_value node_poweroff_task_req_data toy_request"]
  obtain x where "decrypt_data plain_box x (replicate 64 CHR ''a'') (replicate 64 CHR ''b'') = Inr (Some (bin.enc_value node_poweroff_task_req_data toy_request))" by auto
  with read_data_encoded [OF toy_request_ok(1,3,4)] toy_request_ok(2,3) show thesis
    by (intro that [of x]) (simp add: open_request_def toy_svc_simps sealed_body_data)
qed

lemma toy_no_checks: "deleteAllCheckTasks E (svc_tm toy_svc) = svc_tm toy_svc"
  by (simp add: deleteAllCheckTasks_def toy_svc_def toy_two_def toy_tm_def is_check_task_def)

lemma toy_session_signed: "checkSessionId (tenv (toy_svc_env c)) ''s1'' (toy_sign ''alice'' ''s1'') (svc_tm toy_svc) = ''alice''"
  by (simp add: checkSessionId_def toy_svc_simps) (simp add: toy_svc_def getWalletSessionBySessionId_def smap_lookup_def toy_session_def toy_svc_simps, simp add: toy_sign_def with_0x_def)

lemma toy_bob:
  "getTaskInfo ''t2'' (svc_tm toy_svc) = Some (toy_info ''t2'' TS_Task_Running)" "IsExistDomain (tenv (toy_svc_env c)) ''t2'' (tvm (svc_tm toy_svc))"
  "domain_status (tenv (toy_svc_env c)) ''t2'' (svc_tm toy_svc) \<noteq> VIR_DOMAIN_SHUTOFF" "m_events (svc_tm toy_svc) = []"
  by (simp_all add: toy_svc_def toy_two_def toy_tm_def getTaskInfo_def smap_lookup_def IsExistDomain_def domain_status_def GetDomainStatus_def toy_svc_env_def toy_env_def)

text \<open>The premises of \<open>poweroff_served\<close> for the request.\<close>

lemmas toy_served_simps = toy_message_simps toy_svc_simps toy_checks toy_request_members toy_no_checks toy_session_signed toy_bob

theorem session_holder_served_witness:
  "\<exists>n x. let s' = svc_tm (snd (on_node_req (toy_svc_env True) (poweroff_task_kind (toy_svc_env True)) (Socket_id SERVER_SOCKET 1) (toy_message n x) toy_svc)) in
     m_events s' = [PowerOffTaskEvent ''t2''] \<and> status_of ''t2'' s' = Some TS_Task_BeingPoweroff"
proof -
  obtain n where n: "check_id (replicate 64 0) n = Inr True" "n \<noteq> []" by (rule toy_id)
  obtain x where "open_request (toy_svc_env True) node_poweroff_task_req_data (replicate 64 CHR ''a'') (sealed_body x) = Inr (Some toy_request)" by (rule toy_sealed)
  with session_holder_served [of "toy_message n x" "toy_header n" "sealed_body x" "toy_svc_env True" toy_svc _ "replicate 64 CHR ''a''" toy_request "svc_tm toy_svc"
      "''alice''" "toy_info ''t2'' TS_Task_Running" "Socket_id SERVER_SOCKET 1"] n
  show ?thesis by (intro exI [of _ n] exI [of _ x]) (simp add: toy_served_simps Let_def)
qed


text \<open>Before she has a session, \<open>alice\<close> is let in by her signature; with the same request she is let in again by a session only.\<close>

definition toy_params :: authority_params where
  "toy_params = \<lparr>ap_wallet = ''alice'', ap_nonce = ''n1'', ap_sign = toy_sign ''alice'' ''n1'', ap_multisig_wallets = [], ap_multisig_threshold = 0, ap_multisig_signs = [],
     ap_session_id = ''s1'', ap_session_id_sign = toy_sign ''alice'' ''s1''\<rparr>"

definition toy_first :: "toy svc" where
  "toy_first = toy_svc\<lparr>svc_tm := toy_two TS_Task_Running\<rparr>"

lemma toy_let_in:
  obtains r s' where "check_authority (toy_svc_env True) toy_params toy_first = (Inr r, s')" "ar_success r" "ar_user_role r = WalletRenter"
    "svc_filter s' = filter_insert ''n1'' (new_filter 4 2 128 7)"
proof -
  let ?E = "toy_svc_env True"
  obtain i where i: "create_session_id (hash_scratch (tenv ?E)) (session_uuid (tenv ?E)) = Inr i"
    using Base58Check_checks [OF toy_svc_simps(7) toy_svc_simps(7)] unfolding create_session_id_def by blast
  have no: "deleteAllCheckTasks (tenv ?E) (svc_tm toy_first) = svc_tm toy_first" "checkSessionId (tenv ?E) ''s1'' g (svc_tm toy_first) = []"
      "getWalletSessionByWallet ''alice'' (svc_tm toy_first) = None" for g
    by (simp_all add: deleteAllCheckTasks_def checkSessionId_def getWalletSessionBySessionId_def getWalletSessionByWallet_def smap_lookup_def toy_first_def toy_two_def toy_tm_def is_check_task_def)
  have g: "toy_sign w t \<noteq> []" for w t by (auto simp: toy_sign_def with_0x_def)
  have c: "check_nonce ?E ''alice'' ''n1'' (toy_sign ''alice'' ''n1'') toy_first = (FResultOk, toy_first\<lparr>svc_filter := filter_insert ''n1'' (new_filter 4 2 128 7)\<rparr>)"
    by (simp add: check_nonce_def g toy_svc_simps filter_contains_def lru_contains_def) (simp add: toy_first_def toy_svc_simps lru_contains_def)
  have "toy_first\<lparr>svc_tm := svc_tm toy_first\<rparr> = toy_first" by simp
  with c no i show thesis
    by (intro that) (simp add: check_authority_def toy_svc_simps authority_rented_def toy_params_def Let_def parse_wallet_def check_nonce_multisig_def FResultOk_def
      mbind_def try_renter_def new_result_def in_tm_def mlift_def mret_def createSessionId_def, simp_all)
qed

theorem signed_nonce_good_once_witness:
  "\<exists>r s' r2 t'. check_authority (toy_svc_env True) toy_params toy_first = (Inr r, s') \<and> ar_success r \<and> ar_user_role r = WalletRenter \<and>
     check_authority (toy_svc_env True) toy_params (toy_svc\<lparr>svc_filter := svc_filter s'\<rparr>) = (Inr r2, t') \<and> ar_success r2 \<and> ar_user_role r2 = SessionIdRenter"
proof -
  obtain r s' where 1: "check_authority (toy_svc_env True) toy_params toy_first = (Inr r, s')" "ar_success r" "ar_user_role r = WalletRenter" by (rule toy_let_in)
  let ?t = "toy_svc\<lparr>svc_filter := svc_filter s'\<rparr>"
  have "\<exists>r2. check_authority (toy_svc_env True) toy_params ?t = (Inr r2, ?t) \<and> ar_success r2"
    by (simp add: check_authority_def authority_rented_def toy_svc_simps toy_no_checks toy_session_signed toy_params_def Let_def)
  then obtain r2 where 2: "check_authority (toy_svc_env True) toy_params ?t = (Inr r2, ?t)" "ar_success r2" by blast
  have "ar_user_role r2 = SessionIdRenter"
    by (rule signed_nonce_good_once [OF _ 1(1,2) _ _ _ _ 2, of 4 "[]"])
      (simp_all add: 1 filter_run_def toy_first_def toy_svc_simps wf_new_filter toy_params_def)
  with 1 2 show ?thesis by blast
qed

end
