(* ===== verification/Spec2Isabelle.thy ===== *)
theory Spec2Isabelle
  imports Message_Delivery Service_Module Node_Authority
begin

text \<open>
  \<^bold>\<open>The core of DBC.\<close> A DBC node rents out a machine: it exchanges messages with its peers over TCP,
  takes requests from wallets through them and runs virtual machines for those that are entitled. This
  development models the path from the bytes of a socket to the handlers of the services and back, the
  checks of authority, and the tasks behind them, as they are written under \<open>src/src/dbc\<close>.

  \<^bold>\<open>The parts and how they interact.\<close> A \<open>tcp_socket_channel\<close> owns a socket, a receive buffer and a
  queue of messages to send. Bytes that arrive go to its handler's \<open>on_read\<close>; the handler feeds them
  to the decoder (\<open>matrix_coder\<close>), which reassembles frames, decompresses them, reads the packet
  header and the thrift header and either reads the body of a registered message class or keeps a
  message for another node as raw bytes. The handler then applies the login rules, the checks of
  the routing path and the filter of nonces, and publishes the message on the bus (\<open>topic_manager\<close>).
  A \<open>service_module\<close> subscribed there pushes it on its queue, from which its thread takes it. In the
  other direction \<open>channel::write\<close> queues a message, the handler encodes the first of the queue into
  the send buffer and the completions of the socket drive the rest.

  The service of requests (\<open>node_request_service\<close>) opens the requests sealed for this node and passes the
  others on; a request that is let in becomes a call of the task manager, which checks it, puts the
  task into a transitional status and an event into its queue. One thread takes the events and works on
  the domains of libvirt, another prunes the tasks by what the chain says about the machine.

  \<^bold>\<open>Theories, in the order of the layers.\<close>

  \<^item> \<open>Prelude\<close>: machine integers, failures (a C++ exception, \<open>assert\<close>, undefined behaviour, a loop that
    does not end) and the monad of code that mutates an object and may fail; shared lemmas.
  \<^item> \<open>Byte_Buf\<close>: \<open>util/memory/byte_buf.{h,cpp}\<close>. The allocation is a list, the pointers are offsets.
    Every operation keeps the invariant; a default buffer is a queue of bytes (locale \<open>byte_fifo\<close>).
  \<^item> \<open>Thrift_Protocol\<close>: \<open>network/protocol/protocol.{h,cpp}\<close>: the virtual interface \<open>protocol\<close> as a record of
    operations, \<open>skip\<close>, and reading and writing \<open>base_header\<close>. \<open>Thrift_Codec\<close> states the contracts of an
    implementation as locales (\<open>thrift_codec\<close>: what was written is read back; \<open>thrift_reader\<close>: every read
    is safe) and proves the header's properties once from them.
  \<^item> \<open>Thrift_Binary\<close>, \<open>Thrift_Compact\<close>: the two implementations, \<open>thrift_binary.h\<close> and
    \<open>thrift_compact.{h,cpp}\<close>, with their interpretations of the contracts.
  \<^item> \<open>Matrix_Compress\<close>: \<open>network/compress/matrix_compress.cpp\<close> and \<open>matrix_capacity.cpp\<close>. Snappy is a
    parameter.
  \<^item> \<open>Net_Message\<close>: \<open>message/protocol_coder/net_message.cpp\<close> and \<open>matrix_coder::recv_message\<close>, refined from
    the specification that cuts a stream at its length fields.
  \<^item> \<open>Matrix_Coder\<close>: the rest of \<open>matrix_coder.cpp\<close> and \<open>length_field_frame_decoder.h\<close>: encoding and
    decoding of packets and the forwarding of messages for other nodes.
  \<^item> \<open>Thrift_Struct\<close>: the code the thrift compiler generates for a struct, once, over a description of
    its members; \<open>Matrix_Types\<close>: the descriptions of all structs of \<open>message/matrix_types.cpp\<close> and
    \<open>lan_types.cpp\<close> and the table of message classes of \<open>init_decode_invoker\<close>.
  \<^item> \<open>Nonce_Filter\<close>: \<open>util/bloomlru_filter.h\<close>, \<open>util/filter/bloom.cpp\<close> (the rolling filter), \<open>util/lru.hpp\<close> and
    \<open>MurmurHash3\<close>.
  \<^item> \<open>Sha256\<close>: \<open>util/crypto/sha256.cpp\<close> against FIPS 180-4; \<open>Base58\<close>: \<open>util/crypto/base58.cpp\<close> and the ids of
    \<open>util/utils/crypt_util.cpp\<close>.
  \<^item> \<open>Tcp_Channel\<close>: \<open>network/channel/tcp_socket_channel.cpp\<close>: its operations, the step relation of the
    sending side with its threads and completions, and the locale \<open>message_encoder\<close> (what a channel
    needs of its handler) in which the order of sending is proved.
  \<^item> \<open>Channel_Handler\<close>: \<open>socket_channel_handler/{tcp,server,client}_socket_channel_handler.cpp\<close>: login,
    timers, reading and writing; the step relation of a handler's life and the locale
    \<open>handler_safety\<close>, interpreted for the server's and the client's login gate; the handler as an
    instance of \<open>message_encoder\<close>.
  \<^item> \<open>Message_Delivery\<close>: the composition of the two ends of a connection.
  \<^item> \<open>Connection_Manager\<close>: \<open>network/connection_manager.cpp\<close>, \<open>tcp_acceptor.cpp\<close>, \<open>tcp_connector.cpp\<close> and
    \<open>utils/socket_id.h\<close>: the tables of channels over a store of channels, connectors and acceptors, the
    step relation of the events that reach the manager with its invariant, routing and broadcasting.
  \<^item> \<open>P2p_Net_Service\<close>: \<open>service/peer_request_service/p2p_net_service.cpp\<close>, \<open>peer_node.cpp\<close> and \<open>peer_candidate.h\<close> on
    top of the connection manager: the candidates as references into a store, the peer nodes, login,
    the exchange of addresses and the timers that connect and disconnect; the step relation of the
    events of the service with the invariant of its tables. Signatures, the resolver and the parsing of
    addresses are members of the environment \<open>p2p_env\<close>.
  \<^item> \<open>Topic_Manager\<close>: \<open>network/topic_manager.h\<close>; \<open>Service_Module\<close>: \<open>service_module/service_module.cpp\<close>, the
    timers of \<open>timer/\<close> and the dispatch of messages.
  \<^item> \<open>Vm_Client\<close>: \<open>task/vm/vm_client.cpp\<close> on top of libvirt, whose functions are the members of \<open>host_env\<close> over a state of
    the host of any type.
  \<^item> \<open>Task_Tables\<close>: the tables under \<open>task/detail\<close> with their databases, the events, and the shell commands of the
    port forwarding. The record \<open>tm\<close> collects the members of the singletons.
  \<^item> \<open>Task_Manager\<close>: \<open>task/TaskManager.cpp\<close> and the events of \<open>TaskDiskManager.cpp\<close>; the chain client, the readings of the
    host, JSON and the other managers are members of \<open>task_env\<close>. \<open>Task_Lifecycle\<close> proves its properties.
  \<^item> \<open>Base64\<close>: \<open>util/base64.cc\<close> and the sealing of data in \<open>util/utils.cpp\<close>, over the boxes of tweetnacl as a parameter
    with their documented law.
  \<^item> \<open>Node_Request_Service\<close>: \<open>service/node_request_service/node_request_service.cpp\<close>: the checks, the answers, the body that
    all handlers share, and the actions of 15 of them. \<open>Node_Authority\<close> proves its properties.

  \<^bold>\<open>What the lemmas show.\<close> End to end: the messages one node's channel accepts are published by the
  other node in that order, each once, however TCP cuts the stream (\<open>Message_Delivery\<close>). For each
  layer: round trips (headers, all message classes, compression, packets), safety on arbitrary
  input (no out-of-bounds access, no divergence, exceptions only), refinement (frames, buffers,
  service queue), invariants of reachable states (login gates, order of sending, the tables of the
  connection manager and of the peer-to-peer service), who receives a broadcast or a response, who is
  recorded as a peer, timers firing on schedule, exactness of the filter. For the services: nothing happens
  to the tasks without authority, what authority rests on, that a signed nonce is good once, that sealed
  requests arrive; for the tasks: that every event resolves the status it answers, that a deleted task leaves
  nothing behind, whose tasks pruning ends and whose it spares, that sessions authenticate their wallet, that
  GPUs are given to one task only and CPUs within the host. Some theorems record behaviour that is not intended; they are
  named in the manifest's findings.

  \<^bold>\<open>Bounds and loops.\<close> \<open>recv_loop\<close> has the number of unread bytes as fuel: every turn consumes a byte,
  and \<open>recv_message\<close> is proved never to run out. \<open>skip\<close> and the loops over the fields of a struct have
  the unread bytes plus one as fuel; the safety theorems show that running out cannot be observed.
  The loop of the handler's \<open>on_read\<close> is a partial function proved to return on every input. The growth
  loop of \<open>write_to_byte_buf\<close> follows the source, its divergence for an empty allocation included.
  The loops over the back files of an image are partial functions, their divergence on a cyclic chain is a failure
  of the model; the waits for an address and for other domains are bounded in the source (1000 and 5 turns).
  Sizes in hypotheses are those of the code: 10 MiB for a send buffer, frames of 30 bytes to 4 MiB.

  \<^bold>\<open>Not modelled.\<close> Logging; socket options and addresses; the wire order of simultaneous system calls
  (completions are atomic steps). \<open>flow_ctrl\<close> is never created by the handlers (\<open>MAX_RECV_SPEED\<close> is 0).
  The configuration and the database of candidates. Of the task layer: the XML of the domains, logs, VNC,
  statistics, \<open>modifyTask\<close> and the setting of passwords. Of the service of requests: the handlers that list, show
  logs, modify, set passwords, move images, monitor and manage networks, and the service broadcast; they have the
  same frame as the modelled ones. The REST service, the HTTP wrappers, local network discovery, the image and
  network managers and the monitoring drive libevent, rapidjson, leveldb and the shell, which are not part of the
  sources; what the modelled parts use of them is a parameter.
\<close>

end
